(* ===== verification/Lore_Prelude.thy ===== *)
theory Lore_Prelude
  imports Main "HOL-Library.Sublist" "HOL-Library.Word"
begin

text \<open>
  Shared vocabulary of the development: the collections of simplification facts, machine-size
  arithmetic of \<open>size_t\<close>, and the members of \<open>std::string\<close> that the sources call
  (\<open>find\<close>, \<open>rfind\<close>, \<open>find_first_not_of\<close>, \<open>find_last_not_of\<close>, \<open>substr\<close>), with the lemmas
  that characterise them.  A position result of \<open>npos\<close> is \<open>None\<close>.
\<close>

named_theorems lore_string "characterisations of the std::string searches"
named_theorems lore_inv "preservation of the components' invariants"

subsection \<open>Characters named in the sources\<close>

abbreviation nl :: char where "nl \<equiv> CHR 0x0A"
abbreviation tab :: char where "tab \<equiv> CHR 0x09"
abbreviation vt :: char where "vt \<equiv> CHR 0x0B"
abbreviation ff :: char where "ff \<equiv> CHR 0x0C"
abbreviation cr :: char where "cr \<equiv> CHR 0x0D"
abbreviation dquote :: char where "dquote \<equiv> CHR 0x22"
abbreviation squote :: char where "squote \<equiv> CHR 0x27"
abbreviation backslash :: char where "backslash \<equiv> CHR 0x5C"

text \<open>
  C's \<open>isdigit\<close> and the C-locale \<open>tolower\<close> / \<open>toupper\<close>.  The code passes them a plain \<open>char\<close>; for a byte
  from 0x80 on, negative where \<open>char\<close> is signed, ISO C leaves the call undefined.  Here it is what the C
  libraries of the supported platforms answer: no digit, and no change.
\<close>

definition is_digit :: "char \<Rightarrow> bool" where
  "is_digit c \<longleftrightarrow> 48 \<le> (of_char c :: nat) \<and> (of_char c :: nat) \<le> 57"

definition digit_val :: "char \<Rightarrow> nat" where
  "digit_val c = of_char c - 48"

definition c_tolower :: "char \<Rightarrow> char" where
  "c_tolower c = (let n = (of_char c :: nat) in if 65 \<le> n \<and> n \<le> 90 then char_of (n + 32) else c)"

definition c_toupper :: "char \<Rightarrow> char" where
  "c_toupper c = (let n = (of_char c :: nat) in if 97 \<le> n \<and> n \<le> 122 then char_of (n - 32) else c)"

subsection \<open>size\_t arithmetic\<close>

text \<open>
  A \<open>size_t\<close> is 64 bits wide on every supported target; sums and differences wrap.
\<close>

definition size_add :: "nat \<Rightarrow> nat \<Rightarrow> nat" where
  "size_add a b = (a + b) mod 2 ^ 64"

definition size_sub :: "nat \<Rightarrow> nat \<Rightarrow> nat" where
  "size_sub a b = nat ((int a - int b) mod 2 ^ 64)"

definition npos :: nat where
  "npos = 2 ^ 64 - 1"

definition or_npos :: "nat option \<Rightarrow> nat" where
  "or_npos p = (case p of None \<Rightarrow> npos | Some i \<Rightarrow> i)"

lemma size_sub_le [simp]: "b \<le> a \<Longrightarrow> a < 2 ^ 64 \<Longrightarrow> size_sub a b = a - b"
  by (simp add: size_sub_def nat_diff_distrib flip: of_nat_diff)

lemma size_add_small [simp]: "a + b < 2 ^ 64 \<Longrightarrow> size_add a b = a + b"
  by (simp add: size_add_def)

lemma size_add_npos [simp]: "size_add npos 1 = 0"
  by (simp add: size_add_def npos_def)

subsection \<open>Substring search\<close>

fun find_sub :: "'a list \<Rightarrow> 'a list \<Rightarrow> nat option" where
  "find_sub p [] = (if p = [] then Some 0 else None)"
| "find_sub p (x # xs) =
     (if prefix p (x # xs) then Some 0 else map_option Suc (find_sub p xs))"

text \<open>\<open>s.find(p, pos)\<close>.\<close>

definition find_from :: "'a list \<Rightarrow> 'a list \<Rightarrow> nat \<Rightarrow> nat option" where
  "find_from s p pos =
     (if pos \<le> length s then map_option (\<lambda>i. pos + i) (find_sub p (drop pos s)) else None)"

text \<open>\<open>s.find(c)\<close>, \<open>s.rfind(c)\<close> and \<open>s.find_last_of(c)\<close> for a single character.\<close>

fun find_char :: "'a \<Rightarrow> 'a list \<Rightarrow> nat option" where
  "find_char c [] = None"
| "find_char c (x # xs) = (if x = c then Some 0 else map_option Suc (find_char c xs))"

fun rfind_char :: "'a \<Rightarrow> 'a list \<Rightarrow> nat option" where
  "rfind_char c [] = None"
| "rfind_char c (x # xs) =
     (case rfind_char c xs of
        Some i \<Rightarrow> Some (Suc i)
      | None \<Rightarrow> if x = c then Some 0 else None)"

text \<open>\<open>s.rfind(p)\<close>: the last position at which \<open>p\<close> occurs.\<close>

fun rfind_sub :: "'a list \<Rightarrow> 'a list \<Rightarrow> nat option" where
  "rfind_sub p [] = (if p = [] then Some 0 else None)"
| "rfind_sub p (x # xs) =
     (case rfind_sub p xs of
        Some i \<Rightarrow> Some (Suc i)
      | None \<Rightarrow> if prefix p (x # xs) then Some 0 else None)"

fun find_first_not_of :: "'a list \<Rightarrow> 'a list \<Rightarrow> nat option" where
  "find_first_not_of cs [] = None"
| "find_first_not_of cs (x # xs) =
     (if x \<in> set cs then map_option Suc (find_first_not_of cs xs) else Some 0)"

fun find_last_not_of :: "'a list \<Rightarrow> 'a list \<Rightarrow> nat option" where
  "find_last_not_of cs [] = None"
| "find_last_not_of cs (x # xs) =
     (case find_last_not_of cs xs of
        Some i \<Rightarrow> Some (Suc i)
      | None \<Rightarrow> if x \<in> set cs then None else Some 0)"

text \<open>\<open>s.substr(pos, n)\<close> throws \<open>std::out_of_range\<close> (\<open>None\<close>) when \<open>pos\<close> is past the end.\<close>

definition substr :: "'a list \<Rightarrow> nat \<Rightarrow> nat \<Rightarrow> 'a list option" where
  "substr s pos n = (if pos \<le> length s then Some (take n (drop pos s)) else None)"

lemma find_sub_Some [lore_string]:
  "find_sub p s = Some i \<longleftrightarrow>
     i \<le> length s \<and> prefix p (drop i s) \<and> (\<forall>j < i. \<not> prefix p (drop j s))"
proof (induction s arbitrary: i)
  case Nil
  then show ?case by (auto simp: prefix_bot.bot_unique)
next
  case (Cons x xs)
  show ?case
  proof (cases i)
    case 0
    then show ?thesis by auto
  next
    case (Suc k)
    then show ?thesis
      by (auto simp: Cons.IH All_less_Suc2)
  qed
qed

lemma find_sub_None [lore_string]:
  "find_sub p s = None \<longleftrightarrow> (\<forall>j \<le> length s. \<not> prefix p (drop j s))"
proof (induction s)
  case Nil
  then show ?case by (auto simp: prefix_bot.bot_unique)
next
  case (Cons x xs)
  have "(\<forall>j \<le> length (x # xs). \<not> prefix p (drop j (x # xs))) \<longleftrightarrow>
        \<not> prefix p (x # xs) \<and> (\<forall>j \<le> length xs. \<not> prefix p (drop j xs))"
    by (simp add: All_less_Suc2 flip: less_Suc_eq_le)
  with Cons.IH show ?case by auto
qed

lemma find_sub_Nil [simp]: "find_sub [] s = Some 0"
  by (cases s) auto

lemma find_sub_bound: "find_sub p s = Some i \<Longrightarrow> i + length p \<le> length s"
  by (auto simp: find_sub_Some dest!: prefix_length_le)

lemma find_from_0 [simp]: "find_from s p 0 = find_sub p s"
  by (cases "find_sub p s") (simp_all add: find_from_def)

lemma find_from_bound: "find_from s p pos = Some i \<Longrightarrow> pos \<le> i \<and> i + length p \<le> length s"
  by (auto simp: find_from_def split: if_splits dest!: find_sub_bound)

lemma find_char_sub: "find_char c s = find_sub [c] s"
  by (induction s) auto

lemma find_char_None [lore_string]: "find_char c s = None \<longleftrightarrow> c \<notin> set s"
  by (induction s) auto

lemma find_char_Some [lore_string]:
  "find_char c s = Some i \<longleftrightarrow> i < length s \<and> s ! i = c \<and> c \<notin> set (take i s)"
proof (induction s arbitrary: i)
  case (Cons x xs)
  then show ?case by (cases i) auto
qed simp

lemma rfind_char_None [lore_string]: "rfind_char c s = None \<longleftrightarrow> c \<notin> set s"
  by (induction s) (auto split: option.splits)

lemma rfind_char_Some [lore_string]:
  "rfind_char c s = Some i \<longleftrightarrow> i < length s \<and> s ! i = c \<and> c \<notin> set (drop (Suc i) s)"
proof (induction s arbitrary: i)
  case (Cons x xs)
  show ?case
  proof (cases "c \<in> set xs")
    case True
    then obtain k where k: "rfind_char c xs = Some k"
      using rfind_char_None [of c xs] by (cases "rfind_char c xs") auto
    show ?thesis
    proof (cases i)
      case 0
      with True k show ?thesis by simp
    next
      case (Suc j)
      with k Cons.IH [of j] show ?thesis by auto
    qed
  next
    case False
    then have "rfind_char c xs = None" by (simp add: rfind_char_None)
    with False show ?thesis by (cases i) (auto dest: nth_mem)
  qed
qed simp

lemma find_first_not_of_None [lore_string]:
  "find_first_not_of cs s = None \<longleftrightarrow> set s \<subseteq> set cs"
  by (induction s) auto

lemma find_first_not_of_Some [lore_string]:
  "find_first_not_of cs s = Some i \<longleftrightarrow>
     \<not> set s \<subseteq> set cs \<and> i = length (takeWhile (\<lambda>x. x \<in> set cs) s)"
  by (induction s arbitrary: i) auto

lemma find_last_not_of_None [lore_string]:
  "find_last_not_of cs s = None \<longleftrightarrow> set s \<subseteq> set cs"
  by (induction s) (auto split: option.splits)

lemma find_last_not_of_bound: "find_last_not_of cs s = Some i \<Longrightarrow> i < length s"
  by (induction s arbitrary: i) (auto split: option.splits if_splits)

lemma find_last_not_of_append:
  "find_last_not_of cs (s @ [x]) =
     (if x \<in> set cs then find_last_not_of cs s else Some (length s))"
  by (induction s) (auto split: option.splits)

text \<open>The suffix that \<open>rtrim\<close> removes, through \<open>rev\<close> and \<open>dropWhile\<close>.\<close>

definition strip_left :: "'a list \<Rightarrow> 'a list \<Rightarrow> 'a list" where
  "strip_left cs s = dropWhile (\<lambda>x. x \<in> set cs) s"

definition strip_right :: "'a list \<Rightarrow> 'a list \<Rightarrow> 'a list" where
  "strip_right cs s = rev (dropWhile (\<lambda>x. x \<in> set cs) (rev s))"

lemma take_last_not_of [lore_string]:
  "take (case find_last_not_of cs s of None \<Rightarrow> 0 | Some i \<Rightarrow> Suc i) s = strip_right cs s"
proof (induction s rule: rev_induct)
  case (snoc x xs)
  then show ?case
    by (auto simp: strip_right_def find_last_not_of_append
        split: option.splits dest: find_last_not_of_bound)
qed (simp add: strip_right_def)

lemma drop_first_not_of [lore_string]:
  "drop (case find_first_not_of cs s of None \<Rightarrow> length s | Some i \<Rightarrow> i) s = strip_left cs s"
proof (cases "find_first_not_of cs s")
  case None
  then have "set s \<subseteq> set cs" by (simp add: find_first_not_of_None)
  with None show ?thesis by (simp add: strip_left_def) (metis dropWhile_eq_Nil_conv subset_eq)
next
  case (Some i)
  then have "i = length (takeWhile (\<lambda>x. x \<in> set cs) s)" by (simp add: find_first_not_of_Some)
  with Some show ?thesis by (simp add: strip_left_def dropWhile_eq_drop)
qed

lemma strip_left_idem [simp]: "strip_left cs (strip_left cs s) = strip_left cs s"
  by (simp add: strip_left_def)

lemma strip_right_idem [simp]: "strip_right cs (strip_right cs s) = strip_right cs s"
  by (simp add: strip_right_def)

lemma strip_left_eq_Nil [simp]: "strip_left cs s = [] \<longleftrightarrow> set s \<subseteq> set cs"
  by (auto simp: strip_left_def)

lemma strip_right_eq_Nil [simp]: "strip_right cs s = [] \<longleftrightarrow> set s \<subseteq> set cs"
  by (auto simp: strip_right_def)

lemma strip_left_hd: "strip_left cs s = x # xs \<Longrightarrow> x \<notin> set cs"
  by (auto simp: strip_left_def dropWhile_eq_Cons_conv)

lemma strip_right_last: "strip_right cs s \<noteq> [] \<Longrightarrow> last (strip_right cs s) \<notin> set cs"
proof -
  assume "strip_right cs s \<noteq> []"
  then have "dropWhile (\<lambda>x. x \<in> set cs) (rev s) \<noteq> []" by (auto simp: strip_right_def)
  then show ?thesis
    using hd_dropWhile [of "\<lambda>x. x \<in> set cs" "rev s"] by (simp add: strip_right_def last_rev)
qed

lemma strip_padded:
  assumes "set w \<subseteq> set cs" "set w' \<subseteq> set cs" "x = [] \<or> hd x \<notin> set cs \<and> last x \<notin> set cs"
  shows "strip_right cs (strip_left cs (w @ x @ w')) = x"
proof (cases "x = []")
  case True
  with assms have "set (w @ x @ w') \<subseteq> set cs" by simp
  then have e: "strip_left cs (w @ x @ w') = []" by (simp only: strip_left_eq_Nil)
  show ?thesis unfolding e using True by (simp add: strip_right_def)
next
  case False
  then obtain a as where a: "x = a # as" "a \<notin> set cs" using assms(3) by (cases x) auto
  have "strip_left cs (w @ x @ w') = x @ w'"
    using assms(1) a by (auto simp: strip_left_def dropWhile_append)
  moreover obtain b bs where b: "x = bs @ [b]" "b \<notin> set cs"
    using False assms(3) by (cases x rule: rev_cases) auto
  then have "strip_right cs (x @ w') = x"
    using assms(2) by (auto simp: strip_right_def dropWhile_append)
  ultimately show ?thesis by simp
qed

lemma strip_right_append_kept:
  "x \<notin> set cs \<Longrightarrow> strip_right cs (s @ [x]) = s @ [x]"
  by (simp add: strip_right_def)

subsection \<open>Searching by a predicate\<close>

lemma find_map: "List.find Q (map g xs) = map_option g (List.find (\<lambda>x. Q (g x)) xs)"
  by (induction xs) auto

lemma find_append:
  "List.find P (xs @ ys) = (case List.find P xs of Some x \<Rightarrow> Some x | None \<Rightarrow> List.find P ys)"
  by (induction xs) auto

lemma find_append_Some: "List.find P xs = Some x \<Longrightarrow> List.find P (xs @ ys) = Some x"
  by (induction xs) (auto split: if_splits)

lemma find_in_set: "List.find P xs = Some x \<Longrightarrow> x \<in> set xs"
  by (induction xs) (auto split: if_splits)

lemma find_rev_upt:
  "List.find P (rev [a..<b]) = Some i \<longleftrightarrow> a \<le> i \<and> i < b \<and> P i \<and> (\<forall>j. i < j \<and> j < b \<longrightarrow> \<not> P j)"
proof (induction b)
  case (Suc b)
  show ?case
  proof (cases "a \<le> b")
    case True
    then show ?thesis using Suc by (auto simp: less_Suc_eq)
  qed auto
qed simp

lemma find_rev_upt_None:
  "List.find P (rev [a..<b]) = None \<longleftrightarrow> (\<forall>j. a \<le> j \<and> j < b \<longrightarrow> \<not> P j)"
  by (auto simp: find_None_iff)

lemma rfind_sub_find:
  assumes "p \<noteq> []"
  shows "rfind_sub p s = List.find (\<lambda>i. prefix p (drop i s)) (rev [0..<length s])"
proof (induction s)
  case (Cons x xs)
  have "[0..<Suc (length xs)] = 0 # map Suc [0..<length xs]" by (simp only: map_Suc_upt upt_conv_Cons zero_less_Suc)
  then have "List.find (\<lambda>i. prefix p (drop i (x # xs))) (rev [0..<length (x # xs)]) =
      List.find (\<lambda>i. prefix p (drop i (x # xs))) (map Suc (rev [0..<length xs]) @ [0])"
    by (simp add: rev_map)
  also have "\<dots> = (case map_option Suc (rfind_sub p xs) of Some i \<Rightarrow> Some i | None \<Rightarrow> if prefix p (x # xs) then Some 0 else None)"
    unfolding Cons by (simp add: find_append find_map o_def split: option.split)
  finally show ?case by (simp split: option.split)
qed (simp add: assms)

subsection \<open>Counted loops that may fail\<close>

text \<open>\<open>for (i : is) s = f(i, s)\<close>, stopping with \<open>None\<close> as soon as one iteration is undefined.\<close>

fun for_each :: "('i \<Rightarrow> 's \<Rightarrow> 's option) \<Rightarrow> 'i list \<Rightarrow> 's \<Rightarrow> 's option" where
  "for_each f [] s = Some s"
| "for_each f (i # is) s = (case f i s of None \<Rightarrow> None | Some s' \<Rightarrow> for_each f is s')"

lemma for_each_upt:
  assumes "a \<le> b" and "P a s"
    and "\<And>i s. a \<le> i \<Longrightarrow> i < b \<Longrightarrow> P i s \<Longrightarrow> \<exists>s'. f i s = Some s' \<and> P (Suc i) s'"
  shows "\<exists>s'. for_each f [a..<b] s = Some s' \<and> P b s'"
  using assms
proof (induction "b - a" arbitrary: a s)
  case (Suc k)
  then have "a < b" by simp
  with Suc.prems obtain s' where "f a s = Some s'" "P (Suc a) s'" by blast
  moreover have "\<exists>t. for_each f [Suc a..<b] s' = Some t \<and> P b t"
    using Suc.hyps(2) Suc.prems(3) \<open>a < b\<close> \<open>P (Suc a) s'\<close> by (intro Suc.hyps(1)) simp_all
  ultimately show ?case using \<open>a < b\<close> by (simp add: upt_conv_Cons)
qed simp


lemma for_each_const:
  "length is = length js \<Longrightarrow> for_each (\<lambda>_. f) is s = for_each (\<lambda>_. f) js s"
  by (induction "is" js arbitrary: s rule: list_induct2) (auto split: option.split)

lemma for_each_append:
  "for_each f (is @ js) s = (case for_each f is s of None \<Rightarrow> None | Some t \<Rightarrow> for_each f js t)"
  by (induction "is" arbitrary: s) (auto split: option.split)

lemma for_each_map: "for_each f (map h is) s = for_each (\<lambda>i. f (h i)) is s"
  by (induction "is" arbitrary: s) (auto split: option.split)

text \<open>\<open>std::to_string\<close> of a natural number.\<close>

fun std_to_string :: "nat \<Rightarrow> string" where
  "std_to_string n = (if n < 10 then [char_of (48 + n)] else std_to_string (n div 10) @ [char_of (48 + n mod 10)])"

declare std_to_string.simps [simp del]

end
