(* ===== verification/String_Extras.thy ===== *)
theory String_Extras
  imports Lore_Prelude
begin

text \<open>
  The string algorithms of \<open>src/libs/Support/StringExtras.cpp\<close> and
  \<open>include/lorelei/Support/StringExtras.h\<close>: \<open>join\<close>, \<open>split\<close>, \<open>replace\<close>, the trimming and prefix
  helpers, positional \<open>format\<close>, \<open>${...}\<close> expansion (\<open>varexp\<close>) and \<open>vasprintf\<close>.
  Loops are kept as loops over positions; each is then related to a reference function on lists.
\<close>

subsection \<open>join, split and replace\<close>

text \<open>
  \<open>join\<close> appends every element but the last with its delimiter, then \<open>v.back()\<close>.  The two C++
  overloads (\<open>std::string\<close> and \<open>std::string_view\<close> elements) have the same text.
\<close>

definition join :: "string list \<Rightarrow> string \<Rightarrow> string" where
  "join v delimiter =
     (if v = [] then []
      else foldl (\<lambda>res i. res @ v ! i @ delimiter) [] [0..<length v - 1] @ last v)"

text \<open>
  \<open>split\<close>: the loop runs while \<open>s.find(delimiter, start)\<close> succeeds.  It need not stop, so it is a
  partial function: \<open>None\<close> is "does not return".
\<close>

partial_function (option) split_loop ::
  "string \<Rightarrow> string \<Rightarrow> nat \<Rightarrow> nat option \<Rightarrow> string list \<Rightarrow> string list option" where
  "split_loop s delimiter start end_pos tokens =
     (case end_pos of
        None \<Rightarrow> Some (tokens @ [drop start s])
      | Some e \<Rightarrow>
          (let start' = e + length delimiter
           in split_loop s delimiter start' (find_from s delimiter start')
                (tokens @ [take (e - start) (drop start s)])))"

definition split :: "string \<Rightarrow> string \<Rightarrow> string list option" where
  "split s delimiter = split_loop s delimiter 0 (find_from s delimiter 0) []"

text \<open>
  \<open>replace\<close>: the loop rewrites the string in place and continues behind the inserted text.
\<close>

function replace_loop :: "string \<Rightarrow> string \<Rightarrow> string \<Rightarrow> nat \<Rightarrow> string" where
  "replace_loop str from_s to_s start_pos =
     (if from_s = [] then str
      else case find_from str from_s start_pos of
        None \<Rightarrow> str
      | Some i \<Rightarrow>
          replace_loop (take i str @ to_s @ drop (i + length from_s) str) from_s to_s
            (i + length to_s))"
  by pat_completeness auto
termination
proof (relation "measure (\<lambda>(str, from_s, to_s, start_pos). length str - start_pos)")
  fix str from_s to_s :: string and start_pos i :: nat
  assume "from_s \<noteq> []" and "find_from str from_s start_pos = Some i"
  then have "start_pos \<le> i" "i + length from_s \<le> length str" "0 < length from_s"
    by (auto dest: find_from_bound)
  then show "((take i str @ to_s @ drop (i + length from_s) str, from_s, to_s, i + length to_s),
              (str, from_s, to_s, start_pos))
             \<in> measure (\<lambda>(str, from_s, to_s, start_pos). length str - start_pos)"
    by (simp del: length_greater_0_conv)
qed simp

declare replace_loop.simps [simp del]

definition replace :: "string \<Rightarrow> string \<Rightarrow> string \<Rightarrow> string" where
  "replace str from_s to_s = (if from_s = [] then str else replace_loop str from_s to_s 0)"

text \<open>Reference functions: separators between elements, and the pieces between delimiters.\<close>

fun intersperse :: "string \<Rightarrow> string list \<Rightarrow> string" where
  "intersperse d [] = []"
| "intersperse d [x] = x"
| "intersperse d (x # y # xs) = x @ d @ intersperse d (y # xs)"

function pieces :: "string \<Rightarrow> string \<Rightarrow> string list" where
  "pieces d s =
     (if d = [] then [s]
      else case find_sub d s of
        None \<Rightarrow> [s]
      | Some i \<Rightarrow> take i s # pieces d (drop (i + length d) s))"
  by pat_completeness auto
termination
  by (relation "measure (\<lambda>(d, s). length s)")
    (auto dest!: find_sub_bound simp flip: length_greater_0_conv)

declare pieces.simps [simp del]

subsubsection \<open>Lemmas\<close>

lemma join_prefix:
  "n \<le> length v \<Longrightarrow>
     foldl (\<lambda>res i. res @ v ! i @ d) r [0..<n] = r @ concat (map (\<lambda>x. x @ d) (take n v))"
  by (induction n) (simp_all add: take_Suc_conv_app_nth)

lemma intersperse_snoc:
  "intersperse d (v @ [x]) = concat (map (\<lambda>y. y @ d) v) @ x"
  by (induction v rule: induct_list012) auto

lemma join_eq_intersperse: "join v d = intersperse d v"
proof (cases v rule: rev_cases)
  case (snoc w x)
  then show ?thesis
    by (simp add: join_def join_prefix intersperse_snoc)
qed (simp add: join_def)

lemma pieces_nonempty [simp]: "pieces d s \<noteq> []"
  by (subst pieces.simps) (auto split: option.splits)

lemma intersperse_Cons: "xs \<noteq> [] \<Longrightarrow> intersperse d (x # xs) = x @ d @ intersperse d xs"
  by (cases xs) auto

lemma find_sub_split: "find_sub d s = Some i \<Longrightarrow> s = take i s @ d @ drop (i + length d) s"
proof -
  assume "find_sub d s = Some i"
  then obtain r where r: "drop i s = d @ r" by (auto simp: find_sub_Some prefix_def)
  have "drop (i + length d) s = drop (length d) (drop i s)" by (simp add: add.commute)
  with r have "drop (i + length d) s = r" by simp
  with r show ?thesis by (metis append_take_drop_id)
qed

lemma intersperse_pieces: "intersperse d (pieces d s) = s"
proof (induction d s rule: pieces.induct)
  case (1 d s)
  show ?case
  proof (cases "d = []")
    case True
    then show ?thesis by (simp add: pieces.simps)
  next
    case nonempty: False
    show ?thesis
    proof (cases "find_sub d s")
      case None
      with nonempty show ?thesis by (simp add: pieces.simps)
    next
      case (Some i)
      with nonempty have "intersperse d (pieces d (drop (i + length d) s)) = drop (i + length d) s"
        by (rule "1.IH")
      with nonempty Some show ?thesis
        by (simp add: pieces.simps [of d s] intersperse_Cons flip: find_sub_split [OF Some])
    qed
  qed
qed

lemma split_loop_pieces:
  assumes "d \<noteq> []" and "start \<le> length s"
  shows "split_loop s d start (find_from s d start) tokens = Some (tokens @ pieces d (drop start s))"
  using assms(2)
proof (induction "length s - start" arbitrary: start tokens rule: less_induct)
  case less
  show ?case
  proof (cases "find_sub d (drop start s)")
    case None
    with less.prems assms(1) show ?thesis
      by (simp add: split_loop.simps find_from_def pieces.simps)
  next
    case (Some i)
    let ?start' = "start + i + length d"
    from Some have b: "i + length d \<le> length s - start" by (auto dest: find_sub_bound)
    have "0 < length d" using assms(1) by simp
    with b less.prems have dec: "length s - ?start' < length s - start" "?start' \<le> length s"
      by linarith+
    from less.hyps [OF dec]
    have "split_loop s d ?start' (find_from s d ?start') (tokens @ [take i (drop start s)]) =
          Some ((tokens @ [take i (drop start s)]) @ pieces d (drop ?start' s))" .
    moreover have "pieces d (drop start s) = take i (drop start s) # pieces d (drop ?start' s)"
      using Some assms(1) by (simp add: pieces.simps [of d "drop start s"] add_ac)
    moreover have "find_from s d start = Some (start + i)"
      using Some less.prems by (simp add: find_from_def)
    ultimately show ?thesis
      by (simp add: split_loop.simps [of s d start] Let_def)
  qed
qed

lemma split_eq_pieces: "d \<noteq> [] \<Longrightarrow> split s d = Some (pieces d s)"
  using split_loop_pieces [of d 0 s "[]"] by (simp add: split_def)

lemma split_loop_diverges:
  assumes "split_loop s d start end_pos tokens = Some r"
  shows "d = [] \<longrightarrow> (case end_pos of None \<Rightarrow> True | Some e \<Rightarrow> length s < e)"
proof (rule split_loop.raw_induct
    [where P = "\<lambda>s d start end_pos tokens r. d = [] \<longrightarrow>
       (case end_pos of None \<Rightarrow> True | Some e \<Rightarrow> length s < e)", OF _ assms])
  fix f and s d :: string and start end_pos tokens r
  assume IH: "\<And>s d start end_pos tokens r. f s d start end_pos tokens = Some r \<Longrightarrow>
      d = [] \<longrightarrow> (case end_pos of None \<Rightarrow> True | Some e \<Rightarrow> length s < e)"
    and eq: "(case end_pos of
        None \<Rightarrow> Some (tokens @ [drop start s])
      | Some e \<Rightarrow>
          (let start' = e + length d
           in f s d start' (find_from s d start') (tokens @ [take (e - start) (drop start s)])))
      = Some r"
  show "d = [] \<longrightarrow> (case end_pos of None \<Rightarrow> True | Some e \<Rightarrow> length s < e)"
  proof (cases end_pos)
    case (Some e)
    show ?thesis
    proof
      assume d: "d = []"
      with Some eq have "f s d e (find_from s d e) (tokens @ [take (e - start) (drop start s)]) = Some r"
        by (simp add: Let_def)
      from IH [OF this] d have "case find_from s [] e of None \<Rightarrow> True | Some e' \<Rightarrow> length s < e'"
        by simp
      with Some show "case end_pos of None \<Rightarrow> True | Some e \<Rightarrow> length s < e"
        by (auto simp: find_from_def split: if_splits)
    qed
  qed simp
qed

text \<open>With an empty delimiter \<open>find\<close> succeeds at every position, so the loop never ends.\<close>

lemma split_empty_delimiter: "split s [] = None"
proof (cases "split s []")
  case (Some r)
  then have "split_loop s [] 0 (Some 0) [] = Some r" by (simp add: split_def)
  from split_loop_diverges [OF this] show ?thesis by simp
qed simp

text \<open>\<open>replace\<close> is \<open>join\<close> over the pieces.\<close>

lemma replace_loop_pieces:
  assumes "from_s \<noteq> []"
  shows "start_pos \<le> length str \<Longrightarrow>
    replace_loop str from_s to_s start_pos =
      take start_pos str @ intersperse to_s (pieces from_s (drop start_pos str))"
  using assms
proof (induction str from_s to_s start_pos rule: replace_loop.induct)
  case (1 str f t p)
  show ?case
  proof (cases "find_sub f (drop p str)")
    case None
    with 1 show ?thesis
      by (simp add: replace_loop.simps [of str] find_from_def pieces.simps)
  next
    case (Some i)
    let ?str' = "take (p + i) str @ t @ drop (p + i + length f) str"
    from Some "1.prems" have fnd: "find_from str f p = Some (p + i)" by (simp add: find_from_def)
    from Some have "i + length f \<le> length str - p" by (auto dest: find_sub_bound)
    with "1.prems" have len: "p + i \<le> length str" by linarith
    from "1.IH" [OF \<open>f \<noteq> []\<close> fnd] \<open>f \<noteq> []\<close> len
    have "replace_loop ?str' f t (p + i + length t) =
          take (p + i) str @ t @ intersperse t (pieces f (drop (p + i + length f) str))"
      by simp
    moreover have "pieces f (drop p str) = take i (drop p str) # pieces f (drop (p + i + length f) str)"
      using Some \<open>f \<noteq> []\<close> by (simp add: pieces.simps [of f "drop p str"] add_ac)
    ultimately show ?thesis
      using fnd \<open>f \<noteq> []\<close> by (simp add: replace_loop.simps [of str] intersperse_Cons take_add)
  qed
qed

lemma replace_eq: "from_s \<noteq> [] \<Longrightarrow> replace str from_s to_s = intersperse to_s (pieces from_s str)"
  using replace_loop_pieces [of from_s 0 str to_s] by (simp add: replace_def)

text \<open>A one-character delimiter splits a joined list back into its elements.\<close>

lemma pieces_char:
  assumes "c \<notin> set x"
  shows "pieces [c] x = [x]" and "pieces [c] (x @ c # y) = x # pieces [c] y"
proof -
  have no: "\<not> prefix [c] (drop j x)" for j
    using assms by (auto simp: prefix_def dest!: arg_cong [of _ _ set] dest: in_set_dropD)
  then have "find_sub [c] x = None" by (simp add: find_sub_None)
  then show "pieces [c] x = [x]" by (simp add: pieces.simps)
  have "\<not> prefix [c] (drop j (x @ c # y))" if "j < length x" for j
    using that assms by (auto simp: prefix_def Cons_nth_drop_Suc [symmetric])
  then have "find_sub [c] (x @ c # y) = Some (length x)" by (simp add: find_sub_Some)
  then show "pieces [c] (x @ c # y) = x # pieces [c] y" by (simp add: pieces.simps [of _ "x @ c # y"])
qed

lemma pieces_intersperse_char:
  assumes "v \<noteq> []" and "\<forall>x \<in> set v. c \<notin> set x"
  shows "pieces [c] (intersperse [c] v) = v"
  using assms
  by (induction "[c]" v rule: intersperse.induct) (simp_all add: pieces_char)

subsection \<open>Prefix, suffix and trimming helpers\<close>

definition str_to_upper :: "string \<Rightarrow> string" where
  "str_to_upper s = map c_toupper s"

definition str_to_lower :: "string \<Rightarrow> string" where
  "str_to_lower s = map c_tolower s"

definition starts_with :: "string \<Rightarrow> string \<Rightarrow> bool" where
  "starts_with s p \<longleftrightarrow> length p \<le> length s \<and> take (length p) s = p"

definition starts_with_char :: "string \<Rightarrow> char \<Rightarrow> bool" where
  "starts_with_char s c \<longleftrightarrow> 1 \<le> length s \<and> hd s = c"

definition ends_with :: "string \<Rightarrow> string \<Rightarrow> bool" where
  "ends_with s p \<longleftrightarrow> length p \<le> length s \<and> drop (length s - length p) s = p"

definition ends_with_char :: "string \<Rightarrow> char \<Rightarrow> bool" where
  "ends_with_char s c \<longleftrightarrow> 1 \<le> length s \<and> last s = c"

text \<open>\<open>drop_front\<close> throws past the end; \<open>drop_back\<close> subtracts in \<open>size_t\<close>.\<close>

definition drop_front :: "string \<Rightarrow> nat \<Rightarrow> string option" where
  "drop_front s N = substr s N npos"

definition drop_back :: "string \<Rightarrow> nat \<Rightarrow> string option" where
  "drop_back s N = substr s 0 (size_sub (length s) N)"

definition ltrim :: "string \<Rightarrow> string \<Rightarrow> string option" where
  "ltrim s Chars = drop_front s (min (length s) (or_npos (find_first_not_of Chars s)))"

definition rtrim :: "string \<Rightarrow> string \<Rightarrow> string option" where
  "rtrim s Chars =
     drop_back s (size_sub (length s)
       (min (length s) (size_add (or_npos (find_last_not_of Chars s)) 1)))"

definition trim :: "string \<Rightarrow> string \<Rightarrow> string option" where
  "trim s Chars = (case ltrim s Chars of None \<Rightarrow> None | Some t \<Rightarrow> rtrim t Chars)"

text \<open>The default character set of the trimming helpers.\<close>

definition default_ws :: string where
  "default_ws = [CHR '' '', tab, nl, vt, ff, cr]"

definition contains :: "string \<Rightarrow> string \<Rightarrow> bool" where
  "contains s sub \<longleftrightarrow> find_sub sub s \<noteq> None"

definition contains_char :: "string \<Rightarrow> char \<Rightarrow> bool" where
  "contains_char s c \<longleftrightarrow> find_char c s \<noteq> None"

lemma starts_with_prefix: "starts_with s p \<longleftrightarrow> prefix p s"
  by (auto simp: starts_with_def prefix_def) (metis append_take_drop_id)

lemma ends_with_suffix: "ends_with s p \<longleftrightarrow> suffix p s"
proof
  assume "ends_with s p"
  then show "suffix p s"
    unfolding ends_with_def suffix_def by (metis append_take_drop_id)
next
  assume "suffix p s"
  then show "ends_with s p" by (auto simp: ends_with_def suffix_def)
qed

lemma contains_sublist: "contains s p \<longleftrightarrow> (\<exists>u v. s = u @ p @ v)"
proof
  assume "contains s p"
  then obtain i where "find_sub p s = Some i" by (auto simp: contains_def)
  then show "\<exists>u v. s = u @ p @ v" by (metis find_sub_split)
next
  assume "\<exists>u v. s = u @ p @ v"
  then obtain u v where "s = u @ p @ v" by blast
  then have "length u \<le> length s" "prefix p (drop (length u) s)" by auto
  then show "contains s p" by (auto simp: contains_def find_sub_None)
qed

text \<open>
  Within the address space (fewer than \<open>2^64 - 1\<close> characters) the wrap-around of \<open>npos + 1\<close> is
  exactly what makes an all-blank string trim to the empty one, and no call throws.
\<close>

lemma ltrim_strip:
  assumes "length s < npos"
  shows "ltrim s cs = Some (strip_left cs s)"
proof (cases "find_first_not_of cs s")
  case None
  then show ?thesis
    using assms drop_first_not_of [where cs = cs and s = s]
    by (simp add: ltrim_def drop_front_def substr_def or_npos_def min_def)
next
  case (Some i)
  then have "i \<le> length s" by (simp add: find_first_not_of_Some length_takeWhile_le)
  with Some assms drop_first_not_of [where cs = cs and s = s] show ?thesis
    by (simp add: ltrim_def drop_front_def substr_def or_npos_def min_def)
qed

lemma rtrim_strip:
  assumes "length s < npos"
  shows "rtrim s cs = Some (strip_right cs s)"
proof (cases "find_last_not_of cs s")
  case None
  have "size_sub (length s) (size_sub (length s) 0) = 0"
    using assms by (simp add: npos_def)
  with None show ?thesis
    using assms take_last_not_of [where cs = cs and s = s] size_add_npos
    by (simp add: rtrim_def drop_back_def substr_def or_npos_def npos_def [symmetric])
next
  case (Some i)
  then have i: "i < length s" by (rule find_last_not_of_bound)
  then have "size_add i 1 = Suc i" using assms by (simp add: npos_def)
  moreover have "size_sub (length s) (size_sub (length s) (Suc i)) = Suc i"
    using i assms by (simp add: npos_def)
  ultimately show ?thesis
    using Some i take_last_not_of [where cs = cs and s = s]
    by (simp add: rtrim_def drop_back_def substr_def or_npos_def)
qed

lemma strip_left_length: "length (strip_left cs s) \<le> length s"
  by (simp add: strip_left_def length_dropWhile_le)

lemma trim_strip: "length s < npos \<Longrightarrow> trim s cs = Some (strip_right cs (strip_left cs s))"
  using strip_left_length [of cs s] by (simp add: trim_def ltrim_strip rtrim_strip)

subsection \<open>Positional formatting\<close>

text \<open>
  \<open>format\<close> walks \<open>fmt\<close> with \<open>p\<close>, remembers the start of the pending literal segment and collects
  parts.  The placeholder number is an \<open>int\<close>: exceeding \<open>INT_MAX\<close> is undefined behaviour, which
  is \<open>None\<close> here.
\<close>

definition int_max :: int where
  "int_max = 2147483647"

function index_loop :: "string \<Rightarrow> nat \<Rightarrow> int \<Rightarrow> (int \<times> nat) option" where
  "index_loop fmt q index =
     (if q < length fmt \<and> is_digit (fmt ! q)
      then (let index' = index * 10 + int (digit_val (fmt ! q))
            in if int_max < index' then None else index_loop fmt (Suc q) index')
      else Some (index, q))"
  by pat_completeness auto
termination
  by (relation "measure (\<lambda>(fmt, q, index). length fmt - q)") auto

declare index_loop.simps [simp del]

lemma index_loop_ge: "index_loop fmt q index = Some (n, q') \<Longrightarrow> q \<le> q'"
proof (induction fmt q index rule: index_loop.induct)
  case (1 fmt q index)
  then show ?case
    by (subst (asm) (2) index_loop.simps) (auto simp: Let_def split: if_splits)
qed

definition flush_segment :: "string \<Rightarrow> nat \<Rightarrow> nat \<Rightarrow> string list \<Rightarrow> string list" where
  "flush_segment fmt segment_start p parts =
     (if segment_start < p then parts @ [take (p - segment_start) (drop segment_start fmt)] else parts)"

function format_loop ::
  "string \<Rightarrow> string list \<Rightarrow> nat \<Rightarrow> nat \<Rightarrow> string list \<Rightarrow> string list option" where
  "format_loop fmt args p segment_start parts =
     (if p < length fmt then
        (if fmt ! p = CHR ''%'' \<and> p + 1 < length fmt then
           (let nxt = fmt ! (p + 1) in
            if nxt = CHR ''%'' then
              format_loop fmt args (p + 2) (p + 2) (flush_segment fmt segment_start p parts @ [''%''])
            else if is_digit nxt then
              (case index_loop fmt (p + 2) (int (digit_val nxt)) of
                 None \<Rightarrow> None
               | Some (n, q) \<Rightarrow>
                   (let index = n - 1 in
                    if 0 \<le> index \<and> index < int (length args) then
                      format_loop fmt args q q
                        (flush_segment fmt segment_start p parts @ [args ! nat index])
                    else format_loop fmt args q segment_start parts))
            else format_loop fmt args (p + 1) segment_start parts)
         else format_loop fmt args (p + 1) segment_start parts)
      else Some (flush_segment fmt segment_start p parts))"
  by pat_completeness auto
termination
  by (relation "measure (\<lambda>(fmt, args, p, seg, parts). length fmt - p)")
    (auto dest: index_loop_ge)

declare format_loop.simps [simp del]

definition format :: "string \<Rightarrow> string list \<Rightarrow> string option" where
  "format fmt args = map_option concat (format_loop fmt args 0 0 [])"

text \<open>Reference semantics: one left-to-right pass over the characters.\<close>

definition digits_value :: "string \<Rightarrow> nat" where
  "digits_value ds = foldl (\<lambda>n c. n * 10 + digit_val c) 0 ds"

function format_ref :: "string list \<Rightarrow> string \<Rightarrow> string" where
  "format_ref args [] = []"
| "format_ref args [c] = [c]"
| "format_ref args (c # d # s) =
     (if c \<noteq> CHR ''%'' then c # format_ref args (d # s)
      else if d = CHR ''%'' then CHR ''%'' # format_ref args s
      else if is_digit d then
        (let ds = takeWhile is_digit (d # s); n = digits_value ds in
         (if 1 \<le> n \<and> n \<le> length args then args ! (n - 1) else c # ds)
           @ format_ref args (dropWhile is_digit (d # s)))
      else c # format_ref args (d # s))"
  by pat_completeness auto
termination
  by (relation "measure (\<lambda>(args, s). length s)") (auto simp: le_imp_less_Suc length_dropWhile_le less_SucI)

text \<open>Some placeholder number does not fit an \<open>int\<close>.\<close>

function format_overflows :: "string \<Rightarrow> bool" where
  "format_overflows [] = False"
| "format_overflows [c] = False"
| "format_overflows (c # d # s) =
     (if c \<noteq> CHR ''%'' then format_overflows (d # s)
      else if d = CHR ''%'' then format_overflows s
      else if is_digit d then
        int_max < int (digits_value (takeWhile is_digit (d # s))) \<or>
        format_overflows (dropWhile is_digit (d # s))
      else format_overflows (d # s))"
  by pat_completeness auto
termination
  by (relation "measure length") (auto simp: le_imp_less_Suc length_dropWhile_le less_SucI)

lemma foldl_digits_ge: "n \<le> foldl (\<lambda>n c. n * 10 + digit_val c) n ds"
proof (induction ds arbitrary: n)
  case (Cons d ds)
  have "n \<le> n * 10 + digit_val d" by simp
  also have "\<dots> \<le> foldl (\<lambda>n c. n * 10 + digit_val c) (n * 10 + digit_val d) ds" by (rule Cons.IH)
  finally show ?case by simp
qed simp

lemma index_loop_eq:
  assumes "int n \<le> int_max"
  shows "index_loop fmt q (int n) =
    (let ds = takeWhile is_digit (drop q fmt); v = foldl (\<lambda>n c. n * 10 + digit_val c) n ds
     in if int_max < int v then None else Some (int v, q + length ds))"
  using assms
proof (induction "length fmt - q" arbitrary: q n)
  case 0
  then show ?case by (simp add: index_loop.simps Let_def)
next
  case (Suc k)
  then have q: "q < length fmt" by linarith
  then have drp: "drop q fmt = fmt ! q # drop (Suc q) fmt" by (simp add: Cons_nth_drop_Suc)
  let ?n = "n * 10 + digit_val (fmt ! q)"
  have step: "int n * 10 + int (digit_val (fmt ! q)) = int ?n" by simp
  show ?case
  proof (cases "is_digit (fmt ! q)")
    case False
    with q drp Suc.prems show ?thesis by (subst index_loop.simps) (simp add: Let_def)
  next
    case True
    let ?v = "foldl (\<lambda>n c. n * 10 + digit_val c) ?n (takeWhile is_digit (drop (Suc q) fmt))"
    show ?thesis
    proof (cases "int_max < int ?n")
      case overflow: True
      have "int ?n \<le> int ?v" using foldl_digits_ge by (simp only: of_nat_le_iff)
      with overflow have "int_max < int ?v" by linarith
      with q True drp overflow show ?thesis
        by (subst index_loop.simps) (simp add: Let_def)
    next
      case fits: False
      from Suc.hyps(1) [of "Suc q" ?n] Suc.hyps(2) fits
      have "index_loop fmt (Suc q) (int ?n) =
        (if int_max < int ?v then None
         else Some (int ?v, Suc q + length (takeWhile is_digit (drop (Suc q) fmt))))"
        by (simp add: Let_def)
      with q True drp fits show ?thesis
        by (subst index_loop.simps) (simp add: Let_def)
    qed
  qed
qed

lemma concat_flush_segment:
  "seg \<le> p \<Longrightarrow> concat (flush_segment fmt seg p parts) = concat parts @ take (p - seg) (drop seg fmt)"
  by (simp add: flush_segment_def)

lemma segment_extend:
  "seg \<le> p \<Longrightarrow> take (p + k - seg) (drop seg fmt) = take (p - seg) (drop seg fmt) @ take k (drop p fmt)"
  by (metis Nat.add_diff_assoc2 drop_drop le_add_diff_inverse2 take_add)

text \<open>
  The loop invariant: what was collected, then the pending literal segment, then the reference
  output for the rest of the format string.
\<close>

definition format_inv :: "string \<Rightarrow> string list \<Rightarrow> nat \<Rightarrow> nat \<Rightarrow> string list \<Rightarrow> bool" where
  "format_inv fmt args p seg parts \<longleftrightarrow>
     map_option concat (format_loop fmt args p seg parts) =
       (if format_overflows (drop p fmt) then None
        else Some (concat parts @ take (p - seg) (drop seg fmt) @ format_ref args (drop p fmt)))"

lemma format_inv_skip:
  assumes "seg \<le> p" "p < length fmt"
    and "format_loop fmt args p seg parts = format_loop fmt args (p + k) seg parts"
    and "format_overflows (drop p fmt) = format_overflows (drop (p + k) fmt)"
    and "format_ref args (drop p fmt) = take k (drop p fmt) @ format_ref args (drop (p + k) fmt)"
    and "format_inv fmt args (p + k) seg parts"
  shows "format_inv fmt args p seg parts"
  using assms by (simp add: format_inv_def segment_extend)

lemma format_inv_part:
  assumes "seg \<le> p"
    and "format_loop fmt args p seg parts =
           format_loop fmt args q q (flush_segment fmt seg p parts @ [a])"
    and "format_overflows (drop p fmt) = format_overflows (drop q fmt)"
    and "format_ref args (drop p fmt) = a @ format_ref args (drop q fmt)"
    and "format_inv fmt args q q (flush_segment fmt seg p parts @ [a])"
  shows "format_inv fmt args p seg parts"
  using assms by (simp add: format_inv_def concat_flush_segment)

lemma placeholder_scan:
  assumes "p + 1 < length fmt" "fmt ! p = CHR ''%''" "is_digit (fmt ! (p + 1))"
  defines "ds \<equiv> takeWhile is_digit (drop (p + 1) fmt)"
  shows "index_loop fmt (p + 2) (int (digit_val (fmt ! (p + 1)))) =
           (if int_max < int (digits_value ds) then None
            else Some (int (digits_value ds), p + 1 + length ds))"
    and "drop (p + 1 + length ds) fmt = dropWhile is_digit (drop (p + 1) fmt)"
    and "take (1 + length ds) (drop p fmt) = CHR ''%'' # ds"
    and "p + 1 + length ds \<le> length fmt"
proof -
  have d1: "drop (p + 1) fmt = fmt ! (p + 1) # drop (p + 2) fmt"
    using assms(1) Cons_nth_drop_Suc [of "p + 1" fmt] by simp
  have d0: "drop p fmt = CHR ''%'' # drop (p + 1) fmt"
    using assms(1,2) Cons_nth_drop_Suc [of p fmt] by simp
  have ds: "ds = fmt ! (p + 1) # takeWhile is_digit (drop (p + 2) fmt)"
    using assms(3) unfolding ds_def d1 by simp
  have "int (digit_val (fmt ! (p + 1))) \<le> int_max"
    using assms(3) by (simp add: is_digit_def digit_val_def int_max_def)
  from index_loop_eq [OF this, of fmt "p + 2"] ds
  show "index_loop fmt (p + 2) (int (digit_val (fmt ! (p + 1)))) =
           (if int_max < int (digits_value ds) then None
            else Some (int (digits_value ds), p + 1 + length ds))"
    by (simp add: Let_def digits_value_def)
  show "drop (p + 1 + length ds) fmt = dropWhile is_digit (drop (p + 1) fmt)"
    unfolding ds_def by (simp add: dropWhile_eq_drop add.commute)
  show "take (1 + length ds) (drop p fmt) = CHR ''%'' # ds"
    unfolding d0 ds_def by (simp add: takeWhile_eq_take [symmetric])
  have "length ds \<le> length fmt - (p + 1)"
    unfolding ds_def using length_takeWhile_le [of is_digit "drop (p + 1) fmt"] by simp
  with assms(1) show "p + 1 + length ds \<le> length fmt" by linarith
qed


lemma format_ref_end: "length s \<le> 1 \<Longrightarrow> format_ref args s = s \<and> \<not> format_overflows s"
  by (cases s rule: format_overflows.cases) auto

lemma format_ref_literal:
  "c = CHR ''%'' \<longrightarrow> d \<noteq> CHR ''%'' \<and> \<not> is_digit d \<Longrightarrow>
     format_ref args (c # d # s) = c # format_ref args (d # s) \<and>
     format_overflows (c # d # s) = format_overflows (d # s)"
  by simp

lemma format_loop_literal:
  assumes "p < length fmt"
    and "p + 1 < length fmt \<Longrightarrow> fmt ! p = CHR ''%'' \<Longrightarrow>
           fmt ! (p + 1) \<noteq> CHR ''%'' \<and> \<not> is_digit (fmt ! (p + 1))"
  shows "format_loop fmt args p seg parts = format_loop fmt args (p + 1) seg parts"
  using assms by (subst format_loop.simps) (auto simp: Let_def)

lemma format_loop_percent:
  assumes "p + 1 < length fmt" "fmt ! p = CHR ''%''" "fmt ! (p + 1) = CHR ''%''"
  shows "format_loop fmt args p seg parts =
    format_loop fmt args (p + 2) (p + 2) (flush_segment fmt seg p parts @ [''%''])"
  using assms by (subst format_loop.simps) (simp add: Let_def)

lemma format_loop_digit:
  assumes "p + 1 < length fmt" "fmt ! p = CHR ''%''" "is_digit (fmt ! (p + 1))"
  defines "ds \<equiv> takeWhile is_digit (drop (p + 1) fmt)"
  shows "format_loop fmt args p seg parts =
    (let n = digits_value ds; q = p + 1 + length ds in
     if int_max < int n then None
     else if 1 \<le> n \<and> n \<le> length args
     then format_loop fmt args q q (flush_segment fmt seg p parts @ [args ! (n - 1)])
     else format_loop fmt args q seg parts)"
proof -
  have "fmt ! (p + 1) \<noteq> CHR ''%''" using assms(3) by (auto simp: is_digit_def)
  moreover have "nat (int n - 1) = n - 1" for n by simp
  ultimately show ?thesis
    using assms(1-3) placeholder_scan(1) [OF assms(1-3), folded ds_def]
    by (subst format_loop.simps) (auto simp: Let_def)
qed

lemma format_ref_digit:
  fixes d :: char and s :: string
  assumes "is_digit d"
  defines "ds \<equiv> takeWhile is_digit (d # s)"
  shows "format_ref args (CHR ''%'' # d # s) =
      (let n = digits_value ds in
       (if 1 \<le> n \<and> n \<le> length args then args ! (n - 1) else CHR ''%'' # ds)
         @ format_ref args (dropWhile is_digit (d # s)))"
    and "format_overflows (CHR ''%'' # d # s) \<longleftrightarrow>
      int_max < int (digits_value ds) \<or> format_overflows (dropWhile is_digit (d # s))"
proof -
  have "d \<noteq> CHR ''%''" using assms(1) by (auto simp: is_digit_def)
  then show "format_ref args (CHR ''%'' # d # s) =
      (let n = digits_value ds in
       (if 1 \<le> n \<and> n \<le> length args then args ! (n - 1) else CHR ''%'' # ds)
         @ format_ref args (dropWhile is_digit (d # s)))"
    and "format_overflows (CHR ''%'' # d # s) \<longleftrightarrow>
      int_max < int (digits_value ds) \<or> format_overflows (dropWhile is_digit (d # s))"
    using assms(1) unfolding ds_def by (simp_all only: format_ref.simps format_overflows.simps
        Let_def simp_thms if_True if_False)
qed

lemma format_inv_digit:
  assumes at: "seg \<le> p" "p + 1 < length fmt" "fmt ! p = CHR ''%''" "is_digit (fmt ! (p + 1))"
    and later: "\<And>q seg parts. p < q \<Longrightarrow> q \<le> length fmt \<Longrightarrow> seg \<le> q \<Longrightarrow> format_inv fmt args q seg parts"
  shows "format_inv fmt args p seg parts"
proof -
  define ds where "ds = takeWhile is_digit (drop (p + 1) fmt)"
  note scan = placeholder_scan [OF at(2-4), folded ds_def]
  let ?n = "digits_value ds" and ?q = "p + (1 + length ds)"
  have dp1: "fmt ! (p + 1) # drop (p + 2) fmt = drop (p + 1) fmt"
    using at(2) Cons_nth_drop_Suc [of "p + 1" fmt] by simp
  have dp: "CHR ''%'' # drop (p + 1) fmt = drop p fmt"
    using at(2,3) Cons_nth_drop_Suc [of p fmt] by simp
  note ref = format_ref_digit [OF at(4), where s = "drop (p + 2) fmt",
      unfolded dp1, unfolded dp, folded ds_def scan(2)]
  note loop = format_loop_digit [OF at(2-4), folded ds_def, of args seg parts]
  show ?thesis
  proof (cases "int_max < int ?n")
    case True
    then show ?thesis by (simp add: format_inv_def loop ref Let_def)
  next
    case fits: False
    show ?thesis
    proof (cases "1 \<le> ?n \<and> ?n \<le> length args")
      case True
      show ?thesis
      proof (rule format_inv_part [OF at(1)])
        show "format_loop fmt args p seg parts = format_loop fmt args (p + 1 + length ds)
            (p + 1 + length ds) (flush_segment fmt seg p parts @ [args ! (?n - 1)])"
          using True fits by (simp only: loop Let_def if_True if_False simp_thms)
        show "format_overflows (drop p fmt) = format_overflows (drop (p + 1 + length ds) fmt)"
          using fits by (simp only: ref simp_thms)
        show "format_ref args (drop p fmt) =
            args ! (?n - 1) @ format_ref args (drop (p + 1 + length ds) fmt)"
          using True by (simp only: ref Let_def if_True simp_thms)
        show "format_inv fmt args (p + 1 + length ds) (p + 1 + length ds)
            (flush_segment fmt seg p parts @ [args ! (?n - 1)])"
          by (rule later) (use scan(4) in simp_all)
      qed
    next
      case False
      have q: "p + (1 + length ds) = p + 1 + length ds" by simp
      show ?thesis
      proof (rule format_inv_skip [OF at(1), of _ _ _ "1 + length ds"], unfold q scan(3))
        show "p < length fmt" using at(2) by simp
        show "format_loop fmt args p seg parts = format_loop fmt args (p + 1 + length ds) seg parts"
          using False fits by (simp only: loop Let_def if_False simp_thms)
        show "format_overflows (drop p fmt) = format_overflows (drop (p + 1 + length ds) fmt)"
          using fits by (simp only: ref simp_thms)
        show "format_ref args (drop p fmt) =
            (CHR ''%'' # ds) @ format_ref args (drop (p + 1 + length ds) fmt)"
          using False by (simp only: ref Let_def if_False simp_thms)
        show "format_inv fmt args (p + 1 + length ds) seg parts"
          by (rule later) (use at(1) scan(4) in simp_all)
      qed
    qed
  qed
qed

lemma format_loop_inv: "seg \<le> p \<Longrightarrow> p \<le> length fmt \<Longrightarrow> format_inv fmt args p seg parts"
proof (induction "length fmt - p" arbitrary: p seg parts rule: less_induct)
  case (less p seg parts)
  have later: "format_inv fmt args q seg parts" if "p < q" "q \<le> length fmt" "seg \<le> q" for q seg parts
    using less.hyps [of q seg parts] that by simp
  have literal: "format_inv fmt args p seg parts"
    if "p < length fmt" and "format_overflows (drop p fmt) = format_overflows (drop (p + 1) fmt)"
      and "format_ref args (drop p fmt) = take 1 (drop p fmt) @ format_ref args (drop (p + 1) fmt)"
      and "p + 1 < length fmt \<Longrightarrow> fmt ! p = CHR ''%'' \<Longrightarrow>
           fmt ! (p + 1) \<noteq> CHR ''%'' \<and> \<not> is_digit (fmt ! (p + 1))"
    using that less.prems later [of "p + 1" seg parts]
    by (intro format_inv_skip [OF less.prems(1), of _ _ _ 1] format_loop_literal) simp_all
  show ?case
  proof (cases "p + 1 < length fmt")
    case False
    then have "length (drop p fmt) \<le> 1" "length (drop (p + 1) fmt) \<le> 1" by simp_all
    note short = this [THEN format_ref_end, of args]
    show ?thesis
    proof (cases "p < length fmt")
      case True
      with False short show ?thesis by (intro literal) simp_all
    next
      case False
      then have "format_loop fmt args p seg parts = Some (flush_segment fmt seg p parts)"
        by (subst format_loop.simps) simp
      with False less.prems show ?thesis by (simp add: format_inv_def concat_flush_segment)
    qed
  next
    case more: True
    have dp1: "drop (p + 1) fmt = fmt ! (p + 1) # drop (p + 2) fmt"
      using more Cons_nth_drop_Suc [of "p + 1" fmt] by simp
    have dp: "drop p fmt = fmt ! p # drop (p + 1) fmt"
      using more Cons_nth_drop_Suc [of p fmt] by simp
    consider "fmt ! p = CHR ''%''" "fmt ! (p + 1) = CHR ''%''"
      | "fmt ! p = CHR ''%''" "is_digit (fmt ! (p + 1))"
      | "fmt ! p = CHR ''%'' \<longrightarrow> fmt ! (p + 1) \<noteq> CHR ''%'' \<and> \<not> is_digit (fmt ! (p + 1))"
      by blast
    then show ?thesis
    proof cases
      case 1
      show ?thesis
        by (rule format_inv_part [OF less.prems(1) format_loop_percent [OF more 1]])
          (use more 1 dp dp1 later in simp_all)
    next
      case 2
      show ?thesis by (rule format_inv_digit [OF less.prems(1) more 2 later])
    next
      case 3
      note ref = format_ref_literal [OF this, of args "drop (p + 2) fmt", folded dp1, folded dp]
      show ?thesis by (rule literal) (use more 3 ref dp in simp_all)
    qed
  qed
qed

lemma format_eq_ref:
  "format fmt args = (if format_overflows fmt then None else Some (format_ref args fmt))"
  using format_loop_inv [of 0 0 fmt args "[]"] by (simp add: format_inv_def format_def)

subsection \<open>Variable expansion\<close>

text \<open>
  \<open>varexp_split\<close> cuts its argument into parts, each a slice (\<open>data\<close> as an offset, \<open>size\<close>) of the
  input, and fails on an unbalanced \<open>${\<close>.  \<open>brace_scan\<close> is its inner \<open>while\<close> loop.
\<close>

datatype varexp_part_type = Literal | Literal_with_dollar | Variable | Nested_variable

record varexp_part =
  part_type :: varexp_part_type
  part_data :: nat
  part_size :: nat

function brace_scan :: "string \<Rightarrow> nat \<Rightarrow> nat \<Rightarrow> bool \<Rightarrow> nat \<times> nat \<times> bool" where
  "brace_scan s j braceCount nested =
     (if j < length s \<and> braceCount > 0 then
        (if s ! j = CHR ''$'' \<and> j + 1 < length s \<and> s ! (j + 1) = CHR ''{''
         then brace_scan s (j + 2) (braceCount + 1) True
         else brace_scan s (j + 1) (if s ! j = CHR ''}'' then braceCount - 1 else braceCount) nested)
      else (j, braceCount, nested))"
  by pat_completeness auto
termination
  by (relation "measure (\<lambda>(s, j, braceCount, nested). length s - j)") auto

declare brace_scan.simps [simp del]

lemma brace_scan_bound:
  "brace_scan s j b nst = (j', b', nst') \<Longrightarrow> j \<le> length s \<Longrightarrow> j \<le> j' \<and> j' \<le> length s"
proof (induction s j b nst rule: brace_scan.induct)
  case (1 s j b nst)
  then show ?case
    by (subst (asm) (3) brace_scan.simps) (auto split: if_splits)
qed

definition push_literal :: "varexp_part \<Rightarrow> varexp_part list \<Rightarrow> varexp_part list" where
  "push_literal buf result = (if part_size buf > 0 then result @ [buf] else result)"

function varexp_split_loop ::
  "string \<Rightarrow> nat \<Rightarrow> varexp_part \<Rightarrow> varexp_part list \<Rightarrow> varexp_part list option" where
  "varexp_split_loop s i buf result =
     (if i < length s then
        (if s ! i = CHR ''$'' \<and> i + 1 < length s then
           (if s ! (i + 1) = CHR ''{'' then
              (let start = i + 2; (j, braceCount, nested) = brace_scan s start 1 False in
               if braceCount \<noteq> 0 then None
               else varexp_split_loop s j
                      \<lparr>part_type = Literal, part_data = j, part_size = 0\<rparr>
                      (push_literal buf result @
                        [\<lparr>part_type = if nested then Nested_variable else Variable,
                          part_data = start, part_size = j - 1 - start\<rparr>]))
            else
              varexp_split_loop s (i + 2)
                (buf\<lparr>part_type := Literal_with_dollar, part_size := part_size buf + 2\<rparr>) result)
         else varexp_split_loop s (i + 1) (buf\<lparr>part_size := part_size buf + 1\<rparr>) result)
      else Some (push_literal buf result))"
  by pat_completeness auto
termination
proof (relation "measure (\<lambda>(s, i, buf, result). length s - i)", goal_cases)
  case (2 s i buf result start y j z braceCount nested)
  then have "brace_scan s (i + 2) 1 False = (j, braceCount, nested)" "i + 2 \<le> length s" by auto
  from brace_scan_bound [OF this] 2(1) show ?case by (auto simp: less_diff_conv2)
qed auto

declare varexp_split_loop.simps [simp del]

definition varexp_split :: "string \<Rightarrow> varexp_part list option" where
  "varexp_split s =
     varexp_split_loop s 0 \<lparr>part_type = Literal, part_data = 0, part_size = 0\<rparr> []"

text \<open>\<open>std::string_view(part.data, part.size)\<close>.\<close>

definition part_view :: "string \<Rightarrow> varexp_part \<Rightarrow> string" where
  "part_view s part = take (part_size part) (drop (part_data part) s)"

fun varexp_post :: "string \<Rightarrow> string" where
  "varexp_post [] = []"
| "varexp_post [c] = [c]"
| "varexp_post (c # d # s) =
     (if c = CHR ''$'' \<and> d = CHR ''$'' then CHR ''$'' # varexp_post s else c # varexp_post (d # s))"

text \<open>Every part of a successful split is a slice strictly inside a non-empty input, or a literal.\<close>

definition parts_short :: "string \<Rightarrow> varexp_part list \<Rightarrow> bool" where
  "parts_short s result \<longleftrightarrow>
     (\<forall>p \<in> set result. part_type p = Nested_variable \<longrightarrow> part_size p < length s)"

lemma parts_short_simps [simp]:
  "parts_short s []"
  "parts_short s (ps @ qs) \<longleftrightarrow> parts_short s ps \<and> parts_short s qs"
  by (auto simp: parts_short_def)

lemma parts_short_push:
  "parts_short s ps \<Longrightarrow> part_type buf \<noteq> Nested_variable \<Longrightarrow> parts_short s (push_literal buf ps)"
  by (auto simp: parts_short_def push_literal_def)

lemma varexp_split_loop_short:
  "varexp_split_loop s i buf result = Some parts \<Longrightarrow> part_type buf \<noteq> Nested_variable \<Longrightarrow>
     parts_short s result \<Longrightarrow> parts_short s parts"
proof (induction s i buf result rule: varexp_split_loop.induct)
  case (1 s i buf result)
  have var: "parts_short s [\<lparr>part_type = k, part_data = d, part_size = j - Suc (Suc (Suc i))\<rparr>]"
    if "brace_scan s (Suc (Suc i)) (Suc 0) False = (j, b, n)" "Suc i < length s" for k d j b n
    using brace_scan_bound [OF that(1)] that(2) by (auto simp: parts_short_def)
  from 1 show ?case
    by (subst (asm) (4) varexp_split_loop.simps)
      (auto simp: Let_def parts_short_push var split: if_splits prod.splits)
qed

lemma part_view_length: "length (part_view s p) \<le> part_size p"
  by (simp add: part_view_def)

lemma varexp_split_short:
  "varexp_split s = Some parts \<Longrightarrow> p \<in> set parts \<Longrightarrow> part_type p = Nested_variable \<Longrightarrow>
     length (part_view s p) < length s"
  using varexp_split_loop_short [of s 0 "\<lparr>part_type = Literal, part_data = 0, part_size = 0\<rparr>" "[]" parts]
    part_view_length [of s p]
  by (fastforce simp: varexp_split_def parts_short_def)

text \<open>\<open>varexp\<close> itself; \<open>find\<close> is the caller's \<open>std::function\<close>.\<close>

function varexp :: "(string \<Rightarrow> string) \<Rightarrow> string \<Rightarrow> string" where
  "varexp find_var s =
     (case varexp_split s of
        None \<Rightarrow> []
      | Some parts \<Rightarrow>
          varexp_post (concat (map (\<lambda>part.
            case part_type part of
              Literal \<Rightarrow> part_view s part
            | Literal_with_dollar \<Rightarrow> part_view s part
            | Variable \<Rightarrow> find_var (part_view s part)
            | Nested_variable \<Rightarrow> find_var (varexp find_var (part_view s part))) parts)))"
  by pat_completeness auto
termination
  by (relation "measure (\<lambda>(find_var, s). length s)") (auto dest: varexp_split_short)

declare varexp.simps [simp del]

text \<open>The overload on a map: an unknown variable expands to the empty string.\<close>

definition varexp_map :: "(string \<rightharpoonup> string) \<Rightarrow> string \<Rightarrow> string" where
  "varexp_map vars s = varexp (\<lambda>name. case vars name of None \<Rightarrow> [] | Some v \<Rightarrow> v) s"


text \<open>
  Reference semantics on character lists: \<open>brace_ref\<close> reads up to the brace that closes the
  current one, \<open>expand_ref\<close> copies literals and hands each body to \<open>g\<close>.
\<close>

fun brace_ref :: "string \<Rightarrow> nat \<Rightarrow> (string \<times> bool \<times> string) option" where
  "brace_ref [] b = None"
| "brace_ref [c] b = (if c = CHR ''}'' \<and> b = 1 then Some ([], False, []) else None)"
| "brace_ref (c # d # r) b =
     (if c = CHR ''$'' \<and> d = CHR ''{'' then
        map_option (\<lambda>(body, n, rest). (c # d # body, True, rest)) (brace_ref r (b + 1))
      else if c = CHR ''}'' \<and> b = 1 then Some ([], False, d # r)
      else map_option (\<lambda>(body, n, rest). (c # body, n, rest))
             (brace_ref (d # r) (if c = CHR ''}'' then b - 1 else b)))"

lemma brace_ref_split: "brace_ref s b = Some (body, n, rest) \<Longrightarrow> s = body @ CHR ''}'' # rest"
  by (induction s b arbitrary: body n rest rule: brace_ref.induct) (auto split: if_splits)

function expand_ref :: "(bool \<Rightarrow> string \<Rightarrow> string) \<Rightarrow> string \<Rightarrow> string option" where
  "expand_ref g [] = Some []"
| "expand_ref g [c] = Some [c]"
| "expand_ref g (c # d # r) =
     (if c = CHR ''$'' then
        (if d = CHR ''{'' then
           (case brace_ref r 1 of
              None \<Rightarrow> None
            | Some (body, nested, rest) \<Rightarrow> map_option (\<lambda>t. g nested body @ t) (expand_ref g rest))
         else map_option (\<lambda>t. c # d # t) (expand_ref g r))
      else map_option (\<lambda>t. c # t) (expand_ref g (d # r)))"
  by pat_completeness auto
termination
  by (relation "measure (\<lambda>(g, s). length s)") (auto dest: brace_ref_split)

lemma drop_two: "Suc i < length s \<Longrightarrow> drop i s = s ! i # s ! Suc i # drop (Suc (Suc i)) s"
  by (simp add: Cons_nth_drop_Suc)

lemma drop_step:
  assumes "i < length s"
  obtains "length s = Suc i" "drop i s = [s ! i]"
  | "Suc i < length s" "drop i s = s ! i # s ! Suc i # drop (Suc (Suc i)) s"
  using assms that by (metis Cons_nth_drop_Suc Suc_lessI drop_all order_refl)

lemma brace_scan_ref:
  assumes "0 < b" "j \<le> length s"
  shows "case brace_ref (drop j s) b of
      None \<Rightarrow> fst (snd (brace_scan s j b nst)) \<noteq> 0
    | Some (body, n, rest) \<Rightarrow> brace_scan s j b nst = (j + length body + 1, 0, nst \<or> n)"
  using assms
proof (induction "length s - j" arbitrary: j b nst rule: less_induct)
  case (less j b nst)
  note unfold = brace_scan.simps [of s j b nst]
  show ?case
  proof (cases "j < length s")
    case False
    then have "brace_scan s j b nst = (j, b, nst)" by (simp add: unfold)
    with False less.prems show ?thesis by simp
  next
    case True
    then show ?thesis
    proof (cases rule: drop_step)
      case 1
      have fin: "brace_scan s (Suc j) b' nst = (Suc j, b', nst)" for b'
        using 1 by (simp add: brace_scan.simps [of s "Suc j"])
      have "brace_scan s j b nst = (Suc j, if s ! j = CHR ''}'' then b - 1 else b, nst)"
        using True 1 less.prems by (simp add: unfold fin)
      with 1 less.prems show ?thesis by auto
    next
      case 2
      note IH1 = less.hyps [of "Suc (Suc j)" "Suc b" True] and IH2 = less.hyps [of "Suc j" _ nst]
      have dj: "drop (Suc j) s = s ! Suc j # drop (Suc (Suc j)) s"
        using 2(1) by (simp add: Cons_nth_drop_Suc)
      have fin: "brace_scan s (Suc j) 0 nst = (Suc j, 0, nst)"
        by (simp add: brace_scan.simps [of s "Suc j"])
      show ?thesis
      proof (cases "s ! j = CHR ''$'' \<and> s ! Suc j = CHR ''{''")
        case True
        with IH1 2 less.prems \<open>j < length s\<close> show ?thesis
          by (auto simp: unfold split: option.splits)
      next
        case False
        define b' where "b' = (if s ! j = CHR ''}'' then b - 1 else b)"
        have scan: "brace_scan s j b nst = brace_scan s (Suc j) b' nst"
          using False 2 less.prems \<open>j < length s\<close> by (auto simp: unfold b'_def)
        show ?thesis
        proof (cases "b' = 0")
          case True
          then have "s ! j = CHR ''}''" "b = 1" using less.prems by (auto simp: b'_def split: if_splits)
          with True 2 scan fin show ?thesis by simp
        next
          case cont: False
          then have "\<not> (s ! j = CHR ''}'' \<and> b = 1)" by (auto simp: b'_def)
          with False have "brace_ref (drop j s) b =
              map_option (\<lambda>(body, n, rest). (s ! j # body, n, rest)) (brace_ref (drop (Suc j) s) b')"
            unfolding 2(2) dj b'_def by (simp only: brace_ref.simps if_False)
          with IH2 [of b'] cont 2(1) scan show ?thesis by (auto split: option.splits)
        qed
      qed
    qed
  qed
qed

text \<open>What the parts found so far evaluate to.\<close>

definition eval_part :: "(bool \<Rightarrow> string \<Rightarrow> string) \<Rightarrow> string \<Rightarrow> varexp_part \<Rightarrow> string" where
  "eval_part g s part =
     (case part_type part of
        Literal \<Rightarrow> part_view s part
      | Literal_with_dollar \<Rightarrow> part_view s part
      | Variable \<Rightarrow> g False (part_view s part)
      | Nested_variable \<Rightarrow> g True (part_view s part))"

definition is_literal :: "varexp_part \<Rightarrow> bool" where
  "is_literal part \<longleftrightarrow> part_type part = Literal \<or> part_type part = Literal_with_dollar"

lemma eval_push_literal:
  "is_literal buf \<Longrightarrow>
     concat (map (eval_part g s) (push_literal buf parts)) =
       concat (map (eval_part g s) parts) @ part_view s buf"
  by (auto simp: push_literal_def eval_part_def is_literal_def part_view_def)

lemma part_view_extend:
  assumes "part_data buf + part_size buf = i"
  shows "part_view s (buf\<lparr>part_size := part_size buf + k\<rparr>) = part_view s buf @ take k (drop i s)"
    and "part_view s (buf\<lparr>part_type := ty, part_size := part_size buf + k\<rparr>) =
           part_view s buf @ take k (drop i s)"
  unfolding assms [symmetric] by (simp_all add: part_view_def take_add add.commute [of "part_data buf"])

lemma varexp_split_loop_ref:
  assumes "part_data buf + part_size buf = i" "i \<le> length s" "is_literal buf"
  shows "map_option (concat \<circ> map (eval_part g s)) (varexp_split_loop s i buf parts) =
    map_option (\<lambda>t. concat (map (eval_part g s) parts) @ part_view s buf @ t) (expand_ref g (drop i s))"
  using assms
proof (induction "length s - i" arbitrary: i buf parts rule: less_induct)
  case (less i buf parts)
  note unfold = varexp_split_loop.simps [of s i buf parts]
  note ext = part_view_extend [OF less.prems(1)]
  show ?case
  proof (cases "i < length s")
    case False
    then have "varexp_split_loop s i buf parts = Some (push_literal buf parts)" by (simp add: unfold)
    with False less.prems show ?thesis by (simp add: eval_push_literal)
  next
    case True
    let ?one = "buf\<lparr>part_size := part_size buf + 1\<rparr>"
    have IH1: "map_option (concat \<circ> map (eval_part g s)) (varexp_split_loop s (Suc i) ?one parts) =
      map_option (\<lambda>t. concat (map (eval_part g s) parts) @ part_view s buf @ s ! i # t)
        (expand_ref g (drop (Suc i) s))"
      using less.hyps [of "Suc i" ?one parts] True less.prems ext(1) [where k = 1 and s = s]
      by (simp add: is_literal_def take_Suc_conv_app_nth Cons_nth_drop_Suc [symmetric])
    from True show ?thesis
    proof (cases rule: drop_step)
      case 1
      with IH1 True show ?thesis by (simp add: unfold)
    next
      case 2
      have dj: "drop (Suc i) s = s ! Suc i # drop (Suc (Suc i)) s"
        using 2(1) by (simp add: Cons_nth_drop_Suc)
      consider "s ! i \<noteq> CHR ''$''" | "s ! i = CHR ''$''" "s ! Suc i \<noteq> CHR ''{''"
        | "s ! i = CHR ''$''" "s ! Suc i = CHR ''{''" by blast
      then show ?thesis
      proof cases
        case 1
        with IH1 2 True show ?thesis by (simp add: unfold dj option.map_comp comp_def)
      next
        case dd: 2
        let ?two = "buf\<lparr>part_type := Literal_with_dollar, part_size := part_size buf + 2\<rparr>"
        have "part_view s ?two = part_view s buf @ [s ! i, s ! Suc i]"
          using ext(2) [where k = 2 and s = s and ty = Literal_with_dollar] 2(2) by (simp add: numeral_2_eq_2)
        with less.hyps [of "Suc (Suc i)" ?two parts] dd 2 True less.prems show ?thesis
          by (simp add: unfold is_literal_def option.map_comp comp_def)
      next
        case var: 3
        let ?j = "Suc (Suc i)"
        have scan: "case brace_ref (drop ?j s) 1 of
            None \<Rightarrow> fst (snd (brace_scan s ?j 1 False)) \<noteq> 0
          | Some (body, n, rest) \<Rightarrow> brace_scan s ?j 1 False = (?j + length body + 1, 0, n)"
          using brace_scan_ref [of 1 ?j s False] 2(1) by (auto split: option.splits)
        show ?thesis
        proof (cases "brace_ref (drop ?j s) 1")
          case None
          with scan obtain j b n where "brace_scan s ?j 1 False = (j, Suc b, n)"
            by (cases "brace_scan s ?j 1 False") (auto simp: gr0_conv_Suc)
          with None var 2 True show ?thesis by (simp add: unfold)
        next
          case (Some r)
          then obtain body n rest where br: "brace_ref (drop ?j s) 1 = Some (body, n, rest)"
            by (cases r) auto
          from brace_ref_split [OF this] have split: "drop ?j s = body @ CHR ''}'' # rest" .
          define j where "j = ?j + length body + 1"
          define part where "part = \<lparr>part_type = if n then Nested_variable else Variable,
            part_data = ?j, part_size = length body\<rparr>"
          let ?buf = "\<lparr>part_type = Literal, part_data = j, part_size = 0\<rparr>"
          have "drop j s = drop (Suc (length body)) (drop ?j s)" by (simp add: j_def add.commute)
          then have rest: "drop j s = rest" by (simp add: split)
          have "length body < length s - ?j" using arg_cong [OF split, of length] by simp
          then have j: "i < j" "j \<le> length s" by (simp_all add: j_def)
          have part: "eval_part g s part = g n body"
            by (cases n) (simp_all add: eval_part_def part_def part_view_def split)
          have "varexp_split_loop s i buf parts =
              varexp_split_loop s j ?buf (push_literal buf parts @ [part])"
            using var 2 True scan br by (simp add: unfold part_def j_def)
          moreover have "map_option (concat \<circ> map (eval_part g s))
              (varexp_split_loop s j ?buf (push_literal buf parts @ [part])) =
            map_option (\<lambda>t. concat (map (eval_part g s) parts) @ part_view s buf @ g n body @ t)
              (expand_ref g rest)"
            using less.hyps [of j ?buf "push_literal buf parts @ [part]"] True j part less.prems(3)
            by (simp add: rest is_literal_def [of ?buf] eval_push_literal part_view_def [of s ?buf])
          ultimately show ?thesis
            using var 2(2) br by (simp add: option.map_comp comp_def)
        qed
      qed
    qed
  qed
qed


lemma varexp_expand_ref:
  "varexp find_var s =
     (case expand_ref (\<lambda>nested body. find_var (if nested then varexp find_var body else body)) s of
        None \<Rightarrow> []
      | Some t \<Rightarrow> varexp_post t)"
proof -
  let ?g = "\<lambda>nested body. find_var (if nested then varexp find_var body else body)"
  have ev: "eval_part ?g s = (\<lambda>part. case part_type part of
      Literal \<Rightarrow> part_view s part
    | Literal_with_dollar \<Rightarrow> part_view s part
    | Variable \<Rightarrow> find_var (part_view s part)
    | Nested_variable \<Rightarrow> find_var (varexp find_var (part_view s part)))"
    by (rule ext) (simp add: eval_part_def split: varexp_part_type.split)
  have "expand_ref ?g s = map_option (concat \<circ> map (eval_part ?g s)) (varexp_split s)"
    using varexp_split_loop_ref
      [of "\<lparr>part_type = Literal, part_data = 0, part_size = 0\<rparr>" 0 s ?g "[]"]
    by (simp add: varexp_split_def is_literal_def part_view_def option.map_ident)
  then show ?thesis
    unfolding varexp.simps [of find_var s] ev [symmetric] by (cases "varexp_split s") simp_all
qed

text \<open>
  Templates: what a caller of \<open>varexp\<close> writes.  Text outside references is escaped by doubling
  each dollar; inside a reference neither a dollar nor a closing brace can be written.
\<close>

datatype template = Text string | Reference "template list"

definition escape :: "string \<Rightarrow> string" where
  "escape t = concat (map (\<lambda>c. if c = CHR ''$'' then ''$$'' else [c]) t)"

fun render :: "template \<Rightarrow> string" where
  "render (Text t) = escape t"
| "render (Reference ts) = ''${'' @ concat (map render ts) @ ''}''"

fun nameable :: "template \<Rightarrow> bool" where
  "nameable (Text t) \<longleftrightarrow> CHR ''$'' \<notin> set t \<and> CHR ''}'' \<notin> set t"
| "nameable (Reference ts) \<longleftrightarrow> list_all nameable ts"

fun template_ok :: "template \<Rightarrow> bool" where
  "template_ok (Text t) \<longleftrightarrow> True"
| "template_ok (Reference ts) \<longleftrightarrow> list_all nameable ts"

fun eval_template :: "(string \<Rightarrow> string) \<Rightarrow> template \<Rightarrow> string" where
  "eval_template find_var (Text t) = t"
| "eval_template find_var (Reference ts) = find_var (concat (map (eval_template find_var) ts))"

lemma escape_plain: "CHR ''$'' \<notin> set t \<Longrightarrow> escape t = t"
  by (induction t) (auto simp: escape_def)

definition extend_body ::
    "string \<Rightarrow> bool \<Rightarrow> (string \<times> bool \<times> string) option \<Rightarrow> (string \<times> bool \<times> string) option" where
  "extend_body pre nst x =
     map_option (\<lambda>(body, n, rest). (pre @ body, n \<or> nst, rest)) x"

lemma extend_body_simps [simp]:
  "extend_body p a (extend_body q b x) = extend_body (p @ q) (a \<or> b) x"
  "extend_body [] False x = x"
  "extend_body p a (Some (body, n, rest)) = Some (p @ body, n \<or> a, rest)"
  by (cases x; auto simp: extend_body_def)+

lemma brace_ref_plain:
  "c \<noteq> CHR ''$'' \<Longrightarrow> c \<noteq> CHR ''}'' \<Longrightarrow> brace_ref (c # u) b = extend_body [c] False (brace_ref u b)"
  by (cases u) (auto simp: extend_body_def)

lemma brace_ref_text:
  "CHR ''$'' \<notin> set t \<Longrightarrow> CHR ''}'' \<notin> set t \<Longrightarrow> brace_ref (t @ u) b = extend_body t False (brace_ref u b)"
  by (induction t) (auto simp: brace_ref_plain)

lemma brace_ref_open: "brace_ref (CHR ''$'' # CHR ''{'' # u) b = extend_body ''${'' True (brace_ref u (Suc b))"
  by (simp add: extend_body_def)

lemma brace_ref_close:
  "0 < b \<Longrightarrow> brace_ref (CHR ''}'' # u) (Suc b) = extend_body ''}'' False (brace_ref u b)"
  "brace_ref (CHR ''}'' # u) 1 = Some ([], False, u)"
  by (cases u; auto simp: extend_body_def)+

definition is_reference :: "template \<Rightarrow> bool" where
  "is_reference t \<longleftrightarrow> (case t of Reference _ \<Rightarrow> True | Text _ \<Rightarrow> False)"

lemma brace_ref_templates:
  assumes "\<And>t b u. t \<in> set ts \<Longrightarrow> 0 < b \<Longrightarrow>
      brace_ref (render t @ u) b = extend_body (render t) (is_reference t) (brace_ref u b)"
    and "0 < b"
  shows "brace_ref (concat (map render ts) @ u) b =
    extend_body (concat (map render ts)) (list_ex is_reference ts) (brace_ref u b)"
  using assms by (induction ts) auto

lemma brace_ref_template:
  "nameable t \<Longrightarrow> 0 < b \<Longrightarrow>
     brace_ref (render t @ u) b = extend_body (render t) (is_reference t) (brace_ref u b)"
proof (induction t arbitrary: b u)
  case (Text t)
  then show ?case by (simp add: escape_plain brace_ref_text is_reference_def)
next
  case (Reference ts)
  have "brace_ref (concat (map render ts) @ v) (Suc b) =
      extend_body (concat (map render ts)) (list_ex is_reference ts) (brace_ref v (Suc b))" for v
    using Reference by (intro brace_ref_templates) (simp_all add: list_all_iff)
  with Reference.prems show ?case
    by (simp add: brace_ref_open brace_ref_close is_reference_def del: brace_ref.simps)
qed

lemma brace_ref_body:
  assumes "list_all nameable ts"
  shows "brace_ref (concat (map render ts) @ CHR ''}'' # u) 1 =
    Some (concat (map render ts), list_ex is_reference ts, u)"
proof -
  have "brace_ref (concat (map render ts) @ CHR ''}'' # u) 1 =
      extend_body (concat (map render ts)) (list_ex is_reference ts) (brace_ref (CHR ''}'' # u) 1)"
    using assms by (intro brace_ref_templates brace_ref_template) (simp_all add: list_all_iff)
  then show ?thesis by (simp only: brace_ref_close extend_body_simps) simp
qed

lemma expand_ref_escape:
  "expand_ref g (escape t @ u) = map_option (\<lambda>x. escape t @ x) (expand_ref g u)"
proof (induction t)
  case (Cons c t)
  have "expand_ref g (c # v) = map_option (\<lambda>x. c # x) (expand_ref g v)" if "c \<noteq> CHR ''$''" for v
    using that by (cases v) auto
  with Cons show ?case by (simp add: escape_def option.map_comp comp_def)
qed (simp add: escape_def option.map_ident)

text \<open>How a template is replaced before the final \<open>varexp_post\<close> pass.\<close>

definition expand_template :: "(bool \<Rightarrow> string \<Rightarrow> string) \<Rightarrow> template \<Rightarrow> string" where
  "expand_template g t =
     (case t of
        Text s \<Rightarrow> escape s
      | Reference b \<Rightarrow> g (list_ex is_reference b) (concat (map render b)))"

lemma expand_ref_templates:
  assumes "list_all template_ok ts"
  shows "expand_ref g (concat (map render ts) @ u) =
    map_option (\<lambda>x. concat (map (expand_template g) ts) @ x) (expand_ref g u)"
  using assms
proof (induction ts)
  case (Cons t ts)
  then show ?case
    by (cases t) (simp_all add: expand_template_def expand_ref_escape brace_ref_body
        option.map_comp comp_def del: One_nat_def)
qed (cases "expand_ref g u", simp_all)

lemma varexp_post_plain: "CHR ''$'' \<notin> set v \<Longrightarrow> varexp_post (v @ u) = v @ varexp_post u"
proof (induction v)
  case (Cons c v)
  then show ?case by (cases "v @ u") auto
qed simp

lemma varexp_post_escape: "varexp_post (escape t @ u) = t @ varexp_post u"
proof (induction t)
  case (Cons c t)
  have "varexp_post (c # v) = c # varexp_post v" if "c \<noteq> CHR ''$''" for v
    using that by (cases v) auto
  with Cons show ?case by (simp add: escape_def)
qed (simp add: escape_def)

lemma render_plain:
  "list_all nameable ts \<Longrightarrow> \<not> list_ex is_reference ts \<Longrightarrow>
     concat (map render ts) = concat (map (eval_template find_var) ts)"
proof (induction ts)
  case (Cons t ts)
  then show ?case by (cases t) (simp_all add: escape_plain is_reference_def)
qed simp

lemma nameable_ok: "nameable t \<Longrightarrow> template_ok t"
  by (cases t) auto

lemma varexp_templates:
  assumes "\<And>x. CHR ''$'' \<notin> set (find_var x)" and "list_all template_ok ts"
  shows "varexp find_var (concat (map render ts)) = concat (map (eval_template find_var) ts)"
  using assms(2)
proof (induction "size_list size ts" arbitrary: ts rule: less_induct)
  case (less ts)
  let ?g = "\<lambda>nested body. find_var (if nested then varexp find_var body else body)"
  have ref: "?g (list_ex is_reference b) (concat (map render b)) = eval_template find_var (Reference b)"
    if "Reference b \<in> set ts" for b
  proof -
    have "list_all nameable b" using that less.prems by (auto simp: list_all_iff)
    moreover have "size_list size b < size_list size ts"
      using that size_list_estimation [of "Reference b" ts "size_list size b" size] by simp
    ultimately have "varexp find_var (concat (map render b)) = concat (map (eval_template find_var) b)"
      using less.hyps [of b] by (simp add: list_all_iff nameable_ok)
    with \<open>list_all nameable b\<close> show ?thesis by (simp add: render_plain [where find_var = find_var])
  qed
  have "varexp_post (concat (map (expand_template ?g) us)) = concat (map (eval_template find_var) us)"
    if "set us \<subseteq> set ts" for us
    using that
  proof (induction us)
    case (Cons u us)
    then show ?case
      using ref by (cases u) (simp_all add: expand_template_def varexp_post_escape varexp_post_plain assms(1))
  qed simp
  moreover have "expand_ref ?g (concat (map render ts)) = Some (concat (map (expand_template ?g) ts))"
    using expand_ref_templates [OF less.prems, of ?g "[]"] by simp
  ultimately show ?case
    by (simp add: varexp_expand_ref [of find_var "concat (map render ts)"])
qed

subsection \<open>Separators and formatted printing\<close>

text \<open>\<open>normalize_separators\<close> on a non-Windows build.\<close>

definition normalize_separators :: "string \<Rightarrow> bool \<Rightarrow> string" where
  "normalize_separators utf8_path native =
     map (\<lambda>c. if c = backslash then CHR ''/'' else c) utf8_path"

text \<open>
  \<open>std::vsnprintf(buf, n, fmt, args)\<close> for the text that the format produces (\<open>None\<close>: an encoding
  error): at most \<open>n - 1\<close> characters and the terminator are stored, and the untruncated length is
  returned.
\<close>

definition vsnprintf :: "string \<Rightarrow> string option \<Rightarrow> string \<times> int" where
  "vsnprintf buf text =
     (case text of
        None \<Rightarrow> (buf, - 1)
      | Some t \<Rightarrow>
          (let stored = take (length buf - 1) t
           in (stored @ CHR 0x00 # drop (length stored + 1) buf, int (length t))))"

definition STACK_BUFFER_SIZE :: nat where
  "STACK_BUFFER_SIZE = 4096"

text \<open>\<open>s.resize(n)\<close>: shorten, or pad with NUL.\<close>

definition str_resize :: "string \<Rightarrow> nat \<Rightarrow> string" where
  "str_resize s n = take n s @ replicate (n - length s) (CHR 0x00)"

text \<open>\<open>stack_buffer\<close> is the uninitialised array, \<open>text\<close> what the format and its arguments denote.\<close>

definition vasprintf :: "string \<Rightarrow> string option \<Rightarrow> string" where
  "vasprintf stack_buffer text =
     (let (stack_buffer, len) = vsnprintf stack_buffer text in
      if len < 0 then []
      else if len < int STACK_BUFFER_SIZE then take (nat len) stack_buffer
      else (let heap_buffer = str_resize [] (nat (len + 1));
                (heap_buffer, len) = vsnprintf heap_buffer text
            in str_resize heap_buffer (nat len)))"

lemma vsnprintf_fits:
  "length t < length buf \<Longrightarrow> take (length t) (fst (vsnprintf buf (Some t))) = t"
  by (simp add: vsnprintf_def Let_def)

lemma vasprintf_Some:
  "vasprintf buf (Some t) =
     (if length t < STACK_BUFFER_SIZE then take (length t) (fst (vsnprintf buf (Some t)))
      else str_resize (fst (vsnprintf (replicate (length t + 1) (CHR 0x00)) (Some t))) (length t))"
proof -
  define f where "f b = fst (vsnprintf b (Some t))" for b
  have "vsnprintf b (Some t) = (f b, int (length t))" for b
    by (simp add: f_def vsnprintf_def Let_def)
  then show ?thesis by (simp add: vasprintf_def str_resize_def Let_def nat_add_distrib)
qed

lemma normalize_separators_no_backslash: "backslash \<notin> set (normalize_separators s native)"
  by (auto simp: normalize_separators_def)

text \<open>A \<open>const char *\<close> read back as a string: up to the first NUL.\<close>

definition c_str :: "string \<Rightarrow> string" where
  "c_str s = takeWhile (\<lambda>c. c \<noteq> CHR 0x00) s"

subsection \<open>Properties\<close>

text \<open>
  Splitting what \<open>join\<close> produced on a one-character delimiter gives the elements back, when
  no element contains the delimiter.
\<close>

theorem split_join:
  assumes "v \<noteq> []" and "\<forall>x \<in> set v. c \<notin> set x"
  shows "split (join v [c]) [c] = Some v"
  using assms by (simp add: join_eq_intersperse split_eq_pieces pieces_intersperse_char)

theorem split_join_witness: "split (join [''lib'', '''', ''so''] '','') '','' = Some [''lib'', '''', ''so'']"
  by (rule split_join) simp_all

text \<open>
  For a non-empty delimiter \<open>split\<close> always returns, and joining the pieces restores the text.
\<close>

theorem join_split:
  assumes "d \<noteq> []"
  shows "\<exists>v. split s d = Some v \<and> v \<noteq> [] \<and> join v d = s"
  using assms by (simp add: split_eq_pieces join_eq_intersperse intersperse_pieces)

theorem join_split_witness: "\<exists>v. split ''a::b'' ''::'' = Some v \<and> v \<noteq> [] \<and> join v ''::'' = ''a::b''"
  by (rule join_split) simp

text \<open>
  For an empty delimiter \<open>split\<close> never returns: \<open>find\<close> succeeds at every position and the
  cursor does not advance.
\<close>

theorem split_empty_diverges: "split s [] = None"
  by (rule split_empty_delimiter)

text \<open>
  \<open>replace\<close> with a non-empty pattern is splitting on the pattern and joining with the
  replacement: leftmost, non-overlapping, and inserted text is not searched again.
\<close>

theorem replace_correct:
  assumes "from_s \<noteq> []"
  shows "\<exists>v. split str from_s = Some v \<and> replace str from_s to_s = join v to_s"
  using assms by (simp add: split_eq_pieces replace_eq join_eq_intersperse)

theorem replace_correct_witness:
  "\<exists>v. split ''aXbXc'' ''X'' = Some v \<and> replace ''aXbXc'' ''X'' ''XX'' = join v ''XX''"
  by (rule replace_correct) simp

text \<open>
  C39. \<open>format\<close> is the one-pass substitution \<open>format_ref\<close>: \<open>%%\<close> gives \<open>%\<close>, \<open>%N\<close> with \<open>N\<close> in range
  gives the argument, an out-of-range \<open>%N\<close> and any other text stay; a placeholder number beyond
  \<open>INT_MAX\<close> is undefined.  A byte from 0x80 on after \<open>%\<close> is taken not to be a digit, see \<open>is_digit\<close>.
\<close>

theorem format_correct:
  "format fmt args = (if format_overflows fmt then None else Some (format_ref args fmt))"
  by (rule format_eq_ref)

text \<open>
  C40. Expanding a rendered template evaluates it: text comes back unescaped, every reference
  (nested ones included) is replaced by the value of its evaluated name, provided values contain no
  dollar sign.
\<close>

theorem varexp_correct:
  assumes "\<And>x. CHR ''$'' \<notin> set (find_var x)" and "list_all template_ok ts"
  shows "varexp find_var (concat (map render ts)) = concat (map (eval_template find_var) ts)"
  by (rule varexp_templates [OF assms])

theorem varexp_correct_witness:
  "varexp (\<lambda>x. if x = ''ARCH'' then ''x86'' else if x = ''DIR_x86'' then ''/usr'' else '''')
     (concat (map render [Text ''a$'', Reference [Text ''DIR_'', Reference [Text ''ARCH'']]])) =
   ''a$/usr''"
  by (subst varexp_correct) simp_all

text \<open>
  A template with an unclosed reference expands to the empty string: the whole result is
  dropped, not only the reference.
\<close>

theorem varexp_unbalanced:
  assumes "list_all template_ok ts" and "CHR ''$'' \<notin> set t" and "CHR ''}'' \<notin> set t"
  shows "varexp find_var (concat (map render ts) @ ''${'' @ t) = []"
proof -
  have "brace_ref t 1 = None" using brace_ref_text [OF assms(2,3), of "[]" 1] by (simp add: extend_body_def)
  then show ?thesis
    using expand_ref_templates [OF assms(1)]
    by (simp add: varexp_expand_ref [of find_var "concat (map render ts) @ CHR ''$'' # CHR ''{'' # t"])
qed

theorem varexp_unbalanced_witness: "varexp id (concat (map render [Text ''x'']) @ ''${'' @ ''HOME'') = []"
  by (rule varexp_unbalanced) simp_all

text \<open>
  \<open>trim\<close> removes exactly the leading and trailing run of the given characters and never
  throws, also when nothing remains: \<open>npos + 1\<close> wraps to zero there.
\<close>

theorem trim_correct:
  assumes "length s < npos"
  shows "trim s Chars = Some (strip_right Chars (strip_left Chars s))"
  by (rule trim_strip [OF assms])

theorem trim_correct_witness: "trim ''  a b '' '' '' = Some ''a b'' \<and> trim ''   '' '' '' = Some ''''"
  using trim_correct [of "''  a b ''" "'' ''"] trim_correct [of "''   ''" "'' ''"]
  by (simp add: npos_def strip_left_def strip_right_def)

text \<open>
  \<open>vasprintf\<close> returns the whole formatted text on the stack path and on the heap path, and
  the empty string on an encoding error.
\<close>

theorem vasprintf_correct:
  assumes "length stack_buffer = STACK_BUFFER_SIZE"
  shows "vasprintf stack_buffer text = (case text of None \<Rightarrow> [] | Some t \<Rightarrow> t)"
proof (cases "text")
  case (Some t)
  have "str_resize b (length t) = take (length t) b" if "length t < length b" for b
    using that by (simp add: str_resize_def)
  moreover have "length t < length (fst (vsnprintf (replicate (length t + 1) (CHR 0x00)) (Some t)))"
    by (simp add: vsnprintf_def Let_def)
  ultimately show ?thesis
    using Some assms by (simp add: vasprintf_Some vsnprintf_fits)
qed (simp add: vasprintf_def vsnprintf_def)

theorem vasprintf_correct_witness: "vasprintf (replicate 4096 (CHR ''?'')) (Some ''id=7'') = ''id=7''"
  by (subst vasprintf_correct) (simp_all add: STACK_BUFFER_SIZE_def)


end
