(* ===== verification/Var_Size_Array.thy ===== *)
theory Var_Size_Array
  imports Lore_Prelude
begin

text \<open>
  The growable array with an inline buffer of \<open>include/lorelei/Support/VarSizeArray.h\<close>, over an
  explicit store of buffers whose slots are raw storage, live objects or moved-from objects.
  Constructing over a live object, destroying or reading raw storage, and touching a deallocated
  buffer are undefined: the operation is \<open>None\<close>.
\<close>

subsection \<open>Storage\<close>

datatype 'a slot = Raw | Moved | Obj 'a

record 'a mem =
  bufs :: "nat \<Rightarrow> 'a slot list option"
  next_buf :: nat

definition read_slot :: "nat \<Rightarrow> nat \<Rightarrow> 'a mem \<Rightarrow> 'a option" where
  "read_slot b i m =
     (case bufs m b of
        None \<Rightarrow> None
      | Some sl \<Rightarrow> if i < length sl then (case sl ! i of Obj x \<Rightarrow> Some x | _ \<Rightarrow> None) else None)"

definition update_buf :: "nat \<Rightarrow> ('a slot list \<Rightarrow> 'a slot list option) \<Rightarrow> 'a mem \<Rightarrow> 'a mem option" where
  "update_buf b f m =
     (case bufs m b of
        None \<Rightarrow> None
      | Some sl \<Rightarrow> map_option (\<lambda>sl'. m\<lparr>bufs := (bufs m)(b \<mapsto> sl')\<rparr>) (f sl))"

text \<open>\<open>AT::construct\<close>, \<open>AT::destroy\<close>, moving out of a slot and assigning to one.\<close>

definition construct :: "nat \<Rightarrow> nat \<Rightarrow> 'a \<Rightarrow> 'a mem \<Rightarrow> 'a mem option" where
  "construct b i x =
     update_buf b (\<lambda>sl. if i < length sl \<and> sl ! i = Raw then Some (sl[i := Obj x]) else None)"

definition destroy :: "nat \<Rightarrow> nat \<Rightarrow> 'a mem \<Rightarrow> 'a mem option" where
  "destroy b i =
     update_buf b (\<lambda>sl. if i < length sl \<and> sl ! i \<noteq> Raw then Some (sl[i := Raw]) else None)"

definition move_out :: "nat \<Rightarrow> nat \<Rightarrow> 'a mem \<Rightarrow> ('a \<times> 'a mem) option" where
  "move_out b i m =
     (case read_slot b i m of
        None \<Rightarrow> None
      | Some x \<Rightarrow> map_option (\<lambda>m'. (x, m')) (update_buf b (\<lambda>sl. Some (sl[i := Moved])) m))"

definition assign_slot :: "nat \<Rightarrow> nat \<Rightarrow> 'a \<Rightarrow> 'a mem \<Rightarrow> 'a mem option" where
  "assign_slot b i x =
     update_buf b (\<lambda>sl. if i < length sl \<and> sl ! i \<noteq> Raw then Some (sl[i := Obj x]) else None)"

text \<open>\<open>AT::allocate\<close> gives a fresh raw buffer; \<open>AT::deallocate\<close> needs every object destroyed.\<close>

definition allocate :: "nat \<Rightarrow> 'a mem \<Rightarrow> nat \<times> 'a mem" where
  "allocate n m =
     (next_buf m, m\<lparr>bufs := (bufs m)(next_buf m \<mapsto> replicate n Raw), next_buf := Suc (next_buf m)\<rparr>)"

definition deallocate :: "nat \<Rightarrow> nat \<Rightarrow> 'a mem \<Rightarrow> 'a mem option" where
  "deallocate b n m =
     (if bufs m b = Some (replicate n Raw) then Some (m\<lparr>bufs := (bufs m)(b := None)\<rparr>) else None)"

text \<open>A \<open>const T &\<close> argument: an object outside every array, or an element of some buffer.\<close>

datatype 'a arg = Val 'a | Elem nat nat

fun read_arg :: "'a arg \<Rightarrow> 'a mem \<Rightarrow> 'a option" where
  "read_arg (Val x) m = Some x"
| "read_arg (Elem b i) m = read_slot b i m"

subsection \<open>The array\<close>

record vsa =
  m_begin :: nat
  m_size :: nat
  m_capacity :: nat
  m_inlineBegin :: nat
  m_inlineCapacity :: nat

type_synonym 'a vsa_state = "vsa \<times> 'a mem"

definition isInline :: "vsa \<Rightarrow> bool" where
  "isInline v \<longleftrightarrow> m_begin v = m_inlineBegin v"

definition adoptInlineBuffer :: "nat \<Rightarrow> nat \<Rightarrow> vsa" where
  "adoptInlineBuffer buffer capacity =
     \<lparr>m_begin = buffer, m_size = 0, m_capacity = capacity,
      m_inlineBegin = buffer, m_inlineCapacity = capacity\<rparr>"

definition kMinHeapCapacity :: nat where
  "kMinHeapCapacity = 4"

definition computeNewCapacity :: "vsa \<Rightarrow> nat \<Rightarrow> nat" where
  "computeNewCapacity v minCapacity =
     (let c = (m_capacity v * 2) mod 2 ^ 64;
          c = (if c < minCapacity then minCapacity else c)
      in if c < kMinHeapCapacity then kMinHeapCapacity else c)"

definition destroyRange :: "nat \<Rightarrow> nat \<Rightarrow> vsa \<Rightarrow> 'a mem \<Rightarrow> 'a mem option" where
  "destroyRange from to v m = for_each (\<lambda>i. destroy (m_begin v) i) [from..<to] m"

definition relocateTo :: "nat \<Rightarrow> vsa \<Rightarrow> 'a mem \<Rightarrow> 'a mem option" where
  "relocateTo dst v m =
     for_each (\<lambda>i m.
       case move_out (m_begin v) i m of
         None \<Rightarrow> None
       | Some (x, m) \<Rightarrow>
           (case construct dst i x m of
              None \<Rightarrow> None
            | Some m \<Rightarrow> destroy (m_begin v) i m)) [0..<m_size v] m"

text \<open>The common end of both growing operations: free the old heap buffer, adopt the new one.\<close>

definition release :: "vsa \<Rightarrow> 'a mem \<Rightarrow> 'a mem option" where
  "release v m = (if isInline v then Some m else deallocate (m_begin v) (m_capacity v) m)"

definition grow :: "nat \<Rightarrow> 'a vsa_state \<Rightarrow> 'a vsa_state option" where
  "grow minCapacity = (\<lambda>(v, m).
     let newCapacity = computeNewCapacity v minCapacity;
         (newBuffer, m) = allocate newCapacity m
     in case relocateTo newBuffer v m of
          None \<Rightarrow> None
        | Some m \<Rightarrow>
            map_option (\<lambda>m. (v\<lparr>m_begin := newBuffer, m_capacity := newCapacity\<rparr>, m)) (release v m))"

definition growAndEmplaceBack :: "'a arg \<Rightarrow> 'a vsa_state \<Rightarrow> 'a vsa_state option" where
  "growAndEmplaceBack a = (\<lambda>(v, m).
     let newCapacity = computeNewCapacity v (size_add (m_size v) 1);
         (newBuffer, m) = allocate newCapacity m
     in case read_arg a m of
          None \<Rightarrow> None
        | Some x \<Rightarrow>
           (case construct newBuffer (m_size v) x m of
              None \<Rightarrow> None
            | Some m \<Rightarrow>
               (case relocateTo newBuffer v m of
                  None \<Rightarrow> None
                | Some m \<Rightarrow>
                    map_option (\<lambda>m. (v\<lparr>m_begin := newBuffer, m_capacity := newCapacity,
                                       m_size := size_add (m_size v) 1\<rparr>, m)) (release v m))))"

definition reserve :: "nat \<Rightarrow> 'a vsa_state \<Rightarrow> 'a vsa_state option" where
  "reserve n s = (if n > m_capacity (fst s) then grow n s else Some s)"

text \<open>Construct one element past the end and count it: the body of the filling loops.\<close>

definition construct_back :: "'a arg \<Rightarrow> 'a vsa_state \<Rightarrow> 'a vsa_state option" where
  "construct_back a = (\<lambda>(v, m).
     case read_arg a m of
       None \<Rightarrow> None
     | Some x \<Rightarrow>
         map_option (\<lambda>m. (v\<lparr>m_size := size_add (m_size v) 1\<rparr>, m)) (construct (m_begin v) (m_size v) x m))"

definition emplace_back :: "'a arg \<Rightarrow> 'a vsa_state \<Rightarrow> 'a vsa_state option" where
  "emplace_back a s =
     (if m_size (fst s) = m_capacity (fst s) then growAndEmplaceBack a s else construct_back a s)"

definition push_back :: "'a arg \<Rightarrow> 'a vsa_state \<Rightarrow> 'a vsa_state option" where
  "push_back a s = emplace_back a s"

definition vsa_append :: "'a arg list \<Rightarrow> 'a vsa_state \<Rightarrow> 'a vsa_state option" where
  "vsa_append args s = for_each push_back args s"

text \<open>\<open>std::rotate\<close> on the live slots \<open>[first, end_pos)\<close> of a buffer.\<close>

definition rotate_slots :: "nat \<Rightarrow> nat \<Rightarrow> nat \<Rightarrow> nat \<Rightarrow> 'a mem \<Rightarrow> 'a mem option" where
  "rotate_slots b first middle end_pos =
     update_buf b (\<lambda>sl.
       if first \<le> middle \<and> middle \<le> end_pos \<and> end_pos \<le> length sl \<and>
          list_all (\<lambda>s. s \<noteq> Raw) (take (end_pos - first) (drop first sl))
       then Some (take first sl @ take (end_pos - middle) (drop middle sl) @
                  take (middle - first) (drop first sl) @ drop end_pos sl)
       else None)"

text \<open>\<open>pos\<close> is an iterator, given by its index; the returned iterator is \<open>m_begin + index\<close>.\<close>

definition insert_one :: "nat \<Rightarrow> 'a arg \<Rightarrow> 'a vsa_state \<Rightarrow> 'a vsa_state option" where
  "insert_one index a s =
     (case push_back a s of
        None \<Rightarrow> None
      | Some (v, m) \<Rightarrow>
          map_option (\<lambda>m. (v, m)) (rotate_slots (m_begin v) index (m_size v - 1) (m_size v) m))"

definition insert_count :: "nat \<Rightarrow> nat \<Rightarrow> 'a arg \<Rightarrow> 'a vsa_state \<Rightarrow> 'a vsa_state option" where
  "insert_count index count a s =
     (if count = 0 then Some s
      else case read_arg a (snd s) of
        None \<Rightarrow> None
      | Some copy \<Rightarrow>
         (case reserve (size_add (m_size (fst s)) count) s of
            None \<Rightarrow> None
          | Some s \<Rightarrow>
             (case for_each (\<lambda>_. construct_back (Val copy)) [0..<count] s of
                None \<Rightarrow> None
              | Some (v, m) \<Rightarrow>
                  map_option (\<lambda>m. (v, m))
                    (rotate_slots (m_begin v) index (m_size v - count) (m_size v) m))))"

definition insert_range :: "nat \<Rightarrow> 'a arg list \<Rightarrow> 'a vsa_state \<Rightarrow> 'a vsa_state option" where
  "insert_range index args s =
     (let oldSize = m_size (fst s) in
      case vsa_append args s of
        None \<Rightarrow> None
      | Some (v, m) \<Rightarrow>
          map_option (\<lambda>m. (v, m)) (rotate_slots (m_begin v) index oldSize (m_size v) m))"

definition pop_back :: "'a vsa_state \<Rightarrow> 'a vsa_state option" where
  "pop_back = (\<lambda>(v, m).
     let v = v\<lparr>m_size := size_sub (m_size v) 1\<rparr>
     in map_option (\<lambda>m. (v, m)) (destroy (m_begin v) (m_size v) m))"

text \<open>\<open>std::move(first, end_pos, d_first)\<close> within one buffer, front to back.\<close>

definition move_slots :: "nat \<Rightarrow> nat \<Rightarrow> nat \<Rightarrow> nat \<Rightarrow> 'a mem \<Rightarrow> 'a mem option" where
  "move_slots b first end_pos d_first m =
     for_each (\<lambda>k m.
       case move_out b (first + k) m of
         None \<Rightarrow> None
       | Some (x, m) \<Rightarrow> assign_slot b (d_first + k) x m) [0..<end_pos - first] m"

definition erase_one :: "nat \<Rightarrow> 'a vsa_state \<Rightarrow> 'a vsa_state option" where
  "erase_one index = (\<lambda>(v, m).
     case move_slots (m_begin v) (index + 1) (m_size v) index m of
       None \<Rightarrow> None
     | Some m \<Rightarrow> pop_back (v, m))"

definition erase_range :: "nat \<Rightarrow> nat \<Rightarrow> 'a vsa_state \<Rightarrow> 'a vsa_state option" where
  "erase_range from to = (\<lambda>(v, m).
     if from = to then Some (v, m)
     else case move_slots (m_begin v) to (m_size v) from m of
       None \<Rightarrow> None
     | Some m \<Rightarrow>
         (let removed = to - from in
          map_option (\<lambda>m. (v\<lparr>m_size := m_size v - removed\<rparr>, m))
            (destroyRange (m_size v - removed) (m_size v) v m)))"

definition vsa_clear :: "'a vsa_state \<Rightarrow> 'a vsa_state option" where
  "vsa_clear = (\<lambda>(v, m). map_option (\<lambda>m. (v\<lparr>m_size := 0\<rparr>, m)) (destroyRange 0 (m_size v) v m))"

text \<open>
  \<open>resize(n, value)\<close>; \<open>resize(n)\<close> is the same with a default-constructed value, which is never an
  element of the array.
\<close>

definition resize_value :: "nat \<Rightarrow> 'a arg \<Rightarrow> 'a vsa_state \<Rightarrow> 'a vsa_state option" where
  "resize_value n a = (\<lambda>(v, m).
     map_option (\<lambda>(v, m). (v\<lparr>m_size := n\<rparr>, m))
       (if n < m_size v then map_option (\<lambda>m. (v, m)) (destroyRange n (m_size v) v m)
        else if n > m_size v then
          (case reserve n (v, m) of
             None \<Rightarrow> None
           | Some s \<Rightarrow> for_each (\<lambda>_. construct_back a) [m_size v..<n] s)
        else Some (v, m)))"

definition vsa_resize :: "nat \<Rightarrow> 'a \<Rightarrow> 'a vsa_state \<Rightarrow> 'a vsa_state option" where
  "vsa_resize n dflt = resize_value n (Val dflt)"

definition resetToInline :: "'a vsa_state \<Rightarrow> 'a vsa_state option" where
  "resetToInline = (\<lambda>(v, m).
     case destroyRange 0 (m_size v) v m of
       None \<Rightarrow> None
     | Some m \<Rightarrow>
         if isInline v then Some (v\<lparr>m_size := 0\<rparr>, m)
         else map_option (\<lambda>m. (v\<lparr>m_begin := m_inlineBegin v, m_capacity := m_inlineCapacity v, m_size := 0\<rparr>, m))
                (deallocate (m_begin v) (m_capacity v) m))"

definition vsa_destructor :: "'a vsa_state \<Rightarrow> 'a mem option" where
  "vsa_destructor = (\<lambda>(v, m).
     case destroyRange 0 (m_size v) v m of
       None \<Rightarrow> None
     | Some m \<Rightarrow> release v m)"

text \<open>Copy and move assignment; an array is the same object (\<open>this == &RHS\<close>) exactly when
  its inline buffer is the same member.\<close>

definition assign_copy :: "vsa \<Rightarrow> 'a vsa_state \<Rightarrow> 'a vsa_state option" where
  "assign_copy RHS s =
     (if m_inlineBegin (fst s) = m_inlineBegin RHS then Some s
      else case vsa_clear s of
        None \<Rightarrow> None
      | Some s \<Rightarrow>
         (case reserve (m_size RHS) s of
            None \<Rightarrow> None
          | Some s \<Rightarrow> for_each (\<lambda>i. construct_back (Elem (m_begin RHS) i)) [0..<m_size RHS] s))"

definition assign_move :: "vsa \<Rightarrow> 'a vsa_state \<Rightarrow> (vsa \<times> vsa \<times> 'a mem) option" where
  "assign_move RHS s =
     (if m_inlineBegin (fst s) = m_inlineBegin RHS then Some (fst s, RHS, snd s)
      else case resetToInline s of
        None \<Rightarrow> None
      | Some (v, m) \<Rightarrow>
          if \<not> isInline RHS then
            Some (v\<lparr>m_begin := m_begin RHS, m_size := m_size RHS, m_capacity := m_capacity RHS\<rparr>,
                  RHS\<lparr>m_begin := m_inlineBegin RHS, m_capacity := m_inlineCapacity RHS, m_size := 0\<rparr>, m)
          else
            (case reserve (m_size RHS) (v, m) of
               None \<Rightarrow> None
             | Some s \<Rightarrow>
                (case for_each (\<lambda>i (v, m).
                         case move_out (m_begin RHS) i m of
                           None \<Rightarrow> None
                         | Some (x, m) \<Rightarrow> construct_back (Val x) (v, m)) [0..<m_size RHS] s of
                   None \<Rightarrow> None
                 | Some (v, m) \<Rightarrow> map_option (\<lambda>(RHS, m). (v, RHS, m)) (vsa_clear (RHS, m)))))"


text \<open>
  \<open>swap\<close> on two arrays of one store: two heap-backed arrays trade buffers, otherwise the common
  prefix is swapped element by element and the longer tail moves over.
\<close>

definition swap_slots :: "nat \<Rightarrow> nat \<Rightarrow> nat \<Rightarrow> 'a mem \<Rightarrow> 'a mem option" where
  "swap_slots b c i m =
     (case (read_slot b i m, read_slot c i m) of
        (Some x, Some y) \<Rightarrow>
          (case assign_slot b i y m of None \<Rightarrow> None | Some m \<Rightarrow> assign_slot c i x m)
      | _ \<Rightarrow> None)"

definition move_tail :: "nat \<Rightarrow> vsa \<Rightarrow> vsa \<Rightarrow> 'a mem \<Rightarrow> 'a mem option" where
  "move_tail shared longer shorter m =
     (case for_each (\<lambda>i m.
              case move_out (m_begin longer) i m of
                None \<Rightarrow> None
              | Some (x, m) \<Rightarrow> construct (m_begin shorter) i x m) [shared..<m_size longer] m of
        None \<Rightarrow> None
      | Some m \<Rightarrow> destroyRange shared (m_size longer) longer m)"

definition vsa_swap :: "vsa \<Rightarrow> vsa \<Rightarrow> 'a mem \<Rightarrow> (vsa \<times> vsa \<times> 'a mem) option" where
  "vsa_swap v w m =
     (if m_inlineBegin v = m_inlineBegin w then Some (v, w, m)
      else if \<not> isInline v \<and> \<not> isInline w then
        Some (v\<lparr>m_begin := m_begin w, m_size := m_size w, m_capacity := m_capacity w\<rparr>,
              w\<lparr>m_begin := m_begin v, m_size := m_size v, m_capacity := m_capacity v\<rparr>, m)
      else
        case reserve (m_size w) (v, m) of
          None \<Rightarrow> None
        | Some (v, m) \<Rightarrow>
           (case reserve (m_size v) (w, m) of
              None \<Rightarrow> None
            | Some (w, m) \<Rightarrow>
               (let shared = min (m_size v) (m_size w) in
                case for_each (swap_slots (m_begin v) (m_begin w)) [0..<shared] m of
                  None \<Rightarrow> None
                | Some m \<Rightarrow>
                    map_option (\<lambda>m. (v\<lparr>m_size := m_size w\<rparr>, w\<lparr>m_size := m_size v\<rparr>, m))
                      (if m_size v \<ge> m_size w then move_tail shared v w m
                       else move_tail shared w v m))))"

subsection \<open>What an array holds\<close>

text \<open>
  \<open>slots xs n\<close> is a buffer of capacity \<open>n\<close> whose first elements are \<open>xs\<close>.  \<open>others v m\<close> are the
  buffers that the array does not own; keeping it unchanged is the frame condition, and it also
  says that no buffer is leaked.
\<close>

definition slots :: "'a list \<Rightarrow> nat \<Rightarrow> 'a slot list" where
  "slots xs n = map Obj xs @ replicate (n - length xs) Raw"

definition others :: "vsa \<Rightarrow> 'a mem \<Rightarrow> nat \<Rightarrow> 'a slot list option" where
  "others v m = (\<lambda>b. if b = m_begin v \<or> b = m_inlineBegin v then None else bufs m b)"

definition below_next :: "'a mem \<Rightarrow> bool" where
  "below_next m \<longleftrightarrow> (\<forall>b. bufs m b \<noteq> None \<longrightarrow> b < next_buf m)"

definition vsa_inv :: "vsa \<Rightarrow> 'a mem \<Rightarrow> 'a list \<Rightarrow> bool" where
  "vsa_inv v m xs \<longleftrightarrow>
     m_size v = length xs \<and> length xs \<le> m_capacity v \<and> m_capacity v < 2 ^ 64 \<and>
     bufs m (m_begin v) = Some (slots xs (m_capacity v)) \<and>
     (if isInline v then m_capacity v = m_inlineCapacity v
      else bufs m (m_inlineBegin v) = Some (slots [] (m_inlineCapacity v))) \<and>
     m_inlineCapacity v < 2 ^ 64 \<and> below_next m"

text \<open>The array \<open>ib\<close>/\<open>ic\<close> (its inline buffer) holds \<open>xs\<close> and everything else is \<open>F\<close>.\<close>

definition holds ::
    "nat \<Rightarrow> nat \<Rightarrow> (nat \<Rightarrow> 'a slot list option) \<Rightarrow> 'a vsa_state \<Rightarrow> 'a list \<Rightarrow> bool" where
  "holds ib ic F s xs \<longleftrightarrow>
     vsa_inv (fst s) (snd s) xs \<and> m_inlineBegin (fst s) = ib \<and> m_inlineCapacity (fst s) = ic \<and>
     others (fst s) (snd s) = F"

lemma length_slots [simp]: "length xs \<le> n \<Longrightarrow> length (slots xs n) = n"
  by (simp add: slots_def)

lemma slots_nth:
  "i < n \<Longrightarrow> slots xs n ! i = (if i < length xs then Obj (xs ! i) else Raw)"
  by (simp add: slots_def nth_append)

lemma slots_Nil: "slots [] n = replicate n Raw"
  by (simp add: slots_def)

lemma slots_update_end:
  assumes "length xs < n"
  shows "(slots xs n)[length xs := Obj x] = slots (xs @ [x]) n"
proof -
  obtain k where "n = Suc (length xs + k)" using less_imp_Suc_add [OF assms] by blast
  then show ?thesis by (simp add: slots_def list_update_append Suc_diff_le)
qed

lemma slots_remove_end:
  assumes "length xs < n"
  shows "(slots (xs @ [x]) n)[length xs := Raw] = slots xs n"
proof -
  obtain k where "n = Suc (length xs + k)" using less_imp_Suc_add [OF assms] by blast
  then show ?thesis by (simp add: slots_def list_update_append Suc_diff_le)
qed


lemma front_update:
  "i < length D \<Longrightarrow> length A = i \<Longrightarrow> (A @ drop i D)[i := y] = (A @ [y]) @ drop (Suc i) D"
  by (simp add: list_update_append Cons_nth_drop_Suc [symmetric])

lemma front_nth: "i < length D \<Longrightarrow> length A = i \<Longrightarrow> (A @ drop i D) ! i = D ! i"
  by (simp add: nth_append)

text \<open>One iteration of the relocation loop, with \<open>i\<close> elements already moved.\<close>

definition relocated :: "nat \<Rightarrow> nat \<Rightarrow> 'a list \<Rightarrow> nat \<Rightarrow> 'a slot list \<Rightarrow> 'a mem \<Rightarrow> nat \<Rightarrow> 'a mem \<Rightarrow> bool" where
  "relocated src dst xs cap dsl m i m' \<longleftrightarrow>
     m' = m\<lparr>bufs := (bufs m)(src \<mapsto> replicate i Raw @ drop i (slots xs cap),
                            dst \<mapsto> map Obj (take i xs) @ drop i dsl)\<rparr>"

lemma relocate_step:
  assumes "src \<noteq> dst" "length xs \<le> cap" "length xs \<le> length dsl" "i < length xs" "dsl ! i = Raw"
    and "relocated src dst xs cap dsl m i m'"
  shows "\<exists>m''. (case move_out src i m' of
         None \<Rightarrow> None
       | Some (x, m) \<Rightarrow>
           (case construct dst i x m of None \<Rightarrow> None | Some m \<Rightarrow> destroy src i m)) = Some m'' \<and>
     relocated src dst xs cap dsl m (Suc i) m''"
proof -
  let ?S = "replicate i Raw @ drop i (slots xs cap)" and ?D = "map Obj (take i xs) @ drop i dsl"
  have m': "bufs m' src = Some ?S" "bufs m' dst = Some ?D"
    using assms(1,6) by (simp_all add: relocated_def)
  have s: "i < length (slots xs cap)" and d: "i < length dsl" using assms(2-4) by simp_all
  have rd: "read_slot src i m' = Some (xs ! i)"
    using s assms(2,4) m' front_nth [OF s, of "replicate i Raw"]
    by (simp add: read_slot_def slots_nth)
  have dn: "?D ! i = Raw" using front_nth [OF d, of "map Obj (take i xs)"] assms(4,5) by simp
  have "length ?D = length dsl" "length ?S = length (slots xs cap)" using assms(2-4) by simp_all
  have "(?S[i := Moved])[i := Raw] = replicate (Suc i) Raw @ drop (Suc i) (slots xs cap)"
    using front_update [OF s, of "replicate i Raw" Raw] by (simp add: replicate_append_same)
  moreover have "?D[i := Obj (xs ! i)] = map Obj (take (Suc i) xs) @ drop (Suc i) dsl"
    using front_update [OF d, of "map Obj (take i xs)"] assms(4)
    by (simp add: take_Suc_conv_app_nth)
  moreover have "(?S[i := Moved]) ! i = Moved" using s \<open>length ?S = _\<close> by simp
  ultimately show ?thesis
    using rd dn m' assms(1,6) s d \<open>length ?D = _\<close> \<open>length ?S = _\<close>
    by (simp add: move_out_def construct_def destroy_def update_buf_def relocated_def fun_upd_twist)
qed

lemma relocateTo_eq:
  assumes "bufs m (m_begin v) = Some (slots xs cap)" "m_size v = length xs" "length xs \<le> cap"
    and "bufs m dst = Some dsl" "m_begin v \<noteq> dst" "length xs \<le> length dsl"
    and "\<forall>j < length xs. dsl ! j = Raw"
  shows "relocateTo dst v m = Some (m\<lparr>bufs := (bufs m)(m_begin v \<mapsto> replicate cap Raw,
           dst \<mapsto> map Obj xs @ drop (length xs) dsl)\<rparr>)"
proof -
  have "\<exists>m'. relocateTo dst v m = Some m' \<and> relocated (m_begin v) dst xs cap dsl m (length xs) m'"
    unfolding relocateTo_def assms(2)
    using assms by (intro for_each_upt relocate_step) (simp_all add: relocated_def fun_upd_idem)
  then show ?thesis
    using assms(3) by (auto simp: relocated_def slots_def simp flip: replicate_add)
qed


lemma computeNewCapacity_ge: "minCapacity \<le> computeNewCapacity v minCapacity"
  by (simp add: computeNewCapacity_def Let_def)

lemma computeNewCapacity_bound: "minCapacity < 2 ^ 64 \<Longrightarrow> computeNewCapacity v minCapacity < 2 ^ 64"
  by (simp add: computeNewCapacity_def Let_def kMinHeapCapacity_def)

lemma fresh_buf: "below_next m \<Longrightarrow> bufs m (next_buf m) = None"
  by (auto simp: below_next_def)

text \<open>After relocation: freeing the old buffer and adopting the new one re-establishes the invariant.\<close>

lemma release_adopt:
  assumes h: "holds ib ic F (v, m) xs"
    and m': "bufs m' = (bufs m)(m_begin v \<mapsto> replicate (m_capacity v) Raw, next_buf m \<mapsto> slots ys n)"
      "next_buf m' = Suc (next_buf m)"
    and n: "length ys \<le> n" "n < 2 ^ 64"
  shows "\<exists>m''. release v m' = Some m'' \<and>
    holds ib ic F (v\<lparr>m_begin := next_buf m, m_capacity := n, m_size := length ys\<rparr>, m'') ys"
proof -
  let ?nb = "next_buf m"
  have inv: "vsa_inv v m xs" and fr: "others v m = F" "m_inlineBegin v = ib" "m_inlineCapacity v = ic"
    using h by (simp_all add: holds_def)
  have below: "below_next m" and ibd: "bufs m (m_begin v) \<noteq> None" "bufs m ib \<noteq> None"
    using inv fr by (auto simp: vsa_inv_def isInline_def split: if_splits)
  have nb: "bufs m ?nb = None" "m_begin v \<noteq> ?nb" "ib \<noteq> ?nb"
    using fresh_buf [OF below] ibd by auto
  show ?thesis
  proof (cases "isInline v")
    case True
    then show ?thesis
      using inv fr nb m' n below
      by (auto simp: release_def holds_def vsa_inv_def isInline_def others_def slots_Nil below_next_def)
  next
    case False
    have "deallocate (m_begin v) (m_capacity v) m' =
        Some (m'\<lparr>bufs := (bufs m')(m_begin v := None)\<rparr>)"
      using m' nb by (simp add: deallocate_def)
    then show ?thesis
      using False inv fr nb m' n below
      by (auto simp: release_def holds_def vsa_inv_def isInline_def others_def below_next_def less_SucI)
  qed
qed

lemma grow_holds:
  assumes h: "holds ib ic F (v, m) xs" and n: "length xs \<le> n" "n < 2 ^ 64"
  shows "\<exists>s'. grow n (v, m) = Some s' \<and> holds ib ic F s' xs \<and> n \<le> m_capacity (fst s')"
proof -
  define nc where "nc = computeNewCapacity v n"
  have nc: "n \<le> nc" "nc < 2 ^ 64"
    using computeNewCapacity_bound [OF n(2), of v] by (simp_all add: nc_def computeNewCapacity_ge)
  let ?m1 = "snd (allocate nc m)"
  have inv: "vsa_inv v m xs" using h by (simp add: holds_def)
  have nb: "m_begin v \<noteq> next_buf m" using inv by (auto simp: vsa_inv_def dest!: fresh_buf)
  have "relocateTo (next_buf m) v ?m1 = Some (?m1\<lparr>bufs := (bufs ?m1)
      (m_begin v \<mapsto> replicate (m_capacity v) Raw, next_buf m \<mapsto> map Obj xs @ drop (length xs) (replicate nc Raw))\<rparr>)"
    using inv nb n nc by (intro relocateTo_eq) (simp_all add: vsa_inv_def allocate_def)
  moreover define m2 where "m2 = ?m1\<lparr>bufs := (bufs ?m1)
      (m_begin v \<mapsto> replicate (m_capacity v) Raw, next_buf m \<mapsto> slots xs nc)\<rparr>"
  ultimately have rel: "relocateTo (next_buf m) v ?m1 = Some m2" by (simp add: slots_def)
  have "\<exists>m3. release v m2 = Some m3 \<and>
      holds ib ic F (v\<lparr>m_begin := next_buf m, m_capacity := nc, m_size := length xs\<rparr>, m3) xs"
    using n nc by (intro release_adopt [OF h]) (simp_all add: m2_def allocate_def fun_upd_twist [OF nb])
  moreover have "v\<lparr>m_begin := next_buf m, m_capacity := nc, m_size := length xs\<rparr> =
      v\<lparr>m_begin := next_buf m, m_capacity := nc\<rparr>"
    using inv by (cases v) (simp add: vsa_inv_def)
  ultimately show ?thesis
    using rel nc n by (auto simp: grow_def Let_def nc_def [symmetric] allocate_def)
qed


lemma reserve_holds:
  assumes "holds ib ic F s xs" "n < 2 ^ 64"
  shows "\<exists>s'. reserve n s = Some s' \<and> holds ib ic F s' xs \<and> n \<le> m_capacity (fst s')"
proof (cases "n > m_capacity (fst s)")
  case True
  moreover have "length xs \<le> m_capacity (fst s)" using assms(1) by (simp add: holds_def vsa_inv_def)
  ultimately show ?thesis
    using grow_holds [of ib ic F "fst s" "snd s" xs n] assms by (simp add: reserve_def)
qed (use assms in \<open>simp add: reserve_def\<close>)

lemma reserve_size: "reserve n s = Some s' \<Longrightarrow> m_size (fst s') = m_size (fst s)"
  by (auto simp: reserve_def grow_def Let_def split: if_splits option.splits prod.splits)

lemma read_arg_allocate:
  "below_next m \<Longrightarrow> read_arg a m = Some x \<Longrightarrow> read_arg a (snd (allocate n m)) = Some x"
  by (cases a) (auto simp: read_slot_def allocate_def dest: fresh_buf split: option.splits)

lemma growAndEmplaceBack_holds:
  assumes h: "holds ib ic F (v, m) xs" and sz: "length xs + 1 < 2 ^ 64" and a: "read_arg a m = Some x"
  shows "\<exists>s'. growAndEmplaceBack a (v, m) = Some s' \<and> holds ib ic F s' (xs @ [x])"
proof -
  have inv: "vsa_inv v m xs" using h by (simp add: holds_def)
  then have size: "m_size v = length xs" and size1: "size_add (length xs) (Suc 0) = Suc (length xs)"
    using sz by (simp_all add: vsa_inv_def)
  define nc where "nc = computeNewCapacity v (Suc (length xs))"
  have nc: "Suc (length xs) \<le> nc" "nc < 2 ^ 64"
    using computeNewCapacity_bound [of "Suc (length xs)" v] sz by (simp_all add: nc_def computeNewCapacity_ge)
  let ?m1 = "snd (allocate nc m)" and ?d = "(replicate nc Raw)[length xs := Obj x]"
  have nb: "m_begin v \<noteq> next_buf m" using inv by (auto simp: vsa_inv_def dest!: fresh_buf)
  have rd: "read_arg a ?m1 = Some x" using inv a by (intro read_arg_allocate) (simp add: vsa_inv_def)
  define m2 where "m2 = ?m1\<lparr>bufs := (bufs ?m1)(next_buf m \<mapsto> ?d)\<rparr>"
  have con: "construct (next_buf m) (length xs) x ?m1 = Some m2"
    using nc by (simp add: construct_def update_buf_def allocate_def m2_def)
  have d: "map Obj xs @ drop (length xs) ?d = slots (xs @ [x]) nc"
    using nc slots_update_end [of xs nc x] by (simp add: drop_update_swap slots_def list_update_append)
  have "relocateTo (next_buf m) v m2 = Some (m2\<lparr>bufs := (bufs m2)
      (m_begin v \<mapsto> replicate (m_capacity v) Raw, next_buf m \<mapsto> map Obj xs @ drop (length xs) ?d)\<rparr>)"
    using inv nb nc by (intro relocateTo_eq) (simp_all add: vsa_inv_def allocate_def m2_def)
  moreover define m3 where "m3 = m2\<lparr>bufs := (bufs m2)
      (m_begin v \<mapsto> replicate (m_capacity v) Raw, next_buf m \<mapsto> slots (xs @ [x]) nc)\<rparr>"
  ultimately have rel: "relocateTo (next_buf m) v m2 = Some m3" by (simp add: d)
  have "\<exists>m4. release v m3 = Some m4 \<and>
      holds ib ic F (v\<lparr>m_begin := next_buf m, m_capacity := nc, m_size := length (xs @ [x])\<rparr>, m4) (xs @ [x])"
    using nc by (intro release_adopt [OF h]) (simp_all add: m3_def m2_def allocate_def fun_upd_twist [OF nb])
  then show ?thesis
    using rel rd con unfolding growAndEmplaceBack_def
    by (auto simp: Let_def size size1 nc_def [symmetric] allocate_def)
qed

lemma construct_back_holds:
  assumes h: "holds ib ic F s xs" and "length xs < m_capacity (fst s)" and "read_arg a (snd s) = Some x"
  shows "\<exists>s'. construct_back a s = Some s' \<and> holds ib ic F s' (xs @ [x]) \<and>
    m_capacity (fst s') = m_capacity (fst s) \<and> m_begin (fst s') = m_begin (fst s)"
proof -
  obtain v m where s: "s = (v, m)" by (cases s)
  have inv: "vsa_inv v m xs" using h s by (simp add: holds_def)
  then have size: "m_size v = length xs" "size_add (m_size v) 1 = Suc (length xs)"
    using assms(2) s by (simp_all add: vsa_inv_def)
  have "construct (m_begin v) (m_size v) x m =
      Some (m\<lparr>bufs := (bufs m)(m_begin v \<mapsto> slots (xs @ [x]) (m_capacity v))\<rparr>)"
    using inv assms(2) s by (simp add: construct_def update_buf_def vsa_inv_def slots_nth slots_update_end)
  then show ?thesis
    using h inv assms(2,3) size s
    by (auto simp: construct_back_def holds_def vsa_inv_def isInline_def others_def below_next_def
        split: if_splits)
qed


lemma emplace_back_holds:
  assumes "holds ib ic F s xs" "length xs + 1 < 2 ^ 64" "read_arg a (snd s) = Some x"
  shows "\<exists>s'. emplace_back a s = Some s' \<and> holds ib ic F s' (xs @ [x])"
proof (cases "m_size (fst s) = m_capacity (fst s)")
  case True
  then show ?thesis
    using growAndEmplaceBack_holds [of ib ic F "fst s" "snd s" xs a x] assms by (simp add: emplace_back_def)
next
  case False
  then have "length xs < m_capacity (fst s)" using assms(1) by (auto simp: holds_def vsa_inv_def)
  from construct_back_holds [OF assms(1) this assms(3)] False show ?thesis
    by (auto simp: emplace_back_def)
qed

subsection \<open>Appending one by one\<close>

text \<open>
  The interface the filling loops rely on: pushing one value extends the represented list, as long
  as it is shorter than \<open>limit\<close>.  \<open>push_all\<close> is the loop, proved once.
\<close>

locale list_buffer =
  fixes rep :: "'s \<Rightarrow> 'x list \<Rightarrow> bool"
    and push :: "'v \<Rightarrow> 's \<Rightarrow> 's option"
    and val :: "'v \<Rightarrow> 's \<Rightarrow> 'x option"
    and limit :: nat
  assumes push_rep: "rep s xs \<Longrightarrow> length xs < limit \<Longrightarrow> val v s = Some x \<Longrightarrow>
      \<exists>s'. push v s = Some s' \<and> rep s' (xs @ [x])"
begin

lemma push_all:
  assumes "rep s xs" "length xs + length vs \<le> limit"
    and "\<And>v s ys. v \<in> set vs \<Longrightarrow> rep s ys \<Longrightarrow> val v s = Some (g v)"
  shows "\<exists>s'. for_each push vs s = Some s' \<and> rep s' (xs @ map g vs)"
  using assms
proof (induction vs arbitrary: s xs)
  case (Cons v vs)
  from Cons.prems obtain s' where s': "push v s = Some s'" "rep s' (xs @ [g v])"
    using push_rep [of s xs v "g v"] by auto
  from Cons.IH [OF s'(2)] Cons.prems(2,3) have
    "\<exists>t. for_each push vs s' = Some t \<and> rep t ((xs @ [g v]) @ map g vs)" by simp
  with s'(1) show ?case by simp
qed simp

lemma push_repeat:
  assumes "rep s xs" "length xs + n \<le> limit" and "\<And>s ys. rep s ys \<Longrightarrow> val v s = Some x"
  shows "\<exists>s'. for_each (\<lambda>_. push v) [0..<n] s = Some s' \<and> rep s' (xs @ replicate n x)"
proof -
  have "for_each (\<lambda>_. push v) is s = for_each push (map (\<lambda>_. v) is) s" for "is" :: "nat list" and s
    by (induction "is" arbitrary: s) (auto split: option.split)
  moreover have "\<exists>s'. for_each push (map (\<lambda>_. v) [0..<n]) s = Some s' \<and>
      rep s' (xs @ map (\<lambda>_. x) (map (\<lambda>_. v) [0..<n]))"
    using assms by (intro push_all) auto
  ultimately show ?thesis by (simp add: map_replicate_const)
qed

end

interpretation pushed: list_buffer "holds ib ic F" push_back "\<lambda>a s. read_arg a (snd s)" "2 ^ 64 - 1"
  for ib ic F
  unfolding push_back_def by unfold_locales (rule emplace_back_holds, simp_all)

interpretation filled: list_buffer
  "\<lambda>s xs. holds ib ic F s xs \<and> m_capacity (fst s) = c \<and> m_begin (fst s) = b"
  construct_back "\<lambda>a s. read_arg a (snd s)" c
  for ib ic F c b
proof unfold_locales
  fix s xs a x
  assume "holds ib ic F s xs \<and> m_capacity (fst s) = c \<and> m_begin (fst s) = b" "length xs < c"
    "read_arg a (snd s) = Some x"
  then show "\<exists>s'. construct_back a s = Some s' \<and> holds ib ic F s' (xs @ [x]) \<and>
      m_capacity (fst s') = c \<and> m_begin (fst s') = b"
    using construct_back_holds [of ib ic F s xs a x] by auto
qed


subsection \<open>Inserting\<close>

lemma slots_take_drop:
  assumes "i \<le> length xs" "length xs \<le> n"
  shows "take i (slots xs n) = map Obj (take i xs)"
    and "take (length xs - i) (drop i (slots xs n)) = map Obj (drop i xs)"
    and "drop (length xs) (slots xs n) = replicate (n - length xs) Raw"
  using assms by (simp_all add: slots_def take_map drop_map)

lemma rotate_slots_holds:
  assumes h: "holds ib ic F (v, m) (xs @ ys)" and i: "index \<le> length xs"
  shows "\<exists>m'. rotate_slots (m_begin v) index (length xs) (m_size v) m = Some m' \<and>
    holds ib ic F (v, m') (take index xs @ ys @ drop index xs)"
proof -
  have inv: "vsa_inv v m (xs @ ys)" using h by (simp add: holds_def)
  let ?n = "m_capacity v" and ?zs = "take index xs @ ys @ drop index xs"
  let ?sl = "slots (xs @ ys) ?n"
  have len: "m_size v = length xs + length ys" "length xs + length ys \<le> ?n"
    using inv by (simp_all add: vsa_inv_def)
  have sl: "?sl = map Obj xs @ map Obj ys @ replicate (?n - (length xs + length ys)) Raw"
    by (simp add: slots_def)
  have "take index ?sl @ take (length ys) (drop (length xs) ?sl) @
      take (length xs - index) (drop index ?sl) @ drop (length xs + length ys) ?sl = slots ?zs ?n"
    using i by (simp add: sl slots_def take_map drop_map)
  moreover have "list_all (\<lambda>s. s \<noteq> Raw) (take (length xs + length ys - index) (drop index ?sl))"
    using i by (auto simp: sl list_all_iff dest!: in_set_dropD)
  ultimately have "rotate_slots (m_begin v) index (length xs) (m_size v) m =
      Some (m\<lparr>bufs := (bufs m)(m_begin v \<mapsto> slots ?zs ?n)\<rparr>)"
    using inv len i by (simp add: rotate_slots_def update_buf_def vsa_inv_def)
  moreover have "holds ib ic F (v, m\<lparr>bufs := (bufs m)(m_begin v \<mapsto> slots ?zs ?n)\<rparr>) ?zs"
    using h i by (auto simp: holds_def vsa_inv_def isInline_def others_def below_next_def split: if_splits)
  ultimately show ?thesis by blast
qed

lemma insert_one_holds:
  assumes h: "holds ib ic F s xs" and "length xs + 1 < 2 ^ 64" "read_arg a (snd s) = Some x" "index \<le> length xs"
  shows "\<exists>s'. insert_one index a s = Some s' \<and> holds ib ic F s' (take index xs @ [x] @ drop index xs)"
proof -
  from emplace_back_holds [OF h assms(2,3)] obtain v m where
    p: "push_back a s = Some (v, m)" "holds ib ic F (v, m) (xs @ [x])" by (auto simp: push_back_def)
  from rotate_slots_holds [OF p(2) assms(4)] p show ?thesis
    by (auto simp: insert_one_def holds_def vsa_inv_def)
qed

lemma insert_range_holds:
  assumes h: "holds ib ic F s xs" and "length xs + length args < 2 ^ 64" "index \<le> length xs"
    and "\<And>a s ys. a \<in> set args \<Longrightarrow> holds ib ic F s ys \<Longrightarrow> read_arg a (snd s) = Some (g a)"
  shows "\<exists>s'. insert_range index args s = Some s' \<and>
    holds ib ic F s' (take index xs @ map g args @ drop index xs)"
proof -
  from pushed.push_all [OF h, of args g] assms(2,4) obtain v m where
    p: "vsa_append args s = Some (v, m)" "holds ib ic F (v, m) (xs @ map g args)"
    by (auto simp: vsa_append_def)
  from rotate_slots_holds [OF p(2) assms(3)] p h show ?thesis
    by (auto simp: insert_range_def holds_def vsa_inv_def Let_def)
qed

lemma insert_count_holds:
  assumes h: "holds ib ic F s xs" and "length xs + count < 2 ^ 64" "read_arg a (snd s) = Some x" "index \<le> length xs"
  shows "\<exists>s'. insert_count index count a s = Some s' \<and>
    holds ib ic F s' (take index xs @ replicate count x @ drop index xs)"
proof (cases "count = 0")
  case True
  with h show ?thesis by (simp add: insert_count_def)
next
  case False
  have "size_add (m_size (fst s)) count = length xs + count"
    using h assms(2) by (simp add: holds_def vsa_inv_def)
  with reserve_holds [OF h assms(2)] obtain s1 where
    r: "reserve (size_add (m_size (fst s)) count) s = Some s1" "holds ib ic F s1 xs"
      "length xs + count \<le> m_capacity (fst s1)" by auto
  then obtain v m where
    p: "for_each (\<lambda>_. construct_back (Val x)) [0..<count] s1 = Some (v, m)"
      "holds ib ic F (v, m) (xs @ replicate count x)"
    using filled.push_repeat [of ib ic F s1 xs "m_capacity (fst s1)" "m_begin (fst s1)" count "Val x" x] by auto
  from rotate_slots_holds [OF p(2) assms(4)] p False assms(3) r show ?thesis
    by (auto simp: insert_count_def holds_def vsa_inv_def)
qed


subsection \<open>Removing\<close>

lemma destroyRange_eq:
  assumes "bufs m (m_begin v) = Some sl" "lo \<le> hi" "hi \<le> length sl"
    and "\<forall>i. lo \<le> i \<and> i < hi \<longrightarrow> sl ! i \<noteq> Raw"
  shows "destroyRange lo hi v m =
    Some (m\<lparr>bufs := (bufs m)(m_begin v \<mapsto> take lo sl @ replicate (hi - lo) Raw @ drop hi sl)\<rparr>)"
proof -
  let ?P = "\<lambda>i m'. m' = m\<lparr>bufs := (bufs m)(m_begin v \<mapsto>
      (take lo sl @ replicate (i - lo) Raw) @ drop i sl)\<rparr>"
  have "\<exists>m'. destroyRange lo hi v m = Some m' \<and> ?P hi m'"
    unfolding destroyRange_def
  proof (rule for_each_upt [where P = ?P])
    show "?P lo m" using assms(1) by (simp add: fun_upd_idem)
  next
    fix i m'
    assume i: "lo \<le> i" "i < hi" and m': "?P i m'"
    let ?A = "take lo sl @ replicate (i - lo) Raw"
    have il: "i < length sl" "length ?A = i" using i assms(3) by simp_all
    have grown: "replicate (Suc i - lo) Raw = replicate (i - lo) Raw @ [Raw]"
      using i by (simp add: Suc_diff_le replicate_append_same)
    have "(?A @ drop i sl)[i := Raw] = (take lo sl @ replicate (Suc i - lo) Raw) @ drop (Suc i) sl"
      unfolding grown using front_update [OF il, of Raw] by simp
    moreover have "(?A @ drop i sl) ! i \<noteq> Raw" using front_nth [OF il] assms(4) i by simp
    moreover have "i < length (?A @ drop i sl)" using il by simp
    ultimately show "\<exists>m''. destroy (m_begin v) i m' = Some m'' \<and> ?P (Suc i) m''"
      using m' by (simp add: destroy_def update_buf_def del: append_assoc)
  qed (rule assms(2))
  then show ?thesis by simp
qed

text \<open>Shrinking to \<open>ys\<close>, once the live tail has been destroyed.\<close>

lemma shrink_holds:
  assumes h: "holds ib ic F (v, m) xs" and "bufs m' = (bufs m)(m_begin v \<mapsto> slots ys (m_capacity v))"
    and "next_buf m' = next_buf m" "length ys \<le> length xs"
  shows "holds ib ic F (v\<lparr>m_size := length ys\<rparr>, m') ys"
  using assms by (auto simp: holds_def vsa_inv_def isInline_def others_def below_next_def split: if_splits)

lemma destroyRange_slots:
  assumes "bufs m (m_begin v) = Some (slots xs n)" "k \<le> length xs" "length xs \<le> n"
  shows "destroyRange k (length xs) v m =
    Some (m\<lparr>bufs := (bufs m)(m_begin v \<mapsto> slots (take k xs) n)\<rparr>)"
proof -
  have "take k (slots xs n) @ replicate (length xs - k) Raw @ drop (length xs) (slots xs n) =
      slots (take k xs) n"
    using assms(2,3) by (simp add: slots_def take_map min_absorb2 add.commute flip: replicate_add)
  with destroyRange_eq [of m v "slots xs n" k "length xs"] assms show ?thesis
    by (simp add: slots_nth)
qed

lemma clear_holds:
  assumes h: "holds ib ic F s xs"
  shows "\<exists>s'. vsa_clear s = Some s' \<and> holds ib ic F s' [] \<and> m_capacity (fst s') = m_capacity (fst s)"
proof -
  obtain v m where s: "s = (v, m)" by (cases s)
  have inv: "vsa_inv v m xs" using h s by (simp add: holds_def)
  then have "destroyRange 0 (m_size v) v m =
      Some (m\<lparr>bufs := (bufs m)(m_begin v \<mapsto> slots [] (m_capacity v))\<rparr>)"
    using destroyRange_slots [of m v xs "m_capacity v" 0] by (simp add: vsa_inv_def)
  with shrink_holds [of ib ic F v m xs _ "[]"] h s show ?thesis by (simp add: vsa_clear_def)
qed

text \<open>The state of the buffer after \<open>k\<close> steps of \<open>std::move\<close> towards the front.\<close>

definition moved_slots :: "'a list \<Rightarrow> nat \<Rightarrow> nat \<Rightarrow> nat \<Rightarrow> nat \<Rightarrow> 'a slot list \<Rightarrow> bool" where
  "moved_slots xs n first d k sl \<longleftrightarrow>
     length sl = n \<and>
     (\<forall>p < n. sl ! p = (if d \<le> p \<and> p < d + k then Obj (xs ! (first + p - d))
                        else if first \<le> p \<and> p < first + k then Moved
                        else slots xs n ! p))"

lemma move_slots_eq:
  assumes "bufs m b = Some (slots xs n)" "d < first" "first \<le> length xs" "length xs \<le> n"
  shows "\<exists>sl. move_slots b first (length xs) d m = Some (m\<lparr>bufs := (bufs m)(b \<mapsto> sl)\<rparr>) \<and>
    moved_slots xs n first d (length xs - first) sl"
proof -
  let ?P = "\<lambda>k m'. \<exists>sl. m' = m\<lparr>bufs := (bufs m)(b \<mapsto> sl)\<rparr> \<and> moved_slots xs n first d k sl"
  have "\<exists>m'. move_slots b first (length xs) d m = Some m' \<and> ?P (length xs - first) m'"
    unfolding move_slots_def
  proof (rule for_each_upt [where P = ?P])
    show "?P 0 m"
      using assms by (intro exI [of _ "slots xs n"]) (auto simp: moved_slots_def fun_upd_idem)
  next
    fix k m'
    assume k: "k < length xs - first" and "?P k m'"
    then obtain sl where m': "m' = m\<lparr>bufs := (bufs m)(b \<mapsto> sl)\<rparr>" and sl: "moved_slots xs n first d k sl"
      by blast
    have lt: "first + k < n" "d + k < n" "length sl = n"
      using k assms sl by (simp_all add: moved_slots_def)
    have src: "sl ! (first + k) = Obj (xs ! (first + k))"
      using sl lt k assms by (simp add: moved_slots_def slots_nth)
    have dst: "sl ! (d + k) \<noteq> Raw"
      using sl lt k assms by (simp add: moved_slots_def slots_nth)
    let ?sl = "sl[first + k := Moved, d + k := Obj (xs ! (first + k))]"
    have "moved_slots xs n first d (Suc k) ?sl"
      using sl lt assms(2) by (auto simp: moved_slots_def nth_list_update)
    moreover have "(case move_out b (first + k) m' of None \<Rightarrow> None
        | Some (x, m) \<Rightarrow> assign_slot b (d + k) x m) = Some (m\<lparr>bufs := (bufs m)(b \<mapsto> ?sl)\<rparr>)"
      using src dst lt assms(2)
      by (simp add: move_out_def read_slot_def assign_slot_def update_buf_def m')
    ultimately show "\<exists>m''. (case move_out b (first + k) m' of None \<Rightarrow> None
        | Some (x, m) \<Rightarrow> assign_slot b (d + k) x m) = Some m'' \<and> ?P (Suc k) m''" by blast
  qed simp
  then show ?thesis by blast
qed


lemma moved_slots_final:
  assumes "moved_slots xs n first d (length xs - first) sl" "d < first" "first \<le> length xs" "length xs \<le> n"
  shows "take (length xs - (first - d)) sl @ replicate (first - d) Raw @ drop (length xs) sl =
      slots (take d xs @ drop first xs) n"
    and "\<forall>p. length xs - (first - d) \<le> p \<and> p < length xs \<longrightarrow> sl ! p \<noteq> Raw"
    and "length sl = n"
proof -
  let ?k = "length xs - (first - d)"
  have nth: "\<And>p. p < n \<Longrightarrow> sl ! p = (if d \<le> p \<and> p < ?k then Obj (xs ! (first + p - d))
      else if first \<le> p \<and> p < length xs then Moved else slots xs n ! p)"
    using assms by (auto simp: moved_slots_def)
  show len: "length sl = n" using assms by (simp add: moved_slots_def)
  show "\<forall>p. ?k \<le> p \<and> p < length xs \<longrightarrow> sl ! p \<noteq> Raw"
    using assms by (auto simp: nth slots_nth)
  show "take ?k sl @ replicate (first - d) Raw @ drop (length xs) sl =
      slots (take d xs @ drop first xs) n"
  proof (rule nth_equalityI)
    show "length (take ?k sl @ replicate (first - d) Raw @ drop (length xs) sl) =
        length (slots (take d xs @ drop first xs) n)"
      using assms len by simp
  next
    fix p
    assume "p < length (take ?k sl @ replicate (first - d) Raw @ drop (length xs) sl)"
    then have p: "p < n" using assms len by simp
    have ys: "length (take d xs @ drop first xs) = ?k" using assms by simp
    show "(take ?k sl @ replicate (first - d) Raw @ drop (length xs) sl) ! p =
        slots (take d xs @ drop first xs) n ! p"
      using p assms len ys
      by (cases "p < ?k"; cases "p < d"; cases "p < length xs")
        (simp_all add: nth_append nth slots_nth min_def, (intro impI, linarith)+)
  qed
qed

lemma erase_slots:
  assumes h: "holds ib ic F (v, m) xs" and "from_i < to_i" "to_i \<le> length xs"
  shows "\<exists>m' m''. move_slots (m_begin v) to_i (m_size v) from_i m = Some m' \<and>
    destroyRange (m_size v - (to_i - from_i)) (m_size v) v m' = Some m'' \<and>
    holds ib ic F (v\<lparr>m_size := m_size v - (to_i - from_i)\<rparr>, m'') (take from_i xs @ drop to_i xs)"
proof -
  have inv: "vsa_inv v m xs" using h by (simp add: holds_def)
  let ?n = "m_capacity v"
  have bv: "bufs m (m_begin v) = Some (slots xs ?n)" "m_size v = length xs" "length xs \<le> ?n"
    using inv by (simp_all add: vsa_inv_def)
  from move_slots_eq [OF bv(1) assms(2,3) bv(3)] obtain sl where
    sl: "move_slots (m_begin v) to_i (length xs) from_i m = Some (m\<lparr>bufs := (bufs m)(m_begin v \<mapsto> sl)\<rparr>)"
      "moved_slots xs ?n to_i from_i (length xs - to_i) sl" by blast
  note fin = moved_slots_final [OF sl(2) assms(2,3) bv(3)]
  let ?m' = "m\<lparr>bufs := (bufs m)(m_begin v \<mapsto> sl)\<rparr>"
  let ?m'' = "m\<lparr>bufs := (bufs m)(m_begin v \<mapsto> slots (take from_i xs @ drop to_i xs) ?n)\<rparr>"
  have "destroyRange (length xs - (to_i - from_i)) (length xs) v ?m' = Some ?m''"
    using destroyRange_eq [of ?m' v sl "length xs - (to_i - from_i)" "length xs"] fin assms bv by simp
  moreover have "holds ib ic F (v\<lparr>m_size := length (take from_i xs @ drop to_i xs)\<rparr>, ?m'')
      (take from_i xs @ drop to_i xs)"
    using assms by (intro shrink_holds [OF h]) simp_all
  moreover have "length (take from_i xs @ drop to_i xs) = length xs - (to_i - from_i)"
    using assms by simp
  ultimately show ?thesis using sl(1) bv(2) by (simp del: length_append)
qed

lemma erase_range_holds:
  assumes h: "holds ib ic F s xs" and "from_i \<le> to_i" "to_i \<le> length xs"
  shows "\<exists>s'. erase_range from_i to_i s = Some s' \<and> holds ib ic F s' (take from_i xs @ drop to_i xs)"
proof (cases "from_i = to_i")
  case True
  with h show ?thesis by (cases s) (simp add: erase_range_def)
next
  case False
  with erase_slots [of ib ic F "fst s" "snd s" xs from_i to_i] assms show ?thesis
    by (cases s) (auto simp: erase_range_def Let_def)
qed

lemma pop_back_destroyRange:
  assumes "0 < m_size v" "m_size v < 2 ^ 64"
  shows "pop_back (v, m) =
    map_option (\<lambda>m. (v\<lparr>m_size := m_size v - 1\<rparr>, m)) (destroyRange (m_size v - 1) (m_size v) v m)"
proof -
  have "[m_size v - 1..<m_size v] = [m_size v - 1]"
    using assms(1) by (cases "m_size v") simp_all
  then show ?thesis
    using assms by (auto simp: pop_back_def destroyRange_def Let_def split: option.split)
qed

lemma erase_one_holds:
  assumes h: "holds ib ic F s xs" and "i < length xs"
  shows "\<exists>s'. erase_one i s = Some s' \<and> holds ib ic F s' (take i xs @ drop (Suc i) xs)"
proof -
  obtain v m where s: "s = (v, m)" by (cases s)
  then have v: "m_size v = length xs" "m_size v < 2 ^ 64" using h by (auto simp: holds_def vsa_inv_def)
  then have "0 < m_size v" using assms(2) by linarith
  note pop = pop_back_destroyRange [OF this v(2), unfolded v(1)]
  from erase_slots [of ib ic F v m xs i "Suc i"] assms s v(1) show ?thesis
    by (auto simp: erase_one_def pop)
qed

lemma pop_back_holds:
  assumes h: "holds ib ic F s xs" and "xs \<noteq> []"
  shows "\<exists>s'. pop_back s = Some s' \<and> holds ib ic F s' (butlast xs)"
proof -
  obtain v m where s: "s = (v, m)" by (cases s)
  then have v: "m_size v = length xs" "m_size v < 2 ^ 64"
    and d: "bufs m (m_begin v) = Some (slots xs (m_capacity v))" "length xs \<le> m_capacity v"
    using h by (auto simp: holds_def vsa_inv_def)
  have "holds ib ic F (v\<lparr>m_size := length (butlast xs)\<rparr>,
      m\<lparr>bufs := (bufs m)(m_begin v \<mapsto> slots (butlast xs) (m_capacity v))\<rparr>) (butlast xs)"
    using h s by (intro shrink_holds [of ib ic F v m xs]) simp_all
  with destroyRange_slots [OF d(1) _ d(2), of "length xs - 1"] assms(2) v s show ?thesis
    by (simp add: pop_back_destroyRange butlast_conv_take)
qed


subsection \<open>Resizing, resetting and destroying\<close>

text \<open>
  \<open>resize(n, value)\<close> is right when \<open>value\<close> still denotes the same object after \<open>reserve\<close>: it lies
  outside the array, or the array need not grow.
\<close>

lemma resize_value_holds:
  assumes h: "holds ib ic F s xs" and n: "n < 2 ^ 64"
    and stable: "\<And>s ys. holds ib ic F s ys \<Longrightarrow> read_arg a (snd s) = Some x"
  shows "\<exists>s'. resize_value n a s = Some s' \<and>
    holds ib ic F s' (take n xs @ replicate (n - length xs) x)"
proof -
  obtain v m where s: "s = (v, m)" by (cases s)
  have v: "m_size v = length xs" and d: "bufs m (m_begin v) = Some (slots xs (m_capacity v))" "length xs \<le> m_capacity v"
    using h s by (simp_all add: holds_def vsa_inv_def)
  consider "n < length xs" | "n = length xs" | "length xs < n" by linarith
  then show ?thesis
  proof cases
    case 1
    have "holds ib ic F (v\<lparr>m_size := length (take n xs)\<rparr>,
        m\<lparr>bufs := (bufs m)(m_begin v \<mapsto> slots (take n xs) (m_capacity v))\<rparr>) (take n xs)"
      using h s by (intro shrink_holds [of ib ic F v m xs]) simp_all
    with 1 destroyRange_slots [OF d(1) _ d(2), of n] v s show ?thesis
      by (simp add: resize_value_def)
  next
    case 2
    have eq: "v\<lparr>m_size := length xs\<rparr> = v" using v by (cases v) simp
    have "resize_value n a s = Some (v\<lparr>m_size := length xs\<rparr>, m)" using 2 s v by (simp add: resize_value_def)
    with 2 h s show ?thesis unfolding eq by simp
  next
    case 3
    from reserve_holds [OF h n] obtain s1 where
      r: "reserve n s = Some s1" "holds ib ic F s1 xs" "n \<le> m_capacity (fst s1)" by blast
    have "\<exists>s'. for_each (\<lambda>_. construct_back a) [0..<n - length xs] s1 = Some s' \<and>
        holds ib ic F s' (xs @ replicate (n - length xs) x) \<and>
        m_capacity (fst s') = m_capacity (fst s1) \<and> m_begin (fst s') = m_begin (fst s1)"
      using r 3 stable by (intro filled.push_repeat) auto
    then obtain v' m' where p: "for_each (\<lambda>_. construct_back a) [0..<n - length xs] s1 = Some (v', m')"
      "holds ib ic F (v', m') (xs @ replicate (n - length xs) x)" by auto
    have "for_each (\<lambda>_. construct_back a) [length xs..<n] s1 = Some (v', m')"
      using p(1) for_each_const [of "[length xs..<n]" "[0..<n - length xs]" "construct_back a" s1] by simp
    moreover have "v'\<lparr>m_size := n\<rparr> = v'"
      using p(2) 3 by (cases v') (simp add: holds_def vsa_inv_def)
    ultimately have "resize_value n a s = Some (v', m')"
      using 3 s v r by (simp add: resize_value_def)
    with p(2) 3 show ?thesis by simp
  qed
qed


lemma grow_begin: "grow n (v, m) = Some s' \<Longrightarrow> m_begin (fst s') = next_buf m"
  by (auto simp: grow_def allocate_def Let_def split: option.splits)

text \<open>After growing, no object is left in the buffer the array used before.\<close>

lemma grow_stale:
  assumes h: "holds ib ic F (v, m) xs" and g: "grow n (v, m) = Some s'" and h': "holds ib ic F s' xs"
  shows "read_slot (m_begin v) i (snd s') = None"
proof -
  have b: "m_begin (fst s') = next_buf m" by (rule grow_begin [OF g])
  have inv: "vsa_inv v m xs" and i: "m_inlineBegin v = ib" using h by (simp_all add: holds_def)
  have nb: "m_begin v \<noteq> next_buf m" "ib \<noteq> next_buf m"
    using inv i by (auto simp: vsa_inv_def isInline_def dest!: fresh_buf split: if_splits)
  show ?thesis
  proof (cases "isInline v")
    case True
    then have "bufs (snd s') (m_begin v) = Some (slots [] ic)"
      using h' b nb i by (auto simp: holds_def vsa_inv_def isInline_def split: if_splits)
    then show ?thesis by (simp add: read_slot_def slots_Nil)
  next
    case False
    then have "others (fst s') (snd s') (m_begin v) = bufs (snd s') (m_begin v)"
      using b nb h' i by (simp add: others_def holds_def isInline_def)
    moreover have "others v m (m_begin v) = None" by (simp add: others_def)
    ultimately show ?thesis using h h' by (simp add: holds_def read_slot_def)
  qed
qed

lemma resetToInline_holds:
  assumes h: "holds ib ic F s xs"
  shows "\<exists>s'. resetToInline s = Some s' \<and> holds ib ic F s' [] \<and> isInline (fst s')"
proof -
  obtain v m where s: "s = (v, m)" by (cases s)
  have inv: "vsa_inv v m xs" using h s by (simp add: holds_def)
  let ?m = "m\<lparr>bufs := (bufs m)(m_begin v \<mapsto> replicate (m_capacity v) Raw)\<rparr>"
  have d: "destroyRange 0 (m_size v) v m = Some ?m"
    using destroyRange_slots [of m v xs "m_capacity v" 0] inv by (simp add: vsa_inv_def slots_Nil)
  show ?thesis
  proof (cases "isInline v")
    case True
    then show ?thesis
      using shrink_holds [of ib ic F v m xs ?m "[]"] d h s
      by (simp add: resetToInline_def slots_Nil isInline_def)
  next
    case False
    then have "deallocate (m_begin v) (m_capacity v) ?m = Some (?m\<lparr>bufs := (bufs ?m)(m_begin v := None)\<rparr>)"
      by (simp add: deallocate_def)
    moreover have "holds ib ic F (v\<lparr>m_begin := m_inlineBegin v, m_capacity := m_inlineCapacity v, m_size := 0\<rparr>,
        ?m\<lparr>bufs := (bufs ?m)(m_begin v := None)\<rparr>) []"
      using h s False by (auto simp: holds_def vsa_inv_def isInline_def others_def below_next_def)
    ultimately show ?thesis using False d s by (simp add: resetToInline_def isInline_def)
  qed
qed

lemma destructor_releases:
  assumes h: "holds ib ic F s xs"
  shows "\<exists>m'. vsa_destructor s = Some m' \<and> bufs m' = F(ib \<mapsto> replicate ic Raw)"
proof -
  obtain v m where s: "s = (v, m)" by (cases s)
  have inv: "vsa_inv v m xs" and i: "m_inlineBegin v = ib" "m_inlineCapacity v = ic" and F: "F = others v m"
    using h s by (simp_all add: holds_def)
  let ?m = "m\<lparr>bufs := (bufs m)(m_begin v \<mapsto> replicate (m_capacity v) Raw)\<rparr>"
  have d: "destroyRange 0 (m_size v) v m = Some ?m"
    using destroyRange_slots [of m v xs "m_capacity v" 0] inv by (simp add: vsa_inv_def slots_Nil)
  show ?thesis
  proof (cases "isInline v")
    case True
    then show ?thesis
      using d s inv i by (auto simp: vsa_destructor_def release_def F others_def isInline_def vsa_inv_def)
  next
    case False
    then have "deallocate (m_begin v) (m_capacity v) ?m = Some (?m\<lparr>bufs := (bufs ?m)(m_begin v := None)\<rparr>)"
      by (simp add: deallocate_def)
    with False d s inv i show ?thesis
      by (auto simp: vsa_destructor_def release_def F others_def isInline_def vsa_inv_def slots_Nil)
  qed
qed


lemma assign_copy_holds:
  assumes h: "holds ib ic F s xs" and "m_inlineBegin w \<noteq> ib"
    and w: "F (m_begin w) = Some (slots ys n)" "m_size w = length ys" "length ys \<le> n" "n < 2 ^ 64"
  shows "\<exists>s'. assign_copy w s = Some s' \<and> holds ib ic F s' ys"
proof -
  from clear_holds [OF h] obtain s1 where c: "vsa_clear s = Some s1" "holds ib ic F s1 []" by blast
  from reserve_holds [OF c(2), of "length ys"] w obtain s2 where
    r: "reserve (length ys) s1 = Some s2" "holds ib ic F s2 []" "length ys \<le> m_capacity (fst s2)" by auto
  have rd: "read_arg (Elem (m_begin w) i) (snd t) = Some (ys ! i)" if "holds ib ic F t zs" "i < length ys" for t zs i
  proof -
    have "others (fst t) (snd t) (m_begin w) = Some (slots ys n)" using that(1) w(1) by (simp add: holds_def)
    then have "bufs (snd t) (m_begin w) = Some (slots ys n)" by (simp add: others_def split: if_splits)
    with that(2) w(3) show ?thesis by (simp add: read_slot_def slots_nth)
  qed
  let ?el = "\<lambda>i. Elem (m_begin w) i" and ?g = "\<lambda>a. case a of Elem b i \<Rightarrow> ys ! i | Val x \<Rightarrow> x"
  have "\<exists>s'. for_each construct_back (map ?el [0..<length ys]) s2 = Some s' \<and>
      holds ib ic F s' ([] @ map ?g (map ?el [0..<length ys])) \<and>
      m_capacity (fst s') = m_capacity (fst s2) \<and> m_begin (fst s') = m_begin (fst s2)"
    using r rd by (intro filled.push_all) auto
  moreover have "m_inlineBegin (fst s) \<noteq> m_inlineBegin w" using h assms(2) by (simp add: holds_def)
  ultimately show ?thesis
    using c r w(2) by (auto simp: assign_copy_def map_nth comp_def for_each_map)
qed

subsection \<open>Refinement to lists\<close>

text \<open>
  The operations a client can issue, with values from outside or from the array itself, their
  execution on the store and their meaning on lists (\<open>None\<close>: the call is outside the contract).
\<close>

datatype 'a source = Ext 'a | Own nat

datatype 'a vop =
    PushBack "'a source" | Append "'a list" | InsertOne nat "'a source" | InsertCount nat nat "'a source"
  | PopBack | EraseOne nat | EraseRange nat nat | Clear | Reserve nat | Resize nat 'a

fun source_arg :: "vsa \<Rightarrow> 'a source \<Rightarrow> 'a arg" where
  "source_arg v (Ext x) = Val x"
| "source_arg v (Own i) = Elem (m_begin v) i"

fun source_value :: "'a source \<Rightarrow> 'a list \<Rightarrow> 'a option" where
  "source_value (Ext x) xs = Some x"
| "source_value (Own i) xs = (if i < length xs then Some (xs ! i) else None)"

fun exec_vop :: "'a vop \<Rightarrow> 'a vsa_state \<Rightarrow> 'a vsa_state option" where
  "exec_vop (PushBack x) s = push_back (source_arg (fst s) x) s"
| "exec_vop (Append ys) s = vsa_append (map Val ys) s"
| "exec_vop (InsertOne i x) s = insert_one i (source_arg (fst s) x) s"
| "exec_vop (InsertCount i n x) s = insert_count i n (source_arg (fst s) x) s"
| "exec_vop PopBack s = pop_back s"
| "exec_vop (EraseOne i) s = erase_one i s"
| "exec_vop (EraseRange i j) s = erase_range i j s"
| "exec_vop Clear s = vsa_clear s"
| "exec_vop (Reserve n) s = reserve n s"
| "exec_vop (Resize n x) s = vsa_resize n x s"

definition max_elems :: nat where
  "max_elems = 2 ^ 64 - 1"

fun list_vop :: "'a vop \<Rightarrow> 'a list \<Rightarrow> 'a list option" where
  "list_vop (PushBack x) xs =
     (if length xs < max_elems then map_option (\<lambda>x. xs @ [x]) (source_value x xs) else None)"
| "list_vop (Append ys) xs = (if length xs + length ys \<le> max_elems then Some (xs @ ys) else None)"
| "list_vop (InsertOne i x) xs =
     (if length xs < max_elems \<and> i \<le> length xs
      then map_option (\<lambda>x. take i xs @ [x] @ drop i xs) (source_value x xs) else None)"
| "list_vop (InsertCount i n x) xs =
     (if length xs + n \<le> max_elems \<and> i \<le> length xs
      then map_option (\<lambda>x. take i xs @ replicate n x @ drop i xs) (source_value x xs) else None)"
| "list_vop PopBack xs = (if xs = [] then None else Some (butlast xs))"
| "list_vop (EraseOne i) xs = (if i < length xs then Some (take i xs @ drop (Suc i) xs) else None)"
| "list_vop (EraseRange i j) xs =
     (if i \<le> j \<and> j \<le> length xs then Some (take i xs @ drop j xs) else None)"
| "list_vop Clear xs = Some []"
| "list_vop (Reserve n) xs = (if n \<le> max_elems then Some xs else None)"
| "list_vop (Resize n x) xs =
     (if n \<le> max_elems then Some (take n xs @ replicate (n - length xs) x) else None)"

lemma source_arg_value:
  "holds ib ic F s xs \<Longrightarrow> source_value x xs = Some y \<Longrightarrow> read_arg (source_arg (fst s) x) (snd s) = Some y"
  by (cases x) (auto simp: holds_def vsa_inv_def read_slot_def slots_nth split: if_splits)

lemma exec_vop_holds:
  assumes h: "holds ib ic F s xs" and op: "list_vop p xs = Some ys"
  shows "\<exists>s'. exec_vop p s = Some s' \<and> holds ib ic F s' ys"
proof (cases p)
  case (PushBack x)
  with op source_arg_value [OF h, of x] emplace_back_holds [OF h] show ?thesis
    by (auto simp: max_elems_def push_back_def split: if_splits)
next
  case (Append zs)
  with op have "\<exists>s'. for_each push_back (map Val zs) s = Some s' \<and>
      holds ib ic F s' (xs @ map (\<lambda>a. case a of Val x \<Rightarrow> x) (map Val zs))"
    by (intro pushed.push_all [OF h]) (auto simp: max_elems_def split: if_splits)
  with op Append show ?thesis by (auto simp: vsa_append_def comp_def split: if_splits)
next
  case (InsertOne i x)
  with op source_arg_value [OF h, of x] insert_one_holds [OF h] show ?thesis
    by (fastforce simp: max_elems_def split: if_splits)
next
  case (InsertCount i n x)
  with op source_arg_value [OF h, of x] insert_count_holds [OF h] show ?thesis
    by (fastforce simp: max_elems_def split: if_splits)
next
  case PopBack
  with op pop_back_holds [OF h] show ?thesis by (auto split: if_splits)
next
  case (EraseOne i)
  with op erase_one_holds [OF h] show ?thesis by (auto split: if_splits)
next
  case (EraseRange i j)
  with op erase_range_holds [OF h] show ?thesis by (auto split: if_splits)
next
  case Clear
  with op clear_holds [OF h] show ?thesis by auto
next
  case (Reserve n)
  with op reserve_holds [OF h, of n] show ?thesis by (auto simp: max_elems_def split: if_splits)
next
  case (Resize n x)
  with op resize_value_holds [OF h, of n "Val x" x] show ?thesis
    by (auto simp: max_elems_def vsa_resize_def split: if_splits)
qed

lemma init_holds:
  assumes "bufs m b = Some (replicate n Raw)" "n < 2 ^ 64" "below_next m"
  shows "holds b n ((bufs m)(b := None)) (adoptInlineBuffer b n, m) []"
  using assms by (auto simp: holds_def vsa_inv_def adoptInlineBuffer_def isInline_def others_def slots_Nil)


subsection \<open>Properties\<close>

text \<open>A store with one raw buffer of two slots, for the witnesses.\<close>

definition demo_mem :: "nat mem" where
  "demo_mem = \<lparr>bufs = [0 \<mapsto> replicate 2 Raw], next_buf = 1\<rparr>"

lemma demo_init: "holds 0 2 Map.empty (adoptInlineBuffer 0 2, demo_mem) []"
  using init_holds [of demo_mem 0 2] by (simp add: demo_mem_def below_next_def)

text \<open>
  \<open>resize(n, value)\<close> with \<open>value\<close> an element of the array itself is undefined as soon as the
  array has to grow: \<open>reserve\<close> has destroyed the object that the reference denotes.
\<close>

lemma vsa_resize_alias_undefined:
  assumes "holds ib ic F s xs" and "i < length xs" and "m_capacity (fst s) < n" and "n < 2 ^ 64"
  shows "resize_value n (Elem (m_begin (fst s)) i) s = None"
proof -
  obtain v m where s: "s = (v, m)" by (cases s)
  have inv: "m_size v = length xs" "length xs \<le> m_capacity v"
    using assms(1) s by (simp_all add: holds_def vsa_inv_def)
  with assms(3) s have n: "length xs < n" by simp
  from grow_holds [of ib ic F v m xs n] assms(1,4) s n obtain s1 where
    g: "grow n (v, m) = Some s1" "holds ib ic F s1 xs" by auto
  have "construct_back (Elem (m_begin v) i) s1 = None"
    using grow_stale [OF _ g] assms(1) s by (cases s1) (simp add: construct_back_def)
  moreover have "[length xs..<n] = length xs # [Suc (length xs)..<n]" using n by (rule upt_conv_Cons)
  ultimately show ?thesis
    using inv n g s assms(3) by (simp add: resize_value_def reserve_def)
qed

text \<open>
  C1. Every sequence of operations on an array behaves like the list operations: no step is undefined, the result is the
  list result, the invariant is kept, and every buffer the array does not own is untouched (so none is leaked).
  What is pushed and inserted may be an element of the array itself; what is appended, and what fills a resized array,
  comes from outside. Filling with an element of the array is undefined whenever the array has to grow.
\<close>

theorem vsa_refines_list:
  assumes "holds ib ic F s xs" and "for_each list_vop ops xs = Some ys"
  shows "\<exists>s'. for_each exec_vop ops s = Some s' \<and> holds ib ic F s' ys \<and>
    (\<forall>n i. i < length ys \<and> m_capacity (fst s') < n \<and> n < 2 ^ 64 \<longrightarrow> resize_value n (Elem (m_begin (fst s')) i) s' = None)"
proof -
  have "\<exists>s'. for_each exec_vop ops s = Some s' \<and> holds ib ic F s' ys"
    using assms
  proof (induction ops arbitrary: s xs)
    case (Cons p ops)
    from Cons.prems(2) obtain zs where "list_vop p xs = Some zs" "for_each list_vop ops zs = Some ys"
      by (auto split: option.splits)
    moreover from this obtain s1 where "exec_vop p s = Some s1" "holds ib ic F s1 zs"
      using exec_vop_holds [OF Cons.prems(1)] by blast
    ultimately show ?case using Cons.IH by simp
  qed simp
  then show ?thesis using vsa_resize_alias_undefined by blast
qed

definition demo_vops :: "nat vop list" where
  "demo_vops = [PushBack (Ext 7), PushBack (Own 0), PushBack (Own 1)]"

theorem vsa_refines_list_witness:
  "\<exists>s'. for_each exec_vop demo_vops (adoptInlineBuffer 0 2, demo_mem) = Some s' \<and> holds 0 2 Map.empty s' [7, 7, 7] \<and>
      resize_value 5 (Elem (m_begin (fst s')) 0) s' = None"
proof -
  have l: "for_each list_vop demo_vops [] = Some [7, 7, 7 :: nat]"
    by (simp add: demo_vops_def max_elems_def)
  have c: "map_option (\<lambda>s. m_capacity (fst s)) (for_each exec_vop demo_vops (adoptInlineBuffer 0 2, demo_mem)) = Some 4"
  proof -
    have r: "replicate 2 x = [x, x]" "replicate 4 x = [x, x, x, x]" "(a # b # c # l)[2 := x] = a # b # x # l" for x a b c :: "nat slot" and l
      by (simp_all add: numeral_2_eq_2 eval_nat_numeral)
    show ?thesis
      by (simp add: demo_vops_def push_back_def emplace_back_def construct_back_def construct_def update_buf_def demo_mem_def adoptInlineBuffer_def
        r size_add_def growAndEmplaceBack_def computeNewCapacity_def kMinHeapCapacity_def allocate_def read_slot_def relocateTo_def
        move_out_def destroy_def release_def isInline_def)
  qed
  from vsa_refines_list [OF demo_init l] c show ?thesis by (elim exE conjE) (rule exI, force)
qed

text \<open>
  The growth policy covers the request whatever wrap-around \<open>m_capacity * 2\<close> suffers: after
  \<open>reserve(n)\<close> the capacity is at least \<open>n\<close> and the elements are unchanged.
\<close>

theorem vsa_reserve_capacity:
  assumes "holds ib ic F s xs" and "n < 2 ^ 64"
  shows "\<exists>s'. reserve n s = Some s' \<and> holds ib ic F s' xs \<and> n \<le> m_capacity (fst s')"
  by (rule reserve_holds [OF assms])

theorem vsa_reserve_capacity_witness:
  "\<exists>s'. reserve 9 (adoptInlineBuffer 0 2, demo_mem) = Some s' \<and> holds 0 2 Map.empty s' [] \<and>
     9 \<le> m_capacity (fst s')"
  by (rule vsa_reserve_capacity [OF demo_init]) simp

text \<open>
  Copy assignment from another array of the same store gives equal contents and leaves the
  source alone.
\<close>

theorem vsa_assign_copy:
  assumes "holds ib ic F s xs" and "m_inlineBegin w \<noteq> ib"
    and "F (m_begin w) = Some (slots ys n)" and "m_size w = length ys" and "length ys \<le> n" and "n < 2 ^ 64"
  shows "\<exists>s'. assign_copy w s = Some s' \<and> holds ib ic F s' ys"
  by (rule assign_copy_holds [OF assms])

theorem vsa_assign_copy_witness:
  "\<exists>s'. assign_copy \<lparr>m_begin = 5, m_size = 3, m_capacity = 4, m_inlineBegin = 5, m_inlineCapacity = 4\<rparr>
      (adoptInlineBuffer 0 2, \<lparr>bufs = [0 \<mapsto> replicate 2 Raw, 5 \<mapsto> slots [1, 2, 3 :: nat] 4], next_buf = 6\<rparr>) = Some s' \<and>
     holds 0 2 [5 \<mapsto> slots [1, 2, 3] 4] s' [1, 2, 3]"
proof (rule vsa_assign_copy [where n = 4 and xs = "[]"])
  show "holds 0 2 [5 \<mapsto> slots [1, 2, 3] 4]
      (adoptInlineBuffer 0 2, \<lparr>bufs = [0 \<mapsto> replicate 2 Raw, 5 \<mapsto> slots [1, 2, 3 :: nat] 4], next_buf = 6\<rparr>) []"
    using init_holds [of "\<lparr>bufs = [0 \<mapsto> replicate 2 Raw, 5 \<mapsto> slots [1, 2, 3 :: nat] 4], next_buf = 6\<rparr>" 0 2]
    by (simp add: below_next_def fun_upd_twist)
qed simp_all

text \<open>
  C23. Destroying an array destroys every element and frees its heap buffer: what remains is the
  raw inline buffer and the buffers of others.
\<close>

theorem vsa_destructor_no_leak:
  assumes "holds ib ic F s xs"
  shows "\<exists>m'. vsa_destructor s = Some m' \<and> bufs m' = F(ib \<mapsto> replicate ic Raw)"
  by (rule destructor_releases [OF assms])

theorem vsa_destructor_no_leak_witness:
  "\<exists>m'. vsa_destructor (adoptInlineBuffer 0 2, demo_mem) = Some m' \<and> bufs m' = [0 \<mapsto> replicate 2 Raw]"
  using vsa_destructor_no_leak [OF demo_init] by simp

theorem vsa_resize_alias_undefined_witness:
  "\<exists>s. push_back (Val 7) (adoptInlineBuffer 0 2, demo_mem) = Some s \<and>
     m_capacity (fst s) = 2 \<and> resize_value 9 (Elem (m_begin (fst s)) 0) s = None"
proof -
  let ?s = "(\<lparr>m_begin = 0, m_size = 1, m_capacity = 2, m_inlineBegin = 0, m_inlineCapacity = 2\<rparr>,
      \<lparr>bufs = [0 \<mapsto> [Obj 7, Raw]], next_buf = 1\<rparr>) :: nat vsa_state"
  have p: "push_back (Val 7) (adoptInlineBuffer 0 2, demo_mem) = Some ?s"
    by (simp add: push_back_def emplace_back_def construct_back_def construct_def update_buf_def
        demo_mem_def adoptInlineBuffer_def numeral_2_eq_2 size_add_def)
  have "holds 0 2 Map.empty ?s [7]"
    using emplace_back_holds [OF demo_init, of "Val 7" 7] p by (simp add: push_back_def)
  from vsa_resize_alias_undefined [OF this, of 0 9] p show ?thesis by simp
qed


end
