(* ===== verification/Indexed_Store.thy ===== *)
theory Indexed_Store
  imports Lore_Prelude
begin

text \<open>
  The storage idiom that \<open>ConfigFile\<close> and \<open>ThunkDatabase\<close> share: a vector of entries in insertion
  order plus a hash index from key to position.  A locale states what the clients rely on and
  proves, once, that such a store is a finite map with a stable order.
\<close>

definition index_ok :: "('e \<Rightarrow> 'k) \<Rightarrow> 'e list \<Rightarrow> ('k \<Rightarrow> nat option) \<Rightarrow> bool" where
  "index_ok key xs idx \<longleftrightarrow>
     (\<forall>k i. idx k = Some i \<longleftrightarrow> i < length xs \<and> key (xs ! i) = k)"

lemma index_okD: "index_ok key xs idx \<Longrightarrow> idx k = Some i \<Longrightarrow> i < length xs \<and> key (xs ! i) = k"
  by (simp add: index_ok_def)

lemma index_ok_nth: "index_ok key xs idx \<Longrightarrow> i < length xs \<Longrightarrow> idx (key (xs ! i)) = Some i"
  by (simp add: index_ok_def)

lemma index_ok_None:
  assumes "index_ok key xs idx"
  shows "idx k = None \<longleftrightarrow> k \<notin> key ` set xs"
proof -
  have "k \<in> key ` set xs \<longleftrightarrow> (\<exists>i. i < length xs \<and> key (xs ! i) = k)"
    by (metis image_iff in_set_conv_nth)
  also have "\<dots> \<longleftrightarrow> (\<exists>i. idx k = Some i)" using assms by (simp add: index_ok_def)
  finally show ?thesis by auto
qed

lemma index_ok_distinct: "index_ok key xs idx \<Longrightarrow> distinct (map key xs)"
  by (auto simp: distinct_conv_nth index_ok_def) (metis option.inject)

lemma index_ok_Nil: "index_ok key [] Map.empty"
  by (simp add: index_ok_def)

lemma index_ok_append:
  assumes "index_ok key xs idx" "idx (key e) = None"
  shows "index_ok key (xs @ [e]) (idx(key e \<mapsto> length xs))"
  unfolding index_ok_def
proof (intro allI)
  fix k i
  have "key (xs ! i) \<noteq> key e" if "i < length xs"
    using index_ok_nth [OF assms(1) that] assms(2) by auto
  then show "(idx(key e \<mapsto> length xs)) k = Some i \<longleftrightarrow> i < length (xs @ [e]) \<and> key ((xs @ [e]) ! i) = k"
    using assms by (cases "i = length xs") (auto simp: index_ok_def nth_append less_Suc_eq)
qed

lemma index_ok_update:
  "index_ok key xs idx \<Longrightarrow> idx (key e) = Some i \<Longrightarrow> index_ok key (xs[i := e]) idx"
  by (auto simp: index_ok_def nth_list_update)

text \<open>Replacing an entry by one with the same key keeps the index.\<close>

lemma index_ok_same_key:
  "index_ok key xs idx \<Longrightarrow> i < length xs \<Longrightarrow> key e = key (xs ! i) \<Longrightarrow> index_ok key (xs[i := e]) idx"
  by (rule index_ok_update) (simp_all add: index_ok_nth)

text \<open>
  \<open>valid\<close> is whatever else the store needs (that its pointers denote something, say); every
  insertion keeps it.
\<close>

locale indexed_store =
  fixes key :: "'e \<Rightarrow> 'k"
    and entries :: "'s \<Rightarrow> 'e list"
    and index :: "'s \<Rightarrow> 'k \<Rightarrow> nat option"
    and put :: "'e \<Rightarrow> 's \<Rightarrow> 's"
    and valid :: "'s \<Rightarrow> bool"
  assumes put_valid: "valid s \<Longrightarrow> valid (put e s)"
    and put_new: "valid s \<Longrightarrow> index s (key e) = None \<Longrightarrow>
      entries (put e s) = entries s @ [e] \<and>
      index (put e s) = (index s)(key e \<mapsto> length (entries s))"
    and put_known: "valid s \<Longrightarrow> index_ok key (entries s) (index s) \<Longrightarrow> index s (key e) = Some i \<Longrightarrow>
      entries (put e s) = (entries s)[i := e] \<and> index (put e s) = index s"
begin

text \<open>What a lookup returns.\<close>

definition view :: "'s \<Rightarrow> 'k \<Rightarrow> 'e option" where
  "view s k = map_option (\<lambda>i. entries s ! i) (index s k)"

lemma put_ok: "valid s \<Longrightarrow> index_ok key (entries s) (index s) \<Longrightarrow> index_ok key (entries (put e s)) (index (put e s))"
  by (cases "index s (key e)") (auto simp: put_new put_known index_ok_append index_ok_update)

lemma put_view:
  assumes v: "valid s" and ok: "index_ok key (entries s) (index s)"
  shows "view (put e s) = (view s)(key e \<mapsto> e)"
proof
  fix k
  show "view (put e s) k = ((view s)(key e \<mapsto> e)) k"
  proof (cases "index s (key e)")
    case None
    then show ?thesis
      using put_new [OF v None] index_okD [OF ok, of k]
      by (cases "index s k") (auto simp: view_def nth_append)
  next
    case (Some i)
    then show ?thesis
      using put_known [OF v ok Some] index_okD [OF ok, of k] index_okD [OF ok Some]
      by (cases "index s k") (auto simp: view_def nth_list_update)
  qed
qed

lemma put_order:
  assumes v: "valid s" and ok: "index_ok key (entries s) (index s)"
  shows "map key (entries (put e s)) =
    (if key e \<in> key ` set (entries s) then map key (entries s) else map key (entries s) @ [key e])"
proof (cases "index s (key e)")
  case None
  then show ?thesis using put_new [OF v None] index_ok_None [OF ok, of "key e"] by simp
next
  case (Some i)
  then have "(map key (entries s))[i := key e] = map key (entries s)"
    using index_okD [OF ok Some] by (metis list_update_id nth_map)
  then show ?thesis
    using put_known [OF v ok Some] index_ok_None [OF ok, of "key e"] Some by (simp add: map_update)
qed

text \<open>A run of insertions, as the loaders perform it: the last entry given for a key is found.\<close>

lemma put_list:
  assumes "valid s" "index_ok key (entries s) (index s)"
  shows "valid (fold put es s)" "index_ok key (entries (fold put es s)) (index (fold put es s))"
    "view (fold put es s) = view s ++ map_of (map (\<lambda>e. (key e, e)) (rev es))"
  using assms
proof (induction es arbitrary: s)
  case (Cons e es)
  {
    case 1
    then show ?case using Cons.IH(1) [of "put e s"] put_valid put_ok by simp
  next
    case 2
    then show ?case using Cons.IH(2) [of "put e s"] put_valid put_ok by simp
  next
    case 3
    then show ?case
      using Cons.IH(3) [of "put e s"] put_valid put_ok put_view [of s e]
      by (simp add: map_add_upd_left [symmetric] map_add_def fun_eq_iff split: option.split)
  }
qed simp_all

lemma view_entries:
  assumes "index_ok key (entries s) (index s)"
  shows "view s k = map_of (map (\<lambda>e. (key e, e)) (entries s)) k"
proof (cases "index s k")
  case None
  then have "k \<notin> fst ` set (map (\<lambda>e. (key e, e)) (entries s))"
    using index_ok_None [OF assms] by (simp add: image_image)
  then have "map_of (map (\<lambda>e. (key e, e)) (entries s)) k = None" by (simp only: map_of_eq_None_iff not_False_eq_True)
  then show ?thesis using None by (simp add: view_def)
next
  case (Some i)
  have d: "distinct (map fst (map (\<lambda>e. (key e, e)) (entries s)))"
    using index_ok_distinct [OF assms] by (simp add: comp_def)
  have i: "i < length (entries s)" "key (entries s ! i) = k" using index_okD [OF assms Some] by simp_all
  then have "(k, entries s ! i) \<in> set (map (\<lambda>e. (key e, e)) (entries s))" by force
  with d have "map_of (map (\<lambda>e. (key e, e)) (entries s)) k = Some (entries s ! i)"
    by (rule map_of_is_SomeI)
  then show ?thesis using Some by (simp add: view_def)
qed

end

end
