(* ===== verification/Config_File.thy ===== *)
theory Config_File
  imports Indexed_Store
begin

text \<open>
  The INI-style reader of \<open>src/libs/Support/ConfigFile.cpp\<close> and
  \<open>include/lorelei/Support/ConfigFile.h\<close>: quoting and comment handling, sections, typed getters,
  the line parser with its \<open>include\<close> directive, and \<open>load\<close>.  The file system is a parameter.
  Undefined behaviour (\<open>pop_back\<close> on an empty vector) and unbounded include recursion are outcomes
  of their own.
\<close>

subsection \<open>Text helpers\<close>

definition cfg_ws :: string where
  "cfg_ws = [CHR '' '', tab, cr, nl]"

definition cfg_trim :: "string \<Rightarrow> string" where
  "cfg_trim str =
     (case find_first_not_of cfg_ws str of
        None \<Rightarrow> []
      | Some start \<Rightarrow>
          (case find_last_not_of cfg_ws str of
             None \<Rightarrow> []
           | Some end_pos \<Rightarrow> take (end_pos - start + 1) (drop start str)))"

definition isWhitespace :: "char \<Rightarrow> bool" where
  "isWhitespace c \<longleftrightarrow> c = CHR '' '' \<or> c = tab \<or> c = cr \<or> c = nl"

definition unquoteString :: "string \<Rightarrow> string" where
  "unquoteString str =
     (if 2 \<le> length str \<and>
         (hd str = dquote \<and> last str = dquote \<or> hd str = squote \<and> last str = squote)
      then take (length str - 2) (drop 1 str)
      else str)"

text \<open>The loop over the characters strictly between the quotes.\<close>

fun unescape_loop :: "string \<Rightarrow> string \<Rightarrow> string option" where
  "unescape_loop [] result = Some result"
| "unescape_loop [c] result = (if c = backslash then None else Some (result @ [c]))"
| "unescape_loop (c # d # s) result =
     (if c = backslash then
        (if d = CHR ''n'' then unescape_loop s (result @ [nl])
         else if d = CHR ''t'' then unescape_loop s (result @ [tab])
         else if d = CHR ''r'' then unescape_loop s (result @ [cr])
         else if d = backslash then unescape_loop s (result @ [backslash])
         else if d = dquote then unescape_loop s (result @ [dquote])
         else if d = squote then unescape_loop s (result @ [squote])
         else None)
      else unescape_loop (d # s) (result @ [c]))"

definition parseQuotedString :: "string \<Rightarrow> string option" where
  "parseQuotedString str =
     (if str = [] then Some str
      else
        let quoteChar = hd str in
        if quoteChar \<noteq> dquote \<and> quoteChar \<noteq> squote then Some str
        else if length str < 2 \<or> last str \<noteq> quoteChar then None
        else unescape_loop (take (length str - 2) (drop 1 str)) [])"

text \<open>
  The scan of \<open>removeInlineComment\<close>; it yields the text kept and the final \<open>inQuotes\<close> and
  \<open>escaped\<close> flags.
\<close>

fun comment_loop :: "string \<Rightarrow> string \<Rightarrow> bool \<Rightarrow> char \<Rightarrow> bool \<Rightarrow> string \<times> bool \<times> bool" where
  "comment_loop [] result inQuotes quoteChar escaped = (result, inQuotes, escaped)"
| "comment_loop (c # cs) result inQuotes quoteChar escaped =
     (if escaped then comment_loop cs (result @ [c]) inQuotes quoteChar False
      else if c = backslash then comment_loop cs (result @ [c]) inQuotes quoteChar True
      else if c = dquote \<or> c = squote then
        (if \<not> inQuotes then comment_loop cs (result @ [c]) True c False
         else if c = quoteChar then comment_loop cs (result @ [c]) False quoteChar False
         else comment_loop cs (result @ [c]) inQuotes quoteChar False)
      else if c = CHR ''#'' \<and> \<not> inQuotes then (result, inQuotes, escaped)
      else comment_loop cs (result @ [c]) inQuotes quoteChar False)"

definition removeInlineComment :: "string \<Rightarrow> string option" where
  "removeInlineComment line =
     (let (result, inQuotes, escaped) = comment_loop line [] False (CHR 0x00) False in
      if inQuotes then None else if escaped then None else Some result)"

subsection \<open>Sections\<close>

record cfg_section =
  m_name :: string
  m_keyValues :: "(string \<times> string) list"
  m_keyIndex :: "string \<Rightarrow> nat option"

definition new_section :: "string \<Rightarrow> cfg_section" where
  "new_section name = \<lparr>m_name = name, m_keyValues = [], m_keyIndex = Map.empty\<rparr>"

definition addKeyValue :: "string \<Rightarrow> string \<Rightarrow> cfg_section \<Rightarrow> cfg_section" where
  "addKeyValue key val s =
     (case m_keyIndex s key of
        None \<Rightarrow>
          (let kvs = m_keyValues s @ [(key, val)]
           in s\<lparr>m_keyValues := kvs, m_keyIndex := (m_keyIndex s)(key \<mapsto> length kvs - 1)\<rparr>)
      | Some i \<Rightarrow> s\<lparr>m_keyValues := (m_keyValues s)[i := (fst (m_keyValues s ! i), val)]\<rparr>)"

definition sec_contains :: "cfg_section \<Rightarrow> string \<Rightarrow> bool" where
  "sec_contains s key \<longleftrightarrow> m_keyIndex s key \<noteq> None"

definition getString :: "cfg_section \<Rightarrow> string \<Rightarrow> string option" where
  "getString s key = (case m_keyIndex s key of None \<Rightarrow> None | Some i \<Rightarrow> Some (snd (m_keyValues s ! i)))"

definition getString_or :: "cfg_section \<Rightarrow> string \<Rightarrow> string \<Rightarrow> string" where
  "getString_or s key dflt = (case getString s key of None \<Rightarrow> dflt | Some v \<Rightarrow> v)"

definition sec_keys :: "cfg_section \<Rightarrow> string list" where
  "sec_keys s = map fst (m_keyValues s)"

text \<open>
  \<open>strtol(s, &endptr, 10)\<close> on the C string of \<open>s\<close>: the value (clamped to \<open>long\<close>), whether \<open>errno\<close>
  was set, and what \<open>endptr\<close> points at.
\<close>

definition c_space :: "char \<Rightarrow> bool" where
  "c_space c \<longleftrightarrow> c \<in> {CHR '' '', tab, nl, vt, ff, cr}"

definition long_min :: int where "long_min = - (2 ^ 63)"
definition long_max :: int where "long_max = 2 ^ 63 - 1"

definition digits_int :: "string \<Rightarrow> int" where
  "digits_int ds = foldl (\<lambda>n c. n * 10 + int (digit_val c)) 0 ds"

definition c_strtol :: "string \<Rightarrow> int \<times> bool \<times> string" where
  "c_strtol str =
     (let s = takeWhile (\<lambda>c. c \<noteq> CHR 0x00) str;
          t = dropWhile c_space s;
          neg = (t \<noteq> [] \<and> hd t = CHR ''-'');
          u = (if t \<noteq> [] \<and> (hd t = CHR ''-'' \<or> hd t = CHR ''+'') then tl t else t);
          ds = takeWhile is_digit u;
          v = (if neg then - digits_int ds else digits_int ds)
      in if ds = [] then (0, False, s)
         else if v < long_min then (long_min, True, drop (length ds) u)
         else if long_max < v then (long_max, True, drop (length ds) u)
         else (v, False, drop (length ds) u))"

definition getInt :: "cfg_section \<Rightarrow> string \<Rightarrow> int option" where
  "getInt s key =
     (case getString s key of
        None \<Rightarrow> None
      | Some strVal \<Rightarrow>
          if strVal = [] then None
          else let (result, errno, endptr) = c_strtol strVal in
               if errno \<or> endptr \<noteq> [] then None
               else if result < - (2 ^ 31) \<or> 2 ^ 31 - 1 < result then None
               else Some result)"

definition getBool :: "cfg_section \<Rightarrow> string \<Rightarrow> bool option" where
  "getBool s key =
     (case getString s key of
        None \<Rightarrow> None
      | Some strVal \<Rightarrow>
          if strVal = [] then None
          else let lowerVal = map c_tolower strVal in
               if lowerVal = ''true'' \<or> lowerVal = ''yes'' \<or> lowerVal = ''on'' \<or> lowerVal = ''1''
               then Some True
               else if lowerVal = ''false'' \<or> lowerVal = ''no'' \<or> lowerVal = ''off'' \<or> lowerVal = ''0''
               then Some False
               else None)"

definition getInt_or :: "cfg_section \<Rightarrow> string \<Rightarrow> int \<Rightarrow> int" where
  "getInt_or s key dflt = (case getInt s key of None \<Rightarrow> dflt | Some v \<Rightarrow> v)"

definition getBool_or :: "cfg_section \<Rightarrow> string \<Rightarrow> bool \<Rightarrow> bool" where
  "getBool_or s key dflt = (case getBool s key of None \<Rightarrow> dflt | Some v \<Rightarrow> v)"

subsection \<open>The configuration and its parser\<close>

record parse_result =
  success :: bool
  errorMessage :: string
  err_file :: string
  err_line :: nat

definition result_ok :: parse_result where
  "result_ok = \<lparr>success = True, errorMessage = [], err_file = [], err_line = 0\<rparr>"

definition result_error :: "string \<Rightarrow> string \<Rightarrow> nat \<Rightarrow> parse_result" where
  "result_error msg f l = \<lparr>success = False, errorMessage = msg, err_file = f, err_line = l\<rparr>"

record config =
  m_sections :: "cfg_section list"
  m_sectionIndex :: "string \<Rightarrow> nat option"
  m_currentSectionIndex :: nat
  m_baseDirStack :: "string list"

definition GlobalSectionName :: string where
  "GlobalSectionName = ''$global$''"

definition config_init :: config where
  "config_init =
     \<lparr>m_sections = [new_section GlobalSectionName],
      m_sectionIndex = [GlobalSectionName \<mapsto> 0],
      m_currentSectionIndex = 0,
      m_baseDirStack = []\<rparr>"

text \<open>\<open>clear()\<close> empties everything, the include stack too, and recreates the global section.\<close>

definition cfg_clear :: "config \<Rightarrow> config" where
  "cfg_clear c =
     c\<lparr>m_sections := [new_section GlobalSectionName],
       m_sectionIndex := [GlobalSectionName \<mapsto> 0],
       m_baseDirStack := [],
       m_currentSectionIndex := 0\<rparr>"

definition getOrCreateSection :: "string \<Rightarrow> config \<Rightarrow> nat \<times> config" where
  "getOrCreateSection sectionName c =
     (case m_sectionIndex c sectionName of
        Some i \<Rightarrow> (i, c)
      | None \<Rightarrow>
          (let secs = m_sections c @ [new_section sectionName];
               index = length secs - 1
           in (index, c\<lparr>m_sections := secs, m_sectionIndex := (m_sectionIndex c)(sectionName \<mapsto> index)\<rparr>)))"

definition cfg_contains :: "config \<Rightarrow> string \<Rightarrow> bool" where
  "cfg_contains c sec \<longleftrightarrow> m_sectionIndex c sec \<noteq> None"

definition cfg_get :: "config \<Rightarrow> string \<Rightarrow> cfg_section option" where
  "cfg_get c sec = (case m_sectionIndex c sec of None \<Rightarrow> None | Some i \<Rightarrow> Some (m_sections c ! i))"

definition cfg_at :: "config \<Rightarrow> nat \<Rightarrow> cfg_section option" where
  "cfg_at c i = (if i < length (m_sections c) then Some (m_sections c ! i) else None)"

definition cfg_global :: "config \<Rightarrow> cfg_section" where
  "cfg_global c = m_sections c ! 0"

definition cfg_find :: "config \<Rightarrow> string \<Rightarrow> nat" where
  "cfg_find c sec = (case m_sectionIndex c sec of Some i \<Rightarrow> i | None \<Rightarrow> length (m_sections c))"

text \<open>
  The file system as the reader sees it: which paths exist and the lines of the files that can be
  opened.  \<open>path_join\<close> and \<open>parent_path\<close> are \<open>std::filesystem\<close>'s on POSIX paths.
\<close>

record file_system =
  fs_exists :: "string \<Rightarrow> bool"
  fs_lines :: "string \<Rightarrow> string list option"

definition path_join :: "string \<Rightarrow> string \<Rightarrow> string" where
  "path_join p q =
     (if q \<noteq> [] \<and> hd q = CHR ''/'' then q
      else if p = [] \<or> last p = CHR ''/'' then p @ q
      else p @ ''/'' @ q)"

definition parent_path :: "string \<Rightarrow> string" where
  "parent_path p =
     (case rfind_char (CHR ''/'') p of
        None \<Rightarrow> []
      | Some i \<Rightarrow> let d = strip_right ''/'' (take i p) in if d = [] then ''/'' else d)"

text \<open>
  How a call of \<open>load\<close> can end: it returns, it runs into undefined behaviour, or the include depth
  given as fuel is exhausted.
\<close>

datatype outcome = Returned parse_result config | Undefined | Out_of_fuel

text \<open>The inner loops that trim the value once more.\<close>

definition retrim_value :: "string \<Rightarrow> string" where
  "retrim_value val =
     (if val = [] then []
      else
        let valueStart = length (takeWhile isWhitespace val);
            tail = takeWhile isWhitespace (rev (drop (valueStart + 1) val));
            valueEnd = length val - 1 - length tail
        in take (valueEnd - valueStart + 1) (drop valueStart val))"

definition cfg_error :: "config \<Rightarrow> string \<Rightarrow> string \<Rightarrow> nat \<Rightarrow> outcome" where
  "cfg_error c msg f l = Returned (result_error msg f l) c"

text \<open>The three kinds of line, in the order \<open>parseLine\<close> tests them; \<open>ld\<close> is the recursive \<open>load\<close>.\<close>

definition parse_include ::
    "(string \<Rightarrow> config \<Rightarrow> outcome) \<Rightarrow> file_system \<Rightarrow> string \<Rightarrow> string \<Rightarrow> nat \<Rightarrow> config \<Rightarrow> outcome" where
  "parse_include ld fs line f n c =
     (let includeFile = cfg_trim (drop 7 line) in
      if includeFile = [] then cfg_error c ''include directive requires a filename'' f n
      else
        let includePath = path_join
              (if m_baseDirStack c = [] then ''.'' else last (m_baseDirStack c))
              (unquoteString includeFile)
        in if \<not> fs_exists fs includePath
           then cfg_error c (''Included file not found: '' @ includePath) f n
           else ld includePath c)"

definition parse_section :: "string \<Rightarrow> string \<Rightarrow> nat \<Rightarrow> config \<Rightarrow> outcome" where
  "parse_section line f n c =
     (let sectionName = cfg_trim (take (length line - 2) (drop 1 line)) in
      if sectionName = [] then cfg_error c ''Empty section name'' f n
      else case parseQuotedString sectionName of
        None \<Rightarrow> cfg_error c ''Invalid section name format'' f n
      | Some parsed \<Rightarrow>
          (let (i, c') = getOrCreateSection parsed c
           in Returned result_ok (c'\<lparr>m_currentSectionIndex := i\<rparr>)))"

definition split_key_value :: "string \<Rightarrow> string \<times> string" where
  "split_key_value line =
     (case find_char (CHR ''='') line of
        Some equalPos \<Rightarrow>
          (cfg_trim (take equalPos line), retrim_value (cfg_trim (drop (equalPos + 1) line)))
      | None \<Rightarrow> (cfg_trim line, []))"

definition parse_key_value :: "string \<Rightarrow> string \<Rightarrow> nat \<Rightarrow> config \<Rightarrow> outcome" where
  "parse_key_value line f n c =
     (let (key, val) = split_key_value line in
      if key = [] then cfg_error c ''Empty key'' f n
      else
        case parseQuotedString (unquoteString key) of
          None \<Rightarrow> cfg_error c ''Invalid key format'' f n
        | Some parsedKey \<Rightarrow>
            (case parseQuotedString (unquoteString val) of
               None \<Rightarrow> cfg_error c ''Invalid value format'' f n
             | Some parsedValue \<Rightarrow>
                 if m_currentSectionIndex c < length (m_sections c)
                 then Returned result_ok
                   (c\<lparr>m_sections := (m_sections c)[m_currentSectionIndex c :=
                        addKeyValue parsedKey parsedValue (m_sections c ! m_currentSectionIndex c)]\<rparr>)
                 else Undefined))"

definition parseLine ::
    "(string \<Rightarrow> config \<Rightarrow> outcome) \<Rightarrow> file_system \<Rightarrow> string \<Rightarrow> string \<Rightarrow> nat \<Rightarrow> config \<Rightarrow> outcome" where
  "parseLine ld fs originalLine f n c =
     (case removeInlineComment originalLine of
        None \<Rightarrow> cfg_error c ''Unclosed quotes or invalid escape sequence'' f n
      | Some uncommented \<Rightarrow>
          (let line = cfg_trim uncommented in
           if line = [] then Returned result_ok c
           else if take 7 line = ''include'' then parse_include ld fs line f n c
           else if hd line = CHR ''['' \<and> last line = CHR '']'' then parse_section line f n c
           else parse_key_value line f n c))"

text \<open>\<open>m_baseDirStack.pop_back()\<close>: undefined on an empty vector.\<close>

definition pop_base_dir :: "config \<Rightarrow> config option" where
  "pop_base_dir c =
     (if m_baseDirStack c = [] then None else Some (c\<lparr>m_baseDirStack := butlast (m_baseDirStack c)\<rparr>))"

fun load_lines ::
    "(string \<Rightarrow> config \<Rightarrow> outcome) \<Rightarrow> file_system \<Rightarrow> string \<Rightarrow> string list \<Rightarrow> nat \<Rightarrow> config \<Rightarrow> outcome" where
  "load_lines ld fs f [] n c =
     (case pop_base_dir c of None \<Rightarrow> Undefined | Some c' \<Rightarrow> Returned result_ok c')"
| "load_lines ld fs f (l # ls) n c =
     (case parseLine ld fs l f (Suc n) c of
        Returned r c' \<Rightarrow>
          if \<not> success r
          then (case pop_base_dir c' of None \<Rightarrow> Undefined | Some c'' \<Rightarrow> Returned r (cfg_clear c''))
          else load_lines ld fs f ls (Suc n) c'
      | bad \<Rightarrow> bad)"

fun load :: "nat \<Rightarrow> file_system \<Rightarrow> string \<Rightarrow> config \<Rightarrow> outcome" where
  "load 0 fs filename c = Out_of_fuel"
| "load (Suc fuel) fs filename c =
     (case fs_lines fs filename of
        None \<Rightarrow> cfg_error c (''Cannot open file: '' @ filename) filename 0
      | Some ls \<Rightarrow>
          (let baseDir = parent_path filename;
               baseDir = (if baseDir = [] then ''.'' else baseDir)
           in load_lines (load fuel fs) fs filename ls 0
                (c\<lparr>m_baseDirStack := m_baseDirStack c @ [baseDir]\<rparr>)))"


subsection \<open>Text lemmas\<close>

lemma cfg_trim_strip: "cfg_trim s = strip_right cfg_ws (strip_left cfg_ws s)"
proof (cases "find_first_not_of cfg_ws s")
  case None
  then have "set s \<subseteq> set cfg_ws" by (simp add: find_first_not_of_None)
  then have "strip_right cfg_ws (strip_left cfg_ws s) = []"
    by (auto simp: strip_left_def dest: set_dropWhileD)
  then show ?thesis unfolding cfg_trim_def None option.case by (rule sym)
next
  case (Some i)
  then obtain j where j: "find_last_not_of cfg_ws s = Some j"
    by (cases "find_last_not_of cfg_ws s") (auto simp: find_first_not_of_Some find_last_not_of_None)
  let ?t = "drop i s"
  have t: "strip_left cfg_ws s = ?t" using drop_first_not_of [where s = s and cs = cfg_ws] Some by simp
  have sub: "\<not> set ?t \<subseteq> set cfg_ws"
    using Some t strip_left_eq_Nil [of cfg_ws s] strip_left_idem [of cfg_ws s]
    by (metis find_first_not_of_Some strip_left_eq_Nil)
  have "\<exists>k. find_last_not_of cfg_ws (take i s @ ?t) = Some (i + k) \<and> find_last_not_of cfg_ws ?t = Some k"
  proof -
    have gen: "find_last_not_of cs (u @ v) = Some (length u + k)" if "find_last_not_of cs v = Some k"
      for cs u v :: string and k
      using that by (induction u) auto
    obtain k where "find_last_not_of cfg_ws ?t = Some k"
      using sub by (cases "find_last_not_of cfg_ws ?t") (auto simp: find_last_not_of_None)
    moreover have "length (take i s) = i"
      using Some by (simp add: find_first_not_of_Some length_takeWhile_le)
    ultimately show ?thesis using gen [of cfg_ws ?t k "take i s"] by auto
  qed
  then obtain k where k: "j = i + k" "find_last_not_of cfg_ws ?t = Some k" using j by auto
  have "take (Suc k) ?t = strip_right cfg_ws ?t"
    using take_last_not_of [where s = ?t and cs = cfg_ws] k(2) by simp
  then show ?thesis using Some j k(1) t by (simp add: cfg_trim_def)
qed

lemma isWhitespace_set: "isWhitespace c \<longleftrightarrow> c \<in> set cfg_ws"
  by (auto simp: isWhitespace_def cfg_ws_def)

text \<open>A token without surrounding blanks is left alone by both trims.\<close>

definition bare :: "string \<Rightarrow> bool" where
  "bare s \<longleftrightarrow> s \<noteq> [] \<and> hd s \<notin> set cfg_ws \<and> last s \<notin> set cfg_ws"

lemma strip_bare: "bare s \<Longrightarrow> strip_left cfg_ws s = s \<and> strip_right cfg_ws s = s"
proof
  assume b: "bare s"
  then show "strip_left cfg_ws s = s" by (cases s) (simp_all add: bare_def strip_left_def)
  from b show "strip_right cfg_ws s = s"
    by (cases s rule: rev_cases) (simp_all add: bare_def strip_right_def)
qed

lemma cfg_trim_bare: "bare s \<Longrightarrow> cfg_trim s = s"
  by (simp add: cfg_trim_strip strip_bare)

lemma strip_right_Cons: "x \<notin> set cs \<Longrightarrow> strip_right cs (x # xs) = x # strip_right cs xs"
  by (simp add: strip_right_def dropWhile_append)

lemma cfg_trim_cases: "cfg_trim s = [] \<or> bare (cfg_trim s)"
proof -
  let ?t = "strip_left cfg_ws s"
  have "hd (strip_right cfg_ws ?t) \<notin> set cfg_ws" if "strip_right cfg_ws ?t \<noteq> []"
  proof -
    have "strip_right cfg_ws [] = []" by (simp add: strip_right_def)
    with that have "?t \<noteq> []" by metis
    then obtain x xs where t: "?t = x # xs" by (meson neq_Nil_conv)
    then have "x \<notin> set cfg_ws" by (rule strip_left_hd)
    with t have "hd (strip_right cfg_ws ?t) = x" by (simp add: strip_right_Cons)
    with \<open>x \<notin> set cfg_ws\<close> show ?thesis by simp
  qed
  then show ?thesis
    using strip_right_last [of cfg_ws ?t] by (auto simp: cfg_trim_strip bare_def)
qed


subsection \<open>Invariant\<close>

definition section_ok :: "cfg_section \<Rightarrow> bool" where
  "section_ok s \<longleftrightarrow> index_ok fst (m_keyValues s) (m_keyIndex s)"

definition config_ok :: "config \<Rightarrow> bool" where
  "config_ok c \<longleftrightarrow>
     index_ok m_name (m_sections c) (m_sectionIndex c) \<and>
     list_all section_ok (m_sections c) \<and>
     m_currentSectionIndex c < length (m_sections c) \<and>
     m_name (m_sections c ! 0) = GlobalSectionName"

interpretation kv: indexed_store fst m_keyValues m_keyIndex "\<lambda>e. addKeyValue (fst e) (snd e)" "\<lambda>_. True"
proof unfold_locales
  fix s :: cfg_section and e :: "string \<times> string" and i
  show "m_keyIndex s (fst e) = None \<Longrightarrow>
      m_keyValues (addKeyValue (fst e) (snd e) s) = m_keyValues s @ [e] \<and>
      m_keyIndex (addKeyValue (fst e) (snd e) s) = (m_keyIndex s)(fst e \<mapsto> length (m_keyValues s))"
    by (simp add: addKeyValue_def Let_def)
  assume "index_ok fst (m_keyValues s) (m_keyIndex s)" "m_keyIndex s (fst e) = Some i"
  then show "m_keyValues (addKeyValue (fst e) (snd e) s) = (m_keyValues s)[i := e] \<and>
      m_keyIndex (addKeyValue (fst e) (snd e) s) = m_keyIndex s"
    using index_okD by (fastforce simp: addKeyValue_def)
qed simp

lemma getString_view: "getString s key = map_option snd (kv.view s key)"
  by (simp add: getString_def kv.view_def split: option.split)

lemma addKeyValue_ok [lore_inv]: "section_ok s \<Longrightarrow> section_ok (addKeyValue k v s)"
  using kv.put_ok [of s "(k, v)"] by (simp add: section_ok_def)

lemma addKeyValue_getString:
  "section_ok s \<Longrightarrow> getString (addKeyValue k v s) = (getString s)(k \<mapsto> v)"
  using kv.put_view [of s "(k, v)"] by (auto simp: section_ok_def getString_view fun_eq_iff)

lemma addKeyValue_keys:
  "section_ok s \<Longrightarrow> sec_keys (addKeyValue k v s) =
     (if k \<in> set (sec_keys s) then sec_keys s else sec_keys s @ [k])"
  using kv.put_order [of s "(k, v)"] by (simp add: section_ok_def sec_keys_def)

lemma addKeyValue_name [simp]: "m_name (addKeyValue k v s) = m_name s"
  by (simp add: addKeyValue_def Let_def split: option.split)

lemma new_section_ok [lore_inv]: "section_ok (new_section name)"
  by (simp add: section_ok_def new_section_def index_ok_Nil)

lemma config_init_ok [lore_inv]: "config_ok config_init"
  using new_section_ok [of GlobalSectionName]
  by (auto simp: config_ok_def config_init_def index_ok_def new_section_def)

lemma cfg_clear_eq: "cfg_clear c = config_init"
  by (cases c) (simp add: cfg_clear_def config_init_def)

lemma getOrCreateSection_ok:
  assumes ok: "config_ok c" and g: "getOrCreateSection name c = (i, c')"
  shows "config_ok (c'\<lparr>m_currentSectionIndex := i\<rparr>) \<and> i < length (m_sections c') \<and>
    m_name (m_sections c' ! i) = name \<and> m_sectionIndex c' name = Some i \<and>
    m_baseDirStack c' = m_baseDirStack c"
proof (cases "m_sectionIndex c name")
  case None
  have "index_ok m_name (m_sections c @ [new_section name])
      ((m_sectionIndex c)(m_name (new_section name) \<mapsto> length (m_sections c)))"
    using ok None by (intro index_ok_append) (simp_all add: config_ok_def new_section_def)
  moreover have "0 < length (m_sections c)" using ok by (auto simp: config_ok_def)
  ultimately show ?thesis
    using g None ok new_section_ok
    by (auto simp: getOrCreateSection_def Let_def config_ok_def new_section_def nth_append)
next
  case (Some j)
  with ok index_okD [of m_name "m_sections c" "m_sectionIndex c" name j] g show ?thesis
    by (auto simp: getOrCreateSection_def config_ok_def)
qed

lemma config_ok_update_section:
  assumes "config_ok c" "i < length (m_sections c)" "section_ok s" "m_name s = m_name (m_sections c ! i)"
  shows "config_ok (c\<lparr>m_sections := (m_sections c)[i := s]\<rparr>)"
  using assms index_ok_same_key [of m_name "m_sections c" "m_sectionIndex c" i s]
  by (auto simp: config_ok_def list_all_length nth_list_update)

text \<open>What every call of \<open>load\<close> promises about the state it returns.\<close>

definition load_post :: "config \<Rightarrow> outcome \<Rightarrow> bool" where
  "load_post c out \<longleftrightarrow>
     (case out of
        Returned r c' \<Rightarrow>
          config_ok c' \<and>
          (if success r then m_baseDirStack c' = m_baseDirStack c else c' = c \<or> c' = config_init)
      | _ \<Rightarrow> True)"

lemma load_post_simps [simp]:
  "load_post c Undefined" "load_post c Out_of_fuel"
  "load_post c (Returned r c') \<longleftrightarrow> config_ok c' \<and>
     (if success r then m_baseDirStack c' = m_baseDirStack c else c' = c \<or> c' = config_init)"
  by (simp_all add: load_post_def)

lemma cfg_error_post [simp]: "config_ok c \<Longrightarrow> load_post c (cfg_error c msg f n)"
  by (simp add: cfg_error_def result_error_def)

lemma result_ok_success [simp]: "success result_ok"
  by (simp add: result_ok_def)

lemma result_error_success [simp]: "\<not> success (result_error msg f n)"
  by (simp add: result_error_def)

lemma parse_include_post:
  "config_ok c \<Longrightarrow> (\<And>p. load_post c (ld p c)) \<Longrightarrow> load_post c (parse_include ld fs line f n c)"
  by (simp add: parse_include_def Let_def)

lemma parse_section_post: "config_ok c \<Longrightarrow> load_post c (parse_section line f n c)"
  using getOrCreateSection_ok [of c]
  by (auto simp: parse_section_def Let_def split: option.split prod.split)

lemma parse_key_value_post: "config_ok c \<Longrightarrow> load_post c (parse_key_value line f n c)"
proof -
  assume ok: "config_ok c"
  then have cur: "m_currentSectionIndex c < length (m_sections c)" by (simp add: config_ok_def)
  with ok have "section_ok (m_sections c ! m_currentSectionIndex c)"
    by (simp add: config_ok_def list_all_length)
  with ok cur show ?thesis
    by (auto simp: parse_key_value_def Let_def addKeyValue_ok config_ok_update_section
        split: option.split prod.split)
qed

lemma parseLine_post:
  "config_ok c \<Longrightarrow> (\<And>p. load_post c (ld p c)) \<Longrightarrow> load_post c (parseLine ld fs l f n c)"
  by (auto simp: parseLine_def Let_def parse_include_post parse_section_post parse_key_value_post
      split: option.split)


lemma load_lines_post:
  assumes "config_ok c" "m_baseDirStack c = stack @ [b]"
    and ld: "\<And>p c. config_ok c \<Longrightarrow> load_post c (ld p c)"
  shows "case load_lines ld fs f ls n c of
      Returned r c' \<Rightarrow> config_ok c' \<and>
        (if success r then m_baseDirStack c' = stack else c' = config_init)
    | _ \<Rightarrow> True"
  using assms(1,2)
proof (induction ls arbitrary: n c)
  case Nil
  then show ?case by (simp add: pop_base_dir_def config_ok_def)
next
  case (Cons l ls)
  have post: "load_post c (parseLine ld fs l f (Suc n) c)"
    using Cons.prems(1) ld by (intro parseLine_post) auto
  show ?case
  proof (cases "parseLine ld fs l f (Suc n) c")
    case (Returned r c')
    with post have c': "config_ok c'"
      "if success r then m_baseDirStack c' = m_baseDirStack c else c' = c \<or> c' = config_init" by simp_all
    show ?thesis
    proof (cases "success r")
      case True
      with Cons.IH [OF c'(1), of "Suc n"] c' Cons.prems(2) Returned show ?thesis by simp
    next
      case False
      with Returned show ?thesis
        by (simp add: cfg_clear_eq config_init_ok split: option.split)
    qed
  qed simp_all
qed

definition base_dir :: "string \<Rightarrow> string" where
  "base_dir f = (if parent_path f = [] then ''.'' else parent_path f)"

lemma load_Suc:
  "load (Suc fuel) fs f c =
     (case fs_lines fs f of
        None \<Rightarrow> cfg_error c (''Cannot open file: '' @ f) f 0
      | Some ls \<Rightarrow>
          load_lines (load fuel fs) fs f ls 0 (c\<lparr>m_baseDirStack := m_baseDirStack c @ [base_dir f]\<rparr>))"
  by (simp add: base_dir_def Let_def split: option.split)

declare load.simps(2) [simp del]

lemma load_post_holds [lore_inv]: "config_ok c \<Longrightarrow> load_post c (load fuel fs f c)"
proof (induction fuel arbitrary: f c)
  case (Suc fuel)
  show ?case
  proof (cases "fs_lines fs f")
    case (Some ls)
    have "config_ok (c\<lparr>m_baseDirStack := m_baseDirStack c @ [base_dir f]\<rparr>)"
      using Suc.prems by (simp add: config_ok_def)
    from load_lines_post [OF this, of "m_baseDirStack c" "base_dir f" "load fuel fs" fs f ls 0] Suc.IH
    show ?thesis
      using Some by (auto simp: load_Suc load_post_def split: outcome.splits if_splits)
  qed (use Suc.prems in \<open>simp add: load_Suc\<close>)
qed simp

text \<open>
  A failing include makes the outer call pop an empty stack: the inner failure already cleared the
  whole include stack.
\<close>

lemma load_lines_failure:
  assumes "parseLine ld fs l f (Suc n) c = Returned r config_init" "\<not> success r"
  shows "load_lines ld fs f (l # ls) n c = Undefined"
  using assms by (simp add: pop_base_dir_def config_init_def)

subsection \<open>Include depth\<close>

text \<open>
  The paths that \<open>load\<close> can be asked to include from a file whose base directory is \<open>b\<close>, line by
  line.
\<close>

definition include_target :: "string \<Rightarrow> string \<Rightarrow> string option" where
  "include_target b l =
     (case removeInlineComment l of
        None \<Rightarrow> None
      | Some u \<Rightarrow>
          let line = cfg_trim u; name = cfg_trim (drop 7 line) in
          if take 7 line = ''include'' \<and> name \<noteq> [] then Some (path_join b (unquoteString name)) else None)"

lemma parseLine_no_include:
  "include_target b l = None \<Longrightarrow> m_baseDirStack c = stack @ [b] \<Longrightarrow> parseLine ld fs l f n c \<noteq> Out_of_fuel"
  by (auto simp: parseLine_def include_target_def parse_include_def parse_section_def
      parse_key_value_def cfg_error_def Let_def split: option.splits prod.splits if_splits)

lemma parseLine_include:
  assumes "include_target b l = Some p" "m_baseDirStack c = stack @ [b]"
  shows "parseLine ld fs l f n c =
    (if fs_exists fs p then ld p c else cfg_error c (''Included file not found: '' @ p) f n)"
  using assms
  by (auto simp: parseLine_def include_target_def parse_include_def Let_def split: option.splits if_splits)

text \<open>
  \<open>rank\<close> certifies that includes are well-founded: every line of a file includes only files of
  smaller rank.
\<close>

definition acyclic_includes :: "file_system \<Rightarrow> (string \<Rightarrow> nat) \<Rightarrow> bool" where
  "acyclic_includes fs rank \<longleftrightarrow>
     (\<forall>f ls l p. fs_lines fs f = Some ls \<longrightarrow> l \<in> set ls \<longrightarrow>
        include_target (base_dir f) l = Some p \<longrightarrow> rank p < rank f)"

lemma load_lines_fuel:
  assumes "config_ok c" "m_baseDirStack c = stack @ [b]"
    and ld: "\<And>p c. config_ok c \<Longrightarrow> load_post c (ld p c)"
    and fuel: "\<And>l p c. l \<in> set ls \<Longrightarrow> include_target b l = Some p \<Longrightarrow> config_ok c \<Longrightarrow> ld p c \<noteq> Out_of_fuel"
  shows "load_lines ld fs f ls n c \<noteq> Out_of_fuel"
  using assms(1,2) fuel
proof (induction ls arbitrary: n c)
  case (Cons l ls)
  have post: "load_post c (parseLine ld fs l f (Suc n) c)"
    using Cons.prems(1) ld by (intro parseLine_post) auto
  have "parseLine ld fs l f (Suc n) c \<noteq> Out_of_fuel"
  proof (cases "include_target b l")
    case None
    then show ?thesis using Cons.prems(2) by (rule parseLine_no_include)
  next
    case (Some p)
    then show ?thesis
      using Cons.prems(1) Cons.prems(3) [of l p c] parseLine_include [OF Some Cons.prems(2)]
      by (simp add: cfg_error_def)
  qed
  moreover have "load_lines ld fs f ls (Suc n) c' \<noteq> Out_of_fuel"
    if "config_ok c'" "m_baseDirStack c' = stack @ [b]" for c'
    using Cons.IH [OF that] Cons.prems(3) by auto
  ultimately show ?case
    using post Cons.prems(2)
    by (cases "parseLine ld fs l f (Suc n) c") (auto split: option.split)
qed (simp split: option.split)

lemma load_fuel:
  "config_ok c \<Longrightarrow> acyclic_includes fs rank \<Longrightarrow> rank f < fuel \<Longrightarrow> load fuel fs f c \<noteq> Out_of_fuel"
proof (induction fuel arbitrary: f c)
  case (Suc fuel)
  show ?case
  proof (cases "fs_lines fs f")
    case (Some ls)
    have "load_lines (load fuel fs) fs f ls 0 (c\<lparr>m_baseDirStack := m_baseDirStack c @ [base_dir f]\<rparr>) \<noteq> Out_of_fuel"
    proof (rule load_lines_fuel [where stack = "m_baseDirStack c" and b = "base_dir f"])
      show "config_ok (c\<lparr>m_baseDirStack := m_baseDirStack c @ [base_dir f]\<rparr>)"
        using Suc.prems(1) by (simp add: config_ok_def)
      fix l p c'
      assume "l \<in> set ls" "include_target (base_dir f) l = Some p" "config_ok c'"
      moreover from this Suc.prems(2,3) Some have "rank p < fuel"
        by (auto simp: acyclic_includes_def) (meson less_Suc_eq_le less_le_trans)
      ultimately show "load fuel fs p c' \<noteq> Out_of_fuel" using Suc.IH Suc.prems(2) by blast
    qed (simp_all add: load_post_holds)
    then show ?thesis using Some by (simp add: load_Suc)
  qed (simp add: load_Suc cfg_error_def)
qed simp


subsection \<open>What a file means\<close>

text \<open>
  Items of a file without escapes and includes, the lines that write them and what they mean: a
  current section and a map from section and key to the value assigned last.  A name, key or value
  is written bare or between double quotes; a line may have blanks before, between and after its
  parts and a remark at the end.
\<close>

datatype token = Bare string | Quoted string

fun token_text :: "token \<Rightarrow> string" where
  "token_text (Bare s) = s"
| "token_text (Quoted s) = s"

fun written :: "token \<Rightarrow> string" where
  "written (Bare s) = s"
| "written (Quoted s) = dquote # s @ [dquote]"

datatype cfg_item = Header token | Assign token token | Key token | Blank

record cfg_line =
  li_item :: cfg_item
  li_before :: string
  li_left :: string
  li_right :: string
  li_after :: string
  li_remark :: "string option"

definition special_free :: "string \<Rightarrow> bool" where
  "special_free s \<longleftrightarrow> set s \<inter> {CHR ''#'', dquote, squote, backslash} = {}"

fun token_ok :: "token \<Rightarrow> bool" where
  "token_ok (Bare s) \<longleftrightarrow> bare s \<and> special_free s"
| "token_ok (Quoted s) \<longleftrightarrow> dquote \<notin> set s \<and> squote \<notin> set s \<and> backslash \<notin> set s"

definition key_ok :: "token \<Rightarrow> bool" where
  "key_ok k \<longleftrightarrow> token_ok k \<and> CHR ''='' \<notin> set (token_text k) \<and>
     hd (written k) \<noteq> CHR ''['' \<and> take 7 (written k) \<noteq> ''include''"

fun item_ok :: "cfg_item \<Rightarrow> bool" where
  "item_ok (Header t) \<longleftrightarrow> token_ok t"
| "item_ok (Assign k v) \<longleftrightarrow> key_ok k \<and> (v = Bare [] \<or> token_ok v)"
| "item_ok (Key k) \<longleftrightarrow> key_ok k"
| "item_ok Blank \<longleftrightarrow> True"

definition cfg_blanks :: "string \<Rightarrow> bool" where
  "cfg_blanks w \<longleftrightarrow> set w \<subseteq> set cfg_ws"

definition line_ok :: "cfg_line \<Rightarrow> bool" where
  "line_ok l \<longleftrightarrow> item_ok (li_item l) \<and> cfg_blanks (li_before l) \<and> cfg_blanks (li_left l) \<and>
     cfg_blanks (li_right l) \<and> cfg_blanks (li_after l)"

fun item_line :: "string \<Rightarrow> string \<Rightarrow> cfg_item \<Rightarrow> string" where
  "item_line l r (Header t) = ''['' @ l @ written t @ r @ '']''"
| "item_line l r (Assign k v) = written k @ l @ ''='' @ r @ written v"
| "item_line l r (Key k) = written k"
| "item_line l r Blank = []"

definition line_text :: "cfg_line \<Rightarrow> string" where
  "line_text l = li_before l @ item_line (li_left l) (li_right l) (li_item l) @ li_after l @
     (case li_remark l of None \<Rightarrow> [] | Some t \<Rightarrow> ''#'' @ t)"

fun item_step :: "cfg_item \<Rightarrow> string \<times> (string \<times> string \<Rightarrow> string option) \<Rightarrow>
    string \<times> (string \<times> string \<Rightarrow> string option)" where
  "item_step (Header t) (cur, m) = (token_text t, m)"
| "item_step (Assign k v) (cur, m) = (cur, m((cur, token_text k) \<mapsto> token_text v))"
| "item_step (Key k) (cur, m) = (cur, m((cur, token_text k) \<mapsto> []))"
| "item_step Blank (cur, m) = (cur, m)"

definition cfg_lookup :: "config \<Rightarrow> string \<times> string \<Rightarrow> string option" where
  "cfg_lookup c = (\<lambda>(sec, key). case cfg_get c sec of None \<Rightarrow> None | Some s \<Rightarrow> getString s key)"

definition means :: "config \<Rightarrow> string \<times> (string \<times> string \<Rightarrow> string option) \<Rightarrow> bool" where
  "means c a \<longleftrightarrow>
     config_ok c \<and> m_name (m_sections c ! m_currentSectionIndex c) = fst a \<and> cfg_lookup c = snd a"

text \<open>Texts that the comment scan lets through unchanged, ending outside quotes.\<close>

definition passes :: "string \<Rightarrow> bool" where
  "passes s \<longleftrightarrow> (\<forall>res q r. \<exists>q'. comment_loop (s @ r) res False q False = comment_loop r (res @ s) False q' False)"

lemma passes_plain: "special_free s \<Longrightarrow> passes s"
proof -
  assume "special_free s"
  then have "comment_loop (s @ r) res False q False = comment_loop r (res @ s) False q False" for r res q
    by (induction s arbitrary: res) (auto simp: special_free_def)
  then show ?thesis unfolding passes_def by blast
qed

lemma passes_append: "passes s \<Longrightarrow> passes t \<Longrightarrow> passes (s @ t)"
  unfolding passes_def by (metis append_assoc)

lemma comment_loop_inside:
  "dquote \<notin> set s \<Longrightarrow> backslash \<notin> set s \<Longrightarrow>
     comment_loop (s @ r) res True dquote False = comment_loop r (res @ s) True dquote False"
  by (induction s arbitrary: res) auto

lemma dquote_not_backslash: "dquote \<noteq> backslash"
  by simp

lemma passes_written: "t = Bare [] \<or> token_ok t \<Longrightarrow> passes (written t)"
proof (cases t)
  case (Quoted s)
  assume "t = Bare [] \<or> token_ok t"
  with Quoted have s: "dquote \<notin> set s" "backslash \<notin> set s" by simp_all
  have "comment_loop ((dquote # s @ [dquote]) @ r) res False q False =
      comment_loop r (res @ dquote # s @ [dquote]) False dquote False" for res q r
    using comment_loop_inside [OF s, of "dquote # r" "res @ [dquote]"] dquote_not_backslash by simp
  then show ?thesis unfolding passes_def Quoted written.simps by blast
qed (auto intro: passes_plain simp: special_free_def)

lemma removeInlineComment_passes:
  assumes "passes s"
  shows "removeInlineComment (s @ (case rem of None \<Rightarrow> [] | Some t \<Rightarrow> ''#'' @ t)) = Some s"
proof -
  let ?r = "case rem of None \<Rightarrow> [] | Some t \<Rightarrow> ''#'' @ t"
  obtain q where "comment_loop (s @ ?r) [] False (CHR 0x00) False = comment_loop ?r ([] @ s) False q False"
    using assms unfolding passes_def by blast
  then show ?thesis by (cases rem) (simp_all add: removeInlineComment_def)
qed

lemma removeInlineComment_plain: "special_free s \<Longrightarrow> removeInlineComment s = Some s"
  using removeInlineComment_passes [OF passes_plain, of s None] by simp

lemma cfg_blanks_passes: "cfg_blanks w \<Longrightarrow> passes w"
  by (rule passes_plain) (auto simp: cfg_blanks_def special_free_def cfg_ws_def)

lemma cfg_trim_padded:
  "cfg_blanks w \<Longrightarrow> cfg_blanks w' \<Longrightarrow> x = [] \<or> bare x \<Longrightarrow> cfg_trim (w @ x @ w') = x"
  unfolding cfg_trim_strip by (rule strip_padded) (auto simp: cfg_blanks_def bare_def)

lemma special_free_append [simp]: "special_free (s @ t) \<longleftrightarrow> special_free s \<and> special_free t"
  by (auto simp: special_free_def)

lemma special_free_Cons [simp]:
  "special_free (c # s) \<longleftrightarrow> c \<notin> {CHR ''#'', dquote, squote, backslash} \<and> special_free s"
  by (auto simp: special_free_def)

lemma special_free_Nil [simp]: "special_free []"
  by (simp add: special_free_def)

lemma special_free_quoting: "special_free s \<Longrightarrow> unquoteString s = s \<and> parseQuotedString s = Some s"
  by (cases s) (auto simp: unquoteString_def parseQuotedString_def Let_def special_free_def)

lemma retrim_bare: "v = [] \<or> bare v \<Longrightarrow> retrim_value v = v"
proof (cases "v = []")
  case False
  assume "v = [] \<or> bare v"
  with False have v: "bare v" by simp
  then have h: "\<not> isWhitespace (hd v)" and l: "\<not> isWhitespace (last v)"
    by (simp_all add: bare_def isWhitespace_set)
  have "takeWhile isWhitespace v = []" using h False by (cases v) simp_all
  moreover have "takeWhile isWhitespace (rev (drop 1 v)) = []"
  proof (cases "drop 1 v" rule: rev_cases)
    case (snoc ys y)
    then have "y = last v" by (metis last_drop last_snoc snoc_eq_iff_butlast drop_eq_Nil not_le)
    with l snoc show ?thesis by simp
  qed simp
  ultimately show ?thesis using False by (simp add: retrim_value_def Let_def)
qed (simp add: retrim_value_def)

lemma retrim_trim: "retrim_value (cfg_trim s) = cfg_trim s"
  using cfg_trim_cases by (rule retrim_bare)

lemma cfg_trim_opt: "v = [] \<or> bare v \<Longrightarrow> cfg_trim v = v"
  by (cases "v = []") (simp add: cfg_trim_def, simp add: cfg_trim_bare)

lemma split_key_value_plain:
  assumes "bare k" "CHR ''='' \<notin> set k" "v = [] \<or> bare v"
  shows "split_key_value (k @ ''='' @ v) = (k, v)"
proof -
  have "find_char (CHR ''='') (k @ CHR ''='' # v) = Some (length k)"
    using assms(2) by (simp add: find_char_Some)
  then show ?thesis
    using assms by (simp add: split_key_value_def cfg_trim_bare cfg_trim_opt retrim_bare)
qed

lemma take7_include:
  assumes "take 7 (k @ r) = ''include''" "r = [] \<or> hd r \<notin> set ''include''"
  shows "take 7 k = ''include''"
proof (cases "7 \<le> length k \<or> r = []")
  case False
  then obtain c cs where r: "r = c # cs" by (cases r) auto
  with False have "c \<in> set (take 7 (k @ r))" by (simp add: take_Cons')
  then have "c \<in> set ''include''" unfolding assms(1) .
  moreover have "c \<notin> set ''include''" using assms(2) unfolding r by simp
  ultimately show ?thesis by blast
qed (use assms in auto)

lemma cfg_get_current:
  assumes "config_ok c"
  shows "cfg_get c (m_name (m_sections c ! m_currentSectionIndex c)) =
    Some (m_sections c ! m_currentSectionIndex c)"
  using assms index_ok_nth [of m_name "m_sections c" "m_sectionIndex c" "m_currentSectionIndex c"]
  by (simp add: cfg_get_def config_ok_def)

lemma cfg_lookup_assign:
  assumes ok: "config_ok c"
  defines "i \<equiv> m_currentSectionIndex c"
  shows "cfg_lookup (c\<lparr>m_sections := (m_sections c)[i := addKeyValue k v (m_sections c ! i)]\<rparr>) =
    (cfg_lookup c)((m_name (m_sections c ! i), k) \<mapsto> v)"
proof
  fix x :: "string \<times> string"
  obtain sec key where x: "x = (sec, key)" by (cases x)
  have i: "i < length (m_sections c)" "section_ok (m_sections c ! i)"
    using ok by (simp_all add: config_ok_def i_def list_all_length)
  have idx: "m_sectionIndex c sec = Some j \<Longrightarrow> j < length (m_sections c) \<and> m_name (m_sections c ! j) = sec" for j
    using ok index_okD [of m_name "m_sections c" "m_sectionIndex c" sec j] by (simp add: config_ok_def)
  show "cfg_lookup (c\<lparr>m_sections := (m_sections c)[i := addKeyValue k v (m_sections c ! i)]\<rparr>) x =
    ((cfg_lookup c)((m_name (m_sections c ! i), k) \<mapsto> v)) x"
  proof (cases "m_sectionIndex c sec")
    case None
    moreover from None have "sec \<noteq> m_name (m_sections c ! i)"
      using ok i(1) index_ok_nth [of m_name "m_sections c" "m_sectionIndex c" i] by (auto simp: config_ok_def)
    ultimately show ?thesis by (simp add: x cfg_lookup_def cfg_get_def)
  next
    case (Some j)
    have "m_sectionIndex c (m_name (m_sections c ! i)) = Some i"
      using ok i(1) index_ok_nth [of m_name "m_sections c" "m_sectionIndex c" i] by (simp add: config_ok_def)
    then have ji: "j = i \<longleftrightarrow> sec = m_name (m_sections c ! i)"
      using Some idx [OF Some] by (metis option.inject)
    have upd: "(m_sections c)[i := addKeyValue k v (m_sections c ! i)] ! j =
        (if j = i then addKeyValue k v (m_sections c ! i) else m_sections c ! j)"
      using i(1) by simp
    show ?thesis
      unfolding x cfg_lookup_def cfg_get_def
      by (simp add: Some upd addKeyValue_getString [OF i(2)] ji [symmetric])
  qed
qed

lemma getOrCreateSection_lookup:
  assumes ok: "config_ok c" and g: "getOrCreateSection name c = (i, c')"
  shows "cfg_lookup c' = cfg_lookup c"
proof (cases "m_sectionIndex c name")
  case None
  show ?thesis
  proof
    fix x :: "string \<times> string"
    obtain sec key where x: "x = (sec, key)" by (cases x)
    have "m_sectionIndex c sec = Some j \<Longrightarrow> j < length (m_sections c)" for j
      using ok index_okD [of m_name "m_sections c" "m_sectionIndex c" sec j] by (simp add: config_ok_def)
    moreover have "getString (new_section name) key = None" by (simp add: getString_def new_section_def)
    moreover have c': "m_sections c' = m_sections c @ [new_section name]"
      "m_sectionIndex c' = (m_sectionIndex c)(name \<mapsto> length (m_sections c))"
      using None g by (auto simp: getOrCreateSection_def Let_def)
    ultimately show "cfg_lookup c' x = cfg_lookup c x"
      using None
      by (cases "sec = name"; cases "m_sectionIndex c sec")
        (simp_all add: x cfg_lookup_def cfg_get_def nth_append)
  qed
qed (use g in \<open>simp add: getOrCreateSection_def\<close>)

lemma cfg_lookup_current: "cfg_lookup (c\<lparr>m_currentSectionIndex := i\<rparr>) = cfg_lookup c"
  by (simp add: cfg_lookup_def cfg_get_def cong: option.case_cong)

lemma bare_line: "x \<notin> set cfg_ws \<Longrightarrow> y \<notin> set cfg_ws \<Longrightarrow> bare (x # s @ [y])"
  by (simp add: bare_def)

lemma bare_written: "token_ok t \<Longrightarrow> bare (written t)"
proof (cases t)
  case (Quoted s)
  have "dquote \<notin> set cfg_ws" by (simp add: cfg_ws_def)
  with Quoted show ?thesis by (simp add: bare_line)
qed simp

lemma written_decoded:
  assumes "t = Bare [] \<or> token_ok t"
  shows "parseQuotedString (unquoteString (written t)) = Some (token_text t)"
proof (cases t)
  case (Bare s)
  then show ?thesis using assms special_free_quoting [of s] by auto
next
  case (Quoted s)
  then have "s = [] \<or> hd s \<noteq> dquote \<and> hd s \<noteq> squote" using assms by (cases s) auto
  then have "parseQuotedString s = Some s" by (auto simp: parseQuotedString_def)
  moreover have "unquoteString (dquote # s @ [dquote]) = s" by (simp add: unquoteString_def)
  ultimately show ?thesis using Quoted by simp
qed

lemma unescape_plain: "backslash \<notin> set s \<Longrightarrow> unescape_loop s res = Some (res @ s)"
  by (induction s res rule: unescape_loop.induct) auto

lemma written_section:
  assumes "token_ok t"
  shows "parseQuotedString (written t) = Some (token_text t)"
proof (cases t)
  case (Bare s)
  then show ?thesis using assms special_free_quoting [of s] by simp
next
  case (Quoted s)
  then show ?thesis using assms by (simp add: parseQuotedString_def unescape_plain)
qed

lemma equals_written: "key_ok k \<Longrightarrow> CHR ''='' \<notin> set (written k)"
  by (cases k) (simp_all add: key_ok_def)

lemma bare_append: "bare x \<Longrightarrow> z \<notin> set cfg_ws \<Longrightarrow> bare (x @ y @ [z])"
  by (auto simp: bare_def)

lemma bare_append2: "bare x \<Longrightarrow> bare z \<Longrightarrow> bare (x @ y @ z)"
  by (auto simp: bare_def)

text \<open>What the trimmed line of each kind is, and that the scan for comments keeps it whole.\<close>

lemma passes_Cons: "c \<notin> {CHR ''#'', dquote, squote, backslash} \<Longrightarrow> passes s \<Longrightarrow> passes (c # s)"
  using passes_append [of "[c]" s] passes_plain [of "[c]"] by simp

lemma passes_Nil: "passes []"
  by (rule passes_plain) simp

lemma line_uncommented:
  assumes "line_ok l"
  shows "removeInlineComment (line_text l) =
    Some (li_before l @ item_line (li_left l) (li_right l) (li_item l) @ li_after l)"
proof -
  have "passes (li_left l)" "passes (li_right l)" using assms cfg_blanks_passes by (simp_all add: line_ok_def)
  then have "passes (item_line (li_left l) (li_right l) (li_item l))"
    using assms
    by (cases "li_item l")
      (auto simp: line_ok_def key_ok_def simp del: written.simps intro!: passes_append passes_written passes_Cons passes_Nil)
  then have "passes (li_before l @ item_line (li_left l) (li_right l) (li_item l) @ li_after l)"
    using assms cfg_blanks_passes by (auto simp: line_ok_def intro!: passes_append)
  from removeInlineComment_passes [OF this, of "li_remark l"] show ?thesis
    by (simp add: line_text_def)
qed

text \<open>The trimmed line of an assignment: what follows the equals sign may be empty.\<close>

definition assign_core :: "token \<Rightarrow> string \<Rightarrow> string \<Rightarrow> token \<Rightarrow> string" where
  "assign_core k l r v = written k @ l @ CHR ''='' # (if written v = [] then [] else r @ written v)"

lemma value_cases:
  assumes "v = Bare [] \<or> token_ok v"
  obtains "written v = []" | "written v \<noteq> []" "bare (written v)"
  using assms bare_written [of v] by (cases "written v = []") (auto simp: bare_def)

lemma assign_trimmed:
  assumes "key_ok k" "v = Bare [] \<or> token_ok v" "cfg_blanks w" "cfg_blanks r" "cfg_blanks w'"
  shows "cfg_trim (w @ item_line l r (Assign k v) @ w') = assign_core k l r v"
proof -
  have k: "bare (written k)" using assms(1) bare_written by (simp add: key_ok_def)
  have eq: "CHR ''='' \<notin> set cfg_ws" by (simp add: cfg_ws_def)
  show ?thesis
  proof (rule value_cases [OF assms(2)])
    assume v: "written v = []"
    have "bare (written k @ l @ ''='')" by (rule bare_append [OF k eq])
    moreover have "cfg_blanks (r @ w')" using assms by (simp add: cfg_blanks_def)
    ultimately show ?thesis
      using cfg_trim_padded [of w "r @ w'" "written k @ l @ ''=''"] assms(3) v by (simp add: assign_core_def)
  next
    assume v: "written v \<noteq> []" "bare (written v)"
    have "bare (written k @ (l @ ''='' @ r) @ written v)" by (rule bare_append2 [OF k v(2)])
    then show ?thesis
      using cfg_trim_padded [of w w' "written k @ (l @ ''='' @ r) @ written v"] assms v by (simp add: assign_core_def)
  qed
qed

lemma cfg_blanks_no_equals: "cfg_blanks l \<Longrightarrow> CHR ''='' \<notin> set l"
  by (auto simp: cfg_blanks_def cfg_ws_def)

lemma cfg_blanks_Nil: "cfg_blanks []"
  by (simp add: cfg_blanks_def)

lemma split_assign:
  assumes "key_ok k" "v = Bare [] \<or> token_ok v" "cfg_blanks l" "cfg_blanks r"
  shows "split_key_value (assign_core k l r v) = (written k, written v)"
proof -
  let ?rest = "if written v = [] then [] else r @ written v"
  have v: "written v = [] \<or> bare (written v)" using value_cases [OF assms(2)] by blast
  have "find_char (CHR ''='') ((written k @ l) @ CHR ''='' # ?rest) = Some (length (written k @ l))"
    using equals_written [OF assms(1)] cfg_blanks_no_equals [OF assms(3)] by (subst find_char_Some) auto
  moreover have "cfg_trim (written k @ l) = written k"
    using cfg_trim_padded [OF cfg_blanks_Nil assms(3), of "written k"] bare_written [of k] assms(1)
    by (simp add: key_ok_def)
  moreover have "cfg_trim ?rest = written v"
    using cfg_trim_padded [OF assms(4) cfg_blanks_Nil v] cfg_trim_padded [OF cfg_blanks_Nil cfg_blanks_Nil, of "[]"] by simp
  ultimately show ?thesis
    using retrim_bare [OF v] unfolding split_key_value_def assign_core_def by simp
qed

lemma split_key:
  assumes "key_ok k"
  shows "split_key_value (written k) = (written k, [])"
proof -
  have "find_char (CHR ''='') (written k) = None"
    using equals_written [OF assms] by (simp add: find_char_None)
  then show ?thesis
    using cfg_trim_bare bare_written assms by (simp add: split_key_value_def key_ok_def)
qed

lemma key_line_dispatch:
  assumes "key_ok k" "removeInlineComment line = Some u" "cfg_trim u = written k @ r"
    "r = [] \<or> hd r \<notin> set ''include''"
  shows "parseLine ld fs line f n c = parse_key_value (written k @ r) f n c"
proof -
  have k: "written k \<noteq> []" "hd (written k) \<noteq> CHR ''[''" "take 7 (written k) \<noteq> ''include''"
    using assms(1) bare_written [of k] by (simp_all add: key_ok_def bare_def)
  then have "take 7 (written k @ r) \<noteq> ''include''" using take7_include [OF _ assms(4)] by blast
  moreover have "hd (written k @ r) \<noteq> CHR ''[''" using k by simp
  ultimately show ?thesis using assms(2,3) k(1) by (simp add: parseLine_def Let_def)
qed

lemma parse_key_value_stores:
  assumes "key_ok k" "v = Bare [] \<or> token_ok v" "split_key_value x = (written k, written v)" "means c (cur, mp)"
  shows "\<exists>c'. parse_key_value x f n c = Returned result_ok c' \<and>
    means c' (cur, mp((cur, token_text k) \<mapsto> token_text v)) \<and> m_baseDirStack c' = m_baseDirStack c"
proof -
  have k: "token_ok k" using assms(1) by (simp add: key_ok_def)
  then have "written k \<noteq> []" using bare_written by (auto simp: bare_def)
  moreover have i: "m_currentSectionIndex c < length (m_sections c)"
    using assms(4) by (simp add: means_def config_ok_def)
  ultimately have "parse_key_value x f n c = Returned result_ok
      (c\<lparr>m_sections := (m_sections c)[m_currentSectionIndex c :=
           addKeyValue (token_text k) (token_text v) (m_sections c ! m_currentSectionIndex c)]\<rparr>)"
    using written_decoded [of k] written_decoded [OF assms(2)] k assms(3) by (simp add: parse_key_value_def)
  moreover have "section_ok (m_sections c ! m_currentSectionIndex c)"
    using assms(4) i by (simp add: means_def config_ok_def list_all_length)
  ultimately show ?thesis
    using assms(4) i by (simp add: means_def cfg_lookup_assign config_ok_update_section addKeyValue_ok)
qed

lemma parse_section_enters:
  assumes "token_ok t" "cfg_blanks l" "cfg_blanks r" "means c (cur, mp)"
  shows "\<exists>c'. parse_section (item_line l r (Header t)) f n c = Returned result_ok c' \<and>
    means c' (token_text t, mp) \<and> m_baseDirStack c' = m_baseDirStack c"
proof -
  obtain i c1 where g: "getOrCreateSection (token_text t) c = (i, c1)" by fastforce
  have "take (length (item_line l r (Header t)) - 2) (drop 1 (item_line l r (Header t))) = l @ written t @ r"
    by simp
  moreover have "cfg_trim (l @ written t @ r) = written t"
    using cfg_trim_padded [OF assms(2,3)] bare_written [OF assms(1)] by simp
  moreover have "written t \<noteq> []" using bare_written [OF assms(1)] by (simp add: bare_def)
  ultimately have "parse_section (item_line l r (Header t)) f n c =
      Returned result_ok (c1\<lparr>m_currentSectionIndex := i\<rparr>)"
    using written_section [OF assms(1)] g unfolding parse_section_def Let_def by simp
  then show ?thesis
    using getOrCreateSection_ok [OF _ g] getOrCreateSection_lookup [OF _ g] assms(4)
    by (auto simp: means_def cfg_lookup_current)
qed

lemma parseLine_item:
  assumes ok: "line_ok li" and m: "means c a"
  shows "\<exists>c'. parseLine ld fs (line_text li) f n c = Returned result_ok c' \<and>
    means c' (item_step (li_item li) a) \<and> m_baseDirStack c' = m_baseDirStack c"
proof -
  obtain cur mp where a: "a = (cur, mp)" by (cases a)
  note un = line_uncommented [OF ok]
  have w: "cfg_blanks (li_before li)" "cfg_blanks (li_left li)" "cfg_blanks (li_right li)" "cfg_blanks (li_after li)"
    using ok by (simp_all add: line_ok_def)
  have inc: "hd (li_left li @ CHR ''='' # x) \<notin> set ''include''" for x
    using w(2) by (cases "li_left li") (auto simp: cfg_blanks_def cfg_ws_def)
  show ?thesis
  proof (cases "li_item li")
    case (Header t)
    let ?x = "item_line (li_left li) (li_right li) (Header t)"
    have "bare (CHR ''['' # (li_left li @ written t @ li_right li) @ '']'')"
      by (rule bare_line) (simp_all add: cfg_ws_def)
    then have "cfg_trim (li_before li @ ?x @ li_after li) = ?x"
      using cfg_trim_padded [OF w(1,4), of ?x] by simp
    then have "parseLine ld fs (line_text li) f n c = parse_section ?x f n c"
      using un Header by (simp add: parseLine_def Let_def)
    moreover have "token_ok t" using ok Header by (simp add: line_ok_def)
    ultimately show ?thesis using parse_section_enters [OF _ w(2,3)] m Header a by fastforce
  next
    case (Assign k v)
    then have kv: "key_ok k" "v = Bare [] \<or> token_ok v" using ok by (auto simp: line_ok_def)
    have "parseLine ld fs (line_text li) f n c =
        parse_key_value (assign_core k (li_left li) (li_right li) v) f n c"
      using key_line_dispatch [OF kv(1) un] assign_trimmed [OF kv w(1,3,4), of "li_left li"] inc Assign
      unfolding assign_core_def by fastforce
    then show ?thesis
      using parse_key_value_stores [OF kv split_assign [OF kv w(2,3)]] m a Assign by fastforce
  next
    case (Key k)
    then have k: "key_ok k" using ok by (simp add: line_ok_def)
    then have "bare (written k)" using bare_written by (simp add: key_ok_def)
    then have "parseLine ld fs (line_text li) f n c = parse_key_value (written k) f n c"
      using key_line_dispatch [OF k un, of "[]"] cfg_trim_padded [OF w(1,4)] Key by simp
    then show ?thesis
      using parse_key_value_stores [OF k, of "Bare []"] split_key [OF k] m a Key by fastforce
  next
    case Blank
    then have "cfg_trim (li_before li @ li_after li) = []"
      using cfg_trim_padded [OF w(1,4), of "[]"] by simp
    then show ?thesis using un m Blank a by (simp add: parseLine_def)
  qed
qed

definition line_step :: "cfg_line \<Rightarrow> string \<times> (string \<times> string \<Rightarrow> string option) \<Rightarrow>
    string \<times> (string \<times> string \<Rightarrow> string option)" where
  "line_step l = item_step (li_item l)"

lemma load_items:
  assumes "list_all line_ok its" "means c a" "m_baseDirStack c = stack @ [b]"
  shows "\<exists>c'. load_lines ld fs f (map line_text its) n c = Returned result_ok c' \<and>
    means c' (fold line_step its a) \<and> m_baseDirStack c' = stack"
  using assms
proof (induction its arbitrary: n c a)
  case Nil
  then show ?case
    by (simp add: pop_base_dir_def means_def config_ok_def cfg_lookup_def cfg_get_def cong: option.case_cong)
next
  case (Cons it its)
  then obtain c1 where c1: "parseLine ld fs (line_text it) f (Suc n) c = Returned result_ok c1"
    "means c1 (line_step it a)" "m_baseDirStack c1 = m_baseDirStack c"
    using parseLine_item [of it c a ld fs f "Suc n"] by (auto simp: line_step_def)
  from Cons.IH [OF _ c1(2), of "Suc n"] Cons.prems c1 show ?case by simp
qed

lemma means_init: "means config_init (GlobalSectionName, Map.empty)"
proof -
  have "cfg_lookup config_init = Map.empty"
    by (rule ext) (auto simp: cfg_lookup_def cfg_get_def config_init_def new_section_def getString_def)
  then show ?thesis
    using config_init_ok by (simp add: means_def config_init_def new_section_def)
qed

lemma means_push: "means (c\<lparr>m_baseDirStack := st\<rparr>) a \<longleftrightarrow> means c a"
  by (simp add: means_def config_ok_def cfg_lookup_def cfg_get_def cong: option.case_cong)

lemma load_items_file:
  assumes "fs_lines fs f = Some (map line_text its)" "list_all line_ok its" "means c a"
  shows "\<exists>c'. load (Suc fuel) fs f c = Returned result_ok c' \<and> means c' (fold line_step its a)"
proof -
  have "\<exists>c'. load_lines (load fuel fs) fs f (map line_text its) 0
        (c\<lparr>m_baseDirStack := m_baseDirStack c @ [base_dir f]\<rparr>) = Returned result_ok c' \<and>
      means c' (fold line_step its a) \<and> m_baseDirStack c' = m_baseDirStack c"
    using assms(2,3) by (intro load_items) (simp_all add: means_push)
  then show ?thesis using assms(1) by (auto simp: load_Suc)
qed

text \<open>A failing load of a readable file clears the configuration.\<close>

lemma load_failure_init:
  assumes "config_ok c" "fs_lines fs f = Some ls" "load fuel fs f c = Returned r c'" "\<not> success r"
  shows "c' = config_init"
proof (cases fuel)
  case (Suc k)
  have "config_ok (c\<lparr>m_baseDirStack := m_baseDirStack c @ [base_dir f]\<rparr>)"
    using assms(1) by (simp add: config_ok_def)
  from load_lines_post [OF this, of "m_baseDirStack c" "base_dir f" "load k fs" fs f ls 0] assms Suc
  show ?thesis by (simp add: load_Suc load_post_holds)
qed (use assms(3) in simp)

text \<open>Decimal numerals, for the integer getter.\<close>

fun decimal :: "nat \<Rightarrow> string" where
  "decimal n = (if n < 10 then [char_of (48 + n)] else decimal (n div 10) @ [char_of (48 + n mod 10)])"

declare decimal.simps [simp del]

definition show_int :: "int \<Rightarrow> string" where
  "show_int i = (if i < 0 then CHR ''-'' # decimal (nat (- i)) else decimal (nat i))"

lemma digit_char:
  assumes "d < 10"
  shows "is_digit (char_of (48 + d :: nat))" "digit_val (char_of (48 + d)) = d"
  using assms by (simp_all add: is_digit_def digit_val_def)

lemma decimal_digits: "decimal n \<noteq> [] \<and> list_all is_digit (decimal n) \<and> digits_int (decimal n) = int n"
proof (induction n rule: decimal.induct)
  case (1 n)
  show ?case
  proof (cases "n < 10")
    case True
    then show ?thesis
      using digit_char [OF True] by (simp add: decimal.simps [of n] digits_int_def)
  next
    case False
    have "n mod 10 < 10" by simp
    note d = digit_char [OF this]
    have "int (n div 10) * 10 + int (n mod 10) = int n" by presburger
    with 1 False d show ?thesis by (simp add: decimal.simps [of n] digits_int_def)
  qed
qed

lemma digit_not: "is_digit c \<Longrightarrow> c \<noteq> CHR ''-'' \<and> c \<noteq> CHR ''+'' \<and> \<not> c_space c \<and> c \<noteq> CHR 0x00"
  by (auto simp: is_digit_def c_space_def)

lemma c_strtol_digits:
  assumes "ds \<noteq> []" "list_all is_digit ds"
  defines "clamp \<equiv> (\<lambda>v. if v < long_min then (long_min, True, []) else if long_max < v then (long_max, True, [])
    else (v, False, []))"
  shows "c_strtol ds = clamp (digits_int ds)" and "c_strtol (CHR ''-'' # ds) = clamp (- digits_int ds)"
proof -
  have digs: "\<forall>c \<in> set ds. is_digit c" using assms(2) by (simp add: list_all_iff)
  then have nn: "\<forall>c \<in> set ds. c \<noteq> CHR ''-'' \<and> c \<noteq> CHR ''+'' \<and> \<not> c_space c \<and> c \<noteq> CHR 0x00"
    using digit_not by blast
  have tw: "takeWhile is_digit ds = ds" "takeWhile (\<lambda>c. c \<noteq> CHR 0x00) ds = ds"
    using digs nn by simp_all
  obtain d es where c: "ds = d # es" using assms(1) by (cases ds) auto
  have dw: "dropWhile c_space ds = ds" "hd ds \<noteq> CHR ''-''" "hd ds \<noteq> CHR ''+''"
    unfolding c using nn by (simp_all add: c)
  have minus: "\<not> c_space (CHR ''-'')" by (simp add: c_space_def)
  show "c_strtol ds = clamp (digits_int ds)"
    unfolding c_strtol_def Let_def clamp_def by (simp add: tw dw assms(1))
  show "c_strtol (CHR ''-'' # ds) = clamp (- digits_int ds)"
    unfolding c_strtol_def Let_def clamp_def by (simp add: tw minus assms(1))
qed

lemma c_strtol_show_int:
  "c_strtol (show_int i) =
     (if i < long_min then (long_min, True, []) else if long_max < i then (long_max, True, []) else (i, False, []))"
proof (cases "i < 0")
  case True
  then have "- digits_int (decimal (nat (- i))) = i" using decimal_digits [of "nat (- i)"] by simp
  with True c_strtol_digits(2) [of "decimal (nat (- i))"] decimal_digits [of "nat (- i)"] show ?thesis
    by (simp add: show_int_def)
next
  case False
  with c_strtol_digits(1) [of "decimal (nat i)"] decimal_digits [of "nat i"] show ?thesis
    by (simp add: show_int_def)
qed

subsection \<open>Properties\<close>

text \<open>A small file system for the witnesses.\<close>

definition demo_items :: "cfg_line list" where
  "demo_items =
     [\<lparr>li_item = Assign (Bare ''level'') (Bare ''1''), li_before = ''  '', li_left = '' '', li_right = '' '', li_after = '' '', li_remark = Some '' x''\<rparr>,
      \<lparr>li_item = Blank, li_before = '' '', li_left = [], li_right = [], li_after = [], li_remark = None\<rparr>,
      \<lparr>li_item = Header (Bare ''log''), li_before = '' '', li_left = '' '', li_right = '' '', li_after = [], li_remark = Some ''x''\<rparr>,
      \<lparr>li_item = Assign (Bare ''file'') (Bare ''a.txt''), li_before = [], li_left = [], li_right = [], li_after = [], li_remark = None\<rparr>,
      \<lparr>li_item = Key (Quoted ''a key''), li_before = [], li_left = [], li_right = [], li_after = '' '', li_remark = None\<rparr>,
      \<lparr>li_item = Assign (Bare ''file'') (Quoted '' b = #c''), li_before = [], li_left = '' '', li_right = [], li_after = [], li_remark = None\<rparr>]"

definition demo_fs :: file_system where
  "demo_fs = \<lparr>fs_exists = (\<lambda>p. p \<in> {''/c/inc'', ''/c/self'', ''/c/bad'', ''/c/out''}),
     fs_lines = [''/c/inc'' \<mapsto> map line_text demo_items, ''/c/self'' \<mapsto> [''include self''],
       ''/c/bad'' \<mapsto> [''=1''], ''/c/out'' \<mapsto> [''include bad'']]\<rparr>"

lemmas cfg_eval = parseLine_def parse_include_def parse_section_def parse_key_value_def
  removeInlineComment_def cfg_trim_def cfg_ws_def split_key_value_def unquoteString_def
  parseQuotedString_def retrim_value_def include_target_def base_dir_def parent_path_def
  path_join_def strip_right_def isWhitespace_def



text \<open>
  C17. When \<open>load\<close> returns, the configuration is well-formed (index and vector agree, keys and section
  names are unique, the current section exists); on success the include stack is as before, and when a
  readable file fails to parse nothing of it remains.  The failure of a file that another one includes
  does not return at all: it is undefined behaviour, as the nested case below shows.
\<close>

theorem cfg_load_invariant:
  assumes "config_ok c" and "load fuel fs f c = Returned r c'"
  shows "config_ok c' \<and>
    (if success r then m_baseDirStack c' = m_baseDirStack c
     else c' = config_init \<or> c' = c \<and> fs_lines fs f = None)"
  using load_post_holds [OF assms(1), of fuel fs f] load_failure_init [OF assms(1) _ assms(2)] assms(2)
  by (cases "fs_lines fs f") auto

definition demo_filled :: config where
  "demo_filled = config_init\<lparr>m_sections := [addKeyValue ''k'' ''v'' (new_section GlobalSectionName)]\<rparr>"

lemma demo_filled_ok: "config_ok demo_filled"
proof -
  have "section_ok (new_section GlobalSectionName)" using config_init_ok by (simp add: config_ok_def config_init_def)
  then have "section_ok (addKeyValue ''k'' ''v'' (new_section GlobalSectionName))" by (rule addKeyValue_ok)
  then show ?thesis
    using config_ok_update_section [OF config_init_ok, of 0 "addKeyValue ''k'' ''v'' (new_section GlobalSectionName)"]
    by (simp add: demo_filled_def config_init_def)
qed

lemma demo_bad_fails:
  "load 1 demo_fs ''/c/bad'' c = Returned (result_error ''Empty key'' ''/c/bad'' 1)
     (cfg_clear c)"
  by (simp add: load_Suc demo_fs_def cfg_eval cfg_error_def pop_base_dir_def cfg_clear_def)

theorem cfg_load_invariant_witness:
  "(\<exists>c'. load 1 demo_fs ''/c/inc'' config_init = Returned result_ok c' \<and> config_ok c' \<and> m_baseDirStack c' = [] \<and>
      cfg_lookup c' (GlobalSectionName, ''level'') = Some ''1'') \<and>
   (\<exists>r. load 1 demo_fs ''/c/bad'' demo_filled = Returned r config_init \<and> success r = False)"
proof
  have "\<exists>c'. load (Suc 0) demo_fs ''/c/inc'' config_init = Returned result_ok c' \<and>
      means c' (fold line_step demo_items (GlobalSectionName, Map.empty))"
    by (rule load_items_file [OF _ _ means_init])
      (simp_all add: demo_fs_def demo_items_def line_ok_def key_ok_def cfg_blanks_def bare_def special_free_def cfg_ws_def)
  then obtain c' where c': "load 1 demo_fs ''/c/inc'' config_init = Returned result_ok c'"
    "cfg_lookup c' (GlobalSectionName, ''level'') = Some ''1''"
    by (auto simp: means_def demo_items_def line_step_def GlobalSectionName_def)
  from cfg_load_invariant [OF config_init_ok c'(1)] c'
  show "\<exists>c'. load 1 demo_fs ''/c/inc'' config_init = Returned result_ok c' \<and> config_ok c' \<and>
      m_baseDirStack c' = [] \<and> cfg_lookup c' (GlobalSectionName, ''level'') = Some ''1''"
    by (auto simp: result_ok_def config_init_def)
  from cfg_load_invariant [OF demo_filled_ok demo_bad_fails]
  have "cfg_clear demo_filled = config_init" by (auto simp: result_error_def demo_fs_def)
  with demo_bad_fails [of demo_filled]
  show "\<exists>r. load 1 demo_fs ''/c/bad'' demo_filled = Returned r config_init \<and> success r = False"
    by (auto simp: result_error_def)
qed

text \<open>
  C18. When includes are well-founded, as much fuel as the depth of the file is enough: \<open>load\<close>
  terminates.
\<close>

theorem cfg_load_terminates:
  assumes "config_ok c" and "acyclic_includes fs rank" and "rank f < fuel"
  shows "load fuel fs f c \<noteq> Out_of_fuel"
  by (rule load_fuel [OF assms])

theorem cfg_load_terminates_witness:
  "load 2 \<lparr>fs_exists = (\<lambda>p. p = ''/a''), fs_lines = [''/a'' \<mapsto> [''k=v'']]\<rparr> ''/a'' config_init \<noteq> Out_of_fuel"
proof (rule cfg_load_terminates [where rank = "\<lambda>_. 1"])
  show "acyclic_includes \<lparr>fs_exists = (\<lambda>p. p = ''/a''), fs_lines = [''/a'' \<mapsto> [''k=v'']]\<rparr> (\<lambda>_. 1)"
    by (auto simp: acyclic_includes_def cfg_eval)
qed (simp_all add: config_init_ok)

text \<open>
  A file whose first line includes the file itself makes \<open>load\<close> recurse without end: no fuel is
  enough.
\<close>

theorem cfg_include_cycle_diverges:
  assumes "fs_lines fs f = Some (l # ls)" and "include_target (base_dir f) l = Some f" and "fs_exists fs f"
  shows "load fuel fs f c = Out_of_fuel"
proof (induction fuel arbitrary: c)
  case (Suc fuel)
  let ?c = "c\<lparr>m_baseDirStack := m_baseDirStack c @ [base_dir f]\<rparr>"
  have "parseLine (load fuel fs) fs l f (Suc 0) ?c = Out_of_fuel"
    using parseLine_include [OF assms(2), of ?c "m_baseDirStack c"] assms(3) Suc.IH by simp
  then show ?case using assms(1) by (simp add: load_Suc)
qed simp

theorem cfg_include_cycle_diverges_witness: "load 100 demo_fs ''/c/self'' config_init = Out_of_fuel"
  by (rule cfg_include_cycle_diverges [where l = "''include self''" and ls = "[]"])
    (simp_all add: demo_fs_def cfg_eval)

text \<open>
  A parse error inside an included file is undefined behaviour: the inner \<open>load\<close> clears the
  include stack and the outer one pops it again.
\<close>

theorem cfg_nested_failure_undefined:
  assumes "config_ok c" and "fs_lines fs f = Some (l # ls)"
    and "include_target (base_dir f) l = Some g" and "fs_exists fs g" and "fs_lines fs g = Some gs"
    and "load fuel fs g (c\<lparr>m_baseDirStack := m_baseDirStack c @ [base_dir f]\<rparr>) = Returned r c'"
    and "\<not> success r"
  shows "load (Suc fuel) fs f c = Undefined"
proof -
  let ?c = "c\<lparr>m_baseDirStack := m_baseDirStack c @ [base_dir f]\<rparr>"
  have "config_ok ?c" using assms(1) by (simp add: config_ok_def)
  then have "c' = config_init" using load_failure_init assms(5-7) by blast
  then have "parseLine (load fuel fs) fs l f (Suc 0) ?c = Returned r config_init"
    using parseLine_include [OF assms(3), of ?c "m_baseDirStack c"] assms(4,6) by simp
  from load_lines_failure [OF this assms(7)] show ?thesis using assms(2) by (simp add: load_Suc)
qed

theorem cfg_nested_failure_undefined_witness: "load 2 demo_fs ''/c/out'' config_init = Undefined"
proof -
  let ?c = "config_init\<lparr>m_baseDirStack := m_baseDirStack config_init @ [base_dir ''/c/out'']\<rparr>"
  have "load 1 demo_fs ''/c/bad'' ?c = Returned (result_error ''Empty key'' ''/c/bad'' 1) config_init"
    by (simp add: load_Suc demo_fs_def cfg_eval cfg_error_def pop_base_dir_def cfg_clear_eq)
  moreover have "fs_lines demo_fs ''/c/out'' = Some [''include bad'']"
    "include_target (base_dir ''/c/out'') ''include bad'' = Some ''/c/bad''"
    by (simp_all add: demo_fs_def cfg_eval)
  ultimately have "load (Suc 1) demo_fs ''/c/out'' config_init = Undefined"
    by (intro cfg_nested_failure_undefined [OF config_init_ok]) (auto simp: demo_fs_def)
  then show ?thesis by (simp add: numeral_2_eq_2)
qed

text \<open>
  Escape sequences in a quoted value are never decoded: the quotes are stripped before
  \<open>parseQuotedString\<close> looks for them, so the raw text between the quotes is stored.
\<close>

theorem cfg_quoted_value_raw:
  assumes "bare k" and "special_free k" and "CHR ''='' \<notin> set k" and "config_ok c"
    and "t = [] \<or> hd t \<notin> {dquote, squote}"
  shows "parse_key_value (k @ ''='' @ dquote # t @ [dquote]) f n c = Returned result_ok
    (c\<lparr>m_sections := (m_sections c)[m_currentSectionIndex c :=
         addKeyValue k t (m_sections c ! m_currentSectionIndex c)]\<rparr>)"
proof -
  have "bare (dquote # t @ [dquote])" by (rule bare_line) (simp_all add: cfg_ws_def)
  then have sp: "split_key_value (k @ ''='' @ dquote # t @ [dquote]) = (k, dquote # t @ [dquote])"
    using assms(1,3) by (intro split_key_value_plain) simp_all
  have "unquoteString (dquote # t @ [dquote]) = t" by (simp add: unquoteString_def)
  moreover have "parseQuotedString t = Some t"
    using assms(5) by (cases t) (simp_all add: parseQuotedString_def Let_def)
  moreover have "m_currentSectionIndex c < length (m_sections c)" using assms(4) by (simp add: config_ok_def)
  ultimately show ?thesis
    using special_free_quoting [OF assms(2)] assms(1)
    by (simp add: parse_key_value_def sp [simplified] Let_def) (simp add: bare_def)
qed

theorem cfg_quoted_value_raw_witness:
  "parse_key_value (''k='' @ dquote # [backslash, CHR ''n''] @ [dquote]) ''f'' 1 config_init = Returned result_ok
     (config_init\<lparr>m_sections := [addKeyValue ''k'' [backslash, CHR ''n''] (new_section GlobalSectionName)]\<rparr>) \<and>
   parseQuotedString (dquote # [backslash, CHR ''n''] @ [dquote]) = Some [nl]"
  using cfg_quoted_value_raw [of "''k''" config_init "[backslash, CHR ''n'']" "''f''" 1] config_init_ok
  by (simp add: bare_def special_free_def cfg_ws_def config_init_def parseQuotedString_def)

text \<open>
  A section is a finite map with a stable order: after \<open>addKeyValue\<close> the new value is found,
  every other key is unchanged, a new key goes to the end and a known key keeps its place.
\<close>

theorem section_map:
  assumes "section_ok s"
  shows "section_ok (addKeyValue k v s) \<and> getString (addKeyValue k v s) = (getString s)(k \<mapsto> v) \<and>
    sec_keys (addKeyValue k v s) = (if k \<in> set (sec_keys s) then sec_keys s else sec_keys s @ [k])"
  using addKeyValue_ok addKeyValue_getString addKeyValue_keys assms by simp

theorem section_map_witness:
  "sec_keys (addKeyValue ''a'' ''2'' (addKeyValue ''b'' ''x'' (addKeyValue ''a'' ''1'' (new_section ''s'')))) = [''a'', ''b'']"
proof -
  let ?s = "addKeyValue ''b'' ''x'' (addKeyValue ''a'' ''1'' (new_section ''s''))"
  have "section_ok ?s" by (intro addKeyValue_ok new_section_ok)
  from section_map [OF this, of "''a''" "''2''"] show ?thesis
    by (simp add: sec_keys_def addKeyValue_def new_section_def Let_def)
qed

text \<open>
  \<open>getInt\<close> reads back every decimal numeral that fits an \<open>int\<close> and rejects every other one,
  those that overflow \<open>long\<close> included.
\<close>

theorem getInt_decimal:
  assumes "getString s k = Some (show_int i)"
  shows "getInt s k = (if - (2 ^ 31) \<le> i \<and> i \<le> 2 ^ 31 - 1 then Some i else None)"
proof -
  have "show_int i \<noteq> []" using decimal_digits by (simp add: show_int_def)
  with assms show ?thesis
    by (auto simp: getInt_def c_strtol_show_int long_min_def long_max_def)
qed

theorem getInt_decimal_witness: "getInt (addKeyValue ''n'' ''-42'' (new_section ''s'')) ''n'' = Some (- 42)"
proof -
  have "char_of (52 :: nat) = CHR ''4''" "char_of (50 :: nat) = CHR ''2''"
    by (simp_all add: char_of_eq_iff)
  then have "getString (addKeyValue ''n'' ''-42'' (new_section ''s'')) ''n'' = Some (show_int (- 42))"
    by (simp add: addKeyValue_def getString_def new_section_def show_int_def decimal.simps)
  from getInt_decimal [OF this] show ?thesis by simp
qed


end
