(* ===== verification/Logging.thy ===== *)
theory Logging
  imports String_Extras
begin

text \<open>
  The logging categories of \<open>src/libs/Support/Logging.cpp\<close> and \<open>include/lorelei/Support/Logging.h\<close>:
  the filter-rule grammar, rule matching, the default category filter, the registry of live
  categories and the default sink.
\<close>

subsection \<open>Levels and rules\<close>

datatype log_level = Trace | Debug | Success | Information | Warning | Critical | Fatal

fun level_num :: "log_level \<Rightarrow> nat" where
  "level_num Trace = 1"
| "level_num Debug = 2"
| "level_num Success = 3"
| "level_num Information = 4"
| "level_num Warning = 5"
| "level_num Critical = 6"
| "level_num Fatal = 7"

definition all_levels :: "nat list" where
  "all_levels = [level_num Trace..<Suc (level_num Fatal)]"

datatype match_mode = Exact | Prefix | Suffix | Contains

record logging_rule =
  rule_text :: string
  rule_mode :: match_mode
  rule_level :: nat
  rule_enable :: bool

definition matchesCategory :: "logging_rule \<Rightarrow> string \<Rightarrow> bool" where
  "matchesCategory r name =
     (case rule_mode r of
        Prefix \<Rightarrow> starts_with name (rule_text r)
      | Suffix \<Rightarrow> ends_with name (rule_text r)
      | Contains \<Rightarrow> contains name (rule_text r)
      | Exact \<Rightarrow> name = rule_text r)"

definition appliesToLevel :: "logging_rule \<Rightarrow> nat \<Rightarrow> bool" where
  "appliesToLevel r lv \<longleftrightarrow> rule_level r = 0 \<or> rule_level r = lv"

definition levelFromToken :: "string \<Rightarrow> nat" where
  "levelFromToken token =
     (if token = ''trace'' then level_num Trace
      else if token = ''debug'' then level_num Debug
      else if token = ''success'' then level_num Success
      else if token = ''info'' \<or> token = ''information'' then level_num Information
      else if token = ''warning'' then level_num Warning
      else if token = ''critical'' then level_num Critical
      else if token = ''fatal'' then level_num Fatal
      else 0)"

definition parseBool :: "string \<Rightarrow> bool option" where
  "parseBool val =
     (let v = str_to_lower val in
      if v = ''true'' \<or> v = ''1'' then Some True
      else if v = ''false'' \<or> v = ''0'' then Some False
      else None)"

text \<open>
  \<open>str::trim\<close>, \<open>drop_front\<close> and \<open>drop_back\<close> return; their throwing branch is unreachable for a
  string that fits the address space (\<open>trim_strip\<close>) and for a non-empty one.
\<close>

definition returned :: "string option \<Rightarrow> string" where
  "returned s = (case s of Some t \<Rightarrow> t | None \<Rightarrow> [])"

definition trim_ws :: "string \<Rightarrow> string" where
  "trim_ws s = returned (trim s default_ws)"

text \<open>The optional \<open>.level\<close> suffix: the level selected and the pattern that is left.\<close>

definition split_level :: "string \<Rightarrow> nat \<times> string" where
  "split_level pattern =
     (case rfind_char (CHR ''.'') pattern of
        None \<Rightarrow> (0, pattern)
      | Some dot \<Rightarrow>
          (let level = levelFromToken (drop (dot + 1) pattern) in
           if level \<noteq> 0 then (level, take dot pattern) else (0, pattern)))"

text \<open>The leading and trailing wildcards.\<close>

definition split_wildcards :: "string \<Rightarrow> match_mode \<times> string" where
  "split_wildcards pattern =
     (let left = starts_with_char pattern (CHR ''*'');
          right = ends_with_char pattern (CHR ''*'');
          pattern = (if left then returned (drop_front pattern 1) else pattern);
          pattern = (if right \<and> pattern \<noteq> [] then returned (drop_back pattern 1) else pattern)
      in (if left \<and> right then Contains else if left then Suffix else if right then Prefix else Exact,
          pattern))"

definition parseRule :: "string \<Rightarrow> logging_rule option" where
  "parseRule line =
     (case find_char (CHR ''='') line of
        None \<Rightarrow> None
      | Some eq \<Rightarrow>
          (let pattern = trim_ws (take eq line);
               val = parseBool (trim_ws (drop (eq + 1) line))
           in if pattern = [] then None
              else case val of
                None \<Rightarrow> None
              | Some enable \<Rightarrow>
                  (let (level, pattern) = split_level pattern;
                       (mode, pattern) = split_wildcards pattern
                   in if contains_char pattern (CHR ''*'') then None
                      else if mode = Exact \<and> pattern = [] then None
                      else Some \<lparr>rule_text = pattern, rule_mode = mode, rule_level = level, rule_enable = enable\<rparr>)))"

definition parse_entry :: "logging_rule list \<Rightarrow> string \<Rightarrow> logging_rule list" where
  "parse_entry result rawEntry =
     (let entry = trim_ws rawEntry in
      if entry = [] \<or> starts_with_char entry (CHR ''#'') then result
      else case parseRule entry of None \<Rightarrow> result | Some rule \<Rightarrow> result @ [rule])"

text \<open>The two nested loops; \<open>split\<close> with a non-empty delimiter always returns.\<close>

definition split_all :: "string \<Rightarrow> string \<Rightarrow> string list" where
  "split_all s d = (case split s d of Some v \<Rightarrow> v | None \<Rightarrow> [])"

definition parseRules :: "string \<Rightarrow> logging_rule list" where
  "parseRules rules =
     foldl (\<lambda>result rawLine. foldl parse_entry result (split_all rawLine '';'')) []
       (split_all rules [nl])"

subsection \<open>Categories, the registry and the filters\<close>

record log_category =
  cat_name :: "string option"
  levelEnabled :: "bool list"

text \<open>Writing the 64-bit word \<open>enabled\<close> sets the eight flag bytes of the union at once.\<close>

definition write_enabled :: "64 word \<Rightarrow> log_category \<Rightarrow> log_category" where
  "write_enabled w c = c\<lparr>levelEnabled := map (\<lambda>i. take_bit 8 (drop_bit (8 * i) w) \<noteq> 0) [0..<8]\<rparr>"

definition isLevelEnabled :: "log_category \<Rightarrow> nat \<Rightarrow> bool" where
  "isLevelEnabled c level = levelEnabled c ! level"

definition setLevelEnabled :: "nat \<Rightarrow> bool \<Rightarrow> log_category \<Rightarrow> log_category" where
  "setLevelEnabled level on c = c\<lparr>levelEnabled := (levelEnabled c)[level := on]\<rparr>"

text \<open>A category filter: the built-in one, or a client's function.\<close>

datatype log_filter = DefaultFilter | CustomFilter "log_category \<Rightarrow> log_category"

record log_registry =
  filterRules :: string
  reg_rules :: "logging_rule list"
  categoryFilter :: log_filter
  categories :: "nat list"
  objects :: "nat \<Rightarrow> log_category option"

definition apply_rule :: "string \<Rightarrow> log_category \<Rightarrow> logging_rule \<Rightarrow> log_category" where
  "apply_rule name c r =
     (if \<not> matchesCategory r name then c
      else foldl (\<lambda>c level. if appliesToLevel r level then setLevelEnabled level (rule_enable r) c else c)
             c all_levels)"

definition defaultLogCategoryFilter :: "logging_rule list \<Rightarrow> log_category \<Rightarrow> log_category" where
  "defaultLogCategoryFilter rules c =
     (let name = (case cat_name c of Some n \<Rightarrow> n | None \<Rightarrow> []);
          c = foldl (\<lambda>c level. setLevelEnabled level True c) c all_levels
      in foldl (apply_rule name) c rules)"

definition run_filter :: "log_registry \<Rightarrow> log_category \<Rightarrow> log_category" where
  "run_filter reg c =
     (case categoryFilter reg of
        DefaultFilter \<Rightarrow> defaultLogCategoryFilter (reg_rules reg) c
      | CustomFilter f \<Rightarrow> f c)"

definition filter_object :: "log_registry \<Rightarrow> nat \<Rightarrow> log_registry" where
  "filter_object reg p =
     reg\<lparr>objects := (objects reg)(p := map_option (run_filter reg) (objects reg p))\<rparr>"

definition updateFilterRules :: "log_registry \<Rightarrow> log_registry" where
  "updateFilterRules reg = foldl filter_object reg (categories reg)"

text \<open>Constructor and destructor of the category at address \<open>p\<close>, and the static setters.\<close>

definition LogCategory_ctor :: "nat \<Rightarrow> string option \<Rightarrow> log_registry \<Rightarrow> log_registry" where
  "LogCategory_ctor p name reg =
     (let c = write_enabled 0x0101010101010101 \<lparr>cat_name = name, levelEnabled = []\<rparr>;
          reg = reg\<lparr>objects := (objects reg)(p \<mapsto> c)\<rparr>;
          reg = reg\<lparr>categories := List.insert p (categories reg)\<rparr>
      in filter_object reg p)"

definition LogCategory_dtor :: "nat \<Rightarrow> log_registry \<Rightarrow> log_registry" where
  "LogCategory_dtor p reg =
     reg\<lparr>categories := removeAll p (categories reg), objects := (objects reg)(p := None)\<rparr>"

definition setLogFilter :: "log_filter option \<Rightarrow> log_registry \<Rightarrow> log_registry" where
  "setLogFilter filt reg =
     updateFilterRules (reg\<lparr>categoryFilter := (case filt of None \<Rightarrow> DefaultFilter | Some f \<Rightarrow> f)\<rparr>)"

definition setFilterRules :: "string \<Rightarrow> log_registry \<Rightarrow> log_registry" where
  "setFilterRules rules reg =
     updateFilterRules (reg\<lparr>reg_rules := parseRules rules, filterRules := rules\<rparr>)"

definition registry_init :: log_registry where
  "registry_init =
     \<lparr>filterRules = [], reg_rules = [], categoryFilter = DefaultFilter, categories = [], objects = Map.empty\<rparr>"

text \<open>A client's call of \<open>setLevelEnabled\<close> on the category at address \<open>p\<close>.\<close>

definition set_category_level :: "nat \<Rightarrow> nat \<Rightarrow> bool \<Rightarrow> log_registry \<Rightarrow> log_registry" where
  "set_category_level p level on reg =
     reg\<lparr>objects := (objects reg)(p := map_option (setLevelEnabled level on) (objects reg p))\<rparr>"

subsection \<open>Emitting\<close>

text \<open>What the default sink does with a record: nothing, a line on a stream, or a failed assertion.\<close>

datatype sink_action = Dropped | To_stdout string | To_stderr string | Assertion_failed

definition defaultLogCallback :: "nat \<Rightarrow> string \<Rightarrow> sink_action" where
  "defaultLogCallback level message =
     (if level < level_num Success then Dropped
      else if level = level_num Success then To_stdout (c_str message @ [nl])
      else if level \<in> {level_num Warning, level_num Critical, level_num Fatal} then To_stderr (c_str message @ [nl])
      else Assertion_failed)"

text \<open>\<open>LogCategory::log<Level>\<close>: what is handed to the callback, and whether the process aborts.\<close>

definition category_log :: "log_category \<Rightarrow> log_level \<Rightarrow> string \<Rightarrow> string list \<Rightarrow> (nat \<times> string option) option \<times> bool" where
  "category_log c level fmt args =
     (if \<not> isLevelEnabled c (level_num level) then (None, False)
      else (Some (level_num level, format fmt args), level = Fatal))"

subsection \<open>The default filter\<close>

definition flags_ok :: "log_category \<Rightarrow> bool" where
  "flags_ok c \<longleftrightarrow> length (levelEnabled c) = 8"

text \<open>The specification: the last rule that matches name and level decides, else enabled.\<close>

definition effective :: "logging_rule list \<Rightarrow> string \<Rightarrow> nat \<Rightarrow> bool" where
  "effective rules name lv =
     (let hits = filter (\<lambda>r. matchesCategory r name \<and> appliesToLevel r lv) rules
      in hits = [] \<or> rule_enable (last hits))"

definition name_of :: "log_category \<Rightarrow> string" where
  "name_of c = (case cat_name c of Some n \<Rightarrow> n | None \<Rightarrow> [])"

lemma all_levels_set: "set all_levels = {1..7}"
  by (auto simp: all_levels_def)

lemma all_levels_bound: "set all_levels \<subseteq> {..<8}"
  by (auto simp: all_levels_def)

lemma set_levels:
  fixes P :: "nat \<Rightarrow> bool" and b :: bool
  assumes "flags_ok c" and "set ls \<subseteq> {..<8}"
  defines "c' \<equiv> foldl (\<lambda>c level. if P level then setLevelEnabled level b c else c) c ls"
  shows "flags_ok c' \<and> cat_name c' = cat_name c \<and>
    (\<forall>lv. isLevelEnabled c' lv = (if lv \<in> set ls \<and> P lv then b else isLevelEnabled c lv))"
  using assms(1,2) unfolding c'_def
proof (induction ls arbitrary: c)
  case (Cons l ls)
  define c1 where "c1 = (if P l then setLevelEnabled l b c else c)"
  have c1: "flags_ok c1" "cat_name c1 = cat_name c"
    using Cons.prems(1) by (simp_all add: flags_ok_def setLevelEnabled_def c1_def)
  have one: "isLevelEnabled c1 lv = (if lv = l \<and> P l then b else isLevelEnabled c lv)" for lv
    using Cons.prems by (simp add: flags_ok_def setLevelEnabled_def isLevelEnabled_def nth_list_update c1_def)
  have "foldl (\<lambda>c level. if P level then setLevelEnabled level b c else c) c (l # ls) =
      foldl (\<lambda>c level. if P level then setLevelEnabled level b c else c) c1 ls"
    by (simp add: c1_def)
  with Cons.IH [OF c1(1)] Cons.prems(2) c1(2) one show ?case by auto
qed simp

lemma apply_rule_effect:
  assumes "flags_ok c"
  shows "flags_ok (apply_rule name c r) \<and> cat_name (apply_rule name c r) = cat_name c \<and>
    (\<forall>lv \<in> {1..7}. isLevelEnabled (apply_rule name c r) lv =
       (if matchesCategory r name \<and> appliesToLevel r lv then rule_enable r else isLevelEnabled c lv))"
  using set_levels [OF assms all_levels_bound, of "appliesToLevel r" "rule_enable r"] assms
  by (auto simp: apply_rule_def all_levels_set)

lemma apply_rules_effect:
  assumes "flags_ok c" and "\<forall>lv \<in> {1..7}. isLevelEnabled c lv"
  shows "flags_ok (foldl (apply_rule name) c rules) \<and>
    cat_name (foldl (apply_rule name) c rules) = cat_name c \<and>
    (\<forall>lv \<in> {1..7}. isLevelEnabled (foldl (apply_rule name) c rules) lv = effective rules name lv)"
proof (induction rules rule: rev_induct)
  case (snoc r rules)
  let ?c = "foldl (apply_rule name) c rules"
  have "flags_ok ?c" using snoc.IH by simp
  from apply_rule_effect [OF this, of name r] snoc.IH show ?case
    by (auto simp: effective_def)
qed (use assms in \<open>simp add: effective_def\<close>)

lemma default_filter_effect:
  assumes "flags_ok c"
  shows "flags_ok (defaultLogCategoryFilter rules c) \<and>
    cat_name (defaultLogCategoryFilter rules c) = cat_name c \<and>
    (\<forall>lv \<in> {1..7}. isLevelEnabled (defaultLogCategoryFilter rules c) lv = effective rules (name_of c) lv)"
proof -
  let ?c = "foldl (\<lambda>c level. setLevelEnabled level True c) c all_levels"
  have "flags_ok ?c \<and> cat_name ?c = cat_name c \<and> (\<forall>lv \<in> {1..7}. isLevelEnabled ?c lv)"
    using set_levels [OF assms all_levels_bound, of "\<lambda>_. True" True] by (auto simp: all_levels_set)
  with apply_rules_effect [of ?c "name_of c" rules] show ?thesis
    by (simp add: defaultLogCategoryFilter_def name_of_def)
qed

lemma enabled_bytes:
  "map (\<lambda>i. take_bit 8 (drop_bit (8 * i) (0x0101010101010101 :: 64 word)) \<noteq> 0) [0..<8] = replicate 8 True"
  by code_simp

lemma write_enabled_all: "levelEnabled (write_enabled 0x0101010101010101 c) = replicate 8 True"
  unfolding write_enabled_def enabled_bytes by simp

subsection \<open>The registry invariant\<close>

text \<open>
  Every registered category has its flags.  While the default filter is installed they are what the
  current rules say, except where the client has set a level itself since the filter last ran: \<open>own\<close>
  holds these settings.
\<close>

definition in_force :: "log_registry \<Rightarrow> (nat \<Rightarrow> bool option) \<Rightarrow> log_category \<Rightarrow> bool" where
  "in_force reg own c \<longleftrightarrow> flags_ok c \<and>
     (categoryFilter reg = DefaultFilter \<longrightarrow>
        (\<forall>lv \<in> {1..7}. isLevelEnabled c lv =
           (case own lv of Some b \<Rightarrow> b | None \<Rightarrow> effective (reg_rules reg) (name_of c) lv)))"

definition registry_ok :: "log_registry \<Rightarrow> (nat \<Rightarrow> nat \<Rightarrow> bool option) \<Rightarrow> bool" where
  "registry_ok reg own \<longleftrightarrow>
     distinct (categories reg) \<and> reg_rules reg = parseRules (filterRules reg) \<and>
     (\<forall>p \<in> set (categories reg). \<exists>c. objects reg p = Some c \<and> in_force reg (own p) c)"

definition keeps_shape :: "log_filter \<Rightarrow> bool" where
  "keeps_shape filt \<longleftrightarrow> (case filt of
     DefaultFilter \<Rightarrow> True
   | CustomFilter f \<Rightarrow> \<forall>c. flags_ok c \<longrightarrow> flags_ok (f c) \<and> cat_name (f c) = cat_name c)"

text \<open>
  The states the registry can reach, with the settings the client made itself: a category is created
  or destroyed, the rules or the filter change (the filter then runs over every category and undoes
  these settings), or a level of a live category is set.
\<close>

inductive registry_reach :: "log_registry \<Rightarrow> (nat \<Rightarrow> nat \<Rightarrow> bool option) \<Rightarrow> bool" where
  init: "registry_reach registry_init (\<lambda>_. Map.empty)"
| ctor: "registry_reach reg own \<Longrightarrow> p \<notin> set (categories reg) \<Longrightarrow>
     registry_reach (LogCategory_ctor p name reg) (own(p := Map.empty))"
| dtor: "registry_reach reg own \<Longrightarrow> registry_reach (LogCategory_dtor p reg) own"
| rules: "registry_reach reg own \<Longrightarrow> registry_reach (setFilterRules s reg) (\<lambda>_. Map.empty)"
| filt: "registry_reach reg own \<Longrightarrow> (\<forall>f. filt = Some f \<longrightarrow> keeps_shape f) \<Longrightarrow>
     registry_reach (setLogFilter filt reg) (\<lambda>_. Map.empty)"
| level: "registry_reach reg own \<Longrightarrow> p \<in> set (categories reg) \<Longrightarrow> lv < 8 \<Longrightarrow>
     registry_reach (set_category_level p lv b reg) (own(p := (own p)(lv \<mapsto> b)))"

lemma run_filter_in_force:
  "keeps_shape (categoryFilter reg) \<Longrightarrow> flags_ok c \<Longrightarrow> in_force reg Map.empty (run_filter reg c)"
  using default_filter_effect [of c "reg_rules reg"]
  by (cases "categoryFilter reg") (auto simp: in_force_def run_filter_def keeps_shape_def name_of_def)

lemma filter_object_fields [simp]:
  "categories (filter_object reg p) = categories reg"
  "categoryFilter (filter_object reg p) = categoryFilter reg"
  "reg_rules (filter_object reg p) = reg_rules reg"
  "filterRules (filter_object reg p) = filterRules reg"
  "run_filter (filter_object reg p) = run_filter reg"
  by (simp_all add: filter_object_def run_filter_def fun_eq_iff split: log_filter.split)

lemma update_objects:
  assumes "distinct ps"
  shows "objects (foldl filter_object reg ps) p =
      (if p \<in> set ps then map_option (run_filter reg) (objects reg p) else objects reg p) \<and>
    categories (foldl filter_object reg ps) = categories reg \<and>
    categoryFilter (foldl filter_object reg ps) = categoryFilter reg \<and>
    reg_rules (foldl filter_object reg ps) = reg_rules reg \<and>
    filterRules (foldl filter_object reg ps) = filterRules reg"
  using assms
proof (induction ps arbitrary: reg)
  case (Cons q ps)
  have "objects (filter_object reg q) p =
      (if p = q then map_option (run_filter reg) (objects reg p) else objects reg p)"
    by (simp add: filter_object_def)
  with Cons.IH [of "filter_object reg q"] Cons.prems show ?case by auto
qed simp

lemma foldl_filter_fields [simp]:
  "categories (foldl filter_object reg ps) = categories reg"
  "categoryFilter (foldl filter_object reg ps) = categoryFilter reg"
  "reg_rules (foldl filter_object reg ps) = reg_rules reg"
  by (induction ps arbitrary: reg) simp_all

lemma update_ok:
  assumes "distinct (categories reg)" "keeps_shape (categoryFilter reg)" "reg_rules reg = parseRules (filterRules reg)"
    and "\<forall>p \<in> set (categories reg). \<exists>c. objects reg p = Some c \<and> flags_ok c"
  shows "registry_ok (updateFilterRules reg) (\<lambda>_. Map.empty)"
  unfolding registry_ok_def updateFilterRules_def
  using assms run_filter_in_force [OF assms(2)] update_objects [OF assms(1), of reg]
  by (fastforce simp: in_force_def)

lemma registry_ok_flags:
  "registry_ok reg own \<Longrightarrow> p \<in> set (categories reg) \<Longrightarrow> \<exists>c. objects reg p = Some c \<and> flags_ok c"
  unfolding registry_ok_def in_force_def by blast

lemma update_registry_ok:
  assumes "registry_ok reg own" "keeps_shape (categoryFilter reg')" "reg_rules reg' = parseRules (filterRules reg')"
    and "categories reg' = categories reg" "objects reg' = objects reg"
  shows "registry_ok (updateFilterRules reg') (\<lambda>_. Map.empty)"
  using update_ok [OF _ assms(2,3)] registry_ok_flags [OF assms(1)] assms(1,4,5)
  unfolding registry_ok_def by simp

lemma set_level_in_force:
  assumes "in_force reg own c" "lv < 8"
  shows "in_force reg (own(lv \<mapsto> b)) (setLevelEnabled lv b c)"
proof -
  have "flags_ok (setLevelEnabled lv b c)" "name_of (setLevelEnabled lv b c) = name_of c"
    using assms(1) by (simp_all add: in_force_def flags_ok_def setLevelEnabled_def name_of_def)
  moreover have "isLevelEnabled (setLevelEnabled lv b c) l = (if l = lv then b else isLevelEnabled c l)" for l
    using assms by (simp add: in_force_def flags_ok_def setLevelEnabled_def isLevelEnabled_def nth_list_update)
  ultimately show ?thesis
    using assms(1) by (simp add: in_force_def cong: option.case_cong)
qed

lemma registry_init_ok: "registry_ok registry_init own"
proof -
  have "parse_entry [] [] = []" by (simp add: parse_entry_def trim_ws_def trim_strip npos_def returned_def
    strip_left_def strip_right_def)
  moreover have "split_all [] [c] = [[]]" for c by (simp add: split_all_def split_eq_pieces pieces_char)
  ultimately show ?thesis by (simp add: registry_ok_def registry_init_def parseRules_def)
qed

lemma LogCategory_ctor_ok:
  assumes "registry_ok reg own \<and> keeps_shape (categoryFilter reg)" "p \<notin> set (categories reg)"
  shows "registry_ok (LogCategory_ctor p name reg) (own(p := Map.empty)) \<and>
    keeps_shape (categoryFilter (LogCategory_ctor p name reg))"
proof -
  define c where "c = write_enabled 0x0101010101010101 \<lparr>cat_name = name, levelEnabled = []\<rparr>"
  define reg1 where "reg1 = reg\<lparr>objects := (objects reg)(p \<mapsto> c), categories := List.insert p (categories reg)\<rparr>"
  have eq: "LogCategory_ctor p name reg = filter_object reg1 p"
    by (simp add: LogCategory_ctor_def c_def reg1_def)
  have "flags_ok c" by (simp add: c_def flags_ok_def write_enabled_all)
  moreover have r1: "run_filter reg1 = run_filter reg" "categoryFilter reg1 = categoryFilter reg"
    "reg_rules reg1 = reg_rules reg" "filterRules reg1 = filterRules reg"
    by (simp_all add: reg1_def run_filter_def fun_eq_iff split: log_filter.split)
  ultimately have "in_force (filter_object reg1 p) Map.empty (run_filter reg1 c)"
    using run_filter_in_force [of reg1 c] assms(1) by (simp add: in_force_def)
  moreover have "in_force (filter_object reg1 p) o' d = in_force reg o' d" for o' d
    by (simp only: in_force_def r1 filter_object_fields)
  moreover have "objects (filter_object reg1 p) p = Some (run_filter reg1 c)"
    "q \<noteq> p \<Longrightarrow> objects (filter_object reg1 p) q = objects reg q" for q
    by (simp_all add: filter_object_def reg1_def)
  moreover have "categories (filter_object reg1 p) = p # categories reg"
    using assms(2) by (simp add: reg1_def)
  ultimately have "\<exists>d. objects (filter_object reg1 p) q = Some d \<and>
      in_force (filter_object reg1 p) ((own(p := Map.empty)) q) d" if "q \<in> set (p # categories reg)" for q
    using assms(1) that unfolding registry_ok_def by (cases "q = p") auto
  moreover have "distinct (p # categories reg)" using assms unfolding registry_ok_def by simp
  moreover have "categories (filter_object reg1 p) = p # categories reg"
    using assms(2) by (simp add: reg1_def)
  ultimately show ?thesis
    using assms(1) unfolding eq registry_ok_def by (simp only: r1 filter_object_fields) blast
qed

lemma set_category_level_ok:
  assumes ok: "registry_ok reg own" and "lv < 8"
  shows "registry_ok (set_category_level p lv b reg) (own(p := (own p)(lv \<mapsto> b)))"
proof -
  let ?r = "set_category_level p lv b reg" and ?own = "own(p := (own p)(lv \<mapsto> b))"
  have r: "categories ?r = categories reg" "reg_rules ?r = reg_rules reg" "filterRules ?r = filterRules reg"
    "categoryFilter ?r = categoryFilter reg"
    by (simp_all add: set_category_level_def)
  have same: "in_force ?r o' d \<longleftrightarrow> in_force reg o' d" for o' d
    unfolding in_force_def r ..
  have "\<exists>c. objects ?r q = Some c \<and> in_force reg (?own q) c" if q: "q \<in> set (categories reg)" for q
  proof -
    obtain c where c: "objects reg q = Some c" "in_force reg (own q) c"
      using ok q unfolding registry_ok_def by blast
    have "objects ?r q = Some (if q = p then setLevelEnabled lv b c else c)"
      using c(1) by (cases "q = p") (simp_all add: set_category_level_def)
    moreover have "in_force reg (?own q) (if q = p then setLevelEnabled lv b c else c)"
      using c(2) set_level_in_force [OF c(2) assms(2), of b] by (cases "q = p") simp_all
    ultimately show ?thesis by blast
  qed
  then show ?thesis
    using ok unfolding registry_ok_def r same by blast
qed

lemma registry_reach_ok: "registry_reach reg own \<Longrightarrow> registry_ok reg own \<and> keeps_shape (categoryFilter reg)"
proof (induction rule: registry_reach.induct)
  case init
  show ?case using registry_init_ok by (simp add: registry_init_def keeps_shape_def)
next
  case (ctor reg own p name)
  then show ?case using LogCategory_ctor_ok by blast
next
  case (dtor reg own p)
  let ?r = "LogCategory_dtor p reg"
  have r: "reg_rules ?r = reg_rules reg" "filterRules ?r = filterRules reg" "categoryFilter ?r = categoryFilter reg"
    "categories ?r = removeAll p (categories reg)" "q \<noteq> p \<Longrightarrow> objects ?r q = objects reg q" for q
    by (simp_all add: LogCategory_dtor_def)
  have "in_force ?r o' d = in_force reg o' d" for o' d
    by (simp only: in_force_def r)
  with dtor show ?case
    unfolding registry_ok_def r by (simp add: r distinct_removeAll)
next
  case (rules reg own s)
  let ?r = "reg\<lparr>reg_rules := parseRules s, filterRules := s\<rparr>"
  have "registry_ok (updateFilterRules ?r) (\<lambda>_. Map.empty)"
    using rules by (intro update_registry_ok [where reg = reg and own = own]) simp_all
  moreover have "categoryFilter (setFilterRules s reg) = categoryFilter reg"
    by (simp add: setFilterRules_def updateFilterRules_def)
  ultimately show ?case using rules(2) by (simp add: setFilterRules_def)
next
  case (filt reg own filt)
  let ?r = "reg\<lparr>categoryFilter := (case filt of None \<Rightarrow> DefaultFilter | Some f \<Rightarrow> f)\<rparr>"
  have k: "keeps_shape (categoryFilter ?r)"
    using filt(2) by (auto simp: keeps_shape_def split: option.split)
  have "reg_rules reg = parseRules (filterRules reg)" using filt(3) by (simp add: registry_ok_def)
  then have "registry_ok (updateFilterRules ?r) (\<lambda>_. Map.empty)"
    using filt(3) k by (intro update_registry_ok [where reg = reg and own = own]) simp_all
  moreover have "categoryFilter (setLogFilter filt reg) = categoryFilter ?r"
    by (simp add: setLogFilter_def updateFilterRules_def)
  ultimately show ?case using k by (simp add: setLogFilter_def)
next
  case (level reg own p lv b)
  moreover have "categoryFilter (set_category_level p lv b reg) = categoryFilter reg"
    by (simp add: set_category_level_def)
  ultimately show ?case using set_category_level_ok [of reg own lv p b] by metis
qed

subsection \<open>The rule grammar\<close>

text \<open>
  How rules are written and what they mean, without the parser: an entry is a rule, a remark or blank;
  the pattern of a rule is a text with an optional star at either end.
\<close>

record filter_line =
  fl_front :: bool
  fl_text :: string
  fl_back :: bool
  fl_level :: "log_level option"
  fl_enable :: bool
  fl_before :: string
  fl_left :: string
  fl_right :: string
  fl_after :: string

datatype rule_entry = Rule filter_line | Remark string string | Empty_entry string

fun level_word :: "log_level \<Rightarrow> string" where
  "level_word Trace = ''trace''"
| "level_word Debug = ''debug''"
| "level_word Success = ''success''"
| "level_word Information = ''info''"
| "level_word Warning = ''warning''"
| "level_word Critical = ''critical''"
| "level_word Fatal = ''fatal''"

definition fl_pattern :: "filter_line \<Rightarrow> string" where
  "fl_pattern f = (if fl_front f then ''*'' else []) @ fl_text f @ (if fl_back f \<and> fl_text f \<noteq> [] then ''*'' else [])"

definition fl_lhs :: "filter_line \<Rightarrow> string" where
  "fl_lhs f = fl_pattern f @ (case fl_level f of None \<Rightarrow> [] | Some l \<Rightarrow> ''.'' @ level_word l)"

definition fl_rhs :: "filter_line \<Rightarrow> string" where
  "fl_rhs f = (if fl_enable f then ''true'' else ''false'')"

fun entry_text :: "rule_entry \<Rightarrow> string" where
  "entry_text (Rule f) = fl_before f @ (fl_lhs f @ fl_left f @ ''='' @ fl_right f @ fl_rhs f) @ fl_after f"
| "entry_text (Remark w t) = w @ ''#'' @ t"
| "entry_text (Empty_entry w) = w"

text \<open>Entries are separated by semicolons, lines by newlines.\<close>

definition rules_text :: "rule_entry list list \<Rightarrow> string" where
  "rules_text ls = join (map (\<lambda>es. join (map entry_text es) '';'') ls) [nl]"

text \<open>A rule selects a level of a category; the last rule that does decides, else the level is enabled.\<close>

definition selects :: "filter_line \<Rightarrow> string \<Rightarrow> nat \<Rightarrow> bool" where
  "selects f name lv \<longleftrightarrow>
     (\<exists>u v. name = u @ fl_text f @ v \<and> (fl_front f \<or> u = []) \<and> (fl_back f \<or> v = [])) \<and>
     (case fl_level f of None \<Rightarrow> True | Some l \<Rightarrow> level_num l = lv)"

fun decide :: "string \<Rightarrow> nat \<Rightarrow> rule_entry \<Rightarrow> bool \<Rightarrow> bool" where
  "decide name lv (Rule f) b = (if selects f name lv then fl_enable f else b)"
| "decide name lv e b = b"

definition decided :: "rule_entry list \<Rightarrow> string \<Rightarrow> nat \<Rightarrow> bool" where
  "decided es name lv = fold (decide name lv) es True"

text \<open>
  The entries that can be written: blanks around the parts, no blank or special character in the text
  of a pattern, a text unless both ends are open, and no pattern that ends like a level suffix when
  every level is meant.
\<close>

definition level_suffixes :: "string list" where
  "level_suffixes = [''.trace'', ''.debug'', ''.success'', ''.info'', ''.information'', ''.warning'', ''.critical'', ''.fatal'']"

definition padding :: "string \<Rightarrow> bool" where
  "padding w \<longleftrightarrow> set w \<subseteq> {CHR '' '', tab, vt, ff, cr}"

definition fl_ok :: "filter_line \<Rightarrow> bool" where
  "fl_ok f \<longleftrightarrow>
     set (fl_text f) \<inter> set (''=*;#'' @ default_ws) = {} \<and>
     (fl_text f = [] \<longrightarrow> fl_front f \<and> fl_back f) \<and>
     (fl_level f = None \<longrightarrow> list_all (\<lambda>x. \<not> ends_with (fl_pattern f) x) level_suffixes) \<and>
     padding (fl_before f) \<and> padding (fl_left f) \<and> padding (fl_right f) \<and> padding (fl_after f)"

fun entry_ok :: "rule_entry \<Rightarrow> bool" where
  "entry_ok (Rule f) \<longleftrightarrow> fl_ok f \<and> length (entry_text (Rule f)) < 2 ^ 32"
| "entry_ok (Remark w t) \<longleftrightarrow> padding w \<and> nl \<notin> set t \<and> CHR '';'' \<notin> set t \<and> length (w @ t) < 2 ^ 32"
| "entry_ok (Empty_entry w) \<longleftrightarrow> padding w \<and> length w < 2 ^ 32"

text \<open>The rule the parser makes of it.\<close>

definition rule_of :: "filter_line \<Rightarrow> logging_rule" where
  "rule_of f =
     \<lparr>rule_text = fl_text f,
      rule_mode = (if fl_front f then (if fl_back f then Contains else Suffix) else if fl_back f then Prefix else Exact),
      rule_level = (case fl_level f of None \<Rightarrow> 0 | Some l \<Rightarrow> level_num l),
      rule_enable = fl_enable f\<rparr>"

fun rules_of :: "rule_entry \<Rightarrow> logging_rule list" where
  "rules_of (Rule f) = [rule_of f]"
| "rules_of e = []"

lemma ends_with_append: "ends_with s x \<longleftrightarrow> (\<exists>u. s = u @ x)"
  by (auto simp: ends_with_suffix suffix_def)

lemma starts_with_append: "starts_with s x \<longleftrightarrow> (\<exists>v. s = x @ v)"
  by (auto simp: starts_with_prefix prefix_def)

lemma contains_append: "contains s x \<longleftrightarrow> (\<exists>u v. s = u @ x @ v)"
  by (simp add: contains_sublist sublist_def)

lemma rule_of_selects:
  "matchesCategory (rule_of f) name \<and> appliesToLevel (rule_of f) lv \<longleftrightarrow> selects f name lv"
  by (cases "fl_level f"; cases "fl_front f"; cases "fl_back f"; cases "the (fl_level f)")
    (auto simp: matchesCategory_def rule_of_def selects_def appliesToLevel_def
      starts_with_append ends_with_append contains_append)

lemma effective_snoc:
  "effective (rs @ [r]) name lv =
     (if matchesCategory r name \<and> appliesToLevel r lv then rule_enable r else effective rs name lv)"
  by (simp add: effective_def Let_def)

lemma effective_decided: "effective (concat (map rules_of es)) name lv = decided es name lv"
proof (induction es rule: rev_induct)
  case (snoc e es)
  have "rule_enable (rule_of f) = fl_enable f" for f by (simp add: rule_of_def)
  with snoc show ?case
    by (cases e) (simp_all add: decided_def effective_snoc rule_of_selects)
qed (simp add: effective_def decided_def)

lemma padding_ws: "padding w \<Longrightarrow> set w \<subseteq> set default_ws"
  by (auto simp: padding_def default_ws_def)

lemma trim_ws_padded:
  assumes "padding w" "padding w'" "x = [] \<or> hd x \<notin> set default_ws \<and> last x \<notin> set default_ws"
    "length (w @ x @ w') < 2 ^ 33"
  shows "trim_ws (w @ x @ w') = x"
proof -
  have "length (w @ x @ w') < npos" using assms(4) by (simp add: npos_def)
  from trim_strip [OF this, of default_ws] show ?thesis
    unfolding trim_ws_def returned_def strip_padded [OF padding_ws [OF assms(1)] padding_ws [OF assms(2)] assms(3)] by simp
qed

lemma padding_Nil: "padding []"
  by (simp add: padding_def)

lemma level_word_token: "levelFromToken (level_word l) = level_num l"
  by (cases l) (simp_all add: levelFromToken_def)

lemma level_word_chars: "set (level_word l) \<inter> set (''.=*;'' @ default_ws) = {} \<and> level_word l \<noteq> []"
  by (cases l) (simp_all add: default_ws_def)

lemma level_suffix_known: "levelFromToken t \<noteq> 0 \<Longrightarrow> CHR ''.'' # t \<in> set level_suffixes"
  by (auto simp: levelFromToken_def level_suffixes_def split: if_splits)

lemma split_level_lhs:
  assumes "fl_ok f"
  shows "split_level (fl_lhs f) = (rule_level (rule_of f), fl_pattern f)"
proof (cases "fl_level f")
  case (Some l)
  have "rfind_char (CHR ''.'') (fl_pattern f @ CHR ''.'' # level_word l) = Some (length (fl_pattern f))"
    using level_word_chars [of l] by (auto simp: rfind_char_Some)
  moreover have "level_num l \<noteq> 0" by (cases l) simp_all
  ultimately show ?thesis using Some level_word_token [of l] by (simp add: split_level_def fl_lhs_def rule_of_def)
next
  case None
  show ?thesis
  proof (cases "rfind_char (CHR ''.'') (fl_pattern f)")
    case (Some dot)
    then have split: "fl_pattern f = take dot (fl_pattern f) @ CHR ''.'' # drop (dot + 1) (fl_pattern f)"
      using id_take_nth_drop [of dot "fl_pattern f"] by (simp add: rfind_char_Some)
    have "levelFromToken (drop (dot + 1) (fl_pattern f)) = 0"
    proof (rule ccontr)
      assume "levelFromToken (drop (dot + 1) (fl_pattern f)) \<noteq> 0"
      then have "CHR ''.'' # drop (dot + 1) (fl_pattern f) \<in> set level_suffixes" by (rule level_suffix_known)
      moreover have "ends_with (fl_pattern f) (CHR ''.'' # drop (dot + 1) (fl_pattern f))"
        unfolding ends_with_append using split by blast
      ultimately show False using assms None by (auto simp: fl_ok_def list_all_iff)
    qed
    with Some None show ?thesis by (simp add: split_level_def fl_lhs_def rule_of_def)
  qed (use None in \<open>simp add: split_level_def fl_lhs_def rule_of_def\<close>)
qed

lemma split_wildcards_pattern:
  assumes "fl_ok f" "length (fl_pattern f) < 2 ^ 33"
  shows "split_wildcards (fl_pattern f) = (rule_mode (rule_of f), fl_text f)"
proof -
  let ?t = "fl_text f"
  have h: "?t \<noteq> [] \<Longrightarrow> hd ?t \<noteq> CHR ''*'' \<and> last ?t \<noteq> CHR ''*''"
    using assms(1) by (metis (no_types, lifting) disjoint_iff fl_ok_def hd_in_set last_in_set list.set_intros
      append_Cons)
  have "length ?t < 2 ^ 33" using assms(2) by (simp add: fl_pattern_def)
  moreover have sub: "size_sub (Suc n) 1 = n" if "n < 2 ^ 33" for n using that by simp
  ultimately show ?thesis
    using assms h sub [of "length ?t"]
    by (cases "fl_front f"; cases "fl_back f"; cases ?t)
      (auto simp: fl_ok_def fl_pattern_def rule_of_def split_wildcards_def Let_def starts_with_char_def
        ends_with_char_def drop_front_def drop_back_def substr_def returned_def npos_def)
qed

lemma split_all_char:
  "c \<notin> set x \<Longrightarrow> split_all x [c] = [x]"
  "c \<notin> set x \<Longrightarrow> split_all (x @ c # y) [c] = x # split_all y [c]"
  by (simp_all add: split_all_def split_eq_pieces pieces_char)

lemma split_all_intersperse:
  "v \<noteq> [] \<Longrightarrow> \<forall>x \<in> set v. c \<notin> set x \<Longrightarrow> split_all (join v [c]) [c] = v"
  by (simp add: split_all_def split_eq_pieces join_eq_intersperse pieces_intersperse_char)

lemma parseBool_show: "parseBool (fl_rhs f) = Some (fl_enable f)"
  by (simp add: parseBool_def str_to_lower_def c_tolower_def fl_rhs_def)

lemma fl_lhs_chars:
  assumes "fl_ok f"
  shows "set (fl_lhs f) \<inter> (set ''=;#'' \<union> set default_ws) = {}" and "fl_lhs f \<noteq> []"
proof -
  have "set (fl_pattern f) \<inter> (set ''=;#'' \<union> set default_ws) = {}"
    using assms by (auto simp: fl_ok_def fl_pattern_def default_ws_def)
  moreover have "set (level_word l) \<inter> (set ''=;#'' \<union> set default_ws) = {}" for l
    by (cases l) (auto simp: default_ws_def)
  moreover have "CHR ''.'' \<notin> set ''=;#'' \<union> set default_ws" by (simp add: default_ws_def)
  ultimately show "set (fl_lhs f) \<inter> (set ''=;#'' \<union> set default_ws) = {}"
    by (cases "fl_level f") (auto simp: fl_lhs_def)
  show "fl_lhs f \<noteq> []"
    using assms by (auto simp: fl_lhs_def fl_ok_def fl_pattern_def)
qed

lemma fl_rhs_chars: "set (fl_rhs f) \<inter> (set ''=;#'' \<union> set default_ws) = {}" "fl_rhs f \<noteq> []"
  by (auto simp: fl_rhs_def default_ws_def)

lemma ends_not_ws: "set x \<inter> (S \<union> set default_ws) = {} \<Longrightarrow> x = [] \<or> hd x \<notin> set default_ws \<and> last x \<notin> set default_ws"
  by (metis IntI UnCI empty_iff hd_in_set last_in_set)

lemma parseRule_line:
  assumes "fl_ok f" "length (fl_lhs f @ fl_left f @ ''='' @ fl_right f @ fl_rhs f) < 2 ^ 32"
  shows "parseRule (fl_lhs f @ fl_left f @ ''='' @ fl_right f @ fl_rhs f) = Some (rule_of f)"
proof -
  have pad: "padding (fl_left f)" "padding (fl_right f)" using assms(1) by (simp_all add: fl_ok_def)
  have "CHR ''='' \<notin> set (fl_lhs f @ fl_left f)"
    using fl_lhs_chars(1) [OF assms(1)] pad(1) by (auto simp: padding_def)
  then have f: "find_char (CHR ''='') ((fl_lhs f @ fl_left f) @ CHR ''='' # (fl_right f @ fl_rhs f)) =
      Some (length (fl_lhs f @ fl_left f))"
    by (simp only: find_char_Some) auto
  have l: "trim_ws (fl_lhs f @ fl_left f) = fl_lhs f"
    using trim_ws_padded [OF padding_Nil pad(1) ends_not_ws [OF fl_lhs_chars(1) [OF assms(1)]]] assms(2) by simp
  have r: "trim_ws (fl_right f @ fl_rhs f) = fl_rhs f"
    using trim_ws_padded [OF pad(2) padding_Nil ends_not_ws [OF fl_rhs_chars(1)]] assms(2) by simp
  have len: "length (fl_pattern f) < 2 ^ 33" using assms(2) by (simp add: fl_lhs_def)
  have star: "\<not> contains_char (fl_text f) (CHR ''*'')" "\<not> (rule_mode (rule_of f) = Exact \<and> fl_text f = [])"
    using assms(1) by (auto simp: contains_char_def find_char_None fl_ok_def rule_of_def)
  have "rule_of f = \<lparr>rule_text = fl_text f, rule_mode = rule_mode (rule_of f), rule_level = rule_level (rule_of f),
      rule_enable = fl_enable f\<rparr>"
    by (simp add: rule_of_def)
  then show ?thesis
    using f l r split_level_lhs [OF assms(1)] split_wildcards_pattern [OF assms(1) len] star parseBool_show [of f]
      fl_lhs_chars(2) [OF assms(1)]
    by (simp add: parseRule_def Let_def)
qed

lemma parse_entry_rule:
  assumes "entry_ok e"
  shows "parse_entry rs (entry_text e) = rs @ rules_of e"
proof (cases e)
  case (Rule f)
  let ?x = "fl_lhs f @ fl_left f @ ''='' @ fl_right f @ fl_rhs f"
  have f: "fl_ok f" "length (entry_text (Rule f)) < 2 ^ 32" using assms Rule by simp_all
  note lhs = fl_lhs_chars [OF f(1)]
  have "hd ?x = hd (fl_lhs f)" "last ?x = last (fl_rhs f)"
    using lhs(2) fl_rhs_chars(2) [of f] by simp_all
  moreover have "hd (fl_lhs f) \<in> set (fl_lhs f)" "last (fl_rhs f) \<in> set (fl_rhs f)"
    using lhs(2) fl_rhs_chars(2) by simp_all
  ultimately have ends: "hd ?x \<notin> set default_ws" "last ?x \<notin> set default_ws" "hd ?x \<noteq> CHR ''#''"
    using lhs(1) fl_rhs_chars(1) [of f] by auto
  moreover have "padding (fl_before f)" "padding (fl_after f)" using f(1) by (simp_all add: fl_ok_def)
  ultimately have "trim_ws (entry_text (Rule f)) = ?x"
    using trim_ws_padded [of "fl_before f" "fl_after f" ?x] f(2) by simp
  moreover have "?x \<noteq> []" by simp
  moreover have "length ?x < 2 ^ 32" using f(2) by simp
  ultimately show ?thesis
    using ends(3) parseRule_line [OF f(1)] Rule by (simp add: parse_entry_def Let_def starts_with_char_def)
next
  case (Remark w t)
  have "trim_ws (w @ CHR ''#'' # t) = CHR ''#'' # strip_right default_ws t"
  proof -
    have "strip_left default_ws (w @ CHR ''#'' # t) = CHR ''#'' # t"
      using assms Remark padding_ws [of w]
      by (auto simp: strip_left_def dropWhile_append default_ws_def)
    moreover have "strip_right default_ws (CHR ''#'' # t) = CHR ''#'' # strip_right default_ws t"
      by (simp add: strip_right_def dropWhile_append default_ws_def)
    ultimately show ?thesis
      using trim_strip [of "w @ CHR ''#'' # t" default_ws] assms Remark
      by (simp add: npos_def trim_ws_def returned_def)
  qed
  then show ?thesis using Remark by (simp add: parse_entry_def starts_with_char_def)
next
  case (Empty_entry w)
  then have "trim_ws w = []" using trim_ws_padded [of w "[]" "[]"] assms padding_Nil by simp
  then show ?thesis using Empty_entry by (simp add: parse_entry_def)
qed

lemma entry_text_separators: "entry_ok e \<Longrightarrow> CHR '';'' \<notin> set (entry_text e) \<and> nl \<notin> set (entry_text e)"
proof (cases e)
  case (Rule f)
  assume "entry_ok e"
  with Rule have f: "fl_ok f" by simp
  then show ?thesis
    using Rule fl_lhs_chars(1) [OF f] fl_rhs_chars(1) [of f]
    by (auto simp: fl_ok_def padding_def default_ws_def)
qed (auto simp: padding_def)

lemma parse_entries:
  "list_all entry_ok es \<Longrightarrow> foldl parse_entry rs (map entry_text es) = rs @ concat (map rules_of es)"
  by (induction es arbitrary: rs) (simp_all add: parse_entry_rule)

lemma join_Nil [simp]: "join [] d = []"
  by (simp add: join_def)

lemma parse_entry_blank: "parse_entry rs [] = rs"
  using parse_entry_rule [of "Empty_entry []" rs] padding_Nil by simp

lemma parse_line:
  assumes "list_all entry_ok es"
  shows "foldl parse_entry rs (split_all (join (map entry_text es) '';'') '';'') = rs @ concat (map rules_of es)"
proof (cases "es = []")
  case True
  then show ?thesis by (simp add: split_all_char parse_entry_blank)
next
  case False
  then have "split_all (join (map entry_text es) '';'') '';'' = map entry_text es"
    using assms entry_text_separators by (intro split_all_intersperse) (auto simp: list_all_iff)
  then show ?thesis using parse_entries [OF assms] by simp
qed

lemma intersperse_chars: "set (intersperse d v) \<subseteq> set d \<union> \<Union> (set ` set v)"
  by (induction d v rule: intersperse.induct) auto

lemma parse_lines:
  "list_all (list_all entry_ok) ls \<Longrightarrow>
     foldl (\<lambda>result rawLine. foldl parse_entry result (split_all rawLine '';'')) rs
       (map (\<lambda>es. join (map entry_text es) '';'') ls) = rs @ concat (map rules_of (concat ls))"
  by (induction ls arbitrary: rs) (simp_all add: parse_line)

lemma parseRules_text:
  assumes "list_all (list_all entry_ok) ls"
  shows "parseRules (rules_text ls) = concat (map rules_of (concat ls))"
proof (cases "ls = []")
  case True
  then show ?thesis by (simp add: parseRules_def rules_text_def split_all_char parse_entry_blank)
next
  case False
  have "nl \<notin> set (join (map entry_text es) '';'')" if "es \<in> set ls" for es
    using intersperse_chars [of "'';''" "map entry_text es"] that assms entry_text_separators
    unfolding join_eq_intersperse by (fastforce simp: list_all_iff)
  then have "split_all (rules_text ls) [nl] = map (\<lambda>es. join (map entry_text es) '';'') ls"
    unfolding rules_text_def using False by (intro split_all_intersperse) auto
  then show ?thesis using parse_lines [OF assms, of "[]"] by (simp add: parseRules_def)
qed

subsection \<open>Properties\<close>


text \<open>The example of the documentation, with a level the client sets afterwards.\<close>

definition demo_rule :: "bool \<Rightarrow> string \<Rightarrow> log_level option \<Rightarrow> bool \<Rightarrow> rule_entry" where
  "demo_rule wild t level on =
     Rule \<lparr>fl_front = wild, fl_text = t, fl_back = wild, fl_level = level, fl_enable = on,
       fl_before = [], fl_left = '' '', fl_right = '' '', fl_after = '' ''\<rparr>"

definition demo_rules :: "rule_entry list list" where
  "demo_rules =
     [[demo_rule True [] (Some Debug) False, Remark '' '' '' silence debug''],
      [demo_rule False ''lore.io'' None False],
      [demo_rule False ''lore.io'' (Some Warning) True]]"

definition demo_registry :: log_registry where
  "demo_registry = set_category_level 7 6 True
     (setFilterRules (rules_text demo_rules) (LogCategory_ctor 7 (Some ''lore.io'') registry_init))"


text \<open>
  A line that starts with \<open>#\<close> is a comment only up to its first semicolon: what follows the
  semicolon is parsed as a rule.
\<close>

theorem comment_ends_at_semicolon:
  assumes "{CHR '';'', nl} \<inter> set t = {}" and "{CHR '';'', nl} \<inter> set e = {}" and "length t < 2 ^ 32"
  shows "parseRules (''#'' @ t @ '';'' @ e) = parse_entry [] e"
proof -
  have s: "split_all ((CHR ''#'' # t) @ CHR '';'' # e) '';'' = [CHR ''#'' # t, e]"
    using assms(1,2) by (simp add: split_all_char del: append_Cons)
  have "split_all ((CHR ''#'' # t) @ CHR '';'' # e) [nl] = [(CHR ''#'' # t) @ CHR '';'' # e]"
    using assms(1,2) by (intro split_all_char) auto
  moreover have "parse_entry [] (CHR ''#'' # t) = []"
  proof -
    have "trim (CHR ''#'' # t) default_ws = Some (strip_right default_ws (CHR ''#'' # t))"
      using trim_strip [of "CHR ''#'' # t" default_ws] assms(3) by (simp add: npos_def strip_left_def default_ws_def)
    moreover have "strip_right default_ws (CHR ''#'' # t) = CHR ''#'' # strip_right default_ws t"
      by (simp add: strip_right_def dropWhile_append default_ws_def)
    ultimately show ?thesis
      by (simp add: parse_entry_def trim_ws_def returned_def starts_with_char_def)
  qed
  ultimately show ?thesis using s by (simp add: parseRules_def)
qed

theorem comment_ends_at_semicolon_witness:
  "parseRules ''#off;*=false'' = [\<lparr>rule_text = '''', rule_mode = Contains, rule_level = 0, rule_enable = False\<rparr>]"
proof -
  let ?r = "\<lparr>rule_text = '''', rule_mode = Contains, rule_level = 0, rule_enable = False\<rparr>"
  let ?f = "\<lparr>fl_front = True, fl_text = [], fl_back = True, fl_level = None, fl_enable = False,
    fl_before = [], fl_left = [], fl_right = [], fl_after = []\<rparr>"
  have "entry_ok (Rule ?f)"
    by (simp add: fl_ok_def padding_def fl_pattern_def fl_lhs_def fl_rhs_def level_suffixes_def ends_with_def)
  from parse_entry_rule [OF this, of "[]"] have "parse_entry [] ''*=false'' = [?r]"
    by (simp add: fl_lhs_def fl_rhs_def fl_pattern_def rule_of_def)
  then show ?thesis using comment_ends_at_semicolon [of "''off''" "''*=false''"] by simp
qed

text \<open>
  The default sink drops Trace and Debug, prints Success to \<open>stdout\<close> and Warning and above to
  \<open>stderr\<close>; an Information record, which is above Success, runs into the failing assertion.
\<close>

theorem default_sink:
  "defaultLogCallback (level_num lv) message =
     (case lv of
        Trace \<Rightarrow> Dropped
      | Debug \<Rightarrow> Dropped
      | Success \<Rightarrow> To_stdout (c_str message @ [nl])
      | Information \<Rightarrow> Assertion_failed
      | _ \<Rightarrow> To_stderr (c_str message @ [nl]))"
  by (cases lv) (simp_all add: defaultLogCallback_def)


end
