(* ===== verification/Thunk_Database.thy ===== *)
theory Thunk_Database
  imports Indexed_Store String_Extras
begin

text \<open>
  The thunk database of \<open>src/libs/DLCall/ThunkDatabase.cpp\<close> and
  \<open>include/lorelei/DLCall/ThunkDatabase.h\<close>: plain entries that point into string and list arenas,
  loading from a JSON document, layering of packs and the lookup indexes.  The JSON parser and the
  file contents are parameters.
\<close>

subsection \<open>JSON values\<close>

datatype json =
    JNull | JBool bool | JNumber int | JString string | JArray "json list"
  | JObject "(string \<times> json) list"

type_synonym json_object = "(string \<times> json) list"

definition jsonString :: "json_object \<Rightarrow> string \<Rightarrow> string option" where
  "jsonString obj key =
     (case map_of obj key of
        Some (JString v) \<Rightarrow> if v = [] then None else Some v
      | _ \<Rightarrow> None)"

fun string_item :: "json \<Rightarrow> string list" where
  "string_item (JString s) = (if s = [] then [] else [s])"
| "string_item _ = []"

definition jsonStringArray :: "json_object \<Rightarrow> string \<Rightarrow> string list" where
  "jsonStringArray obj key =
     (case map_of obj key of
        Some (JArray items) \<Rightarrow> concat (map string_item items)
      | _ \<Rightarrow> [])"

subsection \<open>Entries and arenas\<close>

text \<open>A \<open>const char *\<close> is an index into the string arena, a list pointer one into the list arena.\<close>

record CForwardThunkInfo =
  f_name :: nat
  f_alias :: nat
  f_aliasCount :: nat
  f_guestThunk :: nat
  f_hostThunk :: nat
  f_hostLibrary :: nat

record CReversedThunkInfo =
  r_name :: nat
  r_alias :: nat
  r_aliasCount :: nat
  r_fileName :: nat
  r_thunks :: nat
  r_thunksCount :: nat

record thunk_db =
  m_stringArena :: "string list"
  m_listArena :: "nat list list"
  m_forwardThunks :: "CForwardThunkInfo list"
  m_reversedThunks :: "CReversedThunkInfo list"
  m_forwardThunkMap :: "string \<Rightarrow> nat option"
  m_reversedThunkMap :: "string \<Rightarrow> nat option"
  m_forwardIndex :: "string \<Rightarrow> nat option"

definition db_empty :: thunk_db where
  "db_empty =
     \<lparr>m_stringArena = [], m_listArena = [], m_forwardThunks = [], m_reversedThunks = [],
      m_forwardThunkMap = Map.empty, m_reversedThunkMap = Map.empty, m_forwardIndex = Map.empty\<rparr>"

definition intern :: "string \<Rightarrow> thunk_db \<Rightarrow> nat \<times> thunk_db" where
  "intern s db = (length (m_stringArena db), db\<lparr>m_stringArena := m_stringArena db @ [s]\<rparr>)"

fun intern_all :: "string list \<Rightarrow> thunk_db \<Rightarrow> nat list \<times> thunk_db" where
  "intern_all [] db = ([], db)"
| "intern_all (s # ss) db =
     (let (p, db) = intern s db; (ps, db) = intern_all ss db in (p # ps, db))"

text \<open>The list is emplaced empty and filled in place; its address and its size are returned.\<close>

definition intern_list :: "string list \<Rightarrow> thunk_db \<Rightarrow> nat \<times> nat \<times> thunk_db" where
  "intern_list strs db =
     (let at = length (m_listArena db);
          (ps, db) = intern_all strs db
      in (at, length ps, db\<lparr>m_listArena := m_listArena db @ [ps]\<rparr>))"

text \<open>The strings of one forward entry, before interning.\<close>

record forward_desc =
  d_name :: string
  d_alias :: "string list"
  d_guest :: string
  d_host :: string
  d_library :: string

definition intern_forward :: "forward_desc \<Rightarrow> thunk_db \<Rightarrow> CForwardThunkInfo \<times> thunk_db" where
  "intern_forward d db =
     (let (n, db) = intern (d_name d) db;
          (a, c, db) = intern_list (d_alias d) db;
          (g, db) = intern (d_guest d) db;
          (h, db) = intern (d_host d) db;
          (l, db) = intern (d_library d) db
      in (\<lparr>f_name = n, f_alias = a, f_aliasCount = c, f_guestThunk = g, f_hostThunk = h, f_hostLibrary = l\<rparr>, db))"

definition upsertForward :: "bool \<Rightarrow> forward_desc \<Rightarrow> thunk_db \<Rightarrow> thunk_db" where
  "upsertForward overwrite d db =
     (case m_forwardIndex db (d_name d) of
        Some i \<Rightarrow>
          if \<not> overwrite then db
          else (let (info, db) = intern_forward d db
                in db\<lparr>m_forwardThunks := (m_forwardThunks db)[i := info]\<rparr>)
      | None \<Rightarrow>
          (let (info, db) = intern_forward d db
           in db\<lparr>m_forwardIndex := (m_forwardIndex db)(d_name d \<mapsto> length (m_forwardThunks db)),
                 m_forwardThunks := m_forwardThunks db @ [info]\<rparr>))"

subsection \<open>Loading a document\<close>

text \<open>
  A path field: absent gives the default (\<open>None\<close> when there is none), a non-empty string is
  expanded, anything else skips the entry.
\<close>

definition path_field ::
    "(string \<Rightarrow> string) \<Rightarrow> json_object \<Rightarrow> string \<Rightarrow> string option \<Rightarrow> string option" where
  "path_field resolvePath obj key dflt =
     (if map_of obj key = None then dflt else map_option resolvePath (jsonString obj key))"

definition dir_default :: "string \<Rightarrow> string \<Rightarrow> string option" where
  "dir_default dir rest = (if dir = [] then None else Some (dir @ ''/'' @ rest))"

text \<open>One element of \<open>forwardThunks\<close>: the entry it describes, if any.\<close>

definition forward_item :: "(string \<Rightarrow> string option) \<Rightarrow> json \<Rightarrow> forward_desc option" where
  "forward_item vars item =
     (let resolvePath = varexp_map vars;
          gtl = (case vars ''GTL_DIR'' of Some d \<Rightarrow> d | None \<Rightarrow> []);
          htl = (case vars ''HTL_DIR'' of Some d \<Rightarrow> d | None \<Rightarrow> []);
          allHasDefault = (gtl \<noteq> [] \<and> htl \<noteq> [])
      in case item of
        JString name \<Rightarrow>
          if name \<noteq> [] \<and> allHasDefault
          then Some \<lparr>d_name = name, d_alias = [], d_guest = gtl @ ''/'' @ name @ ''.so'',
                     d_host = htl @ ''/'' @ name @ ''_HTL.so'', d_library = name @ ''.so''\<rparr>
          else None
      | JObject obj \<Rightarrow>
          (case jsonString obj ''name'' of
             None \<Rightarrow> None
           | Some name \<Rightarrow>
          (case path_field resolvePath obj ''guestThunk'' (dir_default gtl (name @ ''.so'')) of
             None \<Rightarrow> None
           | Some guestThunk \<Rightarrow>
          (case path_field resolvePath obj ''hostThunk'' (dir_default htl (name @ ''_HTL.so'')) of
             None \<Rightarrow> None
           | Some hostThunk \<Rightarrow>
          (case path_field resolvePath obj ''hostLibrary'' (Some (name @ ''.so'')) of
             None \<Rightarrow> None
           | Some hostLibrary \<Rightarrow>
               Some \<lparr>d_name = name, d_alias = jsonStringArray obj ''alias'', d_guest = guestThunk,
                      d_host = hostThunk, d_library = hostLibrary\<rparr>))))
      | _ \<Rightarrow> None)"

definition load_forward :: "(string \<Rightarrow> string option) \<Rightarrow> bool \<Rightarrow> json list \<Rightarrow> thunk_db \<Rightarrow> thunk_db" where
  "load_forward vars overwrite items db =
     foldl (\<lambda>db item. case forward_item vars item of
              None \<Rightarrow> db
            | Some d \<Rightarrow> upsertForward overwrite d db) db items"

definition load_reversed_item :: "bool \<Rightarrow> thunk_db \<Rightarrow> json \<Rightarrow> thunk_db" where
  "load_reversed_item overwrite db item =
     (case item of
        JObject obj \<Rightarrow>
          (case jsonString obj ''name'' of
             None \<Rightarrow> db
           | Some name \<Rightarrow>
          (case jsonString obj ''fileName'' of
             None \<Rightarrow> db
           | Some fileName \<Rightarrow>
               if \<not> overwrite \<and> m_reversedThunkMap db name \<noteq> None then db
               else
                 (let (n, db) = intern name db;
                      (a, ac, db) = intern_list (jsonStringArray obj ''alias'') db;
                      (f, db) = intern fileName db;
                      (t, tc, db) = intern_list (jsonStringArray obj ''thunks'') db
                  in db\<lparr>m_reversedThunks := m_reversedThunks db @
                       [\<lparr>r_name = n, r_alias = a, r_aliasCount = ac, r_fileName = f,
                         r_thunks = t, r_thunksCount = tc\<rparr>]\<rparr>)))
      | _ \<Rightarrow> db)"

definition array_items :: "json_object \<Rightarrow> string \<Rightarrow> json list" where
  "array_items obj key = (case map_of obj key of Some (JArray items) \<Rightarrow> items | _ \<Rightarrow> [])"

text \<open>
  \<open>contents\<close> is the text of the file (\<open>None\<close>: it cannot be opened) and \<open>parse\<close> the JSON parser
  (\<open>None\<close>: a parse error).
\<close>

definition loadJsonDatabase ::
    "(string \<Rightarrow> json option) \<Rightarrow> string option \<Rightarrow> (string \<Rightarrow> string option) \<Rightarrow> bool \<Rightarrow> thunk_db \<Rightarrow> bool \<times> thunk_db" where
  "loadJsonDatabase parse contents vars overwrite db =
     (case contents of
        None \<Rightarrow> (False, db)
      | Some json_text \<Rightarrow>
          (case parse json_text of
             Some (JObject docObj) \<Rightarrow>
               (let db = load_forward vars overwrite (array_items docObj ''forwardThunks'') db;
                    db = foldl (load_reversed_item overwrite) db (array_items docObj ''reversedThunks'')
                in (True, db))
           | _ \<Rightarrow> (False, db)))"

subsection \<open>Indexes and lookup\<close>

text \<open>Reading an entry's pointers; a \<open>const char *\<close> becomes a \<open>std::string\<close> up to its NUL.\<close>

definition c_string :: "thunk_db \<Rightarrow> nat \<Rightarrow> string" where
  "c_string db p = c_str (m_stringArena db ! p)"

definition c_strings :: "thunk_db \<Rightarrow> nat \<Rightarrow> nat \<Rightarrow> string list" where
  "c_strings db lp n = map (\<lambda>j. c_string db (m_listArena db ! lp ! j)) [0..<n]"

definition forward_keys :: "thunk_db \<Rightarrow> CForwardThunkInfo \<Rightarrow> string list" where
  "forward_keys db e = c_string db (f_name e) # c_strings db (f_alias e) (f_aliasCount e)"

definition reversed_keys :: "thunk_db \<Rightarrow> CReversedThunkInfo \<Rightarrow> string list" where
  "reversed_keys db e = c_string db (r_name e) # c_strings db (r_alias e) (r_aliasCount e)"

text \<open>\<open>index.emplace(key, i)\<close> keeps an existing entry.\<close>

definition emplace :: "nat \<Rightarrow> (string \<Rightarrow> nat option) \<Rightarrow> string \<Rightarrow> string \<Rightarrow> nat option" where
  "emplace i index key = (if index key = None then index(key \<mapsto> i) else index)"

definition indexEntries :: "('e \<Rightarrow> string list) \<Rightarrow> 'e list \<Rightarrow> string \<Rightarrow> nat option" where
  "indexEntries keys items =
     foldl (\<lambda>index i. foldl (emplace i) index (keys (items ! i))) Map.empty [0..<length items]"

definition rebuildIndexes :: "thunk_db \<Rightarrow> thunk_db" where
  "rebuildIndexes db =
     db\<lparr>m_forwardThunkMap := indexEntries (forward_keys db) (m_forwardThunks db),
        m_reversedThunkMap := indexEntries (reversed_keys db) (m_reversedThunks db)\<rparr>"

definition db_load ::
    "(string \<Rightarrow> json option) \<Rightarrow> string option \<Rightarrow> (string \<Rightarrow> string option) \<Rightarrow> thunk_db \<Rightarrow> bool \<times> thunk_db" where
  "db_load parse contents vars db =
     (let (jsonOk, db) = loadJsonDatabase parse contents vars True db_empty
      in (jsonOk, rebuildIndexes db))"

definition loadPack ::
    "(string \<Rightarrow> json option) \<Rightarrow> string option \<Rightarrow> string \<Rightarrow> string \<Rightarrow> (string \<Rightarrow> string option) \<Rightarrow> thunk_db \<Rightarrow> bool \<times> thunk_db" where
  "loadPack parse contents guestThunkDir hostThunkDir vars db =
     (let packVars = vars(''GTL_DIR'' \<mapsto> guestThunkDir, ''HTL_DIR'' \<mapsto> hostThunkDir);
          (jsonOk, db) = loadJsonDatabase parse contents packVars False db
      in (jsonOk, rebuildIndexes db))"

definition db_lookup :: "'e list \<Rightarrow> (string \<Rightarrow> nat option) \<Rightarrow> string \<Rightarrow> 'e option" where
  "db_lookup items index name = (case index name of None \<Rightarrow> None | Some i \<Rightarrow> Some (items ! i))"

definition forwardThunk :: "thunk_db \<Rightarrow> string \<Rightarrow> CForwardThunkInfo option" where
  "forwardThunk db name = db_lookup (m_forwardThunks db) (m_forwardThunkMap db) name"

definition reversedThunk :: "thunk_db \<Rightarrow> string \<Rightarrow> CReversedThunkInfo option" where
  "reversedThunk db name = db_lookup (m_reversedThunks db) (m_reversedThunkMap db) name"

subsection \<open>Arenas only grow\<close>

definition extends :: "thunk_db \<Rightarrow> thunk_db \<Rightarrow> bool" where
  "extends db db' \<longleftrightarrow>
     (\<exists>ss. m_stringArena db' = m_stringArena db @ ss) \<and> (\<exists>ls. m_listArena db' = m_listArena db @ ls)"

definition ptr_ok :: "thunk_db \<Rightarrow> nat \<Rightarrow> bool" where
  "ptr_ok db p \<longleftrightarrow> p < length (m_stringArena db)"

definition list_ok :: "thunk_db \<Rightarrow> nat \<Rightarrow> nat \<Rightarrow> bool" where
  "list_ok db lp n \<longleftrightarrow>
     lp < length (m_listArena db) \<and> length (m_listArena db ! lp) = n \<and>
     list_all (ptr_ok db) (m_listArena db ! lp)"

definition deref :: "thunk_db \<Rightarrow> nat \<Rightarrow> string" where
  "deref db p = m_stringArena db ! p"

definition deref_list :: "thunk_db \<Rightarrow> nat \<Rightarrow> nat \<Rightarrow> string list" where
  "deref_list db lp n = map (\<lambda>j. deref db (m_listArena db ! lp ! j)) [0..<n]"

lemma extends_refl [simp]: "extends db db"
  by (simp add: extends_def)

lemma extends_trans: "extends a b \<Longrightarrow> extends b c \<Longrightarrow> extends a c"
  by (auto simp: extends_def)

lemma extends_ptr: "extends db db' \<Longrightarrow> ptr_ok db p \<Longrightarrow> ptr_ok db' p \<and> deref db' p = deref db p"
  by (auto simp: extends_def ptr_ok_def deref_def nth_append)

lemma extends_list:
  assumes "extends db db'" "list_ok db lp n"
  shows "list_ok db' lp n \<and> deref_list db' lp n = deref_list db lp n"
proof -
  have same: "m_listArena db' ! lp = m_listArena db ! lp" "lp < length (m_listArena db')"
    using assms by (auto simp: extends_def list_ok_def nth_append)
  have "\<forall>p \<in> set (m_listArena db ! lp). ptr_ok db' p \<and> deref db' p = deref db p"
    using assms extends_ptr [OF assms(1)] by (auto simp: list_ok_def list_all_iff)
  with same assms(2) show ?thesis
    by (auto simp: list_ok_def deref_list_def list_all_iff)
qed

lemma intern_spec:
  assumes "intern s db = (p, db')"
  shows "extends db db' \<and> ptr_ok db' p \<and> deref db' p = s \<and> m_listArena db' = m_listArena db \<and>
    m_forwardThunks db' = m_forwardThunks db \<and> m_reversedThunks db' = m_reversedThunks db \<and>
    m_forwardIndex db' = m_forwardIndex db \<and> m_forwardThunkMap db' = m_forwardThunkMap db \<and>
    m_reversedThunkMap db' = m_reversedThunkMap db"
  using assms by (auto simp: intern_def extends_def ptr_ok_def deref_def)

lemma intern_all_spec:
  assumes "intern_all ss db = (ps, db')"
  shows "extends db db' \<and> list_all (ptr_ok db') ps \<and> map (deref db') ps = ss \<and>
    m_listArena db' = m_listArena db \<and>
    m_forwardThunks db' = m_forwardThunks db \<and> m_reversedThunks db' = m_reversedThunks db \<and>
    m_forwardIndex db' = m_forwardIndex db \<and> m_forwardThunkMap db' = m_forwardThunkMap db \<and>
    m_reversedThunkMap db' = m_reversedThunkMap db"
  using assms
proof (induction ss arbitrary: db ps)
  case (Cons s ss)
  obtain p db1 where i: "intern s db = (p, db1)" by fastforce
  obtain qs where r: "intern_all ss db1 = (qs, db')" "ps = p # qs"
    using Cons.prems i by (auto simp: Let_def split: prod.splits)
  note h = intern_spec [OF i] and t = Cons.IH [OF r(1)]
  have "ptr_ok db' p \<and> deref db' p = s" using h t extends_ptr [of db1 db' p] by auto
  then show ?case using h t r(2) extends_trans by auto
qed simp

lemma list_arena_only [simp]:
  "ptr_ok (db\<lparr>m_listArena := x\<rparr>) = ptr_ok db" "deref (db\<lparr>m_listArena := x\<rparr>) = deref db"
  by (simp_all add: ptr_ok_def deref_def fun_eq_iff)

lemma intern_list_spec:
  assumes "intern_list ss db = (lp, n, db')"
  shows "extends db db' \<and> list_ok db' lp n \<and> deref_list db' lp n = ss \<and>
    m_forwardThunks db' = m_forwardThunks db \<and> m_reversedThunks db' = m_reversedThunks db \<and>
    m_forwardIndex db' = m_forwardIndex db \<and> m_forwardThunkMap db' = m_forwardThunkMap db \<and>
    m_reversedThunkMap db' = m_reversedThunkMap db"
proof -
  obtain ps db1 where i: "intern_all ss db = (ps, db1)" by fastforce
  then have e: "lp = length (m_listArena db)" "n = length ps" "db' = db1\<lparr>m_listArena := m_listArena db1 @ [ps]\<rparr>"
    using assms by (auto simp: intern_list_def Let_def)
  note s = intern_all_spec [OF i]
  have "map (\<lambda>j. deref db1 (ps ! j)) [0..<n] = map (deref db1) ps"
    unfolding e(2) by (rule nth_equalityI) simp_all
  then show ?thesis
    using s e by (auto simp: extends_def list_ok_def deref_list_def)
qed

subsection \<open>Entries and the forward store\<close>

definition forward_ok :: "thunk_db \<Rightarrow> CForwardThunkInfo \<Rightarrow> bool" where
  "forward_ok db e \<longleftrightarrow>
     ptr_ok db (f_name e) \<and> list_ok db (f_alias e) (f_aliasCount e) \<and> ptr_ok db (f_guestThunk e) \<and>
     ptr_ok db (f_hostThunk e) \<and> ptr_ok db (f_hostLibrary e)"

definition forward_of :: "thunk_db \<Rightarrow> CForwardThunkInfo \<Rightarrow> forward_desc" where
  "forward_of db e =
     \<lparr>d_name = deref db (f_name e), d_alias = deref_list db (f_alias e) (f_aliasCount e),
      d_guest = deref db (f_guestThunk e), d_host = deref db (f_hostThunk e),
      d_library = deref db (f_hostLibrary e)\<rparr>"

record reversed_desc =
  e_name :: string
  e_alias :: "string list"
  e_file :: string
  e_thunks :: "string list"

definition reversed_ok :: "thunk_db \<Rightarrow> CReversedThunkInfo \<Rightarrow> bool" where
  "reversed_ok db e \<longleftrightarrow>
     ptr_ok db (r_name e) \<and> list_ok db (r_alias e) (r_aliasCount e) \<and> ptr_ok db (r_fileName e) \<and>
     list_ok db (r_thunks e) (r_thunksCount e)"

definition reversed_of :: "thunk_db \<Rightarrow> CReversedThunkInfo \<Rightarrow> reversed_desc" where
  "reversed_of db e =
     \<lparr>e_name = deref db (r_name e), e_alias = deref_list db (r_alias e) (r_aliasCount e),
      e_file = deref db (r_fileName e), e_thunks = deref_list db (r_thunks e) (r_thunksCount e)\<rparr>"

definition pointers_ok :: "thunk_db \<Rightarrow> bool" where
  "pointers_ok db \<longleftrightarrow> list_all (forward_ok db) (m_forwardThunks db) \<and> list_all (reversed_ok db) (m_reversedThunks db)"

lemma extends_forward:
  "extends db db' \<Longrightarrow> forward_ok db e \<Longrightarrow> forward_ok db' e \<and> forward_of db' e = forward_of db e"
  using extends_ptr [of db db'] extends_list [of db db'] by (simp add: forward_ok_def forward_of_def)

lemma extends_reversed:
  "extends db db' \<Longrightarrow> reversed_ok db e \<Longrightarrow> reversed_ok db' e \<and> reversed_of db' e = reversed_of db e"
  using extends_ptr [of db db'] extends_list [of db db'] by (simp add: reversed_ok_def reversed_of_def)

lemma intern_forward_spec:
  assumes "intern_forward d db = (info, db')"
  shows "extends db db' \<and> forward_ok db' info \<and> forward_of db' info = d \<and>
    m_forwardThunks db' = m_forwardThunks db \<and> m_reversedThunks db' = m_reversedThunks db \<and>
    m_forwardIndex db' = m_forwardIndex db \<and> m_forwardThunkMap db' = m_forwardThunkMap db \<and>
    m_reversedThunkMap db' = m_reversedThunkMap db"
proof -
  obtain n db1 where 1: "intern (d_name d) db = (n, db1)" by fastforce
  obtain a c db2 where 2: "intern_list (d_alias d) db1 = (a, c, db2)" using prod_cases3 by blast
  obtain g db3 where 3: "intern (d_guest d) db2 = (g, db3)" by fastforce
  obtain h db4 where 4: "intern (d_host d) db3 = (h, db4)" by fastforce
  obtain l db5 where 5: "intern (d_library d) db4 = (l, db5)" by fastforce
  have e: "info = \<lparr>f_name = n, f_alias = a, f_aliasCount = c, f_guestThunk = g, f_hostThunk = h, f_hostLibrary = l\<rparr>"
    "db' = db5"
    using assms 1 2 3 4 5 by (simp_all add: intern_forward_def)
  note s1 = intern_spec [OF 1] and s2 = intern_list_spec [OF 2] and s3 = intern_spec [OF 3]
    and s4 = intern_spec [OF 4] and s5 = intern_spec [OF 5]
  have x4: "extends db4 db5" and x3: "extends db3 db5" and x2: "extends db2 db5" and x1: "extends db1 db5" and x0: "extends db db5"
    using s1 s2 s3 s4 s5 extends_trans by meson+
  show ?thesis
    using extends_ptr [OF x1, of n] extends_list [OF x2, of a c] extends_ptr [OF x3, of g] extends_ptr [OF x4, of h]
      s1 s2 s3 s4 s5 x0
    by (simp add: e forward_ok_def forward_of_def)
qed


text \<open>
  The forward entries, read through their pointers, form an indexed store under overwriting
  upserts.
\<close>

definition forward_descs :: "thunk_db \<Rightarrow> forward_desc list" where
  "forward_descs db = map (forward_of db) (m_forwardThunks db)"

lemma pointers_ok_extends:
  assumes "extends db db'" "pointers_ok db" "m_forwardThunks db' = m_forwardThunks db" "m_reversedThunks db' = m_reversedThunks db"
  shows "pointers_ok db' \<and> forward_descs db' = forward_descs db \<and>
    map (reversed_of db') (m_reversedThunks db') = map (reversed_of db) (m_reversedThunks db)"
  using assms extends_forward [OF assms(1)] extends_reversed [OF assms(1)]
  by (auto simp: pointers_ok_def list_all_iff forward_descs_def)

lemma upsert_new:
  assumes ok: "pointers_ok db" and n: "m_forwardIndex db (d_name d) = None"
  shows "pointers_ok (upsertForward ov d db) \<and>
    forward_descs (upsertForward ov d db) = forward_descs db @ [d] \<and>
    m_forwardIndex (upsertForward ov d db) = (m_forwardIndex db)(d_name d \<mapsto> length (forward_descs db))"
proof -
  obtain info db1 where i: "intern_forward d db = (info, db1)" by fastforce
  note s = intern_forward_spec [OF i]
  from s ok pointers_ok_extends [of db db1]
  have p: "pointers_ok db1" "forward_descs db1 = forward_descs db" by simp_all
  let ?db2 = "db1\<lparr>m_forwardIndex := (m_forwardIndex db1)(d_name d \<mapsto> length (m_forwardThunks db1)),
      m_forwardThunks := m_forwardThunks db1 @ [info]\<rparr>"
  have up: "upsertForward ov d db = ?db2" using n i s by (simp add: upsertForward_def)
  have e: "extends db1 ?db2" by (simp add: extends_def)
  have "forward_ok ?db2 = forward_ok db1" "reversed_ok ?db2 = reversed_ok db1" "forward_of ?db2 = forward_of db1"
    by (simp_all add: fun_eq_iff forward_ok_def reversed_ok_def forward_of_def ptr_ok_def list_ok_def
        deref_def deref_list_def list_all_iff)
  then show ?thesis
    using s p up by (simp add: pointers_ok_def forward_descs_def)
qed

lemma upsert_known:
  assumes ok: "pointers_ok db" and n: "m_forwardIndex db (d_name d) = Some j"
  shows "pointers_ok (upsertForward True d db) \<and>
    forward_descs (upsertForward True d db) = (forward_descs db)[j := d] \<and>
    m_forwardIndex (upsertForward True d db) = m_forwardIndex db"
proof -
  obtain info db1 where i: "intern_forward d db = (info, db1)" by fastforce
  note s = intern_forward_spec [OF i]
  from s ok pointers_ok_extends [of db db1]
  have p: "pointers_ok db1" "forward_descs db1 = forward_descs db" by simp_all
  let ?db2 = "db1\<lparr>m_forwardThunks := (m_forwardThunks db1)[j := info]\<rparr>"
  have up: "upsertForward True d db = ?db2" using n i s by (simp add: upsertForward_def)
  have "forward_ok ?db2 = forward_ok db1" "reversed_ok ?db2 = reversed_ok db1" "forward_of ?db2 = forward_of db1"
    by (simp_all add: fun_eq_iff forward_ok_def reversed_ok_def forward_of_def ptr_ok_def list_ok_def
        deref_def deref_list_def list_all_iff)
  moreover have "list_all P xs \<Longrightarrow> P x \<Longrightarrow> list_all P (xs[k := x])" for P xs k and x :: CForwardThunkInfo
    by (auto simp: list_all_iff dest: set_update_subset_insert [THEN subsetD])
  ultimately have "pointers_ok ?db2" "forward_descs ?db2 = (forward_descs db1)[j := d]"
    using s p(1) by (simp_all add: pointers_ok_def forward_descs_def map_update)
  with s p(2) up show ?thesis by simp
qed

interpretation fwd: indexed_store d_name forward_descs m_forwardIndex "upsertForward True" pointers_ok
proof unfold_locales
  fix db d
  show "pointers_ok db \<Longrightarrow> pointers_ok (upsertForward True d db)"
    using upsert_new upsert_known by (cases "m_forwardIndex db (d_name d)") blast+
qed (use upsert_new upsert_known in blast)+

lemma upsert_keep: "m_forwardIndex db (d_name d) = Some j \<Longrightarrow> upsertForward False d db = db"
  by (simp add: upsertForward_def)

subsection \<open>The invariant and what a pack may change\<close>

definition db_ok :: "thunk_db \<Rightarrow> bool" where
  "db_ok db \<longleftrightarrow> pointers_ok db \<and> index_ok d_name (forward_descs db) (m_forwardIndex db)"

text \<open>\<open>db'\<close> has the entries of \<open>db\<close> at their places, reading the same, and perhaps more behind.\<close>

definition layered :: "thunk_db \<Rightarrow> thunk_db \<Rightarrow> bool" where
  "layered db db' \<longleftrightarrow>
     extends db db' \<and>
     (\<exists>es. m_forwardThunks db' = m_forwardThunks db @ es) \<and>
     (\<exists>es. m_reversedThunks db' = m_reversedThunks db @ es)"

lemma layered_refl [simp]: "layered db db"
  by (simp add: layered_def)

lemma layered_trans: "layered a b \<Longrightarrow> layered b c \<Longrightarrow> layered a c"
  using extends_trans by (fastforce simp: layered_def)

lemma upsert_step:
  assumes "db_ok db"
  shows "db_ok (upsertForward ov d db)" and "\<not> ov \<Longrightarrow> layered db (upsertForward ov d db)"
proof -
  show "db_ok (upsertForward ov d db)"
  proof (cases "m_forwardIndex db (d_name d)")
    case None
    with assms upsert_new [of db d ov] show ?thesis
      by (simp add: db_ok_def index_ok_append)
  next
    case (Some j)
    with assms fwd.put_ok [of db d] fwd.put_valid [of db d] upsert_keep [OF Some] show ?thesis
      by (cases ov) (simp_all add: db_ok_def)
  qed
  assume nov: "\<not> ov"
  show "layered db (upsertForward ov d db)"
  proof (cases "m_forwardIndex db (d_name d)")
    case None
    obtain info db1 where i: "intern_forward d db = (info, db1)" by fastforce
    with intern_forward_spec [OF i] None show ?thesis
      by (auto simp: upsertForward_def layered_def extends_def)
  qed (use nov in \<open>simp add: upsertForward_def\<close>)
qed

lemma upsert_reversed_same:
  "m_reversedThunks (upsertForward ov d db) = m_reversedThunks db \<and>
   m_reversedThunkMap (upsertForward ov d db) = m_reversedThunkMap db"
proof -
  obtain info db1 where i: "intern_forward d db = (info, db1)" by fastforce
  with intern_forward_spec [OF i] show ?thesis by (simp add: upsertForward_def split: option.split)
qed


lemma load_forward_step:
  "db_ok db \<Longrightarrow> db_ok (load_forward vars ov items db) \<and>
     (\<not> ov \<longrightarrow> layered db (load_forward vars ov items db)) \<and>
     m_reversedThunks (load_forward vars ov items db) = m_reversedThunks db"
proof (induction items arbitrary: db)
  case (Cons item items)
  let ?db1 = "case forward_item vars item of None \<Rightarrow> db | Some d \<Rightarrow> upsertForward ov d db"
  have l: "load_forward vars ov (item # items) db = load_forward vars ov items ?db1"
    by (simp add: load_forward_def)
  have s: "db_ok ?db1" "\<not> ov \<longrightarrow> layered db ?db1" "m_reversedThunks ?db1 = m_reversedThunks db"
    using upsert_step [OF Cons.prems] upsert_reversed_same Cons.prems
    by (auto split: option.split)
  from Cons.IH [OF s(1)] s(2,3) show ?case unfolding l by (auto intro: layered_trans)
qed (simp add: load_forward_def)

text \<open>What one element of \<open>reversedThunks\<close> appends.\<close>

definition reversed_item :: "json \<Rightarrow> reversed_desc option" where
  "reversed_item item =
     (case item of
        JObject obj \<Rightarrow>
          (case (jsonString obj ''name'', jsonString obj ''fileName'') of
             (Some name, Some fileName) \<Rightarrow>
               Some \<lparr>e_name = name, e_alias = jsonStringArray obj ''alias'', e_file = fileName,
                      e_thunks = jsonStringArray obj ''thunks''\<rparr>
           | _ \<Rightarrow> None)
      | _ \<Rightarrow> None)"

definition reversed_descs :: "thunk_db \<Rightarrow> reversed_desc list" where
  "reversed_descs db = map (reversed_of db) (m_reversedThunks db)"

lemma load_reversed_item_cases:
  fixes ov :: bool and item :: json
  assumes ok: "db_ok db"
  defines "db' \<equiv> load_reversed_item ov db item"
  shows "db_ok db' \<and> layered db db' \<and> m_reversedThunkMap db' = m_reversedThunkMap db \<and>
    m_forwardThunks db' = m_forwardThunks db \<and> m_forwardIndex db' = m_forwardIndex db \<and>
    reversed_descs db' = reversed_descs db @
      (case reversed_item item of
         None \<Rightarrow> []
       | Some d \<Rightarrow> if \<not> ov \<and> m_reversedThunkMap db (e_name d) \<noteq> None then [] else [d])"
proof (cases "reversed_item item")
  case None
  then have "db' = db"
    by (auto simp: db'_def load_reversed_item_def reversed_item_def split: json.split option.splits)
  with None ok show ?thesis by simp
next
  case (Some d)
  then obtain obj name fileName where item: "item = JObject obj" "jsonString obj ''name'' = Some name"
      "jsonString obj ''fileName'' = Some fileName"
    and d: "d = \<lparr>e_name = name, e_alias = jsonStringArray obj ''alias'', e_file = fileName,
                 e_thunks = jsonStringArray obj ''thunks''\<rparr>"
    by (auto simp: reversed_item_def split: json.splits option.splits)
  show ?thesis
  proof (cases "\<not> ov \<and> m_reversedThunkMap db name \<noteq> None")
    case True
    then have "db' = db" by (simp add: db'_def load_reversed_item_def item)
    with True Some d ok show ?thesis by simp
  next
    case False
    obtain n db1 where 1: "intern name db = (n, db1)" by fastforce
    obtain a ac db2 where 2: "intern_list (jsonStringArray obj ''alias'') db1 = (a, ac, db2)" using prod_cases3 by blast
    obtain f db3 where 3: "intern fileName db2 = (f, db3)" by fastforce
    obtain t tc db4 where 4: "intern_list (jsonStringArray obj ''thunks'') db3 = (t, tc, db4)" using prod_cases3 by blast
    define info where "info = \<lparr>r_name = n, r_alias = a, r_aliasCount = ac, r_fileName = f, r_thunks = t, r_thunksCount = tc\<rparr>"
    have db': "db' = db4\<lparr>m_reversedThunks := m_reversedThunks db4 @ [info]\<rparr>"
      using False 1 2 3 4 by (auto simp: db'_def load_reversed_item_def item info_def)
    note s1 = intern_spec [OF 1] and s2 = intern_list_spec [OF 2] and s3 = intern_spec [OF 3] and s4 = intern_list_spec [OF 4]
    have x3: "extends db3 db4" and x2: "extends db2 db4" and x1: "extends db1 db4" and x0: "extends db db4"
      using s1 s2 s3 s4 extends_trans by meson+
    have info: "reversed_ok db4 info \<and> reversed_of db4 info = d"
      using extends_ptr [OF x1, of n] extends_list [OF x2, of a ac] extends_ptr [OF x3, of f] s1 s2 s3 s4
      by (simp add: info_def reversed_ok_def reversed_of_def d)
    have p: "pointers_ok db4 \<and> forward_descs db4 = forward_descs db \<and> reversed_descs db4 = reversed_descs db"
      using pointers_ok_extends [OF x0] ok s1 s2 s3 s4 by (simp add: db_ok_def reversed_descs_def)
    have fs: "forward_ok db' = forward_ok db4" "reversed_ok db' = reversed_ok db4"
      "forward_of db' = forward_of db4" "reversed_of db' = reversed_of db4"
      by (simp_all add: db' fun_eq_iff forward_ok_def reversed_ok_def forward_of_def reversed_of_def ptr_ok_def
          list_ok_def deref_def deref_list_def list_all_iff)
    have mem: "m_forwardThunks db' = m_forwardThunks db4" "m_forwardIndex db' = m_forwardIndex db"
      "m_reversedThunks db' = m_reversedThunks db4 @ [info]"
      using s1 s2 s3 s4 by (simp_all add: db')
    have "forward_descs db' = forward_descs db" using p by (simp add: forward_descs_def fs mem(1))
    moreover have "pointers_ok db'" using p info by (simp add: pointers_ok_def fs mem)
    ultimately have "db_ok db'" using ok mem(2) by (simp add: db_ok_def)
    moreover have "layered db db'"
      using x0 s1 s2 s3 s4 by (simp add: db' layered_def extends_def)
    moreover have "m_reversedThunkMap db' = m_reversedThunkMap db" using s1 s2 s3 s4 by (simp add: db')
    moreover have "reversed_descs db' = reversed_descs db @ [d]"
      using p fs info s1 s2 s3 s4 by (simp add: reversed_descs_def db')
    moreover have "e_name d = name" by (simp add: d)
    moreover have "m_forwardThunks db' = m_forwardThunks db" using mem(1) s1 s2 s3 s4 by simp
    ultimately show ?thesis using Some False mem(2) by auto
  qed
qed

lemma load_reversed_step:
  fixes ov :: bool and items :: "json list"
  assumes "db_ok db"
  defines "db' \<equiv> foldl (load_reversed_item ov) db items"
  shows "db_ok db' \<and> layered db db' \<and> m_reversedThunkMap db' = m_reversedThunkMap db \<and>
    m_forwardThunks db' = m_forwardThunks db \<and> m_forwardIndex db' = m_forwardIndex db \<and>
    reversed_descs db' = reversed_descs db @
      filter (\<lambda>d. ov \<or> m_reversedThunkMap db (e_name d) = None) (List.map_filter reversed_item items)"
  using assms(1) unfolding db'_def
proof (induction items arbitrary: db)
  case (Cons item items)
  note s = load_reversed_item_cases [OF Cons.prems, of ov item]
  from Cons.IH [of "load_reversed_item ov db item"] s show ?case
    by (auto intro: layered_trans split: option.split)
qed simp


subsection \<open>What a lookup finds\<close>

lemma foldl_emplace:
  "foldl (emplace i) m ks k = (if m k \<noteq> None then m k else if k \<in> set ks then Some i else None)"
  by (induction ks arbitrary: m) (auto simp: emplace_def)

lemma indexEntries_find:
  "indexEntries keys items k = List.find (\<lambda>i. k \<in> set (keys (items ! i))) [0..<length items]"
proof -
  have "foldl (\<lambda>index i. foldl (emplace i) index (keys (items ! i))) m is k =
      (if m k \<noteq> None then m k else List.find (\<lambda>i. k \<in> set (keys (items ! i))) is)" for m "is"
    by (induction "is" arbitrary: m) (auto simp: foldl_emplace)
  then show ?thesis by (simp add: indexEntries_def)
qed

lemma find_index_map:
  "map_option (\<lambda>i. f (items ! i)) (List.find (\<lambda>i. P (f (items ! i))) [0..<length items]) =
     List.find P (map f items)"
proof -
  have "map f items = map (\<lambda>i. f (items ! i)) [0..<length items]" by (rule nth_equalityI) simp_all
  then show ?thesis by (simp only: find_map)
qed

definition forward_names :: "forward_desc \<Rightarrow> string list" where
  "forward_names d = map c_str (d_name d # d_alias d)"

definition reversed_names :: "reversed_desc \<Rightarrow> string list" where
  "reversed_names d = map c_str (e_name d # e_alias d)"

lemma keys_names:
  "forward_keys db e = forward_names (forward_of db e)"
  "reversed_keys db r = reversed_names (reversed_of db r)"
  by (simp_all add: forward_keys_def forward_names_def forward_of_def reversed_keys_def reversed_names_def
      reversed_of_def c_string_def c_strings_def deref_def deref_list_def)

definition indexed :: "thunk_db \<Rightarrow> bool" where
  "indexed db \<longleftrightarrow> rebuildIndexes db = db"

lemma rebuild_same:
  "forward_of (rebuildIndexes db) = forward_of db" "reversed_of (rebuildIndexes db) = reversed_of db"
  "forward_ok (rebuildIndexes db) = forward_ok db" "reversed_ok (rebuildIndexes db) = reversed_ok db"
  "m_forwardThunks (rebuildIndexes db) = m_forwardThunks db"
  "m_reversedThunks (rebuildIndexes db) = m_reversedThunks db"
  "m_forwardIndex (rebuildIndexes db) = m_forwardIndex db"
  "forward_descs (rebuildIndexes db) = forward_descs db"
  "reversed_descs (rebuildIndexes db) = reversed_descs db"
  "extends (rebuildIndexes db) db" "extends db (rebuildIndexes db)"
  by (simp_all add: rebuildIndexes_def fun_eq_iff forward_of_def reversed_of_def forward_ok_def reversed_ok_def
      ptr_ok_def list_ok_def deref_def deref_list_def list_all_iff forward_descs_def reversed_descs_def extends_def)

lemma rebuild_ok: "db_ok db \<Longrightarrow> db_ok (rebuildIndexes db) \<and> indexed (rebuildIndexes db)"
proof -
  assume "db_ok db"
  then have "db_ok (rebuildIndexes db)" by (simp add: db_ok_def pointers_ok_def rebuild_same)
  moreover have "forward_keys (rebuildIndexes db) = forward_keys db" "reversed_keys (rebuildIndexes db) = reversed_keys db"
    by (simp_all add: fun_eq_iff keys_names rebuild_same)
  then have "indexed (rebuildIndexes db)" by (simp add: indexed_def rebuildIndexes_def)
  ultimately show ?thesis by simp
qed

lemma indexed_maps:
  assumes "indexed db"
  shows "m_forwardThunkMap db = indexEntries (forward_keys db) (m_forwardThunks db)"
    and "m_reversedThunkMap db = indexEntries (reversed_keys db) (m_reversedThunks db)"
proof -
  have "rebuildIndexes db = db" using assms by (simp add: indexed_def)
  from arg_cong [OF this, of m_forwardThunkMap] arg_cong [OF this, of m_reversedThunkMap]
  show "m_forwardThunkMap db = indexEntries (forward_keys db) (m_forwardThunks db)"
    and "m_reversedThunkMap db = indexEntries (reversed_keys db) (m_reversedThunks db)"
    by (simp_all add: rebuildIndexes_def)
qed

lemma forward_lookup:
  assumes "indexed db"
  shows "map_option (forward_of db) (forwardThunk db k) = List.find (\<lambda>d. k \<in> set (forward_names d)) (forward_descs db)"
proof -
  have "m_forwardThunkMap db = indexEntries (forward_keys db) (m_forwardThunks db)"
    by (rule indexed_maps(1) [OF assms])
  then have "m_forwardThunkMap db k =
      List.find (\<lambda>i. k \<in> set (forward_names (forward_of db (m_forwardThunks db ! i)))) [0..<length (m_forwardThunks db)]"
    by (simp add: indexEntries_find keys_names)
  then show ?thesis
    by (simp add: forwardThunk_def db_lookup_def forward_descs_def flip: find_index_map)
      (simp split: option.split)
qed

lemma reversed_lookup:
  assumes "indexed db"
  shows "map_option (reversed_of db) (reversedThunk db k) = List.find (\<lambda>d. k \<in> set (reversed_names d)) (reversed_descs db)"
proof -
  have "m_reversedThunkMap db = indexEntries (reversed_keys db) (m_reversedThunks db)"
    by (rule indexed_maps(2) [OF assms])
  then have "m_reversedThunkMap db k =
      List.find (\<lambda>i. k \<in> set (reversed_names (reversed_of db (m_reversedThunks db ! i)))) [0..<length (m_reversedThunks db)]"
    by (simp add: indexEntries_find keys_names)
  then show ?thesis
    by (simp add: reversedThunk_def db_lookup_def reversed_descs_def flip: find_index_map)
      (simp split: option.split)
qed

lemma load_forward_fold:
  "load_forward vars True items db =
     fold (upsertForward True) (List.map_filter (forward_item vars) items) db"
  by (induction items arbitrary: db) (simp_all add: load_forward_def split: option.split)

lemma loadJson_step:
  assumes "db_ok db" and "loadJsonDatabase parse contents vars ov db = (r, db')"
  shows "db_ok db' \<and> (\<not> ov \<longrightarrow> layered db db')"
proof -
  have "db_ok (foldl (load_reversed_item ov) (load_forward vars ov fs db) rs) \<and>
      (\<not> ov \<longrightarrow> layered db (foldl (load_reversed_item ov) (load_forward vars ov fs db) rs))" for fs rs
    using load_forward_step [OF assms(1), of vars ov fs]
      load_reversed_step [of "load_forward vars ov fs db" ov rs]
    by (blast intro: layered_trans)
  then show ?thesis
    using assms by (auto simp: loadJsonDatabase_def Let_def split: option.splits json.splits)
qed

lemma layered_descs:
  assumes "layered db db'" "pointers_ok db"
  shows "\<exists>fs. forward_descs db' = forward_descs db @ fs" "\<exists>rs. reversed_descs db' = reversed_descs db @ rs"
proof -
  have e: "extends db db'" using assms(1) by (simp add: layered_def)
  have "map (forward_of db') (m_forwardThunks db) = map (forward_of db) (m_forwardThunks db)"
    "map (reversed_of db') (m_reversedThunks db) = map (reversed_of db) (m_reversedThunks db)"
    using assms(2) extends_forward [OF e] extends_reversed [OF e] by (auto simp: pointers_ok_def list_all_iff)
  with assms(1) show "\<exists>fs. forward_descs db' = forward_descs db @ fs" "\<exists>rs. reversed_descs db' = reversed_descs db @ rs"
    by (auto simp: layered_def forward_descs_def reversed_descs_def)
qed

text \<open>An index entry found before stays where it was when entries are added behind.\<close>

lemma indexed_prefix:
  assumes "db_lookup xs (indexEntries keys xs) k = Some e" "\<forall>x \<in> set xs. keys' x = keys x"
  shows "db_lookup (xs @ ys) (indexEntries keys' (xs @ ys)) k = Some e" and "e \<in> set xs"
proof -
  obtain j where j: "List.find (\<lambda>j. k \<in> set (keys (xs ! j))) [0..<length xs] = Some j" "e = xs ! j"
    using assms(1) by (auto simp: db_lookup_def indexEntries_find split: option.splits)
  then have jl: "j < length xs" using find_in_set [OF j(1)] by simp
  have "List.find (\<lambda>j. k \<in> set (keys' ((xs @ ys) ! j))) [0..<length xs] =
      List.find (\<lambda>j. k \<in> set (keys (xs ! j))) [0..<length xs]"
    using assms(2) by (intro find_cong) (simp_all add: nth_append)
  then have "List.find (\<lambda>j. k \<in> set (keys' ((xs @ ys) ! j))) [0..<length xs] = Some j" using j(1) by simp
  from find_append_Some [OF this, of "[length xs..<length xs + length ys]"]
  have "indexEntries keys' (xs @ ys) k = Some j"
    using upt_add_eq_append [of 0 "length xs" "length ys"] by (simp add: indexEntries_find)
  with j(2) jl show "db_lookup (xs @ ys) (indexEntries keys' (xs @ ys)) k = Some e"
    by (simp add: db_lookup_def nth_append)
  show "e \<in> set xs" using j(2) jl by simp
qed

lemma layered_lookup:
  assumes l: "layered db db'" and ok: "pointers_ok db" and i: "indexed db" "indexed db'"
  shows "forwardThunk db k = Some e \<Longrightarrow> forwardThunk db' k = Some e \<and> forward_of db' e = forward_of db e"
    and "reversedThunk db k = Some r \<Longrightarrow> reversedThunk db' k = Some r \<and> reversed_of db' r = reversed_of db r"
proof -
  have e: "extends db db'" using l by (simp add: layered_def)
  obtain fs rs where es: "m_forwardThunks db' = m_forwardThunks db @ fs" "m_reversedThunks db' = m_reversedThunks db @ rs"
    using l by (auto simp: layered_def)
  have same: "\<forall>x \<in> set (m_forwardThunks db). forward_of db' x = forward_of db x"
    "\<forall>x \<in> set (m_reversedThunks db). reversed_of db' x = reversed_of db x"
    using ok extends_forward [OF e] extends_reversed [OF e] by (simp_all add: pointers_ok_def list_all_iff)
  then have keys: "\<forall>x \<in> set (m_forwardThunks db). forward_keys db' x = forward_keys db x"
    "\<forall>x \<in> set (m_reversedThunks db). reversed_keys db' x = reversed_keys db x"
    by (simp_all add: keys_names)
  show "forwardThunk db' k = Some e \<and> forward_of db' e = forward_of db e" if "forwardThunk db k = Some e"
    using indexed_prefix(1) [OF that [unfolded forwardThunk_def indexed_maps(1) [OF i(1)]] keys(1), of fs]
      indexed_prefix(2) [OF that [unfolded forwardThunk_def indexed_maps(1) [OF i(1)]] keys(1)] same(1)
    by (simp add: forwardThunk_def indexed_maps(1) [OF i(2)] es)
  show "reversedThunk db' k = Some r \<and> reversed_of db' r = reversed_of db r" if "reversedThunk db k = Some r"
    using indexed_prefix(1) [OF that [unfolded reversedThunk_def indexed_maps(2) [OF i(1)]] keys(2), of rs]
      indexed_prefix(2) [OF that [unfolded reversedThunk_def indexed_maps(2) [OF i(1)]] keys(2)] same(2)
    by (simp add: reversedThunk_def indexed_maps(2) [OF i(2)] es)
qed

lemma db_empty_ok: "db_ok db_empty"
  by (simp add: db_ok_def pointers_ok_def db_empty_def forward_descs_def index_ok_Nil)

lemma db_load_ok:
  "db_load parse contents vars db = (r, db') \<Longrightarrow> db_ok db' \<and> indexed db'"
  using loadJson_step [OF db_empty_ok] rebuild_ok
  by (auto simp: db_load_def split: prod.splits)

lemma loadPack_step:
  assumes "db_ok db" "loadPack parse contents g h vars db = (r, db')"
  shows "db_ok db' \<and> indexed db' \<and> layered db db'"
proof -
  obtain db1 where l: "loadJsonDatabase parse contents (vars(''GTL_DIR'' \<mapsto> g, ''HTL_DIR'' \<mapsto> h)) False db = (r, db1)"
    and d: "db' = rebuildIndexes db1"
    using assms(2) by (auto simp: loadPack_def split: prod.splits)
  note s = loadJson_step [OF assms(1) l]
  have "layered db1 db'" using rebuild_same(5,6,11) by (simp add: layered_def d)
  with s rebuild_ok [of db1] show ?thesis using layered_trans d by blast
qed

text \<open>The result of a top-level load of a parsed document.\<close>

lemma db_load_descs:
  fixes vars :: "string \<Rightarrow> string option" and doc :: json_object
  assumes "parse json_text = Some (JObject doc)"
  defines "ds \<equiv> List.map_filter (forward_item vars) (array_items doc ''forwardThunks'')"
    and "rs \<equiv> List.map_filter reversed_item (array_items doc ''reversedThunks'')"
  shows "\<exists>db'. db_load parse (Some json_text) vars db = (True, db') \<and>
    (\<forall>name. fwd.view db' name = map_of (map (\<lambda>d. (d_name d, d)) (rev ds)) name) \<and>
    reversed_descs db' = rs"
proof -
  let ?f = "load_forward vars True (array_items doc ''forwardThunks'') db_empty"
  let ?r = "foldl (load_reversed_item True) ?f (array_items doc ''reversedThunks'')"
  have ok: "db_ok ?f" "m_reversedThunks ?f = []"
    using load_forward_step [OF db_empty_ok, of vars True] by (simp_all add: db_empty_def)
  have "fwd.view ?f = fwd.view db_empty ++ map_of (map (\<lambda>d. (d_name d, d)) (rev ds))"
    unfolding load_forward_fold ds_def using db_empty_ok by (intro fwd.put_list(3)) (simp_all add: db_ok_def)
  moreover have "fwd.view db_empty = Map.empty" by (simp add: fwd.view_def db_empty_def fun_eq_iff)
  ultimately have v: "fwd.view ?f = map_of (map (\<lambda>d. (d_name d, d)) (rev ds))" by simp
  note s = load_reversed_step [OF ok(1), of True "array_items doc ''reversedThunks''"]
  have "forward_descs ?r = forward_descs ?f"
  proof -
    have "extends ?f ?r" "pointers_ok ?f" using s ok(1) by (simp_all add: layered_def db_ok_def)
    then show ?thesis using s extends_forward [of ?f ?r] by (auto simp: forward_descs_def pointers_ok_def list_all_iff)
  qed
  then have "fwd.view (rebuildIndexes ?r) = fwd.view ?f"
    using s by (simp add: fwd.view_def fun_eq_iff rebuild_same)
  moreover have "reversed_descs (rebuildIndexes ?r) = rs"
    using s ok(2) by (simp add: rebuild_same reversed_descs_def rs_def)
  moreover have "db_load parse (Some json_text) vars db = (True, rebuildIndexes ?r)"
    by (simp add: db_load_def loadJsonDatabase_def assms(1) Let_def)
  ultimately show ?thesis using v by simp
qed

subsection \<open>Properties\<close>

definition demo_vars :: "string \<Rightarrow> string option" where
  "demo_vars = [''GTL_DIR'' \<mapsto> ''/g'', ''HTL_DIR'' \<mapsto> ''/h'']"

definition demo_parse :: "string \<Rightarrow> json option" where
  "demo_parse s =
     (if s = ''base'' then Some (JObject [(''forwardThunks'', JArray [JString ''z'']),
        (''reversedThunks'', JArray [
           JObject [(''name'', JString ''r''), (''fileName'', JString ''a.so'')],
           JObject [(''name'', JString ''r''), (''fileName'', JString ''b.so'')]])])
      else if s = ''pack'' then Some (JObject [(''forwardThunks'', JArray [JString ''z'', JString ''y''])])
      else None)"

text \<open>
  C13. Layering a pack never displaces anything: every name that was found before is found at the
  same entry, whose pointers still denote the same strings, and the database stays consistent.
\<close>

theorem pack_never_displaces:
  assumes "db_ok db" and "indexed db" and "loadPack parse contents g h vars db = (r, db')"
  shows "db_ok db' \<and> indexed db' \<and>
    (\<forall>k e. forwardThunk db k = Some e \<longrightarrow> forwardThunk db' k = Some e \<and> forward_of db' e = forward_of db e) \<and>
    (\<forall>k e. reversedThunk db k = Some e \<longrightarrow> reversedThunk db' k = Some e \<and> reversed_of db' e = reversed_of db e)"
  using loadPack_step [OF assms(1,3)] layered_lookup [of db db'] assms(1,2) by (simp add: db_ok_def)

theorem pack_never_displaces_witness:
  "\<exists>e. forwardThunk (snd (loadPack demo_parse (Some ''pack'') ''/p'' ''/q'' demo_vars
         (snd (db_load demo_parse (Some ''base'') demo_vars db_empty)))) ''z'' = Some e \<and>
     d_guest (forward_of (snd (loadPack demo_parse (Some ''pack'') ''/p'' ''/q'' demo_vars
         (snd (db_load demo_parse (Some ''base'') demo_vars db_empty)))) e) = ''/g/z.so''"
proof -
  let ?l = "db_load demo_parse (Some ''base'') demo_vars db_empty"
  let ?p = "loadPack demo_parse (Some ''pack'') ''/p'' ''/q'' demo_vars (snd ?l)"
  have "db_ok (snd ?l) \<and> indexed (snd ?l)" by (rule db_load_ok [of _ _ _ _ "fst ?l"]) simp
  moreover have "map_option (\<lambda>e. d_guest (forward_of (snd ?l) e)) (forwardThunk (snd ?l) ''z'') = Some ''/g/z.so''"
    by code_simp
  ultimately show ?thesis
    using pack_never_displaces [of "snd ?l" demo_parse "Some ''pack''" "''/p''" "''/q''" demo_vars "fst ?p" "snd ?p"]
    by auto
qed

text \<open>
  A top-level load gives one forward entry per name, the one described last in the document,
  with the fields filled in as \<open>forward_item\<close> says.
\<close>

theorem load_forward_last_wins:
  assumes "parse json_text = Some (JObject doc)"
  shows "\<exists>db'. db_load parse (Some json_text) vars db = (True, db') \<and> db_ok db' \<and> indexed db' \<and>
    distinct (map d_name (forward_descs db')) \<and>
    (\<forall>name. map_of (map (\<lambda>d. (d_name d, d)) (forward_descs db')) name =
       map_of (map (\<lambda>d. (d_name d, d)) (rev (List.map_filter (forward_item vars) (array_items doc ''forwardThunks'')))) name)"
proof -
  obtain db' where l: "db_load parse (Some json_text) vars db = (True, db')"
    and v: "\<forall>name. fwd.view db' name = map_of (map (\<lambda>d. (d_name d, d))
        (rev (List.map_filter (forward_item vars) (array_items doc ''forwardThunks'')))) name"
    using db_load_descs
      [where parse = parse and json_text = json_text and doc = doc and vars = vars and db = db, OF assms] by blast
  have ok: "db_ok db'" "indexed db'" using db_load_ok [OF l] by simp_all
  then have i: "index_ok d_name (forward_descs db') (m_forwardIndex db')" by (simp add: db_ok_def)
  show ?thesis using l ok v index_ok_distinct [OF i] fwd.view_entries [OF i] by auto
qed

theorem load_forward_last_wins_witness:
  "\<exists>db'. db_load demo_parse (Some ''base'') demo_vars db_empty = (True, db') \<and>
     map_of (map (\<lambda>d. (d_name d, d)) (forward_descs db')) ''z'' =
       Some \<lparr>d_name = ''z'', d_alias = [], d_guest = ''/g/z.so'', d_host = ''/h/z_HTL.so'', d_library = ''z.so''\<rparr>"
  using load_forward_last_wins [of demo_parse "''base''" _ demo_vars db_empty]
  by (simp add: demo_parse_def) (auto simp: array_items_def demo_vars_def forward_item_def)

text \<open>
  C22. In a consistent database a lookup by name returns the first entry whose name or one of whose
  aliases (as C strings) is that name.
\<close>

theorem lookup_first_match:
  assumes "indexed db"
  shows "map_option (forward_of db) (forwardThunk db k) =
      List.find (\<lambda>d. k \<in> set (forward_names d)) (forward_descs db) \<and>
    map_option (reversed_of db) (reversedThunk db k) =
      List.find (\<lambda>d. k \<in> set (reversed_names d)) (reversed_descs db)"
  using forward_lookup [OF assms] reversed_lookup [OF assms] by simp

theorem lookup_first_match_witness:
  "List.find (\<lambda>d. ''z'' \<in> set (forward_names d))
     (forward_descs (snd (db_load demo_parse (Some ''base'') demo_vars db_empty))) =
   map_option (forward_of (snd (db_load demo_parse (Some ''base'') demo_vars db_empty)))
     (forwardThunk (snd (db_load demo_parse (Some ''base'') demo_vars db_empty)) ''z'')"
proof -
  let ?l = "db_load demo_parse (Some ''base'') demo_vars db_empty"
  have "indexed (snd ?l)" using db_load_ok [of _ _ _ _ "fst ?l"] by simp
  from lookup_first_match [OF this, of "''z''"] show ?thesis by simp
qed

text \<open>
  In a top-level load a later reversed entry does not replace an earlier one of the same name:
  all are kept, and the lookup returns the first.
\<close>

theorem load_reversed_first_wins:
  assumes "parse json_text = Some (JObject doc)"
  shows "\<exists>db'. db_load parse (Some json_text) vars db = (True, db') \<and>
    map_option (reversed_of db') (reversedThunk db' k) =
      List.find (\<lambda>d. k \<in> set (reversed_names d))
        (List.map_filter reversed_item (array_items doc ''reversedThunks''))"
  using db_load_descs
      [where parse = parse and json_text = json_text and doc = doc and vars = vars and db = db, OF assms]
    db_load_ok reversed_lookup by metis

theorem load_reversed_first_wins_witness:
  "\<exists>db'. db_load demo_parse (Some ''base'') demo_vars db_empty = (True, db') \<and>
     map_option (\<lambda>e. e_file (reversed_of db' e)) (reversedThunk db' ''r'') = Some ''a.so''"
proof -
  have "demo_parse ''base'' = Some (JObject [(''forwardThunks'', JArray [JString ''z'']),
        (''reversedThunks'', JArray [
           JObject [(''name'', JString ''r''), (''fileName'', JString ''a.so'')],
           JObject [(''name'', JString ''r''), (''fileName'', JString ''b.so'')]])])"
    by (simp add: demo_parse_def)
  from load_reversed_first_wins [where parse = demo_parse and json_text = "''base''" and vars = demo_vars and
      db = db_empty and k = "''r''", OF this]
  show ?thesis
    by (auto simp: array_items_def reversed_item_def jsonString_def jsonStringArray_def reversed_names_def c_str_def)
qed


end
