(* ===== verification/Byte_Memory.thy ===== *)
theory Byte_Memory
  imports Lore_Prelude "HOL-Library.Word"
begin

text \<open>
  Bytes: little-endian words as byte lists, and a byte-addressed memory with 64-bit addresses,
  some of which are mapped.
\<close>

unbundle bit_operations_syntax

subsection \<open>Words as bytes\<close>

fun of_bytes :: "8 word list \<Rightarrow> 64 word" where
  "of_bytes [] = 0"
| "of_bytes (b # bs) = ucast b OR push_bit 8 (of_bytes bs)"

fun to_bytes :: "nat \<Rightarrow> 64 word \<Rightarrow> 8 word list" where
  "to_bytes 0 w = []"
| "to_bytes (Suc n) w = ucast w # to_bytes n (drop_bit 8 w)"

lemma of_to_bytes: "n \<le> 8 \<Longrightarrow> of_bytes (to_bytes n w) = take_bit (8 * n) w"
proof (induction n arbitrary: w)
  case (Suc n)
  have "of_bytes (to_bytes (Suc n) w) = ucast (ucast w :: 8 word) OR push_bit 8 (take_bit (8 * n) (drop_bit 8 w))"
    using Suc by simp
  also have "\<dots> = take_bit (8 * Suc n) w"
  proof (rule bit_word_eqI)
    fix k assume "k < LENGTH(64)"
    then show "bit (ucast (ucast w :: 8 word) OR push_bit 8 (take_bit (8 * n) (drop_bit 8 w))) k =
        bit (take_bit (8 * Suc n) w) k"
      by (cases "k < 8") (auto simp: bit_simps)
  qed
  finally show ?case .
qed simp

lemma length_to_bytes [simp]: "length (to_bytes n w) = n"
  by (induction n arbitrary: w) simp_all

lemma word64_id [simp]: "take_bit 64 (w :: 64 word) = w"
  by (rule bit_word_eqI) (simp add: bit_simps)

lemma of_to_bytes_8 [simp]: "of_bytes (to_bytes 8 w) = w"
  using of_to_bytes [of 8 w] by simp

subsection \<open>Memory\<close>

record memory =
  mem_byte :: "64 word \<Rightarrow> 8 word"
  mem_mapped :: "64 word \<Rightarrow> bool"

text \<open>The addresses of \<open>n\<close> bytes from \<open>a\<close> on.\<close>

definition span :: "64 word \<Rightarrow> nat \<Rightarrow> 64 word list" where
  "span a n = map (\<lambda>k. a + of_nat k) [0..<n]"

text \<open>Accesses fault (\<open>None\<close>) outside the mapped addresses.\<close>

definition load_bytes :: "64 word \<Rightarrow> nat \<Rightarrow> memory \<Rightarrow> 8 word list option" where
  "load_bytes a n m = (if list_all (mem_mapped m) (span a n) then Some (map (mem_byte m) (span a n)) else None)"

definition store_bytes :: "64 word \<Rightarrow> 8 word list \<Rightarrow> memory \<Rightarrow> memory option" where
  "store_bytes a bs m =
     (if list_all (mem_mapped m) (span a (length bs))
      then Some (m\<lparr>mem_byte := (\<lambda>x. let k = unat (x - a) in if k < length bs then bs ! k else mem_byte m x)\<rparr>)
      else None)"

definition load64 :: "64 word \<Rightarrow> memory \<Rightarrow> 64 word option" where
  "load64 a m = map_option of_bytes (load_bytes a 8 m)"

definition store64 :: "64 word \<Rightarrow> 64 word \<Rightarrow> memory \<Rightarrow> memory option" where
  "store64 a v m = store_bytes a (to_bytes 8 v) m"

subsection \<open>Reading after writing, by offsets into one block\<close>

lemma length_span [simp]: "length (span a n) = n"
  by (simp add: span_def)

lemma span_nth [simp]: "k < n \<Longrightarrow> span a n ! k = a + of_nat k"
  by (simp add: span_def)

lemma unat_of_nat64: "n < 2 ^ 64 \<Longrightarrow> unat (of_nat n :: 64 word) = n"
  by (simp add: unat_of_nat take_bit_nat_eq_self)

text \<open>The distance of two offsets into a block, as a store sees it.\<close>

lemma unat_offset:
  assumes "x < 2 ^ 64" "a + n \<le> 2 ^ 64"
  shows "unat ((of_nat x :: 64 word) - of_nat a) < n \<longleftrightarrow> a \<le> x \<and> x < a + n"
    and "a \<le> x \<Longrightarrow> unat ((of_nat x :: 64 word) - of_nat a) = x - a"
proof -
  have eq: "unat ((of_nat x :: 64 word) - of_nat a) = x - a" if "a \<le> x"
  proof -
    have "(of_nat x :: 64 word) - of_nat a = of_nat (x - a)" using of_nat_diff [OF that] by metis
    moreover have "x - a < 2 ^ 64" using assms(1) by simp
    ultimately show ?thesis by (simp only: unat_of_nat64)
  qed
  moreover have "n \<le> unat ((of_nat x :: 64 word) - of_nat a)" if "x < a"
  proof (cases "n = 0")
    case False
    have "(of_nat (2 ^ 64 - (a - x)) :: 64 word) = of_nat (2 ^ 64) - of_nat (a - x)"
      using assms(2) by (intro of_nat_diff) simp
    also have "\<dots> = of_nat x - of_nat a"
      using that by simp
    finally have "(of_nat x :: 64 word) - of_nat a = of_nat (2 ^ 64 - (a - x))" by simp
    moreover have "2 ^ 64 - (a - x) < (2 ^ 64 :: nat)" using that by simp
    ultimately have "unat ((of_nat x :: 64 word) - of_nat a) = 2 ^ 64 - (a - x)"
      by (simp only: unat_of_nat64)
    with assms(2) show ?thesis by simp
  qed simp
  ultimately show "unat ((of_nat x :: 64 word) - of_nat a) < n \<longleftrightarrow> a \<le> x \<and> x < a + n"
    by (cases "a \<le> x") auto
  show "a \<le> x \<Longrightarrow> unat ((of_nat x :: 64 word) - of_nat a) = x - a" by (rule eq)
qed

text \<open>\<open>block b n m\<close>: the \<open>n\<close> bytes from \<open>b\<close> on are mapped.\<close>

definition block :: "64 word \<Rightarrow> nat \<Rightarrow> memory \<Rightarrow> bool" where
  "block b n m \<longleftrightarrow> n \<le> 2 ^ 64 \<and> (\<forall>k < n. mem_mapped m (b + of_nat k))"

definition byte_at :: "64 word \<Rightarrow> memory \<Rightarrow> nat \<Rightarrow> 8 word" where
  "byte_at b m k = mem_byte m (b + of_nat k)"

lemma load_bytes_block:
  assumes "block b sz m" "a + n \<le> sz"
  shows "load_bytes (b + of_nat a) n m = Some (map (byte_at b m) [a..<a + n])"
proof -
  have "list_all (mem_mapped m) (span (b + of_nat a) n)"
    using assms by (auto simp: list_all_length block_def add.assoc simp flip: of_nat_add)
  moreover have "map (mem_byte m) (span (b + of_nat a) n) = map (byte_at b m) [a..<a + n]"
    by (simp add: list_eq_iff_nth_eq byte_at_def add.assoc)
  ultimately show ?thesis by (simp add: load_bytes_def)
qed

lemma store_bytes_block:
  assumes "block b sz m" "a + length bs \<le> sz"
  shows "\<exists>m'. store_bytes (b + of_nat a) bs m = Some m' \<and> block b sz m' \<and> mem_mapped m' = mem_mapped m \<and>
    (\<forall>x < sz. byte_at b m' x = (if a \<le> x \<and> x < a + length bs then bs ! (x - a) else byte_at b m x))"
proof -
  have "list_all (mem_mapped m) (span (b + of_nat a) (length bs))"
    using assms by (auto simp: list_all_length block_def add.assoc simp flip: of_nat_add)
  moreover have "b + of_nat x - (b + of_nat a) = of_nat x - of_nat a" for x :: nat by simp
  ultimately show ?thesis
    using assms unat_offset [of _ a "length bs"]
    by (auto simp: store_bytes_def byte_at_def block_def Let_def)
qed

text \<open>\<open>holds b m a bs\<close>: the bytes \<open>bs\<close> are at offset \<open>a\<close> of the block.\<close>

definition holds :: "64 word \<Rightarrow> memory \<Rightarrow> nat \<Rightarrow> 8 word list \<Rightarrow> bool" where
  "holds b m a bs \<longleftrightarrow> map (byte_at b m) [a..<a + length bs] = bs"

lemma holds_iff: "holds b m a bs \<longleftrightarrow> (\<forall>k < length bs. byte_at b m (a + k) = bs ! k)"
  unfolding holds_def by (subst list_eq_iff_nth_eq) simp

lemma holds_cong:
  "(\<And>x. a \<le> x \<Longrightarrow> x < a + length bs \<Longrightarrow> byte_at b m' x = byte_at b m x) \<Longrightarrow> holds b m' a bs = holds b m a bs"
  by (simp add: holds_iff)

lemma load_holds:
  assumes "block b sz m" "holds b m a bs" "a + length bs \<le> sz"
  shows "load_bytes (b + of_nat a) (length bs) m = Some bs"
  using load_bytes_block [OF assms(1,3)] assms(2) by (simp add: holds_def)

text \<open>\<open>stored b sz a n m m'\<close>: of the block only \<open>n\<close> bytes from offset \<open>a\<close> on may differ.\<close>

definition stored :: "64 word \<Rightarrow> nat \<Rightarrow> nat \<Rightarrow> nat \<Rightarrow> memory \<Rightarrow> memory \<Rightarrow> bool" where
  "stored b sz a n m m' \<longleftrightarrow>
     block b sz m' \<and> mem_mapped m' = mem_mapped m \<and>
     (\<forall>x < sz. x < a \<or> a + n \<le> x \<longrightarrow> byte_at b m' x = byte_at b m x)"

lemma stored_block: "stored b sz a n m m' \<Longrightarrow> block b sz m'"
  by (simp add: stored_def)

lemma stored_refl: "block b sz m \<Longrightarrow> stored b sz a n m m"
  by (simp add: stored_def)

lemma stored_trans:
  "stored b sz a n m m' \<Longrightarrow> stored b sz a' n' m' m'' \<Longrightarrow> lo \<le> a \<Longrightarrow> a + n \<le> lo + l \<Longrightarrow> lo \<le> a' \<Longrightarrow>
     a' + n' \<le> lo + l \<Longrightarrow> stored b sz lo l m m''"
  by (auto simp: stored_def)

lemma stored_holds:
  "stored b sz a n m m' \<Longrightarrow> a' + length bs \<le> sz \<Longrightarrow> a' + length bs \<le> a \<or> a + n \<le> a' \<Longrightarrow>
     holds b m' a' bs = holds b m a' bs"
  by (intro holds_cong) (auto simp: stored_def)

lemma store_bytes_stored:
  assumes "block b sz m" "a + length bs \<le> sz"
  shows "\<exists>m'. store_bytes (b + of_nat a) bs m = Some m' \<and> stored b sz a (length bs) m m' \<and> holds b m' a bs"
  using store_bytes_block [OF assms] assms(2) by (auto simp: stored_def holds_iff)

lemma store64_stored:
  "block b sz m \<Longrightarrow> a + 8 \<le> sz \<Longrightarrow>
     \<exists>m'. store64 (b + of_nat a) v m = Some m' \<and> stored b sz a 8 m m' \<and> holds b m' a (to_bytes 8 v)"
  using store_bytes_stored [of b sz m a "to_bytes 8 v"] by (simp add: store64_def)

lemma load64_holds:
  "block b sz m \<Longrightarrow> holds b m a (to_bytes 8 v) \<Longrightarrow> a + 8 \<le> sz \<Longrightarrow> load64 (b + of_nat a) m = Some v"
  using load_holds [of b sz m a "to_bytes 8 v"] by (simp add: load64_def)

lemma load64_block: "block b sz m \<Longrightarrow> a + 8 \<le> sz \<Longrightarrow> load64 (b + of_nat a) m \<noteq> None"
  by (simp add: load64_def load_bytes_block)

text \<open>A list of stores at increasing offsets.\<close>

fun writes_ok :: "nat \<Rightarrow> nat \<Rightarrow> (nat \<times> 8 word list) list \<Rightarrow> bool" where
  "writes_ok lo lim [] \<longleftrightarrow> lo \<le> lim"
| "writes_ok lo lim ((off, bs) # ws) \<longleftrightarrow> lo \<le> off \<and> writes_ok (off + length bs) lim ws"

lemma writes_ok_bounds:
  "writes_ok lo lim ws \<Longrightarrow> lo \<le> lim \<and> (\<forall>(off, bs) \<in> set ws. lo \<le> off \<and> off + length bs \<le> lim)"
  by (induction lo lim ws rule: writes_ok.induct) fastforce+

lemma store_writes:
  assumes "block b sz m" "writes_ok lo lim ws" "a + lim \<le> sz"
  shows "\<exists>m'. for_each (\<lambda>(off, bs). store_bytes (b + of_nat a + of_nat off) bs) ws m = Some m' \<and>
    stored b sz (a + lo) (lim - lo) m m' \<and> (\<forall>(off, bs) \<in> set ws. holds b m' (a + off) bs)"
  using assms
proof (induction lo lim ws arbitrary: m rule: writes_ok.induct)
  case (2 lo lim off bs ws)
  have bnd: "off + length bs \<le> lim" "lo \<le> off" using writes_ok_bounds 2 by fastforce+
  have adr: "b + of_nat a + of_nat off = b + (of_nat (a + off) :: 64 word)" by simp
  obtain m1 where m1: "store_bytes (b + of_nat a + of_nat off) bs m = Some m1"
    "stored b sz (a + off) (length bs) m m1" "holds b m1 (a + off) bs"
    using store_bytes_stored [OF 2(2), of "a + off" bs] bnd 2(4) unfolding adr by auto
  then obtain m2 where m2: "for_each (\<lambda>(off, bs). store_bytes (b + of_nat a + of_nat off) bs) ws m1 = Some m2"
    "stored b sz (a + (off + length bs)) (lim - (off + length bs)) m1 m2"
    "\<forall>(off, bs) \<in> set ws. holds b m2 (a + off) bs"
    using 2(1) [of m1] 2(3,4) stored_block by auto
  have "stored b sz (a + lo) (lim - lo) m m2"
    using stored_trans [OF m1(2) m2(2)] bnd by simp
  moreover have "holds b m2 (a + off) bs"
    using stored_holds [OF m2(2)] m1(3) bnd 2(4) by simp
  ultimately show ?case using m1(1) m2(1,3) by auto
qed (simp add: stored_refl)

end
