(* ===== verification/Variadic.thy ===== *)
theory Variadic
  imports String_Extras Byte_Memory
begin

text \<open>
  Marshalled variadic arguments: the tagged boxes of
  \<open>include/lorelei/DLCall/Tools/VariadicArgDefs.h\<close> and the adaptor of
  \<open>src/libs/DLCall/Tools/VariadicAdaptor.cpp\<close> with its ffcall back end
  (\<open>VariadicAdaptor_FFCall.cpp.inc\<close>), on the LP64 little-endian targets the project supports.
  A value is the 64-bit word of its bits; the callee behind ffcall and the patched printf and
  scanf walkers are parameters.
\<close>

subsection \<open>Boxes\<close>

datatype CVargType =
    CVargType_Void | CVargType_Char | CVargType_UChar | CVargType_Short | CVargType_UShort
  | CVargType_Int | CVargType_UInt | CVargType_Long | CVargType_ULong | CVargType_LongLong
  | CVargType_ULongLong | CVargType_Float | CVargType_Double | CVargType_Pointer

fun type_num :: "CVargType \<Rightarrow> int" where
  "type_num CVargType_Void = 0"
| "type_num CVargType_Char = 1"
| "type_num CVargType_UChar = 2"
| "type_num CVargType_Short = 3"
| "type_num CVargType_UShort = 4"
| "type_num CVargType_Int = 5"
| "type_num CVargType_UInt = 6"
| "type_num CVargType_Long = 7"
| "type_num CVargType_ULong = 8"
| "type_num CVargType_LongLong = 9"
| "type_num CVargType_ULongLong = 10"
| "type_num CVargType_Float = 11"
| "type_num CVargType_Double = 12"
| "type_num CVargType_Pointer = 13"

definition all_types :: "CVargType list" where
  "all_types =
     [CVargType_Void, CVargType_Char, CVargType_UChar, CVargType_Short, CVargType_UShort,
      CVargType_Int, CVargType_UInt, CVargType_Long, CVargType_ULong, CVargType_LongLong,
      CVargType_ULongLong, CVargType_Float, CVargType_Double, CVargType_Pointer]"

text \<open>The enumerator a stored tag is equal to, as a \<open>switch\<close> on it sees it.\<close>

definition num_type :: "int \<Rightarrow> CVargType option" where
  "num_type n = List.find (\<lambda>t. type_num t = n) all_types"

text \<open>\<open>entry_bits\<close> is the storage of the union, all of whose members start at its first byte.\<close>

record CVargEntry =
  entry_type :: int
  entry_bits :: "64 word"

text \<open>The members of the union, as they are declared; that for \<open>unsigned long\<close> is \<open>unsigned ul\<close>.\<close>

datatype cvarg_member =
    M_c | M_uc | M_s | M_us | M_i | M_u | M_l | M_ul | M_ll | M_ull | M_f | M_d | M_p

fun member_bits :: "cvarg_member \<Rightarrow> nat" where
  "member_bits M_c = 8"
| "member_bits M_uc = 8"
| "member_bits M_s = 16"
| "member_bits M_us = 16"
| "member_bits M_i = 32"
| "member_bits M_u = 32"
| "member_bits M_l = 64"
| "member_bits M_ul = 32"
| "member_bits M_ll = 64"
| "member_bits M_ull = 64"
| "member_bits M_f = 32"
| "member_bits M_d = 64"
| "member_bits M_p = 64"

text \<open>Assigning a member converts to its width and leaves the other bytes of the union.\<close>

definition write_member :: "cvarg_member \<Rightarrow> 64 word \<Rightarrow> CVargEntry \<Rightarrow> CVargEntry" where
  "write_member m v e =
     e\<lparr>entry_bits := push_bit (member_bits m) (drop_bit (member_bits m) (entry_bits e)) OR take_bit (member_bits m) v\<rparr>"

definition read_member :: "cvarg_member \<Rightarrow> CVargEntry \<Rightarrow> 64 word" where
  "read_member m e = take_bit (member_bits m) (entry_bits e)"

text \<open>
  The scan to the \<open>Void\<close> sentinel over the entries that follow a pointer; a null pointer (\<open>None\<close>) has none,
  and running past the entries is undefined.
\<close>

fun entries_length :: "CVargEntry list \<Rightarrow> int option" where
  "entries_length [] = None"
| "entries_length (p # argv) =
     (if entry_type p \<noteq> 0 then map_option (\<lambda>argc. argc + 1) (entries_length argv) else Some 0)"

definition CVargEntryLength :: "CVargEntry list option \<Rightarrow> int option" where
  "CVargEntryLength argv = (case argv of None \<Rightarrow> Some 0 | Some argv \<Rightarrow> entries_length argv)"

subsection \<open>Classifying C types\<close>

datatype c_type =
    C_void | C_char | C_schar | C_uchar | C_short | C_ushort | C_int | C_uint | C_long | C_ulong
  | C_longlong | C_ulonglong | C_float | C_double | C_longdouble | C_bool | C_pointer
  | C_enum c_type | C_cv c_type

fun remove_cv :: "c_type \<Rightarrow> c_type" where
  "remove_cv (C_cv t) = remove_cv t"
| "remove_cv t = t"

fun Enum2Underlying :: "c_type \<Rightarrow> c_type" where
  "Enum2Underlying (C_enum t) = t"
| "Enum2Underlying t = t"

definition CVargTypeID :: "c_type \<Rightarrow> CVargType" where
  "CVargTypeID t =
     (case Enum2Underlying (remove_cv t) of
        C_void \<Rightarrow> CVargType_Void
      | C_char \<Rightarrow> CVargType_Char
      | C_uchar \<Rightarrow> CVargType_UChar
      | C_short \<Rightarrow> CVargType_Short
      | C_ushort \<Rightarrow> CVargType_UShort
      | C_int \<Rightarrow> CVargType_Int
      | C_uint \<Rightarrow> CVargType_UInt
      | C_long \<Rightarrow> CVargType_Long
      | C_ulong \<Rightarrow> CVargType_ULong
      | C_longlong \<Rightarrow> CVargType_LongLong
      | C_ulonglong \<Rightarrow> CVargType_ULongLong
      | C_float \<Rightarrow> CVargType_Float
      | C_double \<Rightarrow> CVargType_Double
      | _ \<Rightarrow> CVargType_Pointer)"

text \<open>The member \<open>_CVargValueRef\<close> picks; it has no \<open>void\<close> case.\<close>

definition CVargValueRef :: "c_type \<Rightarrow> cvarg_member" where
  "CVargValueRef t =
     (case Enum2Underlying (remove_cv t) of
        C_char \<Rightarrow> M_c
      | C_uchar \<Rightarrow> M_uc
      | C_short \<Rightarrow> M_s
      | C_ushort \<Rightarrow> M_us
      | C_int \<Rightarrow> M_i
      | C_uint \<Rightarrow> M_u
      | C_long \<Rightarrow> M_l
      | C_ulong \<Rightarrow> M_ul
      | C_longlong \<Rightarrow> M_ll
      | C_ulonglong \<Rightarrow> M_ull
      | C_float \<Rightarrow> M_f
      | C_double \<Rightarrow> M_d
      | _ \<Rightarrow> M_p)"

definition CVargValue :: "c_type \<Rightarrow> CVargEntry \<Rightarrow> 64 word" where
  "CVargValue t e = read_member (CVargValueRef t) e"

text \<open>
  \<open>CVargGet\<close>: the box starts with indeterminate bytes \<open>junk\<close>.  \<open>None\<close> when the instance does not
  compile, a \<open>static_cast\<close> of a non-pointer to \<open>void *\<close>.
\<close>

definition CVargGet :: "64 word \<Rightarrow> c_type \<Rightarrow> 64 word \<Rightarrow> CVargEntry option" where
  "CVargGet junk t x =
     (let result = \<lparr>entry_type = type_num (CVargTypeID t), entry_bits = junk\<rparr>
      in if remove_cv t = C_pointer then Some (write_member M_p x result)
         else if CVargValueRef t = M_p then None
         else Some (write_member (CVargValueRef t) x result))"

subsection \<open>Raw storage\<close>

text \<open>The size of a C type on the LP64 targets, in bits; \<open>void\<close> has none.\<close>

fun lp64_bits :: "c_type \<Rightarrow> nat" where
  "lp64_bits C_void = 0"
| "lp64_bits C_char = 8"
| "lp64_bits C_schar = 8"
| "lp64_bits C_uchar = 8"
| "lp64_bits C_short = 16"
| "lp64_bits C_ushort = 16"
| "lp64_bits C_int = 32"
| "lp64_bits C_uint = 32"
| "lp64_bits C_long = 64"
| "lp64_bits C_ulong = 64"
| "lp64_bits C_longlong = 64"
| "lp64_bits C_ulonglong = 64"
| "lp64_bits C_float = 32"
| "lp64_bits C_double = 64"
| "lp64_bits C_longdouble = 128"
| "lp64_bits C_bool = 8"
| "lp64_bits C_pointer = 64"
| "lp64_bits (C_enum t) = lp64_bits t"
| "lp64_bits (C_cv t) = lp64_bits t"

text \<open>The bytes readable or writable behind a pointer, little-endian; a short access is undefined.\<close>

definition load_raw :: "c_type \<Rightarrow> 8 word list \<Rightarrow> 64 word option" where
  "load_raw t p = (if length p < lp64_bits t div 8 then None else Some (of_bytes (take (lp64_bits t div 8) p)))"

definition store_raw :: "c_type \<Rightarrow> 64 word \<Rightarrow> 8 word list \<Rightarrow> 8 word list option" where
  "store_raw t v p =
     (if length p < lp64_bits t div 8 then None
      else Some (to_bytes (lp64_bits t div 8) v @ drop (lp64_bits t div 8) p))"

subsection \<open>The Box64-style formats\<close>

text \<open>For a code of an argument: the tag, the member that is assigned and the type that is read for it.\<close>

definition arg_code :: "char \<Rightarrow> (CVargType \<times> cvarg_member \<times> c_type) option" where
  "arg_code c =
     (if c = CHR ''c'' then Some (CVargType_Char, M_c, C_char)
      else if c = CHR ''C'' then Some (CVargType_UChar, M_uc, C_uchar)
      else if c = CHR ''s'' then Some (CVargType_Short, M_s, C_short)
      else if c = CHR ''S'' then Some (CVargType_UShort, M_us, C_ushort)
      else if c = CHR ''i'' then Some (CVargType_Int, M_i, C_int)
      else if c = CHR ''I'' then Some (CVargType_UInt, M_u, C_uint)
      else if c = CHR ''l'' then Some (CVargType_Long, M_l, C_long)
      else if c = CHR ''u'' then Some (CVargType_ULong, M_ul, C_ulong)
      else if c = CHR ''L'' then Some (CVargType_LongLong, M_ll, C_longlong)
      else if c = CHR ''U'' then Some (CVargType_ULongLong, M_ull, C_ulonglong)
      else if c = CHR ''f'' then Some (CVargType_Float, M_f, C_float)
      else if c = CHR ''F'' then Some (CVargType_Double, M_d, C_double)
      else if c = CHR ''p'' then Some (CVargType_Pointer, M_p, C_pointer)
      else None)"

definition arg_entry :: "char \<Rightarrow> CVargEntry \<Rightarrow> 8 word list \<Rightarrow> CVargEntry option" where
  "arg_entry fmt entry arg =
     (case arg_code fmt of
        Some (t, m, c) \<Rightarrow> map_option (\<lambda>v. write_member m v (entry\<lparr>entry_type := type_num t\<rparr>)) (load_raw c arg)
      | None \<Rightarrow> Some (entry\<lparr>entry_type := type_num CVargType_Void\<rparr>))"

definition ret_code :: "char \<Rightarrow> CVargType" where
  "ret_code c =
     (if c = CHR ''c'' then CVargType_Char
      else if c = CHR ''C'' then CVargType_UChar
      else if c = CHR ''s'' then CVargType_Short
      else if c = CHR ''S'' then CVargType_UShort
      else if c = CHR ''i'' then CVargType_Int
      else if c = CHR ''I'' then CVargType_UInt
      else if c = CHR ''l'' then CVargType_Long
      else if c = CHR ''u'' then CVargType_ULong
      else if c = CHR ''L'' then CVargType_LongLong
      else if c = CHR ''U'' then CVargType_ULongLong
      else if c = CHR ''f'' then CVargType_Float
      else if c = CHR ''F'' then CVargType_Double
      else if c = CHR ''p'' then CVargType_Pointer
      else CVargType_Void)"

definition ret_entry :: "char \<Rightarrow> CVargEntry \<Rightarrow> CVargEntry" where
  "ret_entry fmt entry = entry\<lparr>entry_type := type_num (ret_code fmt)\<rparr>"

subsection \<open>The ffcall back end\<close>

text \<open>
  What a callee gets: its arguments as \<open>av_*\<close> kinds with their bits, and the kind its result is
  declared with; it returns the bits of the result.
\<close>

datatype av_kind =
    av_void | av_char | av_uchar | av_short | av_ushort | av_int | av_uint | av_long | av_ulong
  | av_longlong | av_ulonglong | av_float | av_double | av_ptr

type_synonym av_arg = "av_kind \<times> 64 word"
type_synonym native = "av_kind \<Rightarrow> av_arg list \<Rightarrow> 64 word"

text \<open>Starting the list: the kind of the result, whose place is the member with the tag's name.\<close>

fun start_kind :: "CVargType \<Rightarrow> av_kind" where
  "start_kind CVargType_Void = av_void"
| "start_kind CVargType_Char = av_char"
| "start_kind CVargType_UChar = av_uchar"
| "start_kind CVargType_Short = av_short"
| "start_kind CVargType_UShort = av_ushort"
| "start_kind CVargType_Int = av_int"
| "start_kind CVargType_UInt = av_uint"
| "start_kind CVargType_Long = av_long"
| "start_kind CVargType_ULong = av_ulong"
| "start_kind CVargType_LongLong = av_longlong"
| "start_kind CVargType_ULongLong = av_longlong"
| "start_kind CVargType_Float = av_float"
| "start_kind CVargType_Double = av_double"
| "start_kind CVargType_Pointer = av_ptr"

text \<open>An unknown tag leaves the list uninitialised (\<open>None\<close>).\<close>

definition avcall_start_helper :: "CVargEntry \<Rightarrow> av_kind option" where
  "avcall_start_helper entry = map_option start_kind (num_type (entry_type entry))"

text \<open>Adding an argument: its kind and the member that is read; a tag without a case adds none.\<close>

fun arg_kind :: "CVargType \<Rightarrow> (av_kind \<times> cvarg_member) option" where
  "arg_kind CVargType_Char = Some (av_char, M_c)"
| "arg_kind CVargType_UChar = Some (av_uchar, M_uc)"
| "arg_kind CVargType_Short = Some (av_short, M_s)"
| "arg_kind CVargType_UShort = Some (av_ushort, M_us)"
| "arg_kind CVargType_Int = Some (av_int, M_i)"
| "arg_kind CVargType_UInt = Some (av_int, M_u)"
| "arg_kind CVargType_Long = Some (av_long, M_l)"
| "arg_kind CVargType_ULong = Some (av_ulong, M_ul)"
| "arg_kind CVargType_LongLong = Some (av_longlong, M_ll)"
| "arg_kind CVargType_ULongLong = Some (av_ulonglong, M_ull)"
| "arg_kind CVargType_Float = Some (av_float, M_f)"
| "arg_kind CVargType_Double = Some (av_double, M_d)"
| "arg_kind CVargType_Pointer = Some (av_ptr, M_p)"
| "arg_kind CVargType_Void = None"

definition avcall_arg_helper :: "CVargEntry \<Rightarrow> av_arg list \<Rightarrow> av_arg list" where
  "avcall_arg_helper entry alist =
     (case Option.bind (num_type (entry_type entry)) arg_kind of
        None \<Rightarrow> alist
      | Some (k, m) \<Rightarrow> alist @ [(k, read_member m entry)])"

text \<open>The variadic part; \<open>promote\<close> is the conversion of a float to double, on bits.\<close>

definition avcall_vararg_helper ::
    "bool \<Rightarrow> (64 word \<Rightarrow> 64 word) \<Rightarrow> CVargEntry \<Rightarrow> av_arg list \<Rightarrow> av_arg list" where
  "avcall_vararg_helper riscv64 promote entry alist =
     (if riscv64 \<and> (entry_type entry = type_num CVargType_Double \<or> entry_type entry = type_num CVargType_Float)
      then alist @ [(av_longlong,
             if entry_type entry = type_num CVargType_Double then read_member M_d entry
             else promote (read_member M_f entry))]
      else avcall_arg_helper entry alist)"

text \<open>An argument count: negative means up to the sentinel; reading past the entries is undefined.\<close>

definition arg_count :: "int \<Rightarrow> CVargEntry list option \<Rightarrow> nat option" where
  "arg_count argc argv =
     (case (if argc < 0 then CVargEntryLength argv else Some argc) of
        None \<Rightarrow> None
      | Some n \<Rightarrow> if nat n \<le> length (case argv of None \<Rightarrow> [] | Some argv \<Rightarrow> argv) then Some (nat n) else None)"

text \<open>
  ffcall writes the result at the return kind's own width, which for the \<open>unsigned long\<close> kind
  is wider than the member it is given the address of.
\<close>

fun kind_bits :: "av_kind \<Rightarrow> nat" where
  "kind_bits av_void = 0"
| "kind_bits av_char = 8"
| "kind_bits av_uchar = 8"
| "kind_bits av_short = 16"
| "kind_bits av_ushort = 16"
| "kind_bits av_int = 32"
| "kind_bits av_uint = 32"
| "kind_bits av_long = 64"
| "kind_bits av_ulong = 64"
| "kind_bits av_longlong = 64"
| "kind_bits av_ulonglong = 64"
| "kind_bits av_float = 32"
| "kind_bits av_double = 64"
| "kind_bits av_ptr = 64"

definition put_result :: "av_kind \<Rightarrow> 64 word \<Rightarrow> CVargEntry \<Rightarrow> CVargEntry" where
  "put_result k v entry = entry\<lparr>entry_bits :=
     push_bit (kind_bits k) (drop_bit (kind_bits k) (entry_bits entry)) OR take_bit (kind_bits k) v\<rparr>"

definition adaptor_call ::
    "bool \<Rightarrow> (64 word \<Rightarrow> 64 word) \<Rightarrow> native \<Rightarrow> int \<Rightarrow> CVargEntry list option \<Rightarrow> int \<Rightarrow> CVargEntry list option \<Rightarrow>
     CVargEntry \<Rightarrow> CVargEntry option" where
  "adaptor_call riscv64 promote func argc1 argv1 argc2 argv2 ret =
     (case arg_count argc1 argv1 of
        None \<Rightarrow> None
      | Some n1 \<Rightarrow>
     (case arg_count argc2 argv2 of
        None \<Rightarrow> None
      | Some n2 \<Rightarrow>
     (case avcall_start_helper ret of
        None \<Rightarrow> None
      | Some k \<Rightarrow>
          (let alist = foldl (\<lambda>l i. avcall_arg_helper (the argv1 ! i) l) [] [0..<n1];
               alist = foldl (\<lambda>l i. avcall_vararg_helper riscv64 promote (the argv2 ! i) l) alist [0..<n2]
           in Some (put_result k (func k alist) ret)))))"

text \<open>
  \<open>vcall\<close> goes through \<open>vcall_forward\<close>: a callee that takes a \<open>va_list\<close> gets its fixed arguments
  and the variadic ones behind the list.
\<close>

type_synonym va_native = "av_kind \<Rightarrow> av_arg list \<Rightarrow> av_arg list \<Rightarrow> 64 word"

definition vcall_forward ::
    "va_native \<Rightarrow> int \<Rightarrow> CVargEntry list option \<Rightarrow> CVargEntry \<Rightarrow> av_arg list \<Rightarrow> CVargEntry option" where
  "vcall_forward func argc1 argv1 ret ap =
     (case arg_count argc1 argv1 of
        None \<Rightarrow> None
      | Some n1 \<Rightarrow>
     (case avcall_start_helper ret of
        None \<Rightarrow> None
      | Some k \<Rightarrow>
          Some (put_result k (func k (foldl (\<lambda>l i. avcall_arg_helper (the argv1 ! i) l) [] [0..<n1]) ap) ret)))"

definition adaptor_vcall ::
    "bool \<Rightarrow> (64 word \<Rightarrow> 64 word) \<Rightarrow> va_native \<Rightarrow> int \<Rightarrow> CVargEntry list option \<Rightarrow> int \<Rightarrow> CVargEntry list option \<Rightarrow>
     CVargEntry \<Rightarrow> CVargEntry option" where
  "adaptor_vcall riscv64 promote func argc1 argv1 argc2 argv2 ret =
     (case arg_count argc2 argv2 of
        None \<Rightarrow> None
      | Some n2 \<Rightarrow>
          vcall_forward func argc1 argv1 ret
            (foldl (\<lambda>l i. avcall_vararg_helper riscv64 promote (the argv2 ! i) l) [] [0..<n2]))"

subsection \<open>Calling by format and extracting arguments\<close>

text \<open>
  \<open>args\<close> lists the bytes behind each argument pointer, \<open>ret\<close> those behind the result pointer
  (\<open>None\<close> for a null one).  The result is the new contents of \<open>ret\<close>; \<open>None\<close> is a failed
  assertion or an access out of range.
\<close>

definition box_args :: "string \<Rightarrow> 8 word list list \<Rightarrow> CVargEntry list option" where
  "box_args fmt args =
     for_each (\<lambda>i vargs.
        if i < length args
        then map_option (\<lambda>e. vargs[i := e]) (arg_entry (fmt ! (i + 2)) (vargs ! i) (args ! i))
        else None)
       [0..<length fmt - 2] (replicate (length fmt - 2) \<lparr>entry_type = 0, entry_bits = 0\<rparr>)"

text \<open>The switch that stores the result: the type stored through the pointer, and the member read.\<close>

fun ret_store :: "CVargType \<Rightarrow> (c_type \<times> cvarg_member) option" where
  "ret_store CVargType_Char = Some (C_char, M_c)"
| "ret_store CVargType_UChar = Some (C_uchar, M_uc)"
| "ret_store CVargType_Short = Some (C_short, M_s)"
| "ret_store CVargType_UShort = Some (C_ushort, M_us)"
| "ret_store CVargType_Int = Some (C_int, M_i)"
| "ret_store CVargType_UInt = Some (C_uint, M_u)"
| "ret_store CVargType_Long = Some (C_long, M_l)"
| "ret_store CVargType_ULong = Some (C_ulong, M_ul)"
| "ret_store CVargType_LongLong = Some (C_longlong, M_ll)"
| "ret_store CVargType_ULongLong = Some (C_ulonglong, M_ull)"
| "ret_store CVargType_Float = Some (C_float, M_f)"
| "ret_store CVargType_Double = Some (C_double, M_d)"
| "ret_store CVargType_Pointer = Some (C_pointer, M_p)"
| "ret_store CVargType_Void = None"

definition callFormatBox64 ::
    "bool \<Rightarrow> (64 word \<Rightarrow> 64 word) \<Rightarrow> native \<Rightarrow> string \<Rightarrow> 8 word list list \<Rightarrow> 8 word list option \<Rightarrow>
     8 word list option option" where
  "callFormatBox64 riscv64 promote func fmt args ret =
     (if length fmt < 2 \<or> fmt ! 1 \<noteq> CHR ''_'' then None
      else
        (let vret = ret_entry (fmt ! 0) \<lparr>entry_type = 0, entry_bits = 0\<rparr>
         in case box_args fmt args of
              None \<Rightarrow> None
            | Some vargs \<Rightarrow>
           (case adaptor_call riscv64 promote func (int (length vargs)) (Some vargs) 0 None vret of
              None \<Rightarrow> None
            | Some vret \<Rightarrow>
               (case ret of
                  None \<Rightarrow> Some None
                | Some p \<Rightarrow>
                   (case Option.bind (num_type (entry_type vret)) ret_store of
                      None \<Rightarrow> Some (Some p)
                    | Some (t, m) \<Rightarrow> map_option Some (store_raw t (read_member m vret) p))))))"

text \<open>
  Extraction: the walker fills \<open>out\<close> with the consumed arguments and a sentinel; the entries
  before it are counted.
\<close>

datatype format_style = PrintF | ScanF | OtherStyle

definition extract_args ::
    "(string \<Rightarrow> 'va \<Rightarrow> CVargEntry list \<Rightarrow> CVargEntry list) \<Rightarrow> string \<Rightarrow> 'va \<Rightarrow> CVargEntry list \<Rightarrow>
     (int \<times> CVargEntry list) option" where
  "extract_args walk fmt ap out =
     (let out = walk fmt ap out in map_option (\<lambda>n. (n, out)) (entries_length out))"

definition va_extract ::
    "(string \<Rightarrow> 'va \<Rightarrow> CVargEntry list \<Rightarrow> CVargEntry list) \<Rightarrow> (string \<Rightarrow> 'va \<Rightarrow> CVargEntry list \<Rightarrow> CVargEntry list) \<Rightarrow>
     format_style \<Rightarrow> string \<Rightarrow> 'va \<Rightarrow> CVargEntry list \<Rightarrow> (int \<times> CVargEntry list) option" where
  "va_extract mp_vsnprintf mp_vsnprintf_scanf style fmt ap out =
     (case style of
        PrintF \<Rightarrow> extract_args mp_vsnprintf fmt ap out
      | ScanF \<Rightarrow> extract_args mp_vsnprintf_scanf fmt ap out
      | OtherStyle \<Rightarrow> Some (- 1, out))"

subsection \<open>Lemmas\<close>

lemma num_type_num [simp]: "num_type (type_num t) = Some t"
  by (cases t) (simp_all add: num_type_def all_types_def)

lemma type_num_0 [simp]: "type_num t = 0 \<longleftrightarrow> t = CVargType_Void" "0 = type_num t \<longleftrightarrow> t = CVargType_Void"
  by (cases t; simp)+

lemma type_num_inj [simp]: "type_num s = type_num t \<longleftrightarrow> s = t"
  by (metis num_type_num option.inject)

lemma num_type_0 [simp]: "num_type 0 = Some CVargType_Void"
  using num_type_num [of CVargType_Void] by simp

lemma num_typeD: "num_type n = Some t \<Longrightarrow> type_num t = n"
  by (auto simp: num_type_def find_Some_iff)

lemma read_write [simp]: "read_member m (write_member m v e) = take_bit (member_bits m) v"
  unfolding read_member_def write_member_def
  by (rule bit_word_eqI) (auto simp: bit_simps)

lemma entry_type_write [simp]: "entry_type (write_member m v e) = entry_type e"
  by (simp add: write_member_def)

lemma entry_type_put_result [simp]: "entry_type (put_result k v e) = entry_type e"
  by (simp add: put_result_def)

text \<open>Which result bits survive: those the callee returns, cut to the member that is read back.\<close>

lemma read_put_result:
  "member_bits m \<le> kind_bits k \<Longrightarrow> read_member m (put_result k v e) = take_bit (member_bits m) v"
  unfolding read_member_def put_result_def by (auto intro!: bit_word_eqI simp: bit_simps)

text \<open>What one entry adds to an argument list.\<close>

definition entry_args :: "CVargEntry \<Rightarrow> av_arg list" where
  "entry_args e = avcall_arg_helper e []"

definition vararg_args :: "bool \<Rightarrow> (64 word \<Rightarrow> 64 word) \<Rightarrow> CVargEntry \<Rightarrow> av_arg list" where
  "vararg_args riscv64 promote e = avcall_vararg_helper riscv64 promote e []"

lemma avcall_arg_entry: "avcall_arg_helper e l = l @ entry_args e"
  by (simp add: avcall_arg_helper_def entry_args_def split: option.split)

lemma avcall_vararg_entry: "avcall_vararg_helper rv pr e l = l @ vararg_args rv pr e"
  by (auto simp: avcall_vararg_helper_def vararg_args_def avcall_arg_entry [of e l] entry_args_def)

lemma foldl_append_concat: "foldl (\<lambda>l i. l @ f i) l is = l @ concat (map f is)"
  by (induction "is" arbitrary: l) simp_all

lemma call_args:
  assumes "n \<le> length es"
  shows "foldl (\<lambda>l i. avcall_arg_helper (es ! i) l) [] [0..<n] = concat (map entry_args (take n es))"
    and "foldl (\<lambda>l i. avcall_vararg_helper rv pr (es ! i) l) l [0..<n] = l @ concat (map (vararg_args rv pr) (take n es))"
proof -
  have "map (\<lambda>i. f (es ! i)) [0..<n] = map f (take n es)" for f :: "CVargEntry \<Rightarrow> av_arg list"
    using assms by (auto simp: list_eq_iff_nth_eq)
  then show "foldl (\<lambda>l i. avcall_arg_helper (es ! i) l) [] [0..<n] = concat (map entry_args (take n es))"
    "foldl (\<lambda>l i. avcall_vararg_helper rv pr (es ! i) l) l [0..<n] = l @ concat (map (vararg_args rv pr) (take n es))"
    by (simp_all add: avcall_arg_entry avcall_vararg_entry foldl_append_concat)
qed

lemma entry_length_sentinel:
  "list_all (\<lambda>e. entry_type e \<noteq> 0) es \<Longrightarrow> entry_type s = 0 \<Longrightarrow>
     entries_length (es @ s # junk) = Some (int (length es))"
  by (induction es) simp_all

lemma arg_count_sentinel:
  "list_all (\<lambda>e. entry_type e \<noteq> 0) es \<Longrightarrow> entry_type s = 0 \<Longrightarrow> argc < 0 \<Longrightarrow>
     arg_count argc (Some (es @ s # junk)) = Some (length es)"
  by (simp add: arg_count_def CVargEntryLength_def entry_length_sentinel)

subsection \<open>What a C caller means\<close>

text \<open>
  The documented codes with their C types, and how a callee of that C type is to be called: the kinds of
  arguments and results, and the bits of a value that arrive. All of a value arrives but of an
  \<open>unsigned long\<close>.
\<close>

definition code_types :: "(char \<times> c_type) list" where
  "code_types =
     [(CHR ''c'', C_char), (CHR ''C'', C_uchar), (CHR ''s'', C_short), (CHR ''S'', C_ushort), (CHR ''i'', C_int), (CHR ''I'', C_uint),
      (CHR ''l'', C_long), (CHR ''u'', C_ulong), (CHR ''L'', C_longlong), (CHR ''U'', C_ulonglong), (CHR ''f'', C_float),
      (CHR ''F'', C_double), (CHR ''p'', C_pointer)]"

definition c_kinds :: "(c_type \<times> av_kind) list" where
  "c_kinds =
     [(C_char, av_char), (C_uchar, av_uchar), (C_short, av_short), (C_ushort, av_ushort), (C_int, av_int), (C_uint, av_uint),
      (C_long, av_long), (C_ulong, av_ulong), (C_longlong, av_longlong), (C_ulonglong, av_ulonglong), (C_float, av_float),
      (C_double, av_double), (C_pointer, av_ptr)]"

text \<open>Two kinds of the same width and registers take the place of their unsigned ones.\<close>

definition passed_kind :: "c_type \<Rightarrow> av_kind" where
  "passed_kind t = (if t = C_uint then av_int else the (map_of c_kinds t))"

definition returned_kind :: "c_type \<Rightarrow> av_kind" where
  "returned_kind t = (if t = C_ulonglong then av_longlong else the (map_of c_kinds t))"

definition kept_bits :: "c_type \<Rightarrow> 64 word \<Rightarrow> 64 word" where
  "kept_bits t v = take_bit (if t = C_ulong then 32 else lp64_bits t) v"

text \<open>The type of a value without its qualifiers; an enumeration counts as its underlying type.\<close>

fun value_type :: "c_type \<Rightarrow> c_type" where
  "value_type (C_cv t) = value_type t"
| "value_type (C_enum t) = t"
| "value_type t = t"

lemma code_tables:
  "case arg_code c of
     None \<Rightarrow> map_of code_types c = None
   | Some (t, m, ct) \<Rightarrow> map_of code_types c = Some ct \<and> arg_kind t = Some (passed_kind ct, m) \<and>
       member_bits m = (if ct = C_ulong then 32 else lp64_bits ct)"
  by (simp add: arg_code_def code_types_def passed_kind_def c_kinds_def)

lemma result_tables:
  "case map_of code_types c of
     None \<Rightarrow> ret_code c = CVargType_Void
   | Some ct \<Rightarrow> \<exists>m. ret_store (ret_code c) = Some (ct, m) \<and> start_kind (ret_code c) = returned_kind ct \<and>
       member_bits m = (if ct = C_ulong then 32 else lp64_bits ct) \<and> member_bits m \<le> kind_bits (returned_kind ct)"
  by (simp add: ret_code_def code_types_def returned_kind_def c_kinds_def)

text \<open>What a format code and the bytes of an argument add to an argument list.\<close>

definition code_args :: "char \<Rightarrow> 8 word list \<Rightarrow> av_arg list" where
  "code_args c a =
     (case map_of code_types c of
        None \<Rightarrow> []
      | Some t \<Rightarrow> [(passed_kind t, kept_bits t (of_bytes (take (lp64_bits t div 8) a)))])"

definition code_fits :: "char \<Rightarrow> 8 word list \<Rightarrow> bool" where
  "code_fits c a \<longleftrightarrow> (case map_of code_types c of None \<Rightarrow> True | Some t \<Rightarrow> lp64_bits t div 8 \<le> length a)"

definition box_of :: "char \<Rightarrow> 8 word list \<Rightarrow> CVargEntry" where
  "box_of c a = the (arg_entry c \<lparr>entry_type = 0, entry_bits = 0\<rparr> a)"

lemma box_of_fits:
  assumes "code_fits c a"
  shows "arg_entry c \<lparr>entry_type = 0, entry_bits = 0\<rparr> a = Some (box_of c a)" "entry_args (box_of c a) = code_args c a"
proof -
  have "\<exists>e. arg_entry c \<lparr>entry_type = 0, entry_bits = 0\<rparr> a = Some e \<and> entry_args e = code_args c a"
  proof (cases "arg_code c")
    case None
    then show ?thesis using code_tables [of c] by (simp add: arg_entry_def entry_args_def avcall_arg_helper_def code_args_def)
  next
    case (Some p)
    obtain t m ct where p: "p = (t, m, ct)" by (cases p)
    have t: "map_of code_types c = Some ct" "arg_kind t = Some (passed_kind ct, m)" "member_bits m = (if ct = C_ulong then 32 else lp64_bits ct)"
      using code_tables [of c] by (simp_all add: Some p)
    then have "load_raw ct a = Some (of_bytes (take (lp64_bits ct div 8) a))" using assms by (simp add: load_raw_def code_fits_def)
    then show ?thesis using t
      by (simp add: arg_entry_def Some p entry_args_def avcall_arg_helper_def code_args_def kept_bits_def del: type_num.simps arg_kind.simps lp64_bits.simps)
  qed
  then show "arg_entry c \<lparr>entry_type = 0, entry_bits = 0\<rparr> a = Some (box_of c a)" "entry_args (box_of c a) = code_args c a"
    by (auto simp: box_of_def)
qed

lemma box_args_map:
  assumes "length codes \<le> length args" and "list_all2 code_fits codes (take (length codes) args)"
  shows "box_args (r # u # codes) args = Some (map2 box_of codes args)"
proof -
  let ?n = "length codes" and ?z = "\<lparr>entry_type = 0, entry_bits = 0\<rparr>"
  let ?P = "\<lambda>i vargs. vargs = take i (map2 box_of codes args) @ replicate (?n - i) ?z"
  let ?f = "\<lambda>i vargs. if i < length args
        then map_option (\<lambda>e. vargs[i := e]) (arg_entry ((r # u # codes) ! (i + 2)) (vargs ! i) (args ! i)) else None"
  have "\<exists>s'. ?f i s = Some s' \<and> ?P (Suc i) s'" if i: "i < ?n" and s: "?P i s" for i s
  proof -
    have l: "length (take i (map2 box_of codes args)) = i" using i assms(1) by simp
    have "code_fits (codes ! i) (args ! i)" using assms i by (auto simp: list_all2_conv_all_nth)
    moreover have "s ! i = ?z" using s l i by (simp add: nth_append)
    moreover have "s[i := box_of (codes ! i) (args ! i)] =
        take (Suc i) (map2 box_of codes args) @ replicate (?n - Suc i) ?z"
      using s l i assms(1) by (simp add: list_update_append take_Suc_conv_app_nth Suc_diff_Suc flip: replicate_Suc)
        (simp add: Suc_diff_Suc [symmetric])
    ultimately show ?thesis using i assms(1) by (simp add: box_of_fits(1))
  qed
  then have "\<exists>s'. for_each ?f [0..<?n] (replicate ?n ?z) = Some s' \<and> ?P ?n s'"
    by (intro for_each_upt) simp_all
  then show ?thesis using assms(1) by (simp add: box_args_def)
qed

lemma adaptor_call_fixed:
  "adaptor_call rv pr func (int (length es)) (Some es) 0 None \<lparr>entry_type = type_num t, entry_bits = b\<rparr> =
     Some (put_result (start_kind t) (func (start_kind t) (concat (map entry_args es))) \<lparr>entry_type = type_num t, entry_bits = b\<rparr>)"
  by (simp add: adaptor_call_def arg_count_def avcall_start_helper_def call_args(1))

lemma boxed_args:
  assumes "length codes \<le> length args" "list_all2 code_fits codes (take (length codes) args)"
  shows "map entry_args (map2 box_of codes args) = map2 code_args codes args"
  using assms by (auto simp: list_eq_iff_nth_eq list_all2_conv_all_nth box_of_fits(2))

lemma remove_cv_idem: "remove_cv (remove_cv t) = remove_cv t"
  by (induction t) simp_all

lemma value_type_plain: "value_type t = Enum2Underlying (remove_cv t)"
  by (induction t) simp_all

subsection \<open>Properties\<close>

text \<open>
  C25. Boxing a value of C type \<open>t\<close>: exactly the pointers, and the values of a character, integer or floating type
  that has a tag, can be boxed, an enumeration as its underlying type. Reading the box back with the same type, and
  handing it to a callee, both give the value in all the bits \<open>t\<close> has on LP64, and the callee gets it as an argument
  of that type; of an \<open>unsigned long\<close> only the low 32 bits remain.
\<close>

theorem cvarg_roundtrip:
  "map_option (\<lambda>e. (CVargValue t e, avcall_arg_helper e [])) (CVargGet junk t x) =
     (let ct = value_type t; v = kept_bits ct x
      in if ct \<in> fst ` set c_kinds \<and> (ct = C_pointer \<longrightarrow> remove_cv t = C_pointer)
         then Some (v, [(passed_kind ct, v)]) else None)"
proof -
  let ?ct = "Enum2Underlying (remove_cv t)"
  have "remove_cv t = C_pointer \<Longrightarrow> ?ct = C_pointer" by simp
  moreover have "?ct \<in> fst ` set c_kinds \<or> ?ct \<notin> fst ` set c_kinds" by simp
  ultimately show ?thesis
    by (cases "?ct") (auto simp: CVargGet_def CVargValue_def CVargValueRef_def CVargTypeID_def value_type_plain Let_def kept_bits_def
      c_kinds_def passed_kind_def avcall_arg_helper_def simp del: type_num.simps)
qed

theorem cvarg_roundtrip_witness:
  "map_option (\<lambda>e. CVargValue C_ulong e) (CVargGet 0 C_ulong 0x100000005) = Some 5 \<and>
   map_option (\<lambda>e. avcall_arg_helper e []) (CVargGet 0xFFFF (C_cv (C_enum C_short)) 0x10005) = Some [(av_short, 5)] \<and>
   CVargGet 0 C_bool 1 = None"
proof -
  have t: "take_bit 32 (0x100000005 :: 64 word) = 5" "take_bit 16 (0x10005 :: 64 word) = 5" by code_simp+
  have "map_option (\<lambda>e. (CVargValue C_ulong e, avcall_arg_helper e [])) (CVargGet 0 C_ulong 0x100000005) = Some (5, [(av_ulong, 5)])"
    unfolding cvarg_roundtrip by (simp add: Let_def kept_bits_def c_kinds_def passed_kind_def t)
  moreover have "map_option (\<lambda>e. (CVargValue (C_cv (C_enum C_short)) e, avcall_arg_helper e [])) (CVargGet 0xFFFF (C_cv (C_enum C_short)) 0x10005) = Some (5, [(av_short, 5)])"
    unfolding cvarg_roundtrip by (simp add: Let_def kept_bits_def c_kinds_def passed_kind_def t)
  moreover have "map_option (\<lambda>e. (CVargValue C_bool e, avcall_arg_helper e [])) (CVargGet 0 C_bool 1) = None"
    unfolding cvarg_roundtrip by (simp add: c_kinds_def)
  ultimately show ?thesis by (auto simp: map_option_case split: option.splits)
qed

text \<open>
  C26. A call by format hands the callee one argument per documented code, in order, as an argument of the code's C type
  with all the bits behind the argument pointer (an unknown code hands over nothing), and stores what the callee returns behind
  the result pointer, as the bytes of a value of the result's C type; of an \<open>unsigned long\<close> only 32 bits arrive both ways.
\<close>

theorem box64_calls:
  assumes "length codes \<le> length args" and "list_all2 code_fits codes (take (length codes) args)"
  shows "callFormatBox64 rv pr func (r # CHR ''_'' # codes) args ret =
    (let actuals = concat (map2 code_args codes args)
     in case map_of code_types r of
          None \<Rightarrow> Some ret
        | Some t \<Rightarrow>
            (let v = func (returned_kind t) actuals; n = lp64_bits t div 8
             in case ret of
                  None \<Rightarrow> Some None
                | Some p \<Rightarrow> if length p < n then None else Some (Some (to_bytes n (kept_bits t v) @ drop n p))))"
proof -
  let ?es = "map2 box_of codes args" and ?as = "concat (map2 code_args codes args)" and ?k = "start_kind (ret_code r)"
  have c: "adaptor_call rv pr func (int (length ?es)) (Some ?es) 0 None (ret_entry r \<lparr>entry_type = 0, entry_bits = 0\<rparr>) =
      Some (put_result ?k (func ?k ?as) \<lparr>entry_type = type_num (ret_code r), entry_bits = 0\<rparr>)"
    using adaptor_call_fixed [of rv pr func ?es "ret_code r" 0] unfolding boxed_args [OF assms] by (simp add: ret_entry_def)
  show ?thesis
  proof (cases "map_of code_types r")
    case None
    then have "ret_code r = CVargType_Void" using result_tables [of r] by simp
    then show ?thesis using c None
      by (simp add: callFormatBox64_def box_args_map [OF assms] Let_def split: option.split)
  next
    case (Some t)
    then obtain m where m: "ret_store (ret_code r) = Some (t, m)" "?k = returned_kind t"
      "member_bits m = (if t = C_ulong then 32 else lp64_bits t)" "member_bits m \<le> kind_bits (returned_kind t)"
      using result_tables [of r] by auto
    show ?thesis using c Some m
      by (simp add: callFormatBox64_def box_args_map [OF assms] Let_def read_put_result store_raw_def kept_bits_def split: option.split
        del: type_num.simps map_map ret_store.simps lp64_bits.simps)
  qed
qed

theorem box64_calls_witness:
  "callFormatBox64 False id (\<lambda>k as. if k = av_int \<and> as = [(av_ulong, 0x22222222), (av_char, 7)] then 5 else 6) ''i_uvc''
     [[0x22, 0x22, 0x22, 0x22, 1, 0, 0, 0], [], [7]] (Some [9, 9, 9, 9, 9]) =
   Some (Some [5, 0, 0, 0, 9])"
  using box64_calls [of "''uvc''" "[[0x22, 0x22, 0x22, 0x22, 1, 0, 0, 0], [], [7]]" False id
      "\<lambda>k as. if k = av_int \<and> as = [(av_ulong, 0x22222222), (av_char, 7)] then 5 else 6" "CHR ''i''" "Some [9, 9, 9, 9, 9]"]
  by (simp add: code_fits_def code_args_def code_types_def) code_simp

text \<open>
  With negative counts both ways of calling read each array up to its sentinel and no further,
  and hand over the fixed arguments and then the variadic ones, in order: \<open>call\<close> as one list,
  \<open>vcall\<close> with the variadic ones behind a \<open>va_list\<close>.
\<close>

lemma call_vcall_positional:
  assumes "list_all (\<lambda>e. entry_type e \<noteq> 0) es1" and "list_all (\<lambda>e. entry_type e \<noteq> 0) es2"
    and "entry_type s1 = 0" and "entry_type s2 = 0"
    and "num_type (entry_type ret) = Some t"
  shows "adaptor_call rv pr func (- 1) (Some (es1 @ s1 # junk1)) (- 1) (Some (es2 @ s2 # junk2)) ret =
      Some (put_result (start_kind t) (func (start_kind t)
        (concat (map entry_args es1) @ concat (map (vararg_args rv pr) es2))) ret) \<and>
    adaptor_vcall rv pr vfunc (- 1) (Some (es1 @ s1 # junk1)) (- 1) (Some (es2 @ s2 # junk2)) ret =
      Some (put_result (start_kind t) (vfunc (start_kind t)
        (concat (map entry_args es1)) (concat (map (vararg_args rv pr) es2))) ret)"
  using assms
  by (simp add: adaptor_call_def adaptor_vcall_def vcall_forward_def avcall_start_helper_def
      arg_count_sentinel call_args)

end
