(* ===== verification/Trampoline.thy ===== *)
theory Trampoline
  imports Byte_Memory
begin

text \<open>
  Function trampolines: the table of \<open>src/libs/DLCall/Tools/FunctionTrampoline.cpp\<close>, the stubs
  of \<open>Arch/*/Trampoline_codegen_*.h\<close> as machine code that is decoded and run, the interning
  allocator and the callback contexts of \<open>include/lorelei/ThunkInterface/Detail/Callback.h\<close>.
  The instruction sets are the few instructions a stub uses; \<open>mmap\<close> is a parameter.
\<close>

unbundle bit_operations_syntax

subsection \<open>Layout\<close>

definition off_saved_function :: nat where "off_saved_function = 0"
definition off_thunk_instr :: nat where "off_thunk_instr = 8"
definition off_magic_sign :: nat where "off_magic_sign = 48"
definition sizeof_trampoline :: nat where "sizeof_trampoline = 56"
definition sizeof_table :: nat where "sizeof_table = 8"

lemmas layout_defs = off_saved_function_def off_thunk_instr_def off_magic_sign_def
  sizeof_trampoline_def sizeof_table_def

text \<open>The address of \<open>table->trampoline[i]\<close>.\<close>

definition slot :: "64 word \<Rightarrow> nat \<Rightarrow> 64 word" where
  "slot table i = table + of_nat (sizeof_table + i * sizeof_trampoline)"

definition saved_function_at :: "64 word \<Rightarrow> 64 word" where
  "saved_function_at t = t + of_nat off_saved_function"

definition thunk_instr_at :: "64 word \<Rightarrow> 64 word" where
  "thunk_instr_at t = t + of_nat off_thunk_instr"

definition magic_sign_at :: "64 word \<Rightarrow> 64 word" where
  "magic_sign_at t = t + of_nat off_magic_sign"

lemmas field_defs = saved_function_at_def thunk_instr_at_def magic_sign_at_def

subsection \<open>Stub code\<close>

datatype arch = X86_64 | AArch64 | RISCV64

text \<open>The stores of \<open>tramp_gen_thunk\<close> into the buffer, in order: offset and bytes.\<close>

definition thunk_writes_x86_64 :: "64 word \<Rightarrow> 64 word \<Rightarrow> (nat \<times> 8 word list) list" where
  "thunk_writes_x86_64 target shim =
     [(0, [0x4C]), (1, [0x8B]), (2, [0x1D]), (3, to_bytes 4 (- 15)),
      (7, [0x49]), (8, [0xBA]), (9, to_bytes 8 target),
      (17, [0x48]), (18, [0xB8]), (19, to_bytes 8 shim),
      (27, [0xFF]), (28, [0xE0])]"

definition thunk_writes_aarch64 :: "64 word \<Rightarrow> 64 word \<Rightarrow> (nat \<times> 8 word list) list" where
  "thunk_writes_aarch64 target shim =
     [(0, to_bytes 4 0x58FFFFD0), (4, to_bytes 4 0x58000071), (8, to_bytes 4 0x58000089),
      (12, to_bytes 4 0xD61F0120), (16, to_bytes 8 target), (24, to_bytes 8 shim)]"

definition thunk_writes_riscv64 :: "64 word \<Rightarrow> 64 word \<Rightarrow> (nat \<times> 8 word list) list" where
  "thunk_writes_riscv64 target shim =
     [(0, to_bytes 4 0x00000E17), (4, to_bytes 4 0xFF8E3283), (8, to_bytes 4 0x018E3303),
      (12, to_bytes 4 0x020E3383), (16, to_bytes 4 0x00038067),
      (24, to_bytes 8 target), (32, to_bytes 8 shim)]"

definition thunk_writes :: "arch \<Rightarrow> 64 word \<Rightarrow> 64 word \<Rightarrow> (nat \<times> 8 word list) list" where
  "thunk_writes ar target shim =
     (case ar of
        X86_64 \<Rightarrow> thunk_writes_x86_64 target shim
      | AArch64 \<Rightarrow> thunk_writes_aarch64 target shim
      | RISCV64 \<Rightarrow> thunk_writes_riscv64 target shim)"

definition tramp_gen_thunk :: "arch \<Rightarrow> 64 word \<Rightarrow> 64 word \<Rightarrow> 64 word \<Rightarrow> memory \<Rightarrow> memory option" where
  "tramp_gen_thunk ar shim buf target m =
     for_each (\<lambda>(off, bs). store_bytes (buf + of_nat off) bs) (thunk_writes ar target shim) m"

subsection \<open>The table\<close>

text \<open>
  \<open>mmap size m\<close> is the address of a new zero-filled mapping of at least that size, with the memory
  that has it; a failed call returns an address whose use faults (\<open>None\<close>).
\<close>

definition create_slot :: "arch \<Rightarrow> 64 word \<Rightarrow> 64 word \<Rightarrow> 64 word \<Rightarrow> 64 word \<Rightarrow> nat \<Rightarrow> memory \<Rightarrow> memory option" where
  "create_slot ar shim target magic table i m =
     (case store64 (magic_sign_at (slot table i)) magic m of
        None \<Rightarrow> None
      | Some m \<Rightarrow>
     (case store64 (saved_function_at (slot table i)) 0 m of
        None \<Rightarrow> None
      | Some m \<Rightarrow> tramp_gen_thunk ar shim (thunk_instr_at (slot table i)) target m))"

definition table_create ::
    "(nat \<Rightarrow> memory \<Rightarrow> (64 word \<times> memory) option) \<Rightarrow> arch \<Rightarrow> 64 word \<Rightarrow> nat \<Rightarrow> 64 word \<Rightarrow> 64 word \<Rightarrow> memory \<Rightarrow>
     (64 word \<times> memory) option" where
  "table_create mmap ar shim count target magic m =
     (case mmap (sizeof_table + count * sizeof_trampoline) m of
        None \<Rightarrow> None
      | Some (table, m) \<Rightarrow>
     (case store64 table (of_nat count) m of
        None \<Rightarrow> None
      | Some m \<Rightarrow>
          map_option (Pair table) (for_each (create_slot ar shim target magic table) [0..<count] m)))"

text \<open>\<open>munmap\<close> of the size computed from the stored count.\<close>

definition table_destroy ::
    "(64 word \<Rightarrow> nat \<Rightarrow> memory \<Rightarrow> memory) \<Rightarrow> 64 word \<Rightarrow> memory \<Rightarrow> memory option" where
  "table_destroy munmap table m =
     map_option (\<lambda>count. munmap table (sizeof_table + unat count * sizeof_trampoline) m) (load64 table m)"

subsection \<open>Running a stub\<close>

record cpu =
  cpu_pc :: "64 word"
  cpu_reg :: "64 word \<Rightarrow> 64 word"

definition set_reg :: "64 word \<Rightarrow> 64 word \<Rightarrow> cpu \<Rightarrow> cpu" where
  "set_reg r v c = c\<lparr>cpu_reg := (cpu_reg c)(r := v)\<rparr>"

definition load_reg :: "64 word \<Rightarrow> 64 word \<Rightarrow> 64 word \<Rightarrow> memory \<Rightarrow> cpu \<Rightarrow> cpu option" where
  "load_reg r a next_pc m c = map_option (\<lambda>v. (set_reg r v c)\<lparr>cpu_pc := next_pc\<rparr>) (load64 a m)"

definition load_word :: "64 word \<Rightarrow> nat \<Rightarrow> memory \<Rightarrow> 64 word option" where
  "load_word a n m = map_option of_bytes (load_bytes a n m)"

text \<open>\<open>mov disp32(%rip), %r11\<close>, \<open>movabs\<close> to \<open>%r10\<close> and \<open>%rax\<close>, \<open>jmp *%rax\<close>.\<close>

definition step_x86_64 :: "memory \<Rightarrow> cpu \<Rightarrow> cpu option" where
  "step_x86_64 m c =
     (let pc = cpu_pc c in
      (case load_word pc 1 m of None \<Rightarrow> None | Some b0 \<Rightarrow>
      (case load_word (pc + 1) 1 m of None \<Rightarrow> None | Some b1 \<Rightarrow>
        if b0 = 0x4C \<and> b1 = 0x8B \<and> load_word (pc + 2) 1 m = Some 0x1D then
          (case load_word (pc + 3) 4 m of
             None \<Rightarrow> None
           | Some disp \<Rightarrow> load_reg 11 (pc + 7 + signed_take_bit 31 disp) (pc + 7) m c)
        else if b0 = 0x49 \<and> b1 = 0xBA then load_reg 10 (pc + 2) (pc + 10) m c
        else if b0 = 0x48 \<and> b1 = 0xB8 then load_reg 0 (pc + 2) (pc + 10) m c
        else if b0 = 0xFF \<and> b1 = 0xE0 then Some (c\<lparr>cpu_pc := cpu_reg c 0\<rparr>)
        else None)))"

definition bits_at :: "64 word \<Rightarrow> nat \<Rightarrow> nat \<Rightarrow> 64 word" where
  "bits_at w lo n = take_bit n (drop_bit lo w)"

text \<open>\<open>ldr Xt, label\<close> and \<open>br Xn\<close>.\<close>

definition step_aarch64 :: "memory \<Rightarrow> cpu \<Rightarrow> cpu option" where
  "step_aarch64 m c =
     (let pc = cpu_pc c in
      case load_word pc 4 m of
        None \<Rightarrow> None
      | Some w \<Rightarrow>
          if bits_at w 24 8 = 0x58
          then load_reg (bits_at w 0 5) (pc + 4 * signed_take_bit 18 (bits_at w 5 19)) (pc + 4) m c
          else if w AND 0xFFFFFC1F = 0xD61F0000 then Some (c\<lparr>cpu_pc := cpu_reg c (bits_at w 5 5)\<rparr>)
          else None)"

text \<open>\<open>auipc\<close>, \<open>ld\<close> and \<open>jalr x0\<close>; no instruction of a stub writes another register.\<close>

definition step_riscv64 :: "memory \<Rightarrow> cpu \<Rightarrow> cpu option" where
  "step_riscv64 m c =
     (let pc = cpu_pc c in
      case load_word pc 4 m of
        None \<Rightarrow> None
      | Some w \<Rightarrow>
          (let opcode = bits_at w 0 7; rd = bits_at w 7 5; funct3 = bits_at w 12 3; rs1 = bits_at w 15 5;
               imm = signed_take_bit 11 (bits_at w 20 12)
           in if opcode = 0x17 \<and> rd \<noteq> 0
              then Some ((set_reg rd (pc + signed_take_bit 31 (push_bit 12 (bits_at w 12 20))) c)\<lparr>cpu_pc := pc + 4\<rparr>)
              else if opcode = 0x03 \<and> funct3 = 3 \<and> rd \<noteq> 0 \<and> rs1 \<noteq> 0
              then load_reg rd (cpu_reg c rs1 + imm) (pc + 4) m c
              else if opcode = 0x67 \<and> funct3 = 0 \<and> rd = 0 \<and> rs1 \<noteq> 0
              then Some (c\<lparr>cpu_pc := (cpu_reg c rs1 + imm) AND NOT 1\<rparr>)
              else None))"

definition cpu_step :: "arch \<Rightarrow> memory \<Rightarrow> cpu \<Rightarrow> cpu option" where
  "cpu_step ar m =
     (case ar of X86_64 \<Rightarrow> step_x86_64 m | AArch64 \<Rightarrow> step_aarch64 m | RISCV64 \<Rightarrow> step_riscv64 m)"

fun run_steps :: "arch \<Rightarrow> memory \<Rightarrow> nat \<Rightarrow> cpu \<Rightarrow> cpu option" where
  "run_steps ar m 0 c = Some c"
| "run_steps ar m (Suc n) c = (case cpu_step ar m c of None \<Rightarrow> None | Some c' \<Rightarrow> run_steps ar m n c')"

text \<open>
  The shims: they store the identity register to \<open>thread_last_callback\<close> through the thread pointer
  \<open>tp\<close> and its offset \<open>tpoff\<close>, and branch to the handler register.
\<close>

definition run_shim :: "arch \<Rightarrow> 64 word \<Rightarrow> 64 word \<Rightarrow> cpu \<Rightarrow> 64 word \<times> cpu" where
  "run_shim ar tp tpoff c =
     (case ar of
        X86_64 \<Rightarrow> (cpu_reg c 11, (set_reg 0 tpoff c)\<lparr>cpu_pc := cpu_reg c 10\<rparr>)
      | AArch64 \<Rightarrow> (cpu_reg c 16, (set_reg 8 tp (set_reg 9 tpoff c))\<lparr>cpu_pc := cpu_reg c 17\<rparr>)
      | RISCV64 \<Rightarrow> (cpu_reg c 5, (set_reg 7 (tpoff + tp) c)\<lparr>cpu_pc := cpu_reg c 6 AND NOT 1\<rparr>))"

definition stub_length :: "arch \<Rightarrow> nat" where
  "stub_length ar = (case ar of RISCV64 \<Rightarrow> 5 | _ \<Rightarrow> 4)"

text \<open>
  A call of a stub with the given registers: \<open>thread_last_callback\<close> and the machine as the handler
  starts; \<open>None\<close> if the instructions cannot run or do not end at the shim.
\<close>

definition call_stub ::
    "arch \<Rightarrow> 64 word \<Rightarrow> 64 word \<Rightarrow> 64 word \<Rightarrow> memory \<Rightarrow> 64 word \<Rightarrow> (64 word \<Rightarrow> 64 word) \<Rightarrow> (64 word \<times> cpu) option" where
  "call_stub ar shim tp tpoff m stub regs =
     (case run_steps ar m (stub_length ar) \<lparr>cpu_pc = stub, cpu_reg = regs\<rparr> of
        None \<Rightarrow> None
      | Some c \<Rightarrow> if cpu_pc c = shim then Some (run_shim ar tp tpoff c) else None)"

subsection \<open>Interning callbacks\<close>

definition kMaxCallbackTrampolineCount :: nat where "kMaxCallbackTrampolineCount = 16"
definition kTrampolineMagic :: "64 word" where "kTrampolineMagic = 0x0B0F0B0F0B0F0B0F"

text \<open>
  The scan of \<open>allocCallbackTrampoline\<close> from a slot on; it has no bound, so it may run into the
  memory behind the table, where it faults in the end.
\<close>

partial_function (option) scan_slots ::
    "64 word \<Rightarrow> 64 word \<Rightarrow> memory \<Rightarrow> (64 word \<times> memory) option" where
  "scan_slots input t m =
     (case load64 (saved_function_at t) m of
        None \<Rightarrow> None
      | Some saved \<Rightarrow>
          if saved \<noteq> 0 then
            (if saved = input then Some (thunk_instr_at t, m)
             else scan_slots input (t + of_nat sizeof_trampoline) m)
          else map_option (Pair (thunk_instr_at t)) (store64 (saved_function_at t) input m))"

text \<open>\<open>tramp\<close> is the thread-local table pointer (\<open>None\<close> while null).\<close>

definition allocCallbackTrampoline ::
    "(nat \<Rightarrow> memory \<Rightarrow> (64 word \<times> memory) option) \<Rightarrow> arch \<Rightarrow> 64 word \<Rightarrow> nat \<Rightarrow> 64 word \<Rightarrow> 64 word \<Rightarrow>
     64 word option \<Rightarrow> memory \<Rightarrow> (64 word \<times> 64 word option \<times> memory) option" where
  "allocCallbackTrampoline mmap ar shim count F input tramp m =
     (if input = 0 then Some (0, tramp, m)
      else
        (case (case tramp of Some table \<Rightarrow> Some (table, m)
               | None \<Rightarrow> table_create mmap ar shim count F kTrampolineMagic m) of
           None \<Rightarrow> None
         | Some (table, m) \<Rightarrow>
             map_option (\<lambda>(stub, m). (stub, Some table, m)) (scan_slots input (slot table 0) m)))"

definition unwrapTrampoline :: "64 word \<Rightarrow> memory \<Rightarrow> 64 word option" where
  "unwrapTrampoline fp m =
     (if fp = 0 then Some fp
      else
        (let t = fp - of_nat off_thunk_instr in
         case load64 (magic_sign_at t) m of
           None \<Rightarrow> None
         | Some magic \<Rightarrow>
             if magic = kTrampolineMagic then load64 (saved_function_at t) m else Some fp))"

subsection \<open>Callback contexts\<close>

record CallbackContext =
  p_fp :: "64 word"
  org_fp :: "64 word"

definition context_default :: CallbackContext where
  "context_default = \<lparr>p_fp = 0, org_fp = 0\<rparr>"

text \<open>
  \<open>init\<close> on the slot at address \<open>fp_at\<close>; the allocator works on the memory and on its own state
  \<open>'s\<close>, \<open>is_host\<close> is \<open>isHostAddress\<close>.
\<close>

definition context_init ::
    "(64 word \<Rightarrow> bool) \<Rightarrow> bool \<Rightarrow> (64 word \<Rightarrow> 's \<Rightarrow> memory \<Rightarrow> (64 word \<times> 's \<times> memory) option) \<Rightarrow> 64 word \<Rightarrow>
     CallbackContext \<Rightarrow> 's \<Rightarrow> memory \<Rightarrow> (CallbackContext \<times> 's \<times> memory) option" where
  "context_init is_host isGuest allocator fp_at ctx s m =
     (case load64 fp_at m of
        None \<Rightarrow> None
      | Some fp \<Rightarrow>
     (case unwrapTrampoline fp m of
        None \<Rightarrow> None
      | Some real \<Rightarrow>
          if isGuest \<noteq> is_host real then
            (case allocator real s m of
               None \<Rightarrow> None
             | Some (stub, s, m) \<Rightarrow>
                 map_option (\<lambda>m. (\<lparr>p_fp = fp_at, org_fp = fp\<rparr>, s, m)) (store64 fp_at stub m))
          else if real \<noteq> fp then
            map_option (\<lambda>m. (\<lparr>p_fp = fp_at, org_fp = fp\<rparr>, s, m)) (store64 fp_at real m)
          else Some (ctx, s, m)))"

definition context_fini :: "CallbackContext \<Rightarrow> memory \<Rightarrow> memory option" where
  "context_fini ctx m = (if org_fp ctx \<noteq> 0 then store64 (p_fp ctx) (org_fp ctx) m else Some m)"

subsection \<open>A stub as the table lays it out\<close>

definition slot_off :: "nat \<Rightarrow> nat" where
  "slot_off i = sizeof_table + i * sizeof_trampoline"

lemma slot_fields:
  "slot b i = b + of_nat (slot_off i)"
  "saved_function_at (slot b i) = b + of_nat (slot_off i)"
  "thunk_instr_at (slot b i) = b + of_nat (slot_off i + 8)"
  "magic_sign_at (slot b i) = b + of_nat (slot_off i + 48)"
  by (simp_all add: slot_def slot_off_def field_defs off_saved_function_def off_thunk_instr_def
      off_magic_sign_def algebra_simps)

lemma slot_next: "slot b i + of_nat sizeof_trampoline = slot b (Suc i)"
  by (simp add: slot_def algebra_simps)

lemma writes_within: "writes_ok 0 40 (thunk_writes ar F shim)"
  by (simp add: thunk_writes_def thunk_writes_x86_64_def thunk_writes_aarch64_def thunk_writes_riscv64_def split: arch.split)

definition stub_code :: "arch \<Rightarrow> 64 word \<Rightarrow> 64 word \<Rightarrow> 64 word \<Rightarrow> memory \<Rightarrow> nat \<Rightarrow> bool" where
  "stub_code ar shim F b m a \<longleftrightarrow> (\<forall>(off, bs) \<in> set (thunk_writes ar F shim). holds b m (a + off) bs)"

text \<open>Slot \<open>i\<close> is complete and stands for \<open>f\<close> (0: free).\<close>

definition slot_ready :: "arch \<Rightarrow> 64 word \<Rightarrow> 64 word \<Rightarrow> 64 word \<Rightarrow> memory \<Rightarrow> nat \<Rightarrow> 64 word \<Rightarrow> bool" where
  "slot_ready ar shim F b m i f \<longleftrightarrow>
     holds b m (slot_off i) (to_bytes 8 f) \<and> holds b m (slot_off i + 48) (to_bytes 8 kTrampolineMagic) \<and>
     stub_code ar shim F b m (slot_off i + 8)"

lemma stub_code_stored:
  assumes "stored b sz a n m m'" "c + 40 \<le> sz" "c + 40 \<le> a \<or> a + n \<le> c"
  shows "stub_code ar shim F b m' c = stub_code ar shim F b m c"
proof -
  have "holds b m' (c + off) bs = holds b m (c + off) bs" if "(off, bs) \<in> set (thunk_writes ar F shim)" for off bs
    using writes_ok_bounds [OF writes_within [of ar F shim]] that assms(2,3)
    by (intro stored_holds [OF assms(1)]) auto
  then show ?thesis by (auto simp: stub_code_def)
qed

lemma slot_ready_stored:
  assumes "stored b sz a n m m'" "slot_off (Suc i) \<le> sz" "slot_off (Suc i) \<le> a \<or> a + n \<le> slot_off i"
  shows "slot_ready ar shim F b m' i f = slot_ready ar shim F b m i f"
proof -
  have e: "slot_off (Suc i) = slot_off i + 56" by (simp add: slot_off_def sizeof_trampoline_def)
  have "holds b m' (slot_off i) (to_bytes 8 f) = holds b m (slot_off i) (to_bytes 8 f)"
    "holds b m' (slot_off i + 48) (to_bytes 8 kTrampolineMagic) = holds b m (slot_off i + 48) (to_bytes 8 kTrampolineMagic)"
    "stub_code ar shim F b m' (slot_off i + 8) = stub_code ar shim F b m (slot_off i + 8)"
    using assms e by (auto intro!: stored_holds [OF assms(1)] stub_code_stored [OF assms(1)])
  then show ?thesis by (simp add: slot_ready_def)
qed

lemma slot_off_mono: "i < j \<Longrightarrow> slot_off (Suc i) \<le> slot_off j"
  by (auto simp: slot_off_def sizeof_trampoline_def)

text \<open>Creating one slot.\<close>

lemma create_slot_ready:
  assumes "block b sz m" "slot_off (Suc i) \<le> sz"
  shows "\<exists>m'. create_slot ar shim F kTrampolineMagic b i m = Some m' \<and>
    stored b sz (slot_off i) sizeof_trampoline m m' \<and> slot_ready ar shim F b m' i 0"
proof -
  have e: "slot_off i + 56 \<le> sz" using assms(2) by (simp add: slot_off_def sizeof_trampoline_def)
  obtain m1 where m1: "store64 (b + of_nat (slot_off i + 48)) kTrampolineMagic m = Some m1"
    "stored b sz (slot_off i + 48) 8 m m1" "holds b m1 (slot_off i + 48) (to_bytes 8 kTrampolineMagic)"
    using store64_stored [OF assms(1), of "slot_off i + 48"] e by auto
  obtain m2 where m2: "store64 (b + of_nat (slot_off i)) 0 m1 = Some m2"
    "stored b sz (slot_off i) 8 m1 m2" "holds b m2 (slot_off i) (to_bytes 8 0)"
    using store64_stored [OF stored_block [OF m1(2)], of "slot_off i" 0] e by auto
  obtain m3 where m3: "tramp_gen_thunk ar shim (b + of_nat (slot_off i + 8)) F m2 = Some m3"
    "stored b sz (slot_off i + 8) 40 m2 m3" "stub_code ar shim F b m3 (slot_off i + 8)"
    using store_writes [OF stored_block [OF m2(2)] writes_within [of ar F shim], of "slot_off i + 8"] e
    unfolding tramp_gen_thunk_def stub_code_def by auto
  have "stored b sz (slot_off i) 56 m m3"
    using stored_trans [OF stored_trans [OF m1(2) m2(2), of "slot_off i" 56] m3(2), of "slot_off i" 56] by simp
  moreover have "holds b m3 (slot_off i) (to_bytes 8 0)"
    using stored_holds [OF m3(2)] m2(3) e by simp
  moreover have "holds b m3 (slot_off i + 48) (to_bytes 8 kTrampolineMagic)"
    using stored_holds [OF m3(2), of "slot_off i + 48" "to_bytes 8 kTrampolineMagic"]
      stored_holds [OF m2(2), of "slot_off i + 48" "to_bytes 8 kTrampolineMagic"] m1(3) e by simp
  ultimately show ?thesis
    using m1(1) m2(1) m3(1,3)
    by (simp add: create_slot_def slot_fields(2-4) slot_ready_def sizeof_trampoline_def del: of_nat_add)
qed

text \<open>
  A table whose first slots stand for the functions \<open>fs\<close> and whose other slots are free, on a block
  of \<open>sz\<close> bytes.
\<close>

definition interned ::
    "arch \<Rightarrow> 64 word \<Rightarrow> 64 word \<Rightarrow> 64 word \<Rightarrow> nat \<Rightarrow> nat \<Rightarrow> 64 word list \<Rightarrow> memory \<Rightarrow> bool" where
  "interned ar shim F b count sz fs m \<longleftrightarrow>
     block b sz m \<and> \<not> mem_mapped m 0 \<and> slot_off count \<le> sz \<and> length fs \<le> count \<and> distinct fs \<and> 0 \<notin> set fs \<and>
     (\<forall>i < count. slot_ready ar shim F b m i (if i < length fs then fs ! i else 0))"

lemma create_slots:
  assumes "block b sz m" "slot_off count \<le> sz"
  shows "\<exists>m'. for_each (create_slot ar shim F kTrampolineMagic b) [0..<count] m = Some m' \<and>
    stored b sz (slot_off 0) (slot_off count - slot_off 0) m m' \<and> (\<forall>j < count. slot_ready ar shim F b m' j 0)"
proof -
  let ?P = "\<lambda>i m'. stored b sz (slot_off 0) (slot_off count - slot_off 0) m m' \<and> (\<forall>j < i. slot_ready ar shim F b m' j 0)"
  have o: "slot_off 0 \<le> slot_off i" "slot_off (Suc i) = slot_off i + sizeof_trampoline" for i
    by (simp_all add: slot_off_def)
  have "\<exists>t. create_slot ar shim F kTrampolineMagic b i s = Some t \<and> ?P (Suc i) t" if i: "i < count" and P: "?P i s" for i s
  proof -
    have sz: "slot_off (Suc i) \<le> sz" using slot_off_mono [OF i] assms(2) by simp
    obtain t where t: "create_slot ar shim F kTrampolineMagic b i s = Some t"
      "stored b sz (slot_off i) sizeof_trampoline s t" "slot_ready ar shim F b t i 0"
      using create_slot_ready [OF stored_block sz] P by blast
    have "stored b sz (slot_off 0) (slot_off count - slot_off 0) m t"
      using stored_trans [OF conjunct1 [OF P] t(2)] o slot_off_mono [OF i] by simp
    moreover have "slot_ready ar shim F b t j 0" if "j < i" for j
      using slot_ready_stored [OF t(2)] slot_off_mono [OF that] P that sz o by auto
    ultimately show ?thesis using t less_Suc_eq by auto
  qed
  then show ?thesis using for_each_upt [of 0 count ?P m] assms(1) stored_refl by auto
qed

text \<open>Registers a stub and its shim write.\<close>

definition clobbers :: "arch \<Rightarrow> 64 word set" where
  "clobbers ar = (case ar of X86_64 \<Rightarrow> {0, 10, 11} | AArch64 \<Rightarrow> {8, 9, 16, 17} | RISCV64 \<Rightarrow> {5, 6, 7, 28})"

text \<open>Instruction addresses are even on RISC-V.\<close>

definition code_address :: "arch \<Rightarrow> 64 word \<Rightarrow> bool" where
  "code_address ar a \<longleftrightarrow> ar = RISCV64 \<longrightarrow> a AND NOT 1 = a"

definition stub_ready :: "arch \<Rightarrow> 64 word \<Rightarrow> 64 word \<Rightarrow> memory \<Rightarrow> 64 word \<Rightarrow> 64 word \<Rightarrow> bool" where
  "stub_ready ar shim F m a f \<longleftrightarrow>
     load64 (a - 8) m = Some f \<and>
     (\<forall>(off, bs) \<in> set (thunk_writes ar F shim). load_bytes (a + of_nat off) (length bs) m = Some bs)"

lemma slot_ready_stub:
  assumes "block b sz m" "slot_ready ar shim F b m i f" "slot_off (Suc i) \<le> sz"
  shows "stub_ready ar shim F m (thunk_instr_at (slot b i)) f"
proof -
  have e: "slot_off i + 56 \<le> sz" using assms(3) by (simp add: slot_off_def sizeof_trampoline_def)
  have "load64 (b + of_nat (slot_off i)) m = Some f"
    using load64_holds [OF assms(1)] assms(2) e by (simp add: slot_ready_def)
  moreover have "load_bytes (b + of_nat (slot_off i + 8) + of_nat off) (length bs) m = Some bs"
    if "(off, bs) \<in> set (thunk_writes ar F shim)" for off bs
  proof -
    have "off + length bs \<le> 40" using writes_ok_bounds [OF writes_within [of ar F shim]] that by auto
    moreover have "holds b m (slot_off i + 8 + off) bs"
      using assms(2) that by (auto simp: slot_ready_def stub_code_def)
    ultimately have "load_bytes (b + of_nat (slot_off i + 8 + off)) (length bs) m = Some bs"
      using e by (intro load_holds [OF assms(1)]) simp_all
    then show ?thesis by (simp add: add.assoc)
  qed
  ultimately show ?thesis by (auto simp: stub_ready_def slot_fields(3))
qed

text \<open>The constants baked into the code, as the decoders see them.\<close>

lemma stub_constants:
  "of_bytes [0x4C] = 0x4C" "of_bytes [0x8B] = 0x8B" "of_bytes [0x1D] = 0x1D" "of_bytes [0x49] = 0x49"
  "of_bytes [0xBA] = 0xBA" "of_bytes [0x48] = 0x48" "of_bytes [0xB8] = 0xB8" "of_bytes [0xFF] = 0xFF"
  "of_bytes [0xE0] = 0xE0" "signed_take_bit 31 (of_bytes (to_bytes 4 (- 15))) = (- 15 :: 64 word)"
  "of_bytes (to_bytes 4 0x58FFFFD0) = 0x58FFFFD0" "of_bytes (to_bytes 4 0x58000071) = 0x58000071"
  "of_bytes (to_bytes 4 0x58000089) = 0x58000089" "of_bytes (to_bytes 4 0xD61F0120) = 0xD61F0120"
  "of_bytes (to_bytes 4 0x00000E17) = 0x00000E17" "of_bytes (to_bytes 4 0xFF8E3283) = 0xFF8E3283"
  "of_bytes (to_bytes 4 0x018E3303) = 0x018E3303" "of_bytes (to_bytes 4 0x020E3383) = 0x020E3383"
  "of_bytes (to_bytes 4 0x00038067) = 0x00038067"
  by code_simp+

lemma aarch64_fields:
  "bits_at 0x58FFFFD0 24 8 = 0x58" "bits_at 0x58FFFFD0 0 5 = 16" "signed_take_bit 18 (bits_at 0x58FFFFD0 5 19) = - 2"
  "bits_at 0x58000071 24 8 = 0x58" "bits_at 0x58000071 0 5 = 17" "signed_take_bit 18 (bits_at 0x58000071 5 19) = 3"
  "bits_at 0x58000089 24 8 = 0x58" "bits_at 0x58000089 0 5 = 9" "signed_take_bit 18 (bits_at 0x58000089 5 19) = 4"
  "bits_at 0xD61F0120 24 8 = 0xD6" "bits_at 0xD61F0120 5 5 = 9" "(0xD61F0120 :: 64 word) AND 0xFFFFFC1F = 0xD61F0000"
  by code_simp+

lemma riscv64_fields:
  "bits_at 0xE17 0 7 = 0x17" "bits_at 0xE17 7 5 = 28" "bits_at 0xE17 12 20 = 0"
  "bits_at 0xFF8E3283 0 7 = 3" "bits_at 0xFF8E3283 7 5 = 5" "bits_at 0xFF8E3283 12 3 = 3"
  "bits_at 0xFF8E3283 15 5 = 28" "signed_take_bit 11 (bits_at 0xFF8E3283 20 12) = - 8"
  "bits_at 0x018E3303 0 7 = 3" "bits_at 0x018E3303 7 5 = 6" "bits_at 0x018E3303 12 3 = 3"
  "bits_at 0x018E3303 15 5 = 28" "signed_take_bit 11 (bits_at 0x018E3303 20 12) = 24"
  "bits_at 0x020E3383 0 7 = 3" "bits_at 0x020E3383 7 5 = 7" "bits_at 0x020E3383 12 3 = 3"
  "bits_at 0x020E3383 15 5 = 28" "signed_take_bit 11 (bits_at 0x020E3383 20 12) = 32"
  "bits_at 0x00038067 0 7 = 0x67" "bits_at 0x00038067 7 5 = 0" "bits_at 0x00038067 12 3 = 0"
  "bits_at 0x00038067 15 5 = 7" "signed_take_bit 11 (bits_at 0x00038067 20 12) = 0"
  by code_simp+

text \<open>The loads of a complete stub.\<close>

lemma stub_word:
  assumes "stub_ready ar shim F m a f" "(off, bs) \<in> set (thunk_writes ar F shim)"
  shows "load_word (a + of_nat off) (length bs) m = Some (of_bytes bs)"
  using assms by (auto simp: stub_ready_def load_word_def)

lemma run_steps_Cons:
  "cpu_step ar m c = Some c' \<Longrightarrow> run_steps ar m (Suc n) c = run_steps ar m n c'"
  by simp

lemma load64_word: "load64 a m = load_word a 8 m"
  by (simp add: load64_def load_word_def)

lemma stub_steps_x86_64:
  assumes "stub_ready X86_64 shim F m a f"
  shows "run_steps X86_64 m 4 \<lparr>cpu_pc = a, cpu_reg = regs\<rparr> =
    Some \<lparr>cpu_pc = shim, cpu_reg = regs(11 := f, 10 := F, 0 := shim)\<rparr>"
proof -
  note w = stub_word [OF assms, unfolded thunk_writes_def thunk_writes_x86_64_def arch.case]
  have l: "load_word a 1 m = Some 0x4C" "load_word (a + 1) 1 m = Some 0x8B" "load_word (a + 2) 1 m = Some 0x1D"
    "load_word (a + 7) 1 m = Some 0x49" "load_word (a + 8) 1 m = Some 0xBA" "load_word (a + 9) 8 m = Some F"
    "load_word (a + 17) 1 m = Some 0x48" "load_word (a + 18) 1 m = Some 0xB8" "load_word (a + 19) 8 m = Some shim"
    "load_word (a + 27) 1 m = Some 0xFF" "load_word (a + 28) 1 m = Some 0xE0"
    using w [of 0 "[0x4C]"] w [of 1 "[0x8B]"] w [of 2 "[0x1D]"] w [of 7 "[0x49]"] w [of 8 "[0xBA]"]
      w [of 9 "to_bytes 8 F"] w [of 17 "[0x48]"] w [of 18 "[0xB8]"] w [of 19 "to_bytes 8 shim"]
      w [of 27 "[0xFF]"] w [of 28 "[0xE0]"]
    by (simp_all add: stub_constants(1-9) del: of_bytes.simps)
  have d: "load_word (a + 3) 4 m = Some (of_bytes (to_bytes 4 (- 15)))"
    using w [of 3 "to_bytes 4 (- 15)"] by simp
  have f: "load_word (a - 8) 8 m = Some f" using assms by (simp add: stub_ready_def load64_word)
  have s: "cpu_step X86_64 m \<lparr>cpu_pc = a, cpu_reg = r\<rparr> = Some \<lparr>cpu_pc = a + 7, cpu_reg = r(11 := f)\<rparr>"
    "cpu_step X86_64 m \<lparr>cpu_pc = a + 7, cpu_reg = r\<rparr> = Some \<lparr>cpu_pc = a + 17, cpu_reg = r(10 := F)\<rparr>"
    "cpu_step X86_64 m \<lparr>cpu_pc = a + 17, cpu_reg = r\<rparr> = Some \<lparr>cpu_pc = a + 27, cpu_reg = r(0 := shim)\<rparr>"
    "cpu_step X86_64 m \<lparr>cpu_pc = a + 27, cpu_reg = r\<rparr> = Some \<lparr>cpu_pc = r 0, cpu_reg = r\<rparr>" for r
    using l d f stub_constants(10)
    by (simp_all add: cpu_step_def step_x86_64_def load_reg_def set_reg_def load64_word add.assoc)
  have n: "4 = Suc (Suc (Suc (Suc 0)))" by simp
  show ?thesis by (simp add: n s)
qed

lemma stub_steps_aarch64:
  assumes "stub_ready AArch64 shim F m a f"
  shows "run_steps AArch64 m 4 \<lparr>cpu_pc = a, cpu_reg = regs\<rparr> =
    Some \<lparr>cpu_pc = shim, cpu_reg = regs(16 := f, 17 := F, 9 := shim)\<rparr>"
proof -
  note w = stub_word [OF assms, unfolded thunk_writes_def thunk_writes_aarch64_def arch.case]
  have l: "load_word a 4 m = Some 0x58FFFFD0" "load_word (a + 4) 4 m = Some 0x58000071"
    "load_word (a + 8) 4 m = Some 0x58000089" "load_word (a + 12) 4 m = Some 0xD61F0120"
    "load_word (a + 16) 8 m = Some F" "load_word (a + 24) 8 m = Some shim"
    using w [of 0 "to_bytes 4 0x58FFFFD0"] w [of 4 "to_bytes 4 0x58000071"] w [of 8 "to_bytes 4 0x58000089"]
      w [of 12 "to_bytes 4 0xD61F0120"] w [of 16 "to_bytes 8 F"] w [of 24 "to_bytes 8 shim"]
    by (simp_all add: stub_constants(11-14))
  have f: "load_word (a - 8) 8 m = Some f" using assms by (simp add: stub_ready_def load64_word)
  have s: "cpu_step AArch64 m \<lparr>cpu_pc = a, cpu_reg = r\<rparr> = Some \<lparr>cpu_pc = a + 4, cpu_reg = r(16 := f)\<rparr>"
    "cpu_step AArch64 m \<lparr>cpu_pc = a + 4, cpu_reg = r\<rparr> = Some \<lparr>cpu_pc = a + 8, cpu_reg = r(17 := F)\<rparr>"
    "cpu_step AArch64 m \<lparr>cpu_pc = a + 8, cpu_reg = r\<rparr> = Some \<lparr>cpu_pc = a + 12, cpu_reg = r(9 := shim)\<rparr>"
    "cpu_step AArch64 m \<lparr>cpu_pc = a + 12, cpu_reg = r\<rparr> = Some \<lparr>cpu_pc = r 9, cpu_reg = r\<rparr>" for r
    using l f
    by (simp_all add: cpu_step_def step_aarch64_def aarch64_fields load_reg_def set_reg_def load64_word add.assoc)
  have n: "4 = Suc (Suc (Suc (Suc 0)))" by simp
  show ?thesis by (simp add: n s)
qed

lemma stub_steps_riscv64:
  assumes "stub_ready RISCV64 shim F m a f"
  shows "run_steps RISCV64 m 5 \<lparr>cpu_pc = a, cpu_reg = regs\<rparr> =
    Some \<lparr>cpu_pc = shim AND NOT 1, cpu_reg = regs(28 := a, 5 := f, 6 := F, 7 := shim)\<rparr>"
proof -
  note w = stub_word [OF assms, unfolded thunk_writes_def thunk_writes_riscv64_def arch.case]
  have l: "load_word a 4 m = Some 0xE17" "load_word (a + 4) 4 m = Some 0xFF8E3283"
    "load_word (a + 8) 4 m = Some 0x018E3303" "load_word (a + 12) 4 m = Some 0x020E3383"
    "load_word (a + 16) 4 m = Some 0x00038067"
    "load_word (a + 24) 8 m = Some F" "load_word (a + 32) 8 m = Some shim"
    using w [of 0 "to_bytes 4 0xE17"] w [of 4 "to_bytes 4 0xFF8E3283"] w [of 8 "to_bytes 4 0x018E3303"]
      w [of 12 "to_bytes 4 0x020E3383"] w [of 16 "to_bytes 4 0x00038067"] w [of 24 "to_bytes 8 F"] w [of 32 "to_bytes 8 shim"]
    by (simp_all add: stub_constants(15-19))
  have f: "load_word (a - 8) 8 m = Some f" using assms by (simp add: stub_ready_def load64_word)
  have s: "cpu_step RISCV64 m \<lparr>cpu_pc = a, cpu_reg = r\<rparr> = Some \<lparr>cpu_pc = a + 4, cpu_reg = r(28 := a)\<rparr>"
    "r 28 = a \<Longrightarrow> cpu_step RISCV64 m \<lparr>cpu_pc = a + 4, cpu_reg = r\<rparr> = Some \<lparr>cpu_pc = a + 8, cpu_reg = r(5 := f)\<rparr>"
    "r 28 = a \<Longrightarrow> cpu_step RISCV64 m \<lparr>cpu_pc = a + 8, cpu_reg = r\<rparr> = Some \<lparr>cpu_pc = a + 12, cpu_reg = r(6 := F)\<rparr>"
    "r 28 = a \<Longrightarrow> cpu_step RISCV64 m \<lparr>cpu_pc = a + 12, cpu_reg = r\<rparr> = Some \<lparr>cpu_pc = a + 16, cpu_reg = r(7 := shim)\<rparr>"
    "cpu_step RISCV64 m \<lparr>cpu_pc = a + 16, cpu_reg = r\<rparr> = Some \<lparr>cpu_pc = r 7 AND NOT 1, cpu_reg = r\<rparr>" for r
    using l f
    by (simp_all add: cpu_step_def step_riscv64_def riscv64_fields load_reg_def set_reg_def load64_word add.assoc)
  have n: "5 = Suc (Suc (Suc (Suc (Suc 0))))" by simp
  show ?thesis by (simp add: n s)
qed

lemma call_stub_ready:
  assumes "stub_ready ar shim F m a f" and "code_address ar shim" and "code_address ar F"
  shows "\<exists>c. call_stub ar shim tp tpoff m a regs = Some (f, c) \<and> cpu_pc c = F \<and>
    (\<forall>r. r \<notin> clobbers ar \<longrightarrow> cpu_reg c r = regs r)"
proof (cases ar)
  case X86_64
  show ?thesis using stub_steps_x86_64 [OF assms(1) [unfolded X86_64]]
    by (simp add: call_stub_def X86_64 stub_length_def run_shim_def set_reg_def clobbers_def)
next
  case AArch64
  show ?thesis using stub_steps_aarch64 [OF assms(1) [unfolded AArch64]]
    by (simp add: call_stub_def AArch64 stub_length_def run_shim_def set_reg_def clobbers_def)
next
  case RISCV64
  have e: "shim AND - 2 = shim" "F AND - 2 = F"
    using assms(2,3) by (simp_all add: code_address_def RISCV64)
  show ?thesis using stub_steps_riscv64 [OF assms(1) [unfolded RISCV64]]
    by (simp add: call_stub_def RISCV64 stub_length_def run_shim_def set_reg_def clobbers_def e)
qed

subsection \<open>Tables of stubs as an interface\<close>

text \<open>
  What the users of an allocator rely on: it interns, every stub it has handed out keeps standing
  for its function, and a new function needs a free place.
\<close>

locale stub_allocator =
  fixes inv :: "'f list \<Rightarrow> 'm \<Rightarrow> bool"
    and alloc :: "'f \<Rightarrow> 'm \<Rightarrow> ('p \<times> 'm) option"
    and stub_of :: "'f list \<Rightarrow> 'f \<Rightarrow> 'p"
    and ok :: "'f \<Rightarrow> bool"
    and room :: nat
  assumes alloc_known: "inv fs m \<Longrightarrow> x \<in> set fs \<Longrightarrow> alloc x m = Some (stub_of fs x, m)"
    and alloc_new: "inv fs m \<Longrightarrow> ok x \<Longrightarrow> x \<notin> set fs \<Longrightarrow> length fs < room \<Longrightarrow>
      \<exists>m'. alloc x m = Some (stub_of (fs @ [x]) x, m') \<and> inv (fs @ [x]) m'"
    and inv_distinct: "inv fs m \<Longrightarrow> distinct fs"
    and stub_of_append: "x \<in> set fs \<Longrightarrow> stub_of (fs @ gs) x = stub_of fs x"
begin

text \<open>A sequence of allocations that has room succeeds and extends the interned functions.\<close>

lemma alloc_seq:
  assumes "inv fs m" "card (set xs \<union> set fs) \<le> room" "list_all ok xs"
  shows "\<exists>gs m'. for_each (\<lambda>x (ps, m). map_option (\<lambda>(p, m). (ps @ [p], m)) (alloc x m)) xs (ps, m) =
      Some (ps @ map (stub_of (fs @ gs)) xs, m') \<and>
    inv (fs @ gs) m' \<and> set (fs @ gs) = set xs \<union> set fs"
  using assms
proof (induction xs arbitrary: fs m ps)
  case Nil
  then show ?case by (intro exI [of _ "[]"] exI [of _ m]) simp
next
  case (Cons x xs)
  obtain fs1 m1 where a: "alloc x m = Some (stub_of (fs @ fs1) x, m1)" "inv (fs @ fs1) m1" "set (fs @ fs1) = insert x (set fs)"
  proof (cases "x \<in> set fs")
    case True
    then show thesis using that [of "[]" m] alloc_known Cons.prems(1) by auto
  next
    case False
    have "card (insert x (set fs)) \<le> card (set (x # xs) \<union> set fs)" by (intro card_mono) auto
    with Cons.prems(2) False have "length fs < room"
      using distinct_card [OF inv_distinct [OF Cons.prems(1)]] by simp
    then show thesis using that [of "[x]"] alloc_new [OF Cons.prems(1) _ False] Cons.prems(3) by auto
  qed
  have "card (set xs \<union> set (fs @ fs1)) \<le> room" using Cons.prems(2) a(3) by (simp add: insert_absorb Un_commute)
  moreover have "list_all ok xs" using Cons.prems(3) by simp
  ultimately obtain gs m' where g:
    "for_each (\<lambda>x (ps, m). map_option (\<lambda>(p, m). (ps @ [p], m)) (alloc x m)) xs (ps @ [stub_of (fs @ fs1) x], m1) =
      Some ((ps @ [stub_of (fs @ fs1) x]) @ map (stub_of ((fs @ fs1) @ gs)) xs, m')"
    "inv ((fs @ fs1) @ gs) m'" "set ((fs @ fs1) @ gs) = set xs \<union> set (fs @ fs1)"
    using Cons.IH [OF a(2), of "ps @ [stub_of (fs @ fs1) x]"] by blast
  have "stub_of (fs @ fs1) x = stub_of (fs @ (fs1 @ gs)) x"
    using stub_of_append [of x "fs @ fs1" gs] a(3) by (metis append.assoc insertI1)
  with a g show ?case by (intro exI [of _ "fs1 @ gs"] exI [of _ m']) auto
qed

end

subsection \<open>The allocator is one\<close>

definition stub_of :: "64 word \<Rightarrow> 64 word list \<Rightarrow> 64 word \<Rightarrow> 64 word" where
  "stub_of b fs x = (if x = 0 then 0 else thunk_instr_at (slot b (length (takeWhile (\<lambda>f. f \<noteq> x) fs))))"

lemma interned_saved:
  assumes "interned ar shim F b count sz fs m" "i < count"
  shows "load64 (saved_function_at (slot b i)) m = Some (if i < length fs then fs ! i else 0)"
proof -
  have "slot_off i + 56 \<le> sz"
    using assms slot_off_mono [OF assms(2)] by (simp add: interned_def slot_off_def sizeof_trampoline_def)
  then show ?thesis
    using assms load64_holds [of b sz m "slot_off i"] by (simp add: interned_def slot_ready_def slot_fields(2))
qed

lemma scan_skip:
  assumes "j \<le> i" "\<And>k. j \<le> k \<Longrightarrow> k < i \<Longrightarrow> \<exists>s. load64 (saved_function_at (slot b k)) m = Some s \<and> s \<noteq> 0 \<and> s \<noteq> input"
  shows "scan_slots input (slot b j) m = scan_slots input (slot b i) m"
  using assms
proof (induction "i - j" arbitrary: j)
  case (Suc n)
  then have "j < i" by simp
  with Suc.prems obtain s where "load64 (saved_function_at (slot b j)) m = Some s" "s \<noteq> 0" "s \<noteq> input" by blast
  then have "scan_slots input (slot b j) m = scan_slots input (slot b (Suc j)) m"
    by (simp add: scan_slots.simps [of input "slot b j"] slot_next)
  also have "\<dots> = scan_slots input (slot b i) m" using Suc \<open>j < i\<close> by (intro Suc.hyps(1)) auto
  finally show ?case .
qed simp

lemma interned_skip:
  assumes "interned ar shim F b count sz fs m" "i \<le> length fs" "input \<notin> set (take i fs)"
  shows "scan_slots input (slot b 0) m = scan_slots input (slot b i) m"
proof (rule scan_skip)
  fix k assume "k < i"
  then have "fs ! k \<in> set (take i fs)" "k < length fs" using assms(2) by (auto simp: in_set_conv_nth)
  moreover have "set (take i fs) \<subseteq> set fs" by (rule set_take_subset)
  moreover have "k < count" "0 \<notin> set fs" using assms(1,2) \<open>k < i\<close> by (simp_all add: interned_def)
  ultimately show "\<exists>s. load64 (saved_function_at (slot b k)) m = Some s \<and> s \<noteq> 0 \<and> s \<noteq> input"
    using interned_saved [OF assms(1)] assms(3) by auto
qed simp

lemma scan_known:
  assumes "interned ar shim F b count sz fs m" "x \<in> set fs"
  shows "scan_slots x (slot b 0) m = Some (stub_of b fs x, m)"
proof -
  let ?i = "length (takeWhile (\<lambda>f. f \<noteq> x) fs)"
  have i: "?i < length fs" using assms(2) by (induction fs) auto
  then have "fs ! ?i = x" using nth_length_takeWhile [of "\<lambda>f. f \<noteq> x" fs] by simp
  note i = i this
  have "x \<notin> set (take ?i fs)"
    by (metis (mono_tags) set_takeWhileD takeWhile_eq_take)
  then have "scan_slots x (slot b 0) m = scan_slots x (slot b ?i) m"
    using i by (intro interned_skip [OF assms(1)]) simp_all
  moreover have "x \<noteq> 0" using assms by (auto simp: interned_def)
  moreover have "?i < count" using i(1) assms(1) by (simp add: interned_def)
  then have "load64 (saved_function_at (slot b ?i)) m = Some x"
    using interned_saved [OF assms(1)] i by simp
  ultimately show ?thesis by (simp add: scan_slots.simps [of x "slot b ?i"] stub_of_def)
qed

lemma scan_new:
  assumes "interned ar shim F b count sz fs m" "x \<notin> set fs" "x \<noteq> 0" "length fs < count"
  shows "\<exists>m'. scan_slots x (slot b 0) m = Some (stub_of b (fs @ [x]) x, m') \<and>
    interned ar shim F b count sz (fs @ [x]) m' \<and> stored b sz 0 (slot_off count) m m'"
proof -
  let ?n = "length fs"
  have o: "slot_off (Suc ?n) = slot_off ?n + 56" by (simp add: slot_off_def sizeof_trampoline_def)
  have sz: "slot_off (Suc ?n) \<le> sz" using assms(1,4) slot_off_mono [of ?n count] by (simp add: interned_def)
  have "scan_slots x (slot b 0) m = scan_slots x (slot b ?n) m"
    using assms(2) by (intro interned_skip [OF assms(1)]) simp_all
  also have "\<dots> = map_option (Pair (thunk_instr_at (slot b ?n))) (store64 (saved_function_at (slot b ?n)) x m)"
    using interned_saved [OF assms(1,4)] by (simp add: scan_slots.simps [of x "slot b ?n"])
  finally have scan: "scan_slots x (slot b 0) m =
    map_option (Pair (thunk_instr_at (slot b ?n))) (store64 (saved_function_at (slot b ?n)) x m)" .
  have blk: "block b sz m" using assms(1) by (simp add: interned_def)
  obtain m' where m': "store64 (b + of_nat (slot_off ?n)) x m = Some m'" "stored b sz (slot_off ?n) 8 m m'"
    "holds b m' (slot_off ?n) (to_bytes 8 x)"
    using store64_stored [OF blk, of "slot_off ?n" x] sz o by auto
  have "slot_ready ar shim F b m' i (if i < length (fs @ [x]) then (fs @ [x]) ! i else 0)" if "i < count" for i
  proof (cases "i = ?n")
    case True
    have "holds b m' (slot_off ?n + 48) (to_bytes 8 kTrampolineMagic) = holds b m (slot_off ?n + 48) (to_bytes 8 kTrampolineMagic)"
      "stub_code ar shim F b m' (slot_off ?n + 8) = stub_code ar shim F b m (slot_off ?n + 8)"
      using sz o by (simp_all add: stored_holds [OF m'(2)] stub_code_stored [OF m'(2)])
    then show ?thesis using True m'(3) assms(1,4) by (simp add: interned_def slot_ready_def)
  next
    case False
    have "slot_off (Suc i) \<le> sz" using that assms(1) slot_off_mono [OF that] by (simp add: interned_def)
    moreover have "slot_off (Suc i) \<le> slot_off ?n \<or> slot_off ?n + 8 \<le> slot_off i"
      using False slot_off_mono [of i ?n] slot_off_mono [of ?n i] o by (cases i ?n rule: linorder_cases) auto
    ultimately have "slot_ready ar shim F b m' i f = slot_ready ar shim F b m i f" for f
      by (intro slot_ready_stored [OF m'(2)])
    then show ?thesis using assms(1) that False by (auto simp: interned_def nth_append)
  qed
  then have "interned ar shim F b count sz (fs @ [x]) m'"
    using assms m'(2) by (auto simp: interned_def stored_def)
  moreover have "takeWhile (\<lambda>f. f \<noteq> x) (fs @ [x]) = fs" using assms(2) by (subst takeWhile_append2) auto
  then have "stub_of b (fs @ [x]) x = thunk_instr_at (slot b ?n)" using assms(3) by (simp add: stub_of_def)
  moreover have "stored b sz 0 (slot_off count) m m'"
    using stored_trans [OF m'(2) stored_refl [OF stored_block [OF m'(2)], of 0 0], of 0 "slot_off count"]
      slot_off_mono [OF assms(4)] o by simp
  ultimately show ?thesis using scan m'(1) by (simp add: slot_fields(2))
qed

text \<open>Allocating once the table exists.\<close>

definition alloc_in ::
    "arch \<Rightarrow> 64 word \<Rightarrow> nat \<Rightarrow> 64 word \<Rightarrow> 64 word \<Rightarrow> 64 word \<Rightarrow> memory \<Rightarrow> (64 word \<times> memory) option" where
  "alloc_in ar shim count F b input m =
     map_option (\<lambda>(stub, _, m). (stub, m))
       (allocCallbackTrampoline (\<lambda>_ _. None) ar shim count F input (Some b) m)"

lemma alloc_in_scan: "input \<noteq> 0 \<Longrightarrow> alloc_in ar shim count F b input m = scan_slots input (slot b 0) m"
  by (cases "scan_slots input (slot b 0) m") (auto simp: alloc_in_def allocCallbackTrampoline_def)

lemma stub_of_append: "x \<in> set fs \<Longrightarrow> stub_of b (fs @ gs) x = stub_of b fs x"
  by (simp add: stub_of_def)

interpretation tramps: stub_allocator
  "interned ar shim F b count sz" "alloc_in ar shim count F b" "stub_of b" "\<lambda>x. x \<noteq> 0" count
  for ar shim F b count sz
proof unfold_locales
  fix fs m x assume i: "interned ar shim F b count sz fs m" and x: "x \<in> set fs"
  then have "x \<noteq> 0" by (auto simp: interned_def)
  with scan_known [OF i x] show "alloc_in ar shim count F b x m = Some (stub_of b fs x, m)"
    by (simp add: alloc_in_scan)
next
  fix fs m x assume i: "interned ar shim F b count sz fs m" and x: "x \<noteq> 0" "x \<notin> set fs" "length fs < count"
  show "\<exists>m'. alloc_in ar shim count F b x m = Some (stub_of b (fs @ [x]) x, m') \<and>
      interned ar shim F b count sz (fs @ [x]) m'"
    using scan_new [OF i x(2,1,3)] x(1) by (auto simp: alloc_in_scan)
next
  fix fs m assume "interned ar shim F b count sz fs m"
  then show "distinct fs" by (simp add: interned_def)
next
  fix x and fs gs :: "64 word list" assume "x \<in> set fs"
  then show "stub_of b (fs @ gs) x = stub_of b fs x" by (rule stub_of_append)
qed

subsection \<open>Properties\<close>

definition alloc_calls ::
    "(nat \<Rightarrow> memory \<Rightarrow> (64 word \<times> memory) option) \<Rightarrow> arch \<Rightarrow> 64 word \<Rightarrow> nat \<Rightarrow> 64 word \<Rightarrow> 64 word list \<Rightarrow>
     64 word list \<times> 64 word option \<times> memory \<Rightarrow> (64 word list \<times> 64 word option \<times> memory) option" where
  "alloc_calls mmap ar shim count F =
     for_each (\<lambda>x (ps, tramp, m).
       map_option (\<lambda>(p, tramp, m). (ps @ [p], tramp, m)) (allocCallbackTrampoline mmap ar shim count F x tramp m))"

lemma alloc_some:
  "x \<noteq> 0 \<Longrightarrow> allocCallbackTrampoline mmap ar shim count F x (Some b) m =
     map_option (\<lambda>(p, m). (p, Some b, m)) (alloc_in ar shim count F b x m)"
  by (simp add: alloc_in_scan) (simp add: allocCallbackTrampoline_def)

lemma alloc_calls_some:
  "list_all (\<lambda>x. x \<noteq> 0) xs \<Longrightarrow> alloc_calls mmap ar shim count F xs (ps, Some b, m) =
     map_option (\<lambda>(ps, m). (ps, Some b, m))
       (for_each (\<lambda>x (ps, m). map_option (\<lambda>(p, m). (ps @ [p], m)) (alloc_in ar shim count F b x m)) xs (ps, m))"
  unfolding alloc_calls_def
  by (induction xs arbitrary: ps m) (auto simp: alloc_some split: option.split)

lemma table_create_interned:
  assumes "mmap (sizeof_table + count * sizeof_trampoline) m0 = Some (b, m)"
    and "block b sz m" and "slot_off count \<le> sz" and "\<not> mem_mapped m 0"
  shows "\<exists>m'. table_create mmap ar shim count F kTrampolineMagic m0 = Some (b, m') \<and>
    interned ar shim F b count sz [] m' \<and> stored b sz 0 (slot_off count) m m'"
proof -
  have o: "8 \<le> slot_off count" by (simp add: slot_off_def sizeof_table_def)
  obtain m1 where m1: "store64 b (of_nat count) m = Some m1" "stored b sz 0 8 m m1"
    using store64_stored [OF assms(2), of 0 "of_nat count"] o assms(3) by auto
  obtain m2 where m2: "for_each (create_slot ar shim F kTrampolineMagic b) [0..<count] m1 = Some m2"
    "stored b sz (slot_off 0) (slot_off count - slot_off 0) m1 m2" "\<forall>j < count. slot_ready ar shim F b m2 j 0"
    using create_slots [OF stored_block [OF m1(2)] assms(3)] by blast
  have "slot_off 0 = 8" by (simp add: slot_off_def sizeof_table_def)
  then have "stored b sz 0 (slot_off count) m m2"
    using stored_trans [OF m1(2) m2(2), of 0 "slot_off count"] o by simp
  then show ?thesis
    using assms(1,3,4) m1 m2 by (auto simp: table_create_def interned_def stored_def)
qed

lemma interned_stub:
  assumes "interned ar shim F b count sz fs m" "x \<in> set fs"
  shows "stub_ready ar shim F m (stub_of b fs x) x" and "load64 (magic_sign_at (stub_of b fs x - 8)) m = Some kTrampolineMagic"
    and "stub_of b fs x \<noteq> 0"
proof -
  let ?i = "length (takeWhile (\<lambda>f. f \<noteq> x) fs)"
  have i: "?i < length fs" using assms(2) by (induction fs) auto
  then have "fs ! ?i = x" using nth_length_takeWhile [of "\<lambda>f. f \<noteq> x" fs] by simp
  moreover have c: "?i < count" using i assms(1) by (simp add: interned_def)
  moreover have "slot_ready ar shim F b m ?i (if ?i < length fs then fs ! ?i else 0)"
    using assms(1) c unfolding interned_def by blast
  ultimately have r: "slot_ready ar shim F b m ?i x" using i by simp
  have sz: "slot_off (Suc ?i) \<le> sz" using slot_off_mono [OF c] assms(1) by (simp add: interned_def)
  then have e: "slot_off ?i + 56 \<le> sz" by (simp add: slot_off_def sizeof_trampoline_def)
  have x: "stub_of b fs x = thunk_instr_at (slot b ?i)" using assms by (auto simp: stub_of_def interned_def)
  have blk: "block b sz m" using assms(1) by (simp add: interned_def)
  show "stub_ready ar shim F m (stub_of b fs x) x" unfolding x by (rule slot_ready_stub [OF blk r sz])
  have "magic_sign_at (stub_of b fs x - 8) = b + of_nat (slot_off ?i + 48)"
    by (simp add: x slot_fields(3) magic_sign_at_def off_magic_sign_def)
  then show "load64 (magic_sign_at (stub_of b fs x - 8)) m = Some kTrampolineMagic"
    using load64_holds [OF blk, of "slot_off ?i + 48" kTrampolineMagic] r e by (simp add: slot_ready_def del: of_nat_add)
  have "mem_mapped m (b + of_nat (slot_off ?i + 8))" using blk e by (simp add: block_def del: of_nat_add)
  moreover have "\<not> mem_mapped m 0" using assms(1) by (simp add: interned_def)
  ultimately show "stub_of b fs x \<noteq> 0" by (auto simp: x slot_fields(3))
qed

text \<open>
  C12. Any sequence of non-null callbacks with no more distinct ones than the table has room for is
  turned into stubs, equal callbacks into equal stubs.  Once all are allocated, calling any stub
  starts the handler with \<open>thread_last_callback\<close> naming its callback and every register but the
  architecture's scratch registers as the caller left it, and unwrapping it gives the callback.
\<close>

theorem callbacks_interned:
  assumes "mmap (sizeof_table + count * sizeof_trampoline) m0 = Some (b, m)"
    and "block b sz m" and "slot_off count \<le> sz" and "\<not> mem_mapped m 0"
    and "code_address ar shim" and "code_address ar F"
    and "list_all (\<lambda>x. x \<noteq> 0) (x # xs)" and "card (set (x # xs)) \<le> count"
  shows "\<exists>st m'. alloc_calls mmap ar shim count F (x # xs) ([], None, m0) = Some (map st (x # xs), Some b, m') \<and>
    (\<forall>y \<in> set (x # xs). unwrapTrampoline (st y) m' = Some y \<and>
       (\<forall>tp tpoff regs. \<exists>c. call_stub ar shim tp tpoff m' (st y) regs = Some (y, c) \<and> cpu_pc c = F \<and>
          (\<forall>r. r \<notin> clobbers ar \<longrightarrow> cpu_reg c r = regs r)))"
proof -
  obtain m1 where m1: "table_create mmap ar shim count F kTrampolineMagic m0 = Some (b, m1)"
    "interned ar shim F b count sz [] m1"
    using table_create_interned [where mmap = mmap and m = m, OF assms(1-4)] by blast
  have "alloc_calls mmap ar shim count F (x # xs) ([], None, m0) = alloc_calls mmap ar shim count F (x # xs) ([], Some b, m1)"
    using assms(7) m1(1) by (simp add: alloc_calls_def allocCallbackTrampoline_def)
  moreover obtain gs m' where g:
    "for_each (\<lambda>x (ps, m). map_option (\<lambda>(p, m). (ps @ [p], m)) (alloc_in ar shim count F b x m)) (x # xs) ([], m1) =
      Some (map (stub_of b gs) (x # xs), m')" "interned ar shim F b count sz gs m'" "set gs = set (x # xs)"
    using tramps.alloc_seq [OF m1(2), of "x # xs" "[]"] assms(7,8) by (auto simp del: for_each.simps)
  ultimately have "alloc_calls mmap ar shim count F (x # xs) ([], None, m0) = Some (map (stub_of b gs) (x # xs), Some b, m')"
    using alloc_calls_some [OF assms(7)] by simp
  moreover have "unwrapTrampoline (stub_of b gs y) m' = Some y \<and>
       (\<forall>tp tpoff regs. \<exists>c. call_stub ar shim tp tpoff m' (stub_of b gs y) regs = Some (y, c) \<and> cpu_pc c = F \<and>
          (\<forall>r. r \<notin> clobbers ar \<longrightarrow> cpu_reg c r = regs r))" if "y \<in> set (x # xs)" for y
    using interned_stub [OF g(2)] call_stub_ready [OF _ assms(5,6)] that g(3)
    by (simp add: unwrapTrampoline_def off_thunk_instr_def saved_function_at_def off_saved_function_def stub_ready_def)
  ultimately show ?thesis by blast
qed

text \<open>A page mapped at 4096.\<close>

definition demo_memory :: memory where
  "demo_memory = \<lparr>mem_byte = (\<lambda>_. 0), mem_mapped = (\<lambda>a. 4096 \<le> a \<and> a < 8192)\<rparr>"

lemma demo_memory_block: "block 4096 4096 demo_memory" "\<not> mem_mapped demo_memory 0"
proof -
  have "4096 \<le> (4096 + of_nat k :: 64 word) \<and> (4096 + of_nat k :: 64 word) < 8192" if "k < 4096" for k
  proof -
    have "(4096 + of_nat k :: 64 word) = of_nat (4096 + k)" by simp
    moreover have "unat (of_nat (4096 + k) :: 64 word) = 4096 + k"
      by (rule unat_of_nat64) (use that in simp)
    ultimately show ?thesis using that by (simp add: word_le_nat_alt word_less_nat_alt)
  qed
  then show "block 4096 4096 demo_memory" by (simp add: block_def demo_memory_def)
  show "\<not> mem_mapped demo_memory 0" by (simp add: demo_memory_def)
qed

theorem callbacks_interned_witness:
  "\<exists>st m'. alloc_calls (\<lambda>_ _. Some (4096, demo_memory)) RISCV64 1000 16 2000 [7, 9, 7] ([], None, demo_memory) =
       Some ([st (7 :: 64 word), st 9, st 7], Some 4096, m') \<and> unwrapTrampoline (st 9) m' = Some 9"
proof -
  have "card {7, 9, 7 :: 64 word} \<le> 16" by (simp add: card_insert_if)
  then show ?thesis
    using callbacks_interned [of "\<lambda>_ _. Some (4096, demo_memory)" 16 demo_memory 4096 demo_memory 4096 RISCV64 1000 2000 7 "[9, 7]"]
      demo_memory_block
    by (simp add: slot_off_def layout_defs code_address_def) blast
qed

text \<open>The memory behind a full table, as \<open>mmap\<close> left it.\<close>

definition zero_slot :: "64 word \<Rightarrow> memory \<Rightarrow> nat \<Rightarrow> bool" where
  "zero_slot b m i \<longleftrightarrow> holds b m (slot_off i) (replicate sizeof_trampoline 0)"

lemma of_bytes_zero: "of_bytes (replicate n 0) = 0"
  by (induction n) simp_all

lemma zero_slot_holds:
  "zero_slot b m i \<Longrightarrow> off + n \<le> 56 \<Longrightarrow> holds b m (slot_off i + off) (replicate n 0)"
  by (auto simp: zero_slot_def holds_iff sizeof_trampoline_def add.assoc)

lemma load_zero:
  "block b sz m \<Longrightarrow> holds b m a (replicate n 0) \<Longrightarrow> a + n \<le> sz \<Longrightarrow> load_word (b + of_nat a) n m = Some 0"
  using load_holds [of b sz m a "replicate n 0"] by (simp add: load_word_def of_bytes_zero)

lemma no_code:
  assumes "load_word a 1 m = Some 0" "load_word (a + 1) 1 m = Some 0" "load_word a 4 m = Some 0"
  shows "call_stub ar shim tp tpoff m a regs = None"
proof -
  have "cpu_step ar m \<lparr>cpu_pc = a, cpu_reg = regs\<rparr> = None"
    using assms by (cases ar) (simp_all add: cpu_step_def step_x86_64_def step_aarch64_def step_riscv64_def bits_at_def)
  moreover obtain n where "stub_length ar = Suc n" by (cases ar) (simp_all add: stub_length_def eval_nat_numeral)
  ultimately show ?thesis by (simp add: call_stub_def)
qed

text \<open>
  The allocator has no bound on its scan: with the table full, one more distinct callback is
  stored behind the table and handed out as a stub that has no code, so calling it does not reach
  the handler, and unwrapping it does not give the callback back.
\<close>

theorem full_table_broken_stub:
  assumes "interned ar shim F b count sz fs m" and "length fs = count"
    and "x \<notin> set fs" and "x \<noteq> 0"
    and "slot_off (Suc count) \<le> sz" and "zero_slot b m count"
  shows "\<exists>stub m'. allocCallbackTrampoline mmap ar shim count F x (Some b) m = Some (stub, Some b, m') \<and>
    call_stub ar shim tp tpoff m' stub regs = None \<and> (stub \<noteq> 0 \<longrightarrow> unwrapTrampoline stub m' = Some stub)"
proof -
  let ?o = "slot_off count" and ?stub = "thunk_instr_at (slot b count)"
  have blk: "block b sz m" using assms(1) by (simp add: interned_def)
  have sz: "?o + 56 \<le> sz" using assms(5) by (simp add: slot_off_def sizeof_trampoline_def)
  have "load_word (b + of_nat ?o) 8 m = Some 0"
    using load_zero [OF blk] zero_slot_holds [OF assms(6), of 0 8] sz by simp
  then have "load64 (saved_function_at (slot b count)) m = Some 0" by (simp add: load64_word slot_fields(2))
  then have scan: "scan_slots x (slot b 0) m = map_option (Pair ?stub) (store64 (b + of_nat ?o) x m)"
    using interned_skip [OF assms(1), of count x] assms(2,3)
    by (simp add: scan_slots.simps [of x "slot b count"] slot_fields(2))
  obtain m' where m': "store64 (b + of_nat ?o) x m = Some m'" "stored b sz ?o 8 m m'"
    using store64_stored [OF blk, of ?o x] sz by auto
  have z: "load_word (b + of_nat (?o + k)) n m' = Some 0" if "8 \<le> k" "k + n \<le> 56" for k n
    using that sz zero_slot_holds [OF assms(6) that(2)] stored_holds [OF m'(2), of "?o + k" "replicate n 0"]
    by (intro load_zero [OF stored_block [OF m'(2)]]) simp_all
  have "call_stub ar shim tp tpoff m' ?stub regs = None"
    using z [of 8 1] z [of 9 1] z [of 8 4] by (intro no_code) (simp_all add: slot_fields(3) algebra_simps)
  moreover have "load64 (magic_sign_at (?stub - 8)) m' = Some 0"
    using z [of 48 8] by (simp add: load64_word slot_fields(3) magic_sign_at_def off_magic_sign_def algebra_simps)
  then have "?stub \<noteq> 0 \<longrightarrow> unwrapTrampoline ?stub m' = Some ?stub"
    by (simp add: unwrapTrampoline_def off_thunk_instr_def kTrampolineMagic_def)
  ultimately show ?thesis
    using scan m'(1) assms(4) by (simp add: alloc_some alloc_in_scan)
qed

text \<open>A table of one slot, which is taken.\<close>

lemma demo_full:
  "\<exists>m. interned AArch64 1000 2000 4096 1 4096 [7] m \<and> zero_slot 4096 m 1"
proof -
  have o: "slot_off 1 = 64" "slot_off 2 = 120" by (simp_all add: slot_off_def layout_defs)
  obtain m1 where m1: "interned AArch64 1000 2000 4096 1 4096 [] m1" "stored 4096 4096 0 (slot_off 1) demo_memory m1"
    using table_create_interned [of "\<lambda>_ _. Some (4096, demo_memory)" 1 demo_memory 4096 demo_memory 4096 AArch64 1000 2000]
      demo_memory_block o by auto
  obtain m2 where m2: "interned AArch64 1000 2000 4096 1 4096 [7] m2" "stored 4096 4096 0 (slot_off 1) m1 m2"
    using scan_new [OF m1(1), of 7] by auto
  have "zero_slot 4096 demo_memory 1" by (simp add: zero_slot_def holds_iff byte_at_def demo_memory_def)
  then have "zero_slot 4096 m2 1"
    using stored_holds [OF m1(2)] stored_holds [OF m2(2)] o by (simp add: zero_slot_def sizeof_trampoline_def)
  with m2(1) show ?thesis by blast
qed

theorem full_table_broken_stub_witness:
  "\<exists>m stub m'. allocCallbackTrampoline (\<lambda>_ _. None) AArch64 1000 1 2000 9 (Some 4096) m = Some (stub, Some 4096, m') \<and>
    call_stub AArch64 1000 0 0 m' stub (\<lambda>_. 0) = None"
proof -
  obtain m where m: "interned AArch64 1000 2000 4096 1 4096 [7] m" "zero_slot 4096 m 1" using demo_full by blast
  have "slot_off (Suc 1) \<le> 4096" by (simp add: slot_off_def layout_defs)
  with full_table_broken_stub [OF m(1) _ _ _ _ m(2), where x = 9 and tp = 0 and tpoff = 0 and regs = "\<lambda>_. 0" and mmap = "\<lambda>_ _. None"]
  show ?thesis by auto
qed

text \<open>
  C21. A callback that crosses back: when the slot holds a stub of \<open>f\<close> and the receiver is at home
  with \<open>f\<close>, the receiver gets \<open>f\<close> itself and no second stub; \<open>fini\<close> then puts the stub back,
  whatever the callee stored in the slot meanwhile.
\<close>

theorem callback_crosses_back:
  assumes "interned ar shim F b count sz fs m" and "f \<in> set fs" and "isGuest = is_host f"
    and "block fp_at 8 m" and "load64 fp_at m = Some (stub_of b fs f)" and "stub_of b fs f \<noteq> f"
  shows "\<exists>ctx m'. context_init is_host isGuest allocator fp_at ctx0 s m = Some (ctx, s, m') \<and>
    load64 fp_at m' = Some f \<and>
    (\<forall>m''. block fp_at 8 m'' \<longrightarrow>
       (\<exists>m3. context_fini ctx m'' = Some m3 \<and> load64 fp_at m3 = Some (stub_of b fs f)))"
proof -
  let ?stub = "stub_of b fs f"
  have st: "load64 (saved_function_at (?stub - 8)) m = Some f" "load64 (magic_sign_at (?stub - 8)) m = Some kTrampolineMagic" "?stub \<noteq> 0"
    using interned_stub [OF assms(1,2)] by (simp_all add: stub_ready_def saved_function_at_def off_saved_function_def)
  then have u: "unwrapTrampoline ?stub m = Some f" by (simp add: unwrapTrampoline_def off_thunk_instr_def)
  have put: "\<exists>m'. store64 fp_at v n = Some m' \<and> load64 fp_at m' = Some v" if "block fp_at 8 n" for v n
    using store64_stored [OF that, of 0 v] load64_holds [of fp_at 8 _ 0 v] stored_block by fastforce
  obtain m' where m': "store64 fp_at f m = Some m'" "load64 fp_at m' = Some f" using put [OF assms(4)] by blast
  have "context_init is_host isGuest allocator fp_at ctx0 s m = Some (\<lparr>p_fp = fp_at, org_fp = ?stub\<rparr>, s, m')"
    using assms(3,5,6) u m'(1) by (simp add: context_init_def)
  moreover have "\<exists>m3. context_fini \<lparr>p_fp = fp_at, org_fp = ?stub\<rparr> m'' = Some m3 \<and> load64 fp_at m3 = Some ?stub"
    if "block fp_at 8 m''" for m''
    using put [OF that] st(3) by (simp add: context_fini_def)
  ultimately show ?thesis using m'(2) by blast
qed

lemma interned_stored:
  assumes "interned ar shim F b count sz fs m" "stored b sz a n m m'" "slot_off count \<le> a"
  shows "interned ar shim F b count sz fs m'"
proof -
  have "slot_ready ar shim F b m' i f = slot_ready ar shim F b m i f" if "i < count" for i f
    using slot_ready_stored [OF assms(2)] slot_off_mono [OF that] assms(1,3) by (simp add: interned_def)
  then show ?thesis using assms(1,2) by (auto simp: interned_def stored_def)
qed

lemma block_part: "block b sz m \<Longrightarrow> a + n \<le> sz \<Longrightarrow> block (b + of_nat a) n m"
  by (auto simp: block_def add.assoc simp flip: of_nat_add)

theorem callback_crosses_back_witness:
  "\<exists>m ctx m'. context_init (\<lambda>_. False) False (\<lambda>_ _ _. None) (4096 + of_nat 1000) context_default () m = Some (ctx, (), m') \<and>
    load64 (4096 + of_nat 1000) m' = Some 7"
proof -
  obtain m where m: "interned AArch64 1000 2000 4096 1 4096 [7] m" using demo_full by blast
  then have blk: "block 4096 4096 m" by (simp add: interned_def)
  let ?p = "4096 + of_nat 1000 :: 64 word" and ?s = "stub_of 4096 [7] 7"
  obtain m2 where m2: "store64 ?p ?s m = Some m2" "stored 4096 4096 1000 8 m m2" "holds 4096 m2 1000 (to_bytes 8 ?s)"
    using store64_stored [OF blk, of 1000 ?s] by auto
  have "slot_off 1 = 64" by (simp add: slot_off_def layout_defs)
  then have i: "interned AArch64 1000 2000 4096 1 4096 [7] m2" using interned_stored [OF m m2(2)] by simp
  have "block ?p 8 m2" "load64 ?p m2 = Some ?s"
    using block_part [OF stored_block [OF m2(2)], of 1000 8] load64_holds [OF stored_block [OF m2(2)] m2(3)] by simp_all
  moreover have "?s \<noteq> 7" by (simp add: stub_of_def thunk_instr_at_def slot_def layout_defs)
  ultimately show ?thesis
    using callback_crosses_back [OF i, of 7 False "\<lambda>_. False" ?p "\<lambda>_ _ _. None" context_default "()"] by auto
qed

end
