(* ===== verification/Invocation.thy ===== *)
theory Invocation
  imports Lore_Prelude
begin

text \<open>
  Calls across the boundary: the argument blocks of \<open>include/lorelei/DLCall/Protocol.h\<close>, the host's
  stack of suspended invocations (\<open>src/utils/TinyCoroutine/Invocation.cpp\<close>), its dispatch on the
  convention (\<open>src/modules/HostRT/HostServer.cpp\<close>) and the guest's service loop
  (\<open>src/modules/GuestRT/GuestClient.cpp\<close>).  The context switches of the assembly files are
  modelled by what they hand over: a suspended function is its continuation.
\<close>

subsection \<open>Argument blocks\<close>

text \<open>Pointers are numbers.  \<open>InvocationArguments\<close> is a tag and a union of structs of pointers.\<close>

record InvocationArguments =
  ia_conv :: int
  ia_ptrs :: "nat list"

record standard_args = sa_proc :: nat  sa_args :: nat  sa_ret :: nat  sa_metadata :: nat
record callback_args = ca_proc :: nat  ca_callback :: nat  ca_args :: nat  ca_ret :: nat  ca_metadata :: nat
record format_args = fa_proc :: nat  fa_format :: nat  fa_args :: nat  fa_ret :: nat
record thread_create_args = tc_thread :: nat  tc_attr :: nat  tc_start_routine :: nat  tc_arg :: nat  tc_ret :: nat

text \<open>The members of \<open>ReentryArguments\<close> do not share storage.\<close>

record ReentryArguments =
  ra_conv :: int
  ra_standard :: standard_args
  ra_standardCallback :: callback_args
  ra_format :: format_args
  ra_threadCreate :: thread_create_args
  ra_threadExit :: nat

text \<open>The calls a convention stands for, with the operands read from the block.\<close>

datatype proc_call =
    Call_Standard nat nat nat nat
  | Call_StandardCallback nat nat nat nat nat
  | Call_Format nat nat nat nat
  | Call_ThreadEntry nat nat nat

text \<open>\<open>invokeByConv\<close>: the call it makes and its result, \<open>None\<close> for no call.\<close>

definition invokeByConv :: "InvocationArguments \<Rightarrow> proc_call option \<times> int" where
  "invokeByConv ia =
     (let p = (\<lambda>i. ia_ptrs ia ! i) in
      if ia_conv ia = 0 then (Some (Call_Standard (p 0) (p 1) (p 2) (p 3)), 0)
      else if ia_conv ia = 1 then (Some (Call_StandardCallback (p 0) (p 1) (p 2) (p 3) (p 4)), 0)
      else if ia_conv ia = 2 then (Some (Call_Format (p 0) (p 1) (p 2) (p 3)), 0)
      else if ia_conv ia = 3 then (Some (Call_ThreadEntry (p 0) (p 1) (p 2)), 0)
      else (None, - 1))"

subsection \<open>Code on the two sides\<close>

text \<open>
  A host function over the shared state \<open>'s\<close>: it finishes, or it reenters the guest having used so
  much of its stack, with what it goes on with once the reentry has been serviced.  A guest
  function likewise finishes or invokes the host.
\<close>

datatype 's hcode = HDone 's | HReenter nat ReentryArguments 's "'s \<Rightarrow> 's hcode"

datatype 's gcode = GDone 's | GInvoke InvocationArguments 's "'s \<Rightarrow> 's gcode"

text \<open>
  The program: its host and guest functions, thread creation in the guest with its return code, and
  the store through an \<open>int *\<close>.
\<close>

record 's program =
  host_fn :: "proc_call \<Rightarrow> 's \<Rightarrow> 's hcode"
  guest_fn :: "proc_call \<Rightarrow> 's \<Rightarrow> 's gcode"
  thread_create :: "thread_create_args \<Rightarrow> 's \<Rightarrow> int \<times> 's"
  put_int :: "nat \<Rightarrow> int \<Rightarrow> 's \<Rightarrow> 's"

text \<open>The body of \<open>invocationEntry\<close>: the result of \<open>invokeByConv\<close> is not used.\<close>

definition invocation_body :: "'s program \<Rightarrow> InvocationArguments \<Rightarrow> 's \<Rightarrow> 's hcode" where
  "invocation_body P ia s = (case fst (invokeByConv ia) of None \<Rightarrow> HDone s | Some c \<Rightarrow> host_fn P c s)"

subsection \<open>The host's execution context\<close>

text \<open>
  One suspended invocation: the guest variable its reentries are announced in, the saved state
  (continuation and stack pointer), and the top of the stack its coroutine runs on.
\<close>

record 's invocation_info =
  ra_ptr :: nat
  hostState_cont :: "'s \<Rightarrow> 's hcode"
  hostState_sp :: nat
  coroutine_base :: nat

text \<open>
  The per-thread context.  Its member \<open>mainHostState\<close> is written by \<open>invoke\<close> and \<open>resume\<close> as they switch
  to the coroutine and read by the switch with which that coroutine yields or ends, and nothing runs in
  between but the coroutine: it is the pending call of \<open>host_invoke\<close> or \<open>host_resume\<close> below, to which
  \<open>run_coroutine\<close> hands its value, and needs no field.
\<close>

record 's exec_context =
  ctx_stack :: nat
  ctx_stackSize :: nat
  ctx_invocations :: "'s invocation_info list"

definition sizeof_invocation :: nat where "sizeof_invocation = 16"

definition align16 :: "nat \<Rightarrow> nat" where "align16 a = a - a mod 16"

definition stackTop :: "'s exec_context \<Rightarrow> nat" where
  "stackTop c = align16 (ctx_stack c + ctx_stackSize c)"

definition invocationCount :: "'s exec_context \<Rightarrow> nat" where
  "invocationCount c = length (ctx_invocations c)"

definition lastInvocation :: "'s exec_context \<Rightarrow> 's invocation_info option" where
  "lastInvocation c = (if invocationCount c > 0 then Some (last (ctx_invocations c)) else None)"

definition pushInvocation :: "nat \<Rightarrow> nat \<Rightarrow> 's exec_context \<Rightarrow> 's exec_context option" where
  "pushInvocation ra base c =
     (if invocationCount c < ctx_stackSize c div sizeof_invocation
      then Some (c\<lparr>ctx_invocations := ctx_invocations c @
             [\<lparr>ra_ptr = ra, hostState_cont = HDone, hostState_sp = base, coroutine_base = base\<rparr>]\<rparr>)
      else None)"

definition popInvocation :: "'s exec_context \<Rightarrow> 's exec_context option" where
  "popInvocation c =
     (if invocationCount c > 0 then Some (c\<lparr>ctx_invocations := butlast (ctx_invocations c)\<rparr>) else None)"

text \<open>Where the coroutine of a new invocation starts.\<close>

definition invoke_stack :: "'s exec_context \<Rightarrow> nat" where
  "invoke_stack c =
     (case lastInvocation c of None \<Rightarrow> stackTop c | Some i \<Rightarrow> align16 (hostState_sp i))"

text \<open>
  The machine: the context and the guest's variables \<open>ra\<close>, one per call of \<open>invokeFunction\<close> in
  progress, each in the frame of its call.
\<close>

record 's machine =
  m_ctx :: "'s exec_context"
  m_ra :: "ReentryArguments option list"

text \<open>
  \<open>reenter\<close>: announce the reentry, save the state and yield 1.  A coroutine whose stack would run
  into the array of invocations is a fault (\<open>None\<close>), as are the failed assertions.
\<close>

definition host_reenter ::
    "nat \<Rightarrow> ReentryArguments \<Rightarrow> ('s \<Rightarrow> 's hcode) \<Rightarrow> 's machine \<Rightarrow> 's machine option" where
  "host_reenter used ra k m =
     (let c = m_ctx m in
      case lastInvocation c of
        None \<Rightarrow> None
      | Some i \<Rightarrow>
          if ra_ptr i < length (m_ra m) \<and>
             ctx_stack c + invocationCount c * sizeof_invocation + used \<le> coroutine_base i
          then Some (m\<lparr>m_ctx := c\<lparr>ctx_invocations := butlast (ctx_invocations c) @
                         [i\<lparr>hostState_cont := k, hostState_sp := coroutine_base i - used\<rparr>]\<rparr>,
                       m_ra := (m_ra m)[ra_ptr i := Some ra]\<rparr>)
          else None)"

text \<open>Running the newest coroutine until it yields: the yielded value, the machine and the state.\<close>

definition run_coroutine :: "'s hcode \<Rightarrow> 's machine \<Rightarrow> (int \<times> 's machine \<times> 's) option" where
  "run_coroutine code m =
     (case code of
        HDone s \<Rightarrow> map_option (\<lambda>c. (0, m\<lparr>m_ctx := c\<rparr>, s)) (popInvocation (m_ctx m))
      | HReenter used ra s k \<Rightarrow> map_option (\<lambda>m. (1, m, s)) (host_reenter used ra k m))"

definition host_invoke ::
    "'s program \<Rightarrow> InvocationArguments \<Rightarrow> nat \<Rightarrow> 's machine \<Rightarrow> 's \<Rightarrow> (int \<times> 's machine \<times> 's) option" where
  "host_invoke P ia ra m s =
     (case pushInvocation ra (invoke_stack (m_ctx m)) (m_ctx m) of
        None \<Rightarrow> None
      | Some c \<Rightarrow> run_coroutine (invocation_body P ia s) (m\<lparr>m_ctx := c\<rparr>))"

definition host_resume :: "'s machine \<Rightarrow> 's \<Rightarrow> (int \<times> 's machine \<times> 's) option" where
  "host_resume m s =
     (case lastInvocation (m_ctx m) of
        None \<Rightarrow> None
      | Some i \<Rightarrow> run_coroutine (hostState_cont i s) m)"

subsection \<open>The guest's service loop\<close>

text \<open>A guest call returns, or its thread exits, or it faults.\<close>

datatype 'a outcome = Returned 'a | Exited nat | Fault

text \<open>What one reentry makes the guest do.\<close>

datatype service = Serve_call proc_call | Serve_create thread_create_args | Serve_exit nat | Serve_nothing

definition reentry_service :: "ReentryArguments \<Rightarrow> service" where
  "reentry_service ra =
     (if ra_conv ra = 0 then
        (let a = ra_standard ra in Serve_call (Call_Standard (sa_proc a) (sa_args a) (sa_ret a) (sa_metadata a)))
      else if ra_conv ra = 1 then
        (let a = ra_standardCallback ra
         in Serve_call (Call_StandardCallback (ca_proc a) (ca_callback a) (ca_args a) (ca_ret a) (ca_metadata a)))
      else if ra_conv ra = 2 then
        (let a = ra_format ra in Serve_call (Call_Format (fa_proc a) (fa_format a) (fa_args a) (fa_ret a)))
      else if ra_conv ra = 3 then Serve_create (ra_threadCreate ra)
      else if ra_conv ra = 4 then Serve_exit (ra_threadExit ra)
      else Serve_nothing)"

definition create_thread :: "'s program \<Rightarrow> thread_create_args \<Rightarrow> 's \<Rightarrow> 's" where
  "create_thread P a s = (let (rc, s) = thread_create P a s in put_int P (tc_ret a) rc s)"

text \<open>
  The guest's activities: a call of \<open>invokeFunction\<close>, its loop at the test of \<open>ret\<close>, the servicing
  of one reentry, and guest code in between; with fuel for the nesting and the length of the run.
\<close>

datatype 's task =
    Invoke_function InvocationArguments "'s machine" 's
  | Invoke_loop nat "(int \<times> 's machine \<times> 's) option"
  | Serve ReentryArguments "'s machine" 's
  | Run_guest "'s gcode" "'s machine"

primrec guest_run :: "'s program \<Rightarrow> nat \<Rightarrow> 's task \<Rightarrow> ('s machine \<times> 's) outcome option" where
  "guest_run P 0 = (\<lambda>t. None)"
| "guest_run P (Suc n) = (\<lambda>t.
     case t of
       Invoke_function ia m s \<Rightarrow>
         guest_run P n (Invoke_loop (length (m_ra m))
           (host_invoke P ia (length (m_ra m)) (m\<lparr>m_ra := m_ra m @ [None]\<rparr>) s))
     | Invoke_loop ra r \<Rightarrow>
         (case r of
            None \<Rightarrow> Some Fault
          | Some (ret, m, s) \<Rightarrow>
              if ret \<noteq> 0 then
                (case m_ra m ! ra of
                   None \<Rightarrow> Some Fault
                 | Some a \<Rightarrow>
                     (case guest_run P n (Serve a m s) of
                        Some (Returned (m, s)) \<Rightarrow> guest_run P n (Invoke_loop ra (host_resume m s))
                      | out \<Rightarrow> out))
              else Some (Returned (m\<lparr>m_ra := take ra (m_ra m)\<rparr>, s)))
     | Serve a m s \<Rightarrow>
         (case reentry_service a of
            Serve_call c \<Rightarrow> guest_run P n (Run_guest (guest_fn P c s) m)
          | Serve_create c \<Rightarrow> Some (Returned (m, create_thread P c s))
          | Serve_exit v \<Rightarrow> Some (Exited v)
          | Serve_nothing \<Rightarrow> Some (Returned (m, s)))
     | Run_guest g m \<Rightarrow>
         (case g of
            GDone s \<Rightarrow> Some (Returned (m, s))
          | GInvoke ia s k \<Rightarrow>
              (case guest_run P n (Invoke_function ia m s) of
                 Some (Returned (m, s)) \<Rightarrow> guest_run P n (Run_guest (k s) m)
               | out \<Rightarrow> out)))"

definition invokeFunction ::
    "'s program \<Rightarrow> nat \<Rightarrow> InvocationArguments \<Rightarrow> 's machine \<Rightarrow> 's \<Rightarrow> ('s machine \<times> 's) outcome option" where
  "invokeFunction P n ia m s = guest_run P n (Invoke_function ia m s)"

subsection \<open>The reference: calls that simply nest\<close>

datatype 's direct_task =
    D_call InvocationArguments 's | D_host "'s hcode" | D_serve ReentryArguments 's | D_guest "'s gcode"

primrec direct_run :: "'s program \<Rightarrow> nat \<Rightarrow> 's direct_task \<Rightarrow> 's outcome option" where
  "direct_run P 0 = (\<lambda>t. None)"
| "direct_run P (Suc n) = (\<lambda>t.
     case t of
       D_call ia s \<Rightarrow> direct_run P n (D_host (invocation_body P ia s))
     | D_host h \<Rightarrow>
         (case h of
            HDone s \<Rightarrow> Some (Returned s)
          | HReenter used a s k \<Rightarrow>
              (case direct_run P n (D_serve a s) of
                 Some (Returned s) \<Rightarrow> direct_run P n (D_host (k s))
               | out \<Rightarrow> out))
     | D_serve a s \<Rightarrow>
         (case reentry_service a of
            Serve_call c \<Rightarrow> direct_run P n (D_guest (guest_fn P c s))
          | Serve_create c \<Rightarrow> Some (Returned (create_thread P c s))
          | Serve_exit v \<Rightarrow> Some (Exited v)
          | Serve_nothing \<Rightarrow> Some (Returned s))
     | D_guest g \<Rightarrow>
         (case g of
            GDone s \<Rightarrow> Some (Returned s)
          | GInvoke ia s k \<Rightarrow>
              (case direct_run P n (D_call ia s) of
                 Some (Returned s) \<Rightarrow> direct_run P n (D_guest (k s))
               | out \<Rightarrow> out)))"

subsection \<open>The machine nests calls\<close>

text \<open>A machine inside a call: one more invocation and one more guest variable.\<close>

definition in_call :: "'s machine \<Rightarrow> 's invocation_info \<Rightarrow> ReentryArguments option \<Rightarrow> 's machine" where
  "in_call m i x =
     m\<lparr>m_ra := m_ra m @ [x], m_ctx := (m_ctx m)\<lparr>ctx_invocations := ctx_invocations (m_ctx m) @ [i]\<rparr>\<rparr>"

lemma in_call_sel [simp]:
  "m_ra (in_call m i x) = m_ra m @ [x]"
  "ctx_invocations (m_ctx (in_call m i x)) = ctx_invocations (m_ctx m) @ [i]"
  "ctx_stack (m_ctx (in_call m i x)) = ctx_stack (m_ctx m)"
  "ctx_stackSize (m_ctx (in_call m i x)) = ctx_stackSize (m_ctx m)"
  "invocationCount (m_ctx (in_call m i x)) = Suc (invocationCount (m_ctx m))"
  "lastInvocation (m_ctx (in_call m i x)) = Some i"
  by (simp_all add: in_call_def invocationCount_def lastInvocation_def)

lemma leave_call [simp]:
  "run_coroutine (HDone s) (in_call m i x) = Some (0, m\<lparr>m_ra := m_ra m @ [x]\<rparr>, s)"
  by (simp add: run_coroutine_def popInvocation_def in_call_def invocationCount_def)

lemma reenter_call:
  assumes "ra_ptr i = length (m_ra m)"
  shows "run_coroutine (HReenter used a s k) (in_call m i x) =
    (if ctx_stack (m_ctx m) + Suc (invocationCount (m_ctx m)) * sizeof_invocation + used \<le> coroutine_base i
     then Some (1, in_call m (i\<lparr>hostState_cont := k, hostState_sp := coroutine_base i - used\<rparr>) (Some a), s)
     else None)"
  using assms by (simp add: run_coroutine_def host_reenter_def Let_def in_call_def invocationCount_def lastInvocation_def)

lemma resume_call: "host_resume (in_call m i x) s = run_coroutine (hostState_cont i s) (in_call m i x)"
  by (simp add: host_resume_def)

definition new_invocation :: "'s machine \<Rightarrow> nat \<Rightarrow> 's invocation_info" where
  "new_invocation m ra =
     \<lparr>ra_ptr = ra, hostState_cont = HDone, hostState_sp = invoke_stack (m_ctx m), coroutine_base = invoke_stack (m_ctx m)\<rparr>"

lemma enter_call:
  "host_invoke P ia ra (m\<lparr>m_ra := m_ra m @ [None]\<rparr>) s =
     (if invocationCount (m_ctx m) < ctx_stackSize (m_ctx m) div sizeof_invocation
      then run_coroutine (invocation_body P ia s) (in_call m (new_invocation m ra) None) else None)"
  by (simp add: host_invoke_def pushInvocation_def in_call_def new_invocation_def)

definition lift_outcome :: "'s machine \<Rightarrow> 's outcome \<Rightarrow> ('s machine \<times> 's) outcome" where
  "lift_outcome m = map_outcome (Pair m)"

lemma lift_outcome_simps [simp]:
  "lift_outcome m (Returned s) = Returned (m, s)"
  "lift_outcome m (Exited v) = Exited v"
  "lift_outcome m Fault = Fault"
  by (simp_all add: lift_outcome_def)

text \<open>What corresponds to what: the machine's activity over \<open>m\<close> and the direct one.\<close>

inductive task_rel :: "'s program \<Rightarrow> 's machine \<Rightarrow> 's task \<Rightarrow> 's direct_task \<Rightarrow> bool" for P m where
  rel_call: "task_rel P m (Invoke_function ia m s) (D_call ia s)"
| rel_host: "ra_ptr i = length (m_ra m) \<Longrightarrow> r = None \<or> r = run_coroutine h (in_call m i x) \<Longrightarrow>
    task_rel P m (Invoke_loop (length (m_ra m)) r) (D_host h)"
| rel_serve: "task_rel P m (Serve a m s) (D_serve a s)"
| rel_guest: "task_rel P m (Run_guest g m) (D_guest g)"

lemma run_refines:
  "task_rel P m t d \<Longrightarrow>
     guest_run P n t = Some Fault \<or> guest_run P n t = map_option (lift_outcome m) (direct_run P n d)"
proof (induction n arbitrary: m t d)
  case (Suc n)
  note IH = Suc.IH
  from Suc.prems show ?case
  proof (cases rule: task_rel.cases)
    case (rel_call ia s)
    have "task_rel P m (Invoke_loop (length (m_ra m)) (host_invoke P ia (length (m_ra m)) (m\<lparr>m_ra := m_ra m @ [None]\<rparr>) s))
        (D_host (invocation_body P ia s))"
      by (rule task_rel.rel_host [where i = "new_invocation m (length (m_ra m))" and x = None])
        (simp_all add: enter_call new_invocation_def)
    from IH [OF this] show ?thesis using rel_call by simp
  next
    case (rel_host i r h x)
    show ?thesis
    proof (cases r)
      case (Some y)
      then have r: "r = run_coroutine h (in_call m i x)" using rel_host by simp
      show ?thesis
      proof (cases h)
        case (HDone s)
        then show ?thesis using rel_host r by simp
      next
        case (HReenter used a s k)
        let ?i = "i\<lparr>hostState_cont := k, hostState_sp := coroutine_base i - used\<rparr>"
        have y: "r = Some (1, in_call m ?i (Some a), s)"
          using r Some reenter_call [OF rel_host(3)] HReenter by (simp split: if_splits)
        have "task_rel P (in_call m ?i (Some a)) (Serve a (in_call m ?i (Some a)) s) (D_serve a s)"
          by (rule task_rel.rel_serve)
        note sv = IH [OF this]
        have "task_rel P m (Invoke_loop (length (m_ra m)) (host_resume (in_call m ?i (Some a)) s')) (D_host (k s'))" for s'
          by (rule task_rel.rel_host [where i = ?i and x = "Some a"]) (simp_all add: resume_call rel_host)
        note rs = IH [OF this]
        have t: "guest_run P (Suc n) t =
          (case guest_run P n (Serve a (in_call m ?i (Some a)) s) of
             Some (Returned (m', s)) \<Rightarrow> guest_run P n (Invoke_loop (length (m_ra m)) (host_resume m' s))
           | out \<Rightarrow> out)"
          unfolding rel_host(1) y by simp
        have d: "direct_run P (Suc n) d =
          (case direct_run P n (D_serve a s) of
             Some (Returned s) \<Rightarrow> direct_run P n (D_host (k s)) | out \<Rightarrow> out)"
          unfolding rel_host(2) HReenter by simp
        show ?thesis
        proof (cases "direct_run P n (D_serve a s)")
          case None
          then show ?thesis using sv t d by auto
        next
          case (Some out)
          show ?thesis using sv rs [of "case out of Returned s' \<Rightarrow> s'"] unfolding t d Some by (cases out) auto
        qed
      qed
    qed (use rel_host in simp)
  next
    case (rel_serve a s)
    show ?thesis
      using rel_serve IH [OF task_rel.rel_guest] by (auto split: service.split)
  next
    case (rel_guest g)
    show ?thesis
    proof (cases g)
      case (GInvoke ia s k)
      note c = IH [OF task_rel.rel_call [of P m ia s]]
      show ?thesis
      proof (cases "direct_run P n (D_call ia s)")
        case None
        then show ?thesis using c rel_guest GInvoke by auto
      next
        case (Some out)
        show ?thesis
          using c IH [OF task_rel.rel_guest [of P m "k (case out of Returned s' \<Rightarrow> s')"]] rel_guest GInvoke Some
          by (cases out) auto
      qed
    qed (use rel_guest in simp)
  qed
qed simp

text \<open>With room enough there is no fault.\<close>

definition room :: "nat \<Rightarrow> 's machine \<Rightarrow> bool" where
  "room R m \<longleftrightarrow>
     ctx_stack (m_ctx m) + invocationCount (m_ctx m) * sizeof_invocation + R \<le> invoke_stack (m_ctx m) \<and>
     invocationCount (m_ctx m) + R \<le> ctx_stackSize (m_ctx m) div sizeof_invocation"

definition call_room :: "nat \<Rightarrow> 's machine \<Rightarrow> 's invocation_info \<Rightarrow> bool" where
  "call_room R m i \<longleftrightarrow>
     ctx_stack (m_ctx m) + Suc (invocationCount (m_ctx m)) * sizeof_invocation + R \<le> coroutine_base i \<and>
     Suc (invocationCount (m_ctx m)) + R \<le> ctx_stackSize (m_ctx m) div sizeof_invocation"

text \<open>Activity of a kind over \<open>m\<close> with room \<open>R\<close>.\<close>

inductive room_rel :: "'s program \<Rightarrow> nat \<Rightarrow> 's machine \<Rightarrow> 's task \<Rightarrow> 's direct_task \<Rightarrow> bool" for P R m where
  room_call: "room R m \<Longrightarrow> room_rel P R m (Invoke_function ia m s) (D_call ia s)"
| room_host: "ra_ptr i = length (m_ra m) \<Longrightarrow> call_room R m i \<Longrightarrow>
    room_rel P R m (Invoke_loop (length (m_ra m)) (run_coroutine h (in_call m i x))) (D_host h)"
| room_serve: "room R m \<Longrightarrow> room_rel P R m (Serve a m s) (D_serve a s)"
| room_guest: "room R m \<Longrightarrow> room_rel P R m (Run_guest g m) (D_guest g)"

lemma room_mono: "room R m \<Longrightarrow> R' \<le> R \<Longrightarrow> room R' m" "call_room R m i \<Longrightarrow> R' \<le> R \<Longrightarrow> call_room R' m i"
  by (auto simp: room_def call_room_def)

lemma room_rel_mono: "room_rel P R m t d \<Longrightarrow> R' \<le> R \<Longrightarrow> room_rel P R' m t d"
  by (auto elim!: room_rel.cases intro: room_rel.intros room_mono)

lemma align16_bounds: "align16 a \<le> a" "a - 15 \<le> align16 a"
proof -
  have "a mod 16 < 16" by simp
  then show "align16 a \<le> a" "a - 15 \<le> align16 a" by (simp_all add: align16_def)
qed

lemma room_enter: "room (16 + R) m \<Longrightarrow> call_room R m (new_invocation m ra)"
  by (auto simp: room_def call_room_def new_invocation_def sizeof_invocation_def)

lemma room_suspend:
  assumes "call_room (used + 15 + R) m i"
  shows "room R (in_call m (i\<lparr>hostState_cont := k, hostState_sp := coroutine_base i - used\<rparr>) x)"
  using assms align16_bounds(2) [of "coroutine_base i - used"]
  unfolding room_def call_room_def invoke_stack_def by simp arith

inductive_cases room_callE: "room_rel P R m t (D_call ia s)"
inductive_cases room_hostE: "room_rel P R m t (D_host h)"
inductive_cases room_serveE: "room_rel P R m t (D_serve a s)"
inductive_cases room_guestE: "room_rel P R m t (D_guest g)"

text \<open>\<open>n\<close> steps of fuel and room \<open>R\<close> suffice for the outcome.\<close>

definition suffices :: "'s program \<Rightarrow> nat \<Rightarrow> 's direct_task \<Rightarrow> 's outcome \<Rightarrow> nat \<Rightarrow> bool" where
  "suffices P n d out R \<longleftrightarrow> (\<forall>m t. room_rel P R m t d \<longrightarrow> guest_run P n t = Some (lift_outcome m out))"

lemma suffices_use:
  "suffices P n (D_call ia s) out R \<Longrightarrow> room R m \<Longrightarrow> guest_run P n (Invoke_function ia m s) = Some (lift_outcome m out)"
  "suffices P n (D_serve a s) out R \<Longrightarrow> room R m \<Longrightarrow> guest_run P n (Serve a m s) = Some (lift_outcome m out)"
  "suffices P n (D_guest g) out R \<Longrightarrow> room R m \<Longrightarrow> guest_run P n (Run_guest g m) = Some (lift_outcome m out)"
  "suffices P n (D_host h) out R \<Longrightarrow> ra_ptr i = length (m_ra m) \<Longrightarrow> call_room R m i \<Longrightarrow>
     guest_run P n (Invoke_loop (length (m_ra m)) (run_coroutine h (in_call m i x))) = Some (lift_outcome m out)"
  unfolding suffices_def by (blast intro: room_rel.intros)+

lemma suffices_call:
  assumes "suffices P n (D_host (invocation_body P ia s)) out R"
  shows "suffices P (Suc n) (D_call ia s) out (16 + Suc R)"
  unfolding suffices_def
proof (intro allI impI, elim room_callE)
  fix m t assume r: "room (16 + Suc R) m" and t: "t = Invoke_function ia m s"
  have "invocationCount (m_ctx m) < ctx_stackSize (m_ctx m) div sizeof_invocation" using r by (simp add: room_def)
  moreover have "call_room R m (new_invocation m (length (m_ra m)))" using room_enter room_mono(1) [OF r, of "16 + R"] by simp
  ultimately show "guest_run P (Suc n) t = Some (lift_outcome m out)"
    using suffices_use(4) [OF assms] t by (simp add: enter_call new_invocation_def)
qed

lemma suffices_serve:
  assumes "reentry_service a = Serve_call c" "suffices P n (D_guest (guest_fn P c s)) out R"
  shows "suffices P (Suc n) (D_serve a s) out R"
  unfolding suffices_def by (auto elim!: room_serveE simp: assms(1) suffices_use(3) [OF assms(2)])

lemma suffices_guest:
  assumes "suffices P n (D_call ia s) (Returned s') R1" "suffices P n (D_guest (k s')) out R2"
  shows "suffices P (Suc n) (D_guest (GInvoke ia s k)) out (R1 + R2)"
  unfolding suffices_def
proof (intro allI impI, elim room_guestE)
  fix m t assume r: "room (R1 + R2) m" and t: "t = Run_guest (GInvoke ia s k) m"
  have "room R1 m" "room R2 m" using r by (rule room_mono, simp)+
  then show "guest_run P (Suc n) t = Some (lift_outcome m out)"
    using suffices_use(1) [OF assms(1)] suffices_use(3) [OF assms(2)] t by simp
qed

text \<open>A host function at a reentry, when the service does not return and when it does.\<close>

lemma suffices_host:
  assumes sv: "suffices P n (D_serve a s) out1 R1"
    and rs: "case out1 of Returned s' \<Rightarrow> suffices P n (D_host (k s')) out R2 | _ \<Rightarrow> out = out1"
  shows "suffices P (Suc n) (D_host (HReenter used a s k)) out (used + 15 + R1 + R2)"
  unfolding suffices_def
proof (intro allI impI, elim room_hostE)
  fix m t i x
  assume t: "t = Invoke_loop (length (m_ra m)) (run_coroutine (HReenter used a s k) (in_call m i x))"
    and i: "ra_ptr i = length (m_ra m)" "call_room (used + 15 + R1 + R2) m i"
  let ?i = "i\<lparr>hostState_cont := k, hostState_sp := coroutine_base i - used\<rparr>"
  let ?m = "in_call m ?i (Some a)"
  have rc: "run_coroutine (HReenter used a s k) (in_call m i x) = Some (1, ?m, s)"
    using reenter_call [OF i(1)] i(2) by (simp add: call_room_def)
  have "room R1 ?m" by (rule room_suspend, rule room_mono(2) [OF i(2)]) simp
  then have sv': "guest_run P n (Serve a ?m s) = Some (lift_outcome ?m out1)" by (rule suffices_use(2) [OF sv])
  have "call_room R2 m ?i" using i(2) by (simp add: call_room_def)
  then have rs': "guest_run P n (Invoke_loop (length (m_ra m)) (host_resume ?m s')) = Some (lift_outcome m out)"
    if "out1 = Returned s'" for s'
    using suffices_use(4) [of P n "k s'" out R2 ?i m "Some a"] rs i(1) that by (simp add: resume_call)
  show "guest_run P (Suc n) t = Some (lift_outcome m out)"
    unfolding t rc using sv' rs' rs by (cases out1) simp_all
qed

lemma suffices_done:
  "suffices P (Suc n) (D_host (HDone s)) (Returned s) 0"
  "suffices P (Suc n) (D_guest (GDone s)) (Returned s) 0"
  "reentry_service a = Serve_create c \<Longrightarrow> suffices P (Suc n) (D_serve a s) (Returned (create_thread P c s)) 0"
  "reentry_service a = Serve_exit v \<Longrightarrow> suffices P (Suc n) (D_serve a s) (Exited v) 0"
  "reentry_service a = Serve_nothing \<Longrightarrow> suffices P (Suc n) (D_serve a s) (Returned s) 0"
  unfolding suffices_def by (auto elim!: room_hostE room_guestE room_serveE)

lemma suffices_guest_stop:
  assumes "suffices P n (D_call ia s) out R" "\<And>s'. out \<noteq> Returned s'"
  shows "suffices P (Suc n) (D_guest (GInvoke ia s k)) out R"
  unfolding suffices_def using suffices_use(1) [OF assms(1)] assms(2)
  by (cases out) (auto elim!: room_guestE)

lemma room_suffices: "direct_run P n d = Some out \<Longrightarrow> \<exists>R. suffices P n d out R"
proof (induction n arbitrary: d out)
  case (Suc n)
  note IH = Suc.IH and run = Suc.prems
  show ?case
  proof (cases d)
    case (D_call ia s)
    then have "direct_run P n (D_host (invocation_body P ia s)) = Some out" using run by simp
    from IH [OF this] obtain R where "suffices P n (D_host (invocation_body P ia s)) out R" ..
    from suffices_call [OF this] show ?thesis unfolding D_call by blast
  next
    case (D_serve a s)
    show ?thesis
    proof (cases "reentry_service a")
      case (Serve_call c)
      then have "direct_run P n (D_guest (guest_fn P c s)) = Some out" using run D_serve by simp
      from IH [OF this] obtain R where "suffices P n (D_guest (guest_fn P c s)) out R" ..
      from suffices_serve [OF Serve_call this] show ?thesis unfolding D_serve by blast
    next
      case (Serve_create c)
      then show ?thesis using run D_serve suffices_done(3) [OF Serve_create, of P n s] by (intro exI [of _ 0]) simp
    next
      case (Serve_exit v)
      then show ?thesis using run D_serve suffices_done(4) [OF Serve_exit, of P n s] by (intro exI [of _ 0]) simp
    next
      case Serve_nothing
      then show ?thesis using run D_serve suffices_done(5) [OF Serve_nothing, of P n s] by (intro exI [of _ 0]) simp
    qed
  next
    case (D_guest g)
    show ?thesis
    proof (cases g)
      case (GDone s)
      then show ?thesis using run D_guest suffices_done(2) [of P n s] by (intro exI [of _ 0]) simp
    next
      case (GInvoke ia s k)
      obtain out1 where o1: "direct_run P n (D_call ia s) = Some out1"
        using run D_guest GInvoke by (cases "direct_run P n (D_call ia s)") simp_all
      then obtain R1 where R1: "suffices P n (D_call ia s) out1 R1" using IH by blast
      show ?thesis
      proof (cases "\<exists>s'. out1 = Returned s'")
        case True
        then obtain s' where o: "out1 = Returned s'" ..
        then have "direct_run P n (D_guest (k s')) = Some out" using run D_guest GInvoke o1 by simp
        from IH [OF this] obtain R2 where "suffices P n (D_guest (k s')) out R2" ..
        from suffices_guest [where k = k, OF R1 [unfolded o] this] show ?thesis unfolding D_guest GInvoke by blast
      next
        case False
        then have "out = out1" using run D_guest GInvoke o1 by (cases out1) simp_all
        with False suffices_guest_stop [where k = k, OF R1] show ?thesis unfolding D_guest GInvoke by blast
      qed
    qed
  next
    case (D_host h)
    show ?thesis
    proof (cases h)
      case (HDone s)
      then show ?thesis using run D_host suffices_done(1) [of P n s] by (intro exI [of _ 0]) simp
    next
      case (HReenter used a s k)
      obtain out1 where o1: "direct_run P n (D_serve a s) = Some out1"
        using run D_host HReenter by (cases "direct_run P n (D_serve a s)") simp_all
      then obtain R1 where R1: "suffices P n (D_serve a s) out1 R1" using IH by blast
      have "\<exists>R2. case out1 of Returned s' \<Rightarrow> suffices P n (D_host (k s')) out R2 | _ \<Rightarrow> out = out1"
      proof (cases out1)
        case (Returned s')
        then have "direct_run P n (D_host (k s')) = Some out" using run D_host HReenter o1 by simp
        from IH [OF this] show ?thesis unfolding Returned by simp
      next
        case (Exited v)
        then have "out = Exited v" using run D_host HReenter o1 by simp
        then show ?thesis unfolding Exited by simp
      next
        case Fault
        then have "out = Fault" using run D_host HReenter o1 by simp
        then show ?thesis unfolding Fault by simp
      qed
      then obtain R2 where "case out1 of Returned s' \<Rightarrow> suffices P n (D_host (k s')) out R2 | _ \<Rightarrow> out = out1" ..
      from suffices_host [OF R1 this] show ?thesis unfolding D_host HReenter by blast
    qed
  qed
qed simp

subsection \<open>The stack of suspended invocations\<close>

text \<open>
  The coroutines of the suspended invocations occupy disjoint parts of the buffer, each below the
  saved stack pointer of the one before, and the last one's part ends above the array.
\<close>

definition live_ok :: "'s exec_context \<Rightarrow> bool" where
  "live_ok c \<longleftrightarrow>
     (let is = ctx_invocations c in
      (\<forall>i \<in> set is. hostState_sp i \<le> coroutine_base i) \<and>
      (\<forall>j. Suc j < length is \<longrightarrow> coroutine_base (is ! Suc j) \<le> align16 (hostState_sp (is ! j))) \<and>
      (is \<noteq> [] \<longrightarrow> coroutine_base (hd is) \<le> stackTop c \<and>
         ctx_stack c + length is * sizeof_invocation \<le> hostState_sp (last is)))"

lemma live_ok_snoc:
  "live_ok (c\<lparr>ctx_invocations := is @ [i]\<rparr>) \<longleftrightarrow>
     (\<forall>k \<in> set is. hostState_sp k \<le> coroutine_base k) \<and> hostState_sp i \<le> coroutine_base i \<and>
     (\<forall>j. Suc j < length is \<longrightarrow> coroutine_base (is ! Suc j) \<le> align16 (hostState_sp (is ! j))) \<and>
     (is \<noteq> [] \<longrightarrow> coroutine_base i \<le> align16 (hostState_sp (last is)) \<and> coroutine_base (hd is) \<le> stackTop c) \<and>
     (is = [] \<longrightarrow> coroutine_base i \<le> stackTop c) \<and>
     ctx_stack c + Suc (length is) * sizeof_invocation \<le> hostState_sp i"
proof -
  have "(\<forall>j. Suc j < length (is @ [i]) \<longrightarrow> coroutine_base ((is @ [i]) ! Suc j) \<le> align16 (hostState_sp ((is @ [i]) ! j))) \<longleftrightarrow>
    (\<forall>j. Suc j < length is \<longrightarrow> coroutine_base (is ! Suc j) \<le> align16 (hostState_sp (is ! j))) \<and>
    (is \<noteq> [] \<longrightarrow> coroutine_base i \<le> align16 (hostState_sp (last is)))" (is "?L \<longleftrightarrow> ?R")
  proof
    assume L: ?L
    have "coroutine_base (is ! Suc j) \<le> align16 (hostState_sp (is ! j))" if "Suc j < length is" for j
      using L [rule_format, of j] that by (simp add: nth_append)
    moreover have "coroutine_base i \<le> align16 (hostState_sp (last is))" if "is \<noteq> []"
      using L [rule_format, of "length is - 1"] that by (simp add: nth_append last_conv_nth)
    ultimately show ?R by blast
  next
    assume R: ?R
    show ?L
    proof (intro allI impI)
      fix j assume j: "Suc j < length (is @ [i])"
      show "coroutine_base ((is @ [i]) ! Suc j) \<le> align16 (hostState_sp ((is @ [i]) ! j))"
      proof (cases "Suc j < length is")
        case False
        then have "length is = Suc j" using j by simp
        then show ?thesis using R by (auto simp: nth_append last_conv_nth)
      qed (use R in \<open>simp add: nth_append\<close>)
    qed
  qed
  then show ?thesis by (cases "is") (auto simp: live_ok_def Let_def stackTop_def)
qed

definition with_invocations :: "'s invocation_info list \<Rightarrow> 's machine \<Rightarrow> 's exec_context" where
  "with_invocations is m = (m_ctx m)\<lparr>ctx_invocations := is\<rparr>"

lemma run_coroutine_stack:
  assumes "live_ok (with_invocations is m)" and "ctx_invocations (m_ctx m) = is @ [i]"
    and "coroutine_base i \<le> invoke_stack (with_invocations is m)"
    and "run_coroutine h m = Some (ret, m', s')"
  shows "live_ok (m_ctx m') \<and>
    (if ret = 0 then ctx_invocations (m_ctx m') = is
     else ret = 1 \<and> (\<exists>i'. ctx_invocations (m_ctx m') = is @ [i'] \<and> coroutine_base i' = coroutine_base i \<and> ra_ptr i' = ra_ptr i))"
proof (cases h)
  case (HDone s)
  then show ?thesis
    using assms by (auto simp: run_coroutine_def popInvocation_def with_invocations_def invocationCount_def)
next
  case (HReenter used a s k)
  let ?i = "i\<lparr>hostState_cont := k, hostState_sp := coroutine_base i - used\<rparr>"
  have l: "lastInvocation (m_ctx m) = Some i" "invocationCount (m_ctx m) = Suc (length is)"
    using assms(2) by (simp_all add: lastInvocation_def invocationCount_def)
  have r: "ret = 1" "m_ctx m' = (m_ctx m)\<lparr>ctx_invocations := is @ [?i]\<rparr>"
    and u: "ctx_stack (m_ctx m) + Suc (length is) * sizeof_invocation + used \<le> coroutine_base i"
    using assms(2,4) HReenter l
    by (auto simp: run_coroutine_def host_reenter_def Let_def split: if_splits)
  have "live_ok ((m_ctx m)\<lparr>ctx_invocations := is @ [?i]\<rparr>)"
    unfolding live_ok_snoc
    using assms(1,3) u align16_bounds(1) [of "hostState_sp (last is)"]
    by (cases "is") (auto simp: live_ok_def with_invocations_def Let_def invoke_stack_def lastInvocation_def
        invocationCount_def stackTop_def)
  with r show ?thesis by simp
qed

lemma host_invoke_stack:
  assumes "live_ok (m_ctx m)" "host_invoke P ia ra m s = Some (ret, m', s')"
  shows "live_ok (m_ctx m') \<and>
    (if ret = 0 then ctx_invocations (m_ctx m') = ctx_invocations (m_ctx m)
     else ret = 1 \<and> (\<exists>i. ctx_invocations (m_ctx m') = ctx_invocations (m_ctx m) @ [i] \<and> ra_ptr i = ra))"
proof -
  let ?i = "new_invocation m ra" and ?is = "ctx_invocations (m_ctx m)"
  let ?m = "m\<lparr>m_ctx := (m_ctx m)\<lparr>ctx_invocations := ?is @ [?i]\<rparr>\<rparr>"
  have "run_coroutine (invocation_body P ia s) ?m = Some (ret, m', s')"
    using assms(2) by (simp add: host_invoke_def pushInvocation_def new_invocation_def split: if_splits)
  moreover have w: "with_invocations ?is ?m = m_ctx m" by (simp add: with_invocations_def)
  moreover have "coroutine_base ?i = invoke_stack (m_ctx m)" "ra_ptr ?i = ra" by (simp_all add: new_invocation_def)
  moreover have "ctx_invocations (m_ctx ?m) = ?is @ [?i]" by simp
  ultimately have "live_ok (m_ctx m') \<and>
    (if ret = 0 then ctx_invocations (m_ctx m') = ?is
     else ret = 1 \<and> (\<exists>i'. ctx_invocations (m_ctx m') = ?is @ [i'] \<and> coroutine_base i' = coroutine_base ?i \<and> ra_ptr i' = ra_ptr ?i))"
    using assms(1) by (intro run_coroutine_stack [where m = ?m]) simp_all
  with \<open>ra_ptr ?i = ra\<close> show ?thesis by (cases "ret = 0") auto
qed

lemma host_resume_stack:
  assumes "live_ok (m_ctx m)" "host_resume m s = Some (ret, m', s')"
  shows "live_ok (m_ctx m') \<and>
    (if ret = 0 then ctx_invocations (m_ctx m') = butlast (ctx_invocations (m_ctx m))
     else ret = 1 \<and> (\<exists>i. ctx_invocations (m_ctx m') = butlast (ctx_invocations (m_ctx m)) @ [i] \<and>
       ra_ptr i = ra_ptr (last (ctx_invocations (m_ctx m)))))"
proof -
  have "ctx_invocations (m_ctx m) \<noteq> []"
    using assms(2) by (auto simp: host_resume_def lastInvocation_def invocationCount_def split: if_splits)
  then obtain "is" i where e: "ctx_invocations (m_ctx m) = is @ [i]" by (metis rev_exhaust)
  then have r: "run_coroutine (hostState_cont i s) m = Some (ret, m', s')"
    using assms(2) by (simp add: host_resume_def lastInvocation_def invocationCount_def)
  have "m_ctx m = (m_ctx m)\<lparr>ctx_invocations := is @ [i]\<rparr>" using e by simp
  then have "live_ok ((m_ctx m)\<lparr>ctx_invocations := is @ [i]\<rparr>)" using assms(1) by simp
  note l = this [unfolded live_ok_snoc]
  have "live_ok (with_invocations is m)"
  proof (cases "is" rule: rev_cases)
    case (snoc js j)
    have "align16 (hostState_sp j) \<le> hostState_sp j" by (rule align16_bounds)
    moreover have "length is * sizeof_invocation \<le> Suc (length is) * sizeof_invocation" by simp
    ultimately have "ctx_stack (m_ctx m) + length is * sizeof_invocation \<le> hostState_sp (last is)"
      using l snoc by simp
    then show ?thesis using l by (simp add: live_ok_def with_invocations_def stackTop_def)
  qed (simp add: live_ok_def with_invocations_def)
  moreover have "coroutine_base i \<le> invoke_stack (with_invocations is m)"
    using l by (simp add: invoke_stack_def lastInvocation_def invocationCount_def with_invocations_def stackTop_def)
  ultimately show ?thesis using run_coroutine_stack [OF _ e _ r] by (cases "ret = 0") (auto simp: e)
qed

subsection \<open>Properties\<close>

text \<open>
  C3. Host and guest calling each other through the coroutine machine behaves as calls that simply
  nest: for every program and fuel \<open>invokeFunction\<close> gives the outcome of the direct run, with the
  context and the guest's variables as they were before the call, unless a stack bound is hit.
\<close>

theorem invoke_refines_nesting:
  "invokeFunction P n ia m s = Some Fault \<or>
   invokeFunction P n ia m s = map_option (lift_outcome m) (direct_run P n (D_call ia s))"
  unfolding invokeFunction_def by (rule run_refines [OF task_rel.rel_call])

text \<open>
  C20. Whenever the nested calls end, there is an amount of free stack with which the machine does
  not fault and ends with the same outcome.
\<close>

theorem invoke_ends_with_room:
  assumes "direct_run P n (D_call ia s) = Some out"
  shows "\<exists>R. \<forall>m. room R m \<longrightarrow> invokeFunction P n ia m s = Some (lift_outcome m out)"
proof -
  obtain R where "suffices P n (D_call ia s) out R" using room_suffices [OF assms] ..
  from suffices_use(1) [OF this] show ?thesis unfolding invokeFunction_def by blast
qed

text \<open>
  C19. Starting or resuming a host function changes only the newest suspended invocation: the older
  ones stay as they are, and the coroutine stacks stay disjoint and above the array.
\<close>

theorem host_stack_discipline:
  assumes "live_ok (m_ctx m)"
  shows "(host_invoke P ia ra m s = Some (ret, m', s') \<longrightarrow>
      live_ok (m_ctx m') \<and>
      (if ret = 0 then ctx_invocations (m_ctx m') = ctx_invocations (m_ctx m)
       else ret = 1 \<and> (\<exists>i. ctx_invocations (m_ctx m') = ctx_invocations (m_ctx m) @ [i] \<and> ra_ptr i = ra))) \<and>
    (host_resume m s = Some (ret, m', s') \<longrightarrow>
      live_ok (m_ctx m') \<and>
      (if ret = 0 then ctx_invocations (m_ctx m') = butlast (ctx_invocations (m_ctx m))
       else ret = 1 \<and> (\<exists>i. ctx_invocations (m_ctx m') = butlast (ctx_invocations (m_ctx m)) @ [i] \<and>
         ra_ptr i = ra_ptr (last (ctx_invocations (m_ctx m))))))"
  using host_invoke_stack [OF assms] host_resume_stack [OF assms] by blast

text \<open>
  A host function that calls the guest, which calls the host again before it returns.
\<close>

definition demo_call :: "nat \<Rightarrow> InvocationArguments" where
  "demo_call p = \<lparr>ia_conv = 0, ia_ptrs = [p, 0, 0, 0]\<rparr>"

definition demo_reentry :: ReentryArguments where
  "demo_reentry =
     \<lparr>ra_conv = 0, ra_standard = \<lparr>sa_proc = 2, sa_args = 0, sa_ret = 0, sa_metadata = 0\<rparr>,
      ra_standardCallback = \<lparr>ca_proc = 0, ca_callback = 0, ca_args = 0, ca_ret = 0, ca_metadata = 0\<rparr>,
      ra_format = \<lparr>fa_proc = 0, fa_format = 0, fa_args = 0, fa_ret = 0\<rparr>,
      ra_threadCreate = \<lparr>tc_thread = 0, tc_attr = 0, tc_start_routine = 0, tc_arg = 0, tc_ret = 0\<rparr>,
      ra_threadExit = 0\<rparr>"

definition demo_program :: "nat program" where
  "demo_program =
     \<lparr>host_fn = (\<lambda>c s. if c = Call_Standard 1 0 0 0 then HReenter 100 demo_reentry s (\<lambda>s. HDone (s * 2)) else HDone (s + 1)),
      guest_fn = (\<lambda>c s. GInvoke (demo_call 3) (s + 10) (\<lambda>s. GDone (s + 100))),
      thread_create = (\<lambda>a s. (0, s)), put_int = (\<lambda>p v s. s)\<rparr>"

theorem invoke_ends_with_room_witness:
  "\<exists>R. \<forall>m. room R m \<longrightarrow> invokeFunction demo_program 20 (demo_call 1) m 5 = Some (Returned (m, 232))"
proof -
  have "direct_run demo_program 20 (D_call (demo_call 1) 5) = Some (Returned 232)"
    by (simp add: numeral_eq_Suc demo_program_def demo_call_def demo_reentry_def invocation_body_def
        invokeByConv_def reentry_service_def)
  from invoke_ends_with_room [OF this] show ?thesis by simp
qed

theorem host_stack_discipline_witness:
  "let m = \<lparr>m_ctx = \<lparr>ctx_stack = 1000, ctx_stackSize = 4096, ctx_invocations = []\<rparr>, m_ra = [None]\<rparr>
   in case host_invoke demo_program (demo_call 1) 0 m 5 of
        None \<Rightarrow> False
      | Some (ret, m', s') \<Rightarrow> ret = 1 \<and> live_ok (m_ctx m')"
proof -
  let ?m = "\<lparr>m_ctx = \<lparr>ctx_stack = 1000, ctx_stackSize = 4096, ctx_invocations = []\<rparr>, m_ra = [None]\<rparr> :: nat machine"
  have "live_ok (m_ctx ?m)" by (simp add: live_ok_def)
  note d = host_stack_discipline [OF this]
  obtain r where r: "host_invoke demo_program (demo_call 1) 0 ?m 5 = Some r" "fst r = 1"
    by (simp add: host_invoke_def pushInvocation_def invoke_stack_def lastInvocation_def invocationCount_def
        sizeof_invocation_def stackTop_def align16_def invocation_body_def invokeByConv_def demo_program_def
        demo_call_def run_coroutine_def host_reenter_def)
  show ?thesis
    using d [of demo_program "demo_call 1" 0 5 "fst r" "fst (snd r)" "snd (snd r)"] r by (auto simp: Let_def)
qed

text \<open>An unknown convention is not reported: the call returns as if it had been made.\<close>

lemma unknown_convention_silent:
  assumes "ia_conv ia \<notin> {0, 1, 2, 3}"
  shows "direct_run P (Suc (Suc n)) (D_call ia s) = Some (Returned s)"
  using assms by (simp add: invocation_body_def invokeByConv_def)

end
