(* ===== verification/Library_Names.thy ===== *)
theory Library_Names
  imports String_Extras
begin

text \<open>
  Names and paths of thunk libraries: the thunk's base name (\<open>src/modules/HostRT/HostServer.cpp\<close>,
  \<open>HostThunkContext.cpp\<close>), the next library (\<open>src/utils/RuntimeUtils/NextLibrary.cpp\<close>), and the
  operations of \<open>std::filesystem::path\<close> the runtime uses, on POSIX path strings.
\<close>

subsection \<open>The base name of a thunk\<close>

definition pathGetName :: "string \<Rightarrow> string" where
  "pathGetName path = (case rfind_char (CHR ''/'') path of None \<Rightarrow> path | Some i \<Rightarrow> drop (Suc i) path)"

text \<open>\<open>strncasecmp(p, ".so", 3) == 0\<close> at a position of a C string.\<close>

definition is_so :: "string \<Rightarrow> nat \<Rightarrow> bool" where
  "is_so path p \<longleftrightarrow> map c_tolower (take 3 (drop p path)) = ''.so''"

text \<open>The downward scan from \<open>len - 3\<close> to the start of the name.\<close>

definition getLibraryName :: "string \<Rightarrow> string" where
  "getLibraryName path =
     (let start = length path - length (pathGetName path);
          len = length path;
          positions = (if len < 3 then [] else rev [start..<Suc (len - 3)])
      in case List.find (is_so path) positions of
           Some p \<Rightarrow> take (p - start) (drop start path)
         | None \<Rightarrow> drop start path)"

definition PATH_MAX :: nat where "PATH_MAX = 4096"

text \<open>The name is copied to a buffer of \<open>PATH_MAX\<close> bytes; a longer one overflows it (\<open>None\<close>).\<close>

definition thunkNameOf :: "string option \<Rightarrow> string option" where
  "thunkNameOf path =
     (let name = getLibraryName (case path of None \<Rightarrow> [] | Some p \<Rightarrow> p)
      in if PATH_MAX \<le> length name then None
         else Some (if ends_with name ''_HTL'' then take (length name - 4) name else name))"

text \<open>The copy in the host thunk context works on a \<open>std::string\<close>.\<close>

definition normalizeThunkName :: "string option \<Rightarrow> string" where
  "normalizeThunkName modulePath =
     (let name = getLibraryName (case modulePath of None \<Rightarrow> [] | Some p \<Rightarrow> p)
      in if ends_with name ''_HTL'' then str_resize name (length name - 4) else name)"

subsection \<open>The next library\<close>

definition resolveNextLibrary :: "string \<Rightarrow> string option \<Rightarrow> string" where
  "resolveNextLibrary next_lib ownPath =
     (if CHR ''/'' \<notin> set next_lib then next_lib
      else if next_lib \<noteq> [] \<and> hd next_lib = CHR ''/'' then next_lib
      else
        (let dir = (case ownPath of None \<Rightarrow> [] | Some p \<Rightarrow> p);
             dir = (case rfind_char (CHR ''/'') dir of None \<Rightarrow> ''.'' | Some slash \<Rightarrow> take slash dir)
         in dir @ ''/'' @ next_lib))"

definition nextLibraryByName :: "string option \<Rightarrow> bool \<Rightarrow> string" where
  "nextLibraryByName ownPath hostThunk =
     (let base = (case ownPath of None \<Rightarrow> [] | Some p \<Rightarrow> p);
          base = (case rfind_char (CHR ''/'') base of None \<Rightarrow> base | Some slash \<Rightarrow> drop (Suc slash) base);
          base = (case rfind_sub ''.so'' base of None \<Rightarrow> base | Some so \<Rightarrow> take so base)
      in if hostThunk
         then (if 4 \<le> length base \<and> drop (length base - 4) base = ''_HTL''
               then take (length base - 4) base else base) @ ''.so''
         else base @ ''_HTL.so'')"

subsection \<open>Paths\<close>

definition fs_filename :: "string \<Rightarrow> string" where
  "fs_filename p = pathGetName p"

text \<open>The path without its file name and the separators before it; the root stays.\<close>

definition fs_parent_path :: "string \<Rightarrow> string" where
  "fs_parent_path p =
     (case rfind_char (CHR ''/'') p of
        None \<Rightarrow> []
      | Some i \<Rightarrow> (let d = strip_right ''/'' (take i p) in if d = [] then ''/'' else d))"

definition fs_append :: "string \<Rightarrow> string \<Rightarrow> string" where
  "fs_append p q =
     (if q \<noteq> [] \<and> hd q = CHR ''/'' then q
      else if p = [] \<or> last p = CHR ''/'' then p @ q
      else p @ ''/'' @ q)"

text \<open>The components between separators.\<close>

fun components :: "string \<Rightarrow> string \<Rightarrow> string list" where
  "components cur [] = (if cur = [] then [] else [cur])"
| "components cur (c # cs) =
     (if c = CHR ''/'' then (if cur = [] then [] else [cur]) @ components [] cs
      else components (cur @ [c]) cs)"

definition normal_step :: "bool \<Rightarrow> string list \<Rightarrow> string \<Rightarrow> string list" where
  "normal_step absolute acc c =
     (if c = ''.'' then acc
      else if c = ''..'' then
        (if acc \<noteq> [] \<and> last acc \<noteq> ''..'' then butlast acc
         else if absolute then acc else acc @ [c])
      else acc @ [c])"

definition lexically_normal :: "string \<Rightarrow> string" where
  "lexically_normal p =
     (if p = [] then []
      else
        (let absolute = (hd p = CHR ''/''); cs = components [] p;
             acc = foldl (normal_step absolute) [] cs;
             directory = (last p = CHR ''/'' \<or> (cs \<noteq> [] \<and> last cs \<in> {''.'', ''..''}));
             r = (if absolute then ''/'' else []) @ join acc ''/'' @
                 (if directory \<and> acc \<noteq> [] \<and> last acc \<noteq> ''..'' then ''/'' else [])
         in if r = [] then ''.'' else r))"

subsection \<open>Lemmas\<close>

lemma is_so_prefix: "is_so s p \<longleftrightarrow> prefix ''.so'' (drop p (map c_tolower s))"
proof -
  have "map c_tolower (take 3 (drop p s)) = take 3 (drop p (map c_tolower s))" by (simp add: take_map drop_map)
  moreover have "take 3 xs = ''.so'' \<longleftrightarrow> prefix ''.so'' xs" for xs :: string
  proof
    assume "take 3 xs = ''.so''"
    then show "prefix ''.so'' xs" using take_is_prefix [of 3 xs] by simp
  next
    assume "prefix ''.so'' xs"
    then obtain zs where "xs = ''.so'' @ zs" by (auto simp only: prefix_def)
    then show "take 3 xs = ''.so''" by (simp add: numeral_eq_Suc)
  qed
  ultimately show ?thesis by (simp add: is_so_def)
qed

lemma pathGetName_split: "\<exists>dir. path = dir @ pathGetName path"
proof (cases "rfind_char (CHR ''/'') path")
  case (Some i)
  then have "path = take (Suc i) path @ pathGetName path" by (simp add: pathGetName_def)
  then show ?thesis by blast
qed (simp add: pathGetName_def)

text \<open>The scan finds the last \<open>.so\<close> of the name, in any case.\<close>

lemma find_so:
  "List.find (is_so (dir @ name)) (if length (dir @ name) < 3 then [] else rev [length dir..<Suc (length (dir @ name) - 3)]) =
     map_option (\<lambda>i. length dir + i) (rfind_sub ''.so'' (map c_tolower name))"
proof -
  let ?path = "dir @ name"
  let ?ps = "if length ?path < 3 then [] else rev [length dir..<Suc (length ?path - 3)]"
  let ?Q = "\<lambda>i. prefix ''.so'' (drop i (map c_tolower name))"
  have so: "is_so ?path (length dir + i) \<longleftrightarrow> ?Q i" for i by (simp add: is_so_prefix)
  have len: "i + 3 \<le> length name" if "?Q i" for i using prefix_length_le [OF that] by simp
  show ?thesis
  proof (cases "rfind_sub ''.so'' (map c_tolower name)")
    case None
    then have n: "\<not> ?Q i" if "i < length name" for i using that by (simp add: rfind_sub_find find_rev_upt_None)
    have "\<not> is_so ?path p" if "length dir \<le> p" "p < length ?path" for p
      using so [of "p - length dir"] n [of "p - length dir"] that by simp
    then have "List.find (is_so ?path) ?ps = None" by (auto simp: find_None_iff)
    with None show ?thesis by simp
  next
    case (Some i)
    then have i: "?Q i" "i < length name" and l: "\<And>j. i < j \<Longrightarrow> j < length name \<Longrightarrow> \<not> ?Q j"
      by (simp_all add: rfind_sub_find find_rev_upt)
    have "\<not> is_so ?path p" if "length dir + i < p" "p < length ?path" for p
      using so [of "p - length dir"] l [of "p - length dir"] that by simp
    moreover have "is_so ?path (length dir + i)" using so i(1) by simp
    ultimately have "List.find (is_so ?path) ?ps = Some (length dir + i)"
      using len [OF i(1)] by (auto simp: find_rev_upt simp del: upt_Suc)
    with Some show ?thesis by simp
  qed
qed

lemma getLibraryName_ref:
  "getLibraryName path =
     (case rfind_sub ''.so'' (map c_tolower (pathGetName path)) of
        None \<Rightarrow> pathGetName path | Some i \<Rightarrow> take i (pathGetName path))"
proof -
  obtain dir where d: "path = dir @ pathGetName path" using pathGetName_split by blast
  define nm where "nm = pathGetName path"
  have l: "length path - length nm = length dir" "path = dir @ nm" using d by (metis nm_def length_append add_diff_cancel_right', simp add: nm_def)
  show ?thesis
    unfolding getLibraryName_def Let_def nm_def [symmetric] l(1) unfolding l(2) find_so
    by (simp split: option.split)
qed

lemma rfind_sub_append: "rfind_sub p ys = Some i \<Longrightarrow> rfind_sub p (xs @ ys) = Some (length xs + i)"
  by (induction xs) auto

text \<open>No \<open>.so\<close> in any case.\<close>

definition no_so :: "string \<Rightarrow> bool" where
  "no_so s \<longleftrightarrow> rfind_sub ''.so'' (map c_tolower s) = None"

lemma lower_so: "map c_tolower ''.so'' = ''.so''"
  by code_simp

lemma rfind_so_lower: "rfind_sub ''.so'' (map c_tolower s) = None \<Longrightarrow> rfind_sub ''.so'' s = None"
proof (induction s)
  case (Cons x xs)
  have "\<not> prefix ''.so'' (x # xs)"
  proof
    assume "prefix ''.so'' (x # xs)"
    from map_mono_prefix [OF this, of c_tolower] have "prefix ''.so'' (map c_tolower (x # xs))" by (simp only: lower_so)
    with Cons.prems show False by (simp split: option.splits if_splits)
  qed
  with Cons show ?case by (simp split: option.splits if_splits)
qed simp

lemma rfind_so_here:
  "rfind_sub ''.so'' ver = None \<Longrightarrow> rfind_sub ''.so'' (b @ ''.so'' @ ver) = Some (length b)"
  using rfind_sub_append [of "''.so''" "''.so'' @ ver" 0 b] by simp

lemma pathGetName_last: "CHR ''/'' \<notin> set name \<Longrightarrow> pathGetName (dir @ ''/'' @ name) = name"
proof -
  assume "CHR ''/'' \<notin> set name"
  then have "rfind_char (CHR ''/'') (dir @ ''/'' @ name) = Some (length dir)" by (simp add: rfind_char_Some)
  then show ?thesis by (simp add: pathGetName_def)
qed

lemma library_name_of:
  assumes "CHR ''/'' \<notin> set b" "CHR ''/'' \<notin> set ver" "no_so ver"
  shows "getLibraryName (dir @ ''/'' @ b @ ''.so'' @ ver) = b"
proof -
  have "rfind_sub ''.so'' (map c_tolower (b @ ''.so'' @ ver)) = Some (length b)"
    using rfind_so_here [of "map c_tolower ver" "map c_tolower b"] assms(3) lower_so by (simp add: no_so_def)
  then show ?thesis
    using pathGetName_last [of "b @ ''.so'' @ ver" dir] assms by (simp add: getLibraryName_ref)
qed

lemma ends_with_HTL: "ends_with b ''_HTL'' \<longleftrightarrow> 4 \<le> length b \<and> drop (length b - 4) b = ''_HTL''"
  by (simp add: ends_with_def eval_nat_numeral)

lemma next_base_of:
  assumes "CHR ''/'' \<notin> set b" "CHR ''/'' \<notin> set ver" "no_so ver"
  shows "nextLibraryByName (Some (dir @ ''/'' @ b @ ''.so'' @ ver)) h =
    (if h then (if ends_with b ''_HTL'' then take (length b - 4) b else b) @ ''.so'' else b @ ''_HTL.so'')"
proof -
  have "rfind_sub ''.so'' (b @ ''.so'' @ ver) = Some (length b)"
    using rfind_so_here rfind_so_lower assms(3) by (simp add: no_so_def)
  then show ?thesis
    using pathGetName_last [of "b @ ''.so'' @ ver" dir] assms
    by (simp add: nextLibraryByName_def Let_def ends_with_HTL flip: pathGetName_def)
qed

lemma fs_parent_last:
  assumes "CHR ''/'' \<notin> set name" "d \<noteq> []" "last d \<noteq> CHR ''/''"
  shows "fs_parent_path (d @ ''/'' @ name) = d"
proof -
  have "rfind_char (CHR ''/'') (d @ ''/'' @ name) = Some (length d)" using assms(1) by (simp add: rfind_char_Some)
  moreover have "strip_right ''/'' d = d"
    using assms(2,3) strip_right_append_kept [of "last d" "''/''" "butlast d"] by simp
  ultimately show ?thesis using assms(2) by (simp add: fs_parent_path_def Let_def)
qed

subsection \<open>Properties\<close>

text \<open>
  C38. A thunk's base name is the same key on both sides: for a name without \<open>.so\<close> or separator that
  does not end in \<open>_HTL\<close>, the paths of its guest and host thunk, versioned or not, give that name,
  and the fallback names lead from the guest thunk to the host thunk and on to the library.
\<close>

theorem thunk_names_agree:
  assumes "CHR ''/'' \<notin> set b" and "\<not> ends_with b ''_HTL''" and "length b + 4 < PATH_MAX"
    and "CHR ''/'' \<notin> set ver" and "no_so ver"
  shows "(let gtl = dir @ ''/'' @ b @ ''.so'' @ ver; htl = dir @ ''/'' @ (b @ ''_HTL'') @ ''.so'' @ ver
     in thunkNameOf (Some gtl) = Some b \<and> thunkNameOf (Some htl) = Some b \<and>
        normalizeThunkName (Some gtl) = b \<and> normalizeThunkName (Some htl) = b \<and>
        nextLibraryByName (Some gtl) False = b @ ''_HTL.so'' \<and> nextLibraryByName (Some htl) True = b @ ''.so'')"
proof -
  have h: "CHR ''/'' \<notin> set (b @ ''_HTL'')" "ends_with (b @ ''_HTL'') ''_HTL''" using assms(1) by (simp_all add: ends_with_def)
  have g: "getLibraryName (dir @ ''/'' @ b @ ''.so'' @ ver) = b"
    "getLibraryName (dir @ ''/'' @ (b @ ''_HTL'') @ ''.so'' @ ver) = b @ ''_HTL''"
    using assms h(1) by (intro library_name_of; simp)+
  have n: "nextLibraryByName (Some (dir @ ''/'' @ b @ ''.so'' @ ver)) False = b @ ''_HTL.so''"
    "nextLibraryByName (Some (dir @ ''/'' @ (b @ ''_HTL'') @ ''.so'' @ ver)) True = b @ ''.so''"
    using next_base_of [OF assms(1,4,5), of dir False] next_base_of [OF h(1) assms(4,5), of dir True] h(2) by simp_all
  show ?thesis
    unfolding Let_def thunkNameOf_def normalizeThunkName_def option.case g n
    using assms(2,3) h(2) by (simp add: str_resize_def)
qed

theorem thunk_names_agree_witness:
  "thunkNameOf (Some ''/p/libz_HTL.so.1'') = Some ''libz'' \<and> nextLibraryByName (Some ''/p/libz_HTL.so.1'') True = ''libz.so''"
proof -
  have "\<not> ends_with ''libz'' ''_HTL''" "no_so ''.1''" by code_simp+
  from thunk_names_agree [OF _ this(1) _ _ this(2), of "''/p''"] show ?thesis by (simp add: PATH_MAX_def Let_def)
qed

end
