(* ===== verification/Host_Server.thy ===== *)
theory Host_Server
  imports Library_Names Thunk_Database Invocation Logging
begin

text \<open>
  The host runtime's service (\<open>src/modules/HostRT/HostServer.cpp\<close>, \<open>main.cpp\<close>): thunk discovery, the
  thunk requests, the common entry, the variables of the configuration and the runtime's log sink.
  The environment, the file system, the JSON parser and the dynamic linker are parameters.
\<close>

subsection \<open>State\<close>

text \<open>
  What the server asks the outside world: the text of a file (\<open>None\<close>: it cannot be opened),
  whether a path exists, and the JSON parser.
\<close>

record host_world =
  hw_read :: "string \<Rightarrow> string option"
  hw_exists :: "string \<Rightarrow> bool"
  hw_parse :: "string \<Rightarrow> json option"

record host_server =
  m_thunkDatabase :: "thunk_db option"
  m_thunkVars :: "string \<Rightarrow> string option"
  m_hostArch :: string
  m_thunkAutoDiscover :: bool
  m_loadedPackPrefixes :: "string list"
  hs_warnings :: "string list"

definition host_server_init :: host_server where
  "host_server_init =
     \<lparr>m_thunkDatabase = None, m_thunkVars = Map.empty, m_hostArch = [], m_thunkAutoDiscover = False,
      m_loadedPackPrefixes = [], hs_warnings = []\<rparr>"

definition setThunkDatabase :: "thunk_db \<Rightarrow> host_server \<Rightarrow> host_server" where
  "setThunkDatabase db sv = sv\<lparr>m_thunkDatabase := Some db\<rparr>"

definition loreWarning :: "string \<Rightarrow> host_server \<Rightarrow> host_server" where
  "loreWarning msg sv = sv\<lparr>hs_warnings := hs_warnings sv @ [msg]\<rparr>"

definition configureThunkDiscovery ::
    "host_world \<Rightarrow> (string \<Rightarrow> string option) \<Rightarrow> string \<Rightarrow> string \<Rightarrow> bool \<Rightarrow> host_server \<Rightarrow> host_server" where
  "configureThunkDiscovery w vars overridePath hostArch autoDiscover sv =
     (let sv = sv\<lparr>m_thunkVars := vars, m_hostArch := hostArch, m_thunkAutoDiscover := autoDiscover\<rparr>;
          (failed, db) =
            (if overridePath = [] then (False, db_empty)
             else (let (ok, db) = db_load (hw_parse w) (hw_read w overridePath) vars db_empty in (\<not> ok, db)));
          sv = (if failed then loreWarning ''failed to load the thunk override database'' sv else sv)
      in sv\<lparr>m_thunkDatabase := Some db\<rparr>)"

subsection \<open>Resolving a thunk\<close>

text \<open>The prefix of a pack whose guest thunk directory is given.\<close>

definition pack_prefix :: "string \<Rightarrow> string" where
  "pack_prefix gtlDir = fs_parent_path (fs_parent_path (fs_parent_path gtlDir))"

definition pack_json :: "string \<Rightarrow> string" where
  "pack_json prefix_dir = fs_append (fs_append (fs_append prefix_dir ''share'') ''lorelei'') ''ThunkDB.json''"

definition pack_host_dir :: "string \<Rightarrow> string \<Rightarrow> string" where
  "pack_host_dir prefix_dir hostArch = fs_append (fs_append prefix_dir ''lib'') (hostArch @ ''-LoreHTL'')"

text \<open>The database the server's pointer leads to.\<close>

definition server_db :: "host_server \<Rightarrow> thunk_db" where
  "server_db sv = (case m_thunkDatabase sv of None \<Rightarrow> db_empty | Some db \<Rightarrow> db)"

text \<open>Loading a pack's optional JSON.\<close>

definition load_pack_json :: "host_world \<Rightarrow> string \<Rightarrow> string \<Rightarrow> host_server \<Rightarrow> host_server" where
  "load_pack_json w gtlDir pre sv =
     (let packJson = pack_json pre; hostThunkDir = pack_host_dir pre (m_hostArch sv) in
      if \<not> hw_exists w packJson then sv
      else
        (let (ok, db) = loadPack (hw_parse w) (hw_read w packJson) gtlDir hostThunkDir (m_thunkVars sv) (server_db sv);
             sv = sv\<lparr>m_thunkDatabase := Some db\<rparr>
         in if ok then sv else loreWarning ''failed to load a thunk pack database'' sv))"

text \<open>The database has been asserted to be there; \<open>guestThunkPath\<close> is \<open>None\<close> for a null pointer.\<close>

definition resolveForwardThunk ::
    "host_world \<Rightarrow> string option \<Rightarrow> string \<Rightarrow> host_server \<Rightarrow> CForwardThunkInfo option \<times> host_server" where
  "resolveForwardThunk w guestThunkPath name sv =
     (case forwardThunk (server_db sv) name of
        Some entry \<Rightarrow> (Some entry, sv)
      | None \<Rightarrow>
          (case guestThunkPath of
             None \<Rightarrow> (None, sv)
           | Some path \<Rightarrow>
               if \<not> m_thunkAutoDiscover sv \<or> path = [] then (None, sv)
               else
                 (let gtlDir = fs_parent_path path in
                  if fs_filename gtlDir \<noteq> ''x86_64-LoreGTL'' then (None, sv)
                  else
                    (let pre = pack_prefix gtlDir; key = lexically_normal pre in
                     if pre = [] \<or> key \<in> set (m_loadedPackPrefixes sv) then (None, sv)
                     else
                       (let sv = load_pack_json w gtlDir pre
                              (sv\<lparr>m_loadedPackPrefixes := m_loadedPackPrefixes sv @ [key]\<rparr>)
                        in (forwardThunk (server_db sv) name, sv))))))"

datatype thunk_info = No_info | Forward_info CForwardThunkInfo | Reversed_info CReversedThunkInfo

text \<open>
  One request, atomic under its lock; \<open>None\<close> is the failed assertion on the database or the
  overflow of the name buffer.
\<close>

definition getThunkInfo ::
    "host_world \<Rightarrow> string option \<Rightarrow> bool \<Rightarrow> host_server \<Rightarrow> (thunk_info \<times> host_server) option" where
  "getThunkInfo w path isReverse sv =
     (case m_thunkDatabase sv of
        None \<Rightarrow> None
      | Some db \<Rightarrow>
     (case thunkNameOf path of
        None \<Rightarrow> None
      | Some name \<Rightarrow>
          if isReverse then
            Some (case reversedThunk db name of None \<Rightarrow> No_info | Some r \<Rightarrow> Reversed_info r, sv)
          else
            (let (f, sv) = resolveForwardThunk w path name sv
             in Some (case f of None \<Rightarrow> No_info | Some e \<Rightarrow> Forward_info e, sv))))"

subsection \<open>Configuration variables and the log sink\<close>

definition split_item :: "string \<Rightarrow> (string \<times> string) option" where
  "split_item item =
     (case find_char (CHR ''='') item of None \<Rightarrow> None | Some eq \<Rightarrow> Some (take eq item, drop (eq + 1) item))"

definition buildConfigVars :: "(string \<Rightarrow> string option) \<Rightarrow> string \<Rightarrow> string \<Rightarrow> string option" where
  "buildConfigVars getenv kHostArch =
     (let vars = [''HOME'' \<mapsto> (case getenv ''HOME'' of None \<Rightarrow> [] | Some h \<Rightarrow> h), ''ARCH'' \<mapsto> kHostArch]
      in case getenv ''LORELEI_THUNKS_CONFIG_VARIABLES'' of
           None \<Rightarrow> vars
         | Some extraVars \<Rightarrow>
             if extraVars = [] then vars
             else (case split extraVars '';'' of
                     None \<Rightarrow> vars
                   | Some items \<Rightarrow>
                       foldl (\<lambda>vars item. case split_item item of None \<Rightarrow> vars | Some (k, v) \<Rightarrow> vars(k \<mapsto> v)) vars items))"

text \<open>\<open>std::atoi\<close> up to the range of \<open>int\<close>: 0 for text that is no number.\<close>

definition runtime_level :: "(string \<Rightarrow> int) \<Rightarrow> string option \<Rightarrow> int" where
  "runtime_level atoi levelStr =
     (case levelStr of None \<Rightarrow> 4 | Some s \<Rightarrow> (let level = atoi s in if level = 0 then 4 else level))"

definition log_line :: "string option \<Rightarrow> string \<Rightarrow> string" where
  "log_line category s =
     (case category of
        None \<Rightarrow> s
      | Some c \<Rightarrow> if c \<noteq> [] \<and> c \<noteq> ''default'' then c @ '': '' @ s else s)"

text \<open>Where a record goes: nowhere, to the log file with a newline, or on to the default sink.\<close>

datatype log_action = Log_drop | Log_file string | Log_default int string

definition host_logCallback :: "int \<Rightarrow> bool \<Rightarrow> int \<Rightarrow> string option \<Rightarrow> string \<Rightarrow> log_action" where
  "host_logCallback min_level has_file level category s =
     (if level < min_level then Log_drop
      else (let line = log_line category s
            in if has_file then Log_file (line @ [CHR 0x0A]) else Log_default level line))"

text \<open>The runtime's constructor: the emulator anchor must exist; the override file and discovery.\<close>

definition host_runtime_start ::
    "host_world \<Rightarrow> (string \<Rightarrow> string option) \<Rightarrow> string \<Rightarrow> nat \<Rightarrow> (nat \<times> host_server) option" where
  "host_runtime_start w getenv kHostArch emu_symbol =
     (if emu_symbol = 0 then None
      else
        (let overridePath = (case getenv ''LORELEI_THUNK_DATABASE'' of None \<Rightarrow> [] | Some p \<Rightarrow> p);
             autoDiscover = (getenv ''LORELEI_THUNK_NO_AUTODISCOVER'' = None)
         in Some (emu_symbol,
              configureThunkDiscovery w (buildConfigVars getenv kHostArch) overridePath kHostArch autoDiscover host_server_init)))"

subsection \<open>The common entry\<close>

text \<open>Module paths: the link map's name of a handle (\<open>dlinfo\<close>), the file of an address (\<open>dladdr\<close>).\<close>

definition getModulePath :: "(nat \<Rightarrow> string option) \<Rightarrow> (nat \<Rightarrow> string option) \<Rightarrow> nat \<Rightarrow> bool \<Rightarrow> string option" where
  "getModulePath dlinfo dladdr opaque isHandle =
     (if isHandle
      then (case dlinfo opaque of None \<Rightarrow> None | Some l_name \<Rightarrow> if l_name = [] then None else Some l_name)
      else dladdr opaque)"

definition isHostAddressNaive :: "(nat \<Rightarrow> string option) \<Rightarrow> nat \<Rightarrow> bool" where
  "isHostAddressNaive dladdr addr \<longleftrightarrow> dladdr addr \<noteq> None"

datatype DLCallSecondaryID =
    DS_InvokeFunction | DS_ResumeFunction | DS_LogMessage | DS_GetModulePath | DS_GetThunkInfo

definition secondary_id :: "nat \<Rightarrow> DLCallSecondaryID option" where
  "secondary_id n =
     (if n = 0 then Some DS_InvokeFunction
      else if n = 1 then Some DS_ResumeFunction
      else if n = 2 then Some DS_LogMessage
      else if n = 3 then Some DS_GetModulePath
      else if n = 4 then Some DS_GetThunkInfo
      else None)"

text \<open>The blocks the guest packs; out-pointers are what the reply fills.\<close>

datatype payload =
    P_invoke InvocationArguments nat
  | P_resume
  | P_log int "string option" string
  | P_module_path nat bool
  | P_thunk_info "string option" bool

datatype reply = Reply_none | Reply_status int | Reply_path "string option" | Reply_thunk thunk_info

record 's host_state =
  h_server :: host_server
  h_machine :: "'s machine"
  h_shared :: 's
  h_flushes :: nat
  h_log :: "(int \<times> string option \<times> string) list"

text \<open>A finished invocation flushes the host's streams.\<close>

definition report_status :: "(int \<times> 's machine \<times> 's) option \<Rightarrow> 's host_state \<Rightarrow> (reply \<times> 's host_state) option" where
  "report_status r st =
     (case r of
        None \<Rightarrow> None
      | Some (ret, m, s) \<Rightarrow>
          Some (Reply_status ret,
            st\<lparr>h_machine := m, h_shared := s, h_flushes := (if ret = 0 then Suc (h_flushes st) else h_flushes st)\<rparr>))"

definition LoreCommonHostEntry ::
    "host_world \<Rightarrow> 's program \<Rightarrow> (nat \<Rightarrow> string option) \<Rightarrow> (nat \<Rightarrow> string option) \<Rightarrow> nat \<Rightarrow> payload \<Rightarrow>
     's host_state \<Rightarrow> (reply \<times> 's host_state) option" where
  "LoreCommonHostEntry w P dlinfo dladdr secondaryId p st =
     (case secondary_id secondaryId of
        None \<Rightarrow> Some (Reply_none, st)
      | Some DS_InvokeFunction \<Rightarrow>
          (case p of P_invoke ia ra \<Rightarrow> report_status (host_invoke P ia ra (h_machine st) (h_shared st)) st | _ \<Rightarrow> None)
      | Some DS_ResumeFunction \<Rightarrow>
          (case p of P_resume \<Rightarrow> report_status (host_resume (h_machine st) (h_shared st)) st | _ \<Rightarrow> None)
      | Some DS_LogMessage \<Rightarrow>
          (case p of P_log level category msg \<Rightarrow> Some (Reply_none, st\<lparr>h_log := h_log st @ [(level, category, msg)]\<rparr>) | _ \<Rightarrow> None)
      | Some DS_GetModulePath \<Rightarrow>
          (case p of P_module_path opaque isHandle \<Rightarrow> Some (Reply_path (getModulePath dlinfo dladdr opaque isHandle), st) | _ \<Rightarrow> None)
      | Some DS_GetThunkInfo \<Rightarrow>
          (case p of
             P_thunk_info path isReverse \<Rightarrow>
               map_option (\<lambda>(r, sv). (Reply_thunk r, st\<lparr>h_server := sv\<rparr>)) (getThunkInfo w path isReverse (h_server st))
           | _ \<Rightarrow> None))"

subsection \<open>Lemmas\<close>

definition server_ok :: "host_server \<Rightarrow> bool" where
  "server_ok sv \<longleftrightarrow>
     (case m_thunkDatabase sv of None \<Rightarrow> False | Some db \<Rightarrow> db_ok db \<and> indexed db) \<and>
     distinct (m_loadedPackPrefixes sv)"

text \<open>Everything a server resolves another resolves the same way.\<close>

definition resolves_more :: "host_server \<Rightarrow> host_server \<Rightarrow> bool" where
  "resolves_more sv sv' \<longleftrightarrow>
     (\<forall>k e. forwardThunk (server_db sv) k = Some e \<longrightarrow>
        forwardThunk (server_db sv') k = Some e \<and> forward_of (server_db sv') e = forward_of (server_db sv) e) \<and>
     (\<forall>k r. reversedThunk (server_db sv) k = Some r \<longrightarrow>
        reversedThunk (server_db sv') k = Some r \<and> reversed_of (server_db sv') r = reversed_of (server_db sv) r)"

lemma resolves_more_refl [simp]: "resolves_more sv sv"
  by (simp add: resolves_more_def)

lemma resolves_more_trans: "resolves_more a b \<Longrightarrow> resolves_more b c \<Longrightarrow> resolves_more a c"
  unfolding resolves_more_def by metis

lemma db_empty_indexed: "indexed db_empty"
  by (simp add: indexed_def db_empty_def rebuildIndexes_def indexEntries_def)

lemma loadPack_resolves:
  assumes "db_ok db" "indexed db" "loadPack parse contents g h vars db = (r, db')"
  shows "db_ok db' \<and> indexed db' \<and>
    (\<forall>k e. forwardThunk db k = Some e \<longrightarrow> forwardThunk db' k = Some e \<and> forward_of db' e = forward_of db e) \<and>
    (\<forall>k e. reversedThunk db k = Some e \<longrightarrow> reversedThunk db' k = Some e \<and> reversed_of db' e = reversed_of db e)"
  using loadPack_step [OF assms(1,3)] layered_lookup [of db db'] assms(1,2) by (simp add: db_ok_def)

lemma load_pack_json_step:
  assumes "db_ok (server_db sv)" "indexed (server_db sv)"
  shows "db_ok (server_db (load_pack_json w g pre sv)) \<and> indexed (server_db (load_pack_json w g pre sv)) \<and>
    resolves_more sv (load_pack_json w g pre sv) \<and>
    m_loadedPackPrefixes (load_pack_json w g pre sv) = m_loadedPackPrefixes sv \<and>
    (m_thunkDatabase sv \<noteq> None \<longrightarrow> m_thunkDatabase (load_pack_json w g pre sv) \<noteq> None)"
proof (cases "hw_exists w (pack_json pre)")
  case True
  obtain ok db where l: "loadPack (hw_parse w) (hw_read w (pack_json pre)) g (pack_host_dir pre (m_hostArch sv))
      (m_thunkVars sv) (server_db sv) = (ok, db)" by fastforce
  have d: "server_db (load_pack_json w g pre sv) = db" "m_thunkDatabase (load_pack_json w g pre sv) = Some db"
    "m_loadedPackPrefixes (load_pack_json w g pre sv) = m_loadedPackPrefixes sv"
    using True l by (auto simp: load_pack_json_def server_db_def loreWarning_def Let_def)
  show ?thesis
    using loadPack_resolves [OF assms l] unfolding resolves_more_def d by simp
qed (use assms in \<open>simp add: load_pack_json_def\<close>)

lemma resolveForwardThunk_step:
  assumes "server_ok sv" "resolveForwardThunk w path name sv = (f, sv')"
  shows "server_ok sv' \<and> resolves_more sv sv' \<and> f = forwardThunk (server_db sv') name"
proof -
  have ok: "db_ok (server_db sv)" "indexed (server_db sv)" "m_thunkDatabase sv \<noteq> None"
    using assms(1) by (auto simp: server_ok_def server_db_def split: option.splits)
  show ?thesis
  proof (cases "sv' = sv")
    case True
    then show ?thesis
      using assms by (auto simp: resolveForwardThunk_def Let_def split: option.splits if_splits)
  next
    case False
    then obtain g pre key where n: "key \<notin> set (m_loadedPackPrefixes sv)"
      "sv' = load_pack_json w g pre (sv\<lparr>m_loadedPackPrefixes := m_loadedPackPrefixes sv @ [key]\<rparr>)"
      "f = forwardThunk (server_db sv') name"
      using assms(2) by (auto simp: resolveForwardThunk_def Let_def split: option.splits if_splits)
    let ?s = "sv\<lparr>m_loadedPackPrefixes := m_loadedPackPrefixes sv @ [key]\<rparr>"
    have s: "server_db ?s = server_db sv" "m_thunkDatabase ?s = m_thunkDatabase sv" by (simp_all add: server_db_def)
    note st = load_pack_json_step [of ?s w g pre, folded n(2), unfolded s, OF ok(1,2)]
    have "resolves_more sv sv'" using st unfolding resolves_more_def s by blast
    moreover have "server_ok sv'"
      using st n(1) ok(3) assms(1) by (auto simp: server_ok_def server_db_def split: option.splits)
    ultimately show ?thesis using n(3) by simp
  qed
qed

lemma getThunkInfo_step:
  assumes "server_ok sv" "getThunkInfo w path rv sv = Some (r, sv')"
  shows "server_ok sv' \<and> resolves_more sv sv'"
proof (cases rv)
  case True
  then show ?thesis using assms by (auto simp: getThunkInfo_def split: option.splits)
next
  case False
  then obtain name f where "resolveForwardThunk w path name sv = (f, sv')"
    using assms(2) by (auto simp: getThunkInfo_def split: option.splits prod.splits)
  from resolveForwardThunk_step [OF assms(1) this] show ?thesis by simp
qed

text \<open>Requests served one after the other.\<close>

definition serve_requests :: "host_world \<Rightarrow> (string option \<times> bool) list \<Rightarrow> host_server \<Rightarrow> host_server option" where
  "serve_requests w = for_each (\<lambda>(path, rv) sv. map_option snd (getThunkInfo w path rv sv))"

lemma serve_requests_step:
  "server_ok sv \<Longrightarrow> serve_requests w reqs sv = Some sv' \<Longrightarrow> server_ok sv' \<and> resolves_more sv sv'"
proof (induction reqs arbitrary: sv)
  case (Cons q reqs)
  obtain path rv where q: "q = (path, rv)" by fastforce
  with Cons.prems(2) obtain r sv1 where s: "getThunkInfo w path rv sv = Some (r, sv1)" "serve_requests w reqs sv1 = Some sv'"
    by (auto simp: serve_requests_def split: option.splits)
  have "server_ok sv1 \<and> resolves_more sv sv1" by (rule getThunkInfo_step [OF Cons.prems(1) s(1)])
  moreover from this have "server_ok sv' \<and> resolves_more sv1 sv'" using Cons.IH s(2) by blast
  ultimately show ?case using resolves_more_trans by blast
qed (simp add: serve_requests_def)

text \<open>A prefix that has been tried stays recorded, and a request under it changes nothing.\<close>

lemma load_pack_json_prefixes [simp]:
  "m_loadedPackPrefixes (load_pack_json w g pre sv) = m_loadedPackPrefixes sv"
  by (simp add: load_pack_json_def loreWarning_def Let_def split: prod.split)

lemma getThunkInfo_prefixes:
  "getThunkInfo w path rv sv = Some (r, sv') \<Longrightarrow> set (m_loadedPackPrefixes sv) \<subseteq> set (m_loadedPackPrefixes sv')"
  by (auto simp: getThunkInfo_def resolveForwardThunk_def Let_def split: option.splits if_splits)

lemma serve_requests_prefixes:
  "serve_requests w reqs sv = Some sv' \<Longrightarrow> set (m_loadedPackPrefixes sv) \<subseteq> set (m_loadedPackPrefixes sv')"
proof (induction reqs arbitrary: sv)
  case (Cons q reqs)
  obtain path rv where q: "q = (path, rv)" by fastforce
  with Cons.prems obtain r sv1 where s: "getThunkInfo w path rv sv = Some (r, sv1)" "serve_requests w reqs sv1 = Some sv'"
    by (auto simp: serve_requests_def split: option.splits)
  from getThunkInfo_prefixes [OF s(1)] Cons.IH [OF s(2)] show ?case by blast
qed (simp add: serve_requests_def)

lemma known_prefix_unchanged:
  assumes "lexically_normal (pack_prefix (fs_parent_path path)) \<in> set (m_loadedPackPrefixes sv)"
    and "getThunkInfo w (Some path) rv sv = Some (r, sv')"
  shows "sv' = sv"
  using assms by (auto simp: getThunkInfo_def resolveForwardThunk_def Let_def split: option.splits if_splits)

text \<open>The standard layout of a guest thunk below a prefix.\<close>

lemma gtl_layout:
  assumes "pre \<noteq> []" "last pre \<noteq> CHR ''/''" "CHR ''/'' \<notin> set b"
  shows "fs_parent_path (pre @ ''/x86_64/lib/x86_64-LoreGTL/'' @ b) = pre @ ''/x86_64/lib/x86_64-LoreGTL''"
    and "fs_filename (pre @ ''/x86_64/lib/x86_64-LoreGTL'') = ''x86_64-LoreGTL''"
    and "pack_prefix (pre @ ''/x86_64/lib/x86_64-LoreGTL'') = pre"
proof -
  let ?g = "pre @ ''/x86_64/lib/x86_64-LoreGTL''"
  show "fs_parent_path (pre @ ''/x86_64/lib/x86_64-LoreGTL/'' @ b) = ?g"
    using fs_parent_last [OF assms(3), of ?g] assms(1) by simp
  show "fs_filename ?g = ''x86_64-LoreGTL''"
    using pathGetName_last [of "''x86_64-LoreGTL''" "pre @ ''/x86_64/lib''"] by (simp add: fs_filename_def)
  show "pack_prefix ?g = pre"
    using fs_parent_last [of "''x86_64-LoreGTL''" "pre @ ''/x86_64/lib''"] fs_parent_last [of "''lib''" "pre @ ''/x86_64''"]
      fs_parent_last [of "''x86_64''" pre] assms(1,2) by (simp add: pack_prefix_def)
qed

lemma configure_ok:
  "distinct (m_loadedPackPrefixes sv) \<Longrightarrow> server_ok (configureThunkDiscovery w vars p a d sv)"
  using db_load_ok db_empty_ok db_empty_indexed
  by (auto simp: configureThunkDiscovery_def server_ok_def loreWarning_def Let_def split: prod.split)

subsection \<open>Properties\<close>

text \<open>
  Once a forward request has been answered with an entry, every later request for the same path
  gets the same entry, whose pointers still denote the same strings, whatever was requested and
  discovered in between; and no pack is loaded twice.
\<close>

theorem answers_are_stable:
  assumes "server_ok sv" and "getThunkInfo w path False sv = Some (Forward_info e, sv1)"
    and "serve_requests w reqs sv1 = Some sv2"
  shows "getThunkInfo w path False sv2 = Some (Forward_info e, sv2) \<and>
    forward_of (server_db sv2) e = forward_of (server_db sv1) e \<and> distinct (m_loadedPackPrefixes sv2)"
proof -
  obtain name where n: "thunkNameOf path = Some name" "resolveForwardThunk w path name sv = (Some e, sv1)"
    using assms(2) by (auto simp: getThunkInfo_def split: option.splits prod.splits)
  note r = resolveForwardThunk_step [OF assms(1) n(2)]
  note s = serve_requests_step [OF _ assms(3)]
  have e: "forwardThunk (server_db sv2) name = Some e" "forward_of (server_db sv2) e = forward_of (server_db sv1) e"
  proof -
    have "forwardThunk (server_db sv1) name = Some e" "resolves_more sv1 sv2" using r s by auto
    then show "forwardThunk (server_db sv2) name = Some e" "forward_of (server_db sv2) e = forward_of (server_db sv1) e"
      by (simp_all add: resolves_more_def)
  qed
  have ok: "server_ok sv2" using r s by blast
  then have "m_thunkDatabase sv2 = Some (server_db sv2)" by (auto simp: server_ok_def server_db_def split: option.splits)
  then show ?thesis using n(1) e ok by (simp add: getThunkInfo_def resolveForwardThunk_def server_ok_def)
qed

text \<open>
  C29. Discovery: a guest thunk in the standard layout that the database does not name, under a prefix
  not seen before, makes the server load that prefix's \<open>share/lorelei/ThunkDB.json\<close> as a pack with the
  prefix's two thunk directories, and answer from the database with that pack.  What was answered
  before stays the same, the prefix is recorded, and it is loaded once: whatever is requested
  afterwards, a request for a thunk under the same prefix leaves the server as it is.
\<close>

theorem discovery_loads_pack:
  assumes "server_ok sv" and "m_thunkAutoDiscover sv"
    and "pre \<noteq> []" and "last pre \<noteq> CHR ''/''" and "CHR ''/'' \<notin> set b"
    and "thunkNameOf (Some (pre @ ''/x86_64/lib/x86_64-LoreGTL/'' @ b)) = Some name"
    and "forwardThunk (server_db sv) name = None" and "lexically_normal pre \<notin> set (m_loadedPackPrefixes sv)"
    and "hw_exists w (pre @ ''/share/lorelei/ThunkDB.json'')" and "m_hostArch sv \<in> {''x86_64'', ''aarch64'', ''riscv64''}"
  shows "\<exists>sv'. getThunkInfo w (Some (pre @ ''/x86_64/lib/x86_64-LoreGTL/'' @ b)) False sv =
      Some (case forwardThunk (server_db sv') name of None \<Rightarrow> No_info | Some e \<Rightarrow> Forward_info e, sv') \<and>
    server_db sv' = snd (loadPack (hw_parse w) (hw_read w (pre @ ''/share/lorelei/ThunkDB.json''))
        (pre @ ''/x86_64/lib/x86_64-LoreGTL'') (pre @ ''/lib/'' @ m_hostArch sv @ ''-LoreHTL'') (m_thunkVars sv) (server_db sv)) \<and>
    server_ok sv' \<and> resolves_more sv sv' \<and>
    m_loadedPackPrefixes sv' = m_loadedPackPrefixes sv @ [lexically_normal pre] \<and>
    (\<forall>reqs sv2 b2 rv r sv3. serve_requests w reqs sv' = Some sv2 \<and> CHR ''/'' \<notin> set b2 \<and>
       getThunkInfo w (Some (pre @ ''/x86_64/lib/x86_64-LoreGTL/'' @ b2)) rv sv2 = Some (r, sv3) \<longrightarrow> sv3 = sv2)"
proof -
  let ?g = "pre @ ''/x86_64/lib/x86_64-LoreGTL''" and ?path = "pre @ ''/x86_64/lib/x86_64-LoreGTL/'' @ b"
  note lay = gtl_layout [OF assms(3,4)]
  have j: "pack_json pre = pre @ ''/share/lorelei/ThunkDB.json''"
    "pack_host_dir pre (m_hostArch sv) = pre @ ''/lib/'' @ m_hostArch sv @ ''-LoreHTL''"
    using assms(3,4,10) by (auto simp: pack_json_def pack_host_dir_def fs_append_def)
  let ?s = "sv\<lparr>m_loadedPackPrefixes := m_loadedPackPrefixes sv @ [lexically_normal pre]\<rparr>"
  let ?l = "load_pack_json w ?g pre ?s"
  have d: "m_thunkDatabase sv \<noteq> None" using assms(1) by (auto simp: server_ok_def split: option.splits)
  have "resolveForwardThunk w (Some ?path) name sv = (forwardThunk (server_db ?l) name, ?l)"
    unfolding resolveForwardThunk_def option.case assms(7) lay(1) [OF assms(5)] Let_def lay(2,3) [OF assms(5)]
    using assms(2,3,8) by simp
  then have req: "getThunkInfo w (Some ?path) False sv =
      Some (case forwardThunk (server_db ?l) name of None \<Rightarrow> No_info | Some e \<Rightarrow> Forward_info e, ?l)"
    using d assms(6) by (auto simp: getThunkInfo_def)
  moreover have "server_db ?l = snd (loadPack (hw_parse w) (hw_read w (pre @ ''/share/lorelei/ThunkDB.json''))
        ?g (pre @ ''/lib/'' @ m_hostArch sv @ ''-LoreHTL'') (m_thunkVars sv) (server_db sv))"
    using assms(9) by (auto simp: load_pack_json_def j server_db_def loreWarning_def Let_def split: prod.split)
  moreover note getThunkInfo_step [OF assms(1) req]
  moreover have "sv3 = sv2" if "serve_requests w reqs ?l = Some sv2" "CHR ''/'' \<notin> set b2"
    "getThunkInfo w (Some (pre @ ''/x86_64/lib/x86_64-LoreGTL/'' @ b2)) rv sv2 = Some (r, sv3)" for reqs sv2 b2 rv r sv3
    using known_prefix_unchanged [OF _ that(3)] serve_requests_prefixes [OF that(1)] lay(1) [OF that(2)] lay(3) [OF that(2)]
    by auto
  ultimately show ?thesis by (intro exI [of _ ?l]) auto
qed

text \<open>An override that names \<open>z\<close> and a pack that also has \<open>y\<close>.\<close>

definition demo_world :: host_world where
  "demo_world =
     \<lparr>hw_read = (\<lambda>p. if p = ''/o.json'' then Some ''base'' else if p = ''/p/share/lorelei/ThunkDB.json'' then Some ''pack'' else None),
      hw_exists = (\<lambda>p. p = ''/p/share/lorelei/ThunkDB.json''), hw_parse = demo_parse\<rparr>"

definition demo_server :: host_server where
  "demo_server = configureThunkDiscovery demo_world demo_vars ''/o.json'' ''x86_64'' True host_server_init"

lemma demo_server_ok: "server_ok demo_server"
  by (simp add: demo_server_def configure_ok host_server_init_def)

lemma forward_case:
  "(case x of Some (Forward_info e, sv) \<Rightarrow> Q sv | _ \<Rightarrow> False) \<Longrightarrow> \<exists>e sv. x = Some (Forward_info e, sv) \<and> Q sv"
proof (cases x)
  case (Some y)
  moreover obtain r sv where "y = (r, sv)" by fastforce
  ultimately show "(case x of Some (Forward_info e, sv) \<Rightarrow> Q sv | _ \<Rightarrow> False) \<Longrightarrow> ?thesis" by (cases r) simp_all
qed simp

theorem answers_are_stable_witness:
  "\<exists>e sv1 sv2. getThunkInfo demo_world (Some ''/g/z.so'') False demo_server = Some (Forward_info e, sv1) \<and>
     serve_requests demo_world [(Some ''/p/x86_64/lib/x86_64-LoreGTL/y.so'', False), (Some ''r'', True)] sv1 = Some sv2 \<and>
     getThunkInfo demo_world (Some ''/g/z.so'') False sv2 = Some (Forward_info e, sv2)"
proof -
  have "case getThunkInfo demo_world (Some ''/g/z.so'') False demo_server of
      Some (Forward_info e, sv) \<Rightarrow>
        serve_requests demo_world [(Some ''/p/x86_64/lib/x86_64-LoreGTL/y.so'', False), (Some ''r'', True)] sv \<noteq> None
    | _ \<Rightarrow> False"
    by code_simp
  then obtain e sv1 sv2 where s: "getThunkInfo demo_world (Some ''/g/z.so'') False demo_server = Some (Forward_info e, sv1)"
    "serve_requests demo_world [(Some ''/p/x86_64/lib/x86_64-LoreGTL/y.so'', False), (Some ''r'', True)] sv1 = Some sv2"
    by (auto dest!: forward_case)
  from answers_are_stable [OF demo_server_ok s] s show ?thesis by blast
qed

theorem discovery_loads_pack_witness:
  "\<exists>e sv'. getThunkInfo demo_world (Some ''/p/x86_64/lib/x86_64-LoreGTL/y.so'') False demo_server = Some (Forward_info e, sv') \<and>
     m_loadedPackPrefixes sv' = [''/p''] \<and>
     getThunkInfo demo_world (Some ''/p/x86_64/lib/x86_64-LoreGTL/y.so'') False sv' = Some (Forward_info e, sv') \<and>
     (\<exists>r. getThunkInfo demo_world (Some ''/p/x86_64/lib/x86_64-LoreGTL/q.so'') False sv' = Some (r, sv'))"
proof -
  let ?p = "''/p/x86_64/lib/x86_64-LoreGTL/y.so''"
  have "(forwardThunk (server_db demo_server) ''y'' = None) = True" by code_simp
  then have miss: "forwardThunk (server_db demo_server) ''y'' = None" by simp
  have name: "thunkNameOf (Some ?p) = Some ''y''" by code_simp
  have fields: "m_loadedPackPrefixes demo_server = []" "m_hostArch demo_server = ''x86_64''" "m_thunkAutoDiscover demo_server"
    by (simp_all add: demo_server_def configureThunkDiscovery_def loreWarning_def host_server_init_def Let_def split: prod.split)
  have app: "''/p'' @ ''/x86_64/lib/x86_64-LoreGTL/'' @ ''y.so'' = ?p" by simp
  have hyps: "''/p'' \<noteq> []" "last ''/p'' \<noteq> CHR ''/''" "CHR ''/'' \<notin> set ''y.so''"
    "lexically_normal ''/p'' \<notin> set (m_loadedPackPrefixes demo_server)"
    "hw_exists demo_world (''/p'' @ ''/share/lorelei/ThunkDB.json'')"
    "m_hostArch demo_server \<in> {''x86_64'', ''aarch64'', ''riscv64''}"
    by (simp_all add: fields demo_world_def)
  note D = discovery_loads_pack [OF demo_server_ok fields(3) hyps(1-3) _ miss hyps(4-6), unfolded app, OF name]
  obtain sv' where sv': "getThunkInfo demo_world (Some ?p) False demo_server =
      Some (case forwardThunk (server_db sv') ''y'' of None \<Rightarrow> No_info | Some e \<Rightarrow> Forward_info e, sv')"
    "m_loadedPackPrefixes sv' = m_loadedPackPrefixes demo_server @ [lexically_normal ''/p'']" "server_ok sv'"
    and again: "\<forall>reqs sv2 b2 rv r sv3. serve_requests demo_world reqs sv' = Some sv2 \<and> CHR ''/'' \<notin> set b2 \<and>
       getThunkInfo demo_world (Some (''/p'' @ ''/x86_64/lib/x86_64-LoreGTL/'' @ b2)) rv sv2 = Some (r, sv3) \<longrightarrow> sv3 = sv2"
    using D by blast
  have "case getThunkInfo demo_world (Some ?p) False demo_server of Some (Forward_info e, sv) \<Rightarrow> True | _ \<Rightarrow> False"
    by code_simp
  with sv'(1) obtain e where e: "forwardThunk (server_db sv') ''y'' = Some e" by (auto split: option.splits)
  obtain db where "m_thunkDatabase sv' = Some db" using sv'(3) by (auto simp: server_ok_def split: option.splits)
  then have second: "getThunkInfo demo_world (Some ?p) False sv' = Some (Forward_info e, sv')"
    using name e by (simp add: getThunkInfo_def resolveForwardThunk_def)
  let ?q = "''/p/x86_64/lib/x86_64-LoreGTL/q.so''"
  have "thunkNameOf (Some ?q) = Some ''q''" by code_simp
  then obtain r sv3 where third: "getThunkInfo demo_world (Some ?q) False sv' = Some (r, sv3)"
    using \<open>m_thunkDatabase sv' = Some db\<close> by (cases "resolveForwardThunk demo_world (Some ?q) ''q'' sv'") (auto simp: getThunkInfo_def)
  have "''/p'' @ ''/x86_64/lib/x86_64-LoreGTL/'' @ ''q.so'' = ?q" "serve_requests demo_world [] sv' = Some sv'"
    "CHR ''/'' \<notin> set ''q.so''"
    by (simp_all add: serve_requests_def)
  then have "sv3 = sv'" using again third by metis
  moreover have "lexically_normal ''/p'' = ''/p''" by code_simp
  ultimately show ?thesis using sv'(1,2) fields(1) e second third by auto
qed

end
