(* ===== verification/Proc_Defs.thy ===== *)
theory Proc_Defs
  imports Lore_Prelude
begin

text \<open>
  The tables both sides of a thunk library share (\<open>lorelei/DLCall/ProcDefs.h\<close>): kinds, directions and
  phases of procs, and the static context of a library. Addresses are numbers, 0 is the null pointer.
\<close>

subsection \<open>Proc tables\<close>

datatype ProcKind = Function | Callback

datatype ProcDirection = GuestToHost | HostToGuest

datatype ProcPhase = Entry | Adapt | Caller | Exec

record ProcInfoPair =
  pk_key :: string
  pk_addr :: nat

text \<open>A \<open>ProcArrayRef\<close> is the list of its \<open>size\<close> entries; the tables do not overlap.\<close>

type_synonym ProcArrayRef = "ProcInfoPair list"

record StaticThunkContext =
  guestProcs :: "ProcKind \<Rightarrow> ProcDirection \<Rightarrow> ProcArrayRef"
  hostProcs :: "ProcKind \<Rightarrow> ProcDirection \<Rightarrow> ProcArrayRef"
  thisProcs :: ProcArrayRef
  emuAddr :: nat
  autoLink :: bool
  nextLibraryPath :: "string option"

end
