(* ===== verification/Thunk_Context.thy ===== *)
theory Thunk_Context
  imports Host_Server Proc_Defs
begin

text \<open>
  Bringing up a thunk library on both sides (\<open>src/modules/HostRT/HostThunkContext.cpp\<close>,
  \<open>src/modules/GuestRT/GuestThunkContext.cpp\<close>, \<open>GuestClient.cpp\<close>, \<open>main.cpp\<close>): the
  requests the guest sends, which library a thunk forwards to, the exchange of the proc tables and the
  conversion of host functions to guest functions. The dynamic linkers of the two sides are parameters:
  handles and addresses are numbers, 0 is the null pointer.
\<close>

subsection \<open>Addresses\<close>

text \<open>The classification of addresses when guest and host live in disjoint ranges.\<close>

definition isHostAddress :: "StaticThunkContext \<Rightarrow> nat \<Rightarrow> bool" where
  "isHostAddress ctx addr \<longleftrightarrow> addr > emuAddr ctx"

text \<open>The guest's own linker knows only guest objects.\<close>

definition guest_isHostAddressNaive :: "(nat \<Rightarrow> string option) \<Rightarrow> nat \<Rightarrow> bool" where
  "guest_isHostAddressNaive dladdr addr \<longleftrightarrow> dladdr addr = None"

subsection \<open>The exchange\<close>

definition copyProcs :: "ProcArrayRef \<Rightarrow> ProcArrayRef \<Rightarrow> ProcArrayRef" where
  "copyProcs src dest =
     (let n = (if length src < length dest then length src else length dest)
      in foldl (\<lambda>dest i. dest[i := src ! i]) dest [0..<n])"

definition set_procs ::
    "ProcKind \<Rightarrow> ProcDirection \<Rightarrow> ProcArrayRef \<Rightarrow> (ProcKind \<Rightarrow> ProcDirection \<Rightarrow> ProcArrayRef) \<Rightarrow>
     ProcKind \<Rightarrow> ProcDirection \<Rightarrow> ProcArrayRef" where
  "set_procs kind dir procs table = table(kind := (table kind)(dir := procs))"

text \<open>One kind and direction: guest entries to the host, host entries to the guest.\<close>

definition exchange_step ::
    "ProcKind \<times> ProcDirection \<Rightarrow> StaticThunkContext \<times> StaticThunkContext \<Rightarrow> StaticThunkContext \<times> StaticThunkContext" where
  "exchange_step kd ctxs =
     (let (kind, dir) = kd; (guestCtx, hostCtx) = ctxs;
          hostCtx = hostCtx\<lparr>guestProcs :=
            set_procs kind dir (copyProcs (guestProcs guestCtx kind dir) (guestProcs hostCtx kind dir)) (guestProcs hostCtx)\<rparr>;
          guestCtx = guestCtx\<lparr>hostProcs :=
            set_procs kind dir (copyProcs (hostProcs hostCtx kind dir) (hostProcs guestCtx kind dir)) (hostProcs guestCtx)\<rparr>
      in (guestCtx, hostCtx))"

definition LoreExchangeContext ::
    "StaticThunkContext \<Rightarrow> StaticThunkContext \<Rightarrow> StaticThunkContext \<times> StaticThunkContext" where
  "LoreExchangeContext guestCtx hostCtx =
     (let (guestCtx, hostCtx) =
        fold exchange_step
          [(Function, GuestToHost), (Function, HostToGuest), (Callback, GuestToHost), (Callback, HostToGuest)]
          (guestCtx, hostCtx)
      in (guestCtx\<lparr>emuAddr := emuAddr hostCtx\<rparr>, hostCtx))"

subsection \<open>The host side\<close>

datatype thunk_error =
    Assertion_failed
  | No_module_path
  | Load_failed string
  | Symbol_failed string

text \<open>
  The host linker: the file of an address, the library loaded for a path, the address of a symbol.
\<close>

record host_linker =
  hl_dladdr :: "nat \<Rightarrow> string option"
  hl_dlopen :: "string \<Rightarrow> nat"
  hl_dlsym :: "nat \<Rightarrow> string \<Rightarrow> nat"

text \<open>The database first, then the path baked into the thunk, then the name convention.\<close>

definition host_next_library :: "thunk_db \<Rightarrow> string option \<Rightarrow> string \<Rightarrow> string" where
  "host_next_library config baked modulePath =
     (let by_name = (case baked of
            Some b \<Rightarrow> if b \<noteq> [] then b else nextLibraryByName (Some modulePath) True
          | None \<Rightarrow> nextLibraryByName (Some modulePath) True)
      in case forwardThunk config (normalizeThunkName (Some modulePath)) of
           Some f \<Rightarrow> if deref config (f_hostLibrary f) \<noteq> [] then deref config (f_hostLibrary f) else by_name
         | None \<Rightarrow> by_name)"

definition resolve_entry :: "host_linker \<Rightarrow> nat \<Rightarrow> nat \<Rightarrow> ProcArrayRef \<Rightarrow> thunk_error + ProcArrayRef" where
  "resolve_entry L handle i procs =
     (let addr = hl_dlsym L handle (pk_key (procs ! i))
      in if addr = 0 then Inl (Symbol_failed (pk_key (procs ! i))) else Inr (procs[i := (procs ! i)\<lparr>pk_addr := addr\<rparr>]))"

fun resolve_entries :: "host_linker \<Rightarrow> nat \<Rightarrow> nat list \<Rightarrow> ProcArrayRef \<Rightarrow> thunk_error + ProcArrayRef" where
  "resolve_entries L handle [] procs = Inr procs"
| "resolve_entries L handle (i # is) procs =
     (case resolve_entry L handle i procs of Inl e \<Rightarrow> Inl e | Inr procs \<Rightarrow> resolve_entries L handle is procs)"

text \<open>
  \<open>HostThunkContext::initialize\<close>; \<open>self\<close> is the address of the static context, \<open>emu\<close> the server's
  reference address. The result is the context and the library's handle (0 with automatic linking).
\<close>

definition host_initialize ::
    "host_linker \<Rightarrow> host_server \<Rightarrow> nat \<Rightarrow> nat \<Rightarrow> StaticThunkContext \<Rightarrow> thunk_error + (StaticThunkContext \<times> nat)" where
  "host_initialize L server emu self ctx =
     (let ctx = ctx\<lparr>emuAddr := emu\<rparr> in
      case hl_dladdr L self of
        None \<Rightarrow> Inl No_module_path
      | Some modulePath \<Rightarrow>
          if autoLink ctx then Inr (ctx, 0)
          else
            (case m_thunkDatabase server of
               None \<Rightarrow> Inl Assertion_failed
             | Some config \<Rightarrow>
                 (let hostLib = resolveNextLibrary
                        (varexp_map (m_thunkVars server) (host_next_library config (nextLibraryPath ctx) modulePath)) (Some modulePath);
                      handle = hl_dlopen L hostLib
                  in if handle = 0 then Inl (Load_failed hostLib)
                     else
                       (case resolve_entries L handle [0..<length (thisProcs ctx)] (thisProcs ctx) of
                          Inl e \<Rightarrow> Inl e
                        | Inr procs \<Rightarrow> Inr (ctx\<lparr>thisProcs := procs\<rparr>, handle)))))"

text \<open>The destructor closes the library when there is one.\<close>

definition host_destroy :: "nat \<Rightarrow> nat list" where
  "host_destroy handle = (if handle \<noteq> 0 then [handle] else [])"


subsection \<open>The guest's requests\<close>

datatype DLCallRequestID =
    DR_GetHostAttribute | DR_LoadLibrary | DR_GetProcAddress | DR_FreeLibrary | DR_GetLibraryError | DR_InvokeProc

text \<open>The words of a request, and what the plugin stores through its out-pointer.\<close>

datatype wire = W_text "string option" | W_num nat

text \<open>
  The guest's surroundings: the host process behind the common entry, the plugin that serves the
  library requests (\<open>None\<close>: the out-pointer is not written), and the guest's own linker.
\<close>

record 's guest_world =
  gw_host :: host_world
  gw_program :: "'s program"
  gw_host_dlinfo :: "nat \<Rightarrow> string option"
  gw_host_dladdr :: "nat \<Rightarrow> string option"
  gw_plugin :: "DLCallRequestID \<Rightarrow> wire list \<Rightarrow> wire option"
  gw_dladdr :: "nat \<Rightarrow> string option"
  gw_dlopen :: "string \<Rightarrow> bool \<Rightarrow> nat"
  gw_dlsym :: "nat \<Rightarrow> string \<Rightarrow> nat"
  gw_dlerror :: "string option"
  gw_show_ptr :: "nat \<Rightarrow> string"

record 's guest_state =
  g_host :: "'s host_state"
  g_commonProcEntry :: nat
  g_level :: int

definition RTLD_NOW :: nat where "RTLD_NOW = 2"

definition getHostAttribute :: "'s guest_world \<Rightarrow> string \<Rightarrow> string option" where
  "getHostAttribute W key =
     (case gw_plugin W DR_GetHostAttribute [W_text (Some key)] of Some (W_text v) \<Rightarrow> v | _ \<Rightarrow> None)"

definition loadLibrary :: "'s guest_world \<Rightarrow> string \<Rightarrow> nat \<Rightarrow> nat" where
  "loadLibrary W path flags =
     (case gw_plugin W DR_LoadLibrary [W_text (Some path), W_num flags] of Some (W_num h) \<Rightarrow> h | _ \<Rightarrow> 0)"

definition getProcAddress :: "'s guest_world \<Rightarrow> nat \<Rightarrow> string \<Rightarrow> nat" where
  "getProcAddress W handle name =
     (case gw_plugin W DR_GetProcAddress [W_num handle, W_text (Some name)] of Some (W_num a) \<Rightarrow> a | _ \<Rightarrow> 0)"

definition freeLibrary :: "'s guest_world \<Rightarrow> nat \<Rightarrow> nat" where
  "freeLibrary W handle = (case gw_plugin W DR_FreeLibrary [W_num handle] of Some (W_num r) \<Rightarrow> r | _ \<Rightarrow> 0)"

definition getLibraryError :: "'s guest_world \<Rightarrow> string option" where
  "getLibraryError W = (case gw_plugin W DR_GetLibraryError [] of Some (W_text e) \<Rightarrow> e | _ \<Rightarrow> None)"

definition setCommonHostEntry :: "nat \<Rightarrow> 's guest_state \<Rightarrow> 's guest_state" where
  "setCommonHostEntry entry st = st\<lparr>g_commonProcEntry := entry\<rparr>"

definition secondary_number :: "DLCallSecondaryID \<Rightarrow> nat" where
  "secondary_number i =
     (case i of DS_InvokeFunction \<Rightarrow> 0 | DS_ResumeFunction \<Rightarrow> 1 | DS_LogMessage \<Rightarrow> 2 | DS_GetModulePath \<Rightarrow> 3 | DS_GetThunkInfo \<Rightarrow> 4)"

text \<open>A request through the common entry; there is none before the entry is installed.\<close>

definition invokeHost :: "'s guest_world \<Rightarrow> DLCallSecondaryID \<Rightarrow> payload \<Rightarrow> 's guest_state \<Rightarrow> (reply \<times> 's guest_state) option" where
  "invokeHost W i p st =
     (if g_commonProcEntry st = 0 then None
      else map_option (\<lambda>(r, h). (r, st\<lparr>g_host := h\<rparr>))
        (LoreCommonHostEntry (gw_host W) (gw_program W) (gw_host_dlinfo W) (gw_host_dladdr W) (secondary_number i) p (g_host st)))"

definition logMessage :: "'s guest_world \<Rightarrow> int \<Rightarrow> string option \<Rightarrow> string \<Rightarrow> 's guest_state \<Rightarrow> 's guest_state option" where
  "logMessage W level category msg st = map_option snd (invokeHost W DS_LogMessage (P_log level category msg) st)"

text \<open>The guest's log sink forwards what reaches its level.\<close>

definition guest_logCallback :: "'s guest_world \<Rightarrow> int \<Rightarrow> string option \<Rightarrow> string \<Rightarrow> 's guest_state \<Rightarrow> 's guest_state option" where
  "guest_logCallback W level category s st = (if level \<ge> g_level st then logMessage W level category s st else Some st)"

definition guest_getModulePath :: "'s guest_world \<Rightarrow> nat \<Rightarrow> bool \<Rightarrow> 's guest_state \<Rightarrow> (string option \<times> 's guest_state) option" where
  "guest_getModulePath W opaque isHandle st =
     map_option (\<lambda>(r, st). (case r of Reply_path p \<Rightarrow> p | _ \<Rightarrow> None, st)) (invokeHost W DS_GetModulePath (P_module_path opaque isHandle) st)"

definition guest_getThunkInfo :: "'s guest_world \<Rightarrow> string \<Rightarrow> bool \<Rightarrow> 's guest_state \<Rightarrow> (thunk_info \<times> 's guest_state) option" where
  "guest_getThunkInfo W path isReverse st =
     map_option (\<lambda>(r, st). (case r of Reply_thunk t \<Rightarrow> t | _ \<Rightarrow> No_info, st)) (invokeHost W DS_GetThunkInfo (P_thunk_info (Some path) isReverse) st)"

text \<open>The guest runtime's constructor.\<close>

datatype runtime_error = Host_runtime_not_loaded "string option" | Host_entry_not_found "string option"

definition guest_runtime_start ::
    "'s guest_world \<Rightarrow> (string \<Rightarrow> string option) \<Rightarrow> (string \<Rightarrow> int) \<Rightarrow> 's guest_state \<Rightarrow> runtime_error + 's guest_state" where
  "guest_runtime_start W getenv atoi st =
     (let hostRuntimeHandle = loadLibrary W ''libLoreHostRT.so'' RTLD_NOW in
      if hostRuntimeHandle = 0 then Inl (Host_runtime_not_loaded (getLibraryError W))
      else
        (let commonHostEntry = getProcAddress W hostRuntimeHandle ''LoreCommonHostEntry'' in
         if commonHostEntry = 0 then Inl (Host_entry_not_found (getLibraryError W))
         else Inr ((setCommonHostEntry commonHostEntry st)\<lparr>g_level := runtime_level atoi (getenv ''LORELEI_GUEST_LOG_LEVEL'')\<rparr>)))"

subsection \<open>Host functions as guest functions\<close>

definition formatted :: "string \<Rightarrow> string list \<Rightarrow> string" where
  "formatted fmt args = (case format fmt args of None \<Rightarrow> [] | Some msg \<Rightarrow> msg)"

definition guest_log :: "'s guest_world \<Rightarrow> log_level \<Rightarrow> string \<Rightarrow> 's guest_state \<Rightarrow> 's guest_state option" where
  "guest_log W level msg st = guest_logCallback W (int (level_num level)) (Some ''lorelei.guest-rt'') msg st"

definition error_text :: "string option \<Rightarrow> string" where
  "error_text err = (case err of None \<Rightarrow> ''unknown error'' | Some e \<Rightarrow> e)"

text \<open>The database the guest's pointers lead into.\<close>

definition guest_db :: "'s guest_state \<Rightarrow> thunk_db" where
  "guest_db st = server_db (h_server (g_host st))"

definition convertHostProcAddress_helper ::
    "'s guest_world \<Rightarrow> string \<Rightarrow> CForwardThunkInfo \<Rightarrow> string \<Rightarrow> 's guest_state \<Rightarrow> (nat \<times> 's guest_state) option" where
  "convertHostProcAddress_helper W hostLibPath info name st =
     (let path = deref (guest_db st) (f_guestThunk info); handle = gw_dlopen W path True in
      if handle \<noteq> 0 then Some (gw_dlsym W handle name, st)
      else
        (let handle = gw_dlopen W path False in
         if handle \<noteq> 0 then Some (gw_dlsym W handle name, st)
         else map_option (Pair 0)
           (guest_log W Warning (formatted ''%1: failed to load thunk library \"%2\" (%3)''
              [hostLibPath, path, error_text (gw_dlerror W)]) st)))"

text \<open>The candidates of a reversed entry, by index, read through its pointers when their turn comes.\<close>

fun try_candidates ::
    "'s guest_world \<Rightarrow> string \<Rightarrow> string \<Rightarrow> CReversedThunkInfo \<Rightarrow> nat list \<Rightarrow> 's guest_state \<Rightarrow> (nat \<times> 's guest_state) option" where
  "try_candidates W hostLibPath name r [] st = Some (0, st)"
| "try_candidates W hostLibPath name r (i # is) st =
     (let thunk = deref (guest_db st) (m_listArena (guest_db st) ! r_thunks r ! i) in
      case guest_getThunkInfo W thunk False st of
        None \<Rightarrow> None
      | Some (Forward_info f, st) \<Rightarrow>
          (case convertHostProcAddress_helper W hostLibPath f name st of
             None \<Rightarrow> None
           | Some (func, st) \<Rightarrow> if func \<noteq> 0 then Some (func, st) else try_candidates W hostLibPath name r is st)
      | Some (_, st) \<Rightarrow>
          (case guest_log W Warning (formatted ''%1: failed to get forward thunk info for %2'' [hostLibPath, thunk]) st of
             None \<Rightarrow> None
           | Some st \<Rightarrow> try_candidates W hostLibPath name r is st))"

definition convertHostProcAddress :: "'s guest_world \<Rightarrow> string \<Rightarrow> nat \<Rightarrow> 's guest_state \<Rightarrow> (nat \<times> 's guest_state) option" where
  "convertHostProcAddress W name addr st =
     (case guest_getModulePath W addr False st of
        None \<Rightarrow> None
      | Some (None, st) \<Rightarrow> map_option (Pair 0) (guest_log W Warning (''failed to get module path for '' @ gw_show_ptr W addr) st)
      | Some (Some hostLibPath, st) \<Rightarrow>
     (case guest_getThunkInfo W hostLibPath True st of
        None \<Rightarrow> None
      | Some (Reversed_info r, st) \<Rightarrow>
          (case try_candidates W hostLibPath name r [0..<r_thunksCount r] st of
             None \<Rightarrow> None
           | Some (func, st) \<Rightarrow>
               if func \<noteq> 0 then Some (func, st)
               else map_option (Pair 0) (guest_log W Warning
                 (hostLibPath @ '': failed to convert host function \"'' @ name @ ''\" at '' @ gw_show_ptr W addr @ '' to guest function'') st))
      | Some (_, st) \<Rightarrow>
          (case guest_getThunkInfo W hostLibPath False st of
             None \<Rightarrow> None
           | Some (Forward_info f, st) \<Rightarrow> convertHostProcAddress_helper W hostLibPath f name st
           | Some (_, st) \<Rightarrow> map_option (Pair 0)
               (guest_log W Critical (formatted ''failed to get forward thunk info for %1'' [hostLibPath]) st))))"

subsection \<open>The guest side\<close>

definition guest_next_library :: "thunk_db \<Rightarrow> thunk_info \<Rightarrow> string option \<Rightarrow> string \<Rightarrow> string" where
  "guest_next_library db info baked modulePath =
     (let by_name = (case baked of
            Some b \<Rightarrow> if b \<noteq> [] then b else nextLibraryByName (Some modulePath) False
          | None \<Rightarrow> nextLibraryByName (Some modulePath) False)
      in case info of
           Forward_info f \<Rightarrow> if deref db (f_hostThunk f) \<noteq> [] then deref db (f_hostThunk f) else by_name
         | _ \<Rightarrow> by_name)"

text \<open>
  The static contexts of a thunk library, filled before anything is resolved: this side's entries with
  their names and invoke addresses, the peer's with their names, and the names of the real library's
  functions (with addresses when they were linked in).
\<close>

definition preInitialize ::
    "bool \<Rightarrow> (ProcKind \<Rightarrow> ProcDirection \<Rightarrow> string list) \<Rightarrow> (ProcKind \<Rightarrow> ProcDirection \<Rightarrow> string \<Rightarrow> nat) \<Rightarrow>
     (string \<Rightarrow> nat) option \<Rightarrow> string option \<Rightarrow> StaticThunkContext" where
  "preInitialize host names entry linked baked =
     (let this = (\<lambda>kind dir. map (\<lambda>n. \<lparr>pk_key = n, pk_addr = entry kind dir n\<rparr>) (names kind dir));
          peer = (\<lambda>kind dir. map (\<lambda>n. \<lparr>pk_key = n, pk_addr = 0\<rparr>) (names kind dir));
          lib = (\<lambda>n. \<lparr>pk_key = n, pk_addr = (case linked of Some a \<Rightarrow> if host then a n else 0 | None \<Rightarrow> 0)\<rparr>)
      in \<lparr>guestProcs = (if host then peer else this), hostProcs = (if host then this else peer),
          thisProcs = map lib (names Function (if host then GuestToHost else HostToGuest)),
          emuAddr = 0, autoLink = host \<and> linked \<noteq> None, nextLibraryPath = baked\<rparr>)"

record brought_up =
  bu_guest :: StaticThunkContext
  bu_host :: StaticThunkContext
  bu_htl :: nat
  bu_library :: nat

text \<open>
  \<open>GuestThunkContext::initialize\<close>. Loading the host thunk library runs its initializer on its own
  pre-initialized context; \<open>htl\<close> gives that context and its address for a handle of the plugin. A
  null symbol or handle aborts the process, on the host side too.
\<close>

definition guest_initialize ::
    "'s guest_world \<Rightarrow> host_linker \<Rightarrow> (nat \<Rightarrow> nat \<times> StaticThunkContext) \<Rightarrow> nat \<Rightarrow> nat \<Rightarrow> StaticThunkContext \<Rightarrow>
     's guest_state \<Rightarrow> thunk_error + (brought_up \<times> 's guest_state)" where
  "guest_initialize W L htl emu self ctx st =
     (case gw_dladdr W self of
        None \<Rightarrow> Inl No_module_path
      | Some modulePath \<Rightarrow>
     (case guest_getThunkInfo W modulePath False st of
        None \<Rightarrow> Inl Assertion_failed
      | Some (info, st) \<Rightarrow>
          (let htlPath = resolveNextLibrary (guest_next_library (guest_db st) info (nextLibraryPath ctx) modulePath) (Some modulePath);
               handle = loadLibrary W htlPath RTLD_NOW
           in if handle = 0 then Inl (Load_failed htlPath)
              else
                (case host_initialize L (h_server (g_host st)) emu (fst (htl handle)) (snd (htl handle)) of
                   Inl e \<Rightarrow> Inl e
                 | Inr (hostCtx, library) \<Rightarrow>
                     if getProcAddress W handle ''LoreExchangeContext'' = 0 then Inl (Symbol_failed ''LoreExchangeContext'')
                     else
                       (let (guestCtx, hostCtx) = LoreExchangeContext ctx hostCtx
                        in Inr (\<lparr>bu_guest = guestCtx, bu_host = hostCtx, bu_htl = handle, bu_library = library\<rparr>, st))))))"

definition guest_destroy :: "'s guest_world \<Rightarrow> nat \<Rightarrow> nat option" where
  "guest_destroy W htlHandle = (if htlHandle \<noteq> 0 then Some (freeLibrary W htlHandle) else None)"

subsection \<open>Lemmas\<close>

lemma copy_loop:
  "n \<le> length src \<Longrightarrow> n \<le> length dest \<Longrightarrow> foldl (\<lambda>dest i. dest[i := src ! i]) dest [0..<n] = take n src @ drop n dest"
proof (induction n)
  case (Suc n)
  then have "foldl (\<lambda>dest i. dest[i := src ! i]) dest [0..<Suc n] = (take n src @ drop n dest)[n := src ! n]" by simp
  also have "\<dots> = take n src @ (drop n dest)[0 := src ! n]" using Suc.prems by (simp add: list_update_append)
  also have "\<dots> = take (Suc n) src @ drop (Suc n) dest"
    using Suc.prems by (simp add: take_Suc_conv_app_nth Cons_nth_drop_Suc [symmetric])
  finally show ?case .
qed simp

lemma copyProcs_eq: "copyProcs src dest = take (length dest) src @ drop (length src) dest"
  by (simp add: copyProcs_def copy_loop Let_def)

lemma set_procs_apply: "set_procs kind dir p t k d = (if k = kind \<and> d = dir then p else t k d)"
  by (simp add: set_procs_def)

text \<open>What stays the same and what a step changes.\<close>

definition same_rest :: "StaticThunkContext \<Rightarrow> StaticThunkContext \<Rightarrow> bool" where
  "same_rest c c' \<longleftrightarrow>
     thisProcs c' = thisProcs c \<and> autoLink c' = autoLink c \<and> nextLibraryPath c' = nextLibraryPath c"

lemma exchange_step_tables:
  assumes "exchange_step (k, d) (g, h) = (g', h')"
  shows "guestProcs h' = set_procs k d (copyProcs (guestProcs g k d) (guestProcs h k d)) (guestProcs h) \<and>
    hostProcs g' = set_procs k d (copyProcs (hostProcs h k d) (hostProcs g k d)) (hostProcs g) \<and>
    guestProcs g' = guestProcs g \<and> hostProcs h' = hostProcs h \<and> same_rest g g' \<and> same_rest h h' \<and>
    emuAddr g' = emuAddr g \<and> emuAddr h' = emuAddr h"
  using assms by (auto simp: exchange_step_def same_rest_def)

lemma exchange_fold:
  "distinct kds \<Longrightarrow> fold exchange_step kds (g, h) = (g', h') \<Longrightarrow>
     (\<forall>k d. guestProcs h' k d = (if (k, d) \<in> set kds then copyProcs (guestProcs g k d) (guestProcs h k d) else guestProcs h k d)) \<and>
     (\<forall>k d. hostProcs g' k d = (if (k, d) \<in> set kds then copyProcs (hostProcs h k d) (hostProcs g k d) else hostProcs g k d)) \<and>
     guestProcs g' = guestProcs g \<and> hostProcs h' = hostProcs h \<and> same_rest g g' \<and> same_rest h h' \<and>
     emuAddr g' = emuAddr g \<and> emuAddr h' = emuAddr h"
proof (induction kds arbitrary: g h)
  case (Cons kd kds)
  obtain k d where kd: "kd = (k, d)" by fastforce
  obtain g1 h1 where s: "exchange_step (k, d) (g, h) = (g1, h1)" by fastforce
  have "distinct kds" "fold exchange_step kds (g1, h1) = (g', h')" "(k, d) \<notin> set kds"
    using Cons.prems s by (simp_all add: kd)
  note r = Cons.IH [OF this(1,2)] exchange_step_tables [OF s] this(3)
  from r show ?case by (auto simp: kd set_procs_apply same_rest_def)
qed (simp add: same_rest_def)

lemma exchange_tables:
  assumes "LoreExchangeContext g h = (g', h')"
  shows "guestProcs h' k d = copyProcs (guestProcs g k d) (guestProcs h k d) \<and>
    hostProcs g' k d = copyProcs (hostProcs h k d) (hostProcs g k d) \<and>
    guestProcs g' = guestProcs g \<and> hostProcs h' = hostProcs h \<and> same_rest g g' \<and> same_rest h h' \<and>
    emuAddr g' = emuAddr h \<and> emuAddr h' = emuAddr h"
proof -
  let ?kds = "[(Function, GuestToHost), (Function, HostToGuest), (Callback, GuestToHost), (Callback, HostToGuest)]"
  obtain g1 h1 where f: "fold exchange_step ?kds (g, h) = (g1, h1)" by (cases "fold exchange_step ?kds (g, h)")
  have e: "g' = g1\<lparr>emuAddr := emuAddr h1\<rparr>" "h' = h1"
    using assms unfolding LoreExchangeContext_def f by auto
  have "(k, d) \<in> set ?kds" by (cases k; cases d) simp_all
  with exchange_fold [OF _ f] show ?thesis unfolding e by (simp add: same_rest_def)
qed

definition unresolved :: "host_linker \<Rightarrow> nat \<Rightarrow> ProcArrayRef \<Rightarrow> string option" where
  "unresolved L handle procs = find (\<lambda>k. hl_dlsym L handle k = 0) (map pk_key procs)"

definition with_addresses :: "host_linker \<Rightarrow> nat \<Rightarrow> ProcArrayRef \<Rightarrow> ProcArrayRef" where
  "with_addresses L handle procs = map (\<lambda>e. e\<lparr>pk_addr := hl_dlsym L handle (pk_key e)\<rparr>) procs"

lemma resolve_entries_eq:
  "resolve_entries L handle [0..<length procs] procs =
     (case unresolved L handle procs of None \<Rightarrow> Inr (with_addresses L handle procs) | Some k \<Rightarrow> Inl (Symbol_failed k))"
proof -
  have "resolve_entries L handle [length done..<length done + length rest] (with_addresses L handle done @ rest) =
      (case unresolved L handle rest of None \<Rightarrow> Inr (with_addresses L handle (done @ rest)) | Some k \<Rightarrow> Inl (Symbol_failed k))"
    for "done" rest
  proof (induction rest arbitrary: "done")
    case Nil
    then show ?case by (simp add: unresolved_def)
  next
    case (Cons e rest)
    let ?i = "length done"
    have up: "[?i..<?i + length (e # rest)] = ?i # [Suc ?i..<Suc ?i + length rest]" by (simp add: upt_rec)
    have nth: "(with_addresses L handle done @ e # rest) ! ?i = e" by (simp add: with_addresses_def nth_append)
    show ?case
    proof (cases "hl_dlsym L handle (pk_key e) = 0")
      case True
      then show ?thesis unfolding up by (simp add: resolve_entry_def nth unresolved_def)
    next
      case False
      have "(with_addresses L handle done @ e # rest)[?i := e\<lparr>pk_addr := hl_dlsym L handle (pk_key e)\<rparr>] =
          with_addresses L handle (done @ e # []) @ rest"
        by (simp add: with_addresses_def list_update_append)
      then show ?thesis
        using False Cons.IH [of "done @ [e]", unfolded append_assoc append.simps] unfolding up by (simp add: resolve_entry_def nth unresolved_def)
    qed
  qed
  from this [of "[]" procs, unfolded append_Nil] show ?thesis by (simp add: with_addresses_def)
qed

text \<open>A successful start of the host side.\<close>

lemma host_initialize_ok:
  assumes "host_initialize L sv emu self ctx = Inr (c, library)"
  shows "guestProcs c = guestProcs ctx \<and> hostProcs c = hostProcs ctx \<and> emuAddr c = emu \<and>
    (if autoLink ctx then thisProcs c = thisProcs ctx
     else thisProcs c = with_addresses L library (thisProcs ctx) \<and> unresolved L library (thisProcs ctx) = None)"
  using assms by (auto simp: host_initialize_def Let_def resolve_entries_eq split: option.splits if_splits sum.splits)

lemma guest_initialize_ok:
  assumes "guest_initialize W L htl emu self ctx st = Inr (b, st')"
  obtains sv self' hctx h1 where "host_initialize L sv emu self' (snd (htl (bu_htl b))) = Inr (h1, bu_library b)"
    "LoreExchangeContext ctx h1 = (bu_guest b, bu_host b)"
  using assms unfolding guest_initialize_def Let_def
  by (auto split: option.splits if_splits sum.splits prod.splits)

lemma unresolved_None: "unresolved L h procs = None \<longleftrightarrow> (\<forall>e \<in> set procs. hl_dlsym L h (pk_key e) \<noteq> 0)"
  by (auto simp: unresolved_def find_None_iff)

lemma copyProcs_same: "length src = length dest \<Longrightarrow> copyProcs src dest = src"
  by (simp add: copyProcs_eq)

text \<open>
  C30. When a guest thunk and its host thunk, built from the same manifest, come up without aborting,
  each side's tables lead to the other side's entry of the same name at the same index, both agree on
  the address boundary, and every function of the real library is resolved to its symbol there; the
  guest's own table of real functions keeps its null addresses.
\<close>

theorem thunk_bring_up:
  assumes "ctx = preInitialize False names guest_entry None baked"
    and "\<forall>handle. snd (htl handle) = preInitialize True names host_entry linked host_baked"
    and "guest_initialize W L htl emu self ctx st = Inr (b, st')"
  shows "guestProcs (bu_host b) k d = map (\<lambda>n. \<lparr>pk_key = n, pk_addr = guest_entry k d n\<rparr>) (names k d) \<and>
    hostProcs (bu_guest b) k d = map (\<lambda>n. \<lparr>pk_key = n, pk_addr = host_entry k d n\<rparr>) (names k d) \<and>
    guestProcs (bu_guest b) k d = guestProcs (bu_host b) k d \<and> hostProcs (bu_host b) k d = hostProcs (bu_guest b) k d \<and>
    emuAddr (bu_guest b) = emu \<and> emuAddr (bu_host b) = emu \<and>
    thisProcs (bu_host b) = map (\<lambda>n. \<lparr>pk_key = n, pk_addr = (case linked of Some a \<Rightarrow> a n | None \<Rightarrow> hl_dlsym L (bu_library b) n)\<rparr>)
      (names Function GuestToHost) \<and>
    (linked = None \<longrightarrow> (\<forall>e \<in> set (thisProcs (bu_host b)). pk_addr e \<noteq> 0)) \<and>
    thisProcs (bu_guest b) = map (\<lambda>n. \<lparr>pk_key = n, pk_addr = 0\<rparr>) (names Function HostToGuest)"
proof -
  obtain sv self' h1 where h: "host_initialize L sv emu self' (snd (htl (bu_htl b))) = Inr (h1, bu_library b)"
    and x: "LoreExchangeContext ctx h1 = (bu_guest b, bu_host b)" using guest_initialize_ok [OF assms(3)] by metis
  note i = host_initialize_ok [OF h, unfolded assms(2) [rule_format]]
  note t = exchange_tables [OF x, of k d]
  have p: "guestProcs h1 k d = map (\<lambda>n. \<lparr>pk_key = n, pk_addr = 0\<rparr>) (names k d)"
    "hostProcs h1 k d = map (\<lambda>n. \<lparr>pk_key = n, pk_addr = host_entry k d n\<rparr>) (names k d)"
    using i by (simp_all add: preInitialize_def)
  have g: "guestProcs ctx k d = map (\<lambda>n. \<lparr>pk_key = n, pk_addr = guest_entry k d n\<rparr>) (names k d)"
    "hostProcs ctx k d = map (\<lambda>n. \<lparr>pk_key = n, pk_addr = 0\<rparr>) (names k d)"
    "thisProcs ctx = map (\<lambda>n. \<lparr>pk_key = n, pk_addr = 0\<rparr>) (names Function HostToGuest)"
    unfolding assms(1) by (simp_all add: preInitialize_def)
  have l: "thisProcs h1 = map (\<lambda>n. \<lparr>pk_key = n, pk_addr = (case linked of Some a \<Rightarrow> a n | None \<Rightarrow> hl_dlsym L (bu_library b) n)\<rparr>)
      (names Function GuestToHost) \<and> (linked = None \<longrightarrow> (\<forall>e \<in> set (thisProcs h1). pk_addr e \<noteq> 0))"
    using i by (cases linked) (auto simp: preInitialize_def with_addresses_def unresolved_None)
  show ?thesis using t p g l i by (simp add: copyProcs_same same_rest_def)
qed

definition same_server :: "'s guest_state \<Rightarrow> 's guest_state \<Rightarrow> bool" where
  "same_server st st' \<longleftrightarrow>
     h_server (g_host st') = h_server (g_host st) \<and> g_commonProcEntry st' = g_commonProcEntry st \<and> g_level st' = g_level st"

lemma same_server_refl [simp]: "same_server st st"
  by (simp add: same_server_def)

lemma same_server_trans: "same_server a b \<Longrightarrow> same_server b c \<Longrightarrow> same_server a c"
  by (simp add: same_server_def)

lemma guest_log_ok:
  assumes "g_commonProcEntry st \<noteq> 0"
  shows "\<exists>st'. guest_log W l m st = Some st' \<and> same_server st st'"
  using assms
  by (simp add: guest_log_def guest_logCallback_def logMessage_def invokeHost_def LoreCommonHostEntry_def
      secondary_number_def secondary_id_def same_server_def)

lemma guest_getThunkInfo_eq:
  assumes "g_commonProcEntry st \<noteq> 0" "getThunkInfo (gw_host W) (Some path) rv (h_server (g_host st)) = Some (info, sv)"
  shows "\<exists>st'. guest_getThunkInfo W path rv st = Some (info, st') \<and> h_server (g_host st') = sv \<and>
    g_commonProcEntry st' = g_commonProcEntry st \<and> g_level st' = g_level st"
  using assms by (simp add: guest_getThunkInfo_def invokeHost_def LoreCommonHostEntry_def secondary_number_def secondary_id_def)

text \<open>A name without a directory is looked up and discovers nothing.\<close>

lemma bare_name_lookup:
  assumes "CHR ''/'' \<notin> set t" "thunkNameOf (Some t) = Some name" "m_thunkDatabase sv = Some db"
  shows "getThunkInfo w (Some t) False sv =
    Some (case forwardThunk db name of None \<Rightarrow> No_info | Some e \<Rightarrow> Forward_info e, sv)"
proof -
  have "rfind_char (CHR ''/'') t = None" using assms(1) by (simp add: rfind_char_None)
  then have "fs_parent_path t = []" by (simp add: fs_parent_path_def)
  moreover have "fs_filename [] \<noteq> ''x86_64-LoreGTL''" by code_simp
  ultimately have "resolveForwardThunk w (Some t) name sv = (forwardThunk (server_db sv) name, sv)"
    by (simp add: resolveForwardThunk_def split: option.split)
  then show ?thesis using assms(2,3) by (simp add: getThunkInfo_def server_db_def)
qed

text \<open>The address a loaded thunk library gives for a symbol, preferring the copy that is mapped.\<close>

definition address_in :: "'s guest_world \<Rightarrow> string \<Rightarrow> string \<Rightarrow> nat" where
  "address_in W name path =
     (let h = gw_dlopen W path True; h = (if h \<noteq> 0 then h else gw_dlopen W path False)
      in if h = 0 then 0 else gw_dlsym W h name)"

lemma helper_eq:
  assumes "g_commonProcEntry st \<noteq> 0"
  shows "\<exists>st'. convertHostProcAddress_helper W lib f name st = Some (address_in W name (deref (guest_db st) (f_guestThunk f)), st') \<and>
    same_server st st'"
  using guest_log_ok [OF assms] by (fastforce simp: convertHostProcAddress_helper_def address_in_def Let_def)

definition candidate_address :: "'s guest_world \<Rightarrow> thunk_db \<Rightarrow> string \<Rightarrow> string \<Rightarrow> nat" where
  "candidate_address W db name t =
     (case thunkNameOf (Some t) of
        None \<Rightarrow> 0
      | Some n \<Rightarrow> (case forwardThunk db n of None \<Rightarrow> 0 | Some f \<Rightarrow> address_in W name (deref db (f_guestThunk f))))"

definition first_nonzero :: "nat list \<Rightarrow> nat" where
  "first_nonzero as = (case find (\<lambda>a. a \<noteq> 0) as of None \<Rightarrow> 0 | Some a \<Rightarrow> a)"

lemma first_nonzero_Cons: "first_nonzero (a # as) = (if a \<noteq> 0 then a else first_nonzero as)"
  by (simp add: first_nonzero_def)

lemma try_candidates_eq:
  assumes "g_commonProcEntry st \<noteq> 0" "m_thunkDatabase (h_server (g_host st)) = Some db"
    and "\<forall>i \<in> set is. CHR ''/'' \<notin> set (deref db (m_listArena db ! r_thunks r ! i)) \<and>
      thunkNameOf (Some (deref db (m_listArena db ! r_thunks r ! i))) \<noteq> None"
  shows "\<exists>st'. try_candidates W lib name r is st =
      Some (first_nonzero (map (\<lambda>i. candidate_address W db name (deref db (m_listArena db ! r_thunks r ! i))) is), st') \<and>
    same_server st st'"
  using assms
proof (induction "is" arbitrary: st)
  case Nil
  then show ?case by (simp add: first_nonzero_def)
next
  case (Cons i "is")
  have db: "guest_db st = db" using Cons.prems(2) by (simp add: guest_db_def server_db_def)
  define t where "t = deref db (m_listArena db ! r_thunks r ! i)"
  obtain n where t: "CHR ''/'' \<notin> set t" "thunkNameOf (Some t) = Some n" using Cons.prems(3) by (auto simp: t_def)
  from guest_getThunkInfo_eq [OF Cons.prems(1) bare_name_lookup [OF t Cons.prems(2)]]
  obtain st1 where s1: "guest_getThunkInfo W t False st =
      Some (case forwardThunk db n of None \<Rightarrow> No_info | Some e \<Rightarrow> Forward_info e, st1)" "same_server st st1"
    by (auto simp: same_server_def)
  have c1: "g_commonProcEntry st1 \<noteq> 0" "m_thunkDatabase (h_server (g_host st1)) = Some db" "guest_db st1 = db"
    using s1(2) Cons.prems(1,2) db by (simp_all add: same_server_def guest_db_def)
  have rest: "\<exists>st'. try_candidates W lib name r is st2 =
      Some (first_nonzero (map (\<lambda>i. candidate_address W db name (deref db (m_listArena db ! r_thunks r ! i))) is), st') \<and>
      same_server st st'" if "same_server st1 st2" for st2
    using Cons.IH [of st2] that s1(2) c1 Cons.prems(3) same_server_trans [of st st2]
      same_server_trans [OF s1(2) that] by (auto simp: same_server_def)
  show ?case
  proof (cases "forwardThunk db n")
    case None
    then have z: "candidate_address W db name t = 0" using t(2) by (simp add: candidate_address_def)
    from guest_log_ok [OF c1(1)]
    obtain st2 where s2: "guest_log W Warning (formatted ''%1: failed to get forward thunk info for %2'' [lib, t]) st1 = Some st2"
      "same_server st1 st2" by blast
    from rest [OF s2(2)] show ?thesis
      using s1(1) s2(1) z None by (simp add: db t_def [symmetric] Let_def first_nonzero_Cons)
  next
    case (Some f)
    from helper_eq [OF c1(1), of W lib f name]
    obtain st2 where s2: "convertHostProcAddress_helper W lib f name st1 = Some (address_in W name (deref db (f_guestThunk f)), st2)"
      "same_server st1 st2" unfolding c1(3) by blast
    have a: "candidate_address W db name t = address_in W name (deref db (f_guestThunk f))"
      using t(2) Some by (simp add: candidate_address_def)
    from rest [OF s2(2)] same_server_trans [OF s1(2) s2(2)] show ?thesis
      using s1(1) s2(1) Some by (auto simp: db t_def [symmetric] Let_def first_nonzero_Cons a)
  qed
qed

lemma guest_getModulePath_eq:
  assumes "g_commonProcEntry st \<noteq> 0"
  shows "\<exists>st'. guest_getModulePath W addr False st = Some (gw_host_dladdr W addr, st') \<and> same_server st st'"
  using assms by (simp add: guest_getModulePath_def invokeHost_def LoreCommonHostEntry_def secondary_number_def
      secondary_id_def getModulePath_def same_server_def)

lemma guest_reversed_lookup:
  assumes "g_commonProcEntry st \<noteq> 0" "m_thunkDatabase (h_server (g_host st)) = Some db" "thunkNameOf (Some lib) = Some n"
  shows "\<exists>st'. guest_getThunkInfo W lib True st =
      Some (case reversedThunk db n of None \<Rightarrow> No_info | Some r \<Rightarrow> Reversed_info r, st') \<and> same_server st st'"
  using guest_getThunkInfo_eq [OF assms(1), of W lib True] assms(2,3) by (auto simp: getThunkInfo_def same_server_def)

text \<open>
  A host function of a library with a reversed entry becomes the symbol's address in the first of
  the entry's thunks, in their order, that the database knows and whose guest library gives the
  symbol, and the null pointer when none does; the answer changes nothing on the server.
\<close>

theorem convert_first_candidate:
  assumes "g_commonProcEntry st \<noteq> 0" and "m_thunkDatabase (h_server (g_host st)) = Some db"
    and "gw_host_dladdr W addr = Some lib" and "thunkNameOf (Some lib) = Some n" and "reversedThunk db n = Some r"
    and "\<forall>t \<in> set (e_thunks (reversed_of db r)). CHR ''/'' \<notin> set t \<and> thunkNameOf (Some t) \<noteq> None"
  shows "\<exists>st'. convertHostProcAddress W name addr st =
      Some (first_nonzero (map (candidate_address W db name) (e_thunks (reversed_of db r))), st') \<and> same_server st st'"
proof -
  obtain st1 where m: "guest_getModulePath W addr False st = Some (Some lib, st1)" "same_server st st1"
    using guest_getModulePath_eq [OF assms(1), of W addr] assms(3) by auto
  then have c1: "g_commonProcEntry st1 \<noteq> 0" "m_thunkDatabase (h_server (g_host st1)) = Some db"
    using assms(1,2) by (simp_all add: same_server_def)
  obtain st2 where i: "guest_getThunkInfo W lib True st1 = Some (Reversed_info r, st2)" "same_server st1 st2"
    using guest_reversed_lookup [OF c1 assms(4), of W] assms(5) by auto
  then have c2: "g_commonProcEntry st2 \<noteq> 0" "m_thunkDatabase (h_server (g_host st2)) = Some db"
    using c1 by (simp_all add: same_server_def)
  have ts: "e_thunks (reversed_of db r) = map (\<lambda>i. deref db (m_listArena db ! r_thunks r ! i)) [0..<r_thunksCount r]"
    by (simp add: reversed_of_def deref_list_def)
  obtain st3 where t: "try_candidates W lib name r [0..<r_thunksCount r] st2 =
      Some (first_nonzero (map (candidate_address W db name) (e_thunks (reversed_of db r))), st3)" "same_server st2 st3"
    using try_candidates_eq [OF c2, of "[0..<r_thunksCount r]" r W lib name] assms(6) unfolding ts by (auto simp: comp_def)
  have s: "same_server st st3" using m(2) i(2) t(2) by (simp add: same_server_def)
  have c3: "g_commonProcEntry st3 \<noteq> 0" using t(2) c2(1) by (simp add: same_server_def)
  show ?thesis
  proof (cases "first_nonzero (map (candidate_address W db name) (e_thunks (reversed_of db r))) = 0")
    case False
    then show ?thesis using m(1) i(1) t(1) s by (simp add: convertHostProcAddress_def)
  next
    case True
    obtain st4 where l: "guest_log W Warning (lib @ '': failed to convert host function \"'' @ name @ ''\" at '' @
        gw_show_ptr W addr @ '' to guest function'') st3 = Some st4" "same_server st3 st4"
      using guest_log_ok [OF c3] by blast
    have "convertHostProcAddress W name addr st = Some (0, st4)"
      unfolding convertHostProcAddress_def using m(1) i(1) t(1) True l(1) by simp
    then show ?thesis using True same_server_trans [OF s l(2)] by simp
  qed
qed

text \<open>A library whose functions come from one of two thunks, the first of which is not installed.\<close>

definition client_parse :: "string \<Rightarrow> json option" where
  "client_parse s = (if s = ''db'' then
     Some (JObject [(''forwardThunks'', JArray [JString ''z'']),
        (''reversedThunks'', JArray [JObject [(''name'', JString ''libr''), (''fileName'', JString ''libr.so''),
           (''thunks'', JArray [JString ''gone'', JString ''z''])]])])
   else None)"

definition client_world :: "nat guest_world" where
  "client_world =
     \<lparr>gw_host = \<lparr>hw_read = (\<lambda>p. if p = ''/o.json'' then Some ''db'' else None), hw_exists = (\<lambda>p. False), hw_parse = client_parse\<rparr>,
      gw_program = demo_program, gw_host_dlinfo = (\<lambda>_. None), gw_host_dladdr = (\<lambda>a. if a = 7 then Some ''/lib/libr.so.2'' else None),
      gw_plugin = (\<lambda>r as. case r of
          DR_LoadLibrary \<Rightarrow> (case as of W_text (Some p) # _ \<Rightarrow> Some (W_num (if p = ''/h/z_HTL.so'' then 5 else 0)) | _ \<Rightarrow> None)
        | DR_GetProcAddress \<Rightarrow> Some (W_num 6) | _ \<Rightarrow> None),
      gw_dladdr = (\<lambda>a. if a = 8 then Some ''/g/z.so'' else None),
      gw_dlopen = (\<lambda>p loaded. if p = ''/g/z.so'' \<and> \<not> loaded then 9 else 0),
      gw_dlsym = (\<lambda>h n. if h = 9 \<and> n = ''f'' then 90 else 0), gw_dlerror = None, gw_show_ptr = (\<lambda>_. ''0x7'')\<rparr>"

definition client_state :: "nat guest_state" where
  "client_state =
     \<lparr>g_host = \<lparr>h_server = configureThunkDiscovery (gw_host client_world) demo_vars ''/o.json'' ''x86_64'' True host_server_init,
        h_machine = \<lparr>m_ctx = \<lparr>ctx_stack = 1000, ctx_stackSize = 4096, ctx_invocations = []\<rparr>, m_ra = [None]\<rparr>,
        h_shared = 0, h_flushes = 0, h_log = []\<rparr>,
      g_commonProcEntry = 1, g_level = 4\<rparr>"

theorem convert_first_candidate_witness:
  "\<exists>st'. convertHostProcAddress client_world ''f'' 7 client_state = Some (90, st')"
proof -
  let ?d = "m_thunkDatabase (h_server (g_host client_state))"
  have "case ?d of None \<Rightarrow> False | Some db \<Rightarrow> (case reversedThunk db ''libr'' of None \<Rightarrow> False | Some r \<Rightarrow>
      e_thunks (reversed_of db r) = [''gone'', ''z''] \<and>
      first_nonzero (map (candidate_address client_world db ''f'') [''gone'', ''z'']) = 90)"
    by code_simp
  then obtain db r where d: "?d = Some db" "reversedThunk db ''libr'' = Some r" "e_thunks (reversed_of db r) = [''gone'', ''z'']"
    "first_nonzero (map (candidate_address client_world db ''f'') [''gone'', ''z'']) = 90"
    by (cases ?d; cases "reversedThunk (the ?d) ''libr''") auto
  have n: "thunkNameOf (Some ''/lib/libr.so.2'') = Some ''libr''" "thunkNameOf (Some ''gone'') \<noteq> None" "thunkNameOf (Some ''z'') \<noteq> None"
    by code_simp+
  have s: "g_commonProcEntry client_state \<noteq> 0" "gw_host_dladdr client_world 7 = Some ''/lib/libr.so.2''"
    by (simp_all add: client_state_def client_world_def)
  have t: "\<forall>t \<in> set (e_thunks (reversed_of db r)). CHR ''/'' \<notin> set t \<and> thunkNameOf (Some t) \<noteq> None" using n d(3) by simp
  show ?thesis
    using convert_first_candidate [OF s(1) d(1) s(2) n(1) d(2) t, of "''f''"] d(3,4) by auto
qed

definition demo_names :: "ProcKind \<Rightarrow> ProcDirection \<Rightarrow> string list" where
  "demo_names k d = (if k = Function \<and> d = GuestToHost then [''f''] else if k = Callback then [''cb''] else [])"

definition demo_linker :: host_linker where
  "demo_linker = \<lparr>hl_dladdr = (\<lambda>a. if a = 3 then Some ''/h/z_HTL.so'' else None),
     hl_dlopen = (\<lambda>p. if p = ''z.so'' then 4 else 0), hl_dlsym = (\<lambda>h n. if h = 4 \<and> n = ''f'' then 44 else 0)\<rparr>"

lemma thunk_bring_up_demo:
  "case guest_getThunkInfo client_world ''/g/z.so'' False client_state of
     None \<Rightarrow> False
   | Some (info, st) \<Rightarrow> guest_next_library (guest_db st) info None ''/g/z.so'' = ''/h/z_HTL.so'' \<and>
       (case host_initialize demo_linker (h_server (g_host st)) 77 3 (preInitialize True demo_names (\<lambda>_ _ _. 200) None None) of
          Inl _ \<Rightarrow> False | Inr (c, l) \<Rightarrow> l = 4)"
  by code_simp

theorem thunk_bring_up_witness:
  "\<exists>b :: brought_up. hostProcs (bu_guest b) Function GuestToHost = [\<lparr>pk_key = ''f'', pk_addr = 200\<rparr>] \<and>
     thisProcs (bu_host b) = [\<lparr>pk_key = ''f'', pk_addr = 44\<rparr>] \<and> bu_library b = 4"
proof -
  define g where "g = preInitialize False demo_names (\<lambda>_ _ _. 100) None None"
  define h where "h = preInitialize True demo_names (\<lambda>_ _ _. 200) None None"
  obtain info st where s: "guest_getThunkInfo client_world ''/g/z.so'' False client_state = Some (info, st)"
    "guest_next_library (guest_db st) info None ''/g/z.so'' = ''/h/z_HTL.so''"
    "case host_initialize demo_linker (h_server (g_host st)) 77 3 h of Inl _ \<Rightarrow> False | Inr (c, l) \<Rightarrow> l = 4"
    using thunk_bring_up_demo unfolding h_def by (auto split: option.splits)
  then obtain c where c: "host_initialize demo_linker (h_server (g_host st)) 77 3 h = Inr (c, 4)"
    by (auto split: sum.splits prod.splits)
  obtain g' h' where x: "LoreExchangeContext g c = (g', h')" by fastforce
  have r: "resolveNextLibrary ''/h/z_HTL.so'' (Some ''/g/z.so'') = ''/h/z_HTL.so''" by code_simp
  have l: "loadLibrary client_world ''/h/z_HTL.so'' RTLD_NOW = 5" "getProcAddress client_world 5 ''LoreExchangeContext'' = 6"
    "gw_dladdr client_world 8 = Some ''/g/z.so''" "nextLibraryPath g = None"
    by (simp_all add: client_world_def loadLibrary_def getProcAddress_def g_def preInitialize_def)
  have b: "guest_initialize client_world demo_linker (\<lambda>_. (3, h)) 77 8 g client_state =
      Inr (\<lparr>bu_guest = g', bu_host = h', bu_htl = 5, bu_library = 4\<rparr>, st)"
    unfolding guest_initialize_def using s(1,2) c x r l by (simp add: Let_def)
  from thunk_bring_up [OF g_def _ b, of "\<lambda>_ _ _. 200" None None Function GuestToHost]
  have "hostProcs g' Function GuestToHost = [\<lparr>pk_key = ''f'', pk_addr = 200\<rparr>]"
    "thisProcs h' = [\<lparr>pk_key = ''f'', pk_addr = hl_dlsym demo_linker 4 ''f''\<rparr>]"
    by (simp_all add: demo_names_def h_def)
  then show ?thesis by (intro exI [of _ "\<lparr>bu_guest = g', bu_host = h', bu_htl = 5, bu_library = 4\<rparr>"]) (simp add: demo_linker_def)
qed

end
