(* ===== verification/Thread_Hook.thy ===== *)
theory Thread_Hook
  imports Lore_Prelude
begin

text \<open>
  Threads across the boundary: the interposed \<open>pthread_create\<close> and \<open>pthread_exit\<close> of the QEMU process
  (\<open>src/modules/QEMUThreadHook/main.cpp\<close>), and the handshake between a guest thread that creates a
  thread for the host and the new thread (\<open>src/modules/GuestRT/GuestClient.cpp\<close>). The real pthread
  functions are parameters; pointers are numbers, 0 is null.
\<close>

subsection \<open>The hook's state\<close>

record ThreadContext =
  in_hook :: bool
  pending_host_thread_create :: bool
  pending_host_thread :: nat
  pending_host_attr :: nat

definition thread_ctx_init :: ThreadContext where
  "thread_ctx_init = \<lparr>in_hook = False, pending_host_thread_create = False, pending_host_thread = 0, pending_host_attr = 0\<rparr>"

text \<open>A real thread creation: where it started, with which argument, and whether it is joinable.\<close>

record spawned =
  sp_start :: nat
  sp_arg :: nat
  sp_joinable :: bool

text \<open>
  One thread's view: its context, the emulator's current syscall number, the detach state behind each
  attribute pointer (\<open>True\<close>: joinable), the thread ids stored so far, and the real creations.
\<close>

record hook_state =
  hk_ctx :: ThreadContext
  hk_number :: int
  hk_joinable :: "nat \<Rightarrow> bool"
  hk_thread :: "nat \<Rightarrow> nat"
  hk_spawned :: "spawned list"

definition is_pass_through :: "hook_state \<Rightarrow> bool" where
  "is_pass_through st \<longleftrightarrow> hk_number st = 4096"

definition is_qemu_thread_create :: "hook_state \<Rightarrow> bool" where
  "is_qemu_thread_create st \<longleftrightarrow> hk_number st = 56"

definition is_qemu_thread_exit :: "hook_state \<Rightarrow> bool" where
  "is_qemu_thread_exit st \<longleftrightarrow> hk_number st = 60"

text \<open>
  The real \<open>pthread_create\<close>: \<open>spawn\<close> gives the result and the new thread's id; a null attribute
  means joinable.
\<close>

definition real_pthread_create ::
    "(nat \<Rightarrow> nat \<Rightarrow> int \<times> nat) \<Rightarrow> nat \<Rightarrow> nat \<Rightarrow> nat \<Rightarrow> nat \<Rightarrow> hook_state \<Rightarrow> int \<times> hook_state" where
  "real_pthread_create spawn thread attr start_routine arg st =
     (let (rc, new) = spawn start_routine arg in
      if rc = 0 then
        (0, st\<lparr>hk_thread := (hk_thread st)(thread := new),
             hk_spawned := hk_spawned st @
               [\<lparr>sp_start = start_routine, sp_arg = arg, sp_joinable = (attr = 0 \<or> hk_joinable st attr)\<rparr>]\<rparr>)
      else (rc, st))"

subsection \<open>The hooks\<close>

text \<open>The emulator's own creation while it serves a clone; \<open>None\<close> is the abort on a null attribute.\<close>

definition qemu_thread_create ::
    "(nat \<Rightarrow> nat \<Rightarrow> int \<times> nat) \<Rightarrow> nat \<Rightarrow> nat \<Rightarrow> nat \<Rightarrow> nat \<Rightarrow> hook_state \<Rightarrow> (int \<times> hook_state) option" where
  "qemu_thread_create spawn thread attr start_routine arg st =
     (if attr = 0 then None
      else if pending_host_thread_create (hk_ctx st) then
        (let host_attr = pending_host_attr (hk_ctx st);
             st = (if host_attr \<noteq> 0 then
                     (if hk_joinable st host_attr then st\<lparr>hk_joinable := (hk_joinable st)(attr := True)\<rparr> else st)
                   else st\<lparr>hk_joinable := (hk_joinable st)(attr := True)\<rparr>);
             (ret, st) = real_pthread_create spawn thread attr start_routine arg st
         in Some (ret, st\<lparr>hk_thread := (hk_thread st)(pending_host_thread (hk_ctx st) := hk_thread st thread)\<rparr>))
      else Some (real_pthread_create spawn thread attr start_routine arg st))"

text \<open>
  \<open>reenter\<close> hands the creation to the guest and gives the code the guest stored and the state after.
\<close>

definition hook_pthread_create ::
    "(nat \<Rightarrow> nat \<Rightarrow> int \<times> nat) \<Rightarrow> (hook_state \<Rightarrow> (int \<times> hook_state) option) \<Rightarrow> nat \<Rightarrow> nat \<Rightarrow> nat \<Rightarrow> nat \<Rightarrow>
     hook_state \<Rightarrow> (int \<times> hook_state) option" where
  "hook_pthread_create spawn reenter thread attr start_routine arg st =
     (if is_qemu_thread_create st then qemu_thread_create spawn thread attr start_routine arg st
      else if in_hook (hk_ctx st) then Some (real_pthread_create spawn thread attr start_routine arg st)
      else if \<not> is_pass_through st then Some (real_pthread_create spawn thread attr start_routine arg st)
      else
        (let st = st\<lparr>hk_ctx := \<lparr>in_hook = True, pending_host_thread_create = True,
                                 pending_host_thread = thread, pending_host_attr = attr\<rparr>\<rparr>
         in case reenter st of
              None \<Rightarrow> None
            | Some (ret, st) \<Rightarrow>
                Some (ret, st\<lparr>hk_ctx := (hk_ctx st)\<lparr>pending_host_thread_create := False, pending_host_thread := 0,
                                                    pending_host_attr := 0, in_hook := False\<rparr>\<rparr>)))"

text \<open>
  What happens on this thread: the emulator enters a syscall, or some code calls \<open>pthread_create\<close>; what
  a call that reenters the guest leads to before it comes back is part of the event, with the code the
  guest stores.
\<close>

datatype hook_event =
    Syscall int
  | Create nat nat nat nat int "hook_event list"

text \<open>The results of the calls, in order, and the final state.\<close>

fun run_event :: "(nat \<Rightarrow> nat \<Rightarrow> int \<times> nat) \<Rightarrow> hook_event \<Rightarrow> int list \<times> hook_state \<Rightarrow> (int list \<times> hook_state) option"
  and run_events :: "(nat \<Rightarrow> nat \<Rightarrow> int \<times> nat) \<Rightarrow> hook_event list \<Rightarrow> int list \<times> hook_state \<Rightarrow> (int list \<times> hook_state) option" where
  "run_event spawn (Syscall n) (rs, st) = Some (rs, st\<lparr>hk_number := n\<rparr>)"
| "run_event spawn (Create thread attr start_routine arg rc evs) (rs, st) =
     (case hook_pthread_create spawn (\<lambda>st. map_option (\<lambda>r. (rc, snd r)) (run_events spawn evs ([], st)))
             thread attr start_routine arg st of
        None \<Rightarrow> None
      | Some (ret, st) \<Rightarrow> Some (rs @ [ret], st))"
| "run_events spawn [] r = Some r"
| "run_events spawn (e # es) r = (case run_event spawn e r of None \<Rightarrow> None | Some r \<Rightarrow> run_events spawn es r)"

text \<open>Leaving a thread: the calls that happen before it is gone, in order.\<close>

datatype exit_action = Guest_exit nat | Real_exit nat

definition hook_pthread_exit :: "nat \<Rightarrow> hook_state \<Rightarrow> exit_action list" where
  "hook_pthread_exit ret st =
     (if is_qemu_thread_exit st then [Real_exit ret]
      else if in_hook (hk_ctx st) then [Real_exit ret]
      else if \<not> is_pass_through st then [Real_exit ret]
      else [Guest_exit ret, Real_exit ret])"

subsection \<open>Lemmas on the hook\<close>

lemma real_pthread_create_ctx [simp]:
  "hk_ctx (snd (real_pthread_create spawn th at sr arg st)) = hk_ctx st"
  "hk_number (snd (real_pthread_create spawn th at sr arg st)) = hk_number st"
  by (simp_all add: real_pthread_create_def split: prod.split)

lemma qemu_thread_create_ctx:
  "qemu_thread_create spawn th at sr arg st = Some (r, st') \<Longrightarrow> hk_ctx st' = hk_ctx st"
proof -
  have "real_pthread_create spawn th at sr arg s = (r', s') \<Longrightarrow> hk_ctx s' = hk_ctx s" for s r' s'
    using real_pthread_create_ctx(1) [of spawn th at sr arg s] by simp
  then show "qemu_thread_create spawn th at sr arg st = Some (r, st') \<Longrightarrow> hk_ctx st' = hk_ctx st"
    by (fastforce simp: qemu_thread_create_def Let_def split: if_splits prod.splits)
qed

text \<open>Between two events a thread is either outside the hook, with nothing pending, or inside it.\<close>

definition ctx_settled :: "ThreadContext \<Rightarrow> bool" where
  "ctx_settled c \<longleftrightarrow> c = thread_ctx_init \<or> in_hook c"

lemma hook_pthread_create_ctx:
  assumes "ctx_settled (hk_ctx st)" "hook_pthread_create spawn reenter th at sr arg st = Some (r, st')"
    and "\<And>st r st'. in_hook (hk_ctx st) \<Longrightarrow> reenter st = Some (r, st') \<Longrightarrow> hk_ctx st' = hk_ctx st"
  shows "hk_ctx st' = hk_ctx st"
proof -
  consider "is_qemu_thread_create st" | "\<not> is_qemu_thread_create st" "in_hook (hk_ctx st) \<or> \<not> is_pass_through st"
    | "\<not> is_qemu_thread_create st" "\<not> in_hook (hk_ctx st)" "is_pass_through st" by blast
  then show ?thesis
  proof cases
    case 1
    then have "qemu_thread_create spawn th at sr arg st = Some (r, st')" using assms(2) by (simp add: hook_pthread_create_def)
    then show ?thesis by (rule qemu_thread_create_ctx)
  next
    case 2
    then have "hook_pthread_create spawn reenter th at sr arg st = Some (real_pthread_create spawn th at sr arg st)"
      by (cases "in_hook (hk_ctx st)") (simp_all add: hook_pthread_create_def)
    then have "real_pthread_create spawn th at sr arg st = (r, st')" using assms(2) by simp
    then show ?thesis using real_pthread_create_ctx(1) [of spawn th at sr arg st] by simp
  next
    case 3
    let ?s = "st\<lparr>hk_ctx := \<lparr>in_hook = True, pending_host_thread_create = True, pending_host_thread = th, pending_host_attr = at\<rparr>\<rparr>"
    obtain s1 where s: "reenter ?s = Some (r, s1)"
      "st' = s1\<lparr>hk_ctx := (hk_ctx s1)\<lparr>pending_host_thread_create := False, pending_host_thread := 0, pending_host_attr := 0, in_hook := False\<rparr>\<rparr>"
    proof (cases "reenter ?s")
      case None
      then show ?thesis using 3 assms(2) by (simp add: hook_pthread_create_def)
    next
      case (Some q)
      moreover obtain r1 s1 where "q = (r1, s1)" by fastforce
      ultimately show ?thesis using 3 assms(2) that by (simp add: hook_pthread_create_def)
    qed
    have "hk_ctx s1 = hk_ctx ?s" by (rule assms(3) [OF _ s(1)]) simp
    then have "hk_ctx st' = thread_ctx_init" using s(2) by (simp add: thread_ctx_init_def)
    then show ?thesis using 3 assms(1) by (simp add: ctx_settled_def)
  qed
qed

lemma run_ctx:
  "ctx_settled (hk_ctx (snd r)) \<Longrightarrow> run_event spawn e r = Some r' \<Longrightarrow> hk_ctx (snd r') = hk_ctx (snd r)"
  "ctx_settled (hk_ctx (snd r)) \<Longrightarrow> run_events spawn es r = Some r' \<Longrightarrow> hk_ctx (snd r') = hk_ctx (snd r)"
proof (induction spawn e r and spawn es r arbitrary: r' and r' rule: run_event_run_events.induct)
  case (2 spawn th at sr arg rc evs rs st)
  obtain ret st' where h: "hook_pthread_create spawn (\<lambda>st. map_option (\<lambda>r. (rc, snd r)) (run_events spawn evs ([], st))) th at sr arg st =
      Some (ret, st')" "r' = (rs @ [ret], st')"
  proof (cases "hook_pthread_create spawn (\<lambda>st. map_option (\<lambda>r. (rc, snd r)) (run_events spawn evs ([], st))) th at sr arg st")
    case None
    then show ?thesis using "2.prems"(2) by simp
  next
    case (Some q)
    then show ?thesis using "2.prems"(2) that by (cases q) simp
  qed
  have re: "hk_ctx s' = hk_ctx s" if a: "in_hook (hk_ctx s)" and m: "map_option (\<lambda>r. (rc, snd r)) (run_events spawn evs ([], s)) = Some (r, s')" for s r s'
  proof -
    obtain q where q: "run_events spawn evs ([], s) = Some q" "s' = snd q" using m unfolding map_option_eq_Some by auto
    from "2.IH" [of s, OF _ q(1)] a q(2) show ?thesis by (simp add: ctx_settled_def)
  qed
  have "ctx_settled (hk_ctx st)" using "2.prems"(1) by simp
  from hook_pthread_create_ctx [OF this h(1) re] h(2) show ?case by simp
next
  case (4 spawn e es r)
  show ?case
  proof (cases "run_event spawn e r")
    case None
    then show ?thesis using "4.prems" by simp
  next
    case (Some r1)
    then have "hk_ctx (snd r1) = hk_ctx (snd r)" using "4.IH"(1) "4.prems"(1) by blast
    then show ?thesis using "4.IH"(2) [OF Some] "4.prems" Some by simp
  qed
qed auto

lemma run_events_append:
  "run_events spawn (es @ fs) r = (case run_events spawn es r of None \<Rightarrow> None | Some r \<Rightarrow> run_events spawn fs r)"
  by (induction es arbitrary: r) (simp_all split: option.split)

lemma run_syscalls:
  "\<exists>n. run_events spawn (map Syscall ns) (rs, st) = Some (rs, st\<lparr>hk_number := n\<rparr>)"
proof (induction ns arbitrary: st)
  case Nil
  have "st\<lparr>hk_number := hk_number st\<rparr> = st" by simp
  then show ?case by (auto intro: exI [of _ "hk_number st"])
next
  case (Cons m ns)
  from Cons.IH [of "st\<lparr>hk_number := m\<rparr>"] show ?case by simp
qed

text \<open>
  C28. Whatever happens on a thread, creations that reenter the guest nested inside one another
  included, its context comes back: a thread outside the hook ends outside it with nothing pending.
\<close>

theorem hook_context_restored:
  assumes "hk_ctx st = thread_ctx_init" and "run_events spawn evs ([], st) = Some (rs, st')"
  shows "hk_ctx st' = thread_ctx_init"
  using run_ctx(2) [of "([], st)" spawn evs "(rs, st')"] assms by (simp add: ctx_settled_def)

lemma qemu_create_pending:
  assumes "attr \<noteq> 0" "pending_host_thread_create (hk_ctx st)" "\<not> hk_joinable st attr" "spawn start arg = (0, new)"
  shows "\<exists>s. qemu_thread_create spawn thread attr start arg st = Some (0, s) \<and>
    hk_spawned s = hk_spawned st @ [\<lparr>sp_start = start, sp_arg = arg,
      sp_joinable = (pending_host_attr (hk_ctx st) = 0 \<or> hk_joinable st (pending_host_attr (hk_ctx st)))\<rparr>] \<and>
    hk_thread s (pending_host_thread (hk_ctx st)) = new \<and> hk_ctx s = hk_ctx st"
  using assms
  by (cases "pending_host_attr (hk_ctx st) = 0"; cases "hk_joinable st (pending_host_attr (hk_ctx st))";
      simp add: qemu_thread_create_def real_pthread_create_def Let_def)

text \<open>
  C14. A host function that creates a thread gets one that is joinable exactly when it asked for that,
  although the emulator creates all its threads detached: the guest's clone leads to one real
  creation, the new thread's id lands in the host's variable, and the code is the guest's.
\<close>

theorem host_create_honoured:
  assumes "hk_ctx st = thread_ctx_init" and "hk_number st = 4096"
    and "qattr \<noteq> 0" and "\<not> hk_joinable st qattr" and "spawn qstart qarg = (0, new)"
  shows "\<exists>st'. run_event spawn (Create thread attr start_routine arg rc
        (map Syscall before @ [Syscall 56, Create qthread qattr qstart qarg qrc []] @ map Syscall after)) ([], st) = Some ([rc], st') \<and>
     hk_spawned st' = hk_spawned st @ [\<lparr>sp_start = qstart, sp_arg = qarg, sp_joinable = (attr = 0 \<or> hk_joinable st attr)\<rparr>] \<and>
     hk_thread st' thread = new \<and> hk_ctx st' = thread_ctx_init"
proof -
  let ?c = "\<lparr>in_hook = True, pending_host_thread_create = True, pending_host_thread = thread, pending_host_attr = attr\<rparr>"
  let ?s = "st\<lparr>hk_ctx := ?c\<rparr>"
  obtain n where n: "run_events spawn (map Syscall before) ([], ?s) = Some ([], ?s\<lparr>hk_number := n\<rparr>)"
    using run_syscalls by blast
  let ?q = "?s\<lparr>hk_number := 56\<rparr>"
  obtain s2 where c: "qemu_thread_create spawn qthread qattr qstart qarg ?q = Some (0, s2)"
    "hk_spawned s2 = hk_spawned st @ [\<lparr>sp_start = qstart, sp_arg = qarg, sp_joinable = (attr = 0 \<or> hk_joinable st attr)\<rparr>]"
    "hk_thread s2 thread = new" "hk_ctx s2 = ?c"
    using qemu_create_pending [of qattr ?q spawn qstart qarg new qthread] assms(3-5) by auto
  have r: "run_events spawn [Syscall 56, Create qthread qattr qstart qarg qrc []] ([], ?s\<lparr>hk_number := n\<rparr>) = Some ([0], s2)"
    using c(1) by (simp add: hook_pthread_create_def is_qemu_thread_create_def)
  obtain m where m: "run_events spawn (map Syscall after) ([0], s2) = Some ([0], s2\<lparr>hk_number := m\<rparr>)"
    using run_syscalls by blast
  let ?evs = "map Syscall before @ [Syscall 56, Create qthread qattr qstart qarg qrc []] @ map Syscall after"
  have all: "run_events spawn ?evs ([], ?s) = Some ([0], s2\<lparr>hk_number := m\<rparr>)"
    unfolding run_events_append n option.case r m ..
  have "hook_pthread_create spawn (\<lambda>st. map_option (\<lambda>r. (rc, snd r)) (run_events spawn ?evs ([], st)))
      thread attr start_routine arg st = Some (rc, s2\<lparr>hk_number := m, hk_ctx := thread_ctx_init\<rparr>)"
    unfolding hook_pthread_create_def
    using assms(1,2) c(4) by (simp add: all is_qemu_thread_create_def is_pass_through_def thread_ctx_init_def del: append.simps)
  with c(2,3) show ?thesis by simp
qed

theorem hook_context_restored_witness:
  "\<exists>rs st'. run_events (\<lambda>_ _. (0, 5)) [Create 1 0 2 3 0 [Syscall 56, Create 4 8 9 9 0 [], Syscall 202]]
      ([], \<lparr>hk_ctx = thread_ctx_init, hk_number = 4096, hk_joinable = (\<lambda>_. False), hk_thread = (\<lambda>_. 0), hk_spawned = []\<rparr>) =
     Some (rs, st') \<and> hk_ctx st' = thread_ctx_init"
proof -
  let ?st = "\<lparr>hk_ctx = thread_ctx_init, hk_number = 4096, hk_joinable = (\<lambda>_. False), hk_thread = (\<lambda>_. 0), hk_spawned = []\<rparr>"
  let ?es = "[Create 1 0 2 3 0 [Syscall 56, Create 4 8 9 9 0 [], Syscall 202]]"
  have "run_events (\<lambda>_ _. (0, 5)) ?es ([], ?st) \<noteq> None" by code_simp
  then obtain rs st' where r: "run_events (\<lambda>_ _. (0, 5)) ?es ([], ?st) = Some (rs, st')" by force
  from hook_context_restored [OF _ r] r show ?thesis by simp
qed

theorem host_create_honoured_witness:
  "\<exists>st'. run_event (\<lambda>_ _. (0, 5)) (Create 1 0 2 3 0 [Syscall 9, Syscall 56, Create 4 8 9 9 0 [], Syscall 202])
      ([], \<lparr>hk_ctx = thread_ctx_init, hk_number = 4096, hk_joinable = (\<lambda>_. False), hk_thread = (\<lambda>_. 0), hk_spawned = []\<rparr>) =
     Some ([0], st') \<and> hk_spawned st' = [\<lparr>sp_start = 9, sp_arg = 9, sp_joinable = True\<rparr>] \<and> hk_thread st' 1 = 5"
  using host_create_honoured [of "\<lparr>hk_ctx = thread_ctx_init, hk_number = 4096, hk_joinable = (\<lambda>_. False), hk_thread = (\<lambda>_. 0),
      hk_spawned = []\<rparr>" 8 "\<lambda>_ _. (0, 5)" 9 9 5 1 0 2 3 0 "[9]" 4 0 "[202]"] by auto

subsection \<open>The handshake with a new guest thread\<close>

text \<open>Where the creating thread is in the \<open>SC_ThreadCreate\<close> branch of \<open>invokeFunction\<close>.\<close>

datatype parent_pc = P_create | P_wait | P_waiting | P_unlock | P_destroy | P_gone

text \<open>Where the new thread is in \<open>newThreadEntry\<close>.\<close>

datatype child_pc = C_none | C_copy | C_lock | C_signal | C_unlock | C_run

datatype mutex_owner = Free | Parent | Child

text \<open>
  \<open>nt_waiting\<close>: the parent is in the condition variable's wait set. \<open>nt_frame\<close>: the \<open>NewThreadInfo\<close>
  on the parent's stack still exists. \<open>nt_fault\<close>: the child touched it afterwards.
\<close>

record new_thread =
  nt_parent :: parent_pc
  nt_child :: child_pc
  nt_mutex :: mutex_owner
  nt_waiting :: bool
  nt_frame :: bool
  nt_fault :: bool

definition new_thread_init :: new_thread where
  "new_thread_init =
     \<lparr>nt_parent = P_create, nt_child = C_none, nt_mutex = Parent, nt_waiting = False, nt_frame = True, nt_fault = False\<rparr>"

text \<open>The child at its next step, having touched the frame.\<close>

definition child_to :: "child_pc \<Rightarrow> new_thread \<Rightarrow> new_thread" where
  "child_to c s = s\<lparr>nt_child := c, nt_fault := (nt_fault s \<or> \<not> nt_frame s)\<rparr>"

text \<open>
  The steps of both threads. POSIX lets \<open>pthread_cond_wait\<close> return without a signal: that is the
  last rule, allowed when \<open>spurious\<close> holds.
\<close>

inductive nt_step :: "bool \<Rightarrow> new_thread \<Rightarrow> new_thread \<Rightarrow> bool" for spurious where
  create_ok: "nt_parent s = P_create \<Longrightarrow> nt_step spurious s (s\<lparr>nt_parent := P_wait, nt_child := C_copy\<rparr>)"
| create_failed: "nt_parent s = P_create \<Longrightarrow> nt_step spurious s (s\<lparr>nt_parent := P_unlock\<rparr>)"
| wait: "nt_parent s = P_wait \<Longrightarrow> nt_step spurious s (s\<lparr>nt_parent := P_waiting, nt_mutex := Free, nt_waiting := True\<rparr>)"
| woken: "nt_parent s = P_waiting \<Longrightarrow> \<not> nt_waiting s \<Longrightarrow> nt_mutex s = Free \<Longrightarrow>
    nt_step spurious s (s\<lparr>nt_parent := P_unlock, nt_mutex := Parent\<rparr>)"
| unlock: "nt_parent s = P_unlock \<Longrightarrow> nt_step spurious s (s\<lparr>nt_parent := P_destroy, nt_mutex := Free\<rparr>)"
| destroy: "nt_parent s = P_destroy \<Longrightarrow> nt_step spurious s (s\<lparr>nt_parent := P_gone, nt_frame := False\<rparr>)"
| child_copy: "nt_child s = C_copy \<Longrightarrow> nt_step spurious s (child_to C_lock s)"
| child_lock: "nt_child s = C_lock \<Longrightarrow> nt_mutex s = Free \<Longrightarrow> nt_step spurious s (child_to C_signal s\<lparr>nt_mutex := Child\<rparr>)"
| child_signal: "nt_child s = C_signal \<Longrightarrow> nt_step spurious s (child_to C_unlock s\<lparr>nt_waiting := False\<rparr>)"
| child_unlock: "nt_child s = C_unlock \<Longrightarrow> nt_step spurious s (child_to C_run s\<lparr>nt_mutex := Free\<rparr>)"
| wakeup: "spurious \<Longrightarrow> nt_parent s = P_waiting \<Longrightarrow> nt_waiting s \<Longrightarrow> nt_step spurious s (s\<lparr>nt_waiting := False\<rparr>)"

code_pred nt_step .

text \<open>Without spurious wakeups: where the child can be while the parent is at each point.\<close>

definition nt_inv :: "new_thread \<Rightarrow> bool" where
  "nt_inv s \<longleftrightarrow> \<not> nt_fault s \<and> nt_frame s = (nt_parent s \<noteq> P_gone) \<and>
     (case nt_parent s of
        P_create \<Rightarrow> nt_child s = C_none \<and> nt_mutex s = Parent
      | P_wait \<Rightarrow> nt_child s \<in> {C_copy, C_lock} \<and> nt_mutex s = Parent
      | P_waiting \<Rightarrow>
          if nt_waiting s then nt_child s \<in> {C_copy, C_lock, C_signal} \<and> nt_mutex s = (if nt_child s = C_signal then Child else Free)
          else nt_child s \<in> {C_unlock, C_run} \<and> nt_mutex s = (if nt_child s = C_unlock then Child else Free)
      | P_unlock \<Rightarrow> nt_child s \<in> {C_none, C_run} \<and> nt_mutex s = Parent
      | _ \<Rightarrow> nt_child s \<in> {C_none, C_run} \<and> nt_mutex s = Free)"

lemma nt_inv_step: "nt_step False s s' \<Longrightarrow> nt_inv s \<Longrightarrow> nt_inv s'"
  by (induction rule: nt_step.induct) (auto simp: nt_inv_def child_to_def split: if_splits parent_pc.splits)

lemma nt_reach_inv: "(nt_step False)\<^sup>*\<^sup>* new_thread_init s \<Longrightarrow> nt_inv s"
  by (induction rule: rtranclp_induct) (auto simp: nt_inv_step, simp add: nt_inv_def new_thread_init_def)

text \<open>How far both threads are; every step that is not a spurious wakeup makes progress.\<close>

fun parent_rank :: "parent_pc \<Rightarrow> nat" where
  "parent_rank P_create = 0" | "parent_rank P_wait = 1" | "parent_rank P_waiting = 2"
| "parent_rank P_unlock = 3" | "parent_rank P_destroy = 4" | "parent_rank P_gone = 5"

fun child_rank :: "child_pc \<Rightarrow> nat" where
  "child_rank C_none = 0" | "child_rank C_copy = 0" | "child_rank C_lock = 1"
| "child_rank C_signal = 2" | "child_rank C_unlock = 3" | "child_rank C_run = 4"

definition nt_rank :: "new_thread \<Rightarrow> nat" where
  "nt_rank s = parent_rank (nt_parent s) + child_rank (nt_child s)"

lemma nt_rank_step: "nt_step False s s' \<Longrightarrow> nt_inv s \<Longrightarrow> nt_rank s < nt_rank s'"
  by (induction rule: nt_step.induct) (auto simp: nt_rank_def child_to_def nt_inv_def)

lemma nt_rank_bound: "nt_rank s \<le> 9"
  by (cases "nt_parent s"; cases "nt_child s"; simp add: nt_rank_def)

lemma nt_steps_rank: "(nt_step False ^^ n) new_thread_init s \<Longrightarrow> n \<le> nt_rank s"
proof (induction n arbitrary: s)
  case (Suc n)
  then obtain m where m: "(nt_step False ^^ n) new_thread_init m" "nt_step False m s" by auto
  with Suc.IH [of m] nt_rank_step [OF m(2) nt_reach_inv [OF relpowp_imp_rtranclp [OF m(1)]]] show ?case by simp
qed simp

text \<open>
  C27. Without spurious wakeups the new thread never touches the creator's frame after it is gone, the
  creator leaves only when the new thread has started (or could not be created), and neither side
  waits for ever: some step is possible until the creator has left, and there are at most nine steps.
\<close>

theorem new_thread_handshake_safe:
  assumes "(nt_step False ^^ n) new_thread_init s"
  shows "\<not> nt_fault s \<and> (nt_parent s = P_gone \<longrightarrow> nt_child s \<in> {C_none, C_run}) \<and>
    (nt_parent s \<noteq> P_gone \<longrightarrow> (\<exists>s'. nt_step False s s')) \<and> n \<le> 9"
proof -
  have i: "nt_inv s" using nt_reach_inv [OF relpowp_imp_rtranclp [OF assms]] .
  have "\<exists>s'. nt_step False s s'" if "nt_parent s \<noteq> P_gone"
    using i that
    by (cases "nt_parent s"; cases "nt_child s"; cases "nt_waiting s") (auto simp: nt_inv_def intro: nt_step.intros)
  moreover have "n \<le> 9" using nt_steps_rank [OF assms] nt_rank_bound [of s] by simp
  ultimately show ?thesis using i by (auto simp: nt_inv_def split: parent_pc.splits)
qed

text \<open>
  One spurious wakeup breaks this: the creator can leave while the new thread has not even copied
  its entry point out of the frame.
\<close>

theorem new_thread_spurious_wakeup_race:
  "\<exists>s s'. (nt_step True)\<^sup>*\<^sup>* new_thread_init s \<and> nt_parent s = P_gone \<and> nt_child s = C_copy \<and>
     nt_step True s s' \<and> nt_fault s'"
proof -
  define s1 where "s1 = new_thread_init\<lparr>nt_parent := P_wait, nt_child := C_copy\<rparr>"
  define s2 where "s2 = s1\<lparr>nt_parent := P_waiting, nt_mutex := Free, nt_waiting := True\<rparr>"
  define s3 where "s3 = s2\<lparr>nt_waiting := False\<rparr>"
  define s4 where "s4 = s3\<lparr>nt_parent := P_unlock, nt_mutex := Parent\<rparr>"
  define s5 where "s5 = s4\<lparr>nt_parent := P_destroy, nt_mutex := Free\<rparr>"
  define s6 where "s6 = s5\<lparr>nt_parent := P_gone, nt_frame := False\<rparr>"
  note d = s1_def s2_def s3_def s4_def s5_def s6_def new_thread_init_def
  have "nt_step True new_thread_init s1" unfolding s1_def by (rule create_ok) (simp add: d)
  moreover have "nt_step True s1 s2" unfolding s2_def by (rule wait) (simp add: d)
  moreover have "nt_step True s2 s3" unfolding s3_def by (rule wakeup) (simp_all add: d)
  moreover have "nt_step True s3 s4" unfolding s4_def by (rule woken) (simp_all add: d)
  moreover have "nt_step True s4 s5" unfolding s5_def by (rule unlock) (simp add: d)
  moreover have "nt_step True s5 s6" unfolding s6_def by (rule destroy) (simp add: d)
  ultimately have r: "(nt_step True)\<^sup>*\<^sup>* new_thread_init s6" by (meson converse_rtranclp_into_rtranclp rtranclp.rtrancl_refl)
  have "nt_step True s6 (child_to C_lock s6)" by (rule child_copy) (simp add: d)
  then show ?thesis using r by (intro exI [of _ s6] exI [of _ "child_to C_lock s6"]) (simp add: d child_to_def)
qed

text \<open>
  The longest run, in which the creator waits and is woken: nine steps.  In its third state the creator
  is in the wait set; only a spurious wakeup would take it out there.
\<close>

definition nt_demo :: "new_thread list" where
  "nt_demo =
     (let s1 = new_thread_init\<lparr>nt_parent := P_wait, nt_child := C_copy\<rparr>;
          s2 = s1\<lparr>nt_parent := P_waiting, nt_mutex := Free, nt_waiting := True\<rparr>;
          s3 = child_to C_lock s2;
          s4 = child_to C_signal s3\<lparr>nt_mutex := Child\<rparr>;
          s5 = child_to C_unlock s4\<lparr>nt_waiting := False\<rparr>;
          s6 = child_to C_run s5\<lparr>nt_mutex := Free\<rparr>;
          s7 = s6\<lparr>nt_parent := P_unlock, nt_mutex := Parent\<rparr>;
          s8 = s7\<lparr>nt_parent := P_destroy, nt_mutex := Free\<rparr>;
          s9 = s8\<lparr>nt_parent := P_gone, nt_frame := False\<rparr>
      in [new_thread_init, s1, s2, s3, s4, s5, s6, s7, s8, s9])"

lemmas nt_demo_eval = nt_demo_def new_thread_init_def child_to_def Let_def

lemma nt_demo_run: "(nt_step False ^^ 9) new_thread_init (nt_demo ! 9)"
proof -
  have s0: "nt_step False (nt_demo ! 0) (nt_demo ! 1)"
    using create_ok [of "nt_demo ! 0"] by (simp add: nt_demo_eval)
  have s1: "nt_step False (nt_demo ! 1) (nt_demo ! 2)"
    using wait [of "nt_demo ! 1"] by (simp add: nt_demo_eval)
  have s2: "nt_step False (nt_demo ! 2) (nt_demo ! 3)"
    using child_copy [of "nt_demo ! 2"] by (simp add: nt_demo_eval)
  have s3: "nt_step False (nt_demo ! 3) (nt_demo ! 4)"
    using child_lock [of "nt_demo ! 3"] by (simp add: nt_demo_eval)
  have s4: "nt_step False (nt_demo ! 4) (nt_demo ! 5)"
    using child_signal [of "nt_demo ! 4"] by (simp add: nt_demo_eval)
  have s5: "nt_step False (nt_demo ! 5) (nt_demo ! 6)"
    using child_unlock [of "nt_demo ! 5"] by (simp add: nt_demo_eval)
  have s6: "nt_step False (nt_demo ! 6) (nt_demo ! 7)"
    using woken [of "nt_demo ! 6"] by (simp add: nt_demo_eval)
  have s7: "nt_step False (nt_demo ! 7) (nt_demo ! 8)"
    using unlock [of "nt_demo ! 7"] by (simp add: nt_demo_eval)
  have s8: "nt_step False (nt_demo ! 8) (nt_demo ! 9)"
    using destroy [of "nt_demo ! 8"] by (simp add: nt_demo_eval)
  have "nt_step False (nt_demo ! i) (nt_demo ! Suc i)" if "i < 9" for i
  proof -
    have "i \<in> {0, 1, 2, 3, 4, 5, 6, 7, 8}" using that by auto
    then show ?thesis using s0 s1 s2 s3 s4 s5 s6 s7 s8 by (auto simp: numeral_eq_Suc)
  qed
  then show ?thesis
    unfolding relpowp_fun_conv by (intro exI [of _ "nth nt_demo"]) (simp add: nt_demo_eval)
qed

theorem new_thread_handshake_safe_witness:
  "(nt_step False ^^ 9) new_thread_init (nt_demo ! 9) \<and> nt_parent (nt_demo ! 9) = P_gone \<and>
   nt_child (nt_demo ! 9) = C_run \<and> \<not> nt_fault (nt_demo ! 9) \<and>
   \<not> (\<exists>s. (nt_step False ^^ 10) new_thread_init s) \<and>
   nt_parent (nt_demo ! 2) = P_waiting \<and> nt_waiting (nt_demo ! 2) \<and>
   \<not> nt_step False (nt_demo ! 2) ((nt_demo ! 2)\<lparr>nt_waiting := False\<rparr>) \<and>
   nt_step True (nt_demo ! 2) ((nt_demo ! 2)\<lparr>nt_waiting := False\<rparr>)"
proof (intro conjI)
  show "\<not> nt_fault (nt_demo ! 9)" using new_thread_handshake_safe [OF nt_demo_run] by simp
  show "\<not> (\<exists>s. (nt_step False ^^ 10) new_thread_init s)"
    using new_thread_handshake_safe [where n = 10] by fastforce
  show "\<not> nt_step False (nt_demo ! 2) ((nt_demo ! 2)\<lparr>nt_waiting := False\<rparr>)"
    by (auto simp: nt_demo_eval elim: nt_step.cases)
  show "nt_step True (nt_demo ! 2) ((nt_demo ! 2)\<lparr>nt_waiting := False\<rparr>)"
    by (rule wakeup) (simp_all add: nt_demo_eval)
qed (use nt_demo_run in \<open>simp_all add: nt_demo_eval\<close>)

end
