(* ===== verification/Ordered_Map.thy ===== *)
theory Ordered_Map
  imports Lore_Prelude "HOL-Library.List_Lexorder" "HOL-Library.Char_ord"
begin

text \<open>
  \<open>std::map\<close> and \<open>std::set\<close> as lists in key order, so that iterating over them is running over the
  list. Strings are ordered as \<open>std::string\<close> orders them, by their bytes.
\<close>

definition omap_ok :: "('k::linorder \<times> 'v) list \<Rightarrow> bool" where
  "omap_ok m \<longleftrightarrow> sorted_wrt (<) (map fst m)"

text \<open>Operations on the value of a key, present (\<open>Some\<close>) or not.\<close>

fun omap_update :: "'k::linorder \<Rightarrow> ('v option \<Rightarrow> 'v) \<Rightarrow> ('k \<times> 'v) list \<Rightarrow> ('k \<times> 'v) list" where
  "omap_update k f [] = [(k, f None)]"
| "omap_update k f ((k', v) # m) =
     (if k < k' then (k, f None) # (k', v) # m
      else if k = k' then (k, f (Some v)) # m
      else (k', v) # omap_update k f m)"

definition omap_set :: "'k::linorder \<Rightarrow> 'v \<Rightarrow> ('k \<times> 'v) list \<Rightarrow> ('k \<times> 'v) list" where
  "omap_set k v = omap_update k (\<lambda>_. v)"

definition omap_emplace :: "'k::linorder \<Rightarrow> 'v \<Rightarrow> ('k \<times> 'v) list \<Rightarrow> ('k \<times> 'v) list" where
  "omap_emplace k v = omap_update k (\<lambda>w. case w of None \<Rightarrow> v | Some w \<Rightarrow> w)"

definition oset_insert :: "'k::linorder \<Rightarrow> 'k list \<Rightarrow> 'k list" where
  "oset_insert k ks = map fst (omap_set k () (map (\<lambda>k. (k, ())) ks))"

lemma omap_ok_Nil [simp]: "omap_ok []"
  by (simp add: omap_ok_def)

lemma omap_ok_Cons: "omap_ok ((k, v) # m) \<longleftrightarrow> omap_ok m \<and> (\<forall>k' \<in> fst ` set m. k < k')"
  by (auto simp: omap_ok_def)

lemma omap_ok_distinct: "omap_ok m \<Longrightarrow> distinct (map fst m)"
  by (auto simp: omap_ok_def strict_sorted_iff)

lemma omap_update_keys: "fst ` set (omap_update k f m) = insert k (fst ` set m)"
  by (induction m rule: omap_update.induct) auto

lemma omap_update_ok: "omap_ok m \<Longrightarrow> omap_ok (omap_update k f m)"
  by (induction k f m rule: omap_update.induct) (auto simp: omap_ok_Cons omap_update_keys)

lemma map_of_update: "omap_ok m \<Longrightarrow> map_of (omap_update k f m) = (map_of m)(k \<mapsto> f (map_of m k))"
proof (induction k f m rule: omap_update.induct)
  case (2 k f k' v m)
  have "map_of m k = None" if "k < k'"
    using "2.prems" that by (force simp: omap_ok_Cons map_of_eq_None_iff)
  with 2 show ?case by (auto simp: fun_eq_iff omap_ok_Cons)
qed (simp add: fun_eq_iff)

lemma omap_set_ok: "omap_ok m \<Longrightarrow> omap_ok (omap_set k v m)"
  by (simp add: omap_set_def omap_update_ok)

lemma omap_emplace_ok: "omap_ok m \<Longrightarrow> omap_ok (omap_emplace k v m)"
  by (simp add: omap_emplace_def omap_update_ok)

lemma map_of_set: "omap_ok m \<Longrightarrow> map_of (omap_set k v m) = (map_of m)(k \<mapsto> v)"
  by (simp add: omap_set_def map_of_update)

text \<open>A list in key order is determined by its lookup function.\<close>

lemma omap_eqI: "omap_ok m \<Longrightarrow> omap_ok n \<Longrightarrow> map_of m = map_of n \<Longrightarrow> m = n"
proof (induction m arbitrary: n)
  case Nil
  then show ?case by (cases n) (auto simp: fun_eq_iff split: if_splits)
next
  case (Cons p m)
  obtain k v where p: "p = (k, v)" by fastforce
  have dom: "fst ` set (p # m) = fst ` set n" using Cons.prems(3) by (metis dom_map_of_conv_image_fst)
  then obtain k' v' n' where n: "n = (k', v') # n'" by (cases n) auto
  have "k = k'"
  proof (rule ccontr)
    assume "k \<noteq> k'"
    then have "k \<in> fst ` set n'" "k' \<in> fst ` set m" using dom by (auto simp: p n)
    then show False using Cons.prems(1,2) by (force simp: p n omap_ok_Cons)
  qed
  moreover have "v = v'" using fun_cong [OF Cons.prems(3), of k] \<open>k = k'\<close> by (simp add: p n)
  moreover have "map_of m = map_of n'"
  proof
    fix x
    have "map_of m k = None" "map_of n' k = None"
      using Cons.prems(1,2) \<open>k = k'\<close> by (force simp: p n omap_ok_Cons map_of_eq_None_iff)+
    then show "map_of m x = map_of n' x"
      using fun_cong [OF Cons.prems(3), of x] \<open>k = k'\<close> by (cases "x = k") (simp_all add: p n)
  qed
  ultimately show ?case using Cons by (simp add: p n omap_ok_Cons)
qed

lemma omap_set_same: "omap_ok m \<Longrightarrow> map_of m k = Some v \<Longrightarrow> omap_set k v m = m"
  by (rule omap_eqI) (auto simp: omap_set_ok map_of_set)

text \<open>Inserting the entries of a map one after the other builds the map.\<close>

lemma fold_omap_set:
  assumes "omap_ok m"
  shows "omap_ok (fold (\<lambda>(k, v). omap_set k v) es m) \<and>
    map_of (fold (\<lambda>(k, v). omap_set k v) es m) = map_of m ++ map_of (rev es)"
  using assms
proof (induction es arbitrary: m)
  case (Cons e es)
  obtain k v where e: "e = (k, v)" by fastforce
  have "omap_ok (omap_set k v m)" using Cons.prems by (simp add: omap_set_ok)
  from Cons.IH [OF this] show ?case
    by (auto simp: e map_of_set Cons.prems map_add_def fun_eq_iff split: option.splits)
qed simp

lemma map_of_rev_distinct: "distinct (map fst es) \<Longrightarrow> map_of (rev es) = map_of es"
proof (induction es)
  case (Cons e es)
  then have "map_of es (fst e) = None" by (auto simp: map_of_eq_None_iff)
  with Cons show ?case by (auto simp: map_add_def fun_eq_iff split: option.split)
qed simp

lemma fold_omap_set_id:
  assumes "omap_ok es"
  shows "fold (\<lambda>(k, v). omap_set k v) es [] = es"
proof -
  have "map_of (rev es) = map_of es" using omap_ok_distinct [OF assms] by (rule map_of_rev_distinct)
  then show ?thesis using fold_omap_set [of "[]" es] assms by (intro omap_eqI) auto
qed

definition oset_ok :: "'k::linorder list \<Rightarrow> bool" where
  "oset_ok ks \<longleftrightarrow> sorted_wrt (<) ks"

lemma oset_as_map: "oset_ok ks \<longleftrightarrow> omap_ok (map (\<lambda>k. (k, ())) ks)"
  by (simp add: oset_ok_def omap_ok_def comp_def)

lemma oset_insert_ok: "oset_ok ks \<Longrightarrow> oset_ok (oset_insert k ks)"
proof -
  assume "oset_ok ks"
  then have "omap_ok (omap_set k () (map (\<lambda>k. (k, ())) ks))" by (simp add: oset_as_map omap_set_ok)
  then show ?thesis by (simp add: oset_insert_def oset_ok_def omap_ok_def)
qed

lemma oset_insert_set [simp]: "set (oset_insert k ks) = insert k (set ks)"
proof -
  have "set (oset_insert k ks) = fst ` set (omap_set k () (map (\<lambda>k. (k, ())) ks))" by (simp add: oset_insert_def)
  also have "\<dots> = insert k (set ks)" unfolding omap_set_def omap_update_keys by force
  finally show ?thesis .
qed

lemma fold_oset_insert_as_map:
  "map (\<lambda>k. (k, ())) (fold oset_insert ks js) = fold (\<lambda>(k, v). omap_set k v) (map (\<lambda>k. (k, ())) ks) (map (\<lambda>k. (k, ())) js)"
proof (induction ks arbitrary: js)
  case (Cons k ks)
  have "map (\<lambda>k. (k, ())) (oset_insert k js) = omap_set k () (map (\<lambda>k. (k, ())) js)"
    by (auto simp: oset_insert_def comp_def intro: map_idI)
  then show ?case using Cons.IH [of "oset_insert k js"] by simp
qed simp

lemma fold_oset_insert_id: "oset_ok ks \<Longrightarrow> fold oset_insert ks [] = ks"
proof -
  assume "oset_ok ks"
  then have "map (\<lambda>k. (k, ())) (fold oset_insert ks []) = map (\<lambda>k. (k, ())) ks"
    using fold_oset_insert_as_map [of ks "[]"] fold_omap_set_id [of "map (\<lambda>k. (k, ())) ks"] by (simp add: oset_as_map)
  then have "map fst (map (\<lambda>k. (k, ())) (fold oset_insert ks [])) = map fst (map (\<lambda>k. (k, ())) ks)" by (rule arg_cong)
  then show ?thesis by (simp add: comp_def)
qed

end
