(* ===== verification/Manifest_Summary.thy ===== *)
theory Manifest_Summary
  imports Ordered_Map Thunk_Database Proc_Defs
begin

text \<open>
  The result of \<open>TLC stat\<close> (\<open>src/libs/TLCApi/ManifestSummary.cpp\<close>, \<open>lorelei/TLCApi/ManifestSummary.h\<close>)
  and its JSON form. The JSON parser and printer are LLVM's and are parameters; JSON values are those of
  the thunk database's theory.
\<close>

subsection \<open>The summary\<close>

record CallbackInfo =
  ci_signature :: string
  ci_alias :: string
  ci_origin :: string

text \<open>Functions with their locations, missing functions and callbacks, each in key order.\<close>

record manifest_summary =
  ms_fileName :: string
  ms_functions :: "ProcDirection \<Rightarrow> (string \<times> string) list"
  ms_missing :: "ProcDirection \<Rightarrow> string list"
  ms_callbacks :: "(string \<times> CallbackInfo) list"

definition ms_clear :: manifest_summary where
  "ms_clear = \<lparr>ms_fileName = [], ms_functions = (\<lambda>_. []), ms_missing = (\<lambda>_. []), ms_callbacks = []\<rparr>"

definition addFunction :: "ProcDirection \<Rightarrow> string \<Rightarrow> string \<Rightarrow> manifest_summary \<Rightarrow> manifest_summary" where
  "addFunction dir name location s =
     s\<lparr>ms_functions := (ms_functions s)(dir := omap_set name location (ms_functions s dir))\<rparr>"

definition addMissing :: "ProcDirection \<Rightarrow> string \<Rightarrow> manifest_summary \<Rightarrow> manifest_summary" where
  "addMissing dir name s = s\<lparr>ms_missing := (ms_missing s)(dir := oset_insert name (ms_missing s dir))\<rparr>"

definition empty_callback :: CallbackInfo where
  "empty_callback = \<lparr>ci_signature = [], ci_alias = [], ci_origin = []\<rparr>"

text \<open>The first non-empty alias and origin of a signature are kept.\<close>

definition addCallbackSignature :: "string \<Rightarrow> string \<Rightarrow> string \<Rightarrow> manifest_summary \<Rightarrow> manifest_summary" where
  "addCallbackSignature signature origin preferredAlias s =
     s\<lparr>ms_callbacks := omap_update signature (\<lambda>info.
        (let info = (case info of None \<Rightarrow> empty_callback | Some i \<Rightarrow> i);
             info = info\<lparr>ci_signature := signature\<rparr>;
             info = (if preferredAlias \<noteq> [] \<and> ci_alias info = [] then info\<lparr>ci_alias := preferredAlias\<rparr> else info);
             info = (if origin \<noteq> [] \<and> ci_origin info = [] then info\<lparr>ci_origin := origin\<rparr> else info)
         in info)) (ms_callbacks s)\<rparr>"

subsection \<open>Reading JSON\<close>

definition json_getString :: "json_object \<Rightarrow> string \<Rightarrow> string option" where
  "json_getString obj key = (case map_of obj key of Some (JString s) \<Rightarrow> Some s | _ \<Rightarrow> None)"

definition json_getObject :: "json_object \<Rightarrow> string \<Rightarrow> json_object option" where
  "json_getObject obj key = (case map_of obj key of Some (JObject o') \<Rightarrow> Some o' | _ \<Rightarrow> None)"

definition json_getArray :: "json_object \<Rightarrow> string \<Rightarrow> json list option" where
  "json_getArray obj key = (case map_of obj key of Some (JArray xs) \<Rightarrow> Some xs | _ \<Rightarrow> None)"

definition or_empty :: "string option \<Rightarrow> string" where
  "or_empty s = (case s of None \<Rightarrow> [] | Some s \<Rightarrow> s)"

definition parseFunctionItem :: "json \<Rightarrow> (string \<times> string) list \<Rightarrow> (string \<times> string) list" where
  "parseFunctionItem item m =
     (case item of
        JObject itemObj \<Rightarrow>
          (case json_getString itemObj ''name'' of
             None \<Rightarrow> m
           | Some name \<Rightarrow> omap_set name (or_empty (json_getString itemObj ''location'')) m)
      | _ \<Rightarrow> m)"

definition parseFunctionArray :: "json_object \<Rightarrow> string \<Rightarrow> (string \<times> string) list" where
  "parseFunctionArray functionsObj key =
     (case json_getArray functionsObj key of None \<Rightarrow> [] | Some arr \<Rightarrow> fold parseFunctionItem arr [])"

definition parseMissingItem :: "json \<Rightarrow> string list \<Rightarrow> string list" where
  "parseMissingItem item ns = (case item of JString name \<Rightarrow> oset_insert name ns | _ \<Rightarrow> ns)"

definition parseMissingFunctionArray :: "json_object \<Rightarrow> string \<Rightarrow> string list" where
  "parseMissingFunctionArray missingObj key =
     (case json_getArray missingObj key of None \<Rightarrow> [] | Some arr \<Rightarrow> fold parseMissingItem arr [])"

definition parseCallbackItem :: "json \<Rightarrow> (string \<times> CallbackInfo) list \<Rightarrow> (string \<times> CallbackInfo) list" where
  "parseCallbackItem item m =
     (case item of
        JObject itemObj \<Rightarrow>
          (case json_getString itemObj ''signature'' of
             None \<Rightarrow> m
           | Some signature \<Rightarrow>
               omap_update signature (\<lambda>info.
                 (let info = (case info of None \<Rightarrow> empty_callback | Some i \<Rightarrow> i);
                      info = info\<lparr>ci_signature := signature\<rparr>;
                      info = (case json_getString itemObj ''alias'' of None \<Rightarrow> info | Some a \<Rightarrow> info\<lparr>ci_alias := a\<rparr>);
                      info = (case json_getString itemObj ''origin'' of None \<Rightarrow> info | Some a \<Rightarrow> info\<lparr>ci_origin := a\<rparr>)
                  in info)) m)
      | _ \<Rightarrow> m)"

definition direction_key :: "ProcDirection \<Rightarrow> string" where
  "direction_key dir = (case dir of GuestToHost \<Rightarrow> ''GuestToHost'' | HostToGuest \<Rightarrow> ''HostToGuest'')"

definition both_directions :: "(string \<Rightarrow> 'a) \<Rightarrow> ProcDirection \<Rightarrow> 'a" where
  "both_directions f dir = f (direction_key dir)"

text \<open>
  The file's text (or the system's error message) and the parser decide; the object changes only on
  success. The first component is the error message.
\<close>

definition loadFromJson ::
    "(string \<Rightarrow> string + json) \<Rightarrow> string + string \<Rightarrow> manifest_summary \<Rightarrow> string option \<times> manifest_summary" where
  "loadFromJson parse file s =
     (case file of
        Inl message \<Rightarrow> (Some message, s)
      | Inr buffer \<Rightarrow>
     (case parse buffer of
        Inl message \<Rightarrow> (Some message, s)
      | Inr (JObject obj) \<Rightarrow>
          (None,
           \<lparr>ms_fileName = or_empty (json_getString obj ''fileName''),
            ms_functions = (case json_getObject obj ''functions'' of
                None \<Rightarrow> (\<lambda>_. []) | Some fs \<Rightarrow> both_directions (parseFunctionArray fs)),
            ms_missing = (case json_getObject obj ''missingFunctions'' of
                None \<Rightarrow> (\<lambda>_. []) | Some ms \<Rightarrow> both_directions (parseMissingFunctionArray ms)),
            ms_callbacks = (case json_getArray obj ''callbacks'' of
                None \<Rightarrow> [] | Some arr \<Rightarrow> fold parseCallbackItem arr [])\<rparr>)
      | Inr _ \<Rightarrow> (Some ''not an object'', s)))"

subsection \<open>Writing JSON\<close>

definition serializeFunctionMap :: "(string \<times> string) list \<Rightarrow> json" where
  "serializeFunctionMap m =
     JArray (map (\<lambda>(name, location). JObject [(''name'', JString name), (''location'', JString location)]) m)"

definition serializeMissingFunctionSet :: "string list \<Rightarrow> json" where
  "serializeMissingFunctionSet ns = JArray (map JString ns)"

definition serializeCallbacks :: "(string \<times> CallbackInfo) list \<Rightarrow> json" where
  "serializeCallbacks cs =
     JArray (map (\<lambda>(_, info). JObject [(''signature'', JString (ci_signature info)),
       (''alias'', JString (ci_alias info)), (''origin'', JString (ci_origin info))]) cs)"

definition summary_json :: "manifest_summary \<Rightarrow> json" where
  "summary_json s =
     JObject [(''fileName'', JString (ms_fileName s)),
       (''functions'', JObject [(''GuestToHost'', serializeFunctionMap (ms_functions s GuestToHost)),
                                (''HostToGuest'', serializeFunctionMap (ms_functions s HostToGuest))]),
       (''missingFunctions'', JObject [(''GuestToHost'', serializeMissingFunctionSet (ms_missing s GuestToHost)),
                                       (''HostToGuest'', serializeMissingFunctionSet (ms_missing s HostToGuest))]),
       (''callbacks'', serializeCallbacks (ms_callbacks s))]"

text \<open>
  Opening the file may fail with a message, and so may writing; otherwise the text of the root object
  is in the file.
\<close>

definition saveAsJson ::
    "(json \<Rightarrow> string) \<Rightarrow> string option \<Rightarrow> bool \<Rightarrow> manifest_summary \<Rightarrow> string option \<times> string" where
  "saveAsJson print open_error write_failed s =
     (case open_error of
        Some message \<Rightarrow> (Some message, [])
      | None \<Rightarrow> (if write_failed then Some ''Failed to write JSON to file'' else None, print (summary_json s)))"

subsection \<open>Properties\<close>

text \<open>Key order, and every callback under its own signature.\<close>

definition ms_ok :: "manifest_summary \<Rightarrow> bool" where
  "ms_ok s \<longleftrightarrow>
     (\<forall>dir. omap_ok (ms_functions s dir) \<and> oset_ok (ms_missing s dir)) \<and> omap_ok (ms_callbacks s) \<and>
     (\<forall>(k, info) \<in> set (ms_callbacks s). ci_signature info = k)"

lemma ms_ok_clear: "ms_ok ms_clear"
  by (simp add: ms_ok_def ms_clear_def oset_ok_def)

lemma ms_ok_addFunction: "ms_ok s \<Longrightarrow> ms_ok (addFunction dir name location s)"
  by (simp add: ms_ok_def addFunction_def omap_set_ok)

lemma ms_ok_addMissing: "ms_ok s \<Longrightarrow> ms_ok (addMissing dir name s)"
  by (simp add: ms_ok_def addMissing_def oset_insert_ok)

lemma omap_update_values:
  assumes "\<forall>(k, v) \<in> set m. Q k v" "\<And>w. (case w of None \<Rightarrow> True | Some v \<Rightarrow> Q k v) \<Longrightarrow> Q k (f w)"
  shows "\<forall>(k, v) \<in> set (omap_update k f m). Q k v"
proof -
  have n: "Q k (f None)" using assms(2) [of None] by simp
  have s: "Q k v \<Longrightarrow> Q k (f (Some v))" for v using assms(2) [of "Some v"] by simp
  from assms(1) show ?thesis by (induction m) (use n s in \<open>auto split: if_splits\<close>)
qed

lemma ms_ok_addCallback: "ms_ok s \<Longrightarrow> ms_ok (addCallbackSignature signature origin alias s)"
proof -
  assume s: "ms_ok s"
  have "\<forall>(k, info) \<in> set (ms_callbacks (addCallbackSignature signature origin alias s)). ci_signature info = k"
    unfolding addCallbackSignature_def using s
    by (simp add: ms_ok_def) (rule omap_update_values; auto simp: Let_def)
  with s show ?thesis by (simp add: ms_ok_def addCallbackSignature_def omap_update_ok)
qed

lemma functions_roundtrip:
  "omap_ok m \<Longrightarrow> fold parseFunctionItem (map (\<lambda>(name, location). JObject [(''name'', JString name), (''location'', JString location)]) m) [] = m"
proof -
  have "fold parseFunctionItem (map (\<lambda>(name, location). JObject [(''name'', JString name), (''location'', JString location)]) es) m =
      fold (\<lambda>(k, v). omap_set k v) es m" for es m
    by (induction es arbitrary: m) (auto simp: parseFunctionItem_def json_getString_def or_empty_def)
  then show "omap_ok m \<Longrightarrow> ?thesis" by (simp add: fold_omap_set_id)
qed

lemma missing_roundtrip: "oset_ok ns \<Longrightarrow> fold parseMissingItem (map JString ns) [] = ns"
proof -
  have "fold parseMissingItem (map JString ns) js = fold oset_insert ns js" for ns js
    by (induction ns arbitrary: js) (auto simp: parseMissingItem_def)
  then show "oset_ok ns \<Longrightarrow> ?thesis" by (simp add: fold_oset_insert_id)
qed

definition callback_item :: "CallbackInfo \<Rightarrow> json" where
  "callback_item info = JObject [(''signature'', JString (ci_signature info)),
     (''alias'', JString (ci_alias info)), (''origin'', JString (ci_origin info))]"

lemma parse_callback_item: "parseCallbackItem (callback_item info) m = omap_set (ci_signature info) info m"
proof -
  have "(\<lambda>w. let i = (case w of None \<Rightarrow> empty_callback | Some i \<Rightarrow> i); i = i\<lparr>ci_signature := ci_signature info\<rparr>;
      i = i\<lparr>ci_alias := ci_alias info\<rparr>; i = i\<lparr>ci_origin := ci_origin info\<rparr> in i) = (\<lambda>_. info)"
    by (rule ext) (simp add: Let_def)
  then show ?thesis by (simp add: parseCallbackItem_def callback_item_def json_getString_def omap_set_def)
qed

lemma callbacks_roundtrip:
  assumes "omap_ok cs" "\<forall>(k, info) \<in> set cs. ci_signature info = k"
  shows "fold parseCallbackItem (map (\<lambda>(_, info). JObject [(''signature'', JString (ci_signature info)),
       (''alias'', JString (ci_alias info)), (''origin'', JString (ci_origin info))]) cs) [] = cs"
proof -
  have "fold parseCallbackItem (map (\<lambda>(_, info). callback_item info) es) m = fold (\<lambda>(k, v). omap_set k v) es m"
    if "\<forall>(k, info) \<in> set es. ci_signature info = k" for es m
    using that by (induction es arbitrary: m) (auto simp: parse_callback_item)
  from this [OF assms(2)] show ?thesis using fold_omap_set_id [OF assms(1)] by (simp add: callback_item_def [abs_def])
qed

text \<open>
  A summary that was written can be read back: whatever the object held before, it is the summary
  that was saved, for any JSON parser that reads what the printer wrote.
\<close>

theorem manifest_roundtrip:
  assumes "ms_ok s" and "parse (print (summary_json s)) = Inr (summary_json s)"
    and "saveAsJson print None False s = (None, contents)"
  shows "loadFromJson parse (Inr contents) s0 = (None, s)"
proof -
  have c: "contents = print (summary_json s)" using assms(3) by (simp add: saveAsJson_def)
  note ok = assms(1) [unfolded ms_ok_def]
  have fn: "both_directions (parseFunctionArray [(''GuestToHost'', serializeFunctionMap (ms_functions s GuestToHost)),
      (''HostToGuest'', serializeFunctionMap (ms_functions s HostToGuest))]) = ms_functions s"
  proof
    show "both_directions (parseFunctionArray [(''GuestToHost'', serializeFunctionMap (ms_functions s GuestToHost)),
      (''HostToGuest'', serializeFunctionMap (ms_functions s HostToGuest))]) dir = ms_functions s dir" for dir
      using ok functions_roundtrip
      by (cases dir) (simp_all add: both_directions_def direction_key_def parseFunctionArray_def json_getArray_def serializeFunctionMap_def)
  qed
  have mi: "both_directions (parseMissingFunctionArray [(''GuestToHost'', serializeMissingFunctionSet (ms_missing s GuestToHost)),
      (''HostToGuest'', serializeMissingFunctionSet (ms_missing s HostToGuest))]) = ms_missing s"
  proof
    show "both_directions (parseMissingFunctionArray [(''GuestToHost'', serializeMissingFunctionSet (ms_missing s GuestToHost)),
      (''HostToGuest'', serializeMissingFunctionSet (ms_missing s HostToGuest))]) dir = ms_missing s dir" for dir
      using ok missing_roundtrip
      by (cases dir) (simp_all add: both_directions_def direction_key_def parseMissingFunctionArray_def json_getArray_def serializeMissingFunctionSet_def)
  qed
  have "loadFromJson parse (Inr contents) s0 = (None, \<lparr>ms_fileName = ms_fileName s, ms_functions = ms_functions s,
      ms_missing = ms_missing s, ms_callbacks = ms_callbacks s\<rparr>)"
    using callbacks_roundtrip [of "ms_callbacks s"] ok
    unfolding loadFromJson_def c by (simp add: assms(2))
      (simp add: summary_json_def json_getString_def json_getObject_def json_getArray_def or_empty_def fn mi serializeCallbacks_def)
  then show ?thesis by simp
qed

text \<open>A summary with entries everywhere, written by \<open>id\<close> on a one-letter text.\<close>

definition demo_summary :: manifest_summary where
  "demo_summary = addCallbackSignature ''int (*)(void)'' ''Config[Callback]:cb'' ''cb''
     (addMissing HostToGuest ''gone'' (addFunction GuestToHost ''b'' ''h:2'' (addFunction GuestToHost ''a'' ''h:1''
       (ms_clear\<lparr>ms_fileName := ''m.cpp''\<rparr>))))"

theorem manifest_roundtrip_witness:
  "loadFromJson (\<lambda>t. if t = ''x'' then Inr (summary_json demo_summary) else Inl []) (Inr ''x'') ms_clear = (None, demo_summary)"
proof -
  have "ms_ok (ms_clear\<lparr>ms_fileName := ''m.cpp''\<rparr>)" using ms_ok_clear by (simp add: ms_ok_def)
  then have "ms_ok demo_summary"
    unfolding demo_summary_def by (intro ms_ok_addCallback ms_ok_addMissing ms_ok_addFunction)
  from manifest_roundtrip [OF this, of "\<lambda>t. if t = ''x'' then Inr (summary_json demo_summary) else Inl []" "\<lambda>_. ''x''" "''x''" ms_clear]
  show ?thesis by (simp add: saveAsJson_def)
qed

end
