(* ===== verification/Callback_Stat.thy ===== *)
theory Callback_Stat
  imports Manifest_Summary Config_File
begin

text \<open>
  \<open>TLC stat\<close> (\<open>src/tools/TLC/Commands/Stat.cpp\<close>): which functions of a configuration exist, and every
  callback signature reachable through the types of a seed. Clang is a parameter: types are values with
  a canonical form, a text and a shape, and the AST is the list of the items its matchers report.
\<close>

subsection \<open>Types\<close>

text \<open>
  The shape of a canonical type: a pointer to a function with its result (\<open>None\<close>: void, or nothing
  known) and parameters, a pointer, an array, a record with its fields.
\<close>

datatype 't type_view =
    Function_pointer "'t option" "'t list"
  | Pointer_to 't
  | Array_of 't
  | Record_of "(string \<times> 't) list"
  | Other_type

record 't type_system =
  ts_canonical :: "'t \<Rightarrow> 't"
  ts_string :: "'t \<Rightarrow> string"
  ts_view :: "'t \<Rightarrow> 't type_view"

definition is_function_pointer :: "'t type_system \<Rightarrow> 't \<Rightarrow> bool" where
  "is_function_pointer T t = (case ts_view T t of Function_pointer _ _ \<Rightarrow> True | _ \<Rightarrow> False)"

text \<open>The types a function pointer mentions, as they are pushed: the result, then the parameters.\<close>

definition signature_types :: "'t option \<Rightarrow> 't list \<Rightarrow> string \<Rightarrow> ('t \<times> string) list" where
  "signature_types ret params origin =
     (case ret of None \<Rightarrow> [] | Some r \<Rightarrow> [(r, origin @ ''@ret'')]) @
     map (\<lambda>i. (params ! i, origin @ ''@arg'' @ std_to_string (i + 1))) [0..<length params]"

definition pushed_types :: "'t type_system \<Rightarrow> 't \<Rightarrow> string \<Rightarrow> ('t \<times> string) list" where
  "pushed_types T t origin =
     (case ts_view T t of
        Function_pointer ret params \<Rightarrow> signature_types ret params origin
      | Pointer_to p \<Rightarrow> [(p, origin @ ''@ptr'')]
      | Array_of e \<Rightarrow> [(e, origin @ ''@array'')]
      | Record_of members \<Rightarrow> map (\<lambda>(name, f). (f, origin @ ''@'' @ name)) members
      | Other_type \<Rightarrow> [])"

subsection \<open>Walking the types\<close>

text \<open>Recording a function pointer: the preferred alias is for the seed itself.\<close>

definition record_callback ::
    "'t type_system \<Rightarrow> (string \<rightharpoonup> string) \<Rightarrow> string \<Rightarrow> string \<Rightarrow> 't \<Rightarrow> string \<Rightarrow> manifest_summary \<Rightarrow> manifest_summary" where
  "record_callback T aliases seedOrigin preferredAlias t origin s =
     (if is_function_pointer T t then
        addCallbackSignature (ts_string T t) origin
          (if preferredAlias \<noteq> [] \<and> origin = seedOrigin then preferredAlias
           else (case aliases (ts_string T t) of None \<Rightarrow> [] | Some a \<Rightarrow> a)) s
      else s)"

text \<open>
  The loop over the stack, whose top comes first here; \<open>None\<close> is a loop that does not end.
\<close>

partial_function (option) collect_loop ::
    "'t type_system \<Rightarrow> (string \<rightharpoonup> string) \<Rightarrow> string \<Rightarrow> string \<Rightarrow> ('t \<times> string) list \<Rightarrow> string list \<Rightarrow>
     manifest_summary \<Rightarrow> manifest_summary option" where
  "collect_loop T aliases seedOrigin preferredAlias stack visited s =
     (case stack of
        [] \<Rightarrow> Some s
      | (t, origin) # stack \<Rightarrow>
          (let t = ts_canonical T t; typeStr = ts_string T t in
           if typeStr \<in> set visited then collect_loop T aliases seedOrigin preferredAlias stack visited s
           else
             collect_loop T aliases seedOrigin preferredAlias
               (rev (pushed_types T t origin) @ stack) (oset_insert typeStr visited)
               (record_callback T aliases seedOrigin preferredAlias t origin s)))"

declare collect_loop.simps [code]

text \<open>The stack the walk starts with; without the seed it is the seed's signature.\<close>

definition initial_stack :: "'t type_system \<Rightarrow> 't \<Rightarrow> string \<Rightarrow> bool \<Rightarrow> ('t \<times> string) list" where
  "initial_stack T seedType seedOrigin includeSeed =
     (if includeSeed then [(seedType, seedOrigin)]
      else
        (let t = ts_canonical T seedType in
         case ts_view T t of
           Function_pointer ret params \<Rightarrow> rev (signature_types ret params seedOrigin)
         | _ \<Rightarrow> [(t, seedOrigin)]))"

definition collectCallbackSignatures ::
    "'t type_system \<Rightarrow> (string \<rightharpoonup> string) \<Rightarrow> 't \<Rightarrow> string \<Rightarrow> string \<Rightarrow> bool \<Rightarrow> manifest_summary \<Rightarrow> manifest_summary option" where
  "collectCallbackSignatures T aliases seedType seedOrigin preferredAlias includeSeed s =
     collect_loop T aliases seedOrigin preferredAlias (initial_stack T seedType seedOrigin includeSeed) [] s"

subsection \<open>The translation unit\<close>

text \<open>
  What the matchers report and the checks on the AST let through: descriptions of functions (with their
  overlay), descriptions of callbacks (the argument as a pointer, the alias from the name hint or the
  typedef, the overlay), named types of C declarations, and functions with C linkage (as a pointer type,
  with their location).
\<close>

datatype 't ast_item =
    Fn_desc string "'t option"
  | Cb_desc 't string "'t option"
  | Type_alias string 't
  | Function_item string 't string

record 't stat_consumer =
  sc_procFnDesc :: "(string \<times> 't option) list"
  sc_function :: "(string \<times> 't \<times> string) list"
  sc_functionPointerTypedef :: "(string \<times> 't) list"
  sc_namedCallbackAlias :: "(string \<times> string) list"
  sc_stat :: manifest_summary

definition consumer_init :: "string \<Rightarrow> 't stat_consumer" where
  "consumer_init fileName =
     \<lparr>sc_procFnDesc = [], sc_function = [], sc_functionPointerTypedef = [], sc_namedCallbackAlias = [],
      sc_stat = ms_clear\<lparr>ms_fileName := fileName\<rparr>\<rparr>"

text \<open>One walk on the consumer's summary, with the aliases known so far.\<close>

definition collect :: "'t type_system \<Rightarrow> 't \<Rightarrow> string \<Rightarrow> string \<Rightarrow> bool \<Rightarrow> 't stat_consumer \<Rightarrow> 't stat_consumer option" where
  "collect T t origin alias includeSeed c =
     map_option (\<lambda>s. c\<lparr>sc_stat := s\<rparr>)
       (collectCallbackSignatures T (map_of (sc_namedCallbackAlias c)) t origin alias includeSeed (sc_stat c))"

definition handleProcCbDesc :: "'t type_system \<Rightarrow> 't \<Rightarrow> string \<Rightarrow> 't option \<Rightarrow> 't stat_consumer \<Rightarrow> 't stat_consumer option" where
  "handleProcCbDesc T arg alias overlay c =
     (let t = ts_canonical T arg in
      if \<not> is_function_pointer T t then Some c
      else
        (let signature = ts_string T t in
         case collect T t (''ProcCbDesc<'' @ signature @ ''>'') alias True c of
           None \<Rightarrow> None
         | Some c \<Rightarrow>
             (case overlay of
                None \<Rightarrow> Some c
              | Some ov \<Rightarrow> collect T ov (''ProcCbDesc<'' @ ts_string T t @ ''>@overlay'') [] True c)))"

definition match_item :: "'t type_system \<Rightarrow> 't ast_item \<Rightarrow> 't stat_consumer \<Rightarrow> 't stat_consumer option" where
  "match_item T item c =
     (case item of
        Fn_desc name overlay \<Rightarrow> Some (c\<lparr>sc_procFnDesc := omap_set name overlay (sc_procFnDesc c)\<rparr>)
      | Cb_desc arg alias overlay \<Rightarrow> handleProcCbDesc T arg alias overlay c
      | Type_alias name underlying \<Rightarrow>
          (let t = ts_canonical T underlying in
           if \<not> is_function_pointer T t then Some c
           else Some (c\<lparr>sc_functionPointerTypedef := omap_set name t (sc_functionPointerTypedef c),
                        sc_namedCallbackAlias := omap_set (ts_string T t) name (sc_namedCallbackAlias c)\<rparr>))
      | Function_item name fpType location \<Rightarrow> Some (c\<lparr>sc_function := omap_set name (fpType, location) (sc_function c)\<rparr>))"

text \<open>A section of functions: the declared ones with their types' callbacks, the others as missing.\<close>

definition config_function :: "'t type_system \<Rightarrow> string \<Rightarrow> ProcDirection \<Rightarrow> string \<Rightarrow> 't stat_consumer \<Rightarrow> 't stat_consumer option" where
  "config_function T sectionName direction name c =
     (case map_of (sc_function c) name of
        None \<Rightarrow> Some (c\<lparr>sc_stat := addMissing direction name (sc_stat c)\<rparr>)
      | Some (fpType, location) \<Rightarrow>
          (let c = c\<lparr>sc_stat := addFunction direction name location (sc_stat c)\<rparr>;
               origin = ''Config['' @ sectionName @ '']:'' @ name
           in case collect T fpType origin [] False c of
                None \<Rightarrow> None
              | Some c \<Rightarrow>
                  (case map_of (sc_procFnDesc c) name of
                     Some (Some ov) \<Rightarrow> collect T ov (origin @ ''@overlay'') [] False c
                   | _ \<Rightarrow> Some c)))"

definition collectConfigFunctionSection ::
    "'t type_system \<Rightarrow> config \<Rightarrow> string \<Rightarrow> ProcDirection \<Rightarrow> 't stat_consumer \<Rightarrow> 't stat_consumer option" where
  "collectConfigFunctionSection T cfg sectionName direction c =
     (case cfg_get cfg sectionName of
        None \<Rightarrow> Some c
      | Some section \<Rightarrow> for_each (config_function T sectionName direction) (sec_keys section) c)"

text \<open>A token \<open>&f\<close> names the type of a function, any other a typedef.\<close>

definition config_callback :: "'t type_system \<Rightarrow> string \<Rightarrow> 't stat_consumer \<Rightarrow> 't stat_consumer option" where
  "config_callback T token c =
     (if token = [] then Some c
      else if hd token = CHR ''&'' then
        (let name = tl token in
         case map_of (sc_function c) name of
           None \<Rightarrow> Some c
         | Some (fpType, _) \<Rightarrow>
             (let alias = (case map_of (sc_namedCallbackAlias c) (ts_string T fpType) of
                             Some a \<Rightarrow> a | None \<Rightarrow> ''PFN_AUTO_'' @ name)
              in collect T fpType (''Config[Callback]:'' @ token) alias True c))
      else
        (case map_of (sc_functionPointerTypedef c) token of
           None \<Rightarrow> Some c
         | Some t \<Rightarrow> collect T t (''Config[Callback]:'' @ token) token True c))"

definition collectConfigCallbackSection :: "'t type_system \<Rightarrow> config \<Rightarrow> 't stat_consumer \<Rightarrow> 't stat_consumer option" where
  "collectConfigCallbackSection T cfg c =
     (case cfg_get cfg ''Callback'' of
        None \<Rightarrow> Some c
      | Some section \<Rightarrow> for_each (config_callback T) (sec_keys section) c)"

definition collectConfigSeeds :: "'t type_system \<Rightarrow> config \<Rightarrow> 't stat_consumer \<Rightarrow> 't stat_consumer option" where
  "collectConfigSeeds T cfg c =
     (case collectConfigFunctionSection T cfg ''Function'' GuestToHost c of
        None \<Rightarrow> None
      | Some c \<Rightarrow>
     (case collectConfigFunctionSection T cfg ''Guest Function'' HostToGuest c of
        None \<Rightarrow> None
      | Some c \<Rightarrow> collectConfigCallbackSection T cfg c))"

definition stat_translation_unit ::
    "'t type_system \<Rightarrow> config \<Rightarrow> string \<Rightarrow> 't ast_item list \<Rightarrow> manifest_summary option" where
  "stat_translation_unit T cfg fileName items =
     (case for_each (match_item T) items (consumer_init fileName) of
        None \<Rightarrow> None
      | Some c \<Rightarrow> map_option sc_stat (collectConfigSeeds T cfg c))"

subsection \<open>Reachable types\<close>

text \<open>
  A canonical type mentions the canonical forms of the types it is built from.
\<close>

definition mentions :: "'t type_system \<Rightarrow> 't \<Rightarrow> 't \<Rightarrow> bool" where
  "mentions T t u \<longleftrightarrow>
     (\<exists>v. u = ts_canonical T v \<and>
        (case ts_view T t of
           Function_pointer ret params \<Rightarrow> ret = Some v \<or> v \<in> set params
         | Pointer_to p \<Rightarrow> v = p
         | Array_of e \<Rightarrow> v = e
         | Record_of members \<Rightarrow> v \<in> snd ` set members
         | Other_type \<Rightarrow> False))"

text \<open>What the walk relies on from clang: a canonical type is determined by its text.\<close>

definition text_determines :: "'t type_system \<Rightarrow> bool" where
  "text_determines T \<longleftrightarrow>
     (\<forall>t u. ts_string T (ts_canonical T t) = ts_string T (ts_canonical T u) \<longrightarrow> ts_canonical T t = ts_canonical T u)"

lemma signature_types_set: "fst ` set (signature_types ret params origin) = set_option ret \<union> set params"
proof -
  have "fst ` set (map (\<lambda>i. (params ! i, origin @ ''@arg'' @ std_to_string (i + 1))) [0..<length params]) = set params"
    by (force simp: in_set_conv_nth)
  then show ?thesis by (cases ret) (simp_all add: signature_types_def image_Un)
qed

lemma pushed_mentions: "mentions T t u \<longleftrightarrow> u \<in> ts_canonical T ` fst ` set (pushed_types T t origin)"
  by (cases "ts_view T t") (auto simp: mentions_def pushed_types_def signature_types_set image_iff elim!: bexI [rotated])

definition callback_keys :: "manifest_summary \<Rightarrow> string set" where
  "callback_keys s = fst ` set (ms_callbacks s)"

text \<open>Only callbacks are added, and what an entry has is kept.\<close>

definition grows :: "manifest_summary \<Rightarrow> manifest_summary \<Rightarrow> bool" where
  "grows s s' \<longleftrightarrow> ms_ok s' \<and>
     ms_fileName s' = ms_fileName s \<and> ms_functions s' = ms_functions s \<and> ms_missing s' = ms_missing s \<and>
     (\<forall>k i. map_of (ms_callbacks s) k = Some i \<longrightarrow> (\<exists>i'. map_of (ms_callbacks s') k = Some i' \<and>
        (ci_alias i \<noteq> [] \<longrightarrow> ci_alias i' = ci_alias i) \<and> (ci_origin i \<noteq> [] \<longrightarrow> ci_origin i' = ci_origin i)))"

lemma grows_refl: "ms_ok s \<Longrightarrow> grows s s"
  by (simp add: grows_def)

lemma grows_ok: "grows s s' \<Longrightarrow> ms_ok s'"
  by (simp add: grows_def)

lemma grows_trans: "grows a b \<Longrightarrow> grows b c \<Longrightarrow> grows a c"
  unfolding grows_def by metis

lemma grows_add: "ms_ok s \<Longrightarrow> grows s (addCallbackSignature k origin al s)"
  using ms_ok_addCallback [of s k origin al]
  by (auto simp: grows_def addCallbackSignature_def map_of_update ms_ok_def Let_def)

lemma grows_keys: "grows s s' \<Longrightarrow> callback_keys s \<subseteq> callback_keys s'"
proof
  fix k assume "grows s s'" "k \<in> callback_keys s"
  moreover from this obtain i where "map_of (ms_callbacks s) k = Some i"
    by (cases "map_of (ms_callbacks s) k") (auto simp: callback_keys_def map_of_eq_None_iff)
  ultimately show "k \<in> callback_keys s'" unfolding grows_def callback_keys_def by (metis map_of_SomeD image_eqI fst_conv)
qed

lemma keys_add: "callback_keys (addCallbackSignature k origin alias s) = insert k (callback_keys s)"
  by (simp add: callback_keys_def addCallbackSignature_def omap_update_keys)

lemma record_callback_spec:
  assumes "ms_ok s"
  shows "grows s (record_callback T aliases so pa t origin s) \<and>
    callback_keys (record_callback T aliases so pa t origin s) =
      callback_keys s \<union> (if is_function_pointer T t then {ts_string T t} else {})"
  using assms by (auto simp: record_callback_def grows_add grows_refl keys_add)

definition pointer_texts :: "'t type_system \<Rightarrow> 't set \<Rightarrow> string set" where
  "pointer_texts T N = ts_string T ` {t \<in> N. is_function_pointer T t}"

lemma pointer_texts_Un: "pointer_texts T (M \<union> N) = pointer_texts T M \<union> pointer_texts T N"
  by (auto simp: pointer_texts_def)

lemma pointer_texts_insert:
  "pointer_texts T (insert t N) = pointer_texts T N \<union> (if is_function_pointer T t then {ts_string T t} else {})"
  by (auto simp: pointer_texts_def)

definition stack_types :: "'t type_system \<Rightarrow> ('t \<times> string) list \<Rightarrow> 't set" where
  "stack_types T stack = ts_canonical T ` fst ` set stack"

text \<open>
  The invariant: \<open>N\<close> are the types seen, all their mentions are seen or still on the stack; everything
  lives in a finite set \<open>F\<close> of canonical types.
\<close>

definition walk_inv :: "'t type_system \<Rightarrow> 't set \<Rightarrow> 't set \<Rightarrow> string list \<Rightarrow> ('t \<times> string) list \<Rightarrow> bool" where
  "walk_inv T F N visited stack \<longleftrightarrow>
     finite F \<and> N \<subseteq> F \<and> stack_types T stack \<subseteq> F \<and> F \<subseteq> range (ts_canonical T) \<and>
     set visited = ts_string T ` N \<and> (\<forall>n \<in> N. \<forall>u. mentions T n u \<longrightarrow> u \<in> N \<union> stack_types T stack) \<and>
     (\<forall>t \<in> F. \<forall>u. mentions T t u \<longrightarrow> u \<in> F)"

lemma walk_inv_seen:
  assumes "walk_inv T F N visited ((t, origin) # stack)" "text_determines T" "ts_string T (ts_canonical T t) \<in> set visited"
  shows "ts_canonical T t \<in> N \<and> walk_inv T F N visited stack"
proof -
  obtain n where n: "n \<in> N" "ts_string T n = ts_string T (ts_canonical T t)" using assms(1,3) by (auto simp: walk_inv_def)
  moreover obtain m where "n = ts_canonical T m" using n(1) assms(1) by (auto simp: walk_inv_def)
  ultimately have "ts_canonical T t \<in> N" using assms(2) by (metis text_determines_def)
  with assms(1) show ?thesis by (auto simp: walk_inv_def stack_types_def)
qed

lemma walk_inv_new:
  assumes "walk_inv T F N visited ((t, origin) # stack)"
  shows "walk_inv T F (insert (ts_canonical T t) N) (oset_insert (ts_string T (ts_canonical T t)) visited)
      (rev (pushed_types T (ts_canonical T t) origin) @ stack)"
proof -
  let ?c = "ts_canonical T t"
  have st: "stack_types T (rev (pushed_types T ?c origin) @ stack) = {u. mentions T ?c u} \<union> stack_types T stack"
    using pushed_mentions [of T ?c _ origin] by (auto simp: stack_types_def image_Un)
  have "?c \<in> F" "stack_types T stack \<subseteq> F" using assms by (auto simp: walk_inv_def stack_types_def)
  moreover have "\<forall>u. mentions T ?c u \<longrightarrow> u \<in> F" using assms \<open>?c \<in> F\<close> by (auto simp: walk_inv_def)
  moreover have "u \<in> insert ?c N \<union> ({u. mentions T ?c u} \<union> stack_types T stack)" if "n \<in> insert ?c N" "mentions T n u" for n u
    using assms that by (auto simp: walk_inv_def stack_types_def)
  ultimately show ?thesis using assms unfolding walk_inv_def st by auto
qed

lemma collect_loop_spec:
  assumes "text_determines T" "walk_inv T F N visited stack" "ms_ok s"
  shows "\<exists>N' s'. collect_loop T aliases so pa stack visited s = Some s' \<and>
    N \<union> stack_types T stack \<subseteq> N' \<and> (\<forall>n \<in> N'. \<forall>u. mentions T n u \<longrightarrow> u \<in> N') \<and>
    (\<forall>n \<in> N'. n \<in> N \<or> (\<exists>t \<in> stack_types T stack. (mentions T)\<^sup>*\<^sup>* t n)) \<and>
    grows s s' \<and> callback_keys s' \<union> pointer_texts T N = callback_keys s \<union> pointer_texts T N'"
  using assms(2,3)
proof (induction "card (F - N)" arbitrary: N visited stack s rule: less_induct)
  case less
  note outer = less.hyps
  from less.prems show ?case
  proof (induction stack)
    case Nil
    then have "\<forall>n \<in> N. \<forall>u. mentions T n u \<longrightarrow> u \<in> N" by (simp add: walk_inv_def stack_types_def)
    then show ?case using Nil by (intro exI [of _ N] exI [of _ s]) (simp add: collect_loop.simps stack_types_def grows_refl)
  next
    case (Cons e stack)
    obtain t origin where e: "e = (t, origin)" by fastforce
    let ?c = "ts_canonical T t"
    note inv = Cons.prems(1) [unfolded e]
    have sub: "stack_types T (e # stack) = insert ?c (stack_types T stack)" by (simp add: stack_types_def e)
    show ?case
    proof (cases "ts_string T ?c \<in> set visited")
      case True
      from walk_inv_seen [OF inv assms(1) True] have c: "?c \<in> N" and i: "walk_inv T F N visited stack" by simp_all
      from Cons.IH [OF i Cons.prems(2)] obtain N' s' where r: "collect_loop T aliases so pa stack visited s = Some s'"
        "N \<union> stack_types T stack \<subseteq> N'" "\<forall>n \<in> N'. \<forall>u. mentions T n u \<longrightarrow> u \<in> N'"
        "\<forall>n \<in> N'. n \<in> N \<or> (\<exists>t \<in> stack_types T stack. (mentions T)\<^sup>*\<^sup>* t n)"
        "grows s s'" "callback_keys s' \<union> pointer_texts T N = callback_keys s \<union> pointer_texts T N'" by blast
      have "collect_loop T aliases so pa (e # stack) visited s = Some s'"
        using r(1) True by (simp add: e collect_loop.simps [of _ _ _ _ "(t, origin) # stack"] Let_def)
      then show ?thesis using r c unfolding sub by (intro exI [of _ N'] exI [of _ s']) auto
    next
      case False
      let ?N = "insert ?c N" and ?v = "oset_insert (ts_string T ?c) visited"
        and ?st = "rev (pushed_types T ?c origin) @ stack" and ?s = "record_callback T aliases so pa ?c origin s"
      have new: "?c \<notin> N" "?c \<in> F" "finite F" using False inv by (auto simp: walk_inv_def stack_types_def)
      then have "card (F - ?N) < card (F - N)" by (intro psubset_card_mono) auto
      note rec = record_callback_spec [OF Cons.prems(2), of T aliases so pa ?c origin]
      from outer [OF \<open>card (F - ?N) < card (F - N)\<close> walk_inv_new [OF inv] grows_ok [OF conjunct1 [OF rec]]]
      obtain N' s' where r: "collect_loop T aliases so pa ?st ?v ?s = Some s'"
        "?N \<union> stack_types T ?st \<subseteq> N'" "\<forall>n \<in> N'. \<forall>u. mentions T n u \<longrightarrow> u \<in> N'"
        "\<forall>n \<in> N'. n \<in> ?N \<or> (\<exists>t \<in> stack_types T ?st. (mentions T)\<^sup>*\<^sup>* t n)"
        "grows ?s s'" "callback_keys s' \<union> pointer_texts T ?N = callback_keys ?s \<union> pointer_texts T N'" by blast
      have st: "stack_types T ?st = {u. mentions T ?c u} \<union> stack_types T stack"
        using pushed_mentions [of T ?c _ origin] by (auto simp: stack_types_def image_Un)
      have l: "collect_loop T aliases so pa (e # stack) visited s = Some s'"
        using r(1) False by (simp add: e collect_loop.simps [of _ _ _ _ "(t, origin) # stack"] Let_def)
      have reach: "n \<in> N \<or> (\<exists>t \<in> insert ?c (stack_types T stack). (mentions T)\<^sup>*\<^sup>* t n)" if "n \<in> N'" for n
      proof -
        from r(4) that consider "n = ?c" | "n \<in> N" | u where "mentions T ?c u" "(mentions T)\<^sup>*\<^sup>* u n"
          | u where "u \<in> stack_types T stack" "(mentions T)\<^sup>*\<^sup>* u n" unfolding st by blast
        then show ?thesis by cases (auto intro: converse_rtranclp_into_rtranclp)
      qed
      have "?c \<in> N'" using r(2) by simp
      then have "callback_keys ?s \<subseteq> callback_keys s' \<and> pointer_texts T ?N \<subseteq> pointer_texts T N'"
        using grows_keys [OF r(5)] r(2) by (auto simp: pointer_texts_def)
      then have keys: "callback_keys s' \<union> pointer_texts T N = callback_keys s \<union> pointer_texts T N'"
        using r(6) conjunct2 [OF rec] pointer_texts_insert [of T ?c N] by auto
      show ?thesis
        using l r(2,3) reach keys grows_trans [OF conjunct1 [OF rec] r(5)] unfolding sub st
        by (intro exI [of _ N'] exI [of _ s']) auto
    qed
  qed
qed

definition seed_types :: "'t type_system \<Rightarrow> 't \<Rightarrow> bool \<Rightarrow> 't set" where
  "seed_types T seedType includeSeed =
     (let c = ts_canonical T seedType
      in if includeSeed \<or> \<not> is_function_pointer T c then {c} else {u. mentions T c u})"

lemma initial_stack_types:
  assumes "\<forall>t. ts_canonical T (ts_canonical T t) = ts_canonical T t"
  shows "stack_types T (initial_stack T seedType so includeSeed) = seed_types T seedType includeSeed"
proof -
  let ?c = "ts_canonical T seedType"
  have "{u. mentions T ?c u} = stack_types T (rev (signature_types ret params so))" if "ts_view T ?c = Function_pointer ret params" for ret params
    using pushed_mentions [of T ?c _ so] that by (auto simp: stack_types_def pushed_types_def)
  then show ?thesis using assms
    by (cases "ts_view T ?c") (auto simp: initial_stack_def seed_types_def is_function_pointer_def stack_types_def Let_def)
qed

lemma seed_types_range: "seed_types T seedType includeSeed \<subseteq> range (ts_canonical T)"
  by (auto simp: seed_types_def mentions_def Let_def)

lemma collect_spec:
  assumes "text_determines T" and "\<forall>t. ts_canonical T (ts_canonical T t) = ts_canonical T t" and "ms_ok s"
    and "finite {u. \<exists>t \<in> seed_types T seedType includeSeed. (mentions T)\<^sup>*\<^sup>* t u}"
  shows "\<exists>s'. collectCallbackSignatures T aliases seedType seedOrigin preferredAlias includeSeed s = Some s' \<and>
    callback_keys s' = callback_keys s \<union>
      pointer_texts T {u. \<exists>t \<in> seed_types T seedType includeSeed. (mentions T)\<^sup>*\<^sup>* t u} \<and> grows s s'"
proof -
  let ?st = "initial_stack T seedType seedOrigin includeSeed"
  define R where "R = {u. \<exists>t \<in> seed_types T seedType includeSeed. (mentions T)\<^sup>*\<^sup>* t u}"
  note st = initial_stack_types [OF assms(2), of seedType seedOrigin includeSeed]
  have ran: "(mentions T)\<^sup>*\<^sup>* t u \<Longrightarrow> t \<in> range (ts_canonical T) \<Longrightarrow> u \<in> range (ts_canonical T)" for t u
    by (induction rule: rtranclp_induct) (auto simp: mentions_def)
  have R: "finite R" "R \<subseteq> range (ts_canonical T)" "seed_types T seedType includeSeed \<subseteq> R" "\<forall>t \<in> R. \<forall>u. mentions T t u \<longrightarrow> u \<in> R"
    using assms(4) ran seed_types_range [of T seedType includeSeed]
    by (auto simp: R_def intro: rtranclp.rtrancl_into_rtrancl)
  then have "walk_inv T R {} [] ?st" by (simp add: walk_inv_def st)
  from collect_loop_spec [OF assms(1) this assms(3), of aliases seedOrigin preferredAlias, unfolded st]
  obtain N s' where r: "collect_loop T aliases seedOrigin preferredAlias ?st [] s = Some s'"
    "seed_types T seedType includeSeed \<subseteq> N" "\<forall>n \<in> N. \<forall>u. mentions T n u \<longrightarrow> u \<in> N"
    "\<forall>n \<in> N. \<exists>t \<in> seed_types T seedType includeSeed. (mentions T)\<^sup>*\<^sup>* t n"
    "grows s s'" "callback_keys s' \<union> pointer_texts T {} = callback_keys s \<union> pointer_texts T N"
    by auto
  have "u \<in> N" if "(mentions T)\<^sup>*\<^sup>* t u" "t \<in> N" for t u using that r(3) by (induction rule: rtranclp_induct) auto
  then have "N = R" using r(2,4) unfolding R_def by blast
  moreover have "pointer_texts T {} = {}" by (simp add: pointer_texts_def)
  ultimately show ?thesis using r(1,5,6) unfolding R_def [symmetric] by (simp add: collectCallbackSignatures_def)
qed


subsection \<open>Configured functions\<close>

text \<open>Types as clang gives them: finitely many are reachable from each.\<close>

definition types_ok :: "'t type_system \<Rightarrow> bool" where
  "types_ok T \<longleftrightarrow> text_determines T \<and> (\<forall>t. ts_canonical T (ts_canonical T t) = ts_canonical T t) \<and>
     (\<forall>t. finite {u. (mentions T)\<^sup>*\<^sup>* t u})"

text \<open>A walk changes the callbacks only.\<close>

definition walked :: "'t stat_consumer \<Rightarrow> 't stat_consumer \<Rightarrow> bool" where
  "walked c c' \<longleftrightarrow> sc_procFnDesc c' = sc_procFnDesc c \<and> sc_function c' = sc_function c \<and>
     sc_functionPointerTypedef c' = sc_functionPointerTypedef c \<and> sc_namedCallbackAlias c' = sc_namedCallbackAlias c \<and>
     grows (sc_stat c) (sc_stat c')"

lemma walked_trans: "walked a b \<Longrightarrow> walked b c \<Longrightarrow> walked a c"
  by (auto simp: walked_def intro: grows_trans)

lemma walked_refl: "ms_ok (sc_stat c) \<Longrightarrow> walked c c"
  by (simp add: walked_def grows_refl)

lemma walked_ok: "walked c c' \<Longrightarrow> ms_ok (sc_stat c')"
  by (auto simp: walked_def dest: grows_ok)

lemma collect_walks:
  assumes "types_ok T" "ms_ok (sc_stat c)"
  shows "\<exists>c'. collect T t origin al inc c = Some c' \<and> walked c c'"
proof -
  let ?c = "ts_canonical T t"
  have "{u. \<exists>t \<in> seed_types T t inc. (mentions T)\<^sup>*\<^sup>* t u} \<subseteq> {u. (mentions T)\<^sup>*\<^sup>* ?c u}"
    by (auto simp: seed_types_def Let_def intro: converse_rtranclp_into_rtranclp)
  then have "finite {u. \<exists>t \<in> seed_types T t inc. (mentions T)\<^sup>*\<^sup>* t u}"
    using assms(1) finite_subset by (fastforce simp: types_ok_def)
  from collect_spec [OF _ _ assms(2) this] assms(1) show ?thesis
    by (fastforce simp: types_ok_def collect_def walked_def)
qed

lemma handleProcCbDesc_walks:
  assumes "types_ok T" "ms_ok (sc_stat c)"
  shows "\<exists>c'. handleProcCbDesc T arg al ov c = Some c' \<and> walked c c'"
proof (cases "is_function_pointer T (ts_canonical T arg)")
  case True
  let ?c = "ts_canonical T arg" and ?o = "''ProcCbDesc<'' @ ts_string T (ts_canonical T arg) @ ''>''"
  obtain c1 where c1: "collect T ?c ?o al True c = Some c1" "walked c c1" using collect_walks [OF assms] by blast
  show ?thesis
  proof (cases ov)
    case None
    then show ?thesis using True c1 by (simp add: handleProcCbDesc_def Let_def)
  next
    case (Some o')
    obtain c2 where "collect T o' (''ProcCbDesc<'' @ ts_string T ?c @ ''>@overlay'') [] True c1 = Some c2" "walked c1 c2"
      using collect_walks [OF assms(1) walked_ok [OF c1(2)]] by blast
    then show ?thesis using True c1 Some walked_trans [OF c1(2)] by (simp add: handleProcCbDesc_def Let_def)
  qed
qed (use assms in \<open>simp add: handleProcCbDesc_def walked_refl Let_def\<close>)

text \<open>The functions the translation unit declares, the last declaration of a name counting.\<close>

definition function_entry :: "'t ast_item \<Rightarrow> (string \<times> 't \<times> string) option" where
  "function_entry item = (case item of Function_item name fpType location \<Rightarrow> Some (name, fpType, location) | _ \<Rightarrow> None)"

definition declared :: "'t ast_item list \<Rightarrow> string \<Rightarrow> ('t \<times> string) option" where
  "declared items = map_of (rev (List.map_filter function_entry items))"

definition consumer_ok :: "'t stat_consumer \<Rightarrow> bool" where
  "consumer_ok c \<longleftrightarrow> ms_ok (sc_stat c) \<and> omap_ok (sc_function c)"

lemma match_item_step:
  assumes "types_ok T" "consumer_ok c"
  shows "\<exists>c'. match_item T item c = Some c' \<and> consumer_ok c' \<and>
    ms_functions (sc_stat c') = ms_functions (sc_stat c) \<and> ms_missing (sc_stat c') = ms_missing (sc_stat c) \<and>
    map_of (sc_function c') = map_of (sc_function c) ++ declared [item]"
proof (cases item)
  case (Cb_desc arg al ov)
  from handleProcCbDesc_walks [OF assms(1), of c arg al ov] assms(2)
  obtain c' where "handleProcCbDesc T arg al ov c = Some c'" "walked c c'" by (auto simp: consumer_ok_def)
  then show ?thesis using assms(2) Cb_desc walked_ok
    by (auto simp: match_item_def consumer_ok_def walked_def grows_def declared_def function_entry_def)
next
  case (Function_item name fp loc)
  then show ?thesis using assms(2)
    by (auto simp: match_item_def consumer_ok_def omap_set_ok map_of_set declared_def function_entry_def
        map_add_def fun_eq_iff)
qed (use assms(2) in \<open>auto simp: match_item_def consumer_ok_def declared_def function_entry_def Let_def\<close>)

lemma match_items:
  assumes "types_ok T" "consumer_ok c"
  shows "\<exists>c'. for_each (match_item T) items c = Some c' \<and> consumer_ok c' \<and>
    ms_functions (sc_stat c') = ms_functions (sc_stat c) \<and> ms_missing (sc_stat c') = ms_missing (sc_stat c) \<and>
    map_of (sc_function c') = map_of (sc_function c) ++ declared items"
  using assms(2)
proof (induction items arbitrary: c)
  case Nil
  then show ?case by (simp add: declared_def)
next
  case (Cons i items)
  obtain c1 where c1: "match_item T i c = Some c1" "consumer_ok c1" "ms_functions (sc_stat c1) = ms_functions (sc_stat c)"
    "ms_missing (sc_stat c1) = ms_missing (sc_stat c)" "map_of (sc_function c1) = map_of (sc_function c) ++ declared [i]"
    using match_item_step [OF assms(1) Cons.prems] by blast
  have d: "declared (i # items) = declared [i] ++ declared items"
    by (simp add: declared_def split: option.split)
  from Cons.IH [OF c1(2)] show ?case using c1 by (auto simp: d)
qed

lemma config_function_step:
  assumes "types_ok T" "ms_ok (sc_stat c)"
  shows "\<exists>c'. config_function T sec dir n c = Some c' \<and> ms_ok (sc_stat c') \<and> sc_function c' = sc_function c \<and>
    map_of (ms_functions (sc_stat c') dir) = (map_of (ms_functions (sc_stat c) dir)) (n := (case map_of (sc_function c) n of
        None \<Rightarrow> map_of (ms_functions (sc_stat c) dir) n | Some (_, loc) \<Rightarrow> Some loc)) \<and>
    set (ms_missing (sc_stat c') dir) = set (ms_missing (sc_stat c) dir) \<union> (if map_of (sc_function c) n = None then {n} else {}) \<and>
    (\<forall>d. d \<noteq> dir \<longrightarrow> ms_functions (sc_stat c') d = ms_functions (sc_stat c) d \<and> ms_missing (sc_stat c') d = ms_missing (sc_stat c) d)"
proof (cases "map_of (sc_function c) n")
  case None
  then show ?thesis using assms(2) by (simp add: config_function_def ms_ok_addMissing) (simp add: addMissing_def)
next
  case (Some p)
  obtain fp loc where p: "p = (fp, loc)" by fastforce
  let ?c = "c\<lparr>sc_stat := addFunction dir n loc (sc_stat c)\<rparr>"
  have ok: "ms_ok (sc_stat ?c)" using assms(2) by (simp add: ms_ok_addFunction)
  obtain c1 where c1: "collect T fp (''Config['' @ sec @ '']:'' @ n) [] False ?c = Some c1" "walked ?c c1"
    using collect_walks [OF assms(1) ok] by blast
  have "\<exists>c2. config_function T sec dir n c = Some c2 \<and> walked ?c c2"
  proof (cases "map_of (sc_procFnDesc c) n")
    case None
    with c1 show ?thesis by (simp add: config_function_def Some p Let_def walked_def)
  next
    case (Some q)
    show ?thesis
    proof (cases q)
      case None
      with Some c1 show ?thesis using \<open>map_of (sc_function c) n = Some p\<close> by (simp add: config_function_def p Let_def walked_def)
    next
      case (Some ov)
      obtain c2 where "collect T ov ((''Config['' @ sec @ '']:'' @ n) @ ''@overlay'') [] False c1 = Some c2" "walked c1 c2"
        using collect_walks [OF assms(1) walked_ok [OF c1(2)]] by blast
      then show ?thesis using c1 walked_trans [OF c1(2)] \<open>map_of (sc_function c) n = Some p\<close> \<open>map_of (sc_procFnDesc c) n = Some q\<close> Some
        by (simp add: config_function_def p Let_def) (simp add: walked_def)
    qed
  qed
  then obtain c2 where c2: "config_function T sec dir n c = Some c2" "walked ?c c2" by blast
  have f: "map_of (omap_set n loc (ms_functions (sc_stat c) dir)) = (map_of (ms_functions (sc_stat c) dir))(n \<mapsto> loc)"
    using assms(2) by (simp add: ms_ok_def map_of_set)
  show ?thesis
    using c2 Some p f walked_ok [OF c2(2)] by (auto simp: walked_def grows_def addFunction_def)
qed

lemma config_functions_step:
  assumes "types_ok T" "ms_ok (sc_stat c)"
  shows "\<exists>c'. for_each (config_function T sec dir) ns c = Some c' \<and> ms_ok (sc_stat c') \<and> sc_function c' = sc_function c \<and>
    (\<forall>n. map_of (ms_functions (sc_stat c') dir) n = (if n \<in> set ns \<and> map_of (sc_function c) n \<noteq> None
        then map_option snd (map_of (sc_function c) n) else map_of (ms_functions (sc_stat c) dir) n)) \<and>
    set (ms_missing (sc_stat c') dir) = set (ms_missing (sc_stat c) dir) \<union> {n \<in> set ns. map_of (sc_function c) n = None} \<and>
    (\<forall>d. d \<noteq> dir \<longrightarrow> ms_functions (sc_stat c') d = ms_functions (sc_stat c) d \<and> ms_missing (sc_stat c') d = ms_missing (sc_stat c) d)"
  using assms(2)
proof (induction ns arbitrary: c)
  case (Cons n ns)
  obtain c1 where c1: "config_function T sec dir n c = Some c1" "ms_ok (sc_stat c1)" "sc_function c1 = sc_function c"
    "map_of (ms_functions (sc_stat c1) dir) = (map_of (ms_functions (sc_stat c) dir)) (n := (case map_of (sc_function c) n of
        None \<Rightarrow> map_of (ms_functions (sc_stat c) dir) n | Some (_, loc) \<Rightarrow> Some loc))"
    "set (ms_missing (sc_stat c1) dir) = set (ms_missing (sc_stat c) dir) \<union> (if map_of (sc_function c) n = None then {n} else {})"
    "\<forall>d. d \<noteq> dir \<longrightarrow> ms_functions (sc_stat c1) d = ms_functions (sc_stat c) d \<and> ms_missing (sc_stat c1) d = ms_missing (sc_stat c) d"
    using config_function_step [OF assms(1) Cons.prems] by blast
  from Cons.IH [OF c1(2)] obtain c2 where c2: "for_each (config_function T sec dir) ns c1 = Some c2" "ms_ok (sc_stat c2)"
    "sc_function c2 = sc_function c"
    "\<forall>m. map_of (ms_functions (sc_stat c2) dir) m = (if m \<in> set ns \<and> map_of (sc_function c) m \<noteq> None
        then map_option snd (map_of (sc_function c) m) else map_of (ms_functions (sc_stat c1) dir) m)"
    "set (ms_missing (sc_stat c2) dir) = set (ms_missing (sc_stat c1) dir) \<union> {n \<in> set ns. map_of (sc_function c) n = None}"
    "\<forall>d. d \<noteq> dir \<longrightarrow> ms_functions (sc_stat c2) d = ms_functions (sc_stat c1) d \<and> ms_missing (sc_stat c2) d = ms_missing (sc_stat c1) d"
    unfolding c1(3) by blast
  have "map_of (ms_functions (sc_stat c2) dir) m = (if m \<in> set (n # ns) \<and> map_of (sc_function c) m \<noteq> None
        then map_option snd (map_of (sc_function c) m) else map_of (ms_functions (sc_stat c) dir) m)" for m
    using c2(4) c1(4) by (auto split: option.splits prod.splits)
  then show ?case using c1(1,5,6) c2(1,2,3,5,6) by auto
qed simp

definition section_keys :: "config \<Rightarrow> string \<Rightarrow> string list" where
  "section_keys cfg sectionName = (case cfg_get cfg sectionName of None \<Rightarrow> [] | Some section \<Rightarrow> sec_keys section)"

lemma function_section:
  "collectConfigFunctionSection T cfg sec dir c = for_each (config_function T sec dir) (section_keys cfg sec) c"
  by (simp add: collectConfigFunctionSection_def section_keys_def split: option.split)

lemma config_callback_walks:
  assumes "types_ok T" "ms_ok (sc_stat c)"
  shows "\<exists>c'. config_callback T token c = Some c' \<and> walked c c'"
  using collect_walks [OF assms] walked_refl [OF assms(2)]
  by (auto simp: config_callback_def Let_def split: option.split)

lemma callback_section_walks:
  assumes "types_ok T" "ms_ok (sc_stat c)"
  shows "\<exists>c'. collectConfigCallbackSection T cfg c = Some c' \<and> walked c c'"
proof -
  have "\<exists>c'. for_each (config_callback T) ts c = Some c' \<and> walked c c'" for ts
    using assms(2)
  proof (induction ts arbitrary: c)
    case Nil
    then show ?case by (simp add: walked_refl)
  next
    case (Cons x ts)
    obtain c1 where c1: "config_callback T x c = Some c1" "walked c c1" using config_callback_walks [OF assms(1) Cons.prems] by blast
    from Cons.IH [OF walked_ok [OF c1(2)]] c1 walked_trans [OF c1(2)] show ?case by auto
  qed
  then show ?thesis using walked_refl [OF assms(2)] by (auto simp: collectConfigCallbackSection_def split: option.split)
qed

text \<open>What a section of functions does to a summary.\<close>

definition section_done :: "ProcDirection \<Rightarrow> string list \<Rightarrow> (string \<Rightarrow> ('t \<times> string) option) \<Rightarrow> manifest_summary \<Rightarrow> manifest_summary \<Rightarrow> bool" where
  "section_done dir ns decl s s' \<longleftrightarrow> ms_ok s' \<and>
     (\<forall>n. map_of (ms_functions s' dir) n = (if n \<in> set ns \<and> decl n \<noteq> None then map_option snd (decl n) else map_of (ms_functions s dir) n)) \<and>
     set (ms_missing s' dir) = set (ms_missing s dir) \<union> {n \<in> set ns. decl n = None} \<and>
     (\<forall>d. d \<noteq> dir \<longrightarrow> ms_functions s' d = ms_functions s d \<and> ms_missing s' d = ms_missing s d)"

lemma function_section_done:
  assumes "types_ok T" "ms_ok (sc_stat c)" "map_of (sc_function c) = decl"
  shows "\<exists>c'. collectConfigFunctionSection T cfg sec dir c = Some c' \<and> map_of (sc_function c') = decl \<and>
    section_done dir (section_keys cfg sec) decl (sc_stat c) (sc_stat c')"
proof -
  from config_functions_step [OF assms(1,2), of sec dir "section_keys cfg sec", unfolded assms(3)]
  obtain c' where r: "for_each (config_function T sec dir) (section_keys cfg sec) c = Some c'" "sc_function c' = sc_function c"
    "section_done dir (section_keys cfg sec) decl (sc_stat c) (sc_stat c')"
    unfolding section_done_def by blast
  then show ?thesis using assms(3) by (simp add: function_section)
qed

lemma section_done_twice:
  assumes "section_done GuestToHost ns decl s s1" "section_done HostToGuest ms decl s1 s2"
    and "\<forall>d. ms_functions s d = [] \<and> ms_missing s d = []"
  shows "ms_ok s2 \<and>
    (\<forall>n. map_of (ms_functions s2 GuestToHost) n = (if n \<in> set ns then map_option snd (decl n) else None)) \<and>
    set (ms_missing s2 GuestToHost) = {n \<in> set ns. decl n = None} \<and>
    (\<forall>n. map_of (ms_functions s2 HostToGuest) n = (if n \<in> set ms then map_option snd (decl n) else None)) \<and>
    set (ms_missing s2 HostToGuest) = {n \<in> set ms. decl n = None}"
  using assms unfolding section_done_def by (simp del: not_None_eq split_paired_All split_paired_Ex)

lemma consumer_init_ok: "consumer_ok (consumer_init fileName)"
  using ms_ok_clear by (simp add: consumer_ok_def consumer_init_def ms_ok_def)
lemma consumer_init_empty:
  "ms_functions (sc_stat (consumer_init fileName)) d = []" "ms_missing (sc_stat (consumer_init fileName)) d = []"
  "sc_function (consumer_init fileName) = []"
  by (simp_all add: consumer_init_def ms_clear_def)

lemma match_phase:
  fixes T :: "'t type_system"
  assumes "types_ok T"
  shows "\<exists>c1. for_each (match_item T) items (consumer_init fileName) = Some c1 \<and> ms_ok (sc_stat c1) \<and>
    (\<forall>d. ms_functions (sc_stat c1) d = [] \<and> ms_missing (sc_stat c1) d = []) \<and> map_of (sc_function c1) = declared items"
proof -
  define c0 :: "'t stat_consumer" where "c0 = consumer_init fileName"
  have ok: "consumer_ok c0" by (simp add: c0_def consumer_init_ok)
  have e: "ms_functions (sc_stat c0) d = []" "ms_missing (sc_stat c0) d = []" "sc_function c0 = []" for d
    by (simp_all add: c0_def consumer_init_empty)
  from match_items [OF assms ok, of items] obtain c1 where "for_each (match_item T) items c0 = Some c1" "consumer_ok c1"
    "ms_functions (sc_stat c1) = ms_functions (sc_stat c0)" "ms_missing (sc_stat c1) = ms_missing (sc_stat c0)"
    "map_of (sc_function c1) = map_of (sc_function c0) ++ declared items" by blast
  then show ?thesis unfolding c0_def [symmetric] by (intro exI [of _ c1]) (simp add: e consumer_ok_def)
qed

lemma config_phase:
  assumes "types_ok T" "ms_ok (sc_stat c1)" "map_of (sc_function c1) = decl"
    and "\<forall>d. ms_functions (sc_stat c1) d = [] \<and> ms_missing (sc_stat c1) d = []"
  shows "\<exists>c4. collectConfigSeeds T cfg c1 = Some c4 \<and> ms_ok (sc_stat c4) \<and>
    (\<forall>n. map_of (ms_functions (sc_stat c4) GuestToHost) n = (if n \<in> set (section_keys cfg ''Function'') then map_option snd (decl n) else None)) \<and>
    set (ms_missing (sc_stat c4) GuestToHost) = {n \<in> set (section_keys cfg ''Function''). decl n = None} \<and>
    (\<forall>n. map_of (ms_functions (sc_stat c4) HostToGuest) n = (if n \<in> set (section_keys cfg ''Guest Function'') then map_option snd (decl n) else None)) \<and>
    set (ms_missing (sc_stat c4) HostToGuest) = {n \<in> set (section_keys cfg ''Guest Function''). decl n = None}"
proof -
  from function_section_done [OF assms(1-3), of cfg "''Function''" GuestToHost] obtain c2 where
    c2: "collectConfigFunctionSection T cfg ''Function'' GuestToHost c1 = Some c2" "map_of (sc_function c2) = decl"
    "section_done GuestToHost (section_keys cfg ''Function'') decl (sc_stat c1) (sc_stat c2)" by blast
  have ok2: "ms_ok (sc_stat c2)" using c2(3) by (simp add: section_done_def)
  from function_section_done [OF assms(1) ok2 c2(2), of cfg "''Guest Function''" HostToGuest] obtain c3 where
    c3: "collectConfigFunctionSection T cfg ''Guest Function'' HostToGuest c2 = Some c3"
    "section_done HostToGuest (section_keys cfg ''Guest Function'') decl (sc_stat c2) (sc_stat c3)" by blast
  note both = section_done_twice [OF c2(3) c3(2) assms(4)]
  from callback_section_walks [OF assms(1) conjunct1 [OF both], of cfg] obtain c4 where
    c4: "collectConfigCallbackSection T cfg c3 = Some c4" "walked c3 c4" by blast
  have s: "collectConfigSeeds T cfg c1 = Some c4"
    unfolding collectConfigSeeds_def c2(1) option.case c3(1) by (rule c4(1))
  have m: "ms_functions (sc_stat c4) = ms_functions (sc_stat c3)" "ms_missing (sc_stat c4) = ms_missing (sc_stat c3)"
    using c4(2) by (simp_all add: walked_def grows_def)
  show ?thesis using both walked_ok [OF c4(2)] s unfolding m [symmetric] by blast
qed

text \<open>
  \<open>stat\<close> always ends, and splits the configured functions of each direction: those the translation
  unit declares are listed with the location of their last declaration, the others are exactly the
  missing ones.
\<close>

theorem stat_partitions_functions:
  assumes "types_ok T"
  shows "\<exists>s. stat_translation_unit T cfg fileName items = Some s \<and> ms_ok s \<and>
    (\<forall>(sec, dir) \<in> {(''Function'', GuestToHost), (''Guest Function'', HostToGuest)}.
       (\<forall>n. map_of (ms_functions s dir) n =
          (if n \<in> set (section_keys cfg sec) then map_option snd (declared items n) else None)) \<and>
       set (ms_missing s dir) = {n \<in> set (section_keys cfg sec). declared items n = None})"
proof -
  obtain c1 where c1: "for_each (match_item T) items (consumer_init fileName) = Some c1" "ms_ok (sc_stat c1)"
    "\<forall>d. ms_functions (sc_stat c1) d = [] \<and> ms_missing (sc_stat c1) d = []" "map_of (sc_function c1) = declared items"
    using match_phase [OF assms, of items fileName] by blast
  from config_phase [OF assms c1(2,4,3), of cfg] obtain c4 where c4: "collectConfigSeeds T cfg c1 = Some c4"
    and r: "ms_ok (sc_stat c4) \<and>
      (\<forall>n. map_of (ms_functions (sc_stat c4) GuestToHost) n = (if n \<in> set (section_keys cfg ''Function'') then map_option snd (declared items n) else None)) \<and>
      set (ms_missing (sc_stat c4) GuestToHost) = {n \<in> set (section_keys cfg ''Function''). declared items n = None} \<and>
      (\<forall>n. map_of (ms_functions (sc_stat c4) HostToGuest) n = (if n \<in> set (section_keys cfg ''Guest Function'') then map_option snd (declared items n) else None)) \<and>
      set (ms_missing (sc_stat c4) HostToGuest) = {n \<in> set (section_keys cfg ''Guest Function''). declared items n = None}" by blast
  have "stat_translation_unit T cfg fileName items = Some (sc_stat c4)" unfolding stat_translation_unit_def c1(1) by (simp add: c4)
  then show ?thesis using r by blast
qed

text \<open>A recursive record type, seen through a function that takes a callback on it.\<close>

definition demo_types :: "nat type_system" where
  "demo_types = \<lparr>ts_canonical = min 5,
     ts_string = (\<lambda>t. [''int'', ''struct node'', ''struct node *'', ''int (*)(struct node *)'', ''void (*)(cb)'', ''?''] ! t),
     ts_view = (\<lambda>t. [Other_type, Record_of [(''next'', 2), (''visit'', 3)], Pointer_to 1, Function_pointer (Some 0) [2],
                   Function_pointer None [3], Other_type] ! t)\<rparr>"

lemma demo_canonical: "ts_canonical demo_types = min 5"
  by (simp add: demo_types_def)

lemma demo_texts_distinct: "inj_on (ts_string demo_types) {..<6}"
proof -
  have "distinct (map (ts_string demo_types) [0..<6])" by code_simp
  then show ?thesis by (simp only: distinct_map set_upt lessThan_atLeast0)
qed

lemma demo_types_ok: "types_ok demo_types"
proof -
  have small: "min 5 t \<in> {..<6}" for t :: nat by simp
  have "text_determines demo_types"
    unfolding text_determines_def demo_canonical
    by (intro allI impI) (rule inj_onD [OF demo_texts_distinct _ small small])
  moreover have "finite {u. (mentions demo_types)\<^sup>*\<^sup>* t u}" for t
  proof -
    have m: "u \<in> {..<6}" if "mentions demo_types t u" for t u
    proof -
      from that have "\<exists>v. u = ts_canonical demo_types v" unfolding mentions_def by (elim exE conjE) (rule exI)
      then obtain v where "u = min 5 v" unfolding demo_canonical ..
      then show ?thesis using small [of v] by (simp only:)
    qed
    have "u \<in> insert t {..<6}" if "(mentions demo_types)\<^sup>*\<^sup>* t u" for u
      using that
    proof (induction rule: rtranclp_induct)
      case base
      show ?case by simp
    next
      case (step y z)
      show ?case by (rule insertI2) (rule m [OF step.hyps(2)])
    qed
    then have "{u. (mentions demo_types)\<^sup>*\<^sup>* t u} \<subseteq> insert t {..<6}" by (intro subsetI) (simp only: mem_Collect_eq)
    then show ?thesis by (rule finite_subset) (intro finite.insertI finite_lessThan)
  qed
  ultimately show ?thesis unfolding types_ok_def demo_canonical by simp
qed


definition demo_config :: config where
  "demo_config = \<lparr>m_sections = [addKeyValue ''g'' [] (addKeyValue ''f'' [] (new_section ''Function''))],
     m_sectionIndex = [''Function'' \<mapsto> 0], m_currentSectionIndex = 0, m_baseDirStack = []\<rparr>"

theorem stat_partitions_functions_witness:
  "\<exists>s. stat_translation_unit demo_types demo_config ''m.cpp'' [Function_item ''f'' 4 ''h:1''] = Some s \<and>
     map_of (ms_functions s GuestToHost) ''f'' = Some ''h:1'' \<and> set (ms_missing s GuestToHost) = {''g''}"
proof -
  have k: "section_keys demo_config ''Function'' = [''f'', ''g'']" by code_simp
  have "declared [Function_item ''f'' (4::nat) ''h:1''] n = (if n = ''f'' then Some (4, ''h:1'') else None)" for n
    by (simp add: declared_def function_entry_def)
  then show ?thesis
    using stat_partitions_functions [OF demo_types_ok, of demo_config "''m.cpp''" "[Function_item ''f'' 4 ''h:1'']"]
    by (auto simp: k split: if_splits)
qed

end
