(* ===== verification/Source_Text.thy ===== *)
theory Source_Text
  imports String_Extras Proc_Defs Ordered_Map "HOL-Library.Monad_Syntax"
begin

text \<open>
  The pieces of generated source text: line lists (\<open>lorelei/ClangExtras/SourceLineList.h\<close>), the spelling
  of types (\<open>src/libs/ClangExtras/TypeUtils.cpp\<close>), function signatures (\<open>FunctionTypeView.h\<close>,
  \<open>FunctionInfo.h\<close>, \<open>FunctionInfo.cpp\<close>) and the statement templates of the passes
  (\<open>src/tools/TLC/Utils/PassCodeTemplates.h\<close>). Clang is a parameter; \<open>None\<close> is the null type, and a
  result \<open>None\<close> is a null type that is dereferenced.
\<close>

subsection \<open>Line lists\<close>

record Line =
  ln_id :: string
  ln_text :: string

type_synonym SourceLineList = "Line list"

definition line_push_back :: "string \<Rightarrow> string \<Rightarrow> SourceLineList \<Rightarrow> SourceLineList" where
  "line_push_back lineId txt lines = (if txt = [] then lines else lines @ [\<lparr>ln_id = lineId, ln_text = txt\<rparr>])"

definition line_push_front :: "string \<Rightarrow> string \<Rightarrow> SourceLineList \<Rightarrow> SourceLineList" where
  "line_push_front lineId txt lines = (if txt = [] then lines else \<lparr>ln_id = lineId, ln_text = txt\<rparr> # lines)"

definition raw_line :: "Line \<Rightarrow> string \<Rightarrow> string" where
  "raw_line line result =
     (let result = result @ ln_text line in
      if ln_text line \<noteq> [] \<and> List.last (ln_text line) \<noteq> CHR 0x0A then result @ [CHR 0x0A] else result)"

definition toRawText :: "SourceLineList \<Rightarrow> string" where
  "toRawText lines = fold raw_line lines []"

subsection \<open>Types\<close>

text \<open>
  What the code asks of a type, seen through typedefs: its shape with the component types as written,
  its spelling, its canonical form, the pointer to it. A typedef has a name, may be the target's builtin
  \<open>va_list\<close>, and has an underlying type; a parameter's adjusted type has an original; a class has
  its declaration. The depth bounds the pointers and arrays on the outside.
\<close>

datatype 't type_shape =
    Void_ty
  | Char_ty
  | Pointer_ty 't
  | Array_ty 't
  | Proto_ty 't "'t list" bool
  | NoProto_ty 't
  | Record_ty "(string \<times> 't) list"
  | Union_ty "(string \<times> 't) list"
  | Other_ty

text \<open>A declared function: its name, type, result, parameters (type, name), and its format attribute.\<close>

record 't FunctionDecl =
  fd_name :: string
  fd_type :: 't
  fd_returnType :: 't
  fd_params :: "('t \<times> string) list"
  fd_variadic :: bool
  fd_format :: "(string \<times> nat \<times> nat) option"

text \<open>
  A template argument: a type, an integral value, a declaration or an expression (the function it
  names, if it does), something else. A class has a name, static data members with the value of their
  initializer (their own or their template's) where it evaluates, and arguments if it is a specialization.
\<close>

datatype 't template_arg =
    Type_arg 't
  | Integral_arg int
  | Decl_arg "'t FunctionDecl option"
  | Expr_arg "'t FunctionDecl option"
  | Other_arg

record 't record_decl =
  rd_name :: string
  rd_statics :: "(string \<times> int option) list"
  rd_args :: "'t template_arg list option"

record 't clang_types =
  cl_canonical :: "'t \<Rightarrow> 't"
  cl_asString :: "'t \<Rightarrow> string"
  cl_shape :: "'t \<Rightarrow> 't type_shape"
  cl_pointer :: "'t \<Rightarrow> 't"
  cl_void :: 't
  cl_depth :: "'t \<Rightarrow> nat"
  cl_original :: "'t \<Rightarrow> 't option"
  cl_typedef :: "'t \<Rightarrow> (string \<times> bool \<times> 't) option"
  cl_record :: "'t \<Rightarrow> 't record_decl option"

definition isVoidType :: "'t clang_types \<Rightarrow> 't \<Rightarrow> bool" where
  "isVoidType C t = (case cl_shape C t of Void_ty \<Rightarrow> True | _ \<Rightarrow> False)"

definition isPointerType :: "'t clang_types \<Rightarrow> 't \<Rightarrow> bool" where
  "isPointerType C t = (case cl_shape C t of Pointer_ty _ \<Rightarrow> True | _ \<Rightarrow> False)"

definition isArrayType :: "'t clang_types \<Rightarrow> 't \<Rightarrow> bool" where
  "isArrayType C t = (case cl_shape C t of Array_ty _ \<Rightarrow> True | _ \<Rightarrow> False)"

definition isFunctionType :: "'t clang_types \<Rightarrow> 't \<Rightarrow> bool" where
  "isFunctionType C t = (case cl_shape C t of Proto_ty _ _ _ \<Rightarrow> True | NoProto_ty _ \<Rightarrow> True | _ \<Rightarrow> False)"

definition isFunctionPointerType :: "'t clang_types \<Rightarrow> 't \<Rightarrow> bool" where
  "isFunctionPointerType C t = (case cl_shape C t of Pointer_ty p \<Rightarrow> isFunctionType C p | _ \<Rightarrow> False)"

definition isCharPointerType :: "'t clang_types \<Rightarrow> 't \<Rightarrow> bool" where
  "isCharPointerType C t =
     (case cl_shape C t of Pointer_ty p \<Rightarrow> (case cl_shape C p of Char_ty \<Rightarrow> True | _ \<Rightarrow> False) | _ \<Rightarrow> False)"

definition getTypeString :: "'t clang_types \<Rightarrow> 't \<Rightarrow> string" where
  "getTypeString C t =
     (let res = cl_asString C t;
          res = replace res ''struct __va_list_tag[1]'' ''va_list'';
          res = replace res ''struct __va_list_tag *'' ''va_list'';
          res = replace res ''struct std::__va_list'' ''va_list'';
          res = replace res ''struct __va_list'' ''va_list''
      in res)"

text \<open>The pointers on the outside are peeled; the depth bounds how many there are.\<close>

fun compound_loop :: "'t clang_types \<Rightarrow> nat \<Rightarrow> 't \<Rightarrow> bool" where
  "compound_loop C n t =
     (case cl_shape C t of
        Pointer_ty p \<Rightarrow> (case n of 0 \<Rightarrow> False | Suc n \<Rightarrow> compound_loop C n p)
      | _ \<Rightarrow> isArrayType C t \<or> isFunctionType C t)"

declare compound_loop.simps [simp del]

definition isCompound :: "'t clang_types \<Rightarrow> 't \<Rightarrow> bool" where
  "isCompound C t = compound_loop C (cl_depth C t) t"

definition getTypeStringDecompound :: "'t clang_types \<Rightarrow> 't \<Rightarrow> string" where
  "getTypeStringDecompound C t =
     (if isCompound C t then ''__typeof__('' @ getTypeString C t @ '')'' else getTypeString C t)"

definition getTypeStringWithName :: "'t clang_types \<Rightarrow> 't \<Rightarrow> string \<Rightarrow> string" where
  "getTypeStringWithName C t name =
     (let typeStr = getTypeStringDecompound C t;
          typeStr = (if \<not> ends_with typeStr ''*'' then typeStr @ '' '' else typeStr)
      in typeStr @ name)"

text \<open>The typedef chain ends for every type; a chain that does not would not let the loop return.\<close>

partial_function (option) va_list_loop :: "'t clang_types \<Rightarrow> 't \<Rightarrow> bool option" where
  "va_list_loop C t =
     (case cl_typedef C t of
        None \<Rightarrow> Some False
      | Some (name, builtin, underlying) \<Rightarrow>
          if builtin then Some True
          else if name \<in> {''va_list'', ''__builtin_va_list'', ''__gnuc_va_list'', ''__va_list''} then Some True
          else va_list_loop C underlying)"

definition isVaListType :: "'t clang_types \<Rightarrow> 't \<Rightarrow> bool option" where
  "isVaListType C t = va_list_loop C (case cl_original C t of Some t' \<Rightarrow> t' | None \<Rightarrow> t)"

subsection \<open>Signatures\<close>

record 't FunctionTypeView =
  fv_returnType :: "'t option"
  fv_argTypes :: "'t list"
  fv_variadic :: bool

definition empty_view :: "'t FunctionTypeView" where
  "empty_view = \<lparr>fv_returnType = None, fv_argTypes = [], fv_variadic = False\<rparr>"

text \<open>A type that is neither a function nor a pointer to one fails the assertion; without it the view stays empty.\<close>

definition functionTypeView :: "'t clang_types \<Rightarrow> 't \<Rightarrow> 't FunctionTypeView" where
  "functionTypeView C t =
     (let t = cl_canonical C t;
          t = (case cl_shape C t of Pointer_ty p \<Rightarrow> if isFunctionType C p then p else t | _ \<Rightarrow> t)
      in case cl_shape C t of
           Proto_ty ret params variadic \<Rightarrow> \<lparr>fv_returnType = Some ret, fv_argTypes = params, fv_variadic = variadic\<rparr>
         | NoProto_ty ret \<Rightarrow> \<lparr>fv_returnType = Some ret, fv_argTypes = [], fv_variadic = False\<rparr>
         | _ \<Rightarrow> empty_view)"

record 't FunctionInfo =
  fi_returnType :: "'t option"
  fi_args :: "('t option \<times> string) list"
  fi_metaArgTypes :: "(string \<times> string) list"
  fi_metaRetType :: string
  fi_variadic :: bool

definition empty_info :: "'t FunctionInfo" where
  "empty_info = \<lparr>fi_returnType = None, fi_args = [], fi_metaArgTypes = [], fi_metaRetType = [], fi_variadic = False\<rparr>"

definition info_of_decl :: "'t FunctionDecl \<Rightarrow> 't FunctionInfo" where
  "info_of_decl fd = empty_info\<lparr>fi_returnType := Some (fd_returnType fd),
     fi_args := map (\<lambda>(t, name). (Some t, name)) (fd_params fd), fi_variadic := fd_variadic fd\<rparr>"

definition info_of_view :: "'t FunctionTypeView \<Rightarrow> 't FunctionInfo" where
  "info_of_view view = empty_info\<lparr>fi_returnType := fv_returnType view,
     fi_args := map (\<lambda>i. (Some (fv_argTypes view ! i), ''arg'' @ std_to_string (i + 1))) [0..<length (fv_argTypes view)],
     fi_variadic := fv_variadic view\<rparr>"

definition info_explicit :: "'t option \<Rightarrow> ('t option \<times> string) list \<Rightarrow> bool \<Rightarrow> 't FunctionInfo" where
  "info_explicit ret args variadic = empty_info\<lparr>fi_returnType := ret, fi_args := args, fi_variadic := variadic\<rparr>"

text \<open>The name of the \<open>i\<close>-th argument; an index behind the end (or a wrapped one) is undefined.\<close>

definition argumentName :: "'t FunctionInfo \<Rightarrow> int \<Rightarrow> string option" where
  "argumentName info i =
     (if 0 \<le> i \<and> nat i < length (fi_args info) then Some (snd (fi_args info ! nat i)) else None)"

definition metaArgumentType :: "'t FunctionInfo \<Rightarrow> string \<Rightarrow> string" where
  "metaArgumentType info name = (case map_of (fi_metaArgTypes info) name of None \<Rightarrow> [] | Some s \<Rightarrow> s)"

definition getArgDecl :: "'t clang_types \<Rightarrow> 't FunctionInfo \<Rightarrow> 't option \<times> string \<Rightarrow> string option" where
  "getArgDecl C info arg =
     (case arg of
        (None, name) \<Rightarrow> map_option (\<lambda>s. s @ '' '' @ name) (map_of (fi_metaArgTypes info) name)
      | (Some t, name) \<Rightarrow> Some (getTypeStringWithName C t name))"

text \<open>The arguments' declarations, separated by commas.\<close>

definition arg_decls :: "'t clang_types \<Rightarrow> 't FunctionInfo \<Rightarrow> string \<Rightarrow> string option" where
  "arg_decls C info decl =
     (case fi_args info of
        [] \<Rightarrow> Some decl
      | a # as \<Rightarrow> do {
          s \<leftarrow> getArgDecl C info a;
          for_each (\<lambda>a decl. map_option (\<lambda>s. decl @ '', '' @ s) (getArgDecl C info a)) as (decl @ s)
        })"

definition declText :: "'t clang_types \<Rightarrow> 't FunctionInfo \<Rightarrow> string \<Rightarrow> string option" where
  "declText C info name =
     (let ret = (case fi_returnType info of None \<Rightarrow> fi_metaRetType info | Some t \<Rightarrow> getTypeStringDecompound C t);
          decl = ret @ '' '' @ name @ ''(''
      in do {
        decl \<leftarrow> arg_decls C info decl;
        Some ((if fi_variadic info then decl @ (if fi_args info \<noteq> [] then '', '' else []) @ ''...'' else decl) @ '')'')
      })"

subsection \<open>Statement templates\<close>

definition blanks :: "nat \<Rightarrow> string" where
  "blanks n = replicate n CHR '' ''"

definition eol :: string where
  "eol = [CHR 0x0A]"

definition FI_packedFunctionInfo :: "'t clang_types \<Rightarrow> 't FunctionInfo" where
  "FI_packedFunctionInfo C =
     (let pVoid = cl_pointer C (cl_void C); ppVoid = cl_pointer C pVoid
      in info_explicit (Some (cl_void C)) [(Some ppVoid, ''args''), (Some pVoid, ''ret''), (Some pVoid, ''metadata'')] False)"

definition FI_packedCallbackInfo :: "'t clang_types \<Rightarrow> 't FunctionInfo" where
  "FI_packedCallbackInfo C =
     (let pVoid = cl_pointer C (cl_void C); ppVoid = cl_pointer C pVoid
      in info_explicit (Some (cl_void C))
           [(Some pVoid, ''callback''), (Some ppVoid, ''args''), (Some pVoid, ''ret''), (Some pVoid, ''metadata'')] False)"

definition SRC_asIs :: "string \<Rightarrow> string" where
  "SRC_asIs s = (if s = [] then [] else blanks 4 @ s @ eol)"

definition returns_void :: "'t clang_types \<Rightarrow> 't FunctionInfo \<Rightarrow> bool option" where
  "returns_void C info = map_option (isVoidType C) (fi_returnType info)"

definition SRC_emptyReturnDecl :: "'t clang_types \<Rightarrow> 't FunctionInfo \<Rightarrow> string option" where
  "SRC_emptyReturnDecl C info =
     map_option (\<lambda>t. if isVoidType C t then [] else blanks 4 @ getTypeStringWithName C t ''ret'' @ '';'' @ eol)
       (fi_returnType info)"

definition SRC_getCallback :: "bool \<Rightarrow> string" where
  "SRC_getCallback guest =
     ''#ifdef LORE_THUNK_CALLBACK_REPLACE'' @ eol @
     blanks 4 @ ''LORE_THUNK_GET_LAST_GCB(callback);'' @ eol @
     ''#else'' @ eol @
     blanks 4 @ ''void *callback = LORE_THUNK_LAST_'' @ (if guest then ''GCB'' else ''HCB'') @ '';'' @ eol @
     ''#endif'' @ eol"

definition SRC_callList :: "'t FunctionInfo \<Rightarrow> string" where
  "SRC_callList info =
     (case map snd (fi_args info) of
        [] \<Rightarrow> []
      | a # as \<Rightarrow> fold (\<lambda>a ret. ret @ '', '' @ a) as a)"

definition SRC_callListAssign :: "'t clang_types \<Rightarrow> 't FunctionInfo \<Rightarrow> string \<Rightarrow> string \<Rightarrow> string option" where
  "SRC_callListAssign C info func lval =
     map_option (\<lambda>t. blanks 4 @ (if \<not> isVoidType C t then lval @ '' = '' else []) @ func @ ''('' @ SRC_callList info @ '');'' @ eol)
       (fi_returnType info)"

definition SRC_argPtrListDecl :: "'t FunctionInfo \<Rightarrow> string" where
  "SRC_argPtrListDecl info =
     fold (\<lambda>a res. res @ blanks 8 @ ''(void *) &'' @ snd a @ '','' @ eol) (fi_args info)
       (blanks 4 @ ''void *args[] = {'' @ eol) @ blanks 4 @ ''};'' @ eol"

definition SRC_returnRet :: "'t clang_types \<Rightarrow> 't FunctionInfo \<Rightarrow> string option" where
  "SRC_returnRet C info =
     map_option (\<lambda>t. if isVoidType C t then [] else blanks 4 @ ''return ret;'' @ eol) (fi_returnType info)"

definition SRC_argPtrListExtractDecl :: "'t clang_types \<Rightarrow> 't FunctionInfo \<Rightarrow> string" where
  "SRC_argPtrListExtractDecl C info =
     fold (\<lambda>i res. case fi_args info ! i of (t, name) \<Rightarrow>
         res @ blanks 4 @ ''auto &'' @ name @ '' = *('' @
         (case t of None \<Rightarrow> metaArgumentType info name @ '' *'' | Some t \<Rightarrow> getTypeString C (cl_pointer C t)) @
         '') args['' @ std_to_string i @ ''];'' @ eol) [0..<length (fi_args info)] []"

definition SRC_retExtractDecl :: "'t clang_types \<Rightarrow> 't FunctionInfo \<Rightarrow> string option" where
  "SRC_retExtractDecl C info =
     map_option (\<lambda>t. if isVoidType C t then []
        else blanks 4 @ ''auto &ret_ref = *('' @ getTypeString C (cl_pointer C t) @ '') ret;'' @ eol) (fi_returnType info)"

subsection \<open>Plain C types\<close>

text \<open>An instance of Clang's interface on types without typedefs, on which the witnesses evaluate.\<close>

datatype plain_type =
    CVoid | CChar | CInt
  | CPtr plain_type
  | CFun plain_type "plain_type list" bool
  | CStruct string "(string \<times> plain_type) list"

fun plain_shape :: "plain_type \<Rightarrow> plain_type type_shape" where
  "plain_shape CVoid = Void_ty"
| "plain_shape CChar = Char_ty"
| "plain_shape CInt = Other_ty"
| "plain_shape (CPtr t) = Pointer_ty t"
| "plain_shape (CFun r as v) = Proto_ty r as v"
| "plain_shape (CStruct n fs) = Record_ty fs"

fun comma_list :: "string list \<Rightarrow> string" where
  "comma_list [] = []"
| "comma_list [s] = s"
| "comma_list (s # ss) = s @ '', '' @ comma_list ss"

fun plain_string :: "plain_type \<Rightarrow> string" where
  "plain_string CVoid = ''void''"
| "plain_string CChar = ''char''"
| "plain_string CInt = ''int''"
| "plain_string (CPtr (CFun r as v)) = plain_string r @ '' (*)('' @ comma_list (map plain_string as) @ (if v then '', ...)'' else '')'')"
| "plain_string (CPtr t) = plain_string t @ '' *''"
| "plain_string (CFun r as v) = plain_string r @ '' ('' @ comma_list (map plain_string as) @ (if v then '', ...)'' else '')'')"
| "plain_string (CStruct n fs) = ''struct '' @ n"

fun plain_depth :: "plain_type \<Rightarrow> nat" where
  "plain_depth (CPtr t) = Suc (plain_depth t)"
| "plain_depth _ = 0"

definition plain_c :: "plain_type clang_types" where
  "plain_c = \<lparr>cl_canonical = (\<lambda>t. t), cl_asString = plain_string, cl_shape = plain_shape, cl_pointer = CPtr, cl_void = CVoid,
     cl_depth = plain_depth, cl_original = (\<lambda>_. None), cl_typedef = (\<lambda>_. None), cl_record = (\<lambda>_. None)\<rparr>"

end
