(* ===== verification/Proc_Snippet.thy ===== *)
theory Proc_Snippet
  imports Source_Text
begin

text \<open>
  The model of one generated proc (\<open>lorelei/TLCApi/ProcSnippet.h\<close>, \<open>src/libs/TLCApi/ProcSnippet.cpp\<close>):
  its identity, the description and definitions the manifest gives, and the text of its three phases.
\<close>

subsection \<open>State\<close>

record 't PassInfo =
  pi_id :: int
  pi_type :: 't

record 't Desc =
  ds_overlayType :: "'t option"
  ds_builderPass :: "'t PassInfo option"
  ds_passes :: "'t PassInfo list"

record FunctionBodySource =
  bs_prolog :: SourceLineList
  bs_forward :: SourceLineList
  bs_center :: SourceLineList
  bs_backward :: SourceLineList
  bs_epilog :: SourceLineList

record 't ProcSource =
  src_functionInfo :: "'t FunctionInfo"
  src_head :: SourceLineList
  src_body :: FunctionBodySource
  src_tail :: SourceLineList

definition empty_body :: FunctionBodySource where
  "empty_body = \<lparr>bs_prolog = [], bs_forward = [], bs_center = [], bs_backward = [], bs_epilog = []\<rparr>"

definition empty_source :: "'t ProcSource" where
  "empty_source = \<lparr>src_functionInfo = empty_info, src_head = [], src_body = empty_body, src_tail = []\<rparr>"

text \<open>The manifest's definitions of the phases are addresses of declarations, 0 where there is none.\<close>

record 't ProcSnippet =
  ps_kind :: ProcKind
  ps_direction :: ProcDirection
  ps_functionDecl :: "'t FunctionDecl option"
  ps_functionPointerType :: "'t option"
  ps_desc :: "'t Desc option"
  ps_definitions :: "ProcPhase \<Rightarrow> nat"
  ps_name :: string
  ps_realFunctionPointerType :: "'t option"
  ps_realFunctionTypeView :: "'t FunctionTypeView"
  ps_sources :: "ProcPhase \<Rightarrow> 't ProcSource"

definition isFunction :: "'t ProcSnippet \<Rightarrow> bool" where
  "isFunction p \<longleftrightarrow> ps_kind p = Function"

definition isCallback :: "'t ProcSnippet \<Rightarrow> bool" where
  "isCallback p \<longleftrightarrow> ps_kind p = Callback"

definition hasDefinition :: "'t ProcSnippet \<Rightarrow> ProcPhase \<Rightarrow> bool" where
  "hasDefinition p phase \<longleftrightarrow> ps_definitions p phase \<noteq> 0"

subsection \<open>Construction\<close>

text \<open>The overlay type of the description takes the place of the type itself.\<close>

definition resolve_types :: "'t clang_types \<Rightarrow> 't ProcSnippet \<Rightarrow> 't ProcSnippet" where
  "resolve_types C p =
     (let real = (case ps_desc p of
                    Some d \<Rightarrow> (case ds_overlayType d of Some t \<Rightarrow> Some t | None \<Rightarrow> ps_functionPointerType p)
                  | None \<Rightarrow> ps_functionPointerType p);
          p = p\<lparr>ps_realFunctionPointerType := real\<rparr>
      in case real of None \<Rightarrow> p | Some t \<Rightarrow> p\<lparr>ps_realFunctionTypeView := functionTypeView C t\<rparr>)"

definition initialize :: "'t clang_types \<Rightarrow> string \<Rightarrow> 't ProcSnippet \<Rightarrow> 't ProcSnippet option" where
  "initialize C nameHint p =
     (if isFunction p then
        (case ps_functionDecl p of
           None \<Rightarrow> None
         | Some fd \<Rightarrow> Some (resolve_types C
             (p\<lparr>ps_name := (if nameHint = [] then fd_name fd else nameHint),
                ps_functionPointerType := Some (cl_pointer C (cl_canonical C (fd_type fd)))\<rparr>)))
      else
        (case ps_functionPointerType p of
           None \<Rightarrow> None
         | Some t \<Rightarrow> Some (resolve_types C
             (if nameHint \<noteq> [] then p\<lparr>ps_name := nameHint\<rparr>
              else case cl_typedef C t of
                     Some (name, _, _) \<Rightarrow> p\<lparr>ps_name := name\<rparr>
                   | None \<Rightarrow> p))))"

definition bare_proc :: "ProcKind \<Rightarrow> ProcDirection \<Rightarrow> 't Desc option \<Rightarrow> (ProcPhase \<Rightarrow> nat) \<Rightarrow> 't ProcSnippet" where
  "bare_proc kind direction desc definitions =
     \<lparr>ps_kind = kind, ps_direction = direction, ps_functionDecl = None, ps_functionPointerType = None,
      ps_desc = desc, ps_definitions = definitions, ps_name = [], ps_realFunctionPointerType = None,
      ps_realFunctionTypeView = empty_view, ps_sources = (\<lambda>_. empty_source)\<rparr>"

definition function_proc ::
    "'t clang_types \<Rightarrow> ProcDirection \<Rightarrow> 't FunctionDecl \<Rightarrow> string \<Rightarrow> 't Desc option \<Rightarrow> (ProcPhase \<Rightarrow> nat) \<Rightarrow> 't ProcSnippet option" where
  "function_proc C direction fd nameHint desc definitions =
     initialize C nameHint ((bare_proc Function direction desc definitions)\<lparr>ps_functionDecl := Some fd\<rparr>)"

definition callback_proc ::
    "'t clang_types \<Rightarrow> ProcDirection \<Rightarrow> 't \<Rightarrow> string \<Rightarrow> 't Desc option \<Rightarrow> (ProcPhase \<Rightarrow> nat) \<Rightarrow> 't ProcSnippet option" where
  "callback_proc C direction fpType nameHint desc definitions =
     initialize C nameHint ((bare_proc Callback direction desc definitions)\<lparr>ps_functionPointerType := Some fpType\<rparr>)"

subsection \<open>Text\<close>

fun phase_name :: "ProcPhase \<Rightarrow> string" where
  "phase_name Entry = ''Entry''"
| "phase_name Adapt = ''Adapt''"
| "phase_name _ = ''Caller''"

fun direction_name :: "ProcDirection \<Rightarrow> string" where
  "direction_name GuestToHost = ''GuestToHost''"
| "direction_name HostToGuest = ''HostToGuest''"

definition proc_template :: "'t ProcSnippet \<Rightarrow> string" where
  "proc_template p = (if isFunction p then ''ProcFn'' else ''ProcCb'')"

definition proc_reference :: "'t ProcSnippet \<Rightarrow> string" where
  "proc_reference p = (if isFunction p then ''::'' @ ps_name p else ps_name p)"

definition specialization :: "'t ProcSnippet \<Rightarrow> ProcPhase \<Rightarrow> string" where
  "specialization p phase =
     ''<'' @ proc_reference p @ '', '' @ direction_name (ps_direction p) @ '', '' @ phase_name phase @ ''>''"

definition declaration_text :: "'t ProcSnippet \<Rightarrow> ProcPhase \<Rightarrow> string \<Rightarrow> string" where
  "declaration_text p phase decl =
     ''template <>'' @ eol @ ''struct '' @ proc_template p @ specialization p phase @ '' {'' @ eol @
     ''    _PROC '' @ decl @ '';'' @ eol @ ''};'' @ eol"

definition body_text :: "FunctionBodySource \<Rightarrow> string" where
  "body_text b =
     '' {'' @ eol @
     ''    // prolog'' @ eol @ toRawText (bs_prolog b) @
     ''    // forward'' @ eol @ toRawText (bs_forward b) @
     ''    // center'' @ eol @ toRawText (bs_center b) @
     ''    // backward'' @ eol @ toRawText (bs_backward b) @
     ''    // epilog'' @ eol @ toRawText (bs_epilog b) @
     ''}'' @ eol"

definition proc_text :: "'t clang_types \<Rightarrow> 't ProcSnippet \<Rightarrow> ProcPhase \<Rightarrow> bool \<Rightarrow> string option" where
  "proc_text C p phase hasDecl =
     (let src = ps_sources p phase in
      if fi_returnType (src_functionInfo src) = None then Some []
      else if hasDecl then
        map_option (declaration_text p phase) (declText C (src_functionInfo src) ''invoke'')
      else
        map_option (\<lambda>decl. toRawText (src_head src) @ decl @ body_text (src_body src) @ toRawText (src_tail src))
          (declText C (src_functionInfo src) (proc_template p @ specialization p phase @ ''::'' @ eol @ ''invoke'')))"

subsection \<open>Pass arguments\<close>

text \<open>
  \<open>PASS_getIntegralArgumentsInPass\<close>: the integral arguments of the pass the description configures,
  when there are exactly \<open>n\<close>.
\<close>

fun integral_args :: "'t template_arg list \<Rightarrow> int list option" where
  "integral_args [] = Some []"
| "integral_args (Integral_arg v # args) = map_option (\<lambda>vs. v # vs) (integral_args args)"
| "integral_args _ = None"

definition getIntegralArgumentsInPass :: "'t clang_types \<Rightarrow> nat \<Rightarrow> 't ProcSnippet \<Rightarrow> bool \<Rightarrow> int \<Rightarrow> int list option" where
  "getIntegralArgumentsInPass C n p isBuilder passId =
     (case ps_desc p of
        None \<Rightarrow> None
      | Some d \<Rightarrow>
          (let info = (if isBuilder then
                         (case ds_builderPass d of
                            None \<Rightarrow> None
                          | Some i \<Rightarrow> if pi_id i \<noteq> passId then None else Some i)
                       else List.find (\<lambda>i. pi_id i = passId) (ds_passes d))
           in case info of
                None \<Rightarrow> None
              | Some i \<Rightarrow>
                  (case Option.bind (cl_record C (pi_type i)) rd_args of
                     None \<Rightarrow> None
                   | Some args \<Rightarrow> if length args \<noteq> n then None else integral_args args)))"

end
