(* ===== verification/Document_Collect.thy ===== *)
theory Document_Collect
  imports Proc_Snippet
begin

text \<open>
  The document of one generate run (\<open>lorelei/TLCApi/DocumentContext.h\<close>) and the collection of its procs
  from the translation unit (\<open>src/libs/TLCApi/DocumentContext.cpp\<close>, first half;
  \<open>Utils/ProcAliasMaker.cpp\<close>, \<open>initialize\<close>). The AST is the list of the matches Clang reports.
\<close>

subsection \<open>Descriptions\<close>

text \<open>
  A class template specialization: its address, whether it is explicit, its arguments, its typedefs
  with their types and its static data members with theirs, in order.
\<close>

record 't spec_decl =
  sd_address :: nat
  sd_explicit :: bool
  sd_args :: "'t template_arg list"
  sd_typedefs :: "(string \<times> 't) list"
  sd_statics :: "(string \<times> 't) list"

definition extractFunctionDeclFromTemplateArg :: "'t template_arg \<Rightarrow> 't FunctionDecl option" where
  "extractFunctionDeclFromTemplateArg arg = (case arg of Decl_arg fd \<Rightarrow> fd | Expr_arg fd \<Rightarrow> fd | _ \<Rightarrow> None)"

definition extractPassIDFromType :: "'t clang_types \<Rightarrow> 't \<Rightarrow> int option" where
  "extractPassIDFromType C t =
     (case cl_record C (cl_canonical C t) of
        None \<Rightarrow> None
      | Some decl \<Rightarrow>
          (case List.find (\<lambda>(name, value). name = ''ID'' \<and> value \<noteq> None) (rd_statics decl) of
             None \<Rightarrow> None
           | Some (_, value) \<Rightarrow> value))"

definition append_pass_type :: "'t clang_types \<Rightarrow> 't template_arg \<Rightarrow> 't PassInfo list \<Rightarrow> 't PassInfo list" where
  "append_pass_type C arg out =
     (case arg of
        Type_arg t \<Rightarrow>
          (let passType = cl_canonical C t in
           case extractPassIDFromType C passType of
             None \<Rightarrow> out
           | Some passId \<Rightarrow> out @ [\<lparr>pi_id = passId, pi_type = passType\<rparr>])
      | _ \<Rightarrow> out)"

definition appendPassTypesFromPassListType :: "'t clang_types \<Rightarrow> 't \<Rightarrow> 't PassInfo list \<Rightarrow> 't PassInfo list" where
  "appendPassTypesFromPassListType C listType out =
     (case cl_record C (cl_canonical C listType) of
        None \<Rightarrow> out
      | Some decl \<Rightarrow>
          if rd_name decl \<noteq> ''PassTagList'' then out
          else (case rd_args decl of None \<Rightarrow> out | Some args \<Rightarrow> fold (append_pass_type C) args out))"

definition extractOverlayType :: "'t clang_types \<Rightarrow> 't spec_decl \<Rightarrow> 't option" where
  "extractOverlayType C decl =
     (case List.find (\<lambda>(name, _). name = ''overlay_type'') (sd_typedefs decl) of
        None \<Rightarrow> None
      | Some (_, underlying) \<Rightarrow>
          (let t = cl_canonical C underlying;
               t = (if isFunctionType C t then cl_pointer C t else t);
               t = cl_canonical C t
           in if isFunctionPointerType C t then Some t else None))"

definition desc_member :: "'t clang_types \<Rightarrow> string \<times> 't \<Rightarrow> 't Desc \<Rightarrow> 't Desc" where
  "desc_member C member desc =
     (case member of (memberName, t) \<Rightarrow>
        if memberName = ''builder_pass'' then
          (let builderType = cl_canonical C t in
           case extractPassIDFromType C builderType of
             None \<Rightarrow> desc
           | Some passId \<Rightarrow> desc\<lparr>ds_builderPass := Some \<lparr>pi_id = passId, pi_type = builderType\<rparr>\<rparr>)
        else if memberName = ''passes'' then
          desc\<lparr>ds_passes := appendPassTypesFromPassListType C t (ds_passes desc)\<rparr>
        else desc)"

definition extractProcDesc :: "'t clang_types \<Rightarrow> 't spec_decl \<Rightarrow> 't Desc" where
  "extractProcDesc C decl =
     fold (desc_member C) (sd_statics decl)
       \<lparr>ds_overlayType = extractOverlayType C decl, ds_builderPass = None, ds_passes = []\<rparr>"

definition extractDirectionArg :: "'t template_arg \<Rightarrow> ProcDirection option" where
  "extractDirectionArg arg =
     (case arg of
        Integral_arg v \<Rightarrow> if v = 0 then Some GuestToHost else if v = 1 then Some HostToGuest else None
      | _ \<Rightarrow> None)"

definition extractPhaseArg :: "'t template_arg \<Rightarrow> ProcPhase option" where
  "extractPhaseArg arg =
     (case arg of
        Integral_arg v \<Rightarrow>
          if v = 0 then Some Entry else if v = 1 then Some Adapt else if v = 2 then Some Caller else None
      | _ \<Rightarrow> None)"

subsection \<open>Matches\<close>

text \<open>
  What the matchers report: functions and variables with whether their linkage is C, the template
  \<open>ProcFn\<close>, named types with their qualified and plain name, and the four kinds of specializations.
\<close>

datatype 't match_result =
    Function_match "'t FunctionDecl" bool
  | Var_match string nat bool
  | ProcFn_template nat
  | Typedef_match string string 't
  | FnDesc_match "'t spec_decl"
  | CbDesc_match "'t spec_decl"
  | ProcFn_match "'t spec_decl"
  | ProcCb_match "'t spec_decl"

record 't matches =
  mt_procFnTemplateDecl :: "nat option"
  mt_namedCallbackBySignature :: "(string \<times> 't \<times> string) list"
  mt_functionByName :: "(string \<times> 't FunctionDecl) list"
  mt_varByName :: "(string \<times> nat) list"
  mt_functionDescByName :: "(string \<times> 't Desc) list"
  mt_callbackDescBySignature :: "(string \<times> 't Desc) list"
  mt_procFnDeclByName :: "ProcDirection \<Rightarrow> ProcPhase \<Rightarrow> (string \<times> nat) list"
  mt_procCbDeclBySignature :: "ProcDirection \<Rightarrow> ProcPhase \<Rightarrow> (string \<times> nat) list"

definition matches_init :: "'t matches" where
  "matches_init = \<lparr>mt_procFnTemplateDecl = None, mt_namedCallbackBySignature = [], mt_functionByName = [],
     mt_varByName = [], mt_functionDescByName = [], mt_callbackDescBySignature = [],
     mt_procFnDeclByName = (\<lambda>_ _. []), mt_procCbDeclBySignature = (\<lambda>_ _. [])\<rparr>"

definition isBridgeNamespaceDecl :: "string \<Rightarrow> bool" where
  "isBridgeNamespaceDecl qualifiedName = (find_sub ''lore::thunk::__bridge__::'' qualifiedName \<noteq> None)"

text \<open>The function pointer type a specialization is for.\<close>

definition callback_arg :: "'t clang_types \<Rightarrow> 't template_arg \<Rightarrow> 't option" where
  "callback_arg C arg =
     (case arg of
        Type_arg t \<Rightarrow>
          (let t = cl_canonical C t; t = (if isFunctionType C t then cl_pointer C t else t)
           in if isFunctionPointerType C t then Some t else None)
      | _ \<Rightarrow> None)"

text \<open>Entering an address into the table of a direction and phase.\<close>

definition enter_decl ::
    "ProcDirection \<Rightarrow> ProcPhase \<Rightarrow> string \<Rightarrow> nat \<Rightarrow> (ProcDirection \<Rightarrow> ProcPhase \<Rightarrow> (string \<times> nat) list) \<Rightarrow>
       ProcDirection \<Rightarrow> ProcPhase \<Rightarrow> (string \<times> nat) list" where
  "enter_decl d ph key address table = table(d := (table d)(ph := omap_set key address (table d ph)))"

definition matchCallback :: "'t clang_types \<Rightarrow> 't match_result \<Rightarrow> 't matches \<Rightarrow> 't matches" where
  "matchCallback C result m =
     (case result of
        Function_match fd cLinkage \<Rightarrow>
          if \<not> cLinkage then m
          else m\<lparr>mt_functionByName := omap_set (fd_name fd) fd (mt_functionByName m)\<rparr>
      | Var_match name decl cLinkage \<Rightarrow>
          if \<not> cLinkage then m else m\<lparr>mt_varByName := omap_set name decl (mt_varByName m)\<rparr>
      | ProcFn_template decl \<Rightarrow>
          if mt_procFnTemplateDecl m = None then m\<lparr>mt_procFnTemplateDecl := Some decl\<rparr> else m
      | Typedef_match qualifiedName name underlying \<Rightarrow>
          if \<not> isBridgeNamespaceDecl qualifiedName then m
          else (let t = cl_canonical C underlying in
                if \<not> isFunctionPointerType C t then m
                else m\<lparr>mt_namedCallbackBySignature :=
                         omap_set (getTypeString C t) (t, name) (mt_namedCallbackBySignature m)\<rparr>)
      | FnDesc_match decl \<Rightarrow>
          if \<not> sd_explicit decl \<or> length (sd_args decl) \<noteq> 1 then m
          else (case extractFunctionDeclFromTemplateArg (sd_args decl ! 0) of
                  None \<Rightarrow> m
                | Some fd \<Rightarrow> m\<lparr>mt_functionDescByName :=
                    omap_set (fd_name fd) (extractProcDesc C decl) (mt_functionDescByName m)\<rparr>)
      | CbDesc_match decl \<Rightarrow>
          if \<not> sd_explicit decl \<or> length (sd_args decl) \<noteq> 1 then m
          else (case callback_arg C (sd_args decl ! 0) of
                  None \<Rightarrow> m
                | Some t \<Rightarrow> m\<lparr>mt_callbackDescBySignature :=
                    omap_set (getTypeString C t) (extractProcDesc C decl) (mt_callbackDescBySignature m)\<rparr>)
      | ProcFn_match decl \<Rightarrow>
          if \<not> sd_explicit decl \<or> length (sd_args decl) \<noteq> 3 then m
          else (case extractFunctionDeclFromTemplateArg (sd_args decl ! 0) of
                  None \<Rightarrow> m
                | Some fd \<Rightarrow>
                    (case (extractDirectionArg (sd_args decl ! 1), extractPhaseArg (sd_args decl ! 2)) of
                       (Some d, Some ph) \<Rightarrow> m\<lparr>mt_procFnDeclByName :=
                         enter_decl d ph (fd_name fd) (sd_address decl) (mt_procFnDeclByName m)\<rparr>
                     | _ \<Rightarrow> m))
      | ProcCb_match decl \<Rightarrow>
          if \<not> sd_explicit decl \<or> length (sd_args decl) \<noteq> 3 then m
          else (case callback_arg C (sd_args decl ! 0) of
                  None \<Rightarrow> m
                | Some t \<Rightarrow>
                    (case (extractDirectionArg (sd_args decl ! 1), extractPhaseArg (sd_args decl ! 2)) of
                       (Some d, Some ph) \<Rightarrow> m\<lparr>mt_procCbDeclBySignature :=
                         enter_decl d ph (getTypeString C t) (sd_address decl) (mt_procCbDeclBySignature m)\<rparr>
                     | _ \<Rightarrow> m)))"

end
