(* ===== verification/Pass_Pipeline.thy ===== *)
theory Pass_Pipeline
  imports Ordered_Map Proc_Defs
begin

text \<open>
  The pass pipeline of a generate run (\<open>lorelei/TLCApi/Pass.h\<close>, \<open>src/libs/TLCApi/DocumentContext.cpp\<close>,
  second half), over any state the passes work on: which passes run on which proc, and the order of
  their hooks. \<open>err\<close> is \<open>hasErrorOccurred\<close>; a hook gives \<open>None\<close> where its code is undefined.
\<close>

subsection \<open>Passes\<close>

datatype PassPhase = Builder | Guard | Misc | NumPhases

text \<open>A pass over states \<open>'s\<close>, procs \<open>'r\<close> and messages \<open>'m\<close>; the test may leave a message for the hooks.\<close>

record ('s, 'r, 'm) Pass =
  p_phase :: PassPhase
  p_id :: int
  p_name :: string
  p_beginProcessDocument :: "'s \<Rightarrow> 's option"
  p_handleTranslationUnit :: "'s \<Rightarrow> 's option"
  p_endProcessDocument :: "'s \<Rightarrow> 's option"
  p_testProc :: "'r \<Rightarrow> 's \<Rightarrow> ('s \<times> bool \<times> 'm option) option"
  p_beginHandleProc :: "'r \<Rightarrow> 'm option \<Rightarrow> 's \<Rightarrow> 's option"
  p_endHandleProc :: "'r \<Rightarrow> 'm option \<Rightarrow> 's \<Rightarrow> 's option"

text \<open>The hooks a pass does not override.\<close>

definition base_pass :: "PassPhase \<Rightarrow> int \<Rightarrow> string \<Rightarrow> ('s, 'r, 'm) Pass" where
  "base_pass phase passId name =
     \<lparr>p_phase = phase, p_id = passId, p_name = name,
      p_beginProcessDocument = Some, p_handleTranslationUnit = Some, p_endProcessDocument = Some,
      p_testProc = (\<lambda>_ s. Some (s, False, None)),
      p_beginHandleProc = (\<lambda>_ _. Some), p_endHandleProc = (\<lambda>_ _. Some)\<rparr>"

type_synonym ('s, 'r, 'm) pass_maps = "PassPhase \<Rightarrow> (int \<times> ('s, 'r, 'm) Pass) list"

text \<open>The passes of the registry by phase and id; a later one of the same id takes the place.\<close>

definition register_pass :: "('s, 'r, 'm) Pass option \<Rightarrow> ('s, 'r, 'm) pass_maps \<Rightarrow> ('s, 'r, 'm) pass_maps" where
  "register_pass entry maps =
     (case entry of
        None \<Rightarrow> maps
      | Some pass \<Rightarrow>
          if p_phase pass = NumPhases then maps
          else maps(p_phase pass := omap_set (p_id pass) pass (maps (p_phase pass))))"

definition beginSourceFileAction :: "('s, 'r, 'm) Pass option list \<Rightarrow> ('s, 'r, 'm) pass_maps" where
  "beginSourceFileAction entries = fold register_pass entries (\<lambda>_. [])"

subsection \<open>Running hooks\<close>

text \<open>Hooks one after the other, returning at the first one that leaves an error (\<open>False\<close>).\<close>

fun run_hooks :: "('s \<Rightarrow> bool) \<Rightarrow> ('s \<Rightarrow> 's option) list \<Rightarrow> 's \<Rightarrow> ('s \<times> bool) option" where
  "run_hooks err [] s = Some (s, True)"
| "run_hooks err (h # hs) s =
     (case h s of
        None \<Rightarrow> None
      | Some s' \<Rightarrow> if err s' then Some (s', False) else run_hooks err hs s')"

definition all_passes :: "('s, 'r, 'm) pass_maps \<Rightarrow> ('s, 'r, 'm) Pass list" where
  "all_passes maps = concat (map (\<lambda>phase. map snd (maps phase)) [Builder, Guard, Misc])"

definition begin_hooks :: "('s \<Rightarrow> bool) \<Rightarrow> ('s, 'r, 'm) pass_maps \<Rightarrow> 's \<Rightarrow> 's option" where
  "begin_hooks err maps s = map_option fst (run_hooks err (map p_beginProcessDocument (all_passes maps)) s)"

definition handle_hooks :: "('s \<Rightarrow> bool) \<Rightarrow> ('s, 'r, 'm) pass_maps \<Rightarrow> 's \<Rightarrow> 's option" where
  "handle_hooks err maps s = map_option fst (run_hooks err (map p_handleTranslationUnit (all_passes maps)) s)"

subsection \<open>Selecting the passes of the procs\<close>

type_synonym ('s, 'r, 'm) RunPassTask = "'r \<times> ('s, 'r, 'm) Pass \<times> 'm option"

text \<open>A step of the selection: undefined, stopped by an error, or gone on with what it found.\<close>

datatype ('s, 'x) selected = Stopped 's | Continue 's 'x

definition ID_DefaultBuilder :: int where
  "ID_DefaultBuilder = 0"

text \<open>The first builder in the order of the ids, apart from the default one, that takes the proc.\<close>

fun test_builders ::
    "('s \<Rightarrow> bool) \<Rightarrow> 'r \<Rightarrow> (int \<times> ('s, 'r, 'm) Pass) list \<Rightarrow> 's \<Rightarrow> ('s, ('s, 'r, 'm) RunPassTask option) selected option" where
  "test_builders err r [] s = Some (Continue s None)"
| "test_builders err r ((passID, pass) # ps) s =
     (if passID = ID_DefaultBuilder then test_builders err r ps s
      else (case p_testProc pass r s of
              None \<Rightarrow> None
            | Some (s', matched, msg) \<Rightarrow>
                if err s' then Some (Stopped s')
                else if matched then Some (Continue s' (Some (r, pass, msg)))
                else test_builders err r ps s'))"

fun builder_tasks ::
    "('s \<Rightarrow> bool) \<Rightarrow> ('s, 'r, 'm) Pass \<Rightarrow> (int \<times> ('s, 'r, 'm) Pass) list \<Rightarrow> 'r list \<Rightarrow> 's \<Rightarrow>
       ('s, 'r, 'm) RunPassTask list \<Rightarrow> ('s, ('s, 'r, 'm) RunPassTask list) selected option" where
  "builder_tasks err fallback ps [] s tasks = Some (Continue s tasks)"
| "builder_tasks err fallback ps (r # rs) s tasks =
     (case test_builders err r ps s of
        None \<Rightarrow> None
      | Some (Stopped s') \<Rightarrow> Some (Stopped s')
      | Some (Continue s' (Some task)) \<Rightarrow> builder_tasks err fallback ps rs s' (tasks @ [task])
      | Some (Continue s' None) \<Rightarrow> builder_tasks err fallback ps rs s' (tasks @ [(r, fallback, None)]))"

text \<open>Every pass of the phase that takes the proc, in the order of the ids.\<close>

fun test_all ::
    "('s \<Rightarrow> bool) \<Rightarrow> 'r \<Rightarrow> ('s, 'r, 'm) Pass list \<Rightarrow> 's \<Rightarrow> ('s, 'r, 'm) RunPassTask list \<Rightarrow>
       ('s, ('s, 'r, 'm) RunPassTask list) selected option" where
  "test_all err r [] s tasks = Some (Continue s tasks)"
| "test_all err r (pass # ps) s tasks =
     (case p_testProc pass r s of
        None \<Rightarrow> None
      | Some (s', matched, msg) \<Rightarrow>
          if err s' then Some (Stopped s')
          else test_all err r ps s' (if matched then tasks @ [(r, pass, msg)] else tasks))"

fun appendMultiMatchPassTasks ::
    "('s \<Rightarrow> bool) \<Rightarrow> ('s, 'r, 'm) Pass list \<Rightarrow> 'r list \<Rightarrow> 's \<Rightarrow> ('s, 'r, 'm) RunPassTask list \<Rightarrow>
       ('s, ('s, 'r, 'm) RunPassTask list) selected option" where
  "appendMultiMatchPassTasks err ps [] s tasks = Some (Continue s tasks)"
| "appendMultiMatchPassTasks err ps (r # rs) s tasks =
     (case test_all err r ps s tasks of
        None \<Rightarrow> None
      | Some (Stopped s') \<Rightarrow> Some (Stopped s')
      | Some (Continue s' tasks) \<Rightarrow> appendMultiMatchPassTasks err ps rs s' tasks)"

text \<open>\<open>report\<close> is \<open>reportError\<close>.\<close>

definition appendBuilderPassTasks ::
    "('s \<Rightarrow> bool) \<Rightarrow> (string \<Rightarrow> 's \<Rightarrow> 's) \<Rightarrow> ('s, 'r, 'm) pass_maps \<Rightarrow> 'r list \<Rightarrow> 's \<Rightarrow>
       ('s, ('s, 'r, 'm) RunPassTask list) selected option" where
  "appendBuilderPassTasks err report maps refs s =
     (case map_of (maps Builder) ID_DefaultBuilder of
        None \<Rightarrow> Some (Stopped (report ''no default builder pass found'' s))
      | Some fallback \<Rightarrow> builder_tasks err fallback (maps Builder) refs s [])"

text \<open>A check of the diagnostics between two parts.\<close>

definition unless_error ::
    "('s \<Rightarrow> bool) \<Rightarrow> ('s, 'x) selected option \<Rightarrow> ('s \<Rightarrow> 'x \<Rightarrow> ('s, 'y) selected option) \<Rightarrow> ('s, 'y) selected option" where
  "unless_error err r k =
     (case r of
        None \<Rightarrow> None
      | Some (Stopped s) \<Rightarrow> Some (Stopped s)
      | Some (Continue s x) \<Rightarrow> if err s then Some (Stopped s) else k s x)"

definition select_tasks ::
    "('s \<Rightarrow> bool) \<Rightarrow> (string \<Rightarrow> 's \<Rightarrow> 's) \<Rightarrow> ('s, 'r, 'm) pass_maps \<Rightarrow> 'r list \<Rightarrow> 's \<Rightarrow>
       ('s, ('s, 'r, 'm) RunPassTask list) selected option" where
  "select_tasks err report maps refs s =
     unless_error err (appendBuilderPassTasks err report maps refs s) (\<lambda>s tasks.
     unless_error err (appendMultiMatchPassTasks err (map snd (maps Guard)) refs s tasks) (\<lambda>s tasks.
     unless_error err (appendMultiMatchPassTasks err (map snd (maps Misc)) refs s tasks) (\<lambda>s tasks.
       Some (Continue s tasks))))"

subsection \<open>The end of the document\<close>

definition task_begin :: "('s, 'r, 'm) RunPassTask \<Rightarrow> 's \<Rightarrow> 's option" where
  "task_begin task = (case task of (r, pass, msg) \<Rightarrow> p_beginHandleProc pass r msg)"

definition task_end :: "('s, 'r, 'm) RunPassTask \<Rightarrow> 's \<Rightarrow> 's option" where
  "task_end task = (case task of (r, pass, msg) \<Rightarrow> p_endHandleProc pass r msg)"

definition endProcessDocument ::
    "('s \<Rightarrow> bool) \<Rightarrow> (string \<Rightarrow> 's \<Rightarrow> 's) \<Rightarrow> ('s, 'r, 'm) pass_maps \<Rightarrow> 'r list \<Rightarrow> 's \<Rightarrow> 's option" where
  "endProcessDocument err report maps refs s =
     (case select_tasks err report maps refs s of
        None \<Rightarrow> None
      | Some (Stopped s) \<Rightarrow> Some s
      | Some (Continue s tasks) \<Rightarrow>
     (case run_hooks err (map task_begin tasks) s of
        None \<Rightarrow> None
      | Some (s, False) \<Rightarrow> Some s
      | Some (s, True) \<Rightarrow>
     (case run_hooks err (map task_end (rev tasks)) s of
        None \<Rightarrow> None
      | Some (s, False) \<Rightarrow> Some s
      | Some (s, True) \<Rightarrow>
     map_option fst (run_hooks err (map p_endProcessDocument (all_passes maps)) s))))"

subsection \<open>The order of the hooks\<close>

definition hook_sequence :: "('s, 'r, 'm) pass_maps \<Rightarrow> ('s, 'r, 'm) RunPassTask list \<Rightarrow> ('s \<Rightarrow> 's option) list" where
  "hook_sequence maps tasks =
     map task_begin tasks @ map task_end (rev tasks) @ map p_endProcessDocument (all_passes maps)"

text \<open>A run up to the first error: a prefix of the hooks, without an error before its end.\<close>

definition first_error_run :: "('s \<Rightarrow> bool) \<Rightarrow> ('s \<Rightarrow> 's option) list \<Rightarrow> 's \<Rightarrow> nat \<Rightarrow> 's \<Rightarrow> bool" where
  "first_error_run err hs s n s' \<longleftrightarrow>
     n \<le> length hs \<and> for_each (\<lambda>h. h) (take n hs) s = Some s' \<and>
     (\<forall>k < n. \<exists>t. for_each (\<lambda>h. h) (take k hs) s = Some t \<and> \<not> err t)"

lemma run_hooks_append:
  "run_hooks err (xs @ ys) s =
     (case run_hooks err xs s of
        None \<Rightarrow> None
      | Some (s, False) \<Rightarrow> Some (s, False)
      | Some (s, True) \<Rightarrow> run_hooks err ys s)"
  by (induction xs arbitrary: s) (auto split: option.split)

lemma first_error_run_Cons:
  assumes "h s = Some s1" "\<not> err s" "first_error_run err hs s1 n s'"
  shows "first_error_run err (h # hs) s (Suc n) s'"
proof -
  have "\<exists>t. for_each (\<lambda>h. h) (take k (h # hs)) s = Some t \<and> \<not> err t" if "k < Suc n" for k
    using that assms by (cases k) (auto simp: first_error_run_def)
  then show ?thesis using assms by (simp add: first_error_run_def)
qed

lemma run_hooks_prefix:
  assumes "run_hooks err hs s = Some (s', finished)" "\<not> err s"
  shows "\<exists>n. first_error_run err hs s n s' \<and> (if finished then n = length hs \<and> \<not> err s' else err s')"
  using assms
proof (induction hs arbitrary: s)
  case Nil
  then show ?case by (auto simp: first_error_run_def)
next
  case (Cons h hs)
  obtain s1 where h: "h s = Some s1" using Cons.prems(1) by (auto split: option.splits)
  show ?case
  proof (cases "err s1")
    case True
    then have "s' = s1" "\<not> finished" using Cons.prems(1) h by auto
    moreover have "first_error_run err (h # hs) s 1 s1"
      using h Cons.prems(2) by (simp add: first_error_run_def)
    ultimately show ?thesis using True by auto
  next
    case False
    then have "run_hooks err hs s1 = Some (s', finished)" using Cons.prems(1) h by simp
    from Cons.IH [OF this False] obtain n where
      "first_error_run err hs s1 n s'" "if finished then n = length hs \<and> \<not> err s' else err s'" by blast
    then show ?thesis
      using first_error_run_Cons [where h = h and s = s and ?s1.0 = s1 and err = err, OF h Cons.prems(2), of hs n s'] by (intro exI [of _ "Suc n"]) simp
  qed
qed

lemma endProcessDocument_run:
  assumes "select_tasks err report maps refs s = Some (Continue s0 tasks)"
  shows "endProcessDocument err report maps refs s = map_option fst (run_hooks err (hook_sequence maps tasks) s0)"
  unfolding endProcessDocument_def assms hook_sequence_def run_hooks_append
  by (auto split: option.split bool.split)

text \<open>
  C16. Once the passes are selected, the hooks run in one order (the begin hooks, the end hooks in
  reverse, the hooks of the document), and not one runs after a hook that reported an error.
\<close>

theorem pipeline_hook_order:
  assumes "select_tasks err report maps refs s = Some (Continue s0 tasks)" "\<not> err s0"
    and "endProcessDocument err report maps refs s = Some s'"
  shows "\<exists>n. first_error_run err (hook_sequence maps tasks) s0 n s' \<and>
    (\<not> err s' \<longrightarrow> n = length (hook_sequence maps tasks))"
proof -
  from assms(3) obtain finished where "run_hooks err (hook_sequence maps tasks) s0 = Some (s', finished)"
    unfolding endProcessDocument_run [OF assms(1)] by auto
  from run_hooks_prefix [OF this assms(2)] show ?thesis by (auto split: if_splits)
qed

subsection \<open>Which passes run\<close>

text \<open>Reference: the builder of a proc, and the passes of a phase that take it.\<close>

definition chosen_builder :: "(('s, 'r, 'm) Pass \<Rightarrow> 'r \<Rightarrow> 'm option option) \<Rightarrow> ('s, 'r, 'm) pass_maps \<Rightarrow> 'r \<Rightarrow> ('s, 'r, 'm) RunPassTask" where
  "chosen_builder accepts maps r =
     (case List.find (\<lambda>(passID, pass). passID \<noteq> ID_DefaultBuilder \<and> accepts pass r \<noteq> None) (maps Builder) of
        Some (_, pass) \<Rightarrow> (r, pass, the (accepts pass r))
      | None \<Rightarrow> (r, the (map_of (maps Builder) ID_DefaultBuilder), None))"

definition accepted_tasks :: "(('s, 'r, 'm) Pass \<Rightarrow> 'r \<Rightarrow> 'm option option) \<Rightarrow> ('s, 'r, 'm) Pass list \<Rightarrow> 'r \<Rightarrow> ('s, 'r, 'm) RunPassTask list" where
  "accepted_tasks accepts ps r =
     map (\<lambda>pass. (r, pass, the (accepts pass r))) (filter (\<lambda>pass. accepts pass r \<noteq> None) ps)"

definition expected_tasks :: "(('s, 'r, 'm) Pass \<Rightarrow> 'r \<Rightarrow> 'm option option) \<Rightarrow> ('s, 'r, 'm) pass_maps \<Rightarrow> 'r list \<Rightarrow> ('s, 'r, 'm) RunPassTask list" where
  "expected_tasks accepts maps refs =
     map (chosen_builder accepts maps) refs @
     concat (map (accepted_tasks accepts (map snd (maps Guard))) refs) @
     concat (map (accepted_tasks accepts (map snd (maps Misc))) refs)"

text \<open>
  The contract of a test: a predicate of the proc, in every state of the run (\<open>inv\<close>), which it may
  change without leaving it.
\<close>

locale stable_tests =
  fixes inv :: "'s \<Rightarrow> bool" and err :: "'s \<Rightarrow> bool" and maps :: "('s, 'r, 'm) pass_maps"
    and accepts :: "('s, 'r, 'm) Pass \<Rightarrow> 'r \<Rightarrow> 'm option option" and known :: "'r \<Rightarrow> bool"
  assumes test_stable: "pass \<in> set (all_passes maps) \<Longrightarrow> known r \<Longrightarrow> inv s \<Longrightarrow>
      \<exists>s'. p_testProc pass r s = Some (s', accepts pass r \<noteq> None, case accepts pass r of Some msg \<Rightarrow> msg | None \<Rightarrow> None) \<and> inv s'"
    and inv_no_error: "inv s \<Longrightarrow> \<not> err s"
begin

lemma test_builders_find:
  assumes "inv s" "known r" "snd ` set ps \<subseteq> set (all_passes maps)"
  shows "\<exists>s'. test_builders err r ps s = Some (Continue s'
      (case List.find (\<lambda>(passID, pass). passID \<noteq> ID_DefaultBuilder \<and> accepts pass r \<noteq> None) ps of
         Some (_, pass) \<Rightarrow> Some (r, pass, the (accepts pass r)) | None \<Rightarrow> None)) \<and> inv s'"
  using assms
proof (induction ps arbitrary: s)
  case (Cons e ps)
  obtain passID pass where e: "e = (passID, pass)" by fastforce
  have pass: "pass \<in> set (all_passes maps)" using Cons.prems(3) e by auto
  from test_stable [OF pass Cons.prems(2,1)] obtain s' where
    t: "p_testProc pass r s = Some (s', accepts pass r \<noteq> None, case accepts pass r of Some msg \<Rightarrow> msg | None \<Rightarrow> None)" "inv s'"
    by blast
  from Cons show ?case
    by (cases "accepts pass r") (auto simp: e t inv_no_error)
qed simp

lemma builder_tasks_chosen:
  assumes "inv s" "\<forall>r \<in> set refs. known r" "map_of (maps Builder) ID_DefaultBuilder = Some fallback"
  shows "\<exists>s'. builder_tasks err fallback (maps Builder) refs s tasks =
      Some (Continue s' (tasks @ map (chosen_builder accepts maps) refs)) \<and> inv s'"
  using assms(1,2)
proof (induction refs arbitrary: s tasks)
  case (Cons r refs)
  have sub: "snd ` set (maps Builder) \<subseteq> set (all_passes maps)" by (auto simp: all_passes_def)
  from test_builders_find [OF Cons.prems(1) _ sub, of r] Cons.prems(2) obtain s' where
    t: "test_builders err r (maps Builder) s = Some (Continue s'
      (case List.find (\<lambda>(passID, pass). passID \<noteq> ID_DefaultBuilder \<and> accepts pass r \<noteq> None) (maps Builder) of
         Some (_, pass) \<Rightarrow> Some (r, pass, the (accepts pass r)) | None \<Rightarrow> None))" "inv s'" by auto
  have "builder_tasks err fallback (maps Builder) (r # refs) s tasks =
      builder_tasks err fallback (maps Builder) refs s' (tasks @ [chosen_builder accepts maps r])"
    by (auto simp: t(1) chosen_builder_def assms(3) split: option.split)
  then show ?case using Cons.IH [OF t(2), of "tasks @ [chosen_builder accepts maps r]"] Cons.prems(2) by simp
qed simp

lemma test_all_accepted:
  assumes "inv s" "known r" "set ps \<subseteq> set (all_passes maps)"
  shows "\<exists>s'. test_all err r ps s tasks = Some (Continue s' (tasks @ accepted_tasks accepts ps r)) \<and> inv s'"
  using assms
proof (induction ps arbitrary: s tasks)
  case (Cons pass ps)
  have pass: "pass \<in> set (all_passes maps)" using Cons.prems(3) by auto
  from test_stable [OF pass Cons.prems(2,1)] obtain s' where
    t: "p_testProc pass r s = Some (s', accepts pass r \<noteq> None, case accepts pass r of Some msg \<Rightarrow> msg | None \<Rightarrow> None)" "inv s'"
    by blast
  have "test_all err r (pass # ps) s tasks = test_all err r ps s' (tasks @ accepted_tasks accepts [pass] r)"
    by (cases "accepts pass r") (auto simp: t inv_no_error accepted_tasks_def)
  moreover have "accepted_tasks accepts (pass # ps) r = accepted_tasks accepts [pass] r @ accepted_tasks accepts ps r"
    by (simp add: accepted_tasks_def)
  ultimately show ?case using Cons.IH [OF t(2) Cons.prems(2), of "tasks @ accepted_tasks accepts [pass] r"] Cons.prems(3) by simp
qed (simp add: accepted_tasks_def)

lemma multi_match_accepted:
  assumes "inv s" "\<forall>r \<in> set refs. known r" "set ps \<subseteq> set (all_passes maps)"
  shows "\<exists>s'. appendMultiMatchPassTasks err ps refs s tasks =
      Some (Continue s' (tasks @ concat (map (accepted_tasks accepts ps) refs))) \<and> inv s'"
  using assms(1,2)
proof (induction refs arbitrary: s tasks)
  case (Cons r refs)
  from test_all_accepted [OF Cons.prems(1) _ assms(3), of r tasks] Cons.prems(2) obtain s' where
    "test_all err r ps s tasks = Some (Continue s' (tasks @ accepted_tasks accepts ps r))" "inv s'" by auto
  with Cons.IH [of s' "tasks @ accepted_tasks accepts ps r"] Cons.prems(2) show ?case by auto
qed simp

lemma selects_expected:
  assumes "inv s" "\<forall>r \<in> set refs. known r" "map_of (maps Builder) ID_DefaultBuilder \<noteq> None"
  shows "\<exists>s'. select_tasks err report maps refs s = Some (Continue s' (expected_tasks accepts maps refs)) \<and> inv s'"
proof -
  obtain fallback where f: "map_of (maps Builder) ID_DefaultBuilder = Some fallback" using assms(3) by auto
  from builder_tasks_chosen [OF assms(1,2) f, of "[]"] obtain s1 where
    1: "builder_tasks err fallback (maps Builder) refs s [] = Some (Continue s1 (map (chosen_builder accepts maps) refs))" "inv s1"
    by auto
  have sub: "set (map snd (maps Guard)) \<subseteq> set (all_passes maps)" "set (map snd (maps Misc)) \<subseteq> set (all_passes maps)"
    by (auto simp: all_passes_def)
  from multi_match_accepted [OF 1(2) assms(2) sub(1)] obtain s2 where
    2: "appendMultiMatchPassTasks err (map snd (maps Guard)) refs s1 (map (chosen_builder accepts maps) refs) =
      Some (Continue s2 (map (chosen_builder accepts maps) refs @ concat (map (accepted_tasks accepts (map snd (maps Guard))) refs)))"
    "inv s2" by blast
  from multi_match_accepted [OF 2(2) assms(2) sub(2)] obtain s3 where
    3: "appendMultiMatchPassTasks err (map snd (maps Misc)) refs s2
        (map (chosen_builder accepts maps) refs @ concat (map (accepted_tasks accepts (map snd (maps Guard))) refs)) =
      Some (Continue s3 ((map (chosen_builder accepts maps) refs @ concat (map (accepted_tasks accepts (map snd (maps Guard))) refs)) @
        concat (map (accepted_tasks accepts (map snd (maps Misc))) refs)))" "inv s3" by blast
  show ?thesis
    by (intro exI [of _ s3] conjI 3(2))
      (simp add: select_tasks_def unless_error_def appendBuilderPassTasks_def f 1 2 3 inv_no_error expected_tasks_def)
qed

end

definition demo_pass :: "PassPhase \<Rightarrow> int \<Rightarrow> (string, unit, unit) Pass" where
  "demo_pass phase i = (base_pass phase i [])\<lparr>p_testProc := (\<lambda>_ s. Some (s, True, None)),
     p_beginHandleProc := (\<lambda>_ _ s. Some (s @ ''b'')), p_endHandleProc := (\<lambda>_ _ s. Some (s @ ''e''))\<rparr>"

theorem pipeline_hook_order_witness:
  "\<exists>n. first_error_run (\<lambda>s. False) (hook_sequence (beginSourceFileAction [Some (demo_pass Builder 0), Some (demo_pass Guard 5)])
       [((), demo_pass Builder 0, None), ((), demo_pass Guard 5, None)]) [] n ''bbee''"
proof -
  let ?m = "beginSourceFileAction [Some (demo_pass Builder 0), Some (demo_pass Guard 5)]"
  have m: "?m Builder = [(0, demo_pass Builder 0)]" "?m Guard = [(5, demo_pass Guard 5)]" "?m Misc = []"
    by (simp_all add: beginSourceFileAction_def register_pass_def demo_pass_def base_pass_def omap_set_def)
  have s: "select_tasks (\<lambda>s. False) (\<lambda>_ s. s) ?m [()] [] = Some (Continue [] [((), demo_pass Builder 0, None), ((), demo_pass Guard 5, None)])"
    by (simp add: select_tasks_def unless_error_def appendBuilderPassTasks_def m ID_DefaultBuilder_def)
      (simp add: demo_pass_def)
  have e: "endProcessDocument (\<lambda>s. False) (\<lambda>_ s. s) ?m [()] [] = Some ''bbee''"
    unfolding endProcessDocument_run [OF s]
    by (simp add: hook_sequence_def all_passes_def m task_begin_def task_end_def) (auto simp: demo_pass_def base_pass_def)
  show ?thesis using pipeline_hook_order [OF s _ e] by blast
qed

end
