(* ===== verification/Document_Context.thy ===== *)
theory Document_Context
  imports Document_Collect Pass_Pipeline "HOL-Library.Word"
begin

text \<open>
  The document of a generate run (\<open>src/libs/TLCApi/DocumentContext.cpp\<close>): the procs it makes of the
  collected matches, the passes it runs over them and the translation unit it writes. Clang's types and
  name mangling are parameters; the passes keep their own state in a field of the document.
\<close>

subsection \<open>State\<close>

datatype Mode = Guest | Host

record ('t, 'z) document =
  dc_mode :: Mode
  dc_preIncludeFileName :: string
  dc_mainFileName :: string
  dc_requestedFunctions :: "ProcDirection \<Rightarrow> string list"
  dc_requestedCallbacks :: "(string \<times> string) list"
  dc_functionDecls :: "ProcDirection \<Rightarrow> (string \<times> 't FunctionDecl) list"
  dc_callbackTypes :: "(string \<times> 't \<times> string) list"
  dc_head :: SourceLineList
  dc_tail :: SourceLineList
  dc_procs :: "ProcKind \<Rightarrow> ProcDirection \<Rightarrow> (string \<times> 't ProcSnippet) list"
  dc_errors :: "string list"
  dc_passState :: 'z

type_synonym proc_ref = "ProcKind \<times> ProcDirection \<times> string"

definition document_init ::
    "Mode \<Rightarrow> string \<Rightarrow> string \<Rightarrow> (ProcDirection \<Rightarrow> string list) \<Rightarrow> (string \<times> string) list \<Rightarrow> 'z \<Rightarrow> ('t, 'z) document" where
  "document_init mode preInclude mainFile functions callbacks z =
     \<lparr>dc_mode = mode, dc_preIncludeFileName = preInclude, dc_mainFileName = mainFile,
      dc_requestedFunctions = functions, dc_requestedCallbacks = callbacks, dc_functionDecls = (\<lambda>_. []),
      dc_callbackTypes = [], dc_head = [], dc_tail = [], dc_procs = (\<lambda>_ _. []), dc_errors = [], dc_passState = z\<rparr>"

definition reportError :: "string \<Rightarrow> ('t, 'z) document \<Rightarrow> ('t, 'z) document" where
  "reportError message doc = doc\<lparr>dc_errors := dc_errors doc @ [''LoreTLC: '' @ message]\<rparr>"

definition hasErrorOccurred :: "('t, 'z) document \<Rightarrow> bool" where
  "hasErrorOccurred doc \<longleftrightarrow> dc_errors doc \<noteq> []"

definition proc_refs :: "('t, 'z) document \<Rightarrow> proc_ref list" where
  "proc_refs doc = concat (map (\<lambda>kind. concat (map (\<lambda>direction.
     map (\<lambda>(name, _). (kind, direction, name)) (dc_procs doc kind direction)) [GuestToHost, HostToGuest])) [Function, Callback])"

definition proc_at :: "('t, 'z) document \<Rightarrow> proc_ref \<Rightarrow> 't ProcSnippet option" where
  "proc_at doc r = (case r of (kind, direction, name) \<Rightarrow> map_of (dc_procs doc kind direction) name)"

definition put_procs ::
    "ProcKind \<Rightarrow> ProcDirection \<Rightarrow> (string \<times> 't ProcSnippet) list \<Rightarrow> ('t, 'z) document \<Rightarrow> ('t, 'z) document" where
  "put_procs kind direction ps doc =
     doc\<lparr>dc_procs := (dc_procs doc)(kind := (dc_procs doc kind)(direction := ps))\<rparr>"

definition put_proc :: "proc_ref \<Rightarrow> 't ProcSnippet \<Rightarrow> ('t, 'z) document \<Rightarrow> ('t, 'z) document" where
  "put_proc r p doc = (case r of (kind, direction, name) \<Rightarrow>
     put_procs kind direction (omap_set name p (dc_procs doc kind direction)) doc)"

subsection \<open>The proc template\<close>

text \<open>A template parameter: of an enumeration or of another type, each with its name, or not a value.\<close>

datatype template_param = Value_param string "string option" | Type_param

definition check_enum_param :: "template_param \<Rightarrow> string \<Rightarrow> string option" where
  "check_enum_param param enumName =
     (case param of
        Value_param name (Some e) \<Rightarrow>
          if e \<noteq> enumName then Some (''invalid template parameter type of '' @ name) else None
      | Value_param name None \<Rightarrow> Some (''invalid template parameter type of '' @ name)
      | Type_param \<Rightarrow> Some (''failed to find template parameter '' @ enumName))"

definition alias_maker_initialize :: "string \<Rightarrow> template_param list \<Rightarrow> string option" where
  "alias_maker_initialize name params =
     (if length params \<noteq> 3 then Some (''invalid template parameter count of '' @ name)
      else case check_enum_param (params ! 1) ''ProcDirection'' of
             Some err \<Rightarrow> Some err
           | None \<Rightarrow> check_enum_param (params ! 2) ''ProcPhase'')"

subsection \<open>Making the procs\<close>

definition filter_function ::
    "string \<times> 't FunctionDecl \<Rightarrow> ProcDirection \<Rightarrow> ('t, 'z) document \<Rightarrow> ('t, 'z) document" where
  "filter_function entry d doc =
     (case entry of (name, fd) \<Rightarrow>
        if name \<in> set (dc_requestedFunctions doc d)
        then doc\<lparr>dc_functionDecls := (dc_functionDecls doc)(d := omap_set name fd (dc_functionDecls doc d))\<rparr>
        else doc)"

definition filter_functions :: "(string \<times> 't FunctionDecl) list \<Rightarrow> ('t, 'z) document \<Rightarrow> ('t, 'z) document" where
  "filter_functions functionByName doc =
     fold (\<lambda>entry doc. fold (filter_function entry) [GuestToHost, HostToGuest] doc) functionByName doc"

definition callback_requested :: "(string \<times> string) list \<Rightarrow> string \<Rightarrow> string \<Rightarrow> bool" where
  "callback_requested callbacks signature aliasName \<longleftrightarrow>
     map_of callbacks signature \<noteq> None \<or>
     (aliasName \<noteq> [] \<and> list_ex (\<lambda>entry. snd entry = aliasName) callbacks)"

definition filter_callbacks :: "(string \<times> 't \<times> string) list \<Rightarrow> ('t, 'z) document \<Rightarrow> ('t, 'z) document" where
  "filter_callbacks named doc =
     fold (\<lambda>(signature, t, name) doc.
       if callback_requested (dc_requestedCallbacks doc) signature name
       then doc\<lparr>dc_callbackTypes := omap_set signature (t, name) (dc_callbackTypes doc)\<rparr>
       else doc) named doc"

definition phase_definitions :: "(ProcPhase \<Rightarrow> (string \<times> nat) list) \<Rightarrow> string \<Rightarrow> ProcPhase \<Rightarrow> nat" where
  "phase_definitions table key phase =
     (if phase = Exec then 0 else case map_of (table phase) key of Some decl \<Rightarrow> decl | None \<Rightarrow> 0)"

definition emplace_proc ::
    "ProcKind \<Rightarrow> ProcDirection \<Rightarrow> string \<Rightarrow> 't ProcSnippet \<Rightarrow> ('t, 'z) document \<Rightarrow> ('t, 'z) document" where
  "emplace_proc kind d key p doc = put_procs kind d (omap_emplace key p (dc_procs doc kind d)) doc"

definition add_function ::
    "'t clang_types \<Rightarrow> 't matches \<Rightarrow> ProcDirection \<Rightarrow> string \<times> 't FunctionDecl \<Rightarrow> ('t, 'z) document \<Rightarrow> ('t, 'z) document option" where
  "add_function C m d entry doc =
     (case entry of (name, fd) \<Rightarrow>
        map_option (\<lambda>p. emplace_proc Function d name p doc)
          (function_proc C d fd name (map_of (mt_functionDescByName m) name)
             (phase_definitions (mt_procFnDeclByName m d) name)))"

definition add_functions :: "'t clang_types \<Rightarrow> 't matches \<Rightarrow> ProcDirection \<Rightarrow> ('t, 'z) document \<Rightarrow> ('t, 'z) document option" where
  "add_functions C m d doc = for_each (add_function C m d) (dc_functionDecls doc d) doc"

text \<open>The specializations are keyed by the signature, the proc by its name if it has one.\<close>

definition add_callback ::
    "'t clang_types \<Rightarrow> 't matches \<Rightarrow> string \<times> 't \<times> string \<Rightarrow> ProcDirection \<Rightarrow> ('t, 'z) document \<Rightarrow> ('t, 'z) document option" where
  "add_callback C m entry d doc =
     (case entry of (signature, t, name) \<Rightarrow>
        (let key = (if name = [] then signature else name) in
         map_option (\<lambda>p. emplace_proc Callback d key p doc)
           (callback_proc C d t name (map_of (mt_callbackDescBySignature m) signature)
              (phase_definitions (mt_procCbDeclBySignature m d) signature))))"

definition add_callbacks :: "'t clang_types \<Rightarrow> 't matches \<Rightarrow> ('t, 'z) document \<Rightarrow> ('t, 'z) document option" where
  "add_callbacks C m doc =
     for_each (\<lambda>entry doc. for_each (add_callback C m entry) [GuestToHost, HostToGuest] doc) (dc_callbackTypes doc) doc"

definition make_procs :: "'t clang_types \<Rightarrow> 't matches \<Rightarrow> ('t, 'z) document \<Rightarrow> ('t, 'z) document option" where
  "make_procs C m doc =
     for_each (add_functions C m) [GuestToHost, HostToGuest]
       (filter_callbacks (mt_namedCallbackBySignature m) (filter_functions (mt_functionByName m) doc))
     \<bind> add_callbacks C m"

text \<open>\<open>template_params\<close> gives the parameters of a template declaration.\<close>

definition collect_procs ::
    "'t clang_types \<Rightarrow> (nat \<Rightarrow> template_param list) \<Rightarrow> 't match_result list \<Rightarrow> ('t, 'z) document \<Rightarrow> (('t, 'z) document \<times> bool) option" where
  "collect_procs C template_params results doc =
     (let m = fold (matchCallback C) results matches_init in
      case mt_procFnTemplateDecl m of
        None \<Rightarrow> Some (reportError ''ProcFn template declaration not found'' doc, False)
      | Some decl \<Rightarrow>
          (case alias_maker_initialize ''ProcFn'' (template_params decl) of
             Some err \<Rightarrow> Some (reportError err doc, False)
           | None \<Rightarrow> map_option (\<lambda>doc. (doc, True)) (make_procs C m doc)))"

definition beginProcessDocument ::
    "'t clang_types \<Rightarrow> (nat \<Rightarrow> template_param list) \<Rightarrow> (('t, 'z) document, proc_ref, 'm) pass_maps \<Rightarrow>
       't match_result list \<Rightarrow> ('t, 'z) document \<Rightarrow> ('t, 'z) document option" where
  "beginProcessDocument C template_params maps results doc =
     (case collect_procs C template_params results doc of
        None \<Rightarrow> None
      | Some (doc, False) \<Rightarrow> Some doc
      | Some (doc, True) \<Rightarrow> begin_hooks hasErrorOccurred maps doc)"

definition handleTranslationUnit ::
    "(('t, 'z) document, proc_ref, 'm) pass_maps \<Rightarrow> ('t, 'z) document \<Rightarrow> ('t, 'z) document option" where
  "handleTranslationUnit maps doc = handle_hooks hasErrorOccurred maps doc"

definition end_document ::
    "(('t, 'z) document, proc_ref, 'm) pass_maps \<Rightarrow> ('t, 'z) document \<Rightarrow> ('t, 'z) document option" where
  "end_document maps doc = endProcessDocument hasErrorOccurred reportError maps (proc_refs doc) doc"

subsection \<open>Writing the translation unit\<close>

text \<open>\<open>std::filesystem::path::filename\<close>: what follows the last slash.\<close>

definition path_filename :: "string \<Rightarrow> string" where
  "path_filename path = rev (takeWhile (\<lambda>c. c \<noteq> CHR ''/'') (rev path))"

text \<open>\<open>std::string(n, c)\<close> throws above \<open>max_size\<close>.\<close>

definition string_max_size :: nat where
  "string_max_size = 2 ^ 63 - 1"

definition string_fill :: "64 word \<Rightarrow> char \<Rightarrow> string option" where
  "string_fill n c = (if unat n \<le> string_max_size then Some (replicate (unat n) c) else None)"

text \<open>The subtraction is one of \<open>size_t\<close>, the result is narrowed to \<open>int\<close> and widened again.\<close>

definition legendLine :: "string \<Rightarrow> string option" where
  "legendLine name =
     (let kLegendWidth = 75 :: 64 word;
          eqCount = (ucast ((kLegendWidth - word_of_nat (length name)) div 2) :: 32 word)
      in do {
        l \<leftarrow> string_fill (scast eqCount) CHR ''='';
        r \<leftarrow> string_fill (scast eqCount) CHR ''='';
        Some (''// '' @ l @ '' '' @ name @ '' '' @ r)
      })"

definition emitManifestPrologue :: "('t, 'z) document \<Rightarrow> string \<Rightarrow> string" where
  "emitManifestPrologue doc os = os @
     ''#define LORE_THUNK_BUILD'' @ eol @ eol @
     ''#include <lorelei/ThunkInterface/Detail/Callback.h>'' @ eol @
     ''#include <lorelei/ThunkInterface/Detail/Variadic.h>'' @ eol @
     eol @
     ''#include '' @ [CHR 0x22] @ path_filename (dc_preIncludeFileName doc) @ [CHR 0x22] @ eol @
     eol"

text \<open>
  \<open>getInvokeAlias\<close> is a parameter: the mangled name of the proc's \<open>invoke\<close>, or an error. An error stops
  the loop with the text written so far.
\<close>

fun exported_aliases ::
    "'t clang_types \<Rightarrow> (string \<Rightarrow> string \<Rightarrow> 't FunctionDecl \<Rightarrow> 't option \<Rightarrow> string + string) \<Rightarrow> bool \<Rightarrow>
       't ProcSnippet list \<Rightarrow> string \<Rightarrow> (string \<times> string option) option" where
  "exported_aliases C getInvokeAlias isHost [] os = Some (os, None)"
| "exported_aliases C getInvokeAlias isHost (p # ps) os =
     (case ps_functionDecl p of
        None \<Rightarrow> None
      | Some fd \<Rightarrow>
          (case getInvokeAlias (if isHost then ''HostToGuest'' else ''GuestToHost'') ''Entry'' fd
                  (Option.bind (ps_desc p) ds_overlayType) of
             Inl err \<Rightarrow> Some (os, Some err)
           | Inr aliasName \<Rightarrow>
               (let symbol = (if isHost then ''GTL_'' @ ps_name p else ps_name p) in
                case declText C (info_of_decl fd) symbol of
                  None \<Rightarrow> None
                | Some decl \<Rightarrow> exported_aliases C getInvokeAlias isHost ps
                    (os @ ''LORE_DECL_EXPORT '' @ decl @ eol @ ''    __attribute__((alias('' @ [CHR 0x22] @ aliasName @ [CHR 0x22] @ '')));'' @ eol))))"

definition emitExportedAliases ::
    "'t clang_types \<Rightarrow> (string \<Rightarrow> string \<Rightarrow> 't FunctionDecl \<Rightarrow> 't option \<Rightarrow> string + string) \<Rightarrow>
       ('t, 'z) document \<Rightarrow> string \<Rightarrow> (string \<times> ('t, 'z) document) option" where
  "emitExportedAliases C getInvokeAlias doc os =
     (let os = os @ ''extern '' @ [CHR 0x22] @ ''C'' @ [CHR 0x22] @ '' {'' @ eol @
            ''#pragma GCC diagnostic push'' @ eol @
            ''#pragma GCC diagnostic ignored '' @ [CHR 0x22] @ ''-Wattribute-alias'' @ [CHR 0x22] @ eol;
          isHost = (dc_mode doc = Host);
          direction = (if isHost then HostToGuest else GuestToHost)
      in case exported_aliases C getInvokeAlias isHost (map snd (dc_procs doc Function direction)) os of
           None \<Rightarrow> None
         | Some (os, Some err) \<Rightarrow> Some (os, reportError err doc)
         | Some (os, None) \<Rightarrow> Some (os @ ''#pragma GCC diagnostic pop'' @ eol @ ''}'' @ eol @ eol, doc))"

definition foreach_line :: "'t ProcSnippet \<Rightarrow> string \<Rightarrow> string" where
  "foreach_line p os = os @ '' '' @ [CHR 0x5C] @ eol @ ''    F('' @ ps_name p @ '')''"

text \<open>The procs of a map, in order; \<open>value()\<close> of a callback's type throws where there is none.\<close>

definition callback_using :: "'t clang_types \<Rightarrow> 't ProcSnippet \<Rightarrow> string \<Rightarrow> string option" where
  "callback_using C p os =
     map_option (\<lambda>t. os @ ''using '' @ ps_name p @ '' = '' @ getTypeString C t @ '';'' @ eol) (ps_functionPointerType p)"

definition callback_foreach_line :: "'t clang_types \<Rightarrow> 't ProcSnippet \<Rightarrow> string \<Rightarrow> string option" where
  "callback_foreach_line C p os =
     map_option (\<lambda>t. os @ '' '' @ [CHR 0x5C] @ eol @ ''    F('' @ ps_name p @ '', '' @ [CHR 0x22] @ getTypeString C t @ [CHR 0x22] @ '')'')
       (ps_functionPointerType p)"

definition emitForeachMacros :: "'t clang_types \<Rightarrow> ('t, 'z) document \<Rightarrow> string \<Rightarrow> string option" where
  "emitForeachMacros C doc os =
     (let procs = (\<lambda>kind d. map snd (dc_procs doc kind d));
          os = os @ ''#define LORE_THUNK_FUNCTION_G2H_FOREACH(F)'';
          os = fold foreach_line (procs Function GuestToHost) os @ eol @ eol;
          os = os @ ''#define LORE_THUNK_FUNCTION_H2G_FOREACH(F)'';
          os = fold foreach_line (procs Function HostToGuest) os @ eol @ eol
      in do {
        os \<leftarrow> for_each (callback_using C) (procs Callback GuestToHost) (os @ ''namespace lore::thunk {'' @ eol @ eol);
        os \<leftarrow> for_each (callback_foreach_line C) (procs Callback GuestToHost)
               (os @ eol @ ''}'' @ eol @ eol @ ''#define LORE_THUNK_CALLBACK_FOREACH(F)'');
        Some (os @ eol @ eol)
      })"

definition emit_phase :: "'t clang_types \<Rightarrow> bool \<Rightarrow> 't ProcSnippet \<Rightarrow> ProcPhase \<Rightarrow> string \<Rightarrow> string option" where
  "emit_phase C asDeclaration p phase os =
     (if \<not> hasDefinition p phase then map_option (\<lambda>txt. os @ txt @ eol) (proc_text C p phase asDeclaration)
      else Some os)"

definition emit_proc :: "'t clang_types \<Rightarrow> bool \<Rightarrow> 't ProcSnippet \<Rightarrow> string \<Rightarrow> string option" where
  "emit_proc C asDeclaration p os = do {
     legend \<leftarrow> legendLine (ps_name p);
     for_each (emit_phase C asDeclaration p) [Caller, Adapt, Entry] (os @ legend @ eol)
   }"

definition all_procs :: "('t, 'z) document \<Rightarrow> 't ProcSnippet list" where
  "all_procs doc = concat (map (\<lambda>kind. concat (map (\<lambda>d. map snd (dc_procs doc kind d)) [GuestToHost, HostToGuest])) [Function, Callback])"

definition emitProcTexts :: "'t clang_types \<Rightarrow> ('t, 'z) document \<Rightarrow> bool \<Rightarrow> string \<Rightarrow> string option" where
  "emitProcTexts C doc asDeclaration os = for_each (emit_proc C asDeclaration) (all_procs doc) os"

definition missing_comment :: "('t, 'z) document \<Rightarrow> ProcDirection \<Rightarrow> string \<Rightarrow> string \<Rightarrow> string" where
  "missing_comment doc d name os =
     (if map_of (dc_functionDecls doc d) name \<noteq> None then os else os @ ''// '' @ name @ eol)"

definition emitMissingComments :: "('t, 'z) document \<Rightarrow> string \<Rightarrow> string" where
  "emitMissingComments doc os =
     (let os = os @ ''//'' @ eol @ ''// Missing Function Declarations'' @ eol @ ''//'' @ eol;
          os = fold (missing_comment doc GuestToHost) (dc_requestedFunctions doc GuestToHost) os @ eol;
          os = os @ ''//'' @ eol @ ''// Missing Guest Function Declarations'' @ eol @ ''//'' @ eol;
          os = fold (missing_comment doc HostToGuest) (dc_requestedFunctions doc HostToGuest) os @ eol
      in os @ ''//'' @ eol @ ''// Missing Variable Declarations'' @ eol @ ''//'' @ eol @ eol)"

definition generateOutput ::
    "'t clang_types \<Rightarrow> (string \<Rightarrow> string \<Rightarrow> 't FunctionDecl \<Rightarrow> 't option \<Rightarrow> string + string) \<Rightarrow>
       ('t, 'z) document \<Rightarrow> string \<Rightarrow> (string \<times> ('t, 'z) document) option" where
  "generateOutput C getInvokeAlias doc os =
     (case emitExportedAliases C getInvokeAlias doc (emitManifestPrologue doc os) of
        None \<Rightarrow> None
      | Some (os, doc) \<Rightarrow>
          if hasErrorOccurred doc then Some (os, doc)
          else do {
            os \<leftarrow> emitForeachMacros C doc (os @ toRawText (dc_head doc) @ eol);
            os \<leftarrow> emitProcTexts C doc True (os @ ''namespace lore::thunk {'' @ eol @ eol);
            os \<leftarrow> emitProcTexts C doc False
              (os @ ''}'' @ eol @ eol @
               ''#include '' @ [CHR 0x22] @ path_filename (dc_mainFileName doc) @ [CHR 0x22] @ eol @ eol @
               ''namespace lore::thunk {'' @ eol @ eol);
            Some (emitMissingComments doc (os @ ''}'' @ eol @ eol @ toRawText (dc_tail doc) @ eol) @
              ''#include <lorelei/ThunkInterface/Detail/ProcImpl.cpp.inc>'' @ eol @ eol, doc)
          })"

subsection \<open>The banner\<close>

text \<open>A signed number of 32 bits widened to 64: above \<open>2^31\<close> it becomes huge.\<close>

lemma sint32: "sint (y :: 32 word) = (if uint y < 2 ^ 31 then uint y else uint y - 2 ^ 32)"
proof -
  have b: "0 \<le> uint y" "uint y < 2 ^ 32" using uint_lt2p [of y] by simp_all
  have "uint y div 2 ^ 31 = (if uint y < 2 ^ 31 then 0 else 1)" using b by (auto intro: int_div_pos_eq [where r = "uint y - 2 ^ 31"])
  then have "bit (uint y) 31 \<longleftrightarrow> \<not> uint y < 2 ^ 31" unfolding bit_iff_odd by (metis even_zero odd_one)
  moreover have "take_bit 32 (uint y) = uint y" using b by (simp only: take_bit_int_eq_self)
  ultimately show ?thesis by (simp add: sint_uint signed_take_bit_eq_take_bit_minus)
qed

lemma scast_up: "unat (scast (y :: 32 word) :: 64 word) = (if unat y < 2 ^ 31 then unat y else unat y + (2 ^ 64 - 2 ^ 32))"
proof -
  have b: "0 \<le> uint y" "uint y < 2 ^ 32" using uint_lt2p [of y] by simp_all
  have "uint (scast y :: 64 word) = sint y mod 2 ^ 64" by (simp only: scast_eq uint_word_of_int) simp
  also have "\<dots> = (if uint y < 2 ^ 31 then uint y else uint y + (2 ^ 64 - 2 ^ 32))"
  proof (cases "uint y < 2 ^ 31")
    case True
    then show ?thesis using b by (simp add: sint32)
  next
    case False
    have "(uint y - 2 ^ 32) mod 2 ^ 64 = (uint y - 2 ^ 32 + 2 ^ 64) mod 2 ^ 64" by (rule mod_add_self2 [symmetric])
    also have "\<dots> = uint y - 2 ^ 32 + 2 ^ 64" using b False by (intro mod_pos_pos_trivial) simp_all
    finally show ?thesis using False by (simp add: sint32)
  qed
  finally have u: "uint (scast y :: 64 word) = (if uint y < 2 ^ 31 then uint y else uint y + (2 ^ 64 - 2 ^ 32))" .
  obtain n where n: "uint y = int n" "unat y = n" using b(1) by (metis nonneg_int_cases unat_eq_nat_uint nat_int)
  have "unat (scast y :: 64 word) = nat (if int n < 2 ^ 31 then int n else int n + (2 ^ 64 - 2 ^ 32))"
    unfolding unat_eq_nat_uint u n(1) ..
  also have "\<dots> = (if n < 2 ^ 31 then n else n + (2 ^ 64 - 2 ^ 32))" by (cases "n < 2 ^ 31") (simp_all add: nat_add_distrib)
  finally show ?thesis unfolding n(2) .
qed

lemma legend_count:
  assumes "k < 2 ^ 32"
  shows "unat (scast (ucast ((75 - word_of_nat k :: 64 word) div 2) :: 32 word) :: 64 word) =
    (if k \<le> 75 then (75 - k) div 2 else 2 ^ 64 - (k - 74) div 2)"
proof -
  have kw: "unat (word_of_nat k :: 64 word) = k" using assms by (simp add: unat_of_nat)
  have d: "unat (75 - word_of_nat k :: 64 word) = (if k \<le> 75 then 75 - k else 2 ^ 64 + 75 - k)"
    using assms kw by (auto simp: unat_sub_if')
  have c: "unat (ucast x :: 32 word) = unat x mod 2 ^ 32" for x :: "64 word"
    by (simp add: unsigned_ucast_eq unsigned_take_bit_eq take_bit_eq_mod)
  have dv: "unat (x div 2) = unat x div 2" for x :: "64 word" by (simp add: unat_div)
  show ?thesis
  proof (cases "k \<le> 75")
    case True
    then have u: "unat (ucast ((75 - word_of_nat k :: 64 word) div 2) :: 32 word) = (75 - k) div 2"
      by (simp add: c unat_div d)
    have "(75 - k) div 2 < 2 ^ 31" by simp
    then show ?thesis using True by (simp only: scast_up u if_True)
  next
    case False
    then obtain j where k: "k = 75 + j" "0 < j" by (metis add_diff_inverse_nat nat_le_linear not_less zero_less_diff)
    have j: "j < 2 ^ 32" using assms k by simp
    define h where "h = (j + 1) div 2"
    have h: "0 < h" "h \<le> 2 ^ 31" using j k(2) by (auto simp: h_def)
    have "j = 2 * h \<or> j + 1 = 2 * h" unfolding h_def by presburger
    then have "(2 ^ 64 - j) div 2 = 2 ^ 63 - h" using j h by auto
    also have "\<dots> = 2 ^ 32 * (2 ^ 31 - 1) + (2 ^ 32 - h)" using h by simp
    finally have "(2 ^ 64 - j) div 2 mod 2 ^ 32 = (2 ^ 32 * (2 ^ 31 - 1) + (2 ^ 32 - h)) mod 2 ^ 32" by (rule arg_cong)
    also have "\<dots> = (2 ^ 32 - h) mod 2 ^ 32" by (rule mod_mult_self4)
    also have "\<dots> = 2 ^ 32 - h" using h by (intro mod_less) simp
    finally have m: "(2 ^ 64 - j) div 2 mod 2 ^ 32 = 2 ^ 32 - h" .
    have "unat (75 - word_of_nat k :: 64 word) = 2 ^ 64 - j" unfolding d using False k(1) by simp
    then have "unat (ucast ((75 - word_of_nat k :: 64 word) div 2) :: 32 word) = 2 ^ 32 - h"
      by (simp only: c dv m)
    moreover have "\<not> 2 ^ 32 - h < 2 ^ 31" using h by simp
    moreover have "2 ^ 32 - h + (2 ^ 64 - 2 ^ 32) = 2 ^ 64 - h" using h by simp
    moreover have "(k - 74) div 2 = h" using k by (simp add: h_def)
    ultimately show ?thesis using False by (simp only: scast_up if_False)
  qed
qed

lemma legendLine_cases:
  assumes "length name < 2 ^ 32"
  shows "legendLine name =
    (if length name \<le> 75
     then Some (''// '' @ replicate ((75 - length name) div 2) CHR ''='' @ '' '' @ name @ '' '' @ replicate ((75 - length name) div 2) CHR ''='')
     else None)"
proof -
  let ?w = "scast (ucast ((75 - word_of_nat (length name) :: 64 word) div 2) :: 32 word) :: 64 word"
  have f: "string_fill ?w c = (if length name \<le> 75 then Some (replicate ((75 - length name) div 2) c) else None)" for c
  proof (cases "length name \<le> 75")
    case True
    then have "(75 - length name) div 2 \<le> string_max_size" by (simp add: string_max_size_def)
    then show ?thesis using True by (simp only: string_fill_def legend_count [OF assms] if_True)
  next
    case False
    define h where "h = (length name - 74) div 2"
    have "\<not> 2 ^ 64 - h \<le> string_max_size" using assms by (simp add: h_def string_max_size_def)
    then show ?thesis using False by (simp only: string_fill_def legend_count [OF assms] if_False h_def)
  qed
  show ?thesis unfolding legendLine_def Let_def f by simp
qed

text \<open>A successful loop that only appends.\<close>

lemma for_each_appending:
  assumes "\<And>x s. x \<in> set xs \<Longrightarrow> f x s = map_option (\<lambda>t. s @ t) (g x)"
  shows "for_each f xs s = (if \<forall>x \<in> set xs. g x \<noteq> None then Some (s @ concat (map (\<lambda>x. the (g x)) xs)) else None)"
  using assms
proof (induction xs arbitrary: s)
  case (Cons x xs)
  then show ?case by (cases "g x") auto
qed simp

text \<open>The phases of a proc that the manifest does not define, and the text of a proc.\<close>

definition generated_phases :: "'t ProcSnippet \<Rightarrow> ProcPhase list" where
  "generated_phases p = filter (\<lambda>phase. \<not> hasDefinition p phase) [Caller, Adapt, Entry]"

definition phase_texts :: "'t clang_types \<Rightarrow> bool \<Rightarrow> 't ProcSnippet \<Rightarrow> string option" where
  "phase_texts C asDeclaration p =
     (if \<forall>phase \<in> set (generated_phases p). proc_text C p phase asDeclaration \<noteq> None
      then Some (concat (map (\<lambda>phase. the (proc_text C p phase asDeclaration) @ eol) (generated_phases p)))
      else None)"

definition proc_section :: "'t clang_types \<Rightarrow> bool \<Rightarrow> 't ProcSnippet \<Rightarrow> string option" where
  "proc_section C asDeclaration p =
     (if length (ps_name p) \<le> 75
      then map_option (\<lambda>txt. the (legendLine (ps_name p)) @ eol @ txt) (phase_texts C asDeclaration p)
      else None)"

lemma emit_phases:
  "for_each (emit_phase C b p) phases os =
     for_each (\<lambda>phase os. map_option (\<lambda>txt. os @ txt @ eol) (proc_text C p phase b))
       (filter (\<lambda>phase. \<not> hasDefinition p phase) phases) os"
  by (induction phases arbitrary: os) (auto simp: emit_phase_def split: option.split)

lemma emit_proc_section:
  assumes "length (ps_name p) < 2 ^ 32"
  shows "emit_proc C b p os = map_option (\<lambda>t. os @ t) (proc_section C b p)"
proof -
  have "for_each (\<lambda>phase os. map_option (\<lambda>txt. os @ txt @ eol) (proc_text C p phase b)) (generated_phases p) os =
      map_option (\<lambda>t. os @ t) (phase_texts C b p)" for os
    by (subst for_each_appending [where g = "\<lambda>phase. map_option (\<lambda>txt. txt @ eol) (proc_text C p phase b)"])
      (auto simp: phase_texts_def option.map_comp comp_def option.map_sel intro!: arg_cong [of _ _ concat])
  then have ph: "for_each (emit_phase C b p) [Caller, Adapt, Entry] os = map_option (\<lambda>t. os @ t) (phase_texts C b p)" for os
    unfolding emit_phases generated_phases_def [symmetric] .
  show ?thesis
  proof (cases "length (ps_name p) \<le> 75")
    case True
    then obtain l where "legendLine (ps_name p) = Some l" by (simp add: legendLine_cases [OF assms])
    then show ?thesis using True unfolding emit_proc_def proc_section_def ph by (cases "phase_texts C b p") simp_all
  next
    case False
    then show ?thesis by (simp add: emit_proc_def proc_section_def legendLine_cases [OF assms])
  qed
qed

text \<open>
  C33. The text of every proc is written, in order: the banner and the phases the manifest does not
  define. Nothing at all is written when one of the names has more than 75 characters: the banner's
  padding is then negative, and the string of that many characters throws.
\<close>

theorem proc_texts_written:
  assumes "\<forall>p \<in> set (all_procs doc). length (ps_name p) < 2 ^ 32"
  shows "emitProcTexts C doc asDeclaration os =
    (if \<forall>p \<in> set (all_procs doc). proc_section C asDeclaration p \<noteq> None
     then Some (os @ concat (map (\<lambda>p. the (proc_section C asDeclaration p)) (all_procs doc)))
     else None)"
  unfolding emitProcTexts_def using assms by (intro for_each_appending emit_proc_section) simp

subsection \<open>The collected procs\<close>

text \<open>What a fold over a map leaves of a set of its entries.\<close>

lemma fold_filter_set:
  assumes "omap_ok m0"
  shows "omap_ok (fold (\<lambda>(k, v) m. if P k v then omap_set k v m else m) es m0) \<and>
    map_of (fold (\<lambda>(k, v) m. if P k v then omap_set k v m else m) es m0) =
      map_of m0 ++ map_of (rev (filter (\<lambda>(k, v). P k v) es))"
  using assms
proof (induction es arbitrary: m0)
  case (Cons e es)
  obtain k v where e: "e = (k, v)" by fastforce
  have "omap_ok (omap_set k v m0)" using Cons.prems by (simp add: omap_set_ok)
  from Cons.IH [OF this] Cons.IH [OF Cons.prems] show ?case
    by (auto simp: e map_of_set Cons.prems map_add_def fun_eq_iff split: option.splits)
qed simp

lemma map_of_filter_keys:
  "map_of (filter (\<lambda>(k, v). P k) es) k = (if P k then map_of es k else None)"
  by (induction es) auto

lemma filter_functions_decls:
  "dc_functionDecls (filter_functions es doc) d =
     fold (\<lambda>(k, v) m. if k \<in> set (dc_requestedFunctions doc d) then omap_set k v m else m) es (dc_functionDecls doc d)
   \<and> (\<exists>D. filter_functions es doc = doc\<lparr>dc_functionDecls := D\<rparr>)"
proof (induction es arbitrary: doc)
  case Nil
  have "\<exists>D. doc = doc\<lparr>dc_functionDecls := D\<rparr>" by (rule exI [of _ "dc_functionDecls doc"]) simp
  then show ?case unfolding filter_functions_def by simp
next
  case (Cons e es)
  obtain k v where e: "e = (k, v)" by fastforce
  define doc1 where "doc1 = filter_function e HostToGuest (filter_function e GuestToHost doc)"
  have u: "filter_functions (e # es) doc = filter_functions es doc1"
    by (simp add: filter_functions_def doc1_def)
  have r: "dc_requestedFunctions doc1 = dc_requestedFunctions doc"
    by (simp add: doc1_def filter_function_def e)
  have x: "\<exists>D. doc1 = doc\<lparr>dc_functionDecls := D\<rparr>"
  proof -
    have "\<exists>D. doc = doc\<lparr>dc_functionDecls := D\<rparr>" by (rule exI [of _ "dc_functionDecls doc"]) simp
    then show ?thesis by (auto simp: doc1_def filter_function_def e)
  qed
  have d: "dc_functionDecls doc1 d = (if k \<in> set (dc_requestedFunctions doc d) then omap_set k v (dc_functionDecls doc d) else dc_functionDecls doc d)"
    by (cases d) (auto simp: doc1_def filter_function_def e)
  from Cons.IH [of doc1] x show ?case unfolding u r d by (auto simp: e)
qed

lemma function_proc_some: "\<exists>p. function_proc C d fd name desc defs = Some p"
  by (simp add: function_proc_def initialize_def isFunction_def bare_proc_def)

lemma callback_proc_some: "\<exists>p. callback_proc C d t name desc defs = Some p"
  by (simp add: callback_proc_def initialize_def isFunction_def bare_proc_def)


lemma filter_callbacks_types:
  "dc_callbackTypes (filter_callbacks es doc) =
     fold (\<lambda>(k, v) m. if callback_requested (dc_requestedCallbacks doc) k (snd v) then omap_set k v m else m) es (dc_callbackTypes doc)
   \<and> (\<exists>D. filter_callbacks es doc = doc\<lparr>dc_callbackTypes := D\<rparr>)"
proof (induction es arbitrary: doc)
  case Nil
  have "\<exists>D. doc = doc\<lparr>dc_callbackTypes := D\<rparr>" by (rule exI [of _ "dc_callbackTypes doc"]) simp
  then show ?case unfolding filter_callbacks_def by simp
next
  case (Cons e es)
  obtain signature t name where e: "e = (signature, t, name)" by (cases e) auto
  define doc1 where "doc1 = (if callback_requested (dc_requestedCallbacks doc) signature name
    then doc\<lparr>dc_callbackTypes := omap_set signature (t, name) (dc_callbackTypes doc)\<rparr> else doc)"
  have u: "filter_callbacks (e # es) doc = filter_callbacks es doc1" by (simp add: filter_callbacks_def doc1_def e)
  have r: "dc_requestedCallbacks doc1 = dc_requestedCallbacks doc" by (simp add: doc1_def)
  have x: "\<exists>D. doc1 = doc\<lparr>dc_callbackTypes := D\<rparr>"
  proof -
    have "\<exists>D. doc = doc\<lparr>dc_callbackTypes := D\<rparr>" by (rule exI [of _ "dc_callbackTypes doc"]) simp
    then show ?thesis by (auto simp: doc1_def)
  qed
  have d: "dc_callbackTypes doc1 = (if callback_requested (dc_requestedCallbacks doc) signature name
    then omap_set signature (t, name) (dc_callbackTypes doc) else dc_callbackTypes doc)" by (simp add: doc1_def)
  from Cons.IH [of doc1] x show ?case unfolding u r d by (auto simp: e)
qed

text \<open>Emplacing a list of entries: a key keeps its first value.\<close>

definition emplace_all :: "('k::linorder \<times> 'v) list \<Rightarrow> ('k \<times> 'v) list \<Rightarrow> ('k \<times> 'v) list" where
  "emplace_all es m = fold (\<lambda>(k, v). omap_emplace k v) es m"

lemma emplace_all_lookup:
  "omap_ok m \<Longrightarrow> omap_ok (emplace_all es m) \<and> map_of (emplace_all es m) = map_of es ++ map_of m"
proof (induction es arbitrary: m)
  case (Cons e es)
  obtain k v where e: "e = (k, v)" by fastforce
  have ok: "omap_ok (omap_emplace k v m)" using Cons.prems by (simp add: omap_emplace_ok)
  have "map_of (omap_emplace k v m) = (map_of m)(k \<mapsto> (case map_of m k of None \<Rightarrow> v | Some w \<Rightarrow> w))"
    unfolding omap_emplace_def by (rule map_of_update [OF Cons.prems])
  then show ?case using Cons.IH [OF ok]
    by (auto simp: e emplace_all_def map_add_def fun_eq_iff split: option.splits)
qed (simp add: emplace_all_def)

definition function_entry_proc ::
    "'t clang_types \<Rightarrow> 't matches \<Rightarrow> ProcDirection \<Rightarrow> string \<Rightarrow> 't FunctionDecl \<Rightarrow> 't ProcSnippet" where
  "function_entry_proc C m d name fd = the (function_proc C d fd name (map_of (mt_functionDescByName m) name)
     (phase_definitions (mt_procFnDeclByName m d) name))"

lemma add_function_emplaces:
  "add_function C m d (name, fd) doc = Some (emplace_proc Function d name (function_entry_proc C m d name fd) doc)"
proof -
  obtain p where "function_proc C d fd name (map_of (mt_functionDescByName m) name)
      (phase_definitions (mt_procFnDeclByName m d) name) = Some p"
    using function_proc_some by blast
  then show ?thesis by (simp add: add_function_def function_entry_proc_def)
qed

lemma put_procs_simps [simp]:
  "dc_procs (put_procs k d ps doc) = (dc_procs doc)(k := (dc_procs doc k)(d := ps))"
  "put_procs k d ps (put_procs k d qs doc) = put_procs k d ps doc"
  "put_procs k d (dc_procs doc k d) doc = doc"
  by (simp_all add: put_procs_def)

lemma add_function_loop:
  "for_each (add_function C m d) es doc =
     Some (put_procs Function d
       (emplace_all (map (\<lambda>(name, fd). (name, function_entry_proc C m d name fd)) es) (dc_procs doc Function d)) doc)"
proof (induction es arbitrary: doc)
  case (Cons e es)
  obtain name fd where e: "e = (name, fd)" by fastforce
  show ?case
    unfolding e for_each.simps add_function_emplaces option.case Cons.IH
    by (simp add: emplace_proc_def emplace_all_def)
qed (simp add: emplace_all_def)

definition callback_key :: "string \<times> 't \<times> string \<Rightarrow> string" where
  "callback_key e = (case e of (signature, _, name) \<Rightarrow> if name = [] then signature else name)"

definition callback_entry_proc ::
    "'t clang_types \<Rightarrow> 't matches \<Rightarrow> ProcDirection \<Rightarrow> string \<times> 't \<times> string \<Rightarrow> 't ProcSnippet" where
  "callback_entry_proc C m d e = (case e of (signature, t, name) \<Rightarrow>
     the (callback_proc C d t name (map_of (mt_callbackDescBySignature m) signature)
       (phase_definitions (mt_procCbDeclBySignature m d) signature)))"

lemma add_callback_emplaces:
  "add_callback C m e d doc = Some (emplace_proc Callback d (callback_key e) (callback_entry_proc C m d e) doc)"
proof -
  obtain signature t name where e: "e = (signature, t, name)" by (cases e) auto
  obtain p where "callback_proc C d t name (map_of (mt_callbackDescBySignature m) signature)
      (phase_definitions (mt_procCbDeclBySignature m d) signature) = Some p"
    using callback_proc_some [of C d t name] by blast
  then show ?thesis by (simp add: add_callback_def callback_entry_proc_def callback_key_def e)
qed

lemma add_callback_loop:
  "for_each (\<lambda>e doc. for_each (add_callback C m e) [GuestToHost, HostToGuest] doc) es doc =
     Some (put_procs Callback HostToGuest
       (emplace_all (map (\<lambda>e. (callback_key e, callback_entry_proc C m HostToGuest e)) es) (dc_procs doc Callback HostToGuest))
       (put_procs Callback GuestToHost
         (emplace_all (map (\<lambda>e. (callback_key e, callback_entry_proc C m GuestToHost e)) es) (dc_procs doc Callback GuestToHost)) doc))"
proof (induction es arbitrary: doc)
  case (Cons e es)
  define doc1 where "doc1 = emplace_proc Callback HostToGuest (callback_key e) (callback_entry_proc C m HostToGuest e)
    (emplace_proc Callback GuestToHost (callback_key e) (callback_entry_proc C m GuestToHost e) doc)"
  have "for_each (add_callback C m e) [GuestToHost, HostToGuest] doc = Some doc1"
    by (simp add: add_callback_emplaces doc1_def)
  then have "for_each (\<lambda>e doc. for_each (add_callback C m e) [GuestToHost, HostToGuest] doc) (e # es) doc =
      for_each (\<lambda>e doc. for_each (add_callback C m e) [GuestToHost, HostToGuest] doc) es doc1"
    by (simp only: for_each.simps(2) option.case)
  also note Cons.IH [of doc1]
  finally show ?case by (simp add: doc1_def emplace_proc_def emplace_all_def put_procs_def)
qed (simp add: emplace_all_def put_procs_def)

definition matches_ok :: "'t matches \<Rightarrow> bool" where
  "matches_ok m \<longleftrightarrow> omap_ok (mt_functionByName m) \<and> omap_ok (mt_namedCallbackBySignature m)"

lemma matchCallback_ok: "matches_ok m \<Longrightarrow> matches_ok (matchCallback C result m)"
  by (cases result)
    (auto simp: matchCallback_def matches_ok_def omap_set_ok Let_def split: option.splits)

lemma matches_fold_ok: "matches_ok (fold (matchCallback C) results matches_init)"
proof -
  have "matches_ok m \<Longrightarrow> matches_ok (fold (matchCallback C) results m)" for m
    by (induction results arbitrary: m) (auto simp: matchCallback_ok)
  then show ?thesis by (simp add: matches_ok_def matches_init_def)
qed

text \<open>The requested entries of a map in key order are the map itself, filtered.\<close>

lemma fold_filter_set_id:
  assumes "omap_ok es"
  shows "fold (\<lambda>(k, v) m. if P k v then omap_set k v m else m) es [] = filter (\<lambda>(k, v). P k v) es"
proof (rule omap_eqI)
  have f: "omap_ok (filter (\<lambda>(k, v). P k v) es)"
    using assms by (induction es) (auto simp: omap_ok_Cons)
  then show "omap_ok (filter (\<lambda>(k, v). P k v) es)" .
  have "omap_ok ([] :: ('a \<times> 'b) list)" by simp
  note r = fold_filter_set [OF this, of P es]
  show "omap_ok (fold (\<lambda>(k, v) m. if P k v then omap_set k v m else m) es [])" using r by blast
  show "map_of (fold (\<lambda>(k, v) m. if P k v then omap_set k v m else m) es []) = map_of (filter (\<lambda>(k, v). P k v) es)"
    using r map_of_rev_distinct [OF omap_ok_distinct [OF f]] by simp
qed

lemma emplace_all_Nil: "map_of (emplace_all es []) = map_of es"
  using emplace_all_lookup [OF omap_ok_Nil, of es] by simp

definition requested_callbacks :: "(string \<times> string) list \<Rightarrow> 't matches \<Rightarrow> (string \<times> 't \<times> string) list" where
  "requested_callbacks callbacks m =
     filter (\<lambda>(signature, t, name). callback_requested callbacks signature name) (mt_namedCallbackBySignature m)"

lemma make_procs_result:
  assumes "matches_ok m"
  shows "\<exists>doc'. make_procs C m (document_init mode pre main functions callbacks z) = Some doc' \<and>
    (\<forall>d. map_of (dc_procs doc' Function d) =
       (\<lambda>n. if n \<in> set (functions d) then map_option (function_entry_proc C m d n) (map_of (mt_functionByName m) n) else None)) \<and>
    (\<forall>d. map_of (dc_procs doc' Callback d) =
       map_of (map (\<lambda>e. (callback_key e, callback_entry_proc C m d e)) (requested_callbacks callbacks m))) \<and>
    dc_callbackTypes doc' = requested_callbacks callbacks m \<and> dc_errors doc' = []"
proof -
  define doc0 :: "('a, 'b) document" where "doc0 = document_init mode pre main functions callbacks z"
  define doc1 where "doc1 = filter_functions (mt_functionByName m) doc0"
  define doc2 where "doc2 = filter_callbacks (mt_namedCallbackBySignature m) doc1"
  have ok: "omap_ok (mt_functionByName m)" "omap_ok (mt_namedCallbackBySignature m)"
    using assms by (simp_all add: matches_ok_def)
  have f: "dc_functionDecls doc1 d = filter (\<lambda>(k, v). k \<in> set (functions d)) (mt_functionByName m)" for d
    using fold_filter_set_id [OF ok(1), of "\<lambda>k _. k \<in> set (functions d)"] filter_functions_decls [of "mt_functionByName m" doc0 d]
    by (simp add: doc1_def doc0_def document_init_def)
  obtain D where D: "doc1 = doc0\<lparr>dc_functionDecls := D\<rparr>" using filter_functions_decls [of "mt_functionByName m" doc0] by (auto simp: doc1_def)
  obtain E where E: "doc2 = doc1\<lparr>dc_callbackTypes := E\<rparr>"
    using filter_callbacks_types [of "mt_namedCallbackBySignature m" doc1] by (auto simp: doc2_def)
  have c: "dc_callbackTypes doc2 = requested_callbacks callbacks m"
    using fold_filter_set_id [OF ok(2), of "\<lambda>k v. callback_requested callbacks k (snd v)"]
      filter_callbacks_types [of "mt_namedCallbackBySignature m" doc1]
    by (simp add: doc2_def D doc0_def document_init_def requested_callbacks_def case_prod_unfold)
  have p2: "dc_procs doc2 = (\<lambda>_ _. [])" "dc_errors doc2 = []" "dc_functionDecls doc2 = dc_functionDecls doc1"
    by (simp_all add: E D doc0_def document_init_def)
  define F where "F d = emplace_all (map (\<lambda>(name, fd). (name, function_entry_proc C m d name fd)) (dc_functionDecls doc1 d)) []" for d
  define G where "G d = emplace_all (map (\<lambda>e. (callback_key e, callback_entry_proc C m d e)) (requested_callbacks callbacks m)) []" for d
  define doc3 where "doc3 = put_procs Function HostToGuest (F HostToGuest) (put_procs Function GuestToHost (F GuestToHost) doc2)"
  have s3: "for_each (add_functions C m) [GuestToHost, HostToGuest] doc2 = Some doc3"
    by (simp add: add_functions_def add_function_loop p2 doc3_def F_def) (simp add: put_procs_def p2)
  have c3: "dc_callbackTypes doc3 = requested_callbacks callbacks m" "dc_procs doc3 Callback d = []" "dc_errors doc3 = []" for d
    by (simp_all add: doc3_def put_procs_def c p2)
  define doc4 where "doc4 = put_procs Callback HostToGuest (G HostToGuest) (put_procs Callback GuestToHost (G GuestToHost) doc3)"
  have s4: "add_callbacks C m doc3 = Some doc4"
    unfolding add_callbacks_def add_callback_loop c3 doc4_def G_def ..
  have "make_procs C m doc0 = Some doc4"
    unfolding make_procs_def doc1_def [symmetric] doc2_def [symmetric] s3 by (simp add: s4)
  moreover have "map_of (dc_procs doc4 Function d) =
      (\<lambda>n. if n \<in> set (functions d) then map_option (function_entry_proc C m d n) (map_of (mt_functionByName m) n) else None)" for d
  proof -
    have "dc_procs doc4 Function d = F d" by (cases d) (simp_all add: doc4_def doc3_def)
    moreover have "map_of (map (\<lambda>(name, fd). (name, function_entry_proc C m d name fd)) es) n =
        map_option (function_entry_proc C m d n) (map_of es n)" for es n
      by (induction es) auto
    ultimately show ?thesis
      using map_of_filter_keys [of "\<lambda>k. k \<in> set (functions d)" "mt_functionByName m"]
      by (simp add: F_def f fun_eq_iff emplace_all_Nil)
  qed
  moreover have "map_of (dc_procs doc4 Callback d) =
       map_of (map (\<lambda>e. (callback_key e, callback_entry_proc C m d e)) (requested_callbacks callbacks m))" for d
  proof -
    have "dc_procs doc4 Callback d = G d" by (cases d) (simp_all add: doc4_def)
    then show ?thesis by (simp add: G_def emplace_all_Nil)
  qed
  moreover have "dc_callbackTypes doc4 = requested_callbacks callbacks m" "dc_errors doc4 = []"
    by (simp_all add: doc4_def put_procs_def c3)
  ultimately show ?thesis unfolding doc0_def by blast
qed

text \<open>
  C15. Collecting never fails once the proc template is usable, and gives for each direction exactly one
  proc for each requested function that is declared, with the description and definitions entered under
  its name, and one for each requested callback, the first in the order of the signatures for a name.
\<close>

theorem collected_procs:
  assumes "m = fold (matchCallback C) results matches_init"
    and "mt_procFnTemplateDecl m = Some decl" "alias_maker_initialize ''ProcFn'' (template_params decl) = None"
  shows "\<exists>doc. collect_procs C template_params results (document_init mode pre main functions callbacks z) = Some (doc, True) \<and>
    (\<forall>d n. proc_at doc (Function, d, n) =
       (if n \<in> set (functions d) then map_option (function_entry_proc C m d n) (map_of (mt_functionByName m) n) else None)) \<and>
    (\<forall>d key. proc_at doc (Callback, d, key) =
       map_of (map (\<lambda>e. (callback_key e, callback_entry_proc C m d e)) (requested_callbacks callbacks m)) key) \<and>
    dc_errors doc = []"
proof -
  have "matches_ok m" unfolding assms(1) by (rule matches_fold_ok)
  from make_procs_result [OF this, of C mode pre main "functions" callbacks z] obtain doc where
    "make_procs C m (document_init mode pre main functions callbacks z) = Some doc"
    "\<forall>d. map_of (dc_procs doc Function d) =
       (\<lambda>n. if n \<in> set (functions d) then map_option (function_entry_proc C m d n) (map_of (mt_functionByName m) n) else None)"
    "\<forall>d. map_of (dc_procs doc Callback d) =
       map_of (map (\<lambda>e. (callback_key e, callback_entry_proc C m d e)) (requested_callbacks callbacks m))"
    "dc_errors doc = []" by blast
  then show ?thesis
    by (intro exI [of _ doc]) (simp add: collect_procs_def assms(1) [symmetric] assms(2,3) proc_at_def)
qed

definition demo_puts :: "plain_type FunctionDecl" where
  "demo_puts = \<lparr>fd_name = ''puts'', fd_type = CFun CInt [CPtr CChar] False, fd_returnType = CInt,
     fd_params = [(CPtr CChar, ''s'')], fd_variadic = False, fd_format = None\<rparr>"

definition demo_matches :: "plain_type match_result list" where
  "demo_matches = [ProcFn_template 1, Function_match demo_puts True,
     Typedef_match ''lore::thunk::__bridge__::PFN_cb'' ''PFN_cb'' (CPtr (CFun CVoid [CInt] False))]"

definition demo_params :: "nat \<Rightarrow> template_param list" where
  "demo_params = (\<lambda>_. [Type_param, Value_param ''d'' (Some ''ProcDirection''), Value_param ''p'' (Some ''ProcPhase'')])"

theorem collected_procs_witness:
  "\<exists>doc. collect_procs plain_c demo_params demo_matches
      (document_init Guest ''m.h'' ''m.cpp'' (\<lambda>_. [''puts'', ''gone'']) [(''void (*)(int)'', ''PFN_cb'')] ()) = Some (doc, True) \<and>
    proc_at doc (Function, GuestToHost, ''puts'') \<noteq> None \<and> proc_at doc (Function, GuestToHost, ''gone'') = None \<and>
    proc_at doc (Callback, HostToGuest, ''PFN_cb'') \<noteq> None"
proof -
  define m where "m = fold (matchCallback plain_c) demo_matches matches_init"
  have m: "mt_procFnTemplateDecl m = Some 1" "map_of (mt_functionByName m) ''puts'' = Some demo_puts"
    "map_of (mt_functionByName m) ''gone'' = None"
    unfolding m_def by code_simp+
  have r: "callback_key ` set (requested_callbacks [(''void (*)(int)'', ''PFN_cb'')] m) = {''PFN_cb''}"
    unfolding m_def by code_simp
  have a: "alias_maker_initialize ''ProcFn'' (demo_params 1) = None" by code_simp
  have "map_of (map (\<lambda>e. (callback_key e, callback_entry_proc plain_c m HostToGuest e)) (requested_callbacks [(''void (*)(int)'', ''PFN_cb'')] m)) ''PFN_cb'' \<noteq> None"
    using r by (simp add: map_of_eq_None_iff image_image)
  then show ?thesis
    using collected_procs [where template_params = demo_params and decl = 1, OF m_def m(1) a, of Guest "''m.h''" "''m.cpp''" "\<lambda>_. [''puts'', ''gone'']" "[(''void (*)(int)'', ''PFN_cb'')]" "()"]
    by (auto simp: m(2,3))
qed

text \<open>A short name and one of 76 characters.\<close>

theorem proc_texts_written_witness:
  "emitProcTexts plain_c (put_procs Function GuestToHost [(''f'', (bare_proc Function GuestToHost None (\<lambda>_. 1))\<lparr>ps_name := replicate 76 CHR ''f''\<rparr>)]
      (document_init Guest [] [] (\<lambda>_. []) [] ())) True [] = None"
  using proc_texts_written [of "put_procs Function GuestToHost [(''f'', (bare_proc Function GuestToHost None (\<lambda>_. 1))\<lparr>ps_name := replicate 76 CHR ''f''\<rparr>)]
      (document_init Guest [] [] (\<lambda>_. []) [] ()) :: (plain_type, unit) document" plain_c True "[]"]
  by (simp add: all_procs_def put_procs_def document_init_def proc_section_def bare_proc_def)

end
