(* ===== verification/Stat_Command.thy ===== *)
theory Stat_Command
  imports Callback_Stat "HOL-Library.Monad_Syntax"
begin

text \<open>
  The command \<open>TLC stat\<close> (\<open>src/tools/TLC/Commands/Stat.cpp\<close>) around its consumer: what the matches of
  Clang's AST give the consumer of \<open>Callback_Stat\<close>, the translation units one after the other, and the
  file that \<open>TLC generate\<close> loads.
\<close>

subsection \<open>The matched declarations\<close>

record 't stat_function =
  sf_name :: string
  sf_cLinkage :: bool
  sf_type :: 't
  sf_location :: string

text \<open>
  Expressions: one inside parentheses or implicit casts, a reference to a declaration (of a function, or
  another), an address, a constant's value, a string.
\<close>

datatype 't stat_expr =
    Wrapped "'t stat_expr"
  | Decl_ref "'t stat_function option"
  | Address_of "'t stat_expr"
  | Constant_expr "'t stat_expr"
  | String_literal string
  | Other_expr

datatype 't stat_arg =
    St_type 't
  | St_decl "'t stat_function option"
  | St_expr "'t stat_expr option"
  | St_other

datatype 't stat_member =
    Typedef_member string 't
  | Static_member string "'t stat_expr option"
  | Other_member

record 't stat_spec =
  sp_explicit :: bool
  sp_args :: "'t stat_arg list"
  sp_members :: "'t stat_member list"

text \<open>The types of the consumer, with those forms of a type that are not canonical.\<close>

record 't stat_types =
  st_system :: "'t type_system"
  st_isFunction :: "'t \<Rightarrow> bool"
  st_pointerTo :: "'t \<Rightarrow> 't"
  st_typedefName :: "'t \<Rightarrow> string option"

datatype 't stat_match =
    ProcFnDesc_spec "'t stat_spec"
  | ProcCbDesc_spec "'t stat_spec"
  | Alias_decl string bool 't
  | Function_match "'t stat_function"

fun ignoreParenImpCasts :: "'t stat_expr \<Rightarrow> 't stat_expr" where
  "ignoreParenImpCasts (Wrapped e) = ignoreParenImpCasts e"
| "ignoreParenImpCasts e = e"

definition stat_arg_function :: "'t stat_arg \<Rightarrow> 't stat_function option" where
  "stat_arg_function arg =
     (case arg of
        St_decl fd \<Rightarrow> fd
      | St_expr (Some e) \<Rightarrow>
          (case ignoreParenImpCasts e of
             Decl_ref fd \<Rightarrow> fd
           | Address_of inner \<Rightarrow> (case ignoreParenImpCasts inner of Decl_ref fd \<Rightarrow> fd | _ \<Rightarrow> None)
           | _ \<Rightarrow> None)
      | _ \<Rightarrow> None)"

text \<open>The first typedef of that name decides.\<close>

fun stat_overlay :: "'t stat_types \<Rightarrow> 't stat_member list \<Rightarrow> 't option" where
  "stat_overlay T [] = None"
| "stat_overlay T (m # ms) =
     (case m of
        Typedef_member name underlying \<Rightarrow>
          if name \<noteq> ''overlay_type'' then stat_overlay T ms
          else
            (let t = ts_canonical (st_system T) underlying;
                 t = (if st_isFunction T t then st_pointerTo T t else t);
                 t = ts_canonical (st_system T) t
             in if is_function_pointer (st_system T) t then Some t else None)
      | _ \<Rightarrow> stat_overlay T ms)"

text \<open>The first static member of that name that a string initializes.\<close>

fun stat_name_hint :: "'t stat_member list \<Rightarrow> string option" where
  "stat_name_hint [] = None"
| "stat_name_hint (m # ms) =
     (case m of
        Static_member name (Some initExpr) \<Rightarrow>
          if name \<noteq> ''name'' then stat_name_hint ms
          else
            (let e = ignoreParenImpCasts initExpr;
                 e = (case e of Constant_expr sub \<Rightarrow> ignoreParenImpCasts sub | _ \<Rightarrow> e)
             in (case e of String_literal s \<Rightarrow> Some s | _ \<Rightarrow> stat_name_hint ms))
      | _ \<Rightarrow> stat_name_hint ms)"

definition stat_fn_item :: "'t stat_types \<Rightarrow> 't stat_spec \<Rightarrow> 't ast_item option" where
  "stat_fn_item T decl =
     (if \<not> sp_explicit decl then None
      else
        (case sp_args decl of
           [arg] \<Rightarrow> map_option (\<lambda>fd. Fn_desc (sf_name fd) (stat_overlay T (sp_members decl))) (stat_arg_function arg)
         | _ \<Rightarrow> None))"

definition stat_cb_item :: "'t stat_types \<Rightarrow> 't stat_spec \<Rightarrow> 't ast_item option" where
  "stat_cb_item T decl =
     (if \<not> sp_explicit decl then None
      else
        (case sp_args decl of
           [St_type t] \<Rightarrow>
             (let alias = (case stat_name_hint (sp_members decl) of
                    Some hint \<Rightarrow> hint | None \<Rightarrow> (case st_typedefName T t of Some name \<Rightarrow> name | None \<Rightarrow> []))
              in Some (Cb_desc (if st_isFunction T t then st_pointerTo T t else t) alias (stat_overlay T (sp_members decl))))
         | _ \<Rightarrow> None))"

definition stat_item :: "'t stat_types \<Rightarrow> 't stat_match \<Rightarrow> 't ast_item option" where
  "stat_item T m =
     (case m of
        ProcFnDesc_spec decl \<Rightarrow> stat_fn_item T decl
      | ProcCbDesc_spec decl \<Rightarrow> stat_cb_item T decl
      | Alias_decl name isCDecl underlying \<Rightarrow> if isCDecl then Some (Type_alias name underlying) else None
      | Function_match f \<Rightarrow>
          if sf_cLinkage f
          then Some (Function_item (sf_name f) (st_pointerTo T (ts_canonical (st_system T) (sf_type f))) (sf_location f))
          else None)"

text \<open>A translation unit has a consumer of its own; the summary is that of the command.\<close>

definition stat_unit :: "'t stat_types \<Rightarrow> config \<Rightarrow> 't stat_match list \<Rightarrow> manifest_summary \<Rightarrow> manifest_summary option" where
  "stat_unit T cfg ms s = do {
     c \<leftarrow> for_each (match_item (st_system T)) (List.map_filter (stat_item T) ms) (consumer_init [] \<lparr>sc_stat := s\<rparr>);
     c \<leftarrow> collectConfigSeeds (st_system T) cfg c;
     Some (sc_stat c)
   }"

subsection \<open>The command\<close>

record stat_options =
  so_configPath :: string
  so_outputPath :: string
  so_sources :: "string list"

text \<open>
  The options are \<open>None\<close> where their parser reports an error; the tool gives the matches in each translation
  unit and its result; \<open>loaded\<close> is what loading the configuration gives. The exit code, with the path
  and the text of the file if one is written.
\<close>

definition stat_main ::
    "'t stat_types \<Rightarrow> (string list \<Rightarrow> 't stat_match list list \<times> nat) \<Rightarrow> (json \<Rightarrow> string) \<Rightarrow> (string \<Rightarrow> string option) \<Rightarrow>
       (string \<Rightarrow> bool) \<Rightarrow> parse_result \<times> config \<Rightarrow> stat_options option \<Rightarrow> (nat \<times> (string \<times> string) option) option" where
  "stat_main T run_tool print open_error write_failed loaded opts =
     (case opts of
        None \<Rightarrow> Some (0, None)
      | Some opts \<Rightarrow>
          (let stat = ms_clear;
               stat = (if so_sources opts \<noteq> [] then stat\<lparr>ms_fileName := hd (so_sources opts)\<rparr> else stat)
           in if so_configPath opts \<noteq> [] \<and> \<not> success (fst loaded) then Some (1, None)
              else
                (let cfg = (if so_configPath opts \<noteq> [] then snd loaded else config_init);
                     (units, ret) = run_tool (so_sources opts)
                 in map_option (\<lambda>stat.
                      if ret \<noteq> 0 then (ret, None)
                      else
                        (let path = (if so_outputPath opts = [] then ''-'' else so_outputPath opts) in
                         case saveAsJson print (open_error path) (write_failed path) stat of
                           (Some _, _) \<Rightarrow> (1, None)
                         | (None, contents) \<Rightarrow> (0, Some (path, contents))))
                   (for_each (stat_unit T cfg) units stat))))"

subsection \<open>The file of a manifest\<close>

text \<open>The functions with C linkage, in the order they are matched; the last one of a name counts.\<close>

definition c_functions :: "'t stat_match list \<Rightarrow> 't stat_function list" where
  "c_functions ms = List.map_filter (\<lambda>m. case m of Function_match f \<Rightarrow> if sf_cLinkage f then Some f else None | _ \<Rightarrow> None) ms"

definition last_function :: "'t stat_match list \<Rightarrow> string \<Rightarrow> 't stat_function option" where
  "last_function ms name = List.find (\<lambda>f. sf_name f = name) (rev (c_functions ms))"

lemma c_functions_snoc:
  "c_functions (ms @ [m]) = c_functions ms @ (case m of Function_match f \<Rightarrow> if sf_cLinkage f then [f] else [] | _ \<Rightarrow> [])"
  by (simp add: c_functions_def map_filter_def split: stat_match.split)

lemma declared_last:
  "map_option snd (declared (List.map_filter (stat_item T) ms) n) = map_option sf_location (last_function ms n)"
proof (induction ms rule: rev_induct)
  case (snoc m ms)
  show ?case
  proof (cases m)
    case (Function_match f)
    then show ?thesis using snoc
      by (simp add: last_function_def c_functions_snoc stat_item_def map_filter_def declared_def function_entry_def)
  next
    case (ProcFnDesc_spec d)
    then show ?thesis using snoc
      by (cases "stat_item T m") (auto simp: last_function_def c_functions_snoc stat_item_def stat_fn_item_def map_filter_def declared_def function_entry_def split: if_splits list.splits option.splits)
  next
    case (ProcCbDesc_spec d)
    then show ?thesis using snoc
      by (cases "stat_item T m") (auto simp: last_function_def c_functions_snoc stat_item_def stat_cb_item_def Let_def map_filter_def declared_def function_entry_def split: if_splits list.splits stat_arg.splits option.splits)
  next
    case (Alias_decl name b t)
    then show ?thesis using snoc
      by (simp add: last_function_def c_functions_snoc stat_item_def map_filter_def declared_def function_entry_def)
  qed
qed (simp add: last_function_def c_functions_def declared_def map_filter_def)

lemma stat_unit_alone:
  "stat_unit T cfg ms (ms_clear\<lparr>ms_fileName := f\<rparr>) = stat_translation_unit (st_system T) cfg f (List.map_filter (stat_item T) ms)"
  by (simp add: stat_unit_def stat_translation_unit_def consumer_init_def map_option_case split: option.split Option.bind_split)

text \<open>Nothing changes the name of the file.\<close>

lemma for_each_keeps:
  fixes f :: "'i \<Rightarrow> 's \<Rightarrow> 's option"
  assumes "for_each f xs a = Some b" "\<And>x c d. f x c = Some d \<Longrightarrow> g d = g c"
  shows "g b = g a"
  using assms(1) by (induction xs arbitrary: a) (auto dest: assms(2) split: option.splits)

lemma record_callback_name: "ms_fileName (record_callback T aliases so pa t origin s) = ms_fileName s"
  by (simp add: record_callback_def addCallbackSignature_def)

lemma collect_loop_name:
  fixes T :: "'t type_system"
  assumes "collect_loop T aliases so pa stack visited s = Some s'"
  shows "ms_fileName s' = ms_fileName s"
proof (rule collect_loop.raw_induct
    [where P = "\<lambda>T aliases so pa stack visited s s'. ms_fileName s' = ms_fileName s", OF _ assms])
  fix cl :: "'t type_system \<Rightarrow> (string \<rightharpoonup> string) \<Rightarrow> string \<Rightarrow> string \<Rightarrow> ('t \<times> string) list \<Rightarrow> string list \<Rightarrow>
     manifest_summary \<Rightarrow> manifest_summary option"
    and T aliases so pa stack visited s s'
  assume IH: "\<And>T aliases so pa stack visited s s'. cl T aliases so pa stack visited s = Some s' \<Longrightarrow> ms_fileName s' = ms_fileName s"
    and step: "(case stack of
        [] \<Rightarrow> Some s
      | (t, origin) # stack \<Rightarrow>
          (let t = ts_canonical T t; typeStr = ts_string T t in
           if typeStr \<in> set visited then cl T aliases so pa stack visited s
           else
             cl T aliases so pa
               (rev (pushed_types T t origin) @ stack) (oset_insert typeStr visited)
               (record_callback T aliases so pa t origin s))) = Some s'"
  from step show "ms_fileName s' = ms_fileName s"
    by (simp add: Let_def split: list.splits if_splits prod.splits) (drule IH, simp add: record_callback_name)+
qed

lemma collect_name: "collect T t origin al i c = Some c' \<Longrightarrow> ms_fileName (sc_stat c') = ms_fileName (sc_stat c)"
  by (auto simp: collect_def collectCallbackSignatures_def dest: collect_loop_name)

lemma match_item_name: "match_item T item c = Some c' \<Longrightarrow> ms_fileName (sc_stat c') = ms_fileName (sc_stat c)"
  by (auto simp: match_item_def handleProcCbDesc_def Let_def dest!: collect_name split: ast_item.splits if_splits option.splits)

lemma config_function_name: "config_function T sec dir n c = Some c' \<Longrightarrow> ms_fileName (sc_stat c') = ms_fileName (sc_stat c)"
  by (auto simp: config_function_def Let_def addMissing_def addFunction_def dest!: collect_name split: option.splits)

lemma config_callback_name: "config_callback T token c = Some c' \<Longrightarrow> ms_fileName (sc_stat c') = ms_fileName (sc_stat c)"
  by (auto simp: config_callback_def Let_def dest!: collect_name split: option.splits if_splits)

lemma seeds_name:
  assumes "collectConfigSeeds T cfg c = Some c'"
  shows "ms_fileName (sc_stat c') = ms_fileName (sc_stat c)"
proof -
  have f: "ms_fileName (sc_stat b) = ms_fileName (sc_stat a)" if "collectConfigFunctionSection T cfg sec dir a = Some b" for sec dir a b
    using that for_each_keeps [where g = "\<lambda>c. ms_fileName (sc_stat c)", OF _ config_function_name]
    by (auto simp: collectConfigFunctionSection_def split: option.splits)
  have c: "ms_fileName (sc_stat b) = ms_fileName (sc_stat a)" if "collectConfigCallbackSection T cfg a = Some b" for a b
    using that for_each_keeps [where g = "\<lambda>c. ms_fileName (sc_stat c)", OF _ config_callback_name]
    by (auto simp: collectConfigCallbackSection_def split: option.splits)
  show ?thesis using assms by (auto simp: collectConfigSeeds_def dest!: f c split: option.splits)
qed

lemma translation_unit_name: "stat_translation_unit T cfg f items = Some s \<Longrightarrow> ms_fileName s = f"
  using for_each_keeps [where g = "\<lambda>c. ms_fileName (sc_stat c)" and f = "match_item T" and a = "consumer_init f" and xs = items, OF _ match_item_name]
  by (auto simp: stat_translation_unit_def dest!: seeds_name split: option.splits) (simp add: consumer_init_def)


subsection \<open>An example\<close>

text \<open>A printer and a parser for the strings, arrays and objects of a summary.\<close>

fun string_code :: "string \<Rightarrow> string" where
  "string_code [] = ''e''"
| "string_code (c # cs) = CHR ''c'' # c # string_code cs"

fun json_code :: "json \<Rightarrow> string" where
  "json_code (JString s) = CHR ''s'' # string_code s"
| "json_code (JArray xs) = CHR ''a'' # concat (map (\<lambda>x. CHR ''i'' # json_code x) xs) @ ''e''"
| "json_code (JObject ps) = CHR ''o'' # concat (map (\<lambda>p. CHR ''i'' # string_code (fst p) @ json_code (snd p)) ps) @ ''e''"
| "json_code _ = ''n''"

fun read_string :: "string \<Rightarrow> (string \<times> string) option" where
  "read_string [] = None"
| "read_string [c] = (if c = CHR ''e'' then Some ([], []) else None)"
| "read_string (c # d # cs) =
     (if c = CHR ''c'' then map_option (\<lambda>(s, r). (d # s, r)) (read_string cs)
      else if c = CHR ''e'' then Some ([], d # cs) else None)"

text \<open>Items until the end; at most as many as the fuel.\<close>

fun read_items :: "(string \<Rightarrow> ('a \<times> string) option) \<Rightarrow> nat \<Rightarrow> string \<Rightarrow> ('a list \<times> string) option" where
  "read_items f n [] = None"
| "read_items f n (c # cs) =
     (if c = CHR ''e'' then Some ([], cs)
      else (case n of 0 \<Rightarrow> None | Suc n \<Rightarrow> do { (x, r) \<leftarrow> f cs; (xs, r) \<leftarrow> read_items f n r; Some (x # xs, r) }))"

fun read_json :: "nat \<Rightarrow> string \<Rightarrow> (json \<times> string) option" where
  "read_json 0 cs = None"
| "read_json (Suc n) [] = None"
| "read_json (Suc n) (c # cs) =
     (if c = CHR ''s'' then map_option (\<lambda>(s, r). (JString s, r)) (read_string cs)
      else if c = CHR ''a'' then map_option (\<lambda>(xs, r). (JArray xs, r)) (read_items (read_json n) (length cs) cs)
      else
        map_option (\<lambda>(ps, r). (JObject ps, r))
          (read_items (\<lambda>cs. do { (k, r) \<leftarrow> read_string cs; (v, r) \<leftarrow> read_json n r; Some ((k, v), r) }) (length cs) cs))"

lemma read_string_code: "read_string (string_code s @ r) = Some (s, r)"
  by (induction s) (cases r; simp)+

lemma read_items_code:
  assumes "\<forall>x \<in> set xs. \<forall>r. f (code x @ r) = Some (x, r)" "length xs \<le> n"
  shows "read_items f n (concat (map (\<lambda>x. CHR ''i'' # code x) xs) @ CHR ''e'' # r) = Some (xs, r)"
  using assms
proof (induction xs arbitrary: n)
  case Nil
  then show ?case by (cases n) simp_all
next
  case (Cons x xs)
  then obtain k where "n = Suc k" by (cases n) auto
  then show ?case using Cons by simp
qed

lemma code_length: "length xs \<le> length (concat (map (\<lambda>x. CHR ''i'' # code x) xs))"
  by (induction xs) simp_all

fun coded :: "nat \<Rightarrow> json \<Rightarrow> bool" where
  "coded (Suc n) (JString s) \<longleftrightarrow> True"
| "coded (Suc n) (JArray xs) \<longleftrightarrow> list_all (coded n) xs"
| "coded (Suc n) (JObject ps) \<longleftrightarrow> list_all (\<lambda>p. coded n (snd p)) ps"
| "coded n j \<longleftrightarrow> False"

lemma read_json_code: "coded n j \<Longrightarrow> read_json n (json_code j @ r) = Some (j, r)"
proof (induction n j arbitrary: r rule: coded.induct)
  case (1 n s)
  show ?case by (simp add: read_string_code)
next
  case (2 n xs)
  have "\<forall>x \<in> set xs. \<forall>r. read_json n (json_code x @ r) = Some (x, r)" using 2 by (simp add: list_all_iff)
  from read_items_code [OF this le_trans [OF code_length [where code = json_code] le_add1 [where m = "length (CHR ''e'' # r)"]]]
  show ?case by simp
next
  case (3 n ps)
  have "\<forall>p \<in> set ps. \<forall>r. (do { (k, r) \<leftarrow> read_string ((string_code (fst p) @ json_code (snd p)) @ r); (v, r) \<leftarrow> read_json n r; Some ((k, v), r) }) = Some (p, r)"
    using 3 by (simp add: list_all_iff read_string_code)
  from read_items_code [OF this le_trans [OF code_length [where code = "\<lambda>p. string_code (fst p) @ json_code (snd p)"] le_add1 [where m = "length (CHR ''e'' # r)"]]]
  show ?case by simp
qed simp_all

lemma summary_coded: "coded 6 (summary_json s)"
  by (simp add: numeral_eq_Suc summary_json_def serializeFunctionMap_def serializeMissingFunctionSet_def serializeCallbacks_def list_all_iff case_prod_unfold)

definition demo_parse_json :: "string \<Rightarrow> string + json" where
  "demo_parse_json txt = (case read_json 6 txt of Some (j, []) \<Rightarrow> Inr j | _ \<Rightarrow> Inl ''not JSON'')"

lemma demo_parse_summary: "demo_parse_json (json_code (summary_json s)) = Inr (summary_json s)"
  using read_json_code [OF summary_coded, of s "[]"] by (simp add: demo_parse_json_def)

text \<open>One of the two configured functions is declared, and again later.\<close>

definition demo_stat_types :: "nat stat_types" where
  "demo_stat_types = \<lparr>st_system = demo_types, st_isFunction = (\<lambda>_. False), st_pointerTo = (\<lambda>_. 4), st_typedefName = (\<lambda>_. None)\<rparr>"

definition demo_stat_matches :: "nat stat_match list" where
  "demo_stat_matches = [Function_match \<lparr>sf_name = ''f'', sf_cLinkage = True, sf_type = 5, sf_location = ''h:1''\<rparr>,
     Function_match \<lparr>sf_name = ''g'', sf_cLinkage = False, sf_type = 5, sf_location = ''h:2''\<rparr>,
     Function_match \<lparr>sf_name = ''f'', sf_cLinkage = True, sf_type = 5, sf_location = ''h:3''\<rparr>]"

definition demo_stat_options :: stat_options where
  "demo_stat_options = \<lparr>so_configPath = ''c.conf'', so_outputPath = ''s.json'', so_sources = [''m.cpp'']\<rparr>"

lemma two_names: "Q a \<noteq> None \<Longrightarrow> Q b = None \<Longrightarrow> {n \<in> set [a, b]. Q n = None} = {b}"
  by auto


end
