(* ===== verification/Thunk_Code.thy ===== *)
theory Thunk_Code
  imports Source_Text
begin

text \<open>
  What a generated thunk does: the statements the builders write, their text, and their meaning. This
  is the specification the builder passes are verified against; it models no code of its own. A body
  runs in a frame of variables; the packed argument array, the result and the callees are explicit.
\<close>

subsection \<open>Statements\<close>

datatype stmt =
    Ret_decl string
  | Get_callback bool
  | Invoke "string option" string "string list"
  | Pack_args "string list"
  | Exec_packed string bool bool
  | Unpack_args "(string \<times> string) list"
  | Unpack_ret string
  | Return_ret
  | Decl_vargs
  | Extract string string string
  | Va_extract string string string
  | Fixed_entries "string list"
  | Decl_vret
  | Init_vret bool
  | Call_variadic string string
  | Assign_vret string

fun comma_sep :: "string list \<Rightarrow> string" where
  "comma_sep [] = []"
| "comma_sep (a # as) = a @ concat (map (\<lambda>a. '', '' @ a) as)"

text \<open>The text of a statement, as the templates of the passes write it.\<close>

fun render_stmt :: "stmt \<Rightarrow> string" where
  "render_stmt (Ret_decl decl) = blanks 4 @ decl @ '';'' @ eol"
| "render_stmt (Get_callback guest) = SRC_getCallback guest"
| "render_stmt (Invoke lval target args) =
     blanks 4 @ (case lval of Some v \<Rightarrow> v @ '' = '' | None \<Rightarrow> []) @ target @ ''('' @ comma_sep args @ '');'' @ eol"
| "render_stmt (Pack_args names) =
     blanks 4 @ ''void *args[] = {'' @ eol @
     concat (map (\<lambda>name. blanks 8 @ ''(void *) &'' @ name @ '','' @ eol) names) @ blanks 4 @ ''};'' @ eol"
| "render_stmt (Exec_packed target withCallback void) =
     blanks 4 @ target @ ''('' @ (if withCallback then ''callback, '' else []) @ ''args, '' @
     (if void then ''nullptr'' else ''&ret'') @ '', nullptr);'' @ eol"
| "render_stmt (Unpack_args vars) =
     concat (map (\<lambda>(i, name, t). blanks 4 @ ''auto &'' @ name @ '' = *('' @ t @ '') args['' @ std_to_string i @ ''];'' @ eol)
       (List.enumerate 0 vars))"
| "render_stmt (Unpack_ret t) = blanks 4 @ ''auto &ret_ref = *('' @ t @ '') ret;'' @ eol"
| "render_stmt Return_ret = blanks 4 @ ''return ret;'' @ eol"
| "render_stmt Decl_vargs = blanks 4 @ ''CVargEntry vargs[LORE_THUNK_VARG_MAX];'' @ eol"
| "render_stmt (Extract style fmt ap) =
     blanks 4 @ ''lore::VariadicAdaptor::extract(lore::VariadicAdaptor::'' @ style @ '', '' @ fmt @ '', '' @ ap @ '', vargs);'' @ eol"
| "render_stmt (Va_extract lastParam style fmt) =
     blanks 4 @ ''{'' @ eol @
     blanks 8 @ ''va_list ap;'' @ eol @
     blanks 8 @ ''va_start(ap, '' @ lastParam @ '');'' @ eol @
     blanks 8 @ ''lore::VariadicAdaptor::extract(lore::VariadicAdaptor::'' @ style @ '', '' @ fmt @ '', ap, vargs);'' @ eol @
     blanks 8 @ ''va_end(ap);'' @ eol @
     blanks 4 @ ''}'' @ eol"
| "render_stmt (Fixed_entries names) =
     blanks 4 @ ''CVargEntry argv1[] = {'' @ eol @
     concat (map (\<lambda>name. blanks 8 @ ''CVargGet('' @ name @ ''),'' @ eol) names) @ blanks 4 @ ''};'' @ eol"
| "render_stmt Decl_vret = blanks 4 @ ''CVargEntry vret;'' @ eol"
| "render_stmt (Init_vret void) = blanks 4 @ (if void then ''vret.type = 0;'' else ''vret.type = CVargTypeID(ret);'') @ eol"
| "render_stmt (Call_variadic helper target) =
     blanks 4 @ ''lore::VariadicAdaptor::'' @ helper @ ''('' @ target @
     '', sizeof(argv1) / sizeof(argv1[0]), argv1, -1, vargs, &vret);'' @ eol"
| "render_stmt (Assign_vret t) = blanks 4 @ ''ret = CVargValue('' @ t @ '', vret);'' @ eol"

subsection \<open>Meaning\<close>

text \<open>
  A call gives \<open>Some None\<close> for a void result and \<open>None\<close> where it is undefined. \<open>w_exec\<close> is a call of the
  other side with the callback (if there is one) and the packed arguments; \<open>w_incoming\<close> are the
  packed arguments this function was called with, \<open>w_callback\<close> the callback it was reached through.
  Variadic code packs the arguments behind the last named parameter (\<open>w_extract\<close>, of the style, the
  format and the list); the rest of a variadic function's arguments is the variable \<open>...\<close>, which
  \<open>va_start\<close> reaches only through the last named parameter. \<open>w_variadic\<close> is a call with fixed and packed
  arguments, of the function's address or of the callback.
\<close>

record 'v world =
  w_call :: "string \<Rightarrow> 'v list \<Rightarrow> 'v option option"
  w_exec :: "string \<Rightarrow> 'v list \<Rightarrow> 'v list \<Rightarrow> 'v option option"
  w_incoming :: "'v list"
  w_callback :: 'v
  w_lastParam :: string
  w_extract :: "string \<Rightarrow> 'v \<Rightarrow> 'v \<Rightarrow> 'v"
  w_variadic :: "string \<Rightarrow> string \<Rightarrow> 'v option \<Rightarrow> 'v list \<Rightarrow> 'v \<Rightarrow> 'v option option"

record 'v frame =
  fr_vars :: "string \<rightharpoonup> 'v"
  fr_packed :: "'v list"
  fr_result :: "'v option"
  fr_fixed :: "'v list"
  fr_vret :: "'v option"

definition empty_frame :: "(string \<rightharpoonup> 'v) \<Rightarrow> 'v frame" where
  "empty_frame vars = \<lparr>fr_vars = vars, fr_packed = [], fr_result = None, fr_fixed = [], fr_vret = None\<rparr>"

fun read_vars :: "(string \<rightharpoonup> 'v) \<Rightarrow> string list \<Rightarrow> 'v list option" where
  "read_vars vars [] = Some []"
| "read_vars vars (x # xs) =
     (case vars x of None \<Rightarrow> None | Some v \<Rightarrow> map_option (\<lambda>vs. v # vs) (read_vars vars xs))"

definition assign :: "string option \<Rightarrow> 'v option \<Rightarrow> 'v frame \<Rightarrow> 'v frame option" where
  "assign lval r fr =
     (case lval of
        None \<Rightarrow> Some fr
      | Some x \<Rightarrow> (case r of None \<Rightarrow> None | Some v \<Rightarrow> Some (fr\<lparr>fr_vars := (fr_vars fr)(x \<mapsto> v)\<rparr>)))"

fun exec_stmt :: "'v world \<Rightarrow> stmt \<Rightarrow> 'v frame \<Rightarrow> 'v frame option" where
  "exec_stmt w (Ret_decl _) fr = Some fr"
| "exec_stmt w (Get_callback _) fr = Some (fr\<lparr>fr_vars := (fr_vars fr)(''callback'' \<mapsto> w_callback w)\<rparr>)"
| "exec_stmt w (Invoke lval target args) fr =
     (case read_vars (fr_vars fr) args of
        None \<Rightarrow> None
      | Some vs \<Rightarrow> (case w_call w target vs of None \<Rightarrow> None | Some r \<Rightarrow> assign lval r fr))"
| "exec_stmt w (Pack_args names) fr =
     (case read_vars (fr_vars fr) names of None \<Rightarrow> None | Some vs \<Rightarrow> Some (fr\<lparr>fr_packed := vs\<rparr>))"
| "exec_stmt w (Exec_packed target withCallback void) fr =
     (case read_vars (fr_vars fr) (if withCallback then [''callback''] else []) of
        None \<Rightarrow> None
      | Some cs \<Rightarrow>
          (case w_exec w target cs (fr_packed fr) of
             None \<Rightarrow> None
           | Some r \<Rightarrow> assign (if void then None else Some ''ret'') r fr))"
| "exec_stmt w (Unpack_args vars) fr =
     (if length vars \<noteq> length (w_incoming w) then None
      else Some (fr\<lparr>fr_vars := fr_vars fr ++ map_of (zip (map fst vars) (w_incoming w))\<rparr>))"
| "exec_stmt w (Unpack_ret _) fr = Some fr"
| "exec_stmt w Return_ret fr =
     (case fr_vars fr ''ret'' of None \<Rightarrow> None | Some v \<Rightarrow> Some (fr\<lparr>fr_result := Some v\<rparr>))"
| "exec_stmt w Decl_vargs fr = Some fr"
| "exec_stmt w (Extract style fmt ap) fr =
     (case (fr_vars fr fmt, fr_vars fr ap) of
        (Some f, Some a) \<Rightarrow> Some (fr\<lparr>fr_vars := (fr_vars fr)(''vargs'' \<mapsto> w_extract w style f a)\<rparr>)
      | _ \<Rightarrow> None)"
| "exec_stmt w (Va_extract lastParam style fmt) fr =
     (if lastParam \<noteq> w_lastParam w then None
      else (case (fr_vars fr fmt, fr_vars fr ''...'') of
              (Some f, Some a) \<Rightarrow> Some (fr\<lparr>fr_vars := (fr_vars fr)(''vargs'' \<mapsto> w_extract w style f a)\<rparr>)
            | _ \<Rightarrow> None))"
| "exec_stmt w (Fixed_entries names) fr =
     (case read_vars (fr_vars fr) names of None \<Rightarrow> None | Some vs \<Rightarrow> Some (fr\<lparr>fr_fixed := vs\<rparr>))"
| "exec_stmt w Decl_vret fr = Some fr"
| "exec_stmt w (Init_vret _) fr = Some fr"
| "exec_stmt w (Call_variadic helper target) fr =
     (case fr_vars fr ''vargs'' of
        None \<Rightarrow> None
      | Some a \<Rightarrow>
          (case w_variadic w helper target (fr_vars fr ''callback'') (fr_fixed fr) a of
             None \<Rightarrow> None
           | Some r \<Rightarrow> Some (fr\<lparr>fr_vret := r\<rparr>)))"
| "exec_stmt w (Assign_vret _) fr = assign (Some ''ret'') (fr_vret fr) fr"

text \<open>A body with typed parameters returns its result; one with packed arguments leaves it in \<open>ret_ref\<close>.\<close>

definition typed_function :: "'v world \<Rightarrow> string list \<Rightarrow> stmt list \<Rightarrow> 'v list \<Rightarrow> 'v option option" where
  "typed_function w params body vs =
     (if length vs \<noteq> length params then None
      else map_option fr_result
        (for_each (exec_stmt w) body (empty_frame (map_of (zip params vs)))))"

definition packed_function :: "'v world \<Rightarrow> bool \<Rightarrow> stmt list \<Rightarrow> 'v list \<Rightarrow> 'v list \<Rightarrow> 'v option option" where
  "packed_function w withCallback body cs incoming =
     (if length cs \<noteq> (if withCallback then 1 else 0) then None
      else map_option (\<lambda>fr. fr_vars fr ''ret_ref'')
        (for_each (exec_stmt (w\<lparr>w_incoming := incoming\<rparr>)) body
          (empty_frame (map_of (zip (if withCallback then [''callback''] else []) cs)))))"

subsection \<open>The chain of a thunk\<close>

text \<open>The bodies of the two sides: entry, adaptor and caller of the sender, then of the receiver.\<close>

record thunk_code =
  tc_entry :: "stmt list"
  tc_adapt :: "stmt list"
  tc_caller :: "stmt list"

text \<open>The names the bodies call each other by.\<close>

record thunk_names =
  tn_adapt :: string
  tn_caller :: string
  tn_exec :: string

definition only :: "string \<Rightarrow> ('v list \<Rightarrow> 'v option option) \<Rightarrow> string \<Rightarrow> 'v list \<Rightarrow> 'v option option" where
  "only target f t vs = (if t = target then f vs else None)"

definition no_exec :: "string \<Rightarrow> 'v list \<Rightarrow> 'v list \<Rightarrow> 'v option option" where
  "no_exec _ _ _ = None"

definition idle :: "'v \<Rightarrow> 'v world" where
  "idle cb = \<lparr>w_call = (\<lambda>_ _. None), w_exec = no_exec, w_incoming = [], w_callback = cb, w_lastParam = [],
     w_extract = (\<lambda>_ f a. a), w_variadic = (\<lambda>_ _ _ _ _. None)\<rparr>"

definition calls :: "string \<Rightarrow> ('v list \<Rightarrow> 'v option option) \<Rightarrow> 'v \<Rightarrow> 'v world" where
  "calls target f cb = (idle cb)\<lparr>w_call := only target f\<rparr>"

definition packs :: "string \<Rightarrow> ('v list \<Rightarrow> 'v list \<Rightarrow> 'v option option) \<Rightarrow> 'v \<Rightarrow> 'v world" where
  "packs target f cb =
     (idle cb)\<lparr>w_exec := (\<lambda>t cs vs. if t = target then f cs vs else None)\<rparr>"

text \<open>
  The way from the sender's adaptor to the receiver's caller \<open>rc\<close>: the sender's caller packs the
  arguments and crosses, the receiver's entry unpacks them for its own adaptor.
\<close>

definition run_middle ::
    "thunk_names \<Rightarrow> bool \<Rightarrow> string list \<Rightarrow> thunk_code \<Rightarrow> thunk_code \<Rightarrow> ('v list \<Rightarrow> 'v option option) \<Rightarrow> 'v \<Rightarrow> 'v list \<Rightarrow> 'v option option" where
  "run_middle n withCallback inner sender receiver rc cb =
     (let ra = typed_function (calls (tn_caller n) rc cb) inner (tc_adapt receiver);
          re = packed_function (calls (tn_adapt n) ra cb) withCallback (tc_entry receiver);
          sc = typed_function (packs (tn_exec n) re cb) inner (tc_caller sender)
      in typed_function (calls (tn_caller n) sc cb) inner (tc_adapt sender))"

text \<open>Entering the sender with typed arguments, down to the function itself.\<close>

definition run_thunk ::
    "thunk_names \<Rightarrow> bool \<Rightarrow> string list \<Rightarrow> string list \<Rightarrow> thunk_code \<Rightarrow> thunk_code \<Rightarrow> ('v list \<Rightarrow> 'v option option) \<Rightarrow>
       'v \<Rightarrow> 'v list \<Rightarrow> 'v option option" where
  "run_thunk n withCallback params inner sender receiver real cb vs =
     (let rc = typed_function (calls (tn_exec n) real cb) inner (tc_caller receiver);
          sa = run_middle n withCallback inner sender receiver rc cb
      in typed_function (calls (tn_adapt n) sa cb) params (tc_entry sender) vs)"

text \<open>The same where the sender's entry and the receiver's caller run in a world with variadic calls.\<close>

definition run_variadic ::
    "thunk_names \<Rightarrow> bool \<Rightarrow> string list \<Rightarrow> string list \<Rightarrow> thunk_code \<Rightarrow> thunk_code \<Rightarrow> 'v world \<Rightarrow> 'v list \<Rightarrow> 'v option option" where
  "run_variadic n withCallback params inner sender receiver w vs =
     (let rc = typed_function w inner (tc_caller receiver);
          sa = run_middle n withCallback inner sender receiver rc (w_callback w)
      in typed_function (w\<lparr>w_call := only (tn_adapt n) sa\<rparr>) params (tc_entry sender) vs)"

subsection \<open>Running a forwarding body\<close>

text \<open>Parameters and their values: what reading a list of names gives.\<close>

lemma read_vars_all2: "list_all2 (\<lambda>x v. m x = Some v) xs vs \<Longrightarrow> read_vars m xs = Some vs"
  by (induction xs vs rule: list_all2_induct) simp_all

lemma params_all2: "distinct xs \<Longrightarrow> length vs = length xs \<Longrightarrow> list_all2 (\<lambda>x v. map_of (zip xs vs) x = Some v) xs vs"
  by (rule list_all2_all_nthI) (simp_all add: map_of_zip_nth)

lemma read_params:
  assumes "distinct xs" "length vs = length xs" "\<And>x. x \<in> set xs \<Longrightarrow> m x = map_of (zip xs vs) x"
  shows "read_vars m xs = Some vs"
proof (rule read_vars_all2)
  show "list_all2 (\<lambda>x v. m x = Some v) xs vs"
    using params_all2 [OF assms(1,2)] by (rule list.rel_mono_strong) (use assms(3) in \<open>auto simp: in_set_zip\<close>)
qed

text \<open>The names of a signature's arguments, and what the void result leaves out.\<close>

definition unless_void :: "bool \<Rightarrow> stmt \<Rightarrow> stmt list" where
  "unless_void void s = (if void then [] else [s])"

definition ret_lval :: "bool \<Rightarrow> string \<Rightarrow> string option" where
  "ret_lval void x = (if void then None else Some x)"

text \<open>A body that calls the next function with its parameters, and one that crosses to the other side.\<close>

definition forward_body :: "bool \<Rightarrow> string \<Rightarrow> string \<Rightarrow> string list \<Rightarrow> stmt list" where
  "forward_body void decl target args =
     unless_void void (Ret_decl decl) @ [Invoke (ret_lval void ''ret'') target args] @ unless_void void Return_ret"

definition crossing_body :: "bool \<Rightarrow> string \<Rightarrow> string \<Rightarrow> bool \<Rightarrow> string list \<Rightarrow> stmt list" where
  "crossing_body void decl target withCallback names =
     unless_void void (Ret_decl decl) @ [Pack_args names, Exec_packed target withCallback void] @ unless_void void Return_ret"

definition unpacking_body :: "bool \<Rightarrow> string \<Rightarrow> string \<Rightarrow> (string \<times> string) list \<Rightarrow> string list \<Rightarrow> stmt list" where
  "unpacking_body void ret target vars args =
     [Unpack_args vars] @ unless_void void (Unpack_ret ret) @ [Invoke (ret_lval void ''ret_ref'') target args]"

text \<open>A function of the kind the chain calls: a value unless the result is void.\<close>

definition respects_void :: "bool \<Rightarrow> 'v option option \<Rightarrow> bool" where
  "respects_void void r \<longleftrightarrow> (\<exists>r'. r = Some r' \<and> (r' = None \<longleftrightarrow> void))"

lemma respects_voidE:
  assumes "respects_void void r"
  obtains (void) "void" "r = Some None" | (val) v where "\<not> void" "r = Some (Some v)"
  using assms by (cases r) (auto simp: respects_void_def)

lemma forward_body_calls:
  assumes "distinct params" "length vs = length params" "''ret'' \<notin> set params"
    and "respects_void void (w_call w target vs)"
  shows "typed_function w params (forward_body void decl target params) vs = w_call w target vs"
proof -
  have "read_vars (map_of (zip params vs)) params = Some vs" by (rule read_params [OF assms(1,2)]) simp
  with assms(4) show ?thesis
    by (cases rule: respects_voidE)
      (simp_all add: typed_function_def empty_frame_def assms(2) forward_body_def unless_void_def ret_lval_def assign_def)
qed

lemma crossing_body_packs:
  assumes "distinct params" "length vs = length params" "''ret'' \<notin> set params"
    and "respects_void void (w_exec w target [] vs)"
  shows "typed_function w params (crossing_body void decl target False params) vs = w_exec w target [] vs"
proof -
  have "read_vars (map_of (zip params vs)) params = Some vs" by (rule read_params [OF assms(1,2)]) simp
  with assms(4) show ?thesis
    by (cases rule: respects_voidE)
      (simp_all add: typed_function_def empty_frame_def assms(2) crossing_body_def unless_void_def assign_def)
qed

lemma crossing_body_packs_callback:
  assumes "distinct params" "length vs = length params" "''ret'' \<notin> set params" "''callback'' \<notin> set params"
    and "respects_void void (w_exec w target [cb] vs)"
  shows "typed_function w (''callback'' # params) (crossing_body void decl target True params) (cb # vs) = w_exec w target [cb] vs"
proof -
  have "read_vars ((map_of (zip params vs))(''callback'' \<mapsto> cb)) params = Some vs"
    by (rule read_params [OF assms(1,2)]) (use assms(4) in auto)
  with assms(5) show ?thesis
    by (cases rule: respects_voidE)
      (simp_all add: typed_function_def empty_frame_def assms(2) crossing_body_def unless_void_def assign_def)
qed

lemma unpacking_body_calls:
  assumes "distinct (map fst vars)" "length vs = length vars" "''ret_ref'' \<notin> set (map fst vars)"
    and "respects_void void (w_call w target vs)"
  shows "packed_function w False (unpacking_body void ret target vars (map fst vars)) [] vs = w_call w target vs"
proof -
  have r: "read_vars (map_of (zip (map fst vars) vs)) (map fst vars) = Some vs" by (rule read_params [OF assms(1)]) (use assms(2) in simp_all)
  have n: "map_of (zip (map fst vars) vs) ''ret_ref'' = None" using assms(2,3) by simp
  from assms(4) show ?thesis
    by (cases rule: respects_voidE)
      (simp_all add: packed_function_def empty_frame_def assms(2) unpacking_body_def unless_void_def ret_lval_def assign_def r n)
qed

lemma unpacking_body_calls_callback:
  assumes "distinct (map fst vars)" "length vs = length vars" "''ret_ref'' \<notin> set (map fst vars)" "''callback'' \<notin> set (map fst vars)"
    and "respects_void void (w_call w target (cb # vs))"
  shows "packed_function w True (unpacking_body void ret target vars (''callback'' # map fst vars)) [cb] vs = w_call w target (cb # vs)"
proof -
  let ?m = "[''callback'' \<mapsto> cb] ++ map_of (zip (map fst vars) vs)"
  have r: "read_vars ?m (map fst vars) = Some vs"
    by (rule read_params [OF assms(1)]) (use assms(2) in \<open>auto simp: map_add_def split: option.split\<close>)
  have n: "map_of (zip (map fst vars) vs) ''ret_ref'' = None" "map_of (zip (map fst vars) vs) ''callback'' = None"
    using assms(2-4) by simp_all
  then have c: "?m ''callback'' = Some cb" "?m ''ret_ref'' = None" by (simp_all add: map_add_def)
  from assms(5) show ?thesis
    by (cases rule: respects_voidE)
      (simp_all add: packed_function_def empty_frame_def assms(2) unpacking_body_def unless_void_def ret_lval_def assign_def r c)
qed

text \<open>Entering through a stub: the callback is fetched first.\<close>

lemma callback_entry_calls:
  assumes "distinct params" "length vs = length params" "''ret'' \<notin> set params" "''callback'' \<notin> set params"
    and "respects_void void (w_call w target (w_callback w # vs))"
  shows "typed_function w params
    (unless_void void (Ret_decl decl) @ [Get_callback guest, Invoke (ret_lval void ''ret'') target (''callback'' # params)] @
     unless_void void Return_ret) vs = w_call w target (w_callback w # vs)"
proof -
  have "read_vars ((map_of (zip params vs))(''callback'' \<mapsto> w_callback w)) params = Some vs"
    by (rule read_params [OF assms(1,2)]) (use assms(4) in auto)
  with assms(5) show ?thesis
    by (cases rule: respects_voidE)
      (simp_all add: typed_function_def empty_frame_def assms(2) unless_void_def ret_lval_def assign_def)
qed

subsection \<open>Transparent code\<close>

text \<open>The code of a plain function, and of a callback, for arguments with names and pointer types.\<close>

definition plain_sender :: "thunk_names \<Rightarrow> bool \<Rightarrow> string \<Rightarrow> (string \<times> string) list \<Rightarrow> thunk_code" where
  "plain_sender n void decl vars =
     \<lparr>tc_entry = forward_body void decl (tn_adapt n) (map fst vars),
      tc_adapt = forward_body void decl (tn_caller n) (map fst vars),
      tc_caller = crossing_body void decl (tn_exec n) False (map fst vars)\<rparr>"

definition plain_receiver :: "thunk_names \<Rightarrow> bool \<Rightarrow> string \<Rightarrow> string \<Rightarrow> (string \<times> string) list \<Rightarrow> thunk_code" where
  "plain_receiver n void decl ret vars =
     \<lparr>tc_entry = unpacking_body void ret (tn_adapt n) vars (map fst vars),
      tc_adapt = forward_body void decl (tn_caller n) (map fst vars),
      tc_caller = forward_body void decl (tn_exec n) (map fst vars)\<rparr>"

definition callback_sender :: "thunk_names \<Rightarrow> bool \<Rightarrow> string \<Rightarrow> bool \<Rightarrow> (string \<times> string) list \<Rightarrow> thunk_code" where
  "callback_sender n void decl guest vars =
     (let names = map fst vars; inner = ''callback'' # names in
      \<lparr>tc_entry = unless_void void (Ret_decl decl) @
         [Get_callback guest, Invoke (ret_lval void ''ret'') (tn_adapt n) inner] @ unless_void void Return_ret,
       tc_adapt = forward_body void decl (tn_caller n) inner,
       tc_caller = crossing_body void decl (tn_exec n) True names\<rparr>)"

definition callback_receiver :: "thunk_names \<Rightarrow> bool \<Rightarrow> string \<Rightarrow> string \<Rightarrow> (string \<times> string) list \<Rightarrow> thunk_code" where
  "callback_receiver n void decl ret vars =
     (let inner = ''callback'' # map fst vars in
      \<lparr>tc_entry = unpacking_body void ret (tn_adapt n) vars inner,
       tc_adapt = forward_body void decl (tn_caller n) inner,
       tc_caller = forward_body void decl (tn_exec n) inner\<rparr>)"

definition names_ok :: "string list \<Rightarrow> bool" where
  "names_ok xs \<longleftrightarrow> distinct xs \<and> set xs \<inter> {''ret'', ''ret_ref'', ''callback''} = {}"

text \<open>The middle of the chain hands on what it gets, with or without a callback in front.\<close>

definition inner_names :: "bool \<Rightarrow> string list \<Rightarrow> string list" where
  "inner_names withCallback names = (if withCallback then ''callback'' # names else names)"

definition passes_through :: "thunk_names \<Rightarrow> bool \<Rightarrow> bool \<Rightarrow> (string \<times> string) list \<Rightarrow> thunk_code \<Rightarrow> thunk_code \<Rightarrow> bool" where
  "passes_through n withCallback void vars sender receiver \<longleftrightarrow>
     (let names = map fst vars; inner = inner_names withCallback names in
      (\<exists>decl. tc_adapt sender = forward_body void decl (tn_caller n) inner) \<and>
      (\<exists>decl. tc_caller sender = crossing_body void decl (tn_exec n) withCallback names) \<and>
      (\<exists>ret. tc_entry receiver = unpacking_body void ret (tn_adapt n) vars inner) \<and>
      (\<exists>decl. tc_adapt receiver = forward_body void decl (tn_caller n) inner))"

lemma middle_transparent:
  assumes "passes_through n withCallback void vars sender receiver"
    and "names_ok (map fst vars)" "length vs = length vars" "args = (if withCallback then cb # vs else vs)"
    and "respects_void void (rc args)"
  shows "run_middle n withCallback (inner_names withCallback (map fst vars)) sender receiver rc cb args = rc args"
proof -
  let ?inner = "inner_names withCallback (map fst vars)"
  obtain d1 d2 r d3 where c: "tc_adapt sender = forward_body void d1 (tn_caller n) ?inner"
    "tc_caller sender = crossing_body void d2 (tn_exec n) withCallback (map fst vars)"
    "tc_entry receiver = unpacking_body void r (tn_adapt n) vars ?inner"
    "tc_adapt receiver = forward_body void d3 (tn_caller n) ?inner"
    using assms(1) unfolding passes_through_def Let_def by blast
  have ok: "distinct (map fst vars)" "length vs = length (map fst vars)"
    "''ret'' \<notin> set (map fst vars)" "''ret_ref'' \<notin> set (map fst vars)" "''callback'' \<notin> set (map fst vars)"
    using assms(2,3) by (auto simp: names_ok_def)
  have oki: "distinct ?inner" "length args = length ?inner" "''ret'' \<notin> set ?inner"
    using ok assms(4) by (simp_all add: inner_names_def)
  note f = forward_body_calls [OF oki, where void = void]
  define ra where "ra = typed_function (calls (tn_caller n) rc cb) ?inner (tc_adapt receiver)"
  have ra: "ra args = rc args" unfolding ra_def c using assms(5) by (subst f) (simp_all add: calls_def idle_def only_def)
  define re where "re = packed_function (calls (tn_adapt n) ra cb) withCallback (tc_entry receiver)"
  have re: "re (if withCallback then [cb] else []) vs = rc args"
  proof (cases withCallback)
    case True
    then show ?thesis unfolding re_def c
      using unpacking_body_calls_callback [OF ok(1) assms(3) ok(4,5), of void "calls (tn_adapt n) ra cb" "tn_adapt n" cb r] ra assms(4,5)
      by (simp add: inner_names_def calls_def idle_def only_def)
  next
    case False
    then show ?thesis unfolding re_def c
      using unpacking_body_calls [OF ok(1) assms(3) ok(4), of void "calls (tn_adapt n) ra cb" "tn_adapt n" r] ra assms(4,5)
      by (simp add: inner_names_def calls_def idle_def only_def)
  qed
  define sc where "sc = typed_function (packs (tn_exec n) re cb) ?inner (tc_caller sender)"
  have sc: "sc args = rc args"
  proof (cases withCallback)
    case True
    then show ?thesis unfolding sc_def c
      using crossing_body_packs_callback [OF ok(1-3,5), of void "packs (tn_exec n) re cb" "tn_exec n" cb d2] re assms(4,5)
      by (simp add: inner_names_def packs_def idle_def)
  next
    case False
    then show ?thesis unfolding sc_def c
      using crossing_body_packs [OF ok(1-3), of void "packs (tn_exec n) re cb" "tn_exec n" d2] re assms(4,5)
      by (simp add: inner_names_def packs_def idle_def)
  qed
  have "typed_function (calls (tn_caller n) sc cb) ?inner (tc_adapt sender) args = rc args"
    unfolding c using assms(5) by (subst f) (simp_all add: calls_def idle_def only_def sc)
  then show ?thesis by (simp add: run_middle_def ra_def [symmetric] re_def [symmetric] sc_def [symmetric])
qed

text \<open>The chain hands its arguments to the function and returns what the function returns.\<close>

lemma plain_thunk_transparent:
  assumes "names_ok (map fst vars)" "length vs = length vars" "respects_void void (real vs)"
  shows "run_thunk n False (map fst vars) (map fst vars) (plain_sender n void decl vars) (plain_receiver n void decl' ret vars) real cb vs = real vs"
proof -
  let ?S = "plain_sender n void decl vars" and ?R = "plain_receiver n void decl' ret vars"
  have ok: "distinct (map fst vars)" "length vs = length (map fst vars)" "''ret'' \<notin> set (map fst vars)"
    using assms(1,2) by (auto simp: names_ok_def)
  note f = forward_body_calls [OF ok, where void = void]
  define rc where "rc = typed_function (calls (tn_exec n) real cb) (map fst vars) (tc_caller ?R)"
  have rc: "rc vs = real vs" unfolding rc_def plain_receiver_def using assms(3)
    by (simp only: thunk_code.simps) (subst f, simp_all add: calls_def idle_def only_def)
  have p: "passes_through n False void vars ?S ?R"
    by (auto simp: passes_through_def inner_names_def Let_def plain_sender_def plain_receiver_def)
  have sa: "run_middle n False (map fst vars) ?S ?R rc cb vs = real vs"
    using middle_transparent [OF p assms(1,2), of vs cb rc] rc assms(3) by (simp add: inner_names_def)
  have "typed_function (calls (tn_adapt n) (run_middle n False (map fst vars) ?S ?R rc cb) cb) (map fst vars) (tc_entry ?S) vs = real vs"
    unfolding plain_sender_def using sa assms(3)
    by (simp only: thunk_code.simps) (subst f, simp_all add: calls_def idle_def only_def plain_sender_def)
  then show ?thesis by (simp add: run_thunk_def rc_def [symmetric])
qed

lemma callback_thunk_transparent:
  assumes "names_ok (map fst vars)" "length vs = length vars" "respects_void void (real (cb # vs))"
  shows "run_thunk n True (map fst vars) (''callback'' # map fst vars)
    (callback_sender n void decl guest vars) (callback_receiver n void decl' ret vars) real cb vs = real (cb # vs)"
proof -
  let ?S = "callback_sender n void decl guest vars" and ?R = "callback_receiver n void decl' ret vars"
  let ?inner = "''callback'' # map fst vars"
  have ok: "distinct (map fst vars)" "length vs = length (map fst vars)"
    "''ret'' \<notin> set (map fst vars)" "''callback'' \<notin> set (map fst vars)"
    using assms(1,2) by (auto simp: names_ok_def)
  have oki: "distinct ?inner" "length (cb # vs) = length ?inner" "''ret'' \<notin> set ?inner" using ok by simp_all
  define rc where "rc = typed_function (calls (tn_exec n) real cb) ?inner (tc_caller ?R)"
  have rc: "rc (cb # vs) = real (cb # vs)" unfolding rc_def callback_receiver_def Let_def using assms(3)
    by (simp only: thunk_code.simps) (subst forward_body_calls [OF oki, where void = void], simp_all add: calls_def idle_def only_def)
  have p: "passes_through n True void vars ?S ?R"
    by (auto simp: passes_through_def inner_names_def callback_sender_def callback_receiver_def Let_def)
  have sa: "run_middle n True ?inner ?S ?R rc cb (cb # vs) = real (cb # vs)"
    using middle_transparent [OF p assms(1,2), of "cb # vs" cb rc] rc assms(3) by (simp add: inner_names_def)
  have e: "tc_entry ?S = unless_void void (Ret_decl decl) @
      [Get_callback guest, Invoke (ret_lval void ''ret'') (tn_adapt n) ?inner] @ unless_void void Return_ret"
    by (simp add: callback_sender_def Let_def)
  have "typed_function (calls (tn_adapt n) (run_middle n True ?inner ?S ?R rc cb) cb) (map fst vars) (tc_entry ?S) vs = real (cb # vs)"
    unfolding e using sa assms(3)
    by (subst callback_entry_calls [OF ok, where void = void]) (simp_all add: calls_def idle_def only_def)
  then show ?thesis by (simp add: run_thunk_def rc_def [symmetric])
qed

subsection \<open>Variadic code\<close>

text \<open>
  Instead of the tail, the inner functions take the array \<open>vargs\<close>: the entry packs it, the receiver's
  caller calls with the fixed arguments and the packed ones.
\<close>

definition variadic_entry :: "bool \<Rightarrow> string \<Rightarrow> stmt list \<Rightarrow> stmt \<Rightarrow> string \<Rightarrow> string list \<Rightarrow> stmt list" where
  "variadic_entry void decl fetch extract target inner =
     unless_void void (Ret_decl decl) @ fetch @ [Decl_vargs, extract, Invoke (ret_lval void ''ret'') target inner] @
     unless_void void Return_ret"

definition variadic_caller :: "bool \<Rightarrow> string \<Rightarrow> string \<Rightarrow> string \<Rightarrow> string \<Rightarrow> string list \<Rightarrow> stmt list" where
  "variadic_caller void decl ret helper target fixed =
     unless_void void (Ret_decl decl) @ [Fixed_entries fixed, Decl_vret, Init_vret void, Call_variadic helper target] @
     unless_void void (Assign_vret ret) @ unless_void void Return_ret"

lemma map_of_zip_snoc:
  "length xs = length vs \<Longrightarrow> x \<notin> set xs \<Longrightarrow> map_of (zip (xs @ [x]) (vs @ [v])) = (map_of (zip xs vs))(x \<mapsto> v)"
  by (induction xs vs rule: list_induct2) (auto simp: fun_upd_twist)

definition fetch_callback :: "bool \<Rightarrow> bool \<Rightarrow> stmt list" where
  "fetch_callback withCallback guest = (if withCallback then [Get_callback guest] else [])"

lemma variadic_caller_calls:
  assumes "names_ok (fixed @ [''vargs''])" "length vs = length fixed"
    and "r = w_variadic w helper target (if withCallback then Some cb else None) vs a" "respects_void void r"
  shows "typed_function w (inner_names withCallback (fixed @ [''vargs'']))
    (variadic_caller void decl ret helper target fixed) (if withCallback then cb # vs @ [a] else vs @ [a]) = r"
proof -
  let ?names = "inner_names withCallback (fixed @ [''vargs''])"
  let ?m = "map_of (zip ?names (if withCallback then cb # vs @ [a] else vs @ [a]))"
  have ok: "distinct fixed" "''vargs'' \<notin> set fixed" "''callback'' \<notin> set fixed" using assms(1) by (auto simp: names_ok_def)
  have z: "map_of (zip (fixed @ [''vargs'']) (vs @ [a])) = (map_of (zip fixed vs))(''vargs'' \<mapsto> a)"
    using assms(2) ok(2) by (intro map_of_zip_snoc) simp_all
  have v: "?m ''vargs'' = Some a" using z by (auto simp: inner_names_def)
  have c: "?m ''callback'' = (if withCallback then Some cb else None)"
    using z ok assms(2) by (auto simp: inner_names_def)
  have f: "read_vars ?m fixed = Some vs"
    by (rule read_params [OF ok(1) assms(2)]) (use z ok in \<open>auto simp: inner_names_def\<close>)
  have l: "length (if withCallback then cb # vs @ [a] else vs @ [a]) = length ?names" using assms(2) by (simp add: inner_names_def)
  have r: "w_variadic w helper target (if withCallback then Some cb else None) vs a = r" using assms(3) by simp
  from assms(4) show ?thesis
    unfolding typed_function_def empty_frame_def using l
    by (cases rule: respects_voidE) (simp_all add: variadic_caller_def unless_void_def assign_def f v c r)
qed

text \<open>The entry of a variadic function starts the list behind its last parameter; the other has it as its last.\<close>

definition packs_tail :: "'v world \<Rightarrow> bool \<Rightarrow> string \<Rightarrow> string list \<Rightarrow> string list \<Rightarrow> nat \<Rightarrow> stmt \<Rightarrow> bool" where
  "packs_tail w hasVAList style fixed params f extract \<longleftrightarrow>
     f < length fixed \<and>
     (if hasVAList then \<exists>ap. params = fixed @ [ap] \<and> extract = Extract style (fixed ! f) ap
      else params = fixed @ [''...''] \<and> w_lastParam w = List.last fixed \<and> extract = Va_extract (List.last fixed) style (fixed ! f))"

lemma variadic_entry_calls:
  assumes "packs_tail w hasVAList style fixed params f extract" "names_ok params" "''vargs'' \<notin> set fixed"
    and "length vs = length fixed" "fetch = fetch_callback withCallback guest"
    and "r = w_call w target (if withCallback then w_callback w # vs @ [w_extract w style (vs ! f) tail] else vs @ [w_extract w style (vs ! f) tail])"
    and "respects_void void r"
  shows "typed_function w params (variadic_entry void decl fetch extract target (inner_names withCallback (fixed @ [''vargs'']))) (vs @ [tail]) = r"
proof -
  define tailName where "tailName = (if hasVAList then List.last params else ''...'')"
  have p: "params = fixed @ [tailName]" using assms(1) by (auto simp: packs_tail_def tailName_def split: if_splits)
  have ok: "distinct fixed" "tailName \<notin> set fixed" "''callback'' \<notin> set fixed" "''ret'' \<notin> set fixed" "tailName \<noteq> ''callback''" "tailName \<noteq> ''ret''"
    using assms(2) p by (auto simp: names_ok_def)
  have f: "f < length fixed" using assms(1) by (simp add: packs_tail_def)
  let ?m = "map_of (zip params (vs @ [tail]))"
  have z: "?m = (map_of (zip fixed vs))(tailName \<mapsto> tail)"
    unfolding p using assms(4) ok(2) by (intro map_of_zip_snoc) simp_all
  have mf: "map_of (zip fixed vs) (fixed ! f) = Some (vs ! f)" using f assms(4) ok(1) by (simp add: map_of_zip_nth)
  have fne: "fixed ! f \<noteq> tailName" "fixed ! f \<noteq> ''callback''" using f ok by (auto simp: in_set_conv_nth)
  define m1 where "m1 = (if withCallback then ?m(''callback'' \<mapsto> w_callback w) else ?m)"
  have m1: "m1 (fixed ! f) = Some (vs ! f)" "m1 tailName = Some tail"
    using mf fne ok by (simp_all add: m1_def z)
  define fr1 where "fr1 = (empty_frame m1)\<lparr>fr_vars := m1(''vargs'' \<mapsto> w_extract w style (vs ! f) tail)\<rparr>"
  have e: "exec_stmt w extract (empty_frame m1) = Some fr1"
    using assms(1) m1 by (auto simp: packs_tail_def tailName_def fr1_def empty_frame_def split: if_splits)
  have rd: "read_vars (fr_vars fr1) (inner_names withCallback (fixed @ [''vargs''])) =
      Some (if withCallback then w_callback w # vs @ [w_extract w style (vs ! f) tail] else vs @ [w_extract w style (vs ! f) tail])"
  proof -
    have "list_all2 (\<lambda>x v. fr_vars fr1 x = Some v) fixed vs"
      using params_all2 [OF ok(1) assms(4)]
      by (rule list.rel_mono_strong) (use ok assms(3) in \<open>auto simp: fr1_def m1_def z in_set_zip\<close>)
    then have "list_all2 (\<lambda>x v. fr_vars fr1 x = Some v) (fixed @ [''vargs'']) (vs @ [w_extract w style (vs ! f) tail])"
      by (intro list_all2_appendI) (simp_all add: fr1_def)
    moreover have "withCallback \<Longrightarrow> fr_vars fr1 ''callback'' = Some (w_callback w)" by (simp add: fr1_def m1_def)
    ultimately show ?thesis by (auto simp: inner_names_def intro!: read_vars_all2)
  qed
  have l: "length (vs @ [tail]) = length params" using assms(4) p by simp
  have fe: "for_each (exec_stmt w) (fetch @ [Decl_vargs, extract]) (empty_frame ?m) = Some fr1"
    using e by (cases withCallback) (simp_all add: assms(5) fetch_callback_def m1_def empty_frame_def)
  let ?inner = "inner_names withCallback (fixed @ [''vargs''])"
  define mid where "mid = fetch @ [Decl_vargs, extract]"
  have d: "for_each (exec_stmt w) (unless_void void (Ret_decl decl)) fr = Some fr" for fr by (simp add: unless_void_def)
  have "variadic_entry void decl fetch extract target ?inner =
      unless_void void (Ret_decl decl) @ mid @ (Invoke (ret_lval void ''ret'') target ?inner # unless_void void Return_ret)"
    by (simp add: variadic_entry_def mid_def)
  then have run: "for_each (exec_stmt w) (variadic_entry void decl fetch extract target ?inner) (empty_frame ?m) =
      for_each (exec_stmt w) (Invoke (ret_lval void ''ret'') target ?inner # unless_void void Return_ret) fr1"
    by (simp only: for_each_append d fe [folded mid_def] option.case)
  define args where "args = (if withCallback then w_callback w # vs @ [w_extract w style (vs ! f) tail] else vs @ [w_extract w style (vs ! f) tail])"
  have cl: "w_call w target args = r" unfolding args_def by (rule assms(6) [symmetric])
  note rd' = rd [folded args_def]
  have fr: "fr_result fr1 = None" by (simp add: fr1_def empty_frame_def)
  from assms(7) show ?thesis
    unfolding typed_function_def run using l
    by (cases rule: respects_voidE) (simp_all add: unless_void_def ret_lval_def assign_def rd' cl fr)
qed

text \<open>The two sides of a variadic thunk.\<close>

definition variadic_sender ::
    "thunk_names \<Rightarrow> bool \<Rightarrow> bool \<Rightarrow> string \<Rightarrow> bool \<Rightarrow> stmt \<Rightarrow> (string \<times> string) list \<Rightarrow> thunk_code" where
  "variadic_sender n withCallback void decl guest extract vars =
     (let names = map fst vars; inner = inner_names withCallback names in
      \<lparr>tc_entry = variadic_entry void decl (fetch_callback withCallback guest) extract (tn_adapt n) inner,
       tc_adapt = forward_body void decl (tn_caller n) inner,
       tc_caller = crossing_body void decl (tn_exec n) withCallback names\<rparr>)"

definition variadic_receiver ::
    "thunk_names \<Rightarrow> bool \<Rightarrow> bool \<Rightarrow> string \<Rightarrow> string \<Rightarrow> string \<Rightarrow> string \<Rightarrow> string \<Rightarrow> string list \<Rightarrow> (string \<times> string) list \<Rightarrow> thunk_code" where
  "variadic_receiver n withCallback void decl ret retType helper target fixed vars =
     (let inner = inner_names withCallback (map fst vars) in
      \<lparr>tc_entry = unpacking_body void ret (tn_adapt n) vars inner,
       tc_adapt = forward_body void decl (tn_caller n) inner,
       tc_caller = variadic_caller void decl retType helper target fixed\<rparr>)"

lemma variadic_thunk_transparent:
  assumes "packs_tail w hasVAList style fixed params f extract" "names_ok params" "names_ok (fixed @ [''vargs''])"
    and "map fst vars = fixed @ [''vargs'']" "length vs = length fixed"
    and "r = w_variadic w helper target (if withCallback then Some (w_callback w) else None) vs (w_extract w style (vs ! f) tail)"
    and "respects_void void r"
  shows "run_variadic n withCallback params (inner_names withCallback (map fst vars))
    (variadic_sender n withCallback void decl guest extract vars)
    (variadic_receiver n withCallback void decl' ret retType helper target fixed vars) w (vs @ [tail]) = r"
proof -
  let ?S = "variadic_sender n withCallback void decl guest extract vars"
  let ?R = "variadic_receiver n withCallback void decl' ret retType helper target fixed vars"
  let ?inner = "inner_names withCallback (map fst vars)"
  let ?a = "w_extract w style (vs ! f) tail"
  let ?args = "if withCallback then w_callback w # vs @ [?a] else vs @ [?a]"
  define rc where "rc = typed_function w ?inner (tc_caller ?R)"
  have rc: "rc ?args = r"
    unfolding rc_def variadic_receiver_def Let_def
    using variadic_caller_calls [OF assms(3,5), of r w helper target withCallback "w_callback w" ?a void decl' retType] assms(4,6,7) by simp
  have p: "passes_through n withCallback void vars ?S ?R"
    by (auto simp: passes_through_def Let_def variadic_sender_def variadic_receiver_def)
  have l: "length (vs @ [?a]) = length vars" using assms(4,5) by (metis length_append length_map list.size(3,4))
  have ok: "names_ok (map fst vars)" unfolding assms(4) by (rule assms(3))
  have sa: "run_middle n withCallback ?inner ?S ?R rc (w_callback w) ?args = r"
    by (subst middle_transparent [OF p ok l]) (simp_all add: rc assms(7))
  define w' where "w' = w\<lparr>w_call := only (tn_adapt n) (run_middle n withCallback ?inner ?S ?R rc (w_callback w))\<rparr>"
  have pw: "packs_tail w' hasVAList style fixed params f extract" using assms(1) by (simp add: packs_tail_def w'_def)
  have c: "w_call w' (tn_adapt n) (if withCallback then w_callback w' # vs @ [w_extract w' style (vs ! f) tail]
      else vs @ [w_extract w' style (vs ! f) tail]) = r"
    using sa by (cases withCallback) (simp_all add: w'_def only_def)
  have e: "tc_entry ?S = variadic_entry void decl (fetch_callback withCallback guest) extract (tn_adapt n) (inner_names withCallback (fixed @ [''vargs'']))"
    by (simp add: variadic_sender_def Let_def assms(4))
  have v: "''vargs'' \<notin> set fixed" using assms(3) by (auto simp: names_ok_def)
  have "typed_function w' params (tc_entry ?S) (vs @ [tail]) = r"
    unfolding e by (rule variadic_entry_calls [OF pw assms(2) v assms(5) refl c [symmetric] assms(7)])
  then show ?thesis by (simp add: run_variadic_def w'_def rc_def [symmetric])
qed

end
