(* ===== verification/Default_Builder.thy ===== *)
theory Default_Builder
  imports Document_Context Thunk_Code
begin

text \<open>
  The default builder (\<open>src/tools/TLC/Passes/Builder/DefaultBuilder.cpp\<close>): the code of a proc's entry,
  adaptor and caller on the side the document is generated for. The names of the callees are shared with
  the builder of printf-like procs.
\<close>

subsection \<open>Writing into a phase\<close>

definition with_info :: "'t FunctionInfo \<Rightarrow> 't ProcSource \<Rightarrow> 't ProcSource" where
  "with_info info src = src\<lparr>src_functionInfo := info\<rparr>"

definition push_prolog :: "string \<Rightarrow> string \<Rightarrow> 't ProcSource \<Rightarrow> 't ProcSource" where
  "push_prolog key txt src = src\<lparr>src_body := (src_body src)\<lparr>bs_prolog := line_push_back key txt (bs_prolog (src_body src))\<rparr>\<rparr>"

definition push_center :: "string \<Rightarrow> string \<Rightarrow> 't ProcSource \<Rightarrow> 't ProcSource" where
  "push_center key txt src = src\<lparr>src_body := (src_body src)\<lparr>bs_center := line_push_back key txt (bs_center (src_body src))\<rparr>\<rparr>"

definition push_epilog :: "string \<Rightarrow> string \<Rightarrow> 't ProcSource \<Rightarrow> 't ProcSource" where
  "push_epilog key txt src = src\<lparr>src_body := (src_body src)\<lparr>bs_epilog := line_push_back key txt (bs_epilog (src_body src))\<rparr>\<rparr>"

type_synonym 't sources = "ProcPhase \<Rightarrow> 't ProcSource"

subsection \<open>Callees\<close>

definition getProcFnAdaptInvoke :: "string \<Rightarrow> string \<Rightarrow> string option" where
  "getProcFnAdaptInvoke name dir = format ''ProcFn<%1, %2, Adapt>::invoke'' [name, dir]"

definition getProcCbAdaptInvoke :: "string \<Rightarrow> string \<Rightarrow> string option" where
  "getProcCbAdaptInvoke name dir = format ''ProcCb<%1, %2, Adapt>::invoke'' [name, dir]"

definition getProcFnCallerInvoke :: "string \<Rightarrow> string \<Rightarrow> string option" where
  "getProcFnCallerInvoke name dir = format ''ProcFn<%1, %2, Caller>::invoke'' [name, dir]"

definition getProcCbCallerInvoke :: "string \<Rightarrow> string \<Rightarrow> string option" where
  "getProcCbCallerInvoke name dir = format ''ProcCb<%1, %2, Caller>::invoke'' [name, dir]"

definition getProcFnExecInvokeWithCallList :: "string \<Rightarrow> string \<Rightarrow> bool \<Rightarrow> string option" where
  "getProcFnExecInvokeWithCallList name dir isVoid =
     format ''ProcFn<%1, %2, Exec>::invoke(args, %3, nullptr);'' [name, dir, if isVoid then ''nullptr'' else ''&ret'']"

definition getProcCbExecInvokeWithCallList :: "string \<Rightarrow> string \<Rightarrow> bool \<Rightarrow> string option" where
  "getProcCbExecInvokeWithCallList name dir isVoid =
     format ''ProcCb<%1, %2, Exec>::invoke(callback, args, %3, nullptr);'' [name, dir, if isVoid then ''nullptr'' else ''&ret'']"

subsection \<open>Functions\<close>

definition default_function_sender ::
    "'t clang_types \<Rightarrow> string \<Rightarrow> string \<Rightarrow> string \<Rightarrow> bool \<Rightarrow> 't FunctionInfo \<Rightarrow> 't sources \<Rightarrow> 't sources option" where
  "default_function_sender C key name dir isVoid FI src = do {
     retDecl \<leftarrow> SRC_emptyReturnDecl C FI;
     returnRet \<leftarrow> SRC_returnRet C FI;
     adapt \<leftarrow> getProcFnAdaptInvoke name dir;
     callAdapt \<leftarrow> SRC_callListAssign C FI adapt ''ret'';
     caller \<leftarrow> getProcFnCallerInvoke name dir;
     callCaller \<leftarrow> SRC_callListAssign C FI caller ''ret'';
     exec \<leftarrow> getProcFnExecInvokeWithCallList name dir isVoid;
     Some (src(
       Entry := push_epilog key returnRet (push_center key callAdapt (push_prolog key retDecl (with_info FI (src Entry)))),
       Adapt := push_epilog key returnRet (push_center key callCaller (push_prolog key retDecl (with_info FI (src Adapt)))),
       Caller := push_epilog key returnRet (push_center key (SRC_asIs exec)
         (push_prolog key (SRC_argPtrListDecl FI) (push_prolog key retDecl (with_info FI (src Caller)))))))
   }"

definition default_function_receiver ::
    "'t clang_types \<Rightarrow> string \<Rightarrow> string \<Rightarrow> string \<Rightarrow> 't FunctionInfo \<Rightarrow> 't sources \<Rightarrow> 't sources option" where
  "default_function_receiver C key name dir FI src = do {
     retDecl \<leftarrow> SRC_emptyReturnDecl C FI;
     returnRet \<leftarrow> SRC_returnRet C FI;
     retRef \<leftarrow> SRC_retExtractDecl C FI;
     adapt \<leftarrow> getProcFnAdaptInvoke name dir;
     callAdapt \<leftarrow> SRC_callListAssign C FI adapt ''ret_ref'';
     caller \<leftarrow> getProcFnCallerInvoke name dir;
     callCaller \<leftarrow> SRC_callListAssign C FI caller ''ret'';
     exec \<leftarrow> format ''ProcFn<%1, %2, Exec>::invoke'' [name, dir];
     callExec \<leftarrow> SRC_callListAssign C FI exec ''ret'';
     Some (src(
       Entry := push_center key callAdapt (push_prolog key retRef
         (push_prolog key (SRC_argPtrListExtractDecl C FI) (with_info (FI_packedFunctionInfo C) (src Entry)))),
       Adapt := push_epilog key returnRet (push_center key callCaller (push_prolog key retDecl (with_info FI (src Adapt)))),
       Caller := push_epilog key returnRet (push_center key callExec (push_prolog key retDecl (with_info FI (src Caller))))))
   }"

subsection \<open>Callbacks\<close>

definition default_callback_sender ::
    "'t clang_types \<Rightarrow> string \<Rightarrow> string \<Rightarrow> string \<Rightarrow> bool \<Rightarrow> bool \<Rightarrow> 't FunctionInfo \<Rightarrow> 't FunctionInfo \<Rightarrow> 't sources \<Rightarrow> 't sources option" where
  "default_callback_sender C key name dir isG2H isVoid FI CFI src = do {
     retDecl \<leftarrow> SRC_emptyReturnDecl C FI;
     returnRet \<leftarrow> SRC_returnRet C FI;
     adapt \<leftarrow> getProcCbAdaptInvoke name dir;
     callAdapt \<leftarrow> SRC_callListAssign C CFI adapt ''ret'';
     caller \<leftarrow> getProcCbCallerInvoke name dir;
     callCaller \<leftarrow> SRC_callListAssign C CFI caller ''ret'';
     exec \<leftarrow> getProcCbExecInvokeWithCallList name dir isVoid;
     Some (src(
       Entry := push_epilog key returnRet (push_center key callAdapt
         (push_prolog key (SRC_getCallback (\<not> isG2H)) (push_prolog key retDecl (with_info FI (src Entry))))),
       Adapt := push_epilog key returnRet (push_center key callCaller (push_prolog key retDecl (with_info CFI (src Adapt)))),
       Caller := push_epilog key returnRet (push_center key (SRC_asIs exec)
         (push_prolog key (SRC_argPtrListDecl FI) (push_prolog key retDecl (with_info CFI (src Caller)))))))
   }"

definition default_callback_receiver ::
    "'t clang_types \<Rightarrow> string \<Rightarrow> string \<Rightarrow> string \<Rightarrow> 't FunctionInfo \<Rightarrow> 't FunctionInfo \<Rightarrow> 't sources \<Rightarrow> 't sources option" where
  "default_callback_receiver C key name dir FI CFI src = do {
     retDecl \<leftarrow> SRC_emptyReturnDecl C FI;
     returnRet \<leftarrow> SRC_returnRet C FI;
     retRef \<leftarrow> SRC_retExtractDecl C FI;
     adapt \<leftarrow> getProcCbAdaptInvoke name dir;
     callAdapt \<leftarrow> SRC_callListAssign C CFI adapt ''ret_ref'';
     caller \<leftarrow> getProcCbCallerInvoke name dir;
     callCaller \<leftarrow> SRC_callListAssign C CFI caller ''ret'';
     exec \<leftarrow> format ''ProcCb<%1, %2, Exec>::invoke'' [name, dir];
     callExec \<leftarrow> SRC_callListAssign C CFI exec ''ret'';
     Some (src(
       Entry := push_center key callAdapt (push_prolog key retRef
         (push_prolog key (SRC_argPtrListExtractDecl C FI) (with_info (FI_packedCallbackInfo C) (src Entry)))),
       Adapt := push_epilog key returnRet (push_center key callCaller (push_prolog key retDecl (with_info CFI (src Adapt)))),
       Caller := push_epilog key returnRet (push_center key callExec (push_prolog key retDecl (with_info CFI (src Caller))))))
   }"

subsection \<open>The pass\<close>

text \<open>
  The document's side is the sender for procs towards the other side; what is written for the other
  role goes to empty sources that are thrown away.
\<close>

definition is_sender :: "Mode \<Rightarrow> ProcDirection \<Rightarrow> bool" where
  "is_sender mode direction =
     (let isHost = (mode = Host); isG2H = (direction = GuestToHost) in if isG2H then \<not> isHost else isHost)"

definition route ::
    "bool \<Rightarrow> ('t sources \<Rightarrow> 't sources option) \<Rightarrow> ('t sources \<Rightarrow> 't sources option) \<Rightarrow> 't sources \<Rightarrow> 't sources option" where
  "route sender write_sender write_receiver src = do {
     X \<leftarrow> write_sender (if sender then src else (\<lambda>_. empty_source));
     Y \<leftarrow> write_receiver (if sender then (\<lambda>_. empty_source) else src);
     Some (if sender then X else Y)
   }"

definition with_callback :: "'t clang_types \<Rightarrow> 't FunctionInfo \<Rightarrow> 't FunctionInfo" where
  "with_callback C FI = FI\<lparr>fi_args := (Some (cl_pointer C (cl_void C)), ''callback'') # fi_args FI\<rparr>"

definition default_beginHandleProc :: "'t clang_types \<Rightarrow> Mode \<Rightarrow> 't ProcSnippet \<Rightarrow> 't ProcSnippet option" where
  "default_beginHandleProc C mode p =
     (let real = ps_realFunctionTypeView p;
          FI = info_of_view real;
          CFI = with_callback C FI;
          key = ''DefaultBuilder'';
          name = ps_name p;
          isG2H = (ps_direction p = GuestToHost);
          dir = (if isG2H then ''GuestToHost'' else ''HostToGuest'');
          sender = is_sender mode (ps_direction p)
      in do {
        isVoid \<leftarrow> map_option (isVoidType C) (fv_returnType real);
        src \<leftarrow> (if isFunction p
          then route sender (default_function_sender C key name dir isVoid FI) (default_function_receiver C key name dir FI) (ps_sources p)
          else route sender (default_callback_sender C key name dir isG2H isVoid FI CFI)
                 (default_callback_receiver C key name dir FI CFI) (ps_sources p));
        Some (p\<lparr>ps_sources := src\<rparr>)
      })"

text \<open>A hook on the snippet of a proc, as a hook on the document.\<close>

definition on_proc ::
    "('t ProcSnippet \<Rightarrow> 't ProcSnippet option) \<Rightarrow> proc_ref \<Rightarrow> ('t, 'z) document \<Rightarrow> ('t, 'z) document option" where
  "on_proc f r doc =
     (case proc_at doc r of None \<Rightarrow> None | Some p \<Rightarrow> map_option (\<lambda>p'. put_proc r p' doc) (f p))"

definition DefaultBuilderPass :: "'t clang_types \<Rightarrow> (('t, 'z) document, proc_ref, 'm) Pass" where
  "DefaultBuilderPass C = (base_pass Builder ID_DefaultBuilder ''DefaultBuilder'')
     \<lparr>p_testProc := (\<lambda>_ doc. Some (doc, True, None)),
      p_beginHandleProc := (\<lambda>r _ doc. on_proc (default_beginHandleProc C (dc_mode doc)) r doc)\<rparr>"

subsection \<open>Templates as statements\<close>

named_theorems formats \<open>texts of the format templates\<close>

lemma getProcFnAdaptInvoke_text [formats]:
  "getProcFnAdaptInvoke name dir = Some (''ProcFn<'' @ name @ '', '' @ dir @ '', Adapt>::invoke'')"
  by (simp add: getProcFnAdaptInvoke_def format_eq_ref is_digit_def digits_value_def digit_val_def int_max_def)
lemma getProcFnCallerInvoke_text [formats]:
  "getProcFnCallerInvoke name dir = Some (''ProcFn<'' @ name @ '', '' @ dir @ '', Caller>::invoke'')"
  by (simp add: getProcFnCallerInvoke_def format_eq_ref is_digit_def digits_value_def digit_val_def int_max_def)
lemma getProcCbAdaptInvoke_text [formats]:
  "getProcCbAdaptInvoke name dir = Some (''ProcCb<'' @ name @ '', '' @ dir @ '', Adapt>::invoke'')"
  by (simp add: getProcCbAdaptInvoke_def format_eq_ref is_digit_def digits_value_def digit_val_def int_max_def)
lemma getProcCbCallerInvoke_text [formats]:
  "getProcCbCallerInvoke name dir = Some (''ProcCb<'' @ name @ '', '' @ dir @ '', Caller>::invoke'')"
  by (simp add: getProcCbCallerInvoke_def format_eq_ref is_digit_def digits_value_def digit_val_def int_max_def)
lemma fn_exec_text [formats]:
  "format ''ProcFn<%1, %2, Exec>::invoke'' [name, dir] = Some (''ProcFn<'' @ name @ '', '' @ dir @ '', Exec>::invoke'')"
  by (simp add: format_eq_ref is_digit_def digits_value_def digit_val_def int_max_def)
lemma cb_exec_text [formats]:
  "format ''ProcCb<%1, %2, Exec>::invoke'' [name, dir] = Some (''ProcCb<'' @ name @ '', '' @ dir @ '', Exec>::invoke'')"
  by (simp add: format_eq_ref is_digit_def digits_value_def digit_val_def int_max_def)
lemma getProcFnExec_text [formats]:
  "getProcFnExecInvokeWithCallList name dir isVoid =
     Some (''ProcFn<'' @ name @ '', '' @ dir @ '', Exec>::invoke(args, '' @ (if isVoid then ''nullptr'' else ''&ret'') @ '', nullptr);'')"
  by (simp add: getProcFnExecInvokeWithCallList_def format_eq_ref is_digit_def digits_value_def digit_val_def int_max_def)
lemma getProcCbExec_text [formats]:
  "getProcCbExecInvokeWithCallList name dir isVoid =
     Some (''ProcCb<'' @ name @ '', '' @ dir @ '', Exec>::invoke(callback, args, '' @ (if isVoid then ''nullptr'' else ''&ret'') @ '', nullptr);'')"
  by (simp add: getProcCbExecInvokeWithCallList_def format_eq_ref is_digit_def digits_value_def digit_val_def int_max_def)

lemma fold_append_concat: "fold (\<lambda>x r. r @ f x) xs r0 = r0 @ concat (map f xs)"
  by (induction xs arbitrary: r0) simp_all

lemma callList_text: "SRC_callList info = comma_sep (map snd (fi_args info))"
proof (cases "map snd (fi_args info)")
  case Nil
  then show ?thesis by (simp add: SRC_callList_def)
next
  case (Cons a as)
  show ?thesis unfolding SRC_callList_def Cons list.case comma_sep.simps
    by (rule fold_append_concat [of "\<lambda>a. '', '' @ a"])
qed

text \<open>The templates as texts of statements.\<close>

lemma returnRet_text:
  "fi_returnType info = Some r \<Longrightarrow> SRC_returnRet C info = Some (concat (map render_stmt (unless_void (isVoidType C r) Return_ret)))"
  by (simp add: SRC_returnRet_def unless_void_def)

lemma emptyReturnDecl_text:
  "fi_returnType info = Some r \<Longrightarrow> SRC_emptyReturnDecl C info =
     Some (concat (map render_stmt (unless_void (isVoidType C r) (Ret_decl (getTypeStringWithName C r ''ret'')))))"
  by (simp add: SRC_emptyReturnDecl_def unless_void_def)

lemma retExtractDecl_text:
  "fi_returnType info = Some r \<Longrightarrow> SRC_retExtractDecl C info =
     Some (concat (map render_stmt (unless_void (isVoidType C r) (Unpack_ret (getTypeString C (cl_pointer C r))))))"
  by (simp add: SRC_retExtractDecl_def unless_void_def)

lemma callListAssign_text:
  "fi_returnType info = Some r \<Longrightarrow> SRC_callListAssign C info func lval =
     Some (render_stmt (Invoke (ret_lval (isVoidType C r) lval) func (map snd (fi_args info))))"
  by (simp add: SRC_callListAssign_def ret_lval_def callList_text)

lemma argPtrListDecl_text: "SRC_argPtrListDecl info = render_stmt (Pack_args (map snd (fi_args info)))"
  by (simp add: SRC_argPtrListDecl_def fold_append_concat [of "\<lambda>a. blanks 8 @ ''(void *) &'' @ snd a @ '','' @ eol", simplified] comp_def)

definition pointer_vars :: "'t clang_types \<Rightarrow> 't list \<Rightarrow> (string \<times> string) list" where
  "pointer_vars C ts = map (\<lambda>i. (''arg'' @ std_to_string (i + 1), getTypeString C (cl_pointer C (ts ! i)))) [0..<length ts]"

lemma enumerate_upt: "List.enumerate 0 xs = map (\<lambda>i. (i, xs ! i)) [0..<length xs]"
  by (rule nth_equalityI) (simp_all add: nth_enumerate_eq)

lemma argPtrListExtractDecl_text:
  "SRC_argPtrListExtractDecl C (info_of_view view) = render_stmt (Unpack_args (pointer_vars C (fv_argTypes view)))"
proof -
  let ?n = "length (fv_argTypes view)"
  have a: "fi_args (info_of_view view) = map (\<lambda>i. (Some (fv_argTypes view ! i), ''arg'' @ std_to_string (i + 1))) [0..<?n]"
    by (simp add: info_of_view_def)
  define g where "g i = blanks 4 @ ''auto &'' @ snd (fi_args (info_of_view view) ! i) @ '' = *('' @
         (case fst (fi_args (info_of_view view) ! i) of None \<Rightarrow> metaArgumentType (info_of_view view) (snd (fi_args (info_of_view view) ! i)) @ '' *''
          | Some t \<Rightarrow> getTypeString C (cl_pointer C t)) @ '') args['' @ std_to_string i @ ''];'' @ eol" for i
  have "SRC_argPtrListExtractDecl C (info_of_view view) = fold (\<lambda>i res. res @ g i) [0..<length (fi_args (info_of_view view))] []"
    unfolding SRC_argPtrListExtractDecl_def g_def case_prod_unfold ..
  also have "\<dots> = concat (map g [0..<?n])" by (simp add: fold_append_concat a)
  also have "\<dots> = render_stmt (Unpack_args (pointer_vars C (fv_argTypes view)))"
  proof -
    let ?vs = "pointer_vars C (fv_argTypes view)"
    have v: "length ?vs = ?n" by (simp add: pointer_vars_def)
    have "map g [0..<?n] = map (\<lambda>i. blanks 4 @ ''auto &'' @ fst (?vs ! i) @ '' = *('' @ snd (?vs ! i) @
        '') args['' @ std_to_string i @ ''];'' @ eol) [0..<?n]"
      by (rule map_cong) (simp_all add: g_def a pointer_vars_def)
    then show ?thesis by (simp only: render_stmt.simps enumerate_upt v map_map comp_def case_prod_unfold fst_conv snd_conv)
  qed
  finally show ?thesis .
qed

subsection \<open>Argument names\<close>

text \<open>Different numbers have different digits.\<close>

lemma std_digit_char: "d < 10 \<Longrightarrow> digit_val (char_of (48 + d :: nat)) = d"
  by (simp add: digit_val_def)

lemma digits_value_append: "digits_value (xs @ [c]) = digits_value xs * 10 + digit_val c"
  by (simp add: digits_value_def)

lemma digits_value_to_string: "digits_value (std_to_string n) = n"
proof (induction n rule: std_to_string.induct)
  case (1 n)
  show ?case
  proof (cases "n < 10")
    case True
    then show ?thesis by (subst std_to_string.simps) (simp add: digits_value_def std_digit_char)
  next
    case False
    then show ?thesis using 1
      by (subst std_to_string.simps) (simp add: digits_value_append std_digit_char)
  qed
qed

lemma std_to_string_inject [simp]: "std_to_string m = std_to_string n \<longleftrightarrow> m = n"
  by (metis digits_value_to_string)

definition arg_names :: "nat \<Rightarrow> string list" where
  "arg_names n = map (\<lambda>i. ''arg'' @ std_to_string (i + 1)) [0..<n]"

lemma arg_names_ok: "names_ok (arg_names n)"
  by (auto simp: names_ok_def arg_names_def distinct_map inj_on_def)

lemma arg_names_nth: "i < n \<Longrightarrow> arg_names n ! i = ''arg'' @ std_to_string (i + 1)"
  by (simp add: arg_names_def)

lemma pointer_vars_names: "map fst (pointer_vars C ts) = arg_names (length ts)"
  by (simp add: pointer_vars_def arg_names_def comp_def)

lemma info_names: "map snd (fi_args (info_of_view view)) = arg_names (length (fv_argTypes view))"
  by (simp add: info_of_view_def arg_names_def comp_def)

subsection \<open>The code of a phase\<close>

definition lines_text :: "SourceLineList \<Rightarrow> string" where
  "lines_text lines = concat (map ln_text lines)"

definition phase_code :: "'t ProcSource \<Rightarrow> string" where
  "phase_code src = (let b = src_body src in
     lines_text (bs_prolog b) @ lines_text (bs_forward b) @ lines_text (bs_center b) @ lines_text (bs_backward b) @ lines_text (bs_epilog b))"

lemma lines_text_push_back [simp]: "lines_text (line_push_back key txt lines) = lines_text lines @ txt"
  by (simp add: lines_text_def line_push_back_def)

lemma lines_text_Nil [simp]: "lines_text [] = []"
  by (simp add: lines_text_def)

lemma phase_code_pushed:
  "phase_code (push_epilog k e (push_center k c (push_prolog k p (with_info i empty_source)))) = p @ c @ e"
  "phase_code (push_epilog k e (push_center k c (push_prolog k p' (push_prolog k p (with_info i empty_source))))) = p @ p' @ c @ e"
  "phase_code (push_center k c (push_prolog k p' (push_prolog k p (with_info i empty_source)))) = p @ p' @ c"
  by (simp_all add: phase_code_def push_epilog_def push_center_def push_prolog_def with_info_def empty_source_def empty_body_def)

text \<open>A proc carries the code of one side of a thunk.\<close>

definition carries :: "'t ProcSnippet \<Rightarrow> thunk_code \<Rightarrow> bool" where
  "carries p code \<longleftrightarrow>
     phase_code (ps_sources p Entry) = concat (map render_stmt (tc_entry code)) \<and>
     phase_code (ps_sources p Adapt) = concat (map render_stmt (tc_adapt code)) \<and>
     phase_code (ps_sources p Caller) = concat (map render_stmt (tc_caller code))"

definition fn_names :: "'t ProcSnippet \<Rightarrow> thunk_names" where
  "fn_names p = (let s = proc_template p @ ''<'' @ ps_name p @ '', '' @ direction_name (ps_direction p) @ '', '' in
     \<lparr>tn_adapt = s @ ''Adapt>::invoke'', tn_caller = s @ ''Caller>::invoke'', tn_exec = s @ ''Exec>::invoke''\<rparr>)"

definition sender_mode :: "ProcDirection \<Rightarrow> Mode" where
  "sender_mode d = (if d = GuestToHost then Guest else Host)"

definition receiver_mode :: "ProcDirection \<Rightarrow> Mode" where
  "receiver_mode d = (if d = GuestToHost then Host else Guest)"

lemma modes: "is_sender (sender_mode d) d" "\<not> is_sender (receiver_mode d) d"
  by (cases d; simp add: is_sender_def sender_mode_def receiver_mode_def)+

lemma dir_name: "(if d = GuestToHost then ''GuestToHost'' else ''HostToGuest'') = direction_name d"
  by (cases d) simp_all

lemma SRC_asIs_exec: "s \<noteq> [] \<Longrightarrow> SRC_asIs s = blanks 4 @ s @ eol"
  by (simp add: SRC_asIs_def)

text \<open>What the builder writes for a function, on the side that sends and on the one that receives.\<close>

lemma function_sender_code:
  assumes "isFunction p" "fv_returnType (ps_realFunctionTypeView p) = Some r" "ps_sources p = (\<lambda>_. empty_source)"
  shows "\<exists>p'. default_beginHandleProc C (sender_mode (ps_direction p)) p = Some p' \<and>
    carries p' (plain_sender (fn_names p) (isVoidType C r) (getTypeStringWithName C r ''ret'')
      (pointer_vars C (fv_argTypes (ps_realFunctionTypeView p))))"
proof -
  let ?FI = "info_of_view (ps_realFunctionTypeView p)"
  have r: "fi_returnType ?FI = Some r" using assms(2) by (simp add: info_of_view_def)
  note t = emptyReturnDecl_text [OF r, of C] returnRet_text [OF r, of C] retExtractDecl_text [OF r, of C] callListAssign_text [OF r, of C]
  have n: "tn_adapt (fn_names p) = ''ProcFn<'' @ ps_name p @ '', '' @ direction_name (ps_direction p) @ '', Adapt>::invoke''"
    "tn_caller (fn_names p) = ''ProcFn<'' @ ps_name p @ '', '' @ direction_name (ps_direction p) @ '', Caller>::invoke''"
    "tn_exec (fn_names p) = ''ProcFn<'' @ ps_name p @ '', '' @ direction_name (ps_direction p) @ '', Exec>::invoke''"
    using assms(1) by (simp_all add: fn_names_def Let_def proc_template_def)
  show ?thesis
    unfolding default_beginHandleProc_def Let_def dir_name
    by (simp add: assms route_def modes default_function_sender_def default_function_receiver_def formats t
        carries_def phase_code_pushed plain_sender_def forward_body_def crossing_body_def argPtrListDecl_text
        info_names pointer_vars_names n SRC_asIs_exec)
qed

lemma function_receiver_code:
  assumes "isFunction p" "fv_returnType (ps_realFunctionTypeView p) = Some r" "ps_sources p = (\<lambda>_. empty_source)"
  shows "\<exists>p'. default_beginHandleProc C (receiver_mode (ps_direction p)) p = Some p' \<and>
    carries p' (plain_receiver (fn_names p) (isVoidType C r) (getTypeStringWithName C r ''ret'')
      (getTypeString C (cl_pointer C r)) (pointer_vars C (fv_argTypes (ps_realFunctionTypeView p))))"
proof -
  let ?FI = "info_of_view (ps_realFunctionTypeView p)"
  have r: "fi_returnType ?FI = Some r" using assms(2) by (simp add: info_of_view_def)
  note t = emptyReturnDecl_text [OF r, of C] returnRet_text [OF r, of C] retExtractDecl_text [OF r, of C] callListAssign_text [OF r, of C]
  have n: "tn_adapt (fn_names p) = ''ProcFn<'' @ ps_name p @ '', '' @ direction_name (ps_direction p) @ '', Adapt>::invoke''"
    "tn_caller (fn_names p) = ''ProcFn<'' @ ps_name p @ '', '' @ direction_name (ps_direction p) @ '', Caller>::invoke''"
    "tn_exec (fn_names p) = ''ProcFn<'' @ ps_name p @ '', '' @ direction_name (ps_direction p) @ '', Exec>::invoke''"
    using assms(1) by (simp_all add: fn_names_def Let_def proc_template_def)
  show ?thesis
    unfolding default_beginHandleProc_def Let_def dir_name
    by (simp add: assms route_def modes default_function_sender_def default_function_receiver_def formats t
        carries_def phase_code_pushed plain_receiver_def forward_body_def unpacking_body_def argPtrListExtractDecl_text
        info_names pointer_vars_names n)
qed


text \<open>The same for a callback, whose inner functions take it as their first argument.\<close>

lemma callback_code:
  assumes "isCallback p" "fv_returnType (ps_realFunctionTypeView p) = Some r" "ps_sources p = (\<lambda>_. empty_source)"
  shows "\<exists>p'. default_beginHandleProc C (sender_mode (ps_direction p)) p = Some p' \<and>
    carries p' (callback_sender (fn_names p) (isVoidType C r) (getTypeStringWithName C r ''ret'') (ps_direction p \<noteq> GuestToHost)
      (pointer_vars C (fv_argTypes (ps_realFunctionTypeView p))))" (is "\<exists>p'. ?S p'")
    and "\<exists>p'. default_beginHandleProc C (receiver_mode (ps_direction p)) p = Some p' \<and>
    carries p' (callback_receiver (fn_names p) (isVoidType C r) (getTypeStringWithName C r ''ret'')
      (getTypeString C (cl_pointer C r)) (pointer_vars C (fv_argTypes (ps_realFunctionTypeView p))))" (is "\<exists>p'. ?R p'")
proof -
  let ?FI = "info_of_view (ps_realFunctionTypeView p)"
  have r: "fi_returnType ?FI = Some r" using assms(2) by (simp add: info_of_view_def)
  have rc: "fi_returnType (with_callback C ?FI) = Some r" using r by (simp add: with_callback_def)
  have nc: "map snd (fi_args (with_callback C ?FI)) = ''callback'' # arg_names (length (fv_argTypes (ps_realFunctionTypeView p)))"
    by (simp add: with_callback_def info_names)
  note t = emptyReturnDecl_text [OF r, of C] returnRet_text [OF r, of C] retExtractDecl_text [OF r, of C] callListAssign_text [OF rc, of C]
  have k: "\<not> isFunction p" "ps_kind p = Callback" using assms(1) by (simp_all add: isFunction_def isCallback_def)
  have n: "tn_adapt (fn_names p) = ''ProcCb<'' @ ps_name p @ '', '' @ direction_name (ps_direction p) @ '', Adapt>::invoke''"
    "tn_caller (fn_names p) = ''ProcCb<'' @ ps_name p @ '', '' @ direction_name (ps_direction p) @ '', Caller>::invoke''"
    "tn_exec (fn_names p) = ''ProcCb<'' @ ps_name p @ '', '' @ direction_name (ps_direction p) @ '', Exec>::invoke''"
    using k by (simp_all add: fn_names_def Let_def proc_template_def)
  show "\<exists>p'. ?S p'"
    unfolding default_beginHandleProc_def Let_def dir_name
    by (simp add: assms k route_def modes default_callback_sender_def default_callback_receiver_def formats t
        carries_def phase_code_pushed callback_sender_def Let_def forward_body_def crossing_body_def argPtrListDecl_text
        info_names nc pointer_vars_names n SRC_asIs_exec)
  show "\<exists>p'. ?R p'"
    unfolding default_beginHandleProc_def Let_def dir_name
    by (simp add: assms k route_def modes default_callback_sender_def default_callback_receiver_def formats t
        carries_def phase_code_pushed callback_receiver_def Let_def forward_body_def unpacking_body_def argPtrListExtractDecl_text
        info_names nc pointer_vars_names n)
qed

text \<open>The code of the two sides of a proc with result type \<open>r\<close>.\<close>

definition sender_code :: "'t clang_types \<Rightarrow> 't ProcSnippet \<Rightarrow> 't \<Rightarrow> thunk_code" where
  "sender_code C p r =
     (let decl = getTypeStringWithName C r ''ret''; vars = pointer_vars C (fv_argTypes (ps_realFunctionTypeView p))
      in if isFunction p then plain_sender (fn_names p) (isVoidType C r) decl vars
         else callback_sender (fn_names p) (isVoidType C r) decl (ps_direction p \<noteq> GuestToHost) vars)"

definition receiver_code :: "'t clang_types \<Rightarrow> 't ProcSnippet \<Rightarrow> 't \<Rightarrow> thunk_code" where
  "receiver_code C p r =
     (let decl = getTypeStringWithName C r ''ret''; ret = getTypeString C (cl_pointer C r);
          vars = pointer_vars C (fv_argTypes (ps_realFunctionTypeView p))
      in if isFunction p then plain_receiver (fn_names p) (isVoidType C r) decl ret vars
         else callback_receiver (fn_names p) (isVoidType C r) decl ret vars)"

text \<open>Running the two sides: the callback of a callback proc is handed on as the first argument.\<close>

definition run_sides :: "'t ProcSnippet \<Rightarrow> thunk_code \<Rightarrow> thunk_code \<Rightarrow> ('v list \<Rightarrow> 'v option option) \<Rightarrow> 'v \<Rightarrow> 'v list \<Rightarrow> 'v option option" where
  "run_sides p sender receiver real cb vs =
     (let names = arg_names (length vs); callback = isCallback p
      in run_thunk (fn_names p) callback names (if callback then ''callback'' # names else names) sender receiver real cb vs)"

lemma kind_cases: "isFunction p \<longleftrightarrow> \<not> isCallback p"
  by (cases "ps_kind p") (simp_all add: isFunction_def isCallback_def)

lemma run_sides_transparent:
  assumes "length vs = length (fv_argTypes (ps_realFunctionTypeView p))" "args = (if isCallback p then cb # vs else vs)"
    and "respects_void (isVoidType C r) (real args)"
  shows "run_sides p (sender_code C p r) (receiver_code C p r) real cb vs = real args"
proof -
  define vars where "vars = pointer_vars C (fv_argTypes (ps_realFunctionTypeView p))"
  have v: "map fst vars = arg_names (length vs)" "length vs = length vars"
    using assms(1) by (simp_all add: vars_def pointer_vars_names) (simp add: pointer_vars_def)
  have ok: "names_ok (map fst vars)" by (simp add: v arg_names_ok)
  show ?thesis
  proof (cases "isCallback p")
    case True
    then show ?thesis using assms(2,3) callback_thunk_transparent [OF ok v(2), of "isVoidType C r" real cb]
      by (simp add: run_sides_def sender_code_def receiver_code_def kind_cases Let_def vars_def [symmetric] v(1) [symmetric])
  next
    case False
    then show ?thesis using assms(2,3) plain_thunk_transparent [OF ok v(2), of "isVoidType C r" real]
      by (simp add: run_sides_def sender_code_def receiver_code_def kind_cases Let_def vars_def [symmetric] v(1) [symmetric])
  qed
qed

text \<open>
  C4. The default builder's thunks are transparent. The two sides it generates for a proc carry code
  whose run, from the sender's entry through the packed arguments to the receiver's caller, hands the
  fixed arguments (a callback's behind the callback itself) to the function and returns what it returns, for
  every function of that signature.
\<close>

theorem default_thunk_transparent:
  assumes "fv_returnType (ps_realFunctionTypeView p) = Some r" "ps_sources p = (\<lambda>_. empty_source)"
  shows "(\<exists>p'. default_beginHandleProc C (sender_mode (ps_direction p)) p = Some p' \<and> carries p' (sender_code C p r)) \<and>
    (\<exists>p'. default_beginHandleProc C (receiver_mode (ps_direction p)) p = Some p' \<and> carries p' (receiver_code C p r)) \<and>
    (\<forall>real cb vs args. length vs = length (fv_argTypes (ps_realFunctionTypeView p)) \<and>
      args = (if isCallback p then cb # vs else vs) \<and> respects_void (isVoidType C r) (real args) \<longrightarrow>
      run_sides p (sender_code C p r) (receiver_code C p r) real cb vs = real args)"
proof (intro conjI allI impI)
  show "\<exists>p'. default_beginHandleProc C (sender_mode (ps_direction p)) p = Some p' \<and> carries p' (sender_code C p r)"
    using function_sender_code [OF _ assms, of C] callback_code(1) [OF _ assms, of C]
    by (cases "isCallback p") (simp_all add: sender_code_def kind_cases)
  show "\<exists>p'. default_beginHandleProc C (receiver_mode (ps_direction p)) p = Some p' \<and> carries p' (receiver_code C p r)"
    using function_receiver_code [OF _ assms, of C] callback_code(2) [OF _ assms, of C]
    by (cases "isCallback p") (simp_all add: receiver_code_def kind_cases)
next
  fix real :: "'b list \<Rightarrow> 'b option option" and cb vs args
  assume a: "length vs = length (fv_argTypes (ps_realFunctionTypeView p)) \<and>
      args = (if isCallback p then cb # vs else vs) \<and> respects_void (isVoidType C r) (real args)"
  show "run_sides p (sender_code C p r) (receiver_code C p r) real cb vs = real args"
    by (rule run_sides_transparent [where vs = vs and args = args and p = p and cb = cb and C = C and r = r and real = real, OF conjunct1 [OF a] conjunct1 [OF conjunct2 [OF a]] conjunct2 [OF conjunct2 [OF a]]])
qed

definition demo_add :: "plain_type ProcSnippet" where
  "demo_add = (bare_proc Function GuestToHost None (\<lambda>_. 0))\<lparr>ps_name := ''add'',
     ps_realFunctionTypeView := \<lparr>fv_returnType = Some CInt, fv_argTypes = [CInt, CInt], fv_variadic = False\<rparr>\<rparr>"

theorem default_thunk_transparent_witness:
  "run_sides demo_add (sender_code plain_c demo_add CInt) (receiver_code plain_c demo_add CInt)
     (\<lambda>vs. Some (Some (sum_list vs))) (0 :: int) [3, 4] = Some (Some 7)"
proof -
  have "fv_returnType (ps_realFunctionTypeView demo_add) = Some CInt" "ps_sources demo_add = (\<lambda>_. empty_source)"
    by (simp_all add: demo_add_def bare_proc_def)
  from default_thunk_transparent [OF this, of plain_c, THEN conjunct2, THEN conjunct2, rule_format,
      where real = "\<lambda>vs. Some (Some (sum_list vs))" and cb = 0 and vs = "[3, 4]" and args = "[3, 4]"]
  show ?thesis by (simp add: demo_add_def bare_proc_def isCallback_def respects_void_def isVoidType_def plain_c_def)
qed

end
