(* ===== verification/LibC_Format.thy ===== *)
theory LibC_Format
  imports Default_Builder
begin

text \<open>
  The builders of procs in the style of printf and scanf (\<open>src/tools/TLC/Passes/Builder/LibCFormat.cpp\<close>):
  which procs they take, and the code that packs the variadic tail into one array.
\<close>

subsection \<open>Selection\<close>

text \<open>The positions of the format and of the variadic part, from 1.\<close>

record format_message =
  fm_fmtIdx :: int
  fm_vargIdx :: int

record libc_format =
  lf_id :: int
  lf_scanf :: bool
  lf_hasVAList :: bool

definition PrintFPass :: libc_format where
  "PrintFPass = \<lparr>lf_id = 1, lf_scanf = False, lf_hasVAList = False\<rparr>"
definition VPrintFPass :: libc_format where
  "VPrintFPass = \<lparr>lf_id = 2, lf_scanf = False, lf_hasVAList = True\<rparr>"
definition ScanFPass :: libc_format where
  "ScanFPass = \<lparr>lf_id = 3, lf_scanf = True, lf_hasVAList = False\<rparr>"
definition VScanFPass :: libc_format where
  "VScanFPass = \<lparr>lf_id = 4, lf_scanf = True, lf_hasVAList = True\<rparr>"

definition message :: "nat \<Rightarrow> nat \<Rightarrow> format_message" where
  "message fmtIdx vargIdx = \<lparr>fm_fmtIdx = int fmtIdx, fm_vargIdx = int vargIdx\<rparr>"

text \<open>The description's arguments: both given, one of them left to be inferred, or no such pass.\<close>

datatype described = Given format_message | Inferred | Undescribed

definition described_args :: "'t clang_types \<Rightarrow> libc_format \<Rightarrow> 't ProcSnippet \<Rightarrow> described" where
  "described_args C lf p =
     (case getIntegralArgumentsInPass C 2 p True (lf_id lf) of
        None \<Rightarrow> Undescribed
      | Some args \<Rightarrow>
          if args ! 0 < 0 \<or> args ! 1 < 0 then Inferred
          else Given \<lparr>fm_fmtIdx = args ! 0, fm_vargIdx = args ! 1\<rparr>)"

definition style_name :: "libc_format \<Rightarrow> string" where
  "style_name lf = (if lf_scanf lf then ''scanf'' else ''printf'')"

text \<open>The format attribute of a function without an overlay.\<close>

definition attribute_message :: "libc_format \<Rightarrow> 't ProcSnippet \<Rightarrow> format_message option" where
  "attribute_message lf p =
     (if isFunction p \<and> Option.bind (ps_desc p) ds_overlayType = None then
        (case Option.bind (ps_functionDecl p) fd_format of
           None \<Rightarrow> None
         | Some (type, fmtIdx, vargIdx) \<Rightarrow>
             if type \<noteq> style_name lf then None
             else if \<not> lf_hasVAList lf \<and> fmtIdx > 0 \<and> vargIdx > 0 then Some (message fmtIdx vargIdx)
             else if lf_hasVAList lf \<and> fmtIdx > 0 \<and> vargIdx = 0 then Some (message fmtIdx (fmtIdx + 1))
             else None)
      else None)"

text \<open>
  The last parameter as a \<open>va_list\<close>: by its spelling, or by the typedef of the declared parameter.
  \<open>None\<close> where the typedefs never end.
\<close>

definition last_is_va_list :: "'t clang_types \<Rightarrow> 't ProcSnippet \<Rightarrow> 't list \<Rightarrow> bool option" where
  "last_is_va_list C p argTypes =
     (if getTypeString C (List.last argTypes) = ''va_list'' then Some True
      else (case ps_functionDecl p of
              None \<Rightarrow> Some False
            | Some fd \<Rightarrow>
                if length (fd_params fd) = length argTypes \<and> fd_params fd \<noteq> []
                then isVaListType C (fst (List.last (fd_params fd)))
                else Some False))"

definition inferred_message :: "'t clang_types \<Rightarrow> libc_format \<Rightarrow> 't ProcSnippet \<Rightarrow> format_message option option" where
  "inferred_message C lf p =
     (let view = ps_realFunctionTypeView p; argTypes = fv_argTypes view; n = length argTypes in
      if lf_hasVAList lf then
        (if \<not> fv_variadic view \<and> 1 < n then
           (case last_is_va_list C p argTypes of
              None \<Rightarrow> None
            | Some isVAList \<Rightarrow>
                if isVAList \<and> isCharPointerType C (argTypes ! (n - 2)) then Some (Some (message (n - 1) n))
                else Some None)
         else Some None)
      else
        (if fv_variadic view \<and> argTypes \<noteq> [] \<and> isCharPointerType C (List.last argTypes)
         then Some (Some (message n (n + 1)))
         else Some None))"

definition libc_testProc :: "'t clang_types \<Rightarrow> libc_format \<Rightarrow> 't ProcSnippet \<Rightarrow> format_message option option" where
  "libc_testProc C lf p =
     (case described_args C lf p of
        Given m \<Rightarrow> Some (Some m)
      | d \<Rightarrow>
          (case attribute_message lf p of
             Some m \<Rightarrow> Some (Some m)
           | None \<Rightarrow>
               if d = Inferred \<or> ends_with (ps_name p) (style_name lf) then inferred_message C lf p
               else Some None))"

subsection \<open>Templates\<close>

text \<open>An index into the arguments that is not one of theirs is undefined.\<close>

definition fixed_entry :: "'t FunctionInfo \<Rightarrow> nat \<Rightarrow> string \<Rightarrow> string option" where
  "fixed_entry info i res =
     map_option (\<lambda>name. res @ blanks 8 @ ''CVargGet('' @ name @ ''),'' @ eol) (argumentName info (int i))"

definition SRC_fixedArgEntriesDecl :: "'t FunctionInfo \<Rightarrow> int \<Rightarrow> string option" where
  "SRC_fixedArgEntriesDecl info fixedCount =
     map_option (\<lambda>res. res @ blanks 4 @ ''};'' @ eol)
       (for_each (fixed_entry info) [0..<nat fixedCount] (blanks 4 @ ''CVargEntry argv1[] = {'' @ eol))"

definition addVAStartEnd :: "string \<Rightarrow> string \<Rightarrow> string" where
  "addVAStartEnd fixedArgToken content =
     blanks 4 @ ''{'' @ eol @
     blanks 8 @ ''va_list ap;'' @ eol @
     blanks 8 @ ''va_start(ap, '' @ fixedArgToken @ '');'' @ eol @
     blanks 8 @ content @ eol @
     blanks 8 @ ''va_end(ap);'' @ eol @
     blanks 4 @ ''}'' @ eol"

definition getExtractStatment :: "string \<Rightarrow> string \<Rightarrow> string \<Rightarrow> string option" where
  "getExtractStatment formatStyleToken formatName vaListName =
     format ''lore::VariadicAdaptor::extract(lore::VariadicAdaptor::%1, %2, %3, vargs);''
       [formatStyleToken, formatName, vaListName]"

definition getProcCallHelperAssign :: "string \<Rightarrow> string \<Rightarrow> string \<Rightarrow> string option" where
  "getProcCallHelperAssign callHelperName name dir =
     format (''lore::VariadicAdaptor::%1(ProcFn<%2, %3, Exec>::get(), '' @
             ''sizeof(argv1) / sizeof(argv1[0]), argv1, -1, vargs, &vret);'') [callHelperName, name, dir]"

definition getProcCBCallHelperAssign :: "string \<Rightarrow> string option" where
  "getProcCBCallHelperAssign callHelperName =
     format (''lore::VariadicAdaptor::%1(callback, '' @
             ''sizeof(argv1) / sizeof(argv1[0]), argv1, -1, vargs, &vret);'') [callHelperName]"

definition getVRetInit :: "bool \<Rightarrow> string" where
  "getVRetInit isVoid = (if isVoid then ''vret.type = 0;'' else ''vret.type = CVargTypeID(ret);'')"

definition getVRetValueAssign :: "'t clang_types \<Rightarrow> 't FunctionInfo \<Rightarrow> bool \<Rightarrow> string option" where
  "getVRetValueAssign C FI isVoid =
     (if isVoid then Some []
      else Option.bind (fi_returnType FI) (\<lambda>t. format ''ret = CVargValue(%1, vret);'' [getTypeString C t]))"

subsection \<open>The two sides\<close>

definition styleToken :: "libc_format \<Rightarrow> string" where
  "styleToken lf = (if lf_scanf lf then ''ScanF'' else ''PrintF'')"

definition callHelperName :: "libc_format \<Rightarrow> string" where
  "callHelperName lf = (if lf_hasVAList lf then ''vcall'' else ''call'')"

text \<open>Packing the tail: from the \<open>va_list\<close> parameter, or from one started behind the last fixed parameter.\<close>

definition extract_text :: "libc_format \<Rightarrow> 't FunctionInfo \<Rightarrow> int \<Rightarrow> string \<Rightarrow> string \<Rightarrow> string option" where
  "extract_text lf FI vargIdx formatName lastArgToken =
     (if lf_hasVAList lf then do {
        va \<leftarrow> argumentName FI (vargIdx - 1);
        s \<leftarrow> getExtractStatment (styleToken lf) formatName va;
        Some (SRC_asIs s)
      } else do {
        s \<leftarrow> getExtractStatment (styleToken lf) formatName ''ap'';
        Some (addVAStartEnd lastArgToken s)
      })"

definition libc_function_sender ::
    "'t clang_types \<Rightarrow> string \<Rightarrow> string \<Rightarrow> string \<Rightarrow> bool \<Rightarrow> 't FunctionInfo \<Rightarrow> 't FunctionInfo \<Rightarrow> string option \<Rightarrow> 't sources \<Rightarrow> 't sources option" where
  "libc_function_sender C key name dir isVoid FI NFI extraction src = do {
     retDecl \<leftarrow> SRC_emptyReturnDecl C FI;
     returnRet \<leftarrow> SRC_returnRet C FI;
     extract \<leftarrow> extraction;
     adapt \<leftarrow> getProcFnAdaptInvoke name dir;
     callAdapt \<leftarrow> SRC_callListAssign C NFI adapt ''ret'';
     caller \<leftarrow> getProcFnCallerInvoke name dir;
     callCaller \<leftarrow> SRC_callListAssign C NFI caller ''ret'';
     exec \<leftarrow> getProcFnExecInvokeWithCallList name dir isVoid;
     Some (src(
       Entry := push_epilog key returnRet (push_center key callAdapt (push_center key extract
         (push_prolog key (SRC_asIs ''CVargEntry vargs[LORE_THUNK_VARG_MAX];'')
         (push_prolog key retDecl (with_info FI (src Entry)))))),
       Adapt := push_epilog key returnRet (push_center key callCaller (push_prolog key retDecl (with_info NFI (src Adapt)))),
       Caller := push_epilog key returnRet (push_center key (SRC_asIs exec)
         (push_prolog key (SRC_argPtrListDecl NFI) (push_prolog key retDecl (with_info NFI (src Caller)))))))
   }"

definition libc_function_receiver ::
    "'t clang_types \<Rightarrow> string \<Rightarrow> string \<Rightarrow> string \<Rightarrow> libc_format \<Rightarrow> bool \<Rightarrow> 't FunctionInfo \<Rightarrow> 't FunctionInfo \<Rightarrow> int \<Rightarrow> 't sources \<Rightarrow> 't sources option" where
  "libc_function_receiver C key name dir lf isVoid FI NFI fixedArgCount src = do {
     retDecl \<leftarrow> SRC_emptyReturnDecl C FI;
     returnRet \<leftarrow> SRC_returnRet C FI;
     retRef \<leftarrow> SRC_retExtractDecl C FI;
     adapt \<leftarrow> getProcFnAdaptInvoke name dir;
     callAdapt \<leftarrow> SRC_callListAssign C NFI adapt ''ret_ref'';
     caller \<leftarrow> getProcFnCallerInvoke name dir;
     callCaller \<leftarrow> SRC_callListAssign C NFI caller ''ret'';
     entries \<leftarrow> SRC_fixedArgEntriesDecl FI fixedArgCount;
     callHelper \<leftarrow> getProcCallHelperAssign (callHelperName lf) name dir;
     vretAssign \<leftarrow> getVRetValueAssign C FI isVoid;
     Some (src(
       Entry := push_center key callAdapt (push_prolog key retRef
         (push_prolog key (SRC_argPtrListExtractDecl C NFI) (with_info (FI_packedFunctionInfo C) (src Entry)))),
       Adapt := push_epilog key returnRet (push_center key callCaller (push_prolog key retDecl (with_info NFI (src Adapt)))),
       Caller := push_epilog key returnRet (push_center key (SRC_asIs vretAssign) (push_center key (SRC_asIs callHelper)
         (push_prolog key (SRC_asIs (getVRetInit isVoid)) (push_prolog key (SRC_asIs ''CVargEntry vret;'')
         (push_prolog key entries (push_prolog key retDecl (with_info NFI (src Caller))))))))))
   }"

definition libc_callback_sender ::
    "'t clang_types \<Rightarrow> string \<Rightarrow> string \<Rightarrow> string \<Rightarrow> bool \<Rightarrow> bool \<Rightarrow> 't FunctionInfo \<Rightarrow> 't FunctionInfo \<Rightarrow> 't FunctionInfo \<Rightarrow> string option \<Rightarrow>
       't sources \<Rightarrow> 't sources option" where
  "libc_callback_sender C key name dir isG2H isVoid FI NFI CNFI extraction src = do {
     retDecl \<leftarrow> SRC_emptyReturnDecl C FI;
     returnRet \<leftarrow> SRC_returnRet C FI;
     extract \<leftarrow> extraction;
     adapt \<leftarrow> getProcCbAdaptInvoke name dir;
     callAdapt \<leftarrow> SRC_callListAssign C CNFI adapt ''ret'';
     caller \<leftarrow> getProcCbCallerInvoke name dir;
     callCaller \<leftarrow> SRC_callListAssign C CNFI caller ''ret'';
     exec \<leftarrow> getProcCbExecInvokeWithCallList name dir isVoid;
     Some (src(
       Entry := push_epilog key returnRet (push_center key callAdapt (push_center key extract
         (push_prolog key (SRC_asIs ''CVargEntry vargs[LORE_THUNK_VARG_MAX];'')
         (push_prolog key (SRC_getCallback (\<not> isG2H))
         (push_prolog key retDecl (with_info FI (src Entry))))))),
       Adapt := push_epilog key returnRet (push_center key callCaller (push_prolog key retDecl (with_info CNFI (src Adapt)))),
       Caller := push_epilog key returnRet (push_center key (SRC_asIs exec)
         (push_prolog key (SRC_argPtrListDecl NFI) (push_prolog key retDecl (with_info CNFI (src Caller)))))))
   }"

definition libc_callback_receiver ::
    "'t clang_types \<Rightarrow> string \<Rightarrow> string \<Rightarrow> string \<Rightarrow> libc_format \<Rightarrow> bool \<Rightarrow> 't FunctionInfo \<Rightarrow> 't FunctionInfo \<Rightarrow> 't FunctionInfo \<Rightarrow> int \<Rightarrow>
       't sources \<Rightarrow> 't sources option" where
  "libc_callback_receiver C key name dir lf isVoid FI NFI CNFI fixedArgCount src = do {
     retDecl \<leftarrow> SRC_emptyReturnDecl C FI;
     returnRet \<leftarrow> SRC_returnRet C FI;
     retRef \<leftarrow> SRC_retExtractDecl C FI;
     adapt \<leftarrow> getProcCbAdaptInvoke name dir;
     callAdapt \<leftarrow> SRC_callListAssign C CNFI adapt ''ret_ref'';
     caller \<leftarrow> getProcCbCallerInvoke name dir;
     callCaller \<leftarrow> SRC_callListAssign C CNFI caller ''ret'';
     entries \<leftarrow> SRC_fixedArgEntriesDecl FI fixedArgCount;
     callHelper \<leftarrow> getProcCBCallHelperAssign (callHelperName lf);
     vretAssign \<leftarrow> getVRetValueAssign C FI isVoid;
     Some (src(
       Entry := push_center key callAdapt (push_prolog key retRef
         (push_prolog key (SRC_argPtrListExtractDecl C NFI) (with_info (FI_packedCallbackInfo C) (src Entry)))),
       Adapt := push_epilog key returnRet (push_center key callCaller (push_prolog key retDecl (with_info CNFI (src Adapt)))),
       Caller := push_epilog key returnRet (push_center key (SRC_asIs vretAssign) (push_center key (SRC_asIs callHelper)
         (push_prolog key (SRC_asIs (getVRetInit isVoid)) (push_prolog key (SRC_asIs ''CVargEntry vret;'')
         (push_prolog key entries (push_prolog key retDecl (with_info CNFI (src Caller))))))))))
   }"

subsection \<open>The pass\<close>

text \<open>
  The normalized signature: \<open>CVargEntry *vargs\<close> takes the place of the variadic tail. \<open>vargsType\<close> is the
  type found at the start of the document.
\<close>

definition normalized :: "bool \<Rightarrow> 't option \<Rightarrow> 't FunctionInfo \<Rightarrow> 't FunctionInfo option" where
  "normalized hasVAList vargsType FI =
     (if hasVAList then
        (if fi_args FI = [] then None
         else Some (FI\<lparr>fi_args := butlast (fi_args FI) @ [(vargsType, ''vargs'')]\<rparr>))
      else Some (FI\<lparr>fi_variadic := False, fi_args := fi_args FI @ [(vargsType, ''vargs'')]\<rparr>))"

definition libc_beginHandleProc ::
    "'t clang_types \<Rightarrow> libc_format \<Rightarrow> 't option \<Rightarrow> Mode \<Rightarrow> format_message \<Rightarrow> 't ProcSnippet \<Rightarrow> 't ProcSnippet option" where
  "libc_beginHandleProc C lf vargsType mode m p =
     (let real = ps_realFunctionTypeView p;
          FI = info_of_view real;
          key = ''LibCFormat'';
          name = ps_name p;
          isG2H = (ps_direction p = GuestToHost);
          dir = (if isG2H then ''GuestToHost'' else ''HostToGuest'');
          sender = is_sender mode (ps_direction p)
      in do {
        isVoid \<leftarrow> map_option (isVoidType C) (fv_returnType real);
        NFI \<leftarrow> normalized (lf_hasVAList lf) vargsType FI;
        let CNFI = with_callback C NFI;
        formatName \<leftarrow> argumentName FI (fm_fmtIdx m - 1);
        lastArgToken \<leftarrow> argumentName FI (fm_vargIdx m - 2);
        let fixedArgCount = fm_vargIdx m - 1;
        let extraction = extract_text lf FI (fm_vargIdx m) formatName lastArgToken;
        src \<leftarrow> (if isFunction p
          then route sender (libc_function_sender C key name dir isVoid FI NFI extraction)
                 (libc_function_receiver C key name dir lf isVoid FI NFI fixedArgCount) (ps_sources p)
          else route sender (libc_callback_sender C key name dir isG2H isVoid FI NFI CNFI extraction)
                 (libc_callback_receiver C key name dir lf isVoid FI NFI CNFI fixedArgCount) (ps_sources p));
        Some (p\<lparr>ps_sources := src\<rparr>)
      })"

text \<open>\<open>CVargEntry\<close> in the translation unit: the declarations of that name, as the type they declare if any.\<close>

definition libc_handleTranslationUnit ::
    "'t clang_types \<Rightarrow> 't option list \<Rightarrow> ('t, 'z) document \<Rightarrow> 't option \<Rightarrow> 't option \<times> ('t, 'z) document" where
  "libc_handleTranslationUnit C decls doc vargsType =
     (if hasErrorOccurred doc then (vargsType, doc)
      else
        (let vargsType = (case List.find (\<lambda>d. d \<noteq> None) decls of
               Some (Some t) \<Rightarrow> Some (cl_pointer C t) | _ \<Rightarrow> vargsType)
         in case vargsType of
              Some t \<Rightarrow> (Some t, doc)
            | None \<Rightarrow> (None, reportError
                (''the manifest does not include <lorelei/DLCall/Tools/VariadicArgDefs.h>, which provides '' @
                 [CHR 0x27] @ ''CVargEntry'' @ [CHR 0x27] @ '' for the printf/scanf-style thunk builders'') doc)))"

subsection \<open>Templates as statements\<close>

lemma getExtractStatment_text [formats]:
  "getExtractStatment style fmt ap =
     Some (''lore::VariadicAdaptor::extract(lore::VariadicAdaptor::'' @ style @ '', '' @ fmt @ '', '' @ ap @ '', vargs);'')"
  by (simp add: getExtractStatment_def format_eq_ref is_digit_def digits_value_def digit_val_def int_max_def)

lemma getProcCallHelperAssign_text [formats]:
  "getProcCallHelperAssign helper name dir =
     Some (''lore::VariadicAdaptor::'' @ helper @ ''(ProcFn<'' @ name @ '', '' @ dir @
       '', Exec>::get(), sizeof(argv1) / sizeof(argv1[0]), argv1, -1, vargs, &vret);'')"
  by (simp add: getProcCallHelperAssign_def format_eq_ref is_digit_def digits_value_def digit_val_def int_max_def)

lemma getProcCBCallHelperAssign_text [formats]:
  "getProcCBCallHelperAssign helper =
     Some (''lore::VariadicAdaptor::'' @ helper @ ''(callback, sizeof(argv1) / sizeof(argv1[0]), argv1, -1, vargs, &vret);'')"
  by (simp add: getProcCBCallHelperAssign_def format_eq_ref is_digit_def digits_value_def digit_val_def int_max_def)

lemma vretValue_text: "format ''ret = CVargValue(%1, vret);'' [t] = Some (''ret = CVargValue('' @ t @ '', vret);'')"
  by (simp add: format_eq_ref is_digit_def digits_value_def digit_val_def int_max_def)

lemma getVRetValueAssign_text:
  "fi_returnType info = Some r \<Longrightarrow> getVRetValueAssign C info (isVoidType C r) =
     Some (if isVoidType C r then [] else ''ret = CVargValue('' @ getTypeString C r @ '', vret);'')"
  by (simp add: getVRetValueAssign_def vretValue_text)

lemma vretAssign_stmt:
  "SRC_asIs (if void then [] else ''ret = CVargValue('' @ t @ '', vret);'') = concat (map render_stmt (unless_void void (Assign_vret t)))"
  by (simp add: SRC_asIs_def unless_void_def)

lemma vretInit_stmt: "SRC_asIs (getVRetInit void) = render_stmt (Init_vret void)"
  by (simp add: getVRetInit_def SRC_asIs_def)

lemma fixed_entries_for_each:
  assumes "n \<le> length (fi_args info)"
  shows "for_each (fixed_entry info) [0..<n] res =
    Some (res @ concat (map (\<lambda>name. blanks 8 @ ''CVargGet('' @ name @ ''),'' @ eol) (take n (map snd (fi_args info)))))"
  using assms
proof (induction n arbitrary: res)
  case (Suc n)
  then show ?case by (simp add: for_each_append fixed_entry_def argumentName_def take_Suc_conv_app_nth)
qed simp

lemma fixedArgEntriesDecl_text:
  assumes "0 \<le> fixedCount" "nat fixedCount \<le> length (fi_args info)"
  shows "SRC_fixedArgEntriesDecl info fixedCount = Some (render_stmt (Fixed_entries (take (nat fixedCount) (map snd (fi_args info)))))"
  by (simp add: SRC_fixedArgEntriesDecl_def fixed_entries_for_each [OF assms(2)])

text \<open>Unpacking arguments whose types are known.\<close>

definition named_vars :: "'t clang_types \<Rightarrow> ('t option \<times> string) list \<Rightarrow> (string \<times> string) list" where
  "named_vars C args = map (\<lambda>(t, name). (name, getTypeString C (cl_pointer C (the t)))) args"

lemma named_vars_names: "map fst (named_vars C args) = map snd args"
  by (simp add: named_vars_def comp_def case_prod_unfold)

lemma argPtrListExtractDecl_named:
  assumes "\<And>t name. (t, name) \<in> set (fi_args info) \<Longrightarrow> t \<noteq> None"
  shows "SRC_argPtrListExtractDecl C info = render_stmt (Unpack_args (named_vars C (fi_args info)))"
proof -
  let ?a = "fi_args info" and ?vs = "named_vars C (fi_args info)"
  define g where "g i = blanks 4 @ ''auto &'' @ snd (?a ! i) @ '' = *('' @
         (case fst (?a ! i) of None \<Rightarrow> metaArgumentType info (snd (?a ! i)) @ '' *''
          | Some t \<Rightarrow> getTypeString C (cl_pointer C t)) @ '') args['' @ std_to_string i @ ''];'' @ eol" for i
  have "SRC_argPtrListExtractDecl C info = fold (\<lambda>i res. res @ g i) [0..<length ?a] []"
    unfolding SRC_argPtrListExtractDecl_def g_def case_prod_unfold ..
  also have "\<dots> = concat (map g [0..<length ?a])" by (simp add: fold_append_concat)
  also have "\<dots> = render_stmt (Unpack_args ?vs)"
  proof -
    have v: "length ?vs = length ?a" by (simp add: named_vars_def)
    have "g i = blanks 4 @ ''auto &'' @ fst (?vs ! i) @ '' = *('' @ snd (?vs ! i) @ '') args['' @ std_to_string i @ ''];'' @ eol"
      if i: "i < length ?a" for i
    proof -
      obtain t name where a: "?a ! i = (t, name)" by (cases "?a ! i")
      then obtain t' where "t = Some t'" using assms [of t name] nth_mem [OF i] by auto
      then show ?thesis using i a by (simp add: g_def named_vars_def)
    qed
    then have "map g [0..<length ?a] = map (\<lambda>i. blanks 4 @ ''auto &'' @ fst (?vs ! i) @ '' = *('' @ snd (?vs ! i) @
        '') args['' @ std_to_string i @ ''];'' @ eol) [0..<length ?a]" by simp
    then show ?thesis by (simp only: render_stmt.simps enumerate_upt v map_map comp_def case_prod_unfold fst_conv snd_conv)
  qed
  finally show ?thesis .
qed

lemma phase_code_packed:
  "phase_code (push_epilog k e (push_center k c' (push_center k c (push_prolog k p' (push_prolog k p (with_info i empty_source)))))) = p @ p' @ c @ c' @ e"
  "phase_code (push_epilog k e (push_center k c' (push_center k c (push_prolog k p'' (push_prolog k p' (push_prolog k p (with_info i empty_source))))))) = p @ p' @ p'' @ c @ c' @ e"
  "phase_code (push_epilog k e (push_center k c' (push_center k c (push_prolog k q (push_prolog k p'' (push_prolog k p' (push_prolog k p (with_info i empty_source)))))))) = p @ p' @ p'' @ q @ c @ c' @ e"
  by (simp_all add: phase_code_def push_epilog_def push_center_def push_prolog_def with_info_def empty_source_def empty_body_def)

subsection \<open>Where the message points\<close>

text \<open>
  The format is one of the fixed parameters, which are all of the parameters but a \<open>va_list\<close> at the end.
\<close>

definition well_placed :: "libc_format \<Rightarrow> 't FunctionTypeView \<Rightarrow> format_message \<Rightarrow> bool" where
  "well_placed lf view m \<longleftrightarrow>
     0 < fm_fmtIdx m \<and> fm_fmtIdx m < fm_vargIdx m \<and>
     (if lf_hasVAList lf then \<not> fv_variadic view \<and> fm_vargIdx m = int (length (fv_argTypes view))
      else fv_variadic view \<and> fm_vargIdx m = int (length (fv_argTypes view)) + 1)"

definition fixed_count :: "format_message \<Rightarrow> nat" where
  "fixed_count m = nat (fm_vargIdx m - 1)"

definition format_index :: "format_message \<Rightarrow> nat" where
  "format_index m = nat (fm_fmtIdx m - 1)"

lemma arg_names_Suc: "arg_names (Suc n) = arg_names n @ [''arg'' @ std_to_string (Suc n)]"
  by (simp add: arg_names_def)

lemma take_arg_names: "k \<le> n \<Longrightarrow> take k (arg_names n) = arg_names k"
  by (simp add: arg_names_def take_map)

lemma argumentName_view:
  "argumentName (info_of_view view) (int i) = (if i < length (fv_argTypes view) then Some (arg_names (length (fv_argTypes view)) ! i) else None)"
  by (simp add: argumentName_def info_of_view_def arg_names_def)

lemma well_placedE:
  assumes "well_placed lf view m"
  obtains k f where "fm_vargIdx m = int k + 1" "fm_fmtIdx m = int f + 1" "f < k" "fixed_count m = k" "format_index m = f"
    "length (fv_argTypes view) = (if lf_hasVAList lf then k + 1 else k)" "fv_variadic view = (\<not> lf_hasVAList lf)"
proof -
  define k where "k = nat (fm_vargIdx m - 1)"
  define f where "f = nat (fm_fmtIdx m - 1)"
  show thesis
    by (rule that [of k f])
      (use assms in \<open>auto simp: well_placed_def k_def f_def fixed_count_def format_index_def split: if_splits\<close>)
qed

text \<open>The arguments of the inner functions.\<close>

definition inner_args :: "bool \<Rightarrow> 't \<Rightarrow> 't FunctionTypeView \<Rightarrow> ('t option \<times> string) list" where
  "inner_args hasVAList vargsType view =
     (let args = fi_args (info_of_view view)
      in (if hasVAList then butlast args else args) @ [(Some vargsType, ''vargs'')])"

lemma inner_args_names:
  assumes "well_placed lf view m"
  shows "map snd (inner_args (lf_hasVAList lf) vtype view) = arg_names (fixed_count m) @ [''vargs'']"
  using assms
proof (cases rule: well_placedE)
  case (1 k f)
  then show ?thesis
    by (simp add: inner_args_def Let_def map_butlast info_names arg_names_Suc)
qed

lemma inner_args_typed: "(t, name) \<in> set (inner_args hasVAList vtype view) \<Longrightarrow> t \<noteq> None"
  by (auto simp: inner_args_def info_of_view_def Let_def dest!: in_set_butlastD split: if_splits)

lemma normalized_view:
  assumes "well_placed lf view m"
  obtains NFI where "normalized (lf_hasVAList lf) (Some vtype) (info_of_view view) = Some NFI"
    "fi_returnType NFI = fv_returnType view" "fi_args NFI = inner_args (lf_hasVAList lf) vtype view"
proof -
  obtain NFI where n: "normalized (lf_hasVAList lf) (Some vtype) (info_of_view view) = Some NFI"
    using assms by (cases rule: well_placedE) (auto simp: normalized_def info_of_view_def split: if_splits)
  show thesis
    by (rule that [OF n]) (use n in \<open>auto simp: normalized_def inner_args_def Let_def info_of_view_def split: if_splits\<close>)
qed

subsection \<open>The code of the two sides\<close>

definition exec_target :: "'t ProcSnippet \<Rightarrow> string" where
  "exec_target p =
     (if isFunction p then ''ProcFn<'' @ ps_name p @ '', '' @ direction_name (ps_direction p) @ '', Exec>::get()'' else ''callback'')"

definition extract_stmt :: "libc_format \<Rightarrow> format_message \<Rightarrow> stmt" where
  "extract_stmt lf m =
     (let names = arg_names (fixed_count m + 1); fmt = names ! format_index m
      in if lf_hasVAList lf then Extract (styleToken lf) fmt (names ! fixed_count m)
         else Va_extract (names ! (fixed_count m - 1)) (styleToken lf) fmt)"

definition libc_vars :: "'t clang_types \<Rightarrow> libc_format \<Rightarrow> 't \<Rightarrow> 't ProcSnippet \<Rightarrow> (string \<times> string) list" where
  "libc_vars C lf vtype p = named_vars C (inner_args (lf_hasVAList lf) vtype (ps_realFunctionTypeView p))"

definition libc_sender_code :: "'t clang_types \<Rightarrow> libc_format \<Rightarrow> 't \<Rightarrow> format_message \<Rightarrow> 't ProcSnippet \<Rightarrow> 't \<Rightarrow> thunk_code" where
  "libc_sender_code C lf vtype m p r =
     variadic_sender (fn_names p) (isCallback p) (isVoidType C r) (getTypeStringWithName C r ''ret'')
       (ps_direction p \<noteq> GuestToHost) (extract_stmt lf m) (libc_vars C lf vtype p)"

definition libc_receiver_code :: "'t clang_types \<Rightarrow> libc_format \<Rightarrow> 't \<Rightarrow> format_message \<Rightarrow> 't ProcSnippet \<Rightarrow> 't \<Rightarrow> thunk_code" where
  "libc_receiver_code C lf vtype m p r =
     variadic_receiver (fn_names p) (isCallback p) (isVoidType C r) (getTypeStringWithName C r ''ret'')
       (getTypeString C (cl_pointer C r)) (getTypeString C r) (callHelperName lf) (exec_target p)
       (arg_names (fixed_count m)) (libc_vars C lf vtype p)"

lemma extract_text_stmt:
  assumes "well_placed lf view m" "argumentName (info_of_view view) (fm_fmtIdx m - 1) = Some formatName"
    and "argumentName (info_of_view view) (fm_vargIdx m - 2) = Some lastArgToken"
  shows "extract_text lf (info_of_view view) (fm_vargIdx m) formatName lastArgToken = Some (render_stmt (extract_stmt lf m))"
  using assms(1)
proof (cases rule: well_placedE)
  case (1 k f)
  have e: "fm_vargIdx m - 2 = int (k - 1)" "fm_fmtIdx m - 1 = int f" "fm_vargIdx m - 1 = int k" using 1 by auto
  have l: "f < length (fv_argTypes view)" "k - 1 < length (fv_argTypes view)" "k - 1 < Suc k" "f < Suc k" using 1 by auto
  have n: "formatName = ''arg'' @ std_to_string (f + 1)" "lastArgToken = ''arg'' @ std_to_string (k - 1 + 1)"
    using assms(2,3) unfolding e argumentName_view if_P [OF l(1)] if_P [OF l(2)] arg_names_nth [OF l(1)] arg_names_nth [OF l(2)] by simp_all
  have v: "lf_hasVAList lf \<Longrightarrow> argumentName (info_of_view view) (int k) = Some (''arg'' @ std_to_string (k + 1))"
    using 1 by (simp add: argumentName_view arg_names_nth)
  show ?thesis
    by (simp add: extract_text_def extract_stmt_def e v n formats Let_def arg_names_nth 1 l(3,4) SRC_asIs_def addVAStartEnd_def)
qed

lemma well_placed_names:
  assumes "well_placed lf view m"
  obtains formatName lastArgToken where
    "argumentName (info_of_view view) (fm_fmtIdx m - 1) = Some formatName"
    "argumentName (info_of_view view) (fm_vargIdx m - 2) = Some lastArgToken"
  using assms
proof (cases rule: well_placedE)
  case (1 k f)
  have e: "fm_vargIdx m - 2 = int (k - 1)" "fm_fmtIdx m - 1 = int f" using 1 by auto
  have l: "f < length (fv_argTypes view)" "k - 1 < length (fv_argTypes view)" using 1 by auto
  show thesis
    by (rule that; simp only: e argumentName_view l if_True)
qed

lemma fixedArgEntries_view:
  assumes "well_placed lf view m"
  shows "SRC_fixedArgEntriesDecl (info_of_view view) (fm_vargIdx m - 1) = Some (render_stmt (Fixed_entries (arg_names (fixed_count m))))"
  using assms
proof (cases rule: well_placedE)
  case (1 k f)
  then show ?thesis
    by (subst fixedArgEntriesDecl_text)
      (simp_all add: info_of_view_def fixed_count_def arg_names_def comp_def take_map)
qed

lemmas unpushed = phase_code_pushed phase_code_packed

text \<open>What the builder writes, for functions and for callbacks.\<close>

lemma libc_function_code:
  assumes "well_placed lf (ps_realFunctionTypeView p) m" "isFunction p"
    and "fv_returnType (ps_realFunctionTypeView p) = Some r" "ps_sources p = (\<lambda>_. empty_source)"
  shows "\<exists>p'. libc_beginHandleProc C lf (Some vtype) (sender_mode (ps_direction p)) m p = Some p' \<and>
    carries p' (libc_sender_code C lf vtype m p r)" (is "\<exists>p'. ?S p'")
    and "\<exists>p'. libc_beginHandleProc C lf (Some vtype) (receiver_mode (ps_direction p)) m p = Some p' \<and>
    carries p' (libc_receiver_code C lf vtype m p r)" (is "\<exists>p'. ?R p'")
proof -
  let ?view = "ps_realFunctionTypeView p"
  let ?FI = "info_of_view ?view"
  obtain NFI where nf: "normalized (lf_hasVAList lf) (Some vtype) ?FI = Some NFI"
    "fi_returnType NFI = fv_returnType ?view" "fi_args NFI = inner_args (lf_hasVAList lf) vtype ?view"
    by (rule normalized_view [OF assms(1)])
  obtain fmt lst where names: "argumentName ?FI (fm_fmtIdx m - 1) = Some fmt" "argumentName ?FI (fm_vargIdx m - 2) = Some lst"
    by (rule well_placed_names [OF assms(1)])
  note x = extract_text_stmt [OF assms(1) names]
  have r: "fi_returnType ?FI = Some r" "fi_returnType NFI = Some r" using assms(3) nf(2) by (simp_all add: info_of_view_def)
  note t = emptyReturnDecl_text [OF r(1), of C] returnRet_text [OF r(1), of C] retExtractDecl_text [OF r(1), of C]
    callListAssign_text [OF r(2), of C] getVRetValueAssign_text [OF r(1), of C]
  have u: "SRC_argPtrListExtractDecl C NFI = render_stmt (Unpack_args (libc_vars C lf vtype p))"
    unfolding libc_vars_def nf(3) [symmetric]
    by (rule argPtrListExtractDecl_named) (use nf(3) inner_args_typed in metis)
  have i: "map snd (fi_args NFI) = map fst (libc_vars C lf vtype p)" by (simp add: libc_vars_def named_vars_names nf(3))
  have pk: "SRC_argPtrListDecl NFI = render_stmt (Pack_args (map fst (libc_vars C lf vtype p)))"
    by (simp only: argPtrListDecl_text i)
  have k: "\<not> isCallback p" using assms(2) by (simp add: kind_cases)
  have n: "tn_adapt (fn_names p) = ''ProcFn<'' @ ps_name p @ '', '' @ direction_name (ps_direction p) @ '', Adapt>::invoke''"
    "tn_caller (fn_names p) = ''ProcFn<'' @ ps_name p @ '', '' @ direction_name (ps_direction p) @ '', Caller>::invoke''"
    "tn_exec (fn_names p) = ''ProcFn<'' @ ps_name p @ '', '' @ direction_name (ps_direction p) @ '', Exec>::invoke''"
    using assms(2) by (simp_all add: fn_names_def Let_def proc_template_def)
  note f = fixedArgEntries_view [OF assms(1)]
  show "\<exists>p'. ?S p'"
    unfolding libc_beginHandleProc_def Let_def dir_name
    by (simp add: assms(2-4) route_def modes libc_function_sender_def libc_function_receiver_def formats t nf(1) names x f
        carries_def unpushed libc_sender_code_def variadic_sender_def variadic_entry_def Let_def k fetch_callback_def inner_names_def
        forward_body_def crossing_body_def pk i n SRC_asIs_exec)
  show "\<exists>p'. ?R p'"
    unfolding libc_beginHandleProc_def Let_def dir_name
    by (simp add: assms(2-4) route_def modes libc_function_sender_def libc_function_receiver_def formats t nf(1) names x f
        carries_def unpushed libc_receiver_code_def variadic_receiver_def variadic_caller_def Let_def k inner_names_def
        forward_body_def unpacking_body_def i n u SRC_asIs_exec vretAssign_stmt vretInit_stmt exec_target_def)
qed

lemma libc_callback_code:
  assumes "well_placed lf (ps_realFunctionTypeView p) m" "isCallback p"
    and "fv_returnType (ps_realFunctionTypeView p) = Some r" "ps_sources p = (\<lambda>_. empty_source)"
  shows "\<exists>p'. libc_beginHandleProc C lf (Some vtype) (sender_mode (ps_direction p)) m p = Some p' \<and>
    carries p' (libc_sender_code C lf vtype m p r)" (is "\<exists>p'. ?S p'")
    and "\<exists>p'. libc_beginHandleProc C lf (Some vtype) (receiver_mode (ps_direction p)) m p = Some p' \<and>
    carries p' (libc_receiver_code C lf vtype m p r)" (is "\<exists>p'. ?R p'")
proof -
  let ?view = "ps_realFunctionTypeView p"
  let ?FI = "info_of_view ?view"
  obtain NFI where nf: "normalized (lf_hasVAList lf) (Some vtype) ?FI = Some NFI"
    "fi_returnType NFI = fv_returnType ?view" "fi_args NFI = inner_args (lf_hasVAList lf) vtype ?view"
    by (rule normalized_view [OF assms(1)])
  obtain fmt lst where names: "argumentName ?FI (fm_fmtIdx m - 1) = Some fmt" "argumentName ?FI (fm_vargIdx m - 2) = Some lst"
    by (rule well_placed_names [OF assms(1)])
  note x = extract_text_stmt [OF assms(1) names]
  have r: "fi_returnType ?FI = Some r" "fi_returnType (with_callback C NFI) = Some r"
    using assms(3) nf(2) by (simp_all add: info_of_view_def with_callback_def)
  note t = emptyReturnDecl_text [OF r(1), of C] returnRet_text [OF r(1), of C] retExtractDecl_text [OF r(1), of C]
    callListAssign_text [OF r(2), of C] getVRetValueAssign_text [OF r(1), of C]
  have u: "SRC_argPtrListExtractDecl C NFI = render_stmt (Unpack_args (libc_vars C lf vtype p))"
    unfolding libc_vars_def nf(3) [symmetric]
    by (rule argPtrListExtractDecl_named) (use nf(3) inner_args_typed in metis)
  have i: "map snd (fi_args NFI) = map fst (libc_vars C lf vtype p)" by (simp add: libc_vars_def named_vars_names nf(3))
  have ci: "map snd (fi_args (with_callback C NFI)) = ''callback'' # map fst (libc_vars C lf vtype p)"
    by (simp add: with_callback_def i)
  have pk: "SRC_argPtrListDecl NFI = render_stmt (Pack_args (map fst (libc_vars C lf vtype p)))"
    by (simp only: argPtrListDecl_text i)
  have k: "\<not> isFunction p" "ps_kind p = Callback" using assms(2) by (simp_all add: isFunction_def isCallback_def)
  have n: "tn_adapt (fn_names p) = ''ProcCb<'' @ ps_name p @ '', '' @ direction_name (ps_direction p) @ '', Adapt>::invoke''"
    "tn_caller (fn_names p) = ''ProcCb<'' @ ps_name p @ '', '' @ direction_name (ps_direction p) @ '', Caller>::invoke''"
    "tn_exec (fn_names p) = ''ProcCb<'' @ ps_name p @ '', '' @ direction_name (ps_direction p) @ '', Exec>::invoke''"
    using k by (simp_all add: fn_names_def Let_def proc_template_def)
  note f = fixedArgEntries_view [OF assms(1)]
  show "\<exists>p'. ?S p'"
    unfolding libc_beginHandleProc_def Let_def dir_name
    by (simp add: assms(2-4) route_def modes libc_callback_sender_def libc_callback_receiver_def formats t nf(1) names x f
        carries_def unpushed libc_sender_code_def variadic_sender_def variadic_entry_def Let_def k fetch_callback_def inner_names_def
        forward_body_def crossing_body_def pk ci i n SRC_asIs_exec)
  show "\<exists>p'. ?R p'"
    unfolding libc_beginHandleProc_def Let_def dir_name
    by (simp add: assms(2-4) route_def modes libc_callback_sender_def libc_callback_receiver_def formats t nf(1) names x f
        carries_def unpushed libc_receiver_code_def variadic_receiver_def variadic_caller_def Let_def k inner_names_def
        forward_body_def unpacking_body_def ci i n u SRC_asIs_exec vretAssign_stmt vretInit_stmt exec_target_def)
qed

subsection \<open>Transparent printf-like thunks\<close>

text \<open>Running the two sides: the fixed arguments are followed by the tail, or by the \<open>va_list\<close>.\<close>

definition run_libc ::
    "libc_format \<Rightarrow> format_message \<Rightarrow> 't ProcSnippet \<Rightarrow> thunk_code \<Rightarrow> thunk_code \<Rightarrow> 'v world \<Rightarrow> 'v list \<Rightarrow> 'v option option" where
  "run_libc lf m p sender receiver w vs =
     (let fixed = arg_names (fixed_count m);
          params = (if lf_hasVAList lf then arg_names (fixed_count m + 1) else fixed @ [''...''])
      in run_variadic (fn_names p) (isCallback p) params (inner_names (isCallback p) (fixed @ [''vargs'']))
           sender receiver w vs)"

lemma arg_names_not: "x \<notin> set (arg_names n)" if "take 3 x \<noteq> ''arg''"
  using that by (auto simp: arg_names_def)

lemma extract_stmt_packs:
  assumes "well_placed lf view m" "\<not> lf_hasVAList lf \<Longrightarrow> w_lastParam w = List.last (arg_names (fixed_count m))"
  shows "packs_tail w (lf_hasVAList lf) (styleToken lf) (arg_names (fixed_count m))
    (if lf_hasVAList lf then arg_names (fixed_count m + 1) else arg_names (fixed_count m) @ [''...'']) (format_index m) (extract_stmt lf m)"
  using assms(1)
proof (cases rule: well_placedE)
  case (1 k f)
  have k: "k - 1 < Suc k" "f < Suc k" "f < k + 1" "f < length (arg_names k)" "k \<noteq> 0" "0 < k" using 1 by (auto simp: arg_names_def)
  have l: "List.last (arg_names k) = ''arg'' @ std_to_string (k - 1 + 1)"
    using k by (simp add: arg_names_def last_conv_nth)
  show ?thesis
  proof (cases "lf_hasVAList lf")
    case True
    then show ?thesis by (simp add: packs_tail_def extract_stmt_def Let_def 1 k arg_names_Suc nth_append arg_names_nth) (simp add: arg_names_def)
  next
    case False
    then show ?thesis using assms(2)
      by (simp add: packs_tail_def extract_stmt_def Let_def 1 k l arg_names_nth del: One_nat_def)
  qed
qed

lemma run_libc_transparent:
  assumes "well_placed lf (ps_realFunctionTypeView p) m"
    and "length vs = fixed_count m" "\<not> lf_hasVAList lf \<Longrightarrow> w_lastParam w = List.last (arg_names (fixed_count m))"
    and "result = w_variadic w (callHelperName lf) (exec_target p) (if isCallback p then Some (w_callback w) else None) vs
      (w_extract w (styleToken lf) (vs ! format_index m) tail)"
    and "respects_void (isVoidType C r) result"
  shows "run_libc lf m p (libc_sender_code C lf vtype m p r) (libc_receiver_code C lf vtype m p r) w (vs @ [tail]) = result"
proof -
  define fixed where "fixed = arg_names (fixed_count m)"
  have v: "map fst (libc_vars C lf vtype p) = fixed @ [''vargs'']"
    unfolding libc_vars_def named_vars_names fixed_def by (rule inner_args_names [OF assms(1)])
  have n: "names_ok (fixed @ [''vargs''])" "names_ok (if lf_hasVAList lf then arg_names (fixed_count m + 1) else fixed @ [''...''])"
    using arg_names_ok [of "fixed_count m"] arg_names_ok [of "fixed_count m + 1"]
    by (simp_all add: names_ok_def fixed_def arg_names_not)
  have l: "length vs = length fixed" using assms(2) by (simp add: fixed_def arg_names_def)
  have "run_variadic (fn_names p) (isCallback p) (if lf_hasVAList lf then arg_names (fixed_count m + 1) else fixed @ [''...''])
      (inner_names (isCallback p) (map fst (libc_vars C lf vtype p)))
      (libc_sender_code C lf vtype m p r) (libc_receiver_code C lf vtype m p r) w (vs @ [tail]) = result"
    unfolding libc_sender_code_def libc_receiver_code_def fixed_def [symmetric]
    by (rule variadic_thunk_transparent [OF extract_stmt_packs [OF assms(1,3), folded fixed_def] n(2,1) v l assms(4,5)])
  then show ?thesis by (simp only: run_libc_def Let_def v fixed_def)
qed

text \<open>
  C5. The thunks of printf-like procs are transparent. For a format among the fixed parameters, the two
  sides carry code whose run packs the variadic tail behind the last named parameter (or the caller's
  \<open>va_list\<close>) once, by the format argument, and calls the function (or the callback) with the fixed
  arguments and the packed ones, returning its result.
\<close>

theorem libc_thunk_transparent:
  assumes "well_placed lf (ps_realFunctionTypeView p) m"
    and "fv_returnType (ps_realFunctionTypeView p) = Some r" "ps_sources p = (\<lambda>_. empty_source)"
  shows "(\<exists>p'. libc_beginHandleProc C lf (Some vtype) (sender_mode (ps_direction p)) m p = Some p' \<and>
      carries p' (libc_sender_code C lf vtype m p r)) \<and>
    (\<exists>p'. libc_beginHandleProc C lf (Some vtype) (receiver_mode (ps_direction p)) m p = Some p' \<and>
      carries p' (libc_receiver_code C lf vtype m p r)) \<and>
    (\<forall>w vs tail result. length vs = fixed_count m \<and>
      (\<not> lf_hasVAList lf \<longrightarrow> w_lastParam w = List.last (arg_names (fixed_count m))) \<and>
      result = w_variadic w (callHelperName lf) (exec_target p) (if isCallback p then Some (w_callback w) else None) vs
        (w_extract w (styleToken lf) (vs ! format_index m) tail) \<and>
      respects_void (isVoidType C r) result \<longrightarrow>
      run_libc lf m p (libc_sender_code C lf vtype m p r) (libc_receiver_code C lf vtype m p r) w (vs @ [tail]) = result)"
proof (intro conjI allI impI)
  show "\<exists>p'. libc_beginHandleProc C lf (Some vtype) (sender_mode (ps_direction p)) m p = Some p' \<and> carries p' (libc_sender_code C lf vtype m p r)"
    using libc_function_code(1) [OF assms(1) _ assms(2,3), of C vtype] libc_callback_code(1) [OF assms(1) _ assms(2,3), of C vtype]
    by (cases "isCallback p") (simp_all add: kind_cases)
  show "\<exists>p'. libc_beginHandleProc C lf (Some vtype) (receiver_mode (ps_direction p)) m p = Some p' \<and> carries p' (libc_receiver_code C lf vtype m p r)"
    using libc_function_code(2) [OF assms(1) _ assms(2,3), of C vtype] libc_callback_code(2) [OF assms(1) _ assms(2,3), of C vtype]
    by (cases "isCallback p") (simp_all add: kind_cases)
qed (elim conjE, rule run_libc_transparent [OF assms(1)], simp_all)

definition demo_printf :: "plain_type ProcSnippet" where
  "demo_printf = (bare_proc Function GuestToHost None (\<lambda>_. 0))\<lparr>ps_name := ''sum'',
     ps_realFunctionTypeView := \<lparr>fv_returnType = Some CInt, fv_argTypes = [CInt, CInt], fv_variadic = True\<rparr>\<rparr>"

text \<open>A variadic function that adds its fixed arguments and ten times what the extraction packs.\<close>

definition demo_printf_world :: "int world" where
  "demo_printf_world = (idle 0)\<lparr>w_lastParam := ''arg2'', w_extract := (\<lambda>_ f a. f * a),
     w_variadic := (\<lambda>_ _ _ vs a. Some (Some (sum_list vs + 10 * a)))\<rparr>"

lemma demo_last: "List.last (arg_names 2) = ''arg2''"
  by code_simp

theorem libc_thunk_transparent_witness:
  "run_libc PrintFPass (message 2 3) demo_printf (libc_sender_code plain_c PrintFPass CInt (message 2 3) demo_printf CInt)
     (libc_receiver_code plain_c PrintFPass CInt (message 2 3) demo_printf CInt) demo_printf_world [1, 2, 5] = Some (Some 103)"
proof -
  have "well_placed PrintFPass (ps_realFunctionTypeView demo_printf) (message 2 3)"
    "fv_returnType (ps_realFunctionTypeView demo_printf) = Some CInt" "ps_sources demo_printf = (\<lambda>_. empty_source)"
    by (simp_all add: demo_printf_def bare_proc_def well_placed_def PrintFPass_def message_def)
  from libc_thunk_transparent [OF this, of plain_c CInt, THEN conjunct2, THEN conjunct2, rule_format,
      where vs = "[1, 2]" and tail = 5 and w = demo_printf_world and result = "Some (Some 103)"]
  moreover have "w_lastParam demo_printf_world = List.last (arg_names 2)" "fixed_count (message 2 3) = 2" "format_index (message 2 3) = 1"
    by (simp_all add: demo_printf_world_def demo_last fixed_count_def format_index_def message_def)
  moreover have "w_variadic demo_printf_world helper target cb [1, 2] (w_extract demo_printf_world style 2 5) = Some (Some 103)" for helper target cb style
    by (simp add: demo_printf_world_def)
  moreover have "respects_void (isVoidType plain_c CInt) (Some (Some (103 :: int)))"
    by (simp add: respects_void_def isVoidType_def plain_c_def)
  ultimately show ?thesis by simp
qed

subsection \<open>Which procs are taken\<close>

text \<open>
  What the compiler guarantees of a format attribute that checks its arguments (the first of them is the
  first variadic one, behind the format), and what the code takes for granted of one that does not.
\<close>

definition attribute_checked :: "'t ProcSnippet \<Rightarrow> bool" where
  "attribute_checked p =
     (let view = ps_realFunctionTypeView p; n = length (fv_argTypes view) in
      case Option.bind (ps_functionDecl p) fd_format of
        None \<Rightarrow> True
      | Some (_, fmtIdx, vargIdx) \<Rightarrow>
          if vargIdx = 0 then \<not> fv_variadic view \<and> n = fmtIdx + 1
          else fv_variadic view \<and> vargIdx = n + 1 \<and> fmtIdx < vargIdx)"

lemma attribute_message_placed:
  assumes "attribute_message lf p = Some m" "attribute_checked p"
  shows "well_placed lf (ps_realFunctionTypeView p) m"
  using assms
  by (auto simp: attribute_message_def attribute_checked_def well_placed_def message_def Let_def split: option.splits if_splits prod.splits)

lemma inferred_message_placed:
  assumes "inferred_message C lf p = Some (Some m)"
  shows "well_placed lf (ps_realFunctionTypeView p) m"
  using assms
  by (auto simp: inferred_message_def well_placed_def message_def Let_def split: option.splits if_splits)


definition demo_log :: "nat \<Rightarrow> plain_type ProcSnippet" where
  "demo_log vargIdx = (bare_proc Function GuestToHost None (\<lambda>_. 0))\<lparr>ps_name := ''logf'',
     ps_functionDecl := Some \<lparr>fd_name = ''logf'', fd_type = CInt, fd_returnType = CInt, fd_params = [], fd_variadic = vargIdx \<noteq> 0,
       fd_format = Some (''printf'', 2, vargIdx)\<rparr>,
     ps_realFunctionTypeView := \<lparr>fv_returnType = Some CInt, fv_argTypes = [CInt, CInt], fv_variadic = vargIdx \<noteq> 0\<rparr>\<rparr>"




end
