(* ===== verification/Callback_Tree.thy ===== *)
theory Callback_Tree
  imports Source_Text Ordered_Map
begin

text \<open>
  The callbacks reachable from one argument of a proc, as a tree
  (\<open>CallbackTree\<close> in \<open>src/tools/TLC/Passes/Guard/CallbackSubstituter.cpp\<close>), and what the tree is worth:
  it is found, and it has the callbacks the type has.
\<close>

subsection \<open>Function pointers in a type\<close>

definition field_types :: "'t clang_types \<Rightarrow> 't \<Rightarrow> 't list" where
  "field_types C t = (case cl_shape C t of Record_ty fs \<Rightarrow> map snd fs | Union_ty fs \<Rightarrow> map snd fs | _ \<Rightarrow> [])"

text \<open>The pointers and arrays on the outside are peeled; the depth bounds how many there are.\<close>

fun peel :: "'t clang_types \<Rightarrow> nat \<Rightarrow> 't \<Rightarrow> 't" where
  "peel C n t =
     (case cl_shape C t of
        Pointer_ty p \<Rightarrow> (case n of 0 \<Rightarrow> t | Suc n \<Rightarrow> peel C n p)
      | Array_ty e \<Rightarrow> (case n of 0 \<Rightarrow> t | Suc n \<Rightarrow> peel C n e)
      | _ \<Rightarrow> t)"

declare peel.simps [simp del]

definition base_type :: "'t clang_types \<Rightarrow> 't \<Rightarrow> 't" where
  "base_type C t = (let t = cl_canonical C t in cl_canonical C (peel C (cl_depth C t) t))"

text \<open>The loop over the stack, whose top comes first here; \<open>None\<close> is a loop that does not end.\<close>

partial_function (option) contains_loop :: "'t clang_types \<Rightarrow> 't list \<Rightarrow> string list \<Rightarrow> bool option" where
  "contains_loop C stack visited =
     (case stack of
        [] \<Rightarrow> Some False
      | t # stack \<Rightarrow>
          (let t = base_type C t; typeStr = getTypeString C t in
           if typeStr \<in> set visited then contains_loop C stack visited
           else if isFunctionType C t then Some True
           else contains_loop C (rev (field_types C t) @ stack) (oset_insert typeStr visited)))"

declare contains_loop.simps [code]

definition containsFunctionPointer :: "'t clang_types \<Rightarrow> 't \<Rightarrow> bool option" where
  "containsFunctionPointer C t = contains_loop C [t] []"

subsection \<open>The tree\<close>

datatype reach = ByValue | ByPointer
datatype status = HasCallbacks | NoCallbacks | Unsupported

text \<open>The three maps have their keys in order. A callback has its function type.\<close>

datatype 't callback_tree =
  Callback_tree (ct_status: status) (ct_reach: reach) (ct_callbacks: "(string \<times> 't) list")
    (ct_children: "(string \<times> 't callback_tree) list") (ct_outCallbacks: "(string \<times> 't) list")

definition status_tree :: "status \<Rightarrow> 't callback_tree" where
  "status_tree s = Callback_tree s ByValue [] [] []"

definition emplace_callback :: "string \<Rightarrow> 't \<Rightarrow> 't callback_tree \<Rightarrow> 't callback_tree" where
  "emplace_callback name t node =
     Callback_tree (ct_status node) (ct_reach node) (omap_emplace name t (ct_callbacks node)) (ct_children node) (ct_outCallbacks node)"

definition emplace_child :: "string \<Rightarrow> 't callback_tree \<Rightarrow> 't callback_tree \<Rightarrow> 't callback_tree" where
  "emplace_child name child node =
     Callback_tree (ct_status node) (ct_reach node) (ct_callbacks node) (omap_emplace name child (ct_children node)) (ct_outCallbacks node)"

definition pointee :: "'t clang_types \<Rightarrow> 't \<Rightarrow> 't" where
  "pointee C t = (case cl_shape C t of Pointer_ty p \<Rightarrow> p | _ \<Rightarrow> t)"

text \<open>
  What is rejected before the fields are looked at: a pointer to a pointer that leads to a callback, an
  array or a union with one.
\<close>

definition double_pointer :: "'t clang_types \<Rightarrow> 't \<Rightarrow> bool option" where
  "double_pointer C t =
     (if isPointerType C t \<and> isPointerType C (pointee C t) then containsFunctionPointer C (pointee C (pointee C t))
      else Some False)"

definition bad_aggregate :: "'t clang_types \<Rightarrow> 't \<Rightarrow> bool option" where
  "bad_aggregate C t =
     (case cl_shape C t of
        Array_ty e \<Rightarrow> containsFunctionPointer C e
      | Union_ty _ \<Rightarrow> containsFunctionPointer C t
      | _ \<Rightarrow> Some False)"

definition record_fields :: "'t clang_types \<Rightarrow> 't \<Rightarrow> (string \<times> 't) list option" where
  "record_fields C t = (case cl_shape C t of Record_ty fs \<Rightarrow> Some fs | Union_ty fs \<Rightarrow> Some fs | _ \<Rightarrow> None)"

definition finish_node :: "'t callback_tree \<Rightarrow> 't callback_tree" where
  "finish_node node = (if ct_callbacks node = [] \<and> ct_children node = [] then status_tree NoCallbacks else node)"

text \<open>
  The types on the way down are \<open>visited\<close>; the fuel bounds how deep the fields are followed, and where
  it runs out the code would not have ended.
\<close>

fun build :: "'t clang_types \<Rightarrow> nat \<Rightarrow> 't \<Rightarrow> string list \<Rightarrow> 't callback_tree option"
  and build_fields :: "'t clang_types \<Rightarrow> nat \<Rightarrow> (string \<times> 't) list \<Rightarrow> string list \<Rightarrow> 't callback_tree \<Rightarrow> 't callback_tree option" where
  "build C 0 t visited = None"
| "build C (Suc n) t visited =
     (case double_pointer C t of
        None \<Rightarrow> None
      | Some True \<Rightarrow> Some (status_tree Unsupported)
      | Some False \<Rightarrow>
          (let throughPointer = isPointerType C t; t = pointee C t in
           (case bad_aggregate C t of
              None \<Rightarrow> None
            | Some True \<Rightarrow> Some (status_tree Unsupported)
            | Some False \<Rightarrow>
                (case record_fields C t of
                   None \<Rightarrow> Some (status_tree NoCallbacks)
                 | Some fs \<Rightarrow>
                     build_fields C n fs visited
                       (Callback_tree HasCallbacks (if throughPointer then ByPointer else ByValue) [] [] [])))))"
| "build_fields C n [] visited node = Some (finish_node node)"
| "build_fields C n ((name, t) # fs) visited node =
     (let t = cl_canonical C t in
      if isFunctionPointerType C t
      then build_fields C n fs visited (emplace_callback name (cl_canonical C (pointee C t)) node)
      else
        (let typeStr = getTypeString C t in
         if typeStr \<in> set visited then
           (case containsFunctionPointer C t of
              None \<Rightarrow> None
            | Some True \<Rightarrow> Some (status_tree Unsupported)
            | Some False \<Rightarrow> build_fields C n fs visited node)
         else
           (case build C n t (oset_insert typeStr visited) of
              None \<Rightarrow> None
            | Some child \<Rightarrow>
                (case ct_status child of
                   Unsupported \<Rightarrow> Some (status_tree Unsupported)
                 | HasCallbacks \<Rightarrow> build_fields C n fs visited (emplace_child name child node)
                 | NoCallbacks \<Rightarrow> build_fields C n fs visited node))))"

subsection \<open>Types as Clang gives them\<close>

definition leads :: "'t clang_types \<Rightarrow> 't \<Rightarrow> 't \<Rightarrow> bool" where
  "leads C t u \<longleftrightarrow> (\<exists>f \<in> set (field_types C t). u = base_type C f)"

definition has_callback :: "'t clang_types \<Rightarrow> 't \<Rightarrow> bool" where
  "has_callback C t \<longleftrightarrow> (\<exists>u. (leads C)\<^sup>*\<^sup>* (base_type C t) u \<and> isFunctionType C u)"

text \<open>
  Canonical types have canonical parts; the depth counts the outer pointers and arrays; two canonical
  types with one spelling are the same type, or have no function pointer (the spellings of \<open>va_list\<close>);
  finitely many types are reached from one through fields; and a field is never a function.
\<close>

definition canonical_parts :: "'t clang_types \<Rightarrow> bool" where
  "canonical_parts C \<longleftrightarrow>
     (\<forall>t. cl_canonical C (cl_canonical C t) = cl_canonical C t) \<and>
     (\<forall>t p. cl_shape C (cl_canonical C t) = Pointer_ty p \<or> cl_shape C (cl_canonical C t) = Array_ty p \<longrightarrow>
       cl_canonical C p = p \<and> cl_depth C p < cl_depth C (cl_canonical C t))"

definition spelling_identifies :: "'t clang_types \<Rightarrow> bool" where
  "spelling_identifies C \<longleftrightarrow>
     (\<forall>t u. getTypeString C (cl_canonical C t) = getTypeString C (cl_canonical C u) \<longrightarrow>
       cl_canonical C t = cl_canonical C u \<or> \<not> has_callback C t \<and> \<not> has_callback C u)"

definition finite_types :: "'t clang_types \<Rightarrow> bool" where
  "finite_types C \<longleftrightarrow> (\<forall>t. finite {u. (leads C)\<^sup>*\<^sup>* (base_type C t) u})"

definition object_fields :: "'t clang_types \<Rightarrow> bool" where
  "object_fields C \<longleftrightarrow> (\<forall>t. \<forall>f \<in> set (field_types C t). \<not> isFunctionType C (cl_canonical C f))"

definition clang_ok :: "'t clang_types \<Rightarrow> bool" where
  "clang_ok C \<longleftrightarrow> canonical_parts C \<and> spelling_identifies C \<and> finite_types C \<and> object_fields C"

subsection \<open>Peeling\<close>

lemma part_canonical:
  assumes "canonical_parts C" "cl_canonical C t = t" "cl_shape C t = Pointer_ty p \<or> cl_shape C t = Array_ty p"
  shows "cl_canonical C p = p" "cl_depth C p < cl_depth C t"
proof -
  have "\<forall>t p. cl_shape C (cl_canonical C t) = Pointer_ty p \<or> cl_shape C (cl_canonical C t) = Array_ty p \<longrightarrow>
      cl_canonical C p = p \<and> cl_depth C p < cl_depth C (cl_canonical C t)"
    using assms(1) unfolding canonical_parts_def by (rule conjunct2)
  from this [rule_format, of t p] assms(2,3) show "cl_canonical C p = p" "cl_depth C p < cl_depth C t" by simp_all
qed

text \<open>A type without depth is not a pointer or an array.\<close>

lemma depth_zero:
  assumes "canonical_parts C" "cl_canonical C t = t" "cl_depth C t \<le> 0"
  shows "cl_shape C t \<noteq> Pointer_ty p" "cl_shape C t \<noteq> Array_ty p"
  using part_canonical(2) [OF assms(1,2), of p] assms(3) by auto

lemma peel_other: "(\<And>p. cl_shape C t \<noteq> Pointer_ty p) \<Longrightarrow> (\<And>p. cl_shape C t \<noteq> Array_ty p) \<Longrightarrow> peel C n t = t"
  by (simp add: peel.simps [of C _ t] split: type_shape.split)

lemma canonical_idem: "canonical_parts C \<Longrightarrow> cl_canonical C (cl_canonical C t) = cl_canonical C t"
  unfolding canonical_parts_def by (rule spec [OF conjunct1])

lemma peel_more:
  assumes "canonical_parts C" "cl_canonical C t = t" "cl_depth C t \<le> n" "cl_depth C t \<le> m"
  shows "peel C n t = peel C m t"
  using assms(2-)
proof (induction n arbitrary: t m)
  case 0
  note z = depth_zero [OF assms(1) 0(1,2)]
  show ?case by (simp only: peel_other [OF z])
next
  case (Suc n)
  show ?case
  proof (cases "\<exists>p. cl_shape C t = Pointer_ty p \<or> cl_shape C t = Array_ty p")
    case True
    then obtain p where p: "cl_shape C t = Pointer_ty p \<or> cl_shape C t = Array_ty p" by blast
    note c = part_canonical [OF assms(1) Suc.prems(1) p]
    then obtain k where m: "m = Suc k" using Suc.prems by (cases m) auto
    have "peel C n p = peel C k p" using Suc.IH [OF c(1), of k] c(2) Suc.prems m by simp
    then show ?thesis using p m by (auto simp: peel.simps [of C _ t])
  next
    case False
    then show ?thesis by (simp add: peel.simps [of C _ t] split: type_shape.split)
  qed
qed

lemma base_part:
  assumes "canonical_parts C" "cl_canonical C t = t" "cl_shape C t = Pointer_ty p \<or> cl_shape C t = Array_ty p"
  shows "base_type C t = base_type C p"
proof -
  note c = part_canonical [OF assms]
  obtain k where k: "cl_depth C t = Suc k" using c(2) by (cases "cl_depth C t") auto
  have "peel C (cl_depth C t) t = peel C k p" using assms(3) k by (auto simp: peel.simps [of C _ t])
  also have "\<dots> = peel C (cl_depth C p) p" by (rule peel_more [OF assms(1) c(1)]) (use c(2) k in simp_all)
  finally show ?thesis by (simp add: base_type_def Let_def assms(2) c(1))
qed

lemma base_other:
  assumes "cl_canonical C t = t" "\<And>p. cl_shape C t \<noteq> Pointer_ty p \<and> cl_shape C t \<noteq> Array_ty p"
  shows "base_type C t = t"
  using assms by (simp add: base_type_def Let_def peel.simps [of C _ t] split: type_shape.split)

lemma base_canonical: "canonical_parts C \<Longrightarrow> base_type C (cl_canonical C t) = base_type C t"
  by (simp add: base_type_def canonical_idem)

lemma peel_base:
  assumes "canonical_parts C" "cl_canonical C t = t" "cl_depth C t \<le> n"
  shows "cl_canonical C (peel C n t) = peel C n t \<and> (\<forall>p. cl_shape C (peel C n t) \<noteq> Pointer_ty p \<and> cl_shape C (peel C n t) \<noteq> Array_ty p)"
  using assms(2-)
proof (induction n arbitrary: t)
  case 0
  note z = depth_zero [OF assms(1) 0]
  show ?case using z 0(1) by (simp add: peel_other [OF z])
next
  case (Suc n)
  show ?case
  proof (cases "\<exists>p. cl_shape C t = Pointer_ty p \<or> cl_shape C t = Array_ty p")
    case True
    then obtain p where p: "cl_shape C t = Pointer_ty p \<or> cl_shape C t = Array_ty p" by blast
    note c = part_canonical [OF assms(1) Suc.prems(1) p]
    from Suc.IH [OF c(1)] c(2) Suc.prems(2) show ?thesis using p by (auto simp: peel.simps [of C _ t])
  next
    case False
    then show ?thesis using Suc.prems(1) by (simp add: peel.simps [of C _ t] split: type_shape.split)
  qed
qed

lemma base_is_base:
  assumes "canonical_parts C"
  shows "cl_canonical C (base_type C t) = base_type C t" "base_type C (base_type C t) = base_type C t"
proof -
  note b = peel_base [OF assms canonical_idem [OF assms, of t] order_refl]
  show c: "cl_canonical C (base_type C t) = base_type C t" using b by (simp add: base_type_def Let_def)
  show "base_type C (base_type C t) = base_type C t"
    by (rule base_other [OF c]) (use b in \<open>simp add: base_type_def Let_def\<close>)
qed

subsection \<open>The search is right\<close>

lemma has_callback_base: "canonical_parts C \<Longrightarrow> has_callback C (base_type C t) = has_callback C t"
  by (simp add: has_callback_def base_is_base)

text \<open>A base type has a callback if it is a function or one of its fields has one.\<close>

lemma has_callback_step:
  assumes "canonical_parts C" "base_type C t = t"
  shows "has_callback C t \<longleftrightarrow> isFunctionType C t \<or> (\<exists>f \<in> set (field_types C t). has_callback C f)"
proof
  assume "has_callback C t"
  then obtain u where u: "(leads C)\<^sup>*\<^sup>* t u" "isFunctionType C u" by (auto simp: has_callback_def assms(2))
  from u(1) show "isFunctionType C t \<or> (\<exists>f \<in> set (field_types C t). has_callback C f)"
  proof (cases rule: converse_rtranclpE)
    case base
    then show ?thesis using u(2) by simp
  next
    case (step y)
    then obtain f where "f \<in> set (field_types C t)" "y = base_type C f" by (auto simp: leads_def)
    then show ?thesis using step(2) u(2) by (auto simp: has_callback_def)
  qed
next
  assume "isFunctionType C t \<or> (\<exists>f \<in> set (field_types C t). has_callback C f)"
  then show "has_callback C t"
  proof
    assume "isFunctionType C t"
    then show ?thesis by (auto simp: has_callback_def assms(2))
  next
    assume "\<exists>f \<in> set (field_types C t). has_callback C f"
    then obtain f u where f: "f \<in> set (field_types C t)" "(leads C)\<^sup>*\<^sup>* (base_type C f) u" "isFunctionType C u" by (auto simp: has_callback_def)
    then have "leads C t (base_type C f)" by (auto simp: leads_def)
    then show ?thesis using f by (auto simp: has_callback_def assms(2) intro: converse_rtranclp_into_rtranclp)
  qed
qed

text \<open>
  The invariant: \<open>V\<close> are the types seen, none of them a function; what their fields lead to is seen,
  on the stack, or has no callback.
\<close>

definition seen_ok :: "'t clang_types \<Rightarrow> 't set \<Rightarrow> 't set \<Rightarrow> string list \<Rightarrow> 't list \<Rightarrow> bool" where
  "seen_ok C R V visited stack \<longleftrightarrow>
     finite R \<and> V \<subseteq> R \<and> base_type C ` set stack \<subseteq> R \<and> (\<forall>t \<in> R. \<forall>f \<in> set (field_types C t). base_type C f \<in> R) \<and>
     (\<forall>t \<in> R. base_type C t = t) \<and> set visited = getTypeString C ` V \<and>
     (\<forall>v \<in> V. \<not> isFunctionType C v) \<and>
     (\<forall>v \<in> V. \<forall>f \<in> set (field_types C v). base_type C f \<in> V \<or> base_type C f \<in> base_type C ` set stack \<or> \<not> has_callback C f)"

lemma seen_all:
  assumes "canonical_parts C" "seen_ok C R V visited []" "v \<in> V"
  shows "\<not> has_callback C v"
proof
  assume "has_callback C v"
  then obtain u where u: "(leads C)\<^sup>*\<^sup>* (base_type C v) u" "isFunctionType C u" by (auto simp: has_callback_def)
  have b: "t \<in> V \<Longrightarrow> base_type C t = t" for t using assms(2) by (auto simp: seen_ok_def)
  have "t \<in> V \<Longrightarrow> False" if "(leads C)\<^sup>*\<^sup>* t u" for t
    using that
  proof (induction rule: converse_rtranclp_induct)
    case base
    then show ?case using assms(2) u(2) by (auto simp: seen_ok_def)
  next
    case (step t t')
    then obtain f where f: "f \<in> set (field_types C t)" "t' = base_type C f" by (auto simp: leads_def)
    have "has_callback C f" using step(2) u(2) f(2) by (auto simp: has_callback_def)
    then have "t' \<in> V" using assms(2) step.prems f by (auto simp: seen_ok_def)
    then show ?case by (rule step.IH)
  qed
  then show False using u(1) assms(3) by (simp add: b)
qed

lemma contains_loop_spec:
  assumes "canonical_parts C" "spelling_identifies C" "seen_ok C R V visited stack"
  shows "contains_loop C stack visited = Some (\<exists>t \<in> V \<union> set stack. has_callback C t)"
  using assms(3)
proof (induction "card (R - V)" arbitrary: V visited stack rule: less_induct)
  case less
  note outer = less.hyps
  from less.prems show ?case
  proof (induction stack)
    case Nil
    then show ?case using seen_all [OF assms(1) Nil] by (auto simp: contains_loop.simps)
  next
    case (Cons t stack)
    let ?b = "base_type C t"
    note inv = Cons.prems
    have bR: "?b \<in> R" using inv by (auto simp: seen_ok_def)
    note hb = has_callback_base [OF assms(1), of t]
    show ?case
    proof (cases "getTypeString C ?b \<in> set visited")
      case True
      then obtain v where v: "v \<in> V" "getTypeString C v = getTypeString C ?b" using inv by (auto simp: seen_ok_def)
      have vb: "base_type C v = v" using v(1) inv by (auto simp: seen_ok_def)
      then have "cl_canonical C v = v" using base_is_base(1) [OF assms(1), of v] by simp
      then have same: "v = ?b \<or> \<not> has_callback C v \<and> \<not> has_callback C ?b"
        using assms(2) v(2) base_is_base(1) [OF assms(1), of t] unfolding spelling_identifies_def by metis
      have i: "seen_ok C R V visited stack"
        using inv v(1) same has_callback_base [OF assms(1)] unfolding seen_ok_def by (simp, metis)
      have "has_callback C t \<longrightarrow> (\<exists>v \<in> V. has_callback C v)" using same v(1) hb by auto
      then show ?thesis using Cons.IH [OF i] True by (auto simp: contains_loop.simps [of C "t # stack"] Let_def)
    next
      case False
      show ?thesis
      proof (cases "isFunctionType C ?b")
        case True
        then have "has_callback C ?b" using has_callback_step [OF assms(1) base_is_base(2) [OF assms(1)]] by blast
        then show ?thesis using hb True False by (auto simp: contains_loop.simps [of C "t # stack"] Let_def)
      next
        case nofun: False
        let ?st = "rev (field_types C ?b) @ stack"
        have i: "seen_ok C R (insert ?b V) (oset_insert (getTypeString C ?b) visited) ?st"
          using inv nofun unfolding seen_ok_def by (simp add: image_Un) blast
        have "?b \<notin> V" using False inv by (auto simp: seen_ok_def)
        then have "card (R - insert ?b V) < card (R - V)"
          using inv bR by (intro psubset_card_mono) (auto simp: seen_ok_def)
        from outer [OF this i] have "contains_loop C ?st (oset_insert (getTypeString C ?b) visited) =
            Some (\<exists>u \<in> insert ?b V \<union> set ?st. has_callback C u)" .
        moreover have "(\<exists>u \<in> insert ?b V \<union> set ?st. has_callback C u) = (\<exists>u \<in> V \<union> set (t # stack). has_callback C u)"
          using has_callback_step [OF assms(1) base_is_base(2) [OF assms(1)], of t] nofun hb by auto
        ultimately show ?thesis using False nofun by (simp add: contains_loop.simps [of C "t # stack"] Let_def)
      qed
    qed
  qed
qed

lemma contains_correct:
  assumes "clang_ok C"
  shows "containsFunctionPointer C t = Some (has_callback C t)"
proof -
  have ok: "canonical_parts C" "spelling_identifies C" using assms by (simp_all add: clang_ok_def)
  define R where "R = {u. (leads C)\<^sup>*\<^sup>* (base_type C t) u}"
  have "base_type C u = u" if "(leads C)\<^sup>*\<^sup>* (base_type C t) u" for u
    using that by (cases rule: rtranclp.cases) (auto simp: leads_def base_is_base [OF ok(1)])
  moreover have "finite R" using assms by (simp add: R_def clang_ok_def finite_types_def)
  moreover have "leads C u (base_type C f)" if "f \<in> set (field_types C u)" for u f using that by (auto simp: leads_def)
  ultimately have "seen_ok C R {} [] [t]"
    by (auto simp: seen_ok_def R_def intro: rtranclp.rtrancl_into_rtrancl)
  from contains_loop_spec [OF ok this] show ?thesis by (simp add: containsFunctionPointer_def)
qed

subsection \<open>The tree is right\<close>

text \<open>What the checks before the fields say of a canonical type that is not itself a function pointer.\<close>

lemma pointee_canonical: "canonical_parts C \<Longrightarrow> cl_canonical C t = t \<Longrightarrow> cl_canonical C (pointee C t) = pointee C t"
  using part_canonical(1) [of C t] by (auto simp: pointee_def split: type_shape.split)

lemma base_pointee: "canonical_parts C \<Longrightarrow> cl_canonical C t = t \<Longrightarrow> base_type C (pointee C t) = base_type C t"
  using base_part [of C t] by (auto simp: pointee_def split: type_shape.split)

lemma has_callback_pointee: "canonical_parts C \<Longrightarrow> cl_canonical C t = t \<Longrightarrow> has_callback C (pointee C t) = has_callback C t"
  by (simp add: has_callback_def base_pointee)

lemma double_pointer_value:
  assumes "clang_ok C" "cl_canonical C t = t"
  shows "double_pointer C t = Some (isPointerType C t \<and> isPointerType C (pointee C t) \<and> has_callback C t)"
  using assms has_callback_pointee [of C t] has_callback_pointee [of C "pointee C t"] pointee_canonical [of C t]
  by (auto simp: double_pointer_def contains_correct clang_ok_def)

lemma bad_aggregate_value:
  assumes "clang_ok C" "cl_canonical C t = t"
  shows "bad_aggregate C t = Some ((isArrayType C t \<or> (\<exists>fs. cl_shape C t = Union_ty fs)) \<and> has_callback C t)"
  using assms base_part [of C t]
  by (auto simp: bad_aggregate_def contains_correct isArrayType_def has_callback_def clang_ok_def split: type_shape.split)

lemma record_base:
  assumes "cl_canonical C t = t" "record_fields C t = Some fs"
  shows "base_type C t = t" "field_types C t = map snd fs" "\<not> isFunctionType C t" "\<not> isPointerType C t"
  using assms base_other [OF assms(1)]
  by (auto simp: record_fields_def field_types_def isFunctionType_def isPointerType_def split: type_shape.splits)

lemma no_record_callback:
  assumes "canonical_parts C" "cl_canonical C t = t" "record_fields C t = None" "\<not> isPointerType C t" "\<not> isArrayType C t" "\<not> isFunctionType C t"
  shows "\<not> has_callback C t"
proof -
  have b: "base_type C t = t"
    by (rule base_other [OF assms(2)]) (use assms(4,5) in \<open>auto simp: isPointerType_def isArrayType_def\<close>)
  have "field_types C t = []" using assms(3) by (simp add: record_fields_def field_types_def split: type_shape.splits)
  then show ?thesis using has_callback_step [OF assms(1) b] assms(6) by simp
qed

text \<open>After the checks, what is left is a record whose fields decide, or a type without callbacks.\<close>

lemma build_cases:
  assumes "clang_ok C" "cl_canonical C t = t" "\<not> isFunctionPointerType C t" "\<not> isFunctionType C t"
  obtains (rejected) "build C (Suc n) t visited = Some (status_tree Unsupported)" "has_callback C t"
  | (plain) "build C (Suc n) t visited = Some (status_tree NoCallbacks)" "\<not> has_callback C t"
  | (node) fs where "record_fields C (pointee C t) = Some fs"
      "build C (Suc n) t visited = build_fields C n fs visited (Callback_tree HasCallbacks (if isPointerType C t then ByPointer else ByValue) [] [] [])"
      "has_callback C t \<longleftrightarrow> (\<exists>f \<in> snd ` set fs. has_callback C f)" "field_types C (base_type C t) = map snd fs"
proof -
  let ?p = "pointee C t"
  have ok: "canonical_parts C" using assms(1) by (simp add: clang_ok_def)
  note c = pointee_canonical [OF ok assms(2)]
  note h = has_callback_pointee [OF ok assms(2)]
  note v = double_pointer_value [OF assms(1,2)] bad_aggregate_value [OF assms(1) c]
  have nofun: "\<not> isFunctionType C ?p" using assms(3,4) by (auto simp: pointee_def isFunctionPointerType_def split: type_shape.splits)
  consider (dbl) "isPointerType C t" "isPointerType C ?p" "has_callback C t"
    | (bad) "\<not> (isPointerType C t \<and> isPointerType C ?p \<and> has_callback C t)" "isArrayType C ?p \<or> (\<exists>fs. cl_shape C ?p = Union_ty fs)" "has_callback C t"
    | (ok) "\<not> (isPointerType C t \<and> isPointerType C ?p \<and> has_callback C t)" "\<not> ((isArrayType C ?p \<or> (\<exists>fs. cl_shape C ?p = Union_ty fs)) \<and> has_callback C t)"
    by blast
  then show thesis
  proof cases
    case dbl
    then show thesis using rejected by (simp add: v(1))
  next
    case bad
    have "double_pointer C t = Some False" "bad_aggregate C ?p = Some True" using bad v h by auto
    then show thesis using rejected bad(3) by (simp add: Let_def)
  next
    case ok': ok
    have b: "build C (Suc n) t visited = (case record_fields C ?p of None \<Rightarrow> Some (status_tree NoCallbacks)
        | Some fs \<Rightarrow> build_fields C n fs visited (Callback_tree HasCallbacks (if isPointerType C t then ByPointer else ByValue) [] [] []))"
    proof -
      have "double_pointer C t = Some False" "bad_aggregate C ?p = Some False" using ok' v h by auto
      then show ?thesis by (simp add: Let_def)
    qed
    show thesis
    proof (cases "record_fields C ?p")
      case None
      have "\<not> has_callback C t"
      proof
        assume hc: "has_callback C t"
        then have "\<not> isArrayType C ?p" "\<not> isPointerType C ?p" using ok' by (auto simp: pointee_def isPointerType_def split: type_shape.splits)
        then show False using no_record_callback [OF ok c None _ _ nofun] hc h by simp
      qed
      then show thesis using plain b None by simp
    next
      case (Some fs)
      note r = record_base [OF c Some]
      have "has_callback C t \<longleftrightarrow> (\<exists>f \<in> snd ` set fs. has_callback C f)"
        using has_callback_step [OF ok r(1)] r(2,3) h by simp
      moreover have "field_types C (base_type C t) = map snd fs" using base_pointee [OF ok assms(2)] r(1,2) by simp
      ultimately show thesis using node [of fs] b Some by simp
    qed
  qed
qed

lemma has_callback_canonical: "canonical_parts C \<Longrightarrow> has_callback C (cl_canonical C t) = has_callback C t"
  by (simp add: has_callback_def base_canonical)

lemma function_pointer_callback:
  assumes "canonical_parts C" "cl_canonical C t = t" "isFunctionPointerType C t"
  shows "has_callback C t"
proof -
  obtain p where p: "cl_shape C t = Pointer_ty p" "isFunctionType C p" using assms(3) by (auto simp: isFunctionPointerType_def split: type_shape.splits)
  have c: "cl_canonical C p = p" using part_canonical(1) [OF assms(1,2)] p(1) by simp
  have b: "base_type C p = p" by (rule base_other [OF c]) (use p(2) in \<open>auto simp: isFunctionType_def\<close>)
  have "has_callback C p" using has_callback_step [OF assms(1) b] p(2) by simp
  then show ?thesis using has_callback_pointee [OF assms(1,2)] p(1) by (simp add: pointee_def)
qed

lemma omap_emplace_nonempty [simp]: "omap_emplace k v m \<noteq> []"
  by (cases m) (auto simp: omap_emplace_def split: if_splits)

lemma status_tree_sel [simp]: "ct_status (status_tree s) = s"
  by (simp add: status_tree_def)

lemma emplace_sel [simp]:
  "ct_status (emplace_callback name t node) = ct_status node" "ct_callbacks (emplace_callback name t node) \<noteq> []"
  "ct_status (emplace_child name c node) = ct_status node" "ct_children (emplace_child name c node) \<noteq> []"
  by (simp_all add: emplace_callback_def emplace_child_def)

definition fields_ok :: "'t clang_types \<Rightarrow> (string \<times> 't) list \<Rightarrow> bool" where
  "fields_ok C fs \<longleftrightarrow> (\<forall>f \<in> snd ` set fs. \<not> isFunctionType C (cl_canonical C f))"

lemma record_fields_ok:
  assumes "clang_ok C" "field_types C t = map snd fs"
  shows "fields_ok C fs"
  unfolding fields_ok_def
proof
  fix f assume "f \<in> snd ` set fs"
  then have "f \<in> set (field_types C t)" by (simp add: assms(2))
  then show "\<not> isFunctionType C (cl_canonical C f)" using assms(1) by (auto simp: clang_ok_def object_fields_def)
qed

text \<open>One field: a callback, on the way down already, rejected below, with callbacks below, or without.\<close>

lemma build_field_cases:
  assumes "clang_ok C"
  obtains (callback) "isFunctionPointerType C (cl_canonical C t)" "has_callback C t"
      "build_fields C n ((name, t) # fs) visited node =
        build_fields C n fs visited (emplace_callback name (cl_canonical C (pointee C (cl_canonical C t))) node)"
  | (cycle) "\<not> isFunctionPointerType C (cl_canonical C t)" "has_callback C t"
      "build_fields C n ((name, t) # fs) visited node = Some (status_tree Unsupported)"
  | (skipped) "\<not> isFunctionPointerType C (cl_canonical C t)" "\<not> has_callback C t"
      "build_fields C n ((name, t) # fs) visited node = build_fields C n fs visited node"
  | (below) "\<not> isFunctionPointerType C (cl_canonical C t)" "getTypeString C (cl_canonical C t) \<notin> set visited"
      "build_fields C n ((name, t) # fs) visited node =
        (case build C n (cl_canonical C t) (oset_insert (getTypeString C (cl_canonical C t)) visited) of
           None \<Rightarrow> None
         | Some child \<Rightarrow>
             (case ct_status child of
                Unsupported \<Rightarrow> Some (status_tree Unsupported)
              | HasCallbacks \<Rightarrow> build_fields C n fs visited (emplace_child name child node)
              | NoCallbacks \<Rightarrow> build_fields C n fs visited node))"
proof -
  let ?c = "cl_canonical C t"
  have ok: "canonical_parts C" using assms by (simp add: clang_ok_def)
  note h = has_callback_canonical [OF ok, of t]
  show thesis
  proof (cases "isFunctionPointerType C ?c")
    case True
    then show thesis using function_pointer_callback [OF ok canonical_idem [OF ok] True] h
      by (intro callback) (simp_all add: Let_def)
  next
    case False
    show thesis
    proof (cases "getTypeString C ?c \<in> set visited")
      case True
      then show thesis using False h cycle skipped by (cases "has_callback C t") (simp_all add: Let_def contains_correct [OF assms])
    next
      case new: False
      then show thesis using False by (intro below) (simp_all add: Let_def)
    qed
  qed
qed

lemma fields_status:
  assumes "clang_ok C"
    and "\<And>t visited tree. build C n t visited = Some tree \<Longrightarrow> cl_canonical C t = t \<Longrightarrow> \<not> isFunctionPointerType C t \<Longrightarrow>
      \<not> isFunctionType C t \<Longrightarrow> ct_status tree = NoCallbacks \<longleftrightarrow> \<not> has_callback C t"
    and "build_fields C n fs visited node = Some tree" "ct_status node = HasCallbacks" "fields_ok C fs"
  shows "ct_status tree = NoCallbacks \<longleftrightarrow> ct_callbacks node = [] \<and> ct_children node = [] \<and> \<not> (\<exists>f \<in> snd ` set fs. has_callback C f)"
  using assms(3-5)
proof (induction fs arbitrary: node)
  case Nil
  then show ?case by (auto simp: finish_node_def split: if_splits)
next
  case (Cons e fs)
  obtain name t where e: "e = (name, t)" by fastforce
  have ok: "canonical_parts C" using assms(1) by (simp add: clang_ok_def)
  have f: "fields_ok C fs" "\<not> isFunctionType C (cl_canonical C t)" using Cons.prems(3) by (simp_all add: fields_ok_def e)
  note h = has_callback_canonical [OF ok, of t] and r = Cons.prems(1) [unfolded e]
  from assms(1) show ?case
  proof (cases rule: build_field_cases [where t = t and n = n and name = name and fs = fs and visited = visited and node = node])
    case callback
    then show ?thesis using Cons.IH [OF _ _ f(1), of "emplace_callback name (cl_canonical C (pointee C (cl_canonical C t))) node"]
        r Cons.prems(2) e by simp
  next
    case cycle
    then show ?thesis using r e by auto
  next
    case skipped
    then show ?thesis using Cons.IH [OF _ Cons.prems(2) f(1)] r e by simp
  next
    case below
    from below(3) r obtain child where c: "build C n (cl_canonical C t) (oset_insert (getTypeString C (cl_canonical C t)) visited) = Some child"
      by (auto split: option.splits)
    note st = assms(2) [OF c canonical_idem [OF ok] below(1) f(2), unfolded h]
    show ?thesis
    proof (cases "ct_status child")
      case HasCallbacks
      then show ?thesis using Cons.IH [OF _ _ f(1), of "emplace_child name child node"] st r below(3) c Cons.prems(2) e by simp
    next
      case NoCallbacks
      then show ?thesis using Cons.IH [OF _ Cons.prems(2) f(1)] st r below(3) c e by simp
    next
      case Unsupported
      then show ?thesis using st r below(3) c e by auto
    qed
  qed
qed

lemma build_status:
  assumes "clang_ok C" "build C n t visited = Some tree" "cl_canonical C t = t" "\<not> isFunctionPointerType C t" "\<not> isFunctionType C t"
  shows "ct_status tree = NoCallbacks \<longleftrightarrow> \<not> has_callback C t"
  using assms(2-)
proof (induction n arbitrary: t visited tree)
  case (Suc n)
  from assms(1) Suc.prems(2-4) show ?case
  proof (cases rule: build_cases [where n = n and visited = visited])
    case rejected
    then show ?thesis using Suc.prems(1) by auto
  next
    case plain
    then show ?thesis using Suc.prems(1) by auto
  next
    case (node fs)
    from node(2) Suc.prems(1) have "build_fields C n fs visited (Callback_tree HasCallbacks (if isPointerType C t then ByPointer else ByValue) [] [] []) = Some tree"
      by simp
    from fields_status [OF assms(1) Suc.IH this _ record_fields_ok [OF assms(1) node(4)]] show ?thesis using node(3) by auto
  qed
qed simp

subsection \<open>The tree is found\<close>

text \<open>The types of all fields below a type; every one of them is entered once on a way down.\<close>

definition all_fields :: "'t clang_types \<Rightarrow> 't \<Rightarrow> 't set" where
  "all_fields C t = {cl_canonical C f | f u. (leads C)\<^sup>*\<^sup>* (base_type C t) u \<and> f \<in> set (field_types C u)}"

definition unvisited :: "'t clang_types \<Rightarrow> 't set \<Rightarrow> string list \<Rightarrow> nat" where
  "unvisited C D visited = card (getTypeString C ` D - set visited)"

lemma fields_end:
  assumes "clang_ok C" "finite D"
    and "\<And>t visited. cl_canonical C t = t \<Longrightarrow> \<not> isFunctionPointerType C t \<Longrightarrow> \<not> isFunctionType C t \<Longrightarrow> t \<in> D \<Longrightarrow>
      unvisited C D visited < n \<Longrightarrow> build C n t visited \<noteq> None"
    and "cl_canonical C ` snd ` set fs \<subseteq> D" "fields_ok C fs" "unvisited C D visited \<le> n"
  shows "build_fields C n fs visited node \<noteq> None"
  using assms(4-)
proof (induction fs arbitrary: node)
  case (Cons e fs)
  obtain name t where e: "e = (name, t)" by fastforce
  have ok: "canonical_parts C" using assms(1) by (simp add: clang_ok_def)
  have f: "fields_ok C fs" "\<not> isFunctionType C (cl_canonical C t)" using Cons.prems(2) by (simp_all add: fields_ok_def e)
  have d: "cl_canonical C t \<in> D" "cl_canonical C ` snd ` set fs \<subseteq> D" using Cons.prems(1) e by auto
  note ih = Cons.IH [OF d(2) f(1) Cons.prems(3)]
  from assms(1) show ?case
  proof (cases rule: build_field_cases [where t = t and n = n and name = name and fs = fs and visited = visited and node = node])
    case below
    let ?s = "getTypeString C (cl_canonical C t)"
    have "getTypeString C ` D - set (oset_insert ?s visited) \<subset> getTypeString C ` D - set visited" using d(1) below(2) by auto
    then have "unvisited C D (oset_insert ?s visited) < unvisited C D visited"
      unfolding unvisited_def by (rule psubset_card_mono [rotated]) (use assms(2) in simp)
    then have "build C n (cl_canonical C t) (oset_insert ?s visited) \<noteq> None"
      using assms(3) [OF canonical_idem [OF ok] below(1) f(2) d(1)] Cons.prems(3) by simp
    then show ?thesis using below(3) ih by (auto simp: e split: status.split)
  qed (use ih in \<open>simp_all add: e\<close>)
qed simp

lemma build_ends:
  assumes "clang_ok C" "finite D" "\<And>d. d \<in> D \<Longrightarrow> cl_canonical C ` set (field_types C (base_type C d)) \<subseteq> D"
    and "cl_canonical C t = t" "\<not> isFunctionPointerType C t" "\<not> isFunctionType C t"
    and "cl_canonical C ` set (field_types C (base_type C t)) \<subseteq> D" "unvisited C D visited < n"
  shows "build C n t visited \<noteq> None"
  using assms(4-)
proof (induction n arbitrary: t visited)
  case (Suc n)
  from assms(1) Suc.prems(1-3) show ?case
  proof (cases rule: build_cases [where n = n and visited = visited])
    case (node fs)
    have "cl_canonical C ` snd ` set fs \<subseteq> D" using Suc.prems(4) node(4) by simp
    then have "build_fields C n fs visited nd \<noteq> None" for nd
      using Suc.prems(5) by (intro fields_end [OF assms(1,2) _ _ record_fields_ok [OF assms(1) node(4)]])
        (use Suc.IH assms(3) in auto)
    then show ?thesis using node(2) by simp
  qed simp_all
qed simp

lemma all_fields_closed: "d \<in> all_fields C t \<Longrightarrow> canonical_parts C \<Longrightarrow> cl_canonical C ` set (field_types C (base_type C d)) \<subseteq> all_fields C t"
proof -
  assume d: "d \<in> all_fields C t" and ok: "canonical_parts C"
  then obtain f u where f: "d = cl_canonical C f" "(leads C)\<^sup>*\<^sup>* (base_type C t) u" "f \<in> set (field_types C u)" by (auto simp: all_fields_def)
  then have "leads C u (base_type C d)" by (auto simp: leads_def base_canonical [OF ok])
  with f(2) have "(leads C)\<^sup>*\<^sup>* (base_type C t) (base_type C d)" by (rule rtranclp.rtrancl_into_rtrancl)
  then show ?thesis by (auto simp: all_fields_def)
qed

lemma all_fields_finite: "clang_ok C \<Longrightarrow> finite (all_fields C t)"
proof -
  assume ok: "clang_ok C"
  have "all_fields C t = cl_canonical C ` (\<Union>u \<in> {u. (leads C)\<^sup>*\<^sup>* (base_type C t) u}. set (field_types C u))"
    by (auto simp: all_fields_def)
  then show ?thesis using ok by (simp add: clang_ok_def finite_types_def)
qed

lemma build_found:
  assumes "clang_ok C" "cl_canonical C t = t" "\<not> isFunctionPointerType C t" "\<not> isFunctionType C t" "card (all_fields C t) < n"
  shows "build C n t [] \<noteq> None"
proof (rule build_ends [OF assms(1) all_fields_finite [OF assms(1)] _ assms(2-4)])
  have ok: "canonical_parts C" using assms(1) by (simp add: clang_ok_def)
  show "d \<in> all_fields C t \<Longrightarrow> cl_canonical C ` set (field_types C (base_type C d)) \<subseteq> all_fields C t" for d
    using all_fields_closed [OF _ ok] .
  show "cl_canonical C ` set (field_types C (base_type C t)) \<subseteq> all_fields C t" by (auto simp: all_fields_def)
  show "unvisited C (all_fields C t) [] < n"
    using card_image_le [OF all_fields_finite [OF assms(1)], of "getTypeString C" t] assms(5) by (simp add: unvisited_def)
qed

subsection \<open>The callbacks of the tree\<close>

text \<open>The paths of member names to the callbacks of a tree, with their function types.\<close>

fun tree_paths :: "'t callback_tree \<Rightarrow> (string list \<times> 't) list" where
  "tree_paths (Callback_tree s r callbacks children outs) =
     concat (map (\<lambda>(name, child). map (\<lambda>(path, t). (name # path, t)) (tree_paths child)) children) @
     map (\<lambda>(name, t). ([name], t)) callbacks"

text \<open>
  A member among those of its name: the function pointers and the other members are kept in two maps
  by name, and a second entry of a name is dropped.  Only members without a name share one, those of an
  anonymous struct, whose name is empty.
\<close>

definition same_kind :: "'t clang_types \<Rightarrow> 't \<Rightarrow> 't \<Rightarrow> bool" where
  "same_kind C f g \<longleftrightarrow> isFunctionPointerType C (cl_canonical C f) = isFunctionPointerType C (cl_canonical C g)"

definition first_member :: "'t clang_types \<Rightarrow> (string \<times> 't) list \<Rightarrow> string \<Rightarrow> 't \<Rightarrow> bool" where
  "first_member C fs name f \<longleftrightarrow>
     (\<exists>before after. fs = before @ (name, f) # after \<and>
        (\<forall>g. (name, g) \<in> set before \<longrightarrow> \<not> same_kind C g f \<or> \<not> has_callback C g))"

lemma first_member_in: "first_member C fs name f \<Longrightarrow> (name, f) \<in> set fs"
  by (auto simp: first_member_def)

text \<open>Where the names differ every member is the first of its name.\<close>

lemma first_member_distinct:
  assumes "distinct (map fst fs)"
  shows "first_member C fs name f \<longleftrightarrow> (name, f) \<in> set fs"
proof
  assume "(name, f) \<in> set fs"
  then obtain before after where fs: "fs = before @ (name, f) # after" by (meson split_list)
  then have "name \<notin> fst ` set before" using assms by auto
  then have "(name, g) \<notin> set before" for g by force
  then show "first_member C fs name f" using fs unfolding first_member_def by blast
qed (rule first_member_in)

lemma first_member_Nil [simp]: "\<not> first_member C [] name f"
  by (simp add: first_member_def)

lemma first_member_Cons:
  "first_member C ((n, t) # fs) name f \<longleftrightarrow>
     name = n \<and> f = t \<or> first_member C fs name f \<and> (name = n \<longrightarrow> \<not> same_kind C t f \<or> \<not> has_callback C t)"
proof
  assume "first_member C ((n, t) # fs) name f"
  then obtain before after where b: "(n, t) # fs = before @ (name, f) # after"
    "\<And>g. (name, g) \<in> set before \<Longrightarrow> \<not> same_kind C g f \<or> \<not> has_callback C g"
    unfolding first_member_def by blast
  show "name = n \<and> f = t \<or> first_member C fs name f \<and> (name = n \<longrightarrow> \<not> same_kind C t f \<or> \<not> has_callback C t)"
  proof (cases before)
    case (Cons e rest)
    then have "fs = rest @ (name, f) # after" "e = (n, t)" using b(1) by auto
    moreover have "\<forall>g. (name, g) \<in> set rest \<longrightarrow> \<not> same_kind C g f \<or> \<not> has_callback C g" using b(2) Cons by simp
    ultimately have "first_member C fs name f" unfolding first_member_def by blast
    then show ?thesis using b(2) [of t] Cons \<open>e = (n, t)\<close> by auto
  qed (use b in simp)
next
  assume "name = n \<and> f = t \<or> first_member C fs name f \<and> (name = n \<longrightarrow> \<not> same_kind C t f \<or> \<not> has_callback C t)"
  then show "first_member C ((n, t) # fs) name f"
  proof
    assume "name = n \<and> f = t"
    then have "(n, t) # fs = [] @ (name, f) # fs" by simp
    then show ?thesis unfolding first_member_def by (metis empty_iff list.set(1))
  next
    assume r: "first_member C fs name f \<and> (name = n \<longrightarrow> \<not> same_kind C t f \<or> \<not> has_callback C t)"
    then obtain before after where b: "fs = before @ (name, f) # after"
      "\<forall>g. (name, g) \<in> set before \<longrightarrow> \<not> same_kind C g f \<or> \<not> has_callback C g"
      unfolding first_member_def by blast
    then have "(n, t) # fs = ((n, t) # before) @ (name, f) # after"
      "\<forall>g. (name, g) \<in> set ((n, t) # before) \<longrightarrow> \<not> same_kind C g f \<or> \<not> has_callback C g"
      using r by auto
    then show ?thesis unfolding first_member_def by blast
  qed
qed

text \<open>The ways to a function pointer through members, each behind at most one pointer.\<close>

inductive callback_path :: "'t clang_types \<Rightarrow> 't \<Rightarrow> string list \<Rightarrow> 't \<Rightarrow> bool" for C where
  member: "record_fields C (pointee C t) = Some fs \<Longrightarrow> first_member C fs name f \<Longrightarrow> isFunctionPointerType C (cl_canonical C f) \<Longrightarrow>
    callback_path C t [name] (cl_canonical C (pointee C (cl_canonical C f)))"
| nested: "record_fields C (pointee C t) = Some fs \<Longrightarrow> first_member C fs name f \<Longrightarrow> \<not> isFunctionPointerType C (cl_canonical C f) \<Longrightarrow>
    callback_path C (cl_canonical C f) path u \<Longrightarrow> callback_path C t (name # path) u"

inductive_cases callback_pathE: "callback_path C t path u"

definition field_path :: "'t clang_types \<Rightarrow> 't \<Rightarrow> string list \<Rightarrow> 't \<Rightarrow> bool" where
  "field_path C f path u \<longleftrightarrow>
     (let c = cl_canonical C f in
      if isFunctionPointerType C c then path = [] \<and> u = cl_canonical C (pointee C c) else callback_path C c path u)"

lemma callback_path_fields:
  assumes "record_fields C (pointee C t) = Some fs"
  shows "callback_path C t path u \<longleftrightarrow> (\<exists>name f rest. first_member C fs name f \<and> path = name # rest \<and> field_path C f rest u)"
proof
  assume "callback_path C t path u"
  then show "\<exists>name f rest. first_member C fs name f \<and> path = name # rest \<and> field_path C f rest u"
    by (rule callback_pathE) (use assms in \<open>auto simp: field_path_def\<close>)
next
  assume "\<exists>name f rest. first_member C fs name f \<and> path = name # rest \<and> field_path C f rest u"
  then show "callback_path C t path u"
    using assms by (auto simp: field_path_def Let_def split: if_splits intro: callback_path.intros)
qed

lemma callback_path_has:
  assumes "clang_ok C" "callback_path C t path u" "cl_canonical C t = t"
  shows "has_callback C t"
proof -
  have ok: "canonical_parts C" using assms(1) by (simp add: clang_ok_def)
  have up: "has_callback C t" if "cl_canonical C t = t" "record_fields C (pointee C t) = Some fs" "f \<in> snd ` set fs" "has_callback C f" for t fs f
  proof -
    note r = record_base [OF pointee_canonical [OF ok that(1)] that(2)]
    have "has_callback C (pointee C t)" using has_callback_step [OF ok r(1)] r(2) that(3,4) by auto
    then show ?thesis using has_callback_pointee [OF ok that(1)] by simp
  qed
  note canon = canonical_idem [OF ok] and hc = has_callback_canonical [OF ok]
  show ?thesis using assms(2,3)
  proof (induction rule: callback_path.induct)
    case (member t fs name f)
    have "has_callback C f" using function_pointer_callback [OF ok canon member(3)] hc by simp
    then show ?case using up [OF member(4) member(1)] first_member_in [OF member(2)] by force
  next
    case (nested t fs name f path u)
    have "has_callback C f" using nested.IH [OF canon] hc by simp
    then show ?case using up [OF nested.prems nested(1)] first_member_in [OF nested(2)] by force
  qed
qed

lemma set_emplace_new: "k \<notin> fst ` set m \<Longrightarrow> set (omap_emplace k v m) = insert (k, v) (set m)"
  unfolding omap_emplace_def by (induction m) (auto split: if_splits)

definition member_names :: "'t callback_tree \<Rightarrow> string set" where
  "member_names node = fst ` set (ct_callbacks node) \<union> fst ` set (ct_children node)"

lemma emplace_callback_paths:
  assumes "name \<notin> member_names node"
  shows "set (tree_paths (emplace_callback name t node)) = insert ([name], t) (set (tree_paths node))"
    and "member_names (emplace_callback name t node) = insert name (member_names node)"
  using assms by (cases node; auto simp: emplace_callback_def member_names_def set_emplace_new)+

lemma emplace_child_paths:
  assumes "name \<notin> member_names node"
  shows "set (tree_paths (emplace_child name child node)) = (\<lambda>(path, t). (name # path, t)) ` set (tree_paths child) \<union> set (tree_paths node)"
    and "member_names (emplace_child name child node) = insert name (member_names node)"
  using assms by (cases node; auto simp: emplace_child_def member_names_def set_emplace_new)+

definition fields_paths :: "'t clang_types \<Rightarrow> (string \<times> 't) list \<Rightarrow> (string list \<times> 't) set" where
  "fields_paths C fs = {(name # rest, u) | name f rest u. (name, f) \<in> set fs \<and> field_path C f rest u}"

lemma fields_paths_Cons:
  "fields_paths C ((name, f) # fs) = {(name # rest, u) | rest u. field_path C f rest u} \<union> fields_paths C fs"
  by (auto simp: fields_paths_def)

text \<open>
  The paths through the members that are still recorded, where the names of \<open>node\<close> are taken.
\<close>

definition node_ok :: "'t callback_tree \<Rightarrow> bool" where
  "node_ok node \<longleftrightarrow> omap_ok (ct_callbacks node) \<and> omap_ok (ct_children node)"

definition taken :: "'t clang_types \<Rightarrow> 't callback_tree \<Rightarrow> 't \<Rightarrow> string set" where
  "taken C node f =
     (if isFunctionPointerType C (cl_canonical C f) then fst ` set (ct_callbacks node) else fst ` set (ct_children node))"

definition new_paths :: "'t clang_types \<Rightarrow> 't callback_tree \<Rightarrow> (string \<times> 't) list \<Rightarrow> (string list \<times> 't) set" where
  "new_paths C node fs =
     {(name # rest, u) | name f rest u. first_member C fs name f \<and> field_path C f rest u \<and> name \<notin> taken C node f}"

lemma emplace_known: "omap_ok m \<Longrightarrow> k \<in> fst ` set m \<Longrightarrow> omap_emplace k v m = m"
proof -
  assume ok: "omap_ok m" and "k \<in> fst ` set m"
  then obtain w where "map_of m k = Some w" by (metis map_of_eq_None_iff not_None_eq)
  then have "map_of (omap_emplace k v m) = map_of m" using ok by (simp add: omap_emplace_def map_of_update fun_upd_idem)
  then show ?thesis using ok by (intro omap_eqI omap_emplace_ok)
qed

lemma set_emplace: "omap_ok m \<Longrightarrow> set (omap_emplace k v m) = (if k \<in> fst ` set m then set m else insert (k, v) (set m))"
  by (simp add: emplace_known set_emplace_new)

lemma emplace_node_ok:
  "node_ok node \<Longrightarrow> node_ok (emplace_callback name t node)" "node_ok node \<Longrightarrow> node_ok (emplace_child name c node)"
  by (simp_all add: node_ok_def emplace_callback_def emplace_child_def omap_emplace_ok)

text \<open>A member that leads to no callback changes nothing; one that does takes its name.\<close>

lemma new_paths_skip:
  assumes "\<not> has_callback C t" "\<And>rest u. \<not> field_path C t rest u"
  shows "new_paths C node ((name, t) # fs) = new_paths C node fs"
  using assms by (auto simp: new_paths_def first_member_Cons)

lemma new_paths_callback:
  assumes "isFunctionPointerType C (cl_canonical C t)" "has_callback C t" "node_ok node"
  defines "u \<equiv> cl_canonical C (pointee C (cl_canonical C t))"
  shows "set (tree_paths (emplace_callback name u node)) \<union> new_paths C (emplace_callback name u node) fs =
    set (tree_paths node) \<union> new_paths C node ((name, t) # fs)"
proof -
  let ?n = "emplace_callback name u node"
  have keys: "fst ` set (ct_callbacks ?n) = insert name (fst ` set (ct_callbacks node))" "ct_children ?n = ct_children node"
    using assms(3) by (auto simp: emplace_callback_def node_ok_def set_emplace)
  have tree: "set (tree_paths ?n) = set (tree_paths node) \<union> (if name \<in> fst ` set (ct_callbacks node) then {} else {([name], u)})"
    using assms(3) by (cases node) (auto simp: emplace_callback_def node_ok_def set_emplace)
  have head: "field_path C t rest v \<longleftrightarrow> rest = [] \<and> v = u" for rest v
    using assms(1) by (simp add: field_path_def u_def)
  have tk: "taken C ?n f = (if isFunctionPointerType C (cl_canonical C f) then insert name (taken C node f) else taken C node f)" for f
    by (simp add: taken_def keys)
  have t: "taken C node t = fst ` set (ct_callbacks node)" using assms(1) by (simp add: taken_def)
  have split: "first_member C ((name, t) # fs) n f \<and> field_path C f rest v \<and> n \<notin> taken C node f \<longleftrightarrow>
      n = name \<and> f = t \<and> name \<notin> fst ` set (ct_callbacks node) \<and> field_path C t rest v \<or>
      first_member C fs n f \<and> field_path C f rest v \<and> n \<notin> taken C ?n f" for n f rest v
    unfolding first_member_Cons tk same_kind_def using assms(1,2) t by auto
  have "new_paths C node ((name, t) # fs) =
      (if name \<in> fst ` set (ct_callbacks node) then {} else {([name], u)}) \<union> new_paths C ?n fs"
    unfolding new_paths_def split head by auto
  with tree show ?thesis by auto
qed

lemma new_paths_child:
  assumes "\<not> isFunctionPointerType C (cl_canonical C t)" "has_callback C t" "node_ok node"
    and "set (tree_paths child) = {(path, u). callback_path C (cl_canonical C t) path u}"
  shows "set (tree_paths (emplace_child name child node)) \<union> new_paths C (emplace_child name child node) fs =
    set (tree_paths node) \<union> new_paths C node ((name, t) # fs)"
proof -
  let ?n = "emplace_child name child node"
  let ?p = "{(name # rest, u) | rest u. field_path C t rest u}"
  have keys: "fst ` set (ct_children ?n) = insert name (fst ` set (ct_children node))" "ct_callbacks ?n = ct_callbacks node"
    using assms(3) by (auto simp: emplace_child_def node_ok_def set_emplace)
  have "field_path C t rest u \<longleftrightarrow> (rest, u) \<in> set (tree_paths child)" for rest u
    using assms(1,4) by (simp add: field_path_def)
  then have p: "?p = (\<lambda>(path, u). (name # path, u)) ` set (tree_paths child)" by force
  have tree: "set (tree_paths ?n) = set (tree_paths node) \<union> (if name \<in> fst ` set (ct_children node) then {} else ?p)"
    unfolding p using assms(3) by (cases node) (auto simp: emplace_child_def node_ok_def set_emplace)
  have tk: "taken C ?n f = (if isFunctionPointerType C (cl_canonical C f) then taken C node f else insert name (taken C node f))" for f
    by (simp add: taken_def keys)
  have t: "taken C node t = fst ` set (ct_children node)" using assms(1) by (simp add: taken_def)
  have split: "first_member C ((name, t) # fs) n f \<and> field_path C f rest u \<and> n \<notin> taken C node f \<longleftrightarrow>
      n = name \<and> f = t \<and> name \<notin> fst ` set (ct_children node) \<and> field_path C t rest u \<or>
      first_member C fs n f \<and> field_path C f rest u \<and> n \<notin> taken C ?n f" for n f rest u
    unfolding first_member_Cons tk same_kind_def using assms(1,2) t by auto
  have "new_paths C node ((name, t) # fs) = (if name \<in> fst ` set (ct_children node) then {} else ?p) \<union> new_paths C ?n fs"
    unfolding new_paths_def split by (cases "name \<in> fst ` set (ct_children node)") auto
  with tree show ?thesis by auto
qed

lemma build_fields_paths:
  assumes "clang_ok C"
    and "\<And>t visited tree. build C n t visited = Some tree \<Longrightarrow> ct_status tree = HasCallbacks \<Longrightarrow> cl_canonical C t = t \<Longrightarrow>
      \<not> isFunctionPointerType C t \<Longrightarrow> \<not> isFunctionType C t \<Longrightarrow> set (tree_paths tree) = {(path, u). callback_path C t path u}"
    and "build_fields C n fs visited node = Some tree" "ct_status tree = HasCallbacks" "ct_status node = HasCallbacks" "fields_ok C fs"
    and "node_ok node"
  shows "set (tree_paths tree) = set (tree_paths node) \<union> new_paths C node fs"
  using assms(3-)
proof (induction fs arbitrary: node)
  case Nil
  then show ?case by (auto simp: finish_node_def new_paths_def split: if_splits)
next
  case (Cons e fs)
  obtain name t where e: "e = (name, t)" by fastforce
  let ?c = "cl_canonical C t"
  have ok: "canonical_parts C" using assms(1) by (simp add: clang_ok_def)
  have f: "fields_ok C fs" "\<not> isFunctionType C ?c" using Cons.prems(4) by (simp_all add: fields_ok_def e)
  note r = Cons.prems(1) [unfolded e]
  note none = callback_path_has [OF assms(1) _ canonical_idem [OF ok, of t], unfolded has_callback_canonical [OF ok]]
  have skip: ?case if "\<not> isFunctionPointerType C ?c" "\<not> has_callback C t" "build_fields C n fs visited node = Some tree"
  proof -
    have "\<not> field_path C t rest u" for rest u using that(1,2) none by (auto simp: field_path_def)
    then show ?thesis
      using Cons.IH [OF that(3) Cons.prems(2,3) f(1) Cons.prems(5)] new_paths_skip [OF that(2)] by (simp add: e)
  qed
  from assms(1) show ?case
  proof (cases rule: build_field_cases [where t = t and n = n and name = name and fs = fs and visited = visited and node = node])
    case callback
    let ?n = "emplace_callback name (cl_canonical C (pointee C ?c)) node"
    have "set (tree_paths tree) = set (tree_paths ?n) \<union> new_paths C ?n fs"
      by (rule Cons.IH [OF _ Cons.prems(2) _ f(1) emplace_node_ok(1) [OF Cons.prems(5)]])
        (use callback(3) r Cons.prems(3) in simp_all)
    then show ?thesis using new_paths_callback [OF callback(1,2) Cons.prems(5)] by (simp add: e)
  next
    case cycle
    then show ?thesis using r Cons.prems(2) by auto
  next
    case skipped
    then show ?thesis using skip r by simp
  next
    case below
    from below(3) r obtain child where c: "build C n ?c (oset_insert (getTypeString C ?c) visited) = Some child"
      by (auto split: option.splits)
    note st = build_status [OF assms(1) c canonical_idem [OF ok] below(1) f(2)] has_callback_canonical [OF ok, of t]
    show ?thesis
    proof (cases "ct_status child")
      case HasCallbacks
      let ?n = "emplace_child name child node"
      have "set (tree_paths tree) = set (tree_paths ?n) \<union> new_paths C ?n fs"
        by (rule Cons.IH [OF _ Cons.prems(2) _ f(1) emplace_node_ok(2) [OF Cons.prems(5)]])
          (use below(3) c HasCallbacks r Cons.prems(3) in simp_all)
      moreover have "has_callback C t" using st HasCallbacks by simp
      ultimately show ?thesis
        using new_paths_child [OF below(1) _ Cons.prems(5) assms(2) [OF c HasCallbacks canonical_idem [OF ok] below(1) f(2)]]
        by (simp add: e)
    next
      case NoCallbacks
      then show ?thesis using skip [OF below(1)] st below(3) c r by simp
    next
      case Unsupported
      then show ?thesis using r below(3) c Cons.prems(2) by auto
    qed
  qed
qed

lemma build_paths:
  assumes "clang_ok C" "build C n t visited = Some tree" "ct_status tree = HasCallbacks"
    and "cl_canonical C t = t" "\<not> isFunctionPointerType C t" "\<not> isFunctionType C t"
  shows "set (tree_paths tree) = {(path, u). callback_path C t path u}"
  using assms(2-)
proof (induction n arbitrary: t visited tree)
  case (Suc n)
  from assms(1) Suc.prems(3-5) show ?case
  proof (cases rule: build_cases [where n = n and visited = visited])
    case (node fs)
    let ?n = "Callback_tree HasCallbacks (if isPointerType C t then ByPointer else ByValue) [] [] []"
    have "build_fields C n fs visited ?n = Some tree" using node(2) Suc.prems(1) by simp
    then have "set (tree_paths tree) = set (tree_paths ?n) \<union> new_paths C ?n fs"
      using Suc.prems(2) by (intro build_fields_paths [OF assms(1) Suc.IH _ _ _ record_fields_ok [OF assms(1) node(4)]])
        (simp_all add: node_ok_def)
    then show ?thesis by (auto simp: new_paths_def taken_def callback_path_fields [OF node(1)])
  qed (use Suc.prems(1,2) in auto)
qed simp

end
