(* ===== verification/Adapt_Filters.thy ===== *)
theory Adapt_Filters
  imports Default_Builder
begin

text \<open>
  Passes that write into the adaptor of a proc the builder has filled: conversions of arguments and
  results by type (\<open>src/tools/TLC/Passes/Guard/TypeFilter.cpp\<close>) and of looked-up function addresses
  (\<open>src/tools/TLC/Passes/Misc/GetProcAddress.cpp\<close>).
\<close>

subsection \<open>Writing into the adaptor\<close>

definition push_forward :: "string \<Rightarrow> string \<Rightarrow> 't ProcSource \<Rightarrow> 't ProcSource" where
  "push_forward key txt src = src\<lparr>src_body := (src_body src)\<lparr>bs_forward := line_push_back key txt (bs_forward (src_body src))\<rparr>\<rparr>"

definition push_backward :: "string \<Rightarrow> string \<Rightarrow> 't ProcSource \<Rightarrow> 't ProcSource" where
  "push_backward key txt src = src\<lparr>src_body := (src_body src)\<lparr>bs_backward := line_push_back key txt (bs_backward (src_body src))\<rparr>\<rparr>"

definition on_adapt :: "('t ProcSource \<Rightarrow> 't ProcSource option) \<Rightarrow> 't ProcSnippet \<Rightarrow> 't ProcSnippet option" where
  "on_adapt f p = map_option (\<lambda>src. p\<lparr>ps_sources := (ps_sources p)(Adapt := src)\<rparr>) (f (ps_sources p Adapt))"

subsection \<open>Filters of types\<close>

text \<open>The specializations of the two filter templates, by the type they filter.\<close>

record type_filters =
  tf_procArgFilters :: "string list"
  tf_procRetFilters :: "string list"

record filter_message =
  fl_filteredArgIndexes :: "nat list"
  fl_filterRet :: bool

datatype 't filter_match = Arg_filter "'t template_arg list" | Return_filter "'t template_arg list"

definition getFilterType :: "'t clang_types \<Rightarrow> 't template_arg list \<Rightarrow> 't option" where
  "getFilterType C tArgs = (case tArgs of [Type_arg t] \<Rightarrow> Some (cl_canonical C t) | _ \<Rightarrow> None)"

definition add_filter :: "'t clang_types \<Rightarrow> 't filter_match \<Rightarrow> type_filters \<Rightarrow> type_filters" where
  "add_filter C item fs =
     (case item of
        Arg_filter tArgs \<Rightarrow>
          (case getFilterType C tArgs of
             None \<Rightarrow> fs
           | Some t \<Rightarrow> fs\<lparr>tf_procArgFilters := oset_insert (getTypeString C t) (tf_procArgFilters fs)\<rparr>)
      | Return_filter tArgs \<Rightarrow>
          (case getFilterType C tArgs of
             None \<Rightarrow> fs
           | Some t \<Rightarrow> fs\<lparr>tf_procRetFilters := oset_insert (getTypeString C t) (tf_procRetFilters fs)\<rparr>))"

definition filter_handleTranslationUnit :: "'t clang_types \<Rightarrow> 't filter_match list \<Rightarrow> type_filters \<Rightarrow> type_filters" where
  "filter_handleTranslationUnit C matches = fold (add_filter C) matches"

text \<open>A signature without a result type is undefined here.\<close>

definition filter_testProc :: "'t clang_types \<Rightarrow> type_filters \<Rightarrow> 't ProcSnippet \<Rightarrow> filter_message option option" where
  "filter_testProc C fs p =
     (let view = ps_realFunctionTypeView p;
          filteredArgIndexes = filter (\<lambda>i. getTypeString C (cl_canonical C (fv_argTypes view ! i)) \<in> set (tf_procArgFilters fs))
            [0..<length (fv_argTypes view)]
      in map_option (\<lambda>ret.
           let filterRet = getTypeString C (cl_canonical C ret) \<in> set (tf_procRetFilters fs)
           in if filteredArgIndexes = [] \<and> \<not> filterRet then None
              else Some \<lparr>fl_filteredArgIndexes = filteredArgIndexes, fl_filterRet = filterRet\<rparr>)
         (fv_returnType view))"

definition getProcDescType :: "'t ProcSnippet \<Rightarrow> string option" where
  "getProcDescType p = format (if isCallback p then ''ProcCbDesc<%1>'' else ''ProcFnDesc<%1>'') [ps_name p]"

definition getProcKind :: "'t ProcSnippet \<Rightarrow> string" where
  "getProcKind p = (if isCallback p then ''Callback'' else ''Function'')"

definition getArgFilterStatement :: "'t clang_types \<Rightarrow> 't FunctionInfo \<Rightarrow> 't ProcSnippet \<Rightarrow> nat \<Rightarrow> string option" where
  "getArgFilterStatement C FI p idx = do {
     desc \<leftarrow> getProcDescType p;
     name \<leftarrow> argumentName FI (int idx);
     format ''ProcArgFilter<%1>::filter<%2, %3, %4, %5>(%6, ProcArgContext(%7));''
       [getTypeString C (cl_canonical C (fv_argTypes (ps_realFunctionTypeView p) ! idx)), desc, std_to_string idx,
        getProcKind p, direction_name (ps_direction p), name, SRC_callList FI]
   }"

definition getRetFilterStatement :: "'t clang_types \<Rightarrow> 't FunctionInfo \<Rightarrow> 't ProcSnippet \<Rightarrow> string option" where
  "getRetFilterStatement C FI p = do {
     ret \<leftarrow> fv_returnType (ps_realFunctionTypeView p);
     desc \<leftarrow> getProcDescType p;
     format ''ProcReturnFilter<%1>::filter<%2, %3, %4>(ret, ProcArgContext(%5));''
       [getTypeString C (cl_canonical C ret), desc, getProcKind p, direction_name (ps_direction p), SRC_callList FI]
   }"

text \<open>
  The names are those of the adaptor's signature. The sender's and the receiver's adaptor get the same
  text, one of the two is the source of this side.
\<close>

definition adapt_info :: "'t ProcSnippet \<Rightarrow> 't FunctionInfo" where
  "adapt_info p =
     (let adaptFI = src_functionInfo (ps_sources p Adapt)
      in if fi_returnType adaptFI \<noteq> None then adaptFI else info_of_view (ps_realFunctionTypeView p))"

definition filter_beginHandleProc :: "'t clang_types \<Rightarrow> filter_message \<Rightarrow> 't ProcSnippet \<Rightarrow> 't ProcSnippet option" where
  "filter_beginHandleProc C m p =
     (let FI = adapt_info p; key = ''TypeFilter'' in
      on_adapt (\<lambda>ADP. do {
        ADP \<leftarrow> for_each (\<lambda>idx src. map_option (\<lambda>s. push_forward key (SRC_asIs s) src) (getArgFilterStatement C FI p idx))
          (fl_filteredArgIndexes m) ADP;
        if fl_filterRet m then map_option (\<lambda>s. push_backward key (SRC_asIs s) ADP) (getRetFilterStatement C FI p)
        else Some ADP
      }) p)"

subsection \<open>Looked-up addresses\<close>

text \<open>The position of the name among the parameters, from 1.\<close>

definition ID_GetProcAddress :: int where
  "ID_GetProcAddress = 7"

definition gpa_testProc :: "'t clang_types \<Rightarrow> 't ProcSnippet \<Rightarrow> int option" where
  "gpa_testProc C p =
     (let argTypes = fv_argTypes (ps_realFunctionTypeView p);
          inferred = (if argTypes \<noteq> [] \<and> isCharPointerType C (List.last argTypes) then Some (int (length argTypes)) else None)
      in case getIntegralArgumentsInPass C 1 p False ID_GetProcAddress of
           Some args \<Rightarrow> if args ! 0 < 0 then inferred else Some (args ! 0)
         | None \<Rightarrow> if contains (ps_name p) ''GetProcAddress'' then inferred else None)"

definition gpa_beginHandleProc :: "Mode \<Rightarrow> int \<Rightarrow> 't ProcSnippet \<Rightarrow> 't ProcSnippet option" where
  "gpa_beginHandleProc mode nameIndex p =
     (if ps_kind p \<noteq> Function \<and> ps_direction p \<noteq> GuestToHost then Some p
      else if mode \<noteq> Guest then Some p
      else on_adapt (\<lambda>GADP.
        map_option (\<lambda>name. push_backward ''GetProcAddress''
          (SRC_asIs (''ret = (decltype(ret)) mod::GuestClient::convertHostProcAddress((const char *) '' @ name @ '', (void *) ret);'')) GADP)
        (argumentName (src_functionInfo GADP) (nameIndex - 1))) p)"

subsection \<open>What is filtered\<close>

lemma getProcDescType_text [formats]:
  "getProcDescType p = Some ((if isCallback p then ''ProcCbDesc<'' else ''ProcFnDesc<'') @ ps_name p @ ''>'')"
  by (simp add: getProcDescType_def format_eq_ref is_digit_def digits_value_def digit_val_def int_max_def)

lemma arg_filter_format [formats]:
  "format ''ProcArgFilter<%1>::filter<%2, %3, %4, %5>(%6, ProcArgContext(%7));'' [t, desc, idx, kind, dir, name, args] =
     Some (''ProcArgFilter<'' @ t @ ''>::filter<'' @ desc @ '', '' @ idx @ '', '' @ kind @ '', '' @ dir @ ''>('' @ name @
       '', ProcArgContext('' @ args @ ''));'')"
  by (simp add: format_eq_ref is_digit_def digits_value_def digit_val_def int_max_def)

lemma ret_filter_format [formats]:
  "format ''ProcReturnFilter<%1>::filter<%2, %3, %4>(ret, ProcArgContext(%5));'' [t, desc, kind, dir, args] =
     Some (''ProcReturnFilter<'' @ t @ ''>::filter<'' @ desc @ '', '' @ kind @ '', '' @ dir @ ''>(ret, ProcArgContext('' @ args @ ''));'')"
  by (simp add: format_eq_ref is_digit_def digits_value_def digit_val_def int_max_def)

text \<open>The statement for the \<open>i\<close>-th parameter, on the name \<open>x\<close>, in an adaptor with the parameters \<open>names\<close>.\<close>

definition arg_filter_text :: "'t clang_types \<Rightarrow> 't ProcSnippet \<Rightarrow> string list \<Rightarrow> nat \<Rightarrow> string \<Rightarrow> string" where
  "arg_filter_text C p names i x =
     (let t = getTypeString C (cl_canonical C (fv_argTypes (ps_realFunctionTypeView p) ! i)) in
      blanks 4 @ ''ProcArgFilter<'' @ t @ ''>::filter<'' @ (if isCallback p then ''ProcCbDesc<'' else ''ProcFnDesc<'') @ ps_name p @ ''>, '' @
      std_to_string i @ '', '' @ getProcKind p @ '', '' @ direction_name (ps_direction p) @ ''>('' @ x @
      '', ProcArgContext('' @ comma_sep names @ ''));'' @ eol)"

definition ret_filter_text :: "'t clang_types \<Rightarrow> 't ProcSnippet \<Rightarrow> string list \<Rightarrow> 't \<Rightarrow> string" where
  "ret_filter_text C p names r =
     blanks 4 @ ''ProcReturnFilter<'' @ getTypeString C (cl_canonical C r) @ ''>::filter<'' @
     (if isCallback p then ''ProcCbDesc<'' else ''ProcFnDesc<'') @ ps_name p @ ''>, '' @
     getProcKind p @ '', '' @ direction_name (ps_direction p) @ ''>(ret, ProcArgContext('' @ comma_sep names @ ''));'' @ eol"

lemma getArgFilterStatement_text:
  "i < length (fi_args FI) \<Longrightarrow> map_option SRC_asIs (getArgFilterStatement C FI p i) =
     Some (arg_filter_text C p (map snd (fi_args FI)) i (map snd (fi_args FI) ! i))"
  by (simp add: getArgFilterStatement_def formats argumentName_def SRC_asIs_def arg_filter_text_def Let_def callList_text)

lemma getRetFilterStatement_text:
  "fv_returnType (ps_realFunctionTypeView p) = Some r \<Longrightarrow>
     map_option SRC_asIs (getRetFilterStatement C FI p) = Some (ret_filter_text C p (map snd (fi_args FI)) r)"
  by (simp add: getRetFilterStatement_def formats SRC_asIs_def ret_filter_text_def callList_text)

definition forward_text :: "'t ProcSnippet \<Rightarrow> string" where
  "forward_text p = lines_text (bs_forward (src_body (ps_sources p Adapt)))"

definition backward_text :: "'t ProcSnippet \<Rightarrow> string" where
  "backward_text p = lines_text (bs_backward (src_body (ps_sources p Adapt)))"

lemma push_forward_each:
  assumes "\<And>i. i \<in> set is \<Longrightarrow> map_option SRC_asIs (stmt i) = Some (txt i)"
  shows "\<exists>src'. for_each (\<lambda>i src. map_option (\<lambda>s. push_forward key (SRC_asIs s) src) (stmt i)) is src = Some src' \<and>
    lines_text (bs_forward (src_body src')) = lines_text (bs_forward (src_body src)) @ concat (map txt is) \<and>
    bs_backward (src_body src') = bs_backward (src_body src)"
  using assms
proof (induction "is" arbitrary: src)
  case (Cons i "is")
  from Cons.prems [of i] obtain s where s: "stmt i = Some s" "SRC_asIs s = txt i" by auto
  show ?case
    using Cons.IH [OF Cons.prems, of "push_forward key (txt i) src"] by (auto simp: s push_forward_def)
qed simp

lemma filter_begin_text:
  assumes "fv_returnType (ps_realFunctionTypeView p) = Some r"
    and "\<forall>i \<in> set (fl_filteredArgIndexes m). i < length (fi_args (adapt_info p))"
  shows "\<exists>p'. filter_beginHandleProc C m p = Some p' \<and>
    (let names = map snd (fi_args (adapt_info p)) in
     forward_text p' = forward_text p @ concat (map (\<lambda>i. arg_filter_text C p names i (names ! i)) (fl_filteredArgIndexes m)) \<and>
     backward_text p' = backward_text p @ (if fl_filterRet m then ret_filter_text C p names r else []))"
proof -
  let ?FI = "adapt_info p"
  from push_forward_each [of "fl_filteredArgIndexes m" "getArgFilterStatement C ?FI p"
      "\<lambda>i. arg_filter_text C p (map snd (fi_args ?FI)) i (map snd (fi_args ?FI) ! i)" "''TypeFilter''" "ps_sources p Adapt"]
    getArgFilterStatement_text [of _ ?FI C p] assms(2)
  obtain src' where f: "for_each (\<lambda>i src. map_option (\<lambda>s. push_forward ''TypeFilter'' (SRC_asIs s) src) (getArgFilterStatement C ?FI p i))
        (fl_filteredArgIndexes m) (ps_sources p Adapt) = Some src'"
    "lines_text (bs_forward (src_body src')) = forward_text p @
       concat (map (\<lambda>i. arg_filter_text C p (map snd (fi_args ?FI)) i (map snd (fi_args ?FI) ! i)) (fl_filteredArgIndexes m))"
    "bs_backward (src_body src') = bs_backward (src_body (ps_sources p Adapt))"
    by (auto simp: forward_text_def)
  from getRetFilterStatement_text [OF assms(1), of C ?FI] obtain s where
    s: "getRetFilterStatement C ?FI p = Some s" "SRC_asIs s = ret_filter_text C p (map snd (fi_args ?FI)) r" by auto
  show ?thesis
    by (simp add: filter_beginHandleProc_def Let_def on_adapt_def f(1) s forward_text_def [of "p\<lparr>ps_sources := _\<rparr>"] f(2,3)
        backward_text_def push_backward_def)
qed

text \<open>The adaptor as the default builder leaves it.\<close>

lemma default_adapt:
  assumes "fv_returnType (ps_realFunctionTypeView p) = Some r" "ps_sources p = (\<lambda>_. empty_source)"
  shows "\<exists>src. default_beginHandleProc C mode p = Some (p\<lparr>ps_sources := src\<rparr>) \<and>
    map snd (fi_args (adapt_info (p\<lparr>ps_sources := src\<rparr>))) = inner_names (isCallback p) (arg_names (length (fv_argTypes (ps_realFunctionTypeView p)))) \<and>
    forward_text (p\<lparr>ps_sources := src\<rparr>) = [] \<and> backward_text (p\<lparr>ps_sources := src\<rparr>) = [] \<and>
    fi_returnType (src_functionInfo (src Adapt)) \<noteq> None"
proof -
  let ?FI = "info_of_view (ps_realFunctionTypeView p)"
  have r: "fi_returnType ?FI = Some r" "fi_returnType (with_callback C ?FI) = Some r" using assms(1) by (simp_all add: info_of_view_def with_callback_def)
  note t = emptyReturnDecl_text [OF r(1), of C] returnRet_text [OF r(1), of C] retExtractDecl_text [OF r(1), of C]
    callListAssign_text [OF r(1), of C] callListAssign_text [OF r(2), of C]
  note writes = route_def default_function_sender_def default_function_receiver_def default_callback_sender_def default_callback_receiver_def
    formats t push_epilog_def push_center_def push_prolog_def with_info_def empty_source_def empty_body_def
  have fn: "\<exists>src. route sender (default_function_sender C key name dir isVoid ?FI) (default_function_receiver C key name dir ?FI) (\<lambda>_. empty_source) = Some src \<and>
      src_functionInfo (src Adapt) = ?FI \<and> bs_forward (src_body (src Adapt)) = [] \<and> bs_backward (src_body (src Adapt)) = []"
    for sender key name dir isVoid
    by (cases sender) (simp_all add: writes)
  have cb: "\<exists>src. route sender (default_callback_sender C key name dir isG2H isVoid ?FI (with_callback C ?FI))
        (default_callback_receiver C key name dir ?FI (with_callback C ?FI)) (\<lambda>_. empty_source) = Some src \<and>
      src_functionInfo (src Adapt) = with_callback C ?FI \<and> bs_forward (src_body (src Adapt)) = [] \<and> bs_backward (src_body (src Adapt)) = []"
    for sender key name dir isG2H isVoid
    by (cases sender) (simp_all add: writes)
  define n where "n = length (fv_argTypes (ps_realFunctionTypeView p))"
  have nc: "map snd (fi_args (with_callback C ?FI)) = ''callback'' # arg_names n" "map snd (fi_args ?FI) = arg_names n"
    by (simp_all add: with_callback_def info_names n_def)
  have k: "isFunction p \<longleftrightarrow> \<not> isCallback p" by (rule kind_cases)
  obtain src where "default_beginHandleProc C mode p = Some (p\<lparr>ps_sources := src\<rparr>)"
    "src_functionInfo (src Adapt) = (if isCallback p then with_callback C ?FI else ?FI)"
    "bs_forward (src_body (src Adapt)) = []" "bs_backward (src_body (src Adapt)) = []"
  proof (cases "isCallback p")
    case True
    then have f: "\<not> isFunction p" by (simp add: k)
    from cb [of "is_sender mode (ps_direction p)" "''DefaultBuilder''" "ps_name p" "direction_name (ps_direction p)" "ps_direction p = GuestToHost" "isVoidType C r"]
    show thesis using True f that by (auto simp: default_beginHandleProc_def Let_def dir_name assms)
  next
    case False
    then have f: "isFunction p" by (simp add: k)
    from fn [of "is_sender mode (ps_direction p)" "''DefaultBuilder''" "ps_name p" "direction_name (ps_direction p)" "isVoidType C r"]
    show thesis using False f that by (auto simp: default_beginHandleProc_def Let_def dir_name assms)
  qed
  then show ?thesis
    by (intro exI [of _ src]) (simp add: adapt_info_def Let_def r forward_text_def backward_text_def inner_names_def nc n_def [symmetric])
qed

lemma inner_names_length: "length (inner_names withCallback (arg_names n)) = (if withCallback then Suc n else n)"
  by (simp add: inner_names_def arg_names_def)

lemma argumentName_nth:
  assumes "map snd (fi_args info) = names" "i < length names"
  shows "argumentName info (int i) = Some (names ! i)"
  using assms by (auto simp: argumentName_def)

lemma kind_sources [simp]: "isCallback (p\<lparr>ps_sources := src\<rparr>) = isCallback p"
  by (simp add: isCallback_def)

text \<open>What a pass that counts the parameters of the proc finds in the adaptor at position \<open>i\<close>.\<close>

definition adapt_param :: "'t ProcSnippet \<Rightarrow> nat \<Rightarrow> string" where
  "adapt_param p i =
     (let names = arg_names (length (fv_argTypes (ps_realFunctionTypeView p)))
      in if \<not> isCallback p then names ! i else if i = 0 then ''callback'' else names ! (i - 1))"

lemma inner_names_nth:
  "inner_names (isCallback p) (arg_names (length (fv_argTypes (ps_realFunctionTypeView p)))) ! i = adapt_param p i"
  by (cases i) (simp_all add: inner_names_def adapt_param_def)

text \<open>
  C34. For a proc the default builder has filled, the type filter puts one statement into the adaptor for
  every parameter whose canonical type has a filter, in the order of the parameters, and one for the
  result if its type has one. In a function's adaptor the statement for a parameter works on that parameter;
  in a callback's, whose first parameter is the callback, on the one before it, and on the callback itself for
  the first.
\<close>

theorem type_filter_statements:
  assumes "fv_returnType (ps_realFunctionTypeView p) = Some r" "ps_sources p = (\<lambda>_. empty_source)"
    and "filter_testProc C fs p = Some (Some m)"
  shows "\<exists>p1 p2. default_beginHandleProc C mode p = Some p1 \<and> filter_beginHandleProc C m p1 = Some p2 \<and>
    (let types = fv_argTypes (ps_realFunctionTypeView p); n = length types;
         names = inner_names (isCallback p) (arg_names n) in
     forward_text p2 = concat (map (\<lambda>i. arg_filter_text C p names i (adapt_param p i))
       (filter (\<lambda>i. getTypeString C (cl_canonical C (types ! i)) \<in> set (tf_procArgFilters fs)) [0..<n])) \<and>
     backward_text p2 = (if getTypeString C (cl_canonical C r) \<in> set (tf_procRetFilters fs) then ret_filter_text C p names r else []))"
proof -
  let ?types = "fv_argTypes (ps_realFunctionTypeView p)"
  let ?n = "length ?types"
  let ?names = "inner_names (isCallback p) (arg_names ?n)"
  from default_adapt [OF assms(1,2), of C mode] obtain src where d: "default_beginHandleProc C mode p = Some (p\<lparr>ps_sources := src\<rparr>)"
    "map snd (fi_args (adapt_info (p\<lparr>ps_sources := src\<rparr>))) = ?names"
    "forward_text (p\<lparr>ps_sources := src\<rparr>) = []" "backward_text (p\<lparr>ps_sources := src\<rparr>) = []" by blast
  have m: "fl_filteredArgIndexes m = filter (\<lambda>i. getTypeString C (cl_canonical C (?types ! i)) \<in> set (tf_procArgFilters fs)) [0..<?n]"
    "fl_filterRet m \<longleftrightarrow> getTypeString C (cl_canonical C r) \<in> set (tf_procRetFilters fs)"
    using assms(1,3) by (auto simp: filter_testProc_def Let_def split: if_splits)
  have l: "length ?names = (if isCallback p then Suc ?n else ?n)" by (simp add: inner_names_def arg_names_def)
  then have "\<forall>i \<in> set (fl_filteredArgIndexes m). i < length (fi_args (adapt_info (p\<lparr>ps_sources := src\<rparr>)))"
    unfolding d(2) [symmetric] length_map m(1) by (auto split: if_splits)
  with filter_begin_text [of "p\<lparr>ps_sources := src\<rparr>" r m C] assms(1) obtain p2 where
    b: "filter_beginHandleProc C m (p\<lparr>ps_sources := src\<rparr>) = Some p2"
    "forward_text p2 = concat (map (\<lambda>i. arg_filter_text C (p\<lparr>ps_sources := src\<rparr>) ?names i (?names ! i)) (fl_filteredArgIndexes m))"
    "backward_text p2 = (if fl_filterRet m then ret_filter_text C (p\<lparr>ps_sources := src\<rparr>) ?names r else [])"
    by (auto simp: d Let_def)
  have same: "arg_filter_text C (p\<lparr>ps_sources := src\<rparr>) = arg_filter_text C p" "ret_filter_text C (p\<lparr>ps_sources := src\<rparr>) = ret_filter_text C p"
    by (simp_all add: fun_eq_iff arg_filter_text_def ret_filter_text_def getProcKind_def)
  show ?thesis
    by (rule exI [of _ "p\<lparr>ps_sources := src\<rparr>"], rule exI [of _ p2]) (simp add: d(1) b same inner_names_nth m Let_def)
qed

definition demo_callback :: "plain_type ProcSnippet" where
  "demo_callback = (bare_proc Callback HostToGuest None (\<lambda>_. 0))\<lparr>ps_name := ''cb'',
     ps_realFunctionTypeView := \<lparr>fv_returnType = Some CInt, fv_argTypes = [CInt], fv_variadic = False\<rparr>\<rparr>"

lemma demo_callback_view:
  "isCallback demo_callback" "fv_argTypes (ps_realFunctionTypeView demo_callback) = [CInt]"
  "adapt_param demo_callback 0 = ''callback''" "inner_names True (arg_names (Suc 0)) = [''callback'', ''arg1'']" "getTypeString plain_c (cl_canonical plain_c CInt) = ''int''"
  by code_simp+

theorem type_filter_statements_witness:
  "\<exists>p1 p2. default_beginHandleProc plain_c Host demo_callback = Some p1 \<and>
     filter_beginHandleProc plain_c \<lparr>fl_filteredArgIndexes = [0], fl_filterRet = False\<rparr> p1 = Some p2 \<and>
     forward_text p2 = ''    ProcArgFilter<int>::filter<ProcCbDesc<cb>, 0, Callback, HostToGuest>(callback, ProcArgContext(callback, arg1));'' @ eol"
proof -
  let ?fs = "\<lparr>tf_procArgFilters = [''int''], tf_procRetFilters = []\<rparr>"
  have "fv_returnType (ps_realFunctionTypeView demo_callback) = Some CInt" "ps_sources demo_callback = (\<lambda>_. empty_source)"
    by (simp_all add: demo_callback_def bare_proc_def)
  moreover have "filter_testProc plain_c ?fs demo_callback = Some (Some \<lparr>fl_filteredArgIndexes = [0], fl_filterRet = False\<rparr>)"
    by code_simp
  ultimately have *: "\<exists>p1 p2. default_beginHandleProc plain_c Host demo_callback = Some p1 \<and>
     filter_beginHandleProc plain_c \<lparr>fl_filteredArgIndexes = [0], fl_filterRet = False\<rparr> p1 = Some p2 \<and>
     forward_text p2 = arg_filter_text plain_c demo_callback [''callback'', ''arg1''] 0 ''callback''"
    using type_filter_statements [of demo_callback CInt plain_c ?fs _ Host] by (auto simp: demo_callback_view Let_def)
  moreover have "arg_filter_text plain_c demo_callback [''callback'', ''arg1''] 0 ''callback'' =
      ''    ProcArgFilter<int>::filter<ProcCbDesc<cb>, 0, Callback, HostToGuest>(callback, ProcArgContext(callback, arg1));'' @ eol"
    by code_simp
  ultimately show ?thesis by simp
qed

text \<open>
  C35. In a guest document, a proc whose last parameter is a string and whose name says that it looks up
  functions gets the conversion of its result behind the call: an address the host returns is replaced by the guest's
  function of that name. A function's adaptor takes the name from the last parameter; a callback's (towards the host), whose
  first parameter is the callback, from the one before it, and from the callback itself if there is one
  parameter only. Nothing is written in a host document.
\<close>

theorem looked_up_addresses_converted:
  assumes "fv_returnType (ps_realFunctionTypeView p) = Some r" "ps_sources p = (\<lambda>_. empty_source)"
    and "isFunction p \<or> ps_direction p = GuestToHost" "ps_desc p = None" "contains (ps_name p) ''GetProcAddress''"
    and "fv_argTypes (ps_realFunctionTypeView p) \<noteq> []" "isCharPointerType C (List.last (fv_argTypes (ps_realFunctionTypeView p)))"
  shows "\<exists>index p1 p2. gpa_testProc C p = Some index \<and> default_beginHandleProc C mode p = Some p1 \<and>
    gpa_beginHandleProc mode index p1 = Some p2 \<and>
    backward_text p2 = (if mode = Guest
      then blanks 4 @ ''ret = (decltype(ret)) mod::GuestClient::convertHostProcAddress((const char *) '' @
        adapt_param p (length (fv_argTypes (ps_realFunctionTypeView p)) - 1) @ '', (void *) ret);'' @ eol
      else [])"
proof -
  define n where "n = length (fv_argTypes (ps_realFunctionTypeView p))"
  define stm where "stm = SRC_asIs (''ret = (decltype(ret)) mod::GuestClient::convertHostProcAddress((const char *) '' @ adapt_param p (n - 1) @ '', (void *) ret);'')"
  have n: "n \<noteq> 0" "length (arg_names n) = n" using assms(6) by (simp_all add: n_def arg_names_def)
  from default_adapt [OF assms(1,2), of C mode] obtain src where d: "default_beginHandleProc C mode p = Some (p\<lparr>ps_sources := src\<rparr>)"
    "map snd (fi_args (adapt_info (p\<lparr>ps_sources := src\<rparr>))) = inner_names (isCallback p) (arg_names n)"
    "backward_text (p\<lparr>ps_sources := src\<rparr>) = []"
    "fi_returnType (src_functionInfo (src Adapt)) \<noteq> None" by (auto simp: n_def)
  have names: "map snd (fi_args (src_functionInfo (src Adapt))) = inner_names (isCallback p) (arg_names n)"
    using d(2,4) by (simp add: adapt_info_def Let_def)
  have i: "argumentName (src_functionInfo (src Adapt)) (int n - 1) = Some (adapt_param p (n - 1))"
    using argumentName_nth [OF names, of "n - 1"] n inner_names_nth [of p "n - 1", folded n_def]
    by (cases "isCallback p") (simp_all add: inner_names_length)
  have t: "gpa_testProc C p = Some (int n)"
    using assms(4-7) by (simp add: gpa_testProc_def getIntegralArgumentsInPass_def n_def Let_def)
  have k: "\<not> (ps_kind p \<noteq> Function \<and> ps_direction p \<noteq> GuestToHost)" using assms(3) by (auto simp: isFunction_def)
  have s: "stm = blanks 4 @ ''ret = (decltype(ret)) mod::GuestClient::convertHostProcAddress((const char *) '' @ adapt_param p (n - 1) @ '', (void *) ret);'' @ eol"
    by (simp add: stm_def SRC_asIs_def)
  have "\<exists>p2. gpa_beginHandleProc mode (int n) (p\<lparr>ps_sources := src\<rparr>) = Some p2 \<and> backward_text p2 = (if mode = Guest then stm else [])"
  proof (cases mode)
    case Guest
    have "gpa_beginHandleProc mode (int n) (p\<lparr>ps_sources := src\<rparr>) =
        Some (p\<lparr>ps_sources := src(Adapt := push_backward ''GetProcAddress'' stm (src Adapt))\<rparr>)"
      using k by (auto simp: gpa_beginHandleProc_def Guest on_adapt_def i stm_def)
    moreover have "backward_text (p\<lparr>ps_sources := src(Adapt := push_backward ''GetProcAddress'' stm (src Adapt))\<rparr>) = stm"
      using d(3) by (simp add: backward_text_def push_backward_def)
    ultimately show ?thesis using Guest by simp
  qed (simp add: gpa_beginHandleProc_def d(3))
  then show ?thesis using t d(1) unfolding s n_def by blast
qed

definition demo_lookup :: "plain_type ProcSnippet" where
  "demo_lookup = (bare_proc Function GuestToHost None (\<lambda>_. 0))\<lparr>ps_name := ''glGetProcAddress'',
     ps_realFunctionTypeView := \<lparr>fv_returnType = Some CInt, fv_argTypes = [CPtr CChar], fv_variadic = False\<rparr>\<rparr>"

theorem looked_up_addresses_converted_witness:
  "\<exists>index p1 p2. gpa_testProc plain_c demo_lookup = Some index \<and> default_beginHandleProc plain_c Guest demo_lookup = Some p1 \<and>
    gpa_beginHandleProc Guest index p1 = Some p2 \<and>
    backward_text p2 = ''    ret = (decltype(ret)) mod::GuestClient::convertHostProcAddress((const char *) arg1, (void *) ret);'' @ eol"
proof -
  have h: "fv_returnType (ps_realFunctionTypeView demo_lookup) = Some CInt" "ps_sources demo_lookup = (\<lambda>_. empty_source)" "isFunction demo_lookup"
    "ps_desc demo_lookup = None" "fv_argTypes (ps_realFunctionTypeView demo_lookup) = [CPtr CChar]"
    by (simp_all add: demo_lookup_def bare_proc_def isFunction_def)
  have c: "contains (ps_name demo_lookup) ''GetProcAddress''" "isCharPointerType plain_c (CPtr CChar)" "adapt_param demo_lookup 0 = ''arg1''"
    by code_simp+
  have t: "blanks 4 @ ''ret = (decltype(ret)) mod::GuestClient::convertHostProcAddress((const char *) '' @ ''arg1'' @ '', (void *) ret);'' @ eol =
      ''    ret = (decltype(ret)) mod::GuestClient::convertHostProcAddress((const char *) arg1, (void *) ret);'' @ eol" by code_simp
  show ?thesis using looked_up_addresses_converted [OF h(1,2) disjI1 [OF h(3)] h(4) c(1), of plain_c Guest] c(2,3) unfolding h(5) t [symmetric] by simp
qed

end
