(* ===== verification/Callback_Substituter.thy ===== *)
theory Callback_Substituter
  imports Callback_Tree Adapt_Filters
begin

text \<open>
  The pass that wraps the callbacks among the arguments of a proc
  (\<open>src/tools/TLC/Passes/Guard/CallbackSubstituter.cpp\<close>): the tree of all arguments, the code
  that walks it before and after the call, and where that code goes.
\<close>

subsection \<open>The arguments as one tree\<close>

definition emplace_out :: "string \<Rightarrow> 't \<Rightarrow> 't callback_tree \<Rightarrow> 't callback_tree" where
  "emplace_out name t node =
     Callback_tree (ct_status node) (ct_reach node) (ct_callbacks node) (ct_children node) (omap_emplace name t (ct_outCallbacks node))"

type_synonym 't tree_cache = "(string \<times> 't callback_tree) list"

definition cached_tree :: "'t clang_types \<Rightarrow> nat \<Rightarrow> 't \<Rightarrow> 't tree_cache \<Rightarrow> ('t tree_cache \<times> 't callback_tree) option" where
  "cached_tree C n canon cache =
     (let typeStr = getTypeString C canon in
      case map_of cache typeStr of
        Some tree \<Rightarrow> Some (cache, tree)
      | None \<Rightarrow> map_option (\<lambda>tree. (omap_emplace typeStr tree cache, tree)) (build C n canon []))"

fun argument_tree ::
    "'t clang_types \<Rightarrow> nat \<Rightarrow> ('t option \<times> string) list \<Rightarrow> 't tree_cache \<Rightarrow> 't callback_tree \<Rightarrow> ('t tree_cache \<times> 't callback_tree) option" where
  "argument_tree C n [] cache root =
     Some (cache, if ct_callbacks root = [] \<and> ct_children root = [] \<and> ct_outCallbacks root = [] then status_tree NoCallbacks else root)"
| "argument_tree C n ((None, name) # args) cache root = None"
| "argument_tree C n ((Some t, name) # args) cache root =
     (let canon = cl_canonical C t in
      if isFunctionPointerType C canon
      then argument_tree C n args cache (emplace_callback name (cl_canonical C (pointee C canon)) root)
      else if isPointerType C canon \<and> isFunctionPointerType C (pointee C canon)
      then argument_tree C n args cache (emplace_out name (cl_canonical C (pointee C (pointee C canon))) root)
      else
        (case cached_tree C n canon cache of
           None \<Rightarrow> None
         | Some (cache, argTree) \<Rightarrow>
             (case ct_status argTree of
                Unsupported \<Rightarrow> Some (cache, status_tree Unsupported)
              | HasCallbacks \<Rightarrow> argument_tree C n args cache (emplace_child name argTree root)
              | NoCallbacks \<Rightarrow> argument_tree C n args cache root)))"

definition buildArgumentTree :: "'t clang_types \<Rightarrow> nat \<Rightarrow> 't FunctionInfo \<Rightarrow> 't tree_cache \<Rightarrow> ('t tree_cache \<times> 't callback_tree) option" where
  "buildArgumentTree C n info cache = argument_tree C n (fi_args info) cache (status_tree HasCallbacks)"

definition callback_testProc ::
    "'t clang_types \<Rightarrow> nat \<Rightarrow> 't ProcSnippet \<Rightarrow> 't tree_cache \<Rightarrow> ('t tree_cache \<times> 't callback_tree option) option" where
  "callback_testProc C n p cache =
     map_option (\<lambda>(cache, tree). (cache, if ct_status tree = NoCallbacks then None else Some tree))
       (buildArgumentTree C n (info_of_view (ps_realFunctionTypeView p)) cache)"

subsection \<open>Emitting code\<close>

definition indent :: "nat \<Rightarrow> string" where
  "indent level = blanks (level * 4)"

definition bool_name :: "bool \<Rightarrow> string" where
  "bool_name b = (if b then ''true'' else ''false'')"

text \<open>The declarations and the test on the way to a child.\<close>

definition enter_child :: "string \<Rightarrow> string \<Rightarrow> string \<Rightarrow> string \<Rightarrow> string \<Rightarrow> bool \<Rightarrow> string" where
  "enter_child pad var valExpr ctxExpr name byValue =
     pad @ ''auto '' @ var @ '' = '' @ (if byValue then ''&'' else []) @ valExpr @ name @ '';'' @ eol @
     pad @ ''auto '' @ var @ ''_ctx = &'' @ ctxExpr @ name @ '';'' @ eol @
     pad @ ''if ('' @ (if byValue then ''1'' else var) @ '') {'' @ eol"

definition init_line :: "string \<Rightarrow> string \<Rightarrow> string \<Rightarrow> string \<Rightarrow> bool \<Rightarrow> string \<Rightarrow> string" where
  "init_line pad valExpr ctxExpr name guestCallback allocator =
     pad @ ctxExpr @ name @ ''.init<'' @ bool_name guestCallback @ ''>((void *&) '' @ valExpr @ name @
     '', allocCallbackTrampoline<'' @ allocator @ ''::invoke>);'' @ eol"

fun emit_callbacks ::
    "(string \<times> 't) list \<Rightarrow> string \<Rightarrow> string \<Rightarrow> string \<Rightarrow> bool \<Rightarrow> nat \<Rightarrow> (string \<times> 't) list \<Rightarrow> string \<times> (string \<times> 't) list" where
  "emit_callbacks [] valExpr ctxExpr idPath guestCallback level allocators = ([], allocators)"
| "emit_callbacks ((name, calleeType) # cs) valExpr ctxExpr idPath guestCallback level allocators =
     (let allocator = idPath @ ''____'' @ name @ ''_xx_ThunkAlloc'';
          (txt, allocators) = emit_callbacks cs valExpr ctxExpr idPath guestCallback level (omap_emplace allocator calleeType allocators)
      in (init_line (indent level) valExpr ctxExpr name guestCallback allocator @ txt, allocators))"

fun emitInit ::
    "'t callback_tree \<Rightarrow> string \<Rightarrow> string \<Rightarrow> string \<Rightarrow> bool \<Rightarrow> nat \<Rightarrow> (string \<times> 't) list \<Rightarrow> string \<times> (string \<times> 't) list"
  and emitInit_children ::
    "(string \<times> 't callback_tree) list \<Rightarrow> string \<Rightarrow> string \<Rightarrow> string \<Rightarrow> bool \<Rightarrow> nat \<Rightarrow> (string \<times> 't) list \<Rightarrow> string \<times> (string \<times> 't) list" where
  "emitInit (Callback_tree s r callbacks children outs) valExpr ctxExpr idPath guestCallback level allocators =
     (let (txt1, allocators) = emitInit_children children valExpr ctxExpr idPath guestCallback level allocators;
          (txt2, allocators) = emit_callbacks callbacks valExpr ctxExpr idPath guestCallback level allocators
      in (txt1 @ txt2, allocators))"
| "emitInit_children [] valExpr ctxExpr idPath guestCallback level allocators = ([], allocators)"
| "emitInit_children ((name, child) # cs) valExpr ctxExpr idPath guestCallback level allocators =
     (let childId = idPath @ ''____'' @ name; var = ''p_'' @ childId;
          (inner, allocators) = emitInit child (var @ ''->'') (var @ ''_ctx->'') childId guestCallback (level + 1) allocators;
          (rest, allocators) = emitInit_children cs valExpr ctxExpr idPath guestCallback level allocators
      in (enter_child (indent level) var valExpr ctxExpr name (ct_reach child = ByValue) @ inner @ indent level @ ''}'' @ eol @ rest,
          allocators))"

fun emitFini :: "'t callback_tree \<Rightarrow> string \<Rightarrow> string \<Rightarrow> string \<Rightarrow> nat \<Rightarrow> string"
  and emitFini_children :: "(string \<times> 't callback_tree) list \<Rightarrow> string \<Rightarrow> string \<Rightarrow> string \<Rightarrow> nat \<Rightarrow> string" where
  "emitFini (Callback_tree s r callbacks children outs) valExpr ctxExpr idPath level =
     emitFini_children children valExpr ctxExpr idPath level @
     concat (map (\<lambda>(name, _). indent level @ ctxExpr @ name @ ''.fini();'' @ eol) callbacks)"
| "emitFini_children [] valExpr ctxExpr idPath level = []"
| "emitFini_children ((name, child) # cs) valExpr ctxExpr idPath level =
     (let childId = idPath @ ''____'' @ name; var = ''p_'' @ childId
      in enter_child (indent level) var valExpr ctxExpr name (ct_reach child = ByValue) @
         emitFini child (var @ ''->'') (var @ ''_ctx->'') childId (level + 1) @ indent level @ ''}'' @ eol @
         emitFini_children cs valExpr ctxExpr idPath level)"

fun emitContextStruct :: "'t callback_tree \<Rightarrow> string \<Rightarrow> string \<Rightarrow> nat \<Rightarrow> string"
  and context_children :: "(string \<times> 't callback_tree) list \<Rightarrow> nat \<Rightarrow> string" where
  "emitContextStruct (Callback_tree s r callbacks children outs) member typeName level =
     indent level @ ''struct '' @ typeName @ '' {'' @ eol @
     context_children children level @
     concat (map (\<lambda>(name, _). indent (level + 1) @ ''struct CallbackContext '' @ name @ '';'' @ eol) callbacks) @
     indent level @ ''} '' @ member @ '';''"
| "context_children [] level = []"
| "context_children ((name, child) # cs) level =
     emitContextStruct child name [] (level + 1) @ eol @ context_children cs level"

subsection \<open>The pass\<close>

text \<open>The alias the manifest registered for a callee's pointer type, or the message that there is none.\<close>

definition resolveAlias :: "'t clang_types \<Rightarrow> (string \<times> 't \<times> string) list \<Rightarrow> 't \<Rightarrow> string + string" where
  "resolveAlias C types calleeType =
     (let ptrType = cl_pointer C (cl_canonical C calleeType) in
      case map_of types (getTypeString C (cl_canonical C ptrType)) of
        None \<Rightarrow> Inl (''callback not found for type: '' @ getTypeString C ptrType)
      | Some (_, name) \<Rightarrow> Inr name)"

text \<open>Lines for the entries of a map in order, up to the first one without an alias.\<close>

fun alias_lines ::
    "'t clang_types \<Rightarrow> (string \<times> 't \<times> string) list \<Rightarrow> (string \<Rightarrow> string \<Rightarrow> string) \<Rightarrow> (string \<times> 't) list \<Rightarrow> string + string" where
  "alias_lines C types line [] = Inr []"
| "alias_lines C types line ((key, calleeType) # es) =
     (case resolveAlias C types calleeType of
        Inl err \<Rightarrow> Inl err
      | Inr name \<Rightarrow>
          (case alias_lines C types line es of
             Inl err \<Rightarrow> Inl err
           | Inr rest \<Rightarrow> Inr (line key name @ rest)))"

definition using_line :: "string \<Rightarrow> string \<Rightarrow> string \<Rightarrow> string" where
  "using_line inDirection allocator name =
     ''    using '' @ allocator @ '' = ProcCb<'' @ name @ '', '' @ inDirection @ '', Entry>;'' @ eol"

definition out_lines :: "string \<Rightarrow> string \<Rightarrow> bool \<Rightarrow> string \<Rightarrow> string \<Rightarrow> string" where
  "out_lines procName outDirection outGuestCallback name aliasName =
     (let allocator = procName @ ''____'' @ name @ ''_xx_OutThunkAlloc'' in
      blanks 8 @ ''using '' @ allocator @ '' = ProcCb<'' @ aliasName @ '', '' @ outDirection @ '', Entry>;'' @ eol @
      blanks 8 @ ''struct CallbackContext _xx_out_'' @ name @ '';'' @ eol @
      blanks 8 @ ''_xx_out_'' @ name @ ''.init<'' @ bool_name outGuestCallback @ ''>((void *&) *'' @ name @
      '', allocCallbackTrampoline<'' @ allocator @ ''::invoke>);'' @ eol)"

definition replace_guard :: string where
  "replace_guard = ''#ifdef LORE_THUNK_CALLBACK_REPLACE'' @ eol"

definition endif :: string where
  "endif = ''#endif'' @ eol"

definition push_forward_front :: "string \<Rightarrow> string \<Rightarrow> 't ProcSource \<Rightarrow> 't ProcSource" where
  "push_forward_front key txt src = src\<lparr>src_body := (src_body src)\<lparr>bs_forward := line_push_front key txt (bs_forward (src_body src))\<rparr>\<rparr>"

definition push_head :: "string \<Rightarrow> string \<Rightarrow> 't ProcSource \<Rightarrow> 't ProcSource" where
  "push_head key txt src = src\<lparr>src_head := line_push_back key txt (src_head src)\<rparr>"

definition on_adapt_if :: "bool \<Rightarrow> ('t ProcSource \<Rightarrow> 't ProcSource) \<Rightarrow> 't ProcSnippet \<Rightarrow> 't ProcSnippet" where
  "on_adapt_if live f p = (if live then p\<lparr>ps_sources := (ps_sources p)(Adapt := f (ps_sources p Adapt))\<rparr> else p)"

text \<open>
  The receiver wraps what comes in, the caller what comes out; the writes of the other role are thrown
  away, its errors are not. The result has the proc and the error, if there is one.
\<close>

definition is_receiver :: "Mode \<Rightarrow> ProcDirection \<Rightarrow> bool" where
  "is_receiver mode d \<longleftrightarrow> (d = GuestToHost) = (mode = Host)"

definition in_direction :: "ProcDirection \<Rightarrow> string" where
  "in_direction d = (if d = GuestToHost then ''HostToGuest'' else ''GuestToHost'')"

definition substitute_in ::
    "'t clang_types \<Rightarrow> (string \<times> 't \<times> string) list \<Rightarrow> Mode \<Rightarrow> 't callback_tree \<Rightarrow> 't ProcSnippet \<Rightarrow> 't ProcSnippet \<times> string option" where
  "substitute_in C types mode tree p =
     (let key = ''CallbackSubstituter''; isG2H = (ps_direction p = GuestToHost);
          ctxStructName = ps_name p @ ''_xx_LocalContext'';
          (initSource, allocators) = emitInit tree [] ''ctx.'' (ps_name p) isG2H 2 [];
          finiSource = emitFini tree [] ''ctx.'' (ps_name p) 2;
          structSource = emitContextStruct tree [] ctxStructName 0
      in case alias_lines C types (using_line (in_direction (ps_direction p))) allocators of
           Inl err \<Rightarrow> (p, Some err)
         | Inr usingDecls \<Rightarrow>
             (on_adapt_if (is_receiver mode (ps_direction p)) (\<lambda>src.
                push_head key (''#ifdef LORE_THUNK_CALLBACK_REPLACE'' @ eol @ structSource @ eol @ ''#endif'' @ eol)
                (push_backward key (replace_guard @ blanks 4 @ ''{'' @ eol @ finiSource @ blanks 4 @ ''}'' @ eol @ endif)
                (push_forward_front key
                  (replace_guard @ usingDecls @ eol @ blanks 4 @ ''struct '' @ ctxStructName @ '' ctx;'' @ eol @
                   blanks 4 @ ''{'' @ eol @ initSource @ blanks 4 @ ''}'' @ eol @ endif) src))) p,
              None))"

definition substitute_out ::
    "'t clang_types \<Rightarrow> (string \<times> 't \<times> string) list \<Rightarrow> Mode \<Rightarrow> 't callback_tree \<Rightarrow> 't ProcSnippet \<Rightarrow> 't ProcSnippet \<times> string option" where
  "substitute_out C types mode tree p =
     (let key = ''CallbackSubstituter''; isG2H = (ps_direction p = GuestToHost);
          outDirection = (if isG2H then ''GuestToHost'' else ''HostToGuest'')
      in case alias_lines C types (out_lines (ps_name p) outDirection (\<not> isG2H)) (ct_outCallbacks tree) of
           Inl err \<Rightarrow> (p, Some err)
         | Inr ss \<Rightarrow>
             (on_adapt_if (\<not> is_receiver mode (ps_direction p))
                (push_backward key (replace_guard @ blanks 4 @ ''{'' @ eol @ ss @ blanks 4 @ ''}'' @ eol @ endif)) p, None))"

definition callback_beginHandleProc ::
    "'t clang_types \<Rightarrow> (string \<times> 't \<times> string) list \<Rightarrow> Mode \<Rightarrow> 't callback_tree \<Rightarrow> 't ProcSnippet \<Rightarrow> 't ProcSnippet \<times> string option" where
  "callback_beginHandleProc C types mode tree p =
     (if ct_status tree = Unsupported then
        (on_adapt_if (is_receiver mode (ps_direction p))
           (push_forward ''CallbackSubstituter''
             (replace_guard @ ''#error '' @ [dquote] @ ''unsupported callback type'' @ [dquote] @ eol @ endif)) p, None)
      else
        (let (p, err) = (if ct_callbacks tree \<noteq> [] \<or> ct_children tree \<noteq> [] then substitute_in C types mode tree p else (p, None)) in
         case err of
           Some e \<Rightarrow> (p, Some e)
         | None \<Rightarrow> if ct_outCallbacks tree \<noteq> [] then substitute_out C types mode tree p else (p, None)))"

subsection \<open>The tree of the arguments\<close>

definition cache_ok :: "'t clang_types \<Rightarrow> nat \<Rightarrow> 't tree_cache \<Rightarrow> bool" where
  "cache_ok C n cache \<longleftrightarrow> omap_ok cache \<and>
     (\<forall>s tree. map_of cache s = Some tree \<longrightarrow>
       (\<exists>t. cl_canonical C t = t \<and> \<not> isFunctionPointerType C t \<and> \<not> isFunctionType C t \<and> getTypeString C t = s \<and>
          build C n t [] = Some tree))"

lemma cached_tree_spec:
  assumes "clang_ok C" "cache_ok C n cache"
    and "cl_canonical C c = c" "\<not> isFunctionPointerType C c" "\<not> isFunctionType C c" "card (all_fields C c) < n"
  shows "\<exists>cache' tree. cached_tree C n c cache = Some (cache', tree) \<and> cache_ok C n cache' \<and>
    (ct_status tree = NoCallbacks \<longleftrightarrow> \<not> has_callback C c) \<and>
    (ct_status tree = HasCallbacks \<longrightarrow> set (tree_paths tree) = {(path, u). callback_path C c path u})"
proof (cases "map_of cache (getTypeString C c)")
  case None
  obtain tree where b: "build C n c [] = Some tree" using build_found [OF assms(1,3-6)] by auto
  have om: "omap_ok cache" using assms(2) by (simp add: cache_ok_def)
  have "map_of (omap_emplace (getTypeString C c) tree cache) = (map_of cache)(getTypeString C c \<mapsto> tree)"
    using None by (simp add: omap_emplace_def map_of_update [OF om])
  then have "cache_ok C n (omap_emplace (getTypeString C c) tree cache)"
    using assms(2-5) b by (auto simp: cache_ok_def omap_emplace_ok)
  then show ?thesis
    using None b build_status [OF assms(1) b assms(3-5)] build_paths [OF assms(1) b _ assms(3-5)]
    by (simp add: cached_tree_def)
next
  case (Some tree)
  then obtain t where t: "cl_canonical C t = t" "\<not> isFunctionPointerType C t" "\<not> isFunctionType C t"
    "getTypeString C t = getTypeString C c" "build C n t [] = Some tree"
    using assms(2) by (auto simp: cache_ok_def)
  have "t = c \<or> \<not> has_callback C t \<and> \<not> has_callback C c"
    using assms(1,3) t(1,4) unfolding clang_ok_def spelling_identifies_def by metis
  then have "(ct_status tree = NoCallbacks \<longleftrightarrow> \<not> has_callback C c) \<and>
      (ct_status tree = HasCallbacks \<longrightarrow> set (tree_paths tree) = {(path, u). callback_path C c path u})"
    using build_status [OF assms(1) t(5,1-3)] build_paths [OF assms(1) t(5) _ t(1-3)] by auto
  then show ?thesis using Some assms(2) by (simp add: cached_tree_def)
qed

text \<open>A pointer to a function pointer, which the callee fills in, and the function's type.\<close>

definition out_callback :: "'t clang_types \<Rightarrow> 't \<Rightarrow> 't option" where
  "out_callback C t =
     (let c = cl_canonical C t in
      if \<not> isFunctionPointerType C c \<and> isPointerType C c \<and> isFunctionPointerType C (pointee C c)
      then Some (cl_canonical C (pointee C (pointee C c))) else None)"

definition argument_types_ok :: "'t clang_types \<Rightarrow> nat \<Rightarrow> (string \<times> 't) list \<Rightarrow> bool" where
  "argument_types_ok C n args \<longleftrightarrow>
     distinct (map fst args) \<and> (\<forall>t \<in> snd ` set args. \<not> isFunctionType C (cl_canonical C t) \<and> card (all_fields C (cl_canonical C t)) < n)"

lemma function_pointer_not: "isFunctionPointerType C t \<Longrightarrow> \<not> isFunctionPointerType C (pointee C t)"
  by (auto simp: isFunctionPointerType_def isFunctionType_def pointee_def split: type_shape.splits)

lemma out_callback_path:
  assumes "clang_ok C" "out_callback C t = Some u"
  shows "has_callback C t" "\<not> field_path C t path v"
proof -
  let ?c = "cl_canonical C t"
  have ok: "canonical_parts C" using assms(1) by (simp add: clang_ok_def)
  have c: "\<not> isFunctionPointerType C ?c" "isPointerType C ?c" "isFunctionPointerType C (pointee C ?c)"
    using assms(2) by (auto simp: out_callback_def Let_def split: if_splits)
  note canon = pointee_canonical [OF ok canonical_idem [OF ok, of t]]
  show "has_callback C t"
    using function_pointer_callback [OF ok canon c(3)] has_callback_pointee [OF ok canonical_idem [OF ok, of t]] has_callback_canonical [OF ok, of t]
    by simp
  have r: "record_fields C (pointee C ?c) = None" using c(3) by (auto simp: record_fields_def isFunctionPointerType_def split: type_shape.splits)
  have "\<not> callback_path C ?c path v"
  proof
    assume "callback_path C ?c path v"
    then show False by (rule callback_pathE) (simp_all add: r)
  qed
  then show "\<not> field_path C t path v" using c(1) by (simp add: field_path_def)
qed

lemma emplace_out_sel [simp]:
  "ct_status (emplace_out name t node) = ct_status node" "ct_callbacks (emplace_out name t node) = ct_callbacks node"
  "ct_children (emplace_out name t node) = ct_children node" "tree_paths (emplace_out name t node) = tree_paths node"
  "member_names (emplace_out name t node) = member_names node"
  "ct_outCallbacks (emplace_out name t node) = omap_emplace name t (ct_outCallbacks node)"
  by (cases node; simp add: emplace_out_def member_names_def)+

lemma emplace_outs [simp]:
  "ct_outCallbacks (emplace_callback name t node) = ct_outCallbacks node" "ct_outCallbacks (emplace_child name c node) = ct_outCallbacks node"
  by (simp_all add: emplace_callback_def emplace_child_def)

definition out_paths :: "'t clang_types \<Rightarrow> (string \<times> 't) list \<Rightarrow> (string \<times> 't) set" where
  "out_paths C args = {(name, u) | name t u. (name, t) \<in> set args \<and> out_callback C t = Some u}"

lemma out_paths_Cons:
  "out_paths C ((name, t) # args) = (case out_callback C t of None \<Rightarrow> {} | Some u \<Rightarrow> {(name, u)}) \<union> out_paths C args"
  by (auto simp: out_paths_def split: option.splits)

definition typed_args :: "(string \<times> 't) list \<Rightarrow> ('t option \<times> string) list" where
  "typed_args args = map (\<lambda>(name, t). (Some t, name)) args"

text \<open>What is found for the rest of the arguments, starting from \<open>root\<close>.\<close>

definition found_tree :: "'t clang_types \<Rightarrow> nat \<Rightarrow> (string \<times> 't) list \<Rightarrow> 't callback_tree \<Rightarrow> 't tree_cache \<times> 't callback_tree \<Rightarrow> bool" where
  "found_tree C n args root r = (case r of (cache, tree) \<Rightarrow>
     cache_ok C n cache \<and>
     (ct_status tree = NoCallbacks \<longleftrightarrow>
        ct_callbacks root = [] \<and> ct_children root = [] \<and> ct_outCallbacks root = [] \<and> \<not> (\<exists>t \<in> snd ` set args. has_callback C t)) \<and>
     (ct_status tree = HasCallbacks \<longrightarrow>
        set (tree_paths tree) = set (tree_paths root) \<union> fields_paths C args \<and>
        set (ct_outCallbacks tree) = set (ct_outCallbacks root) \<union> out_paths C args))"

lemma argument_tree_spec:
  assumes "clang_ok C" "argument_types_ok C n args" "cache_ok C n cache" "ct_status root = HasCallbacks"
    and "fst ` set args \<inter> (member_names root \<union> fst ` set (ct_outCallbacks root)) = {}"
  shows "\<exists>r. argument_tree C n (typed_args args) cache root = Some r \<and> found_tree C n args root r"
  using assms(2-)
proof (induction args arbitrary: cache root)
  case Nil
  then show ?case by (auto simp: typed_args_def found_tree_def fields_paths_def out_paths_def)
next
  case (Cons e args)
  obtain name t where e: "e = (name, t)" by fastforce
  let ?c = "cl_canonical C t"
  have ok: "canonical_parts C" using assms(1) by (simp add: clang_ok_def)
  note h = has_callback_canonical [OF ok, of t] and canon = canonical_idem [OF ok, of t]
  have a: "argument_types_ok C n args" "\<not> isFunctionType C ?c" "card (all_fields C ?c) < n" "name \<notin> fst ` set args"
    using Cons.prems(1) by (auto simp: argument_types_ok_def e)
  have d: "name \<notin> member_names root" "name \<notin> fst ` set (ct_outCallbacks root)"
    "fst ` set args \<inter> (member_names root \<union> fst ` set (ct_outCallbacks root)) = {}" using Cons.prems(4) by (auto simp: e)
  have c: "typed_args (e # args) = (Some t, name) # typed_args args" by (simp add: typed_args_def e)
  consider (fp) "isFunctionPointerType C ?c" | (out) u where "out_callback C t = Some u"
    | (other) "\<not> isFunctionPointerType C ?c" "out_callback C t = None" by fastforce
  then show ?case
  proof cases
    case fp
    let ?r = "emplace_callback name (cl_canonical C (pointee C ?c)) root"
    have n: "out_callback C t = None" using fp by (simp add: out_callback_def)
    have p: "{(name # rest, u) | rest u. field_path C t rest u} = {([name], cl_canonical C (pointee C ?c))}"
      using fp by (auto simp: field_path_def)
    have hc: "has_callback C t" using function_pointer_callback [OF ok canon fp] h by simp
    have "fst ` set args \<inter> (member_names ?r \<union> fst ` set (ct_outCallbacks ?r)) = {}"
      using d a(4) by (auto simp: emplace_callback_paths)
    from Cons.IH [OF a(1) Cons.prems(2) _ this] Cons.prems(3) obtain r where
      r: "argument_tree C n (typed_args args) cache ?r = Some r" "found_tree C n args ?r r" by auto
    have "found_tree C n (e # args) root r"
      using r(2) hc by (cases r) (auto simp: found_tree_def e fields_paths_Cons out_paths_Cons p n emplace_callback_paths [OF d(1)])
    then show ?thesis using r(1) fp by (simp add: c Let_def)
  next
    case out
    let ?r = "emplace_out name u root"
    have cond: "\<not> isFunctionPointerType C ?c" "isPointerType C ?c" "isFunctionPointerType C (pointee C ?c)" "u = cl_canonical C (pointee C (pointee C ?c))"
      using out by (auto simp: out_callback_def Let_def split: if_splits)
    have p: "{(name # rest, u) | rest u. field_path C t rest u} = {}" using out_callback_path(2) [OF assms(1) out] by auto
    have o: "set (ct_outCallbacks ?r) = insert (name, u) (set (ct_outCallbacks root))" using d(2) by (simp add: set_emplace_new)
    have "fst ` set args \<inter> (member_names ?r \<union> fst ` set (ct_outCallbacks ?r)) = {}"
      using d a(4) by (auto simp: o simp del: emplace_out_sel(6))
    from Cons.IH [OF a(1) Cons.prems(2) _ this] Cons.prems(3) obtain r where
      r: "argument_tree C n (typed_args args) cache ?r = Some r" "found_tree C n args ?r r" by auto
    have "found_tree C n (e # args) root r"
      using r(2) out_callback_path(1) [OF assms(1) out] o
      by (cases r) (auto simp: found_tree_def e fields_paths_Cons out_paths_Cons p out)
    then show ?thesis using r(1) cond by (simp add: c Let_def)
  next
    case other
    have cond: "\<not> (isPointerType C ?c \<and> isFunctionPointerType C (pointee C ?c))"
      using other by (auto simp: out_callback_def Let_def split: if_splits)
    from cached_tree_spec [OF assms(1) Cons.prems(2) canon other(1) a(2,3)] obtain cache' tree where
      t: "cached_tree C n ?c cache = Some (cache', tree)" "cache_ok C n cache'"
      "ct_status tree = NoCallbacks \<longleftrightarrow> \<not> has_callback C t"
      "ct_status tree = HasCallbacks \<longrightarrow> set (tree_paths tree) = {(path, u). callback_path C ?c path u}" unfolding h by blast
    have p: "{(name # rest, u) | rest u. field_path C t rest u} = (\<lambda>(path, u). (name # path, u)) ` {(path, u). callback_path C ?c path u}"
      using other(1) by (auto simp: field_path_def)
    show ?thesis
    proof (cases "ct_status tree")
      case HasCallbacks
      let ?r = "emplace_child name tree root"
      have "fst ` set args \<inter> (member_names ?r \<union> fst ` set (ct_outCallbacks ?r)) = {}"
        using d a(4) by (auto simp: emplace_child_paths)
      from Cons.IH [OF a(1) t(2) _ this] Cons.prems(3) obtain r where
        r: "argument_tree C n (typed_args args) cache' ?r = Some r" "found_tree C n args ?r r" by auto
      have q: "set (tree_paths ?r) = (\<lambda>(path, u). (name # path, u)) ` {(path, u). callback_path C ?c path u} \<union> set (tree_paths root)"
        using emplace_child_paths(1) [OF d(1), of tree] t(4) HasCallbacks by simp
      have "found_tree C n (e # args) root r"
        using r(2) t(3) HasCallbacks unfolding found_tree_def e fields_paths_Cons out_paths_Cons p q
        by (cases r) (auto simp: other(2))
      then show ?thesis using r(1) other(1) cond t(1) HasCallbacks by (cases r) (auto simp: c Let_def)
    next
      case NoCallbacks
      then have no: "\<not> has_callback C t" using t(3) by simp
      have "{(name # rest, u) | rest u. field_path C t rest u} = {}"
        unfolding p using callback_path_has [OF assms(1) _ canon] no h by auto
      moreover from Cons.IH [OF a(1) t(2) Cons.prems(3) d(3)] obtain r where
        r: "argument_tree C n (typed_args args) cache' root = Some r" "found_tree C n args root r" by auto
      ultimately have "found_tree C n (e # args) root r"
        using no unfolding found_tree_def e fields_paths_Cons out_paths_Cons by (cases r) (simp add: other(2))
      then show ?thesis using r(1) other(1) cond t(1) NoCallbacks by (cases r) (auto simp: c Let_def)
    next
      case Unsupported
      then have "found_tree C n (e # args) root (cache', status_tree Unsupported)"
        using t(2,3) by (auto simp: found_tree_def e)
      then show ?thesis using other(1) cond t(1) Unsupported by (auto simp: c Let_def)
    qed
  qed
qed

lemma callback_test_found:
  assumes "clang_ok C" "cache_ok C n cache"
    and "args = zip (arg_names (length (fv_argTypes (ps_realFunctionTypeView p)))) (fv_argTypes (ps_realFunctionTypeView p))"
    and "\<forall>t \<in> set (fv_argTypes (ps_realFunctionTypeView p)). \<not> isFunctionType C (cl_canonical C t) \<and> card (all_fields C (cl_canonical C t)) < n"
  shows "\<exists>cache' found. callback_testProc C n p cache = Some (cache', found) \<and> cache_ok C n cache' \<and>
    (found \<noteq> None \<longleftrightarrow> (\<exists>t \<in> set (fv_argTypes (ps_realFunctionTypeView p)). has_callback C t)) \<and>
    (\<forall>tree. found = Some tree \<and> ct_status tree \<noteq> Unsupported \<longrightarrow>
       set (tree_paths tree) = fields_paths C args \<and> set (ct_outCallbacks tree) = out_paths C args)"
proof -
  let ?ts = "fv_argTypes (ps_realFunctionTypeView p)"
  have l: "length (arg_names (length ?ts)) = length ?ts" by (simp add: arg_names_def)
  have t: "typed_args args = fi_args (info_of_view (ps_realFunctionTypeView p))"
    by (rule nth_equalityI) (simp_all add: typed_args_def assms(3) l info_of_view_def arg_names_nth)
  have "distinct (map fst args)" using arg_names_ok [of "length ?ts"] by (simp add: assms(3) l names_ok_def)
  moreover have s: "snd ` set args = set ?ts" using l by (metis assms(3) map_snd_zip set_map)
  ultimately have ok: "argument_types_ok C n args" using assms(4) by (simp add: argument_types_ok_def)
  have e: "ct_callbacks (status_tree HasCallbacks) = []" "ct_children (status_tree HasCallbacks) = []" "ct_outCallbacks (status_tree HasCallbacks) = []"
    "tree_paths (status_tree HasCallbacks) = []" by (simp_all add: status_tree_def)
  obtain cache' tree where r: "argument_tree C n (typed_args args) cache (status_tree HasCallbacks) = Some (cache', tree)"
    "found_tree C n args (status_tree HasCallbacks) (cache', tree)"
    using argument_tree_spec [OF assms(1) ok assms(2), of "status_tree HasCallbacks"] by (auto simp: e member_names_def)
  have "callback_testProc C n p cache = Some (cache', if ct_status tree = NoCallbacks then None else Some tree)"
    using r(1) by (simp add: callback_testProc_def buildArgumentTree_def t)
  then show ?thesis using r(2) s
    by (cases "ct_status tree") (auto simp: found_tree_def e)
qed

text \<open>
  C7. With types as Clang gives them, the test of a proc's arguments ends, and takes the proc exactly if a function
  pointer can be reached from one of its arguments. Unless some shape is unsupported, the tree it hands
  to the code generation has exactly the ways to the callbacks that come in, and the arguments through which one
  comes out, each with its function type. A way goes through the first of the members of a record that have the same
  name and lead to a callback: that is every member, except where a record has several anonymous structs with
  callbacks, whose names are all empty and of which only the first is recorded. What it remembers of a type is what
  it would find again.
\<close>

theorem argument_callbacks_found:
  assumes "clang_ok C" "cache_ok C n cache"
    and "args = zip (arg_names (length (fv_argTypes (ps_realFunctionTypeView p)))) (fv_argTypes (ps_realFunctionTypeView p))"
    and "\<forall>t \<in> set (fv_argTypes (ps_realFunctionTypeView p)). \<not> isFunctionType C (cl_canonical C t) \<and> card (all_fields C (cl_canonical C t)) < n"
  shows "\<exists>cache' found. callback_testProc C n p cache = Some (cache', found) \<and> cache_ok C n cache' \<and>
    (found \<noteq> None \<longleftrightarrow> (\<exists>t \<in> set (fv_argTypes (ps_realFunctionTypeView p)). has_callback C t)) \<and>
    (\<forall>tree. found = Some tree \<and> ct_status tree \<noteq> Unsupported \<longrightarrow>
       set (tree_paths tree) = fields_paths C args \<and> set (ct_outCallbacks tree) = out_paths C args)"
  by (rule callback_test_found [OF assms])

text \<open>A record with a callback, passed through a pointer.\<close>

definition demo_clang :: "nat clang_types" where
  "demo_clang = \<lparr>cl_canonical = min 5,
     cl_asString = (\<lambda>t. [''int'', ''struct ops'', ''struct ops *'', ''void (*)(int)'', ''void (int)'', ''?''] ! min 5 t),
     cl_shape = (\<lambda>t. [Other_ty, Record_ty [(''run'', 3), (''id'', 0)], Pointer_ty 1, Pointer_ty 4, Proto_ty 0 [0] False, Other_ty] ! min 5 t),
     cl_pointer = (\<lambda>t. if t = 4 then 3 else if t = 1 then 2 else 5), cl_void = 5, cl_depth = (\<lambda>t. [0, 0, 1, 1, 0, 0] ! min 5 t),
     cl_original = (\<lambda>_. None), cl_typedef = (\<lambda>_. None), cl_record = (\<lambda>_. None)\<rparr>"

lemma demo_clang_canonical: "cl_canonical demo_clang = min 5"
  by (simp add: demo_clang_def)

lemma demo_clang_spellings: "inj_on (getTypeString demo_clang) {..<6}"
proof -
  have "distinct (map (getTypeString demo_clang) [0..<6])" by code_simp
  then show ?thesis by (simp only: distinct_map set_upt lessThan_atLeast0)
qed

lemma demo_clang_cases: "min 5 t = 0 \<or> min 5 t = 1 \<or> min 5 t = 2 \<or> min 5 t = 3 \<or> min 5 t = 4 \<or> min 5 t = (5 :: nat)"
  by arith

lemma demo_clang_shape:
  "cl_shape demo_clang t = [Other_ty, Record_ty [(''run'', 3), (''id'', 0)], Pointer_ty 1, Pointer_ty 4, Proto_ty 0 [0] False, Other_ty] ! min 5 t"
  "cl_depth demo_clang t = [0, 0, 1, 1, 0, 0] ! min 5 t"
  by (simp_all add: demo_clang_def)

lemma demo_clang_ok: "clang_ok demo_clang"
proof -
  have "canonical_parts demo_clang"
    unfolding canonical_parts_def demo_clang_canonical
  proof (intro conjI allI impI)
    fix t p
    assume "cl_shape demo_clang (min 5 t) = Pointer_ty p \<or> cl_shape demo_clang (min 5 t) = Array_ty p"
    then show "min 5 p = p" "cl_depth demo_clang p < cl_depth demo_clang (min 5 t)"
      using demo_clang_cases [of t] by (auto simp: demo_clang_shape)
  qed simp
  moreover have "spelling_identifies demo_clang"
    unfolding spelling_identifies_def demo_clang_canonical
    by (intro allI impI disjI1) (rule inj_onD [OF demo_clang_spellings], assumption, simp_all)
  moreover have "finite_types demo_clang"
    unfolding finite_types_def
  proof
    fix t
    have b: "base_type demo_clang u \<in> {..<6}" for u by (simp add: base_type_def Let_def demo_clang_canonical)
    have "u \<in> {..<6}" if "(leads demo_clang)\<^sup>*\<^sup>* (base_type demo_clang t) u" for u
      using that by (cases rule: rtranclp.cases) (use b in \<open>auto simp: leads_def\<close>)
    then have "{u. (leads demo_clang)\<^sup>*\<^sup>* (base_type demo_clang t) u} \<subseteq> {..<6}" by blast
    then show "finite {u. (leads demo_clang)\<^sup>*\<^sup>* (base_type demo_clang t) u}" by (rule finite_subset) simp
  qed
  moreover have "object_fields demo_clang"
    unfolding object_fields_def
  proof (intro allI ballI)
    fix t f
    assume "f \<in> set (field_types demo_clang t)"
    then have "f = 3 \<or> f = 0" using demo_clang_cases [of t] by (auto simp: field_types_def demo_clang_shape)
    then show "\<not> isFunctionType demo_clang (cl_canonical demo_clang f)"
      by (auto simp: isFunctionType_def demo_clang_shape demo_clang_canonical)
  qed
  ultimately show ?thesis by (simp add: clang_ok_def)
qed

lemma demo_clang_fields: "card (all_fields demo_clang t) < 7"
proof -
  have "all_fields demo_clang t \<subseteq> {..<6}" by (auto simp: all_fields_def demo_clang_canonical)
  then have "card (all_fields demo_clang t) \<le> card {..<6 :: nat}" by (rule card_mono [rotated]) simp
  then show ?thesis by simp
qed

definition demo_ops :: "nat ProcSnippet" where
  "demo_ops = (bare_proc Function GuestToHost None (\<lambda>_. 0))\<lparr>ps_name := ''reg'',
     ps_realFunctionTypeView := \<lparr>fv_returnType = Some 0, fv_argTypes = [2, 3], fv_variadic = False\<rparr>\<rparr>"

lemma demo_ops_status:
  "map_option (\<lambda>(cache, found). map_option ct_status found) (callback_testProc demo_clang 7 demo_ops []) = Some (Some HasCallbacks)"
  by code_simp

theorem argument_callbacks_found_witness:
  "\<exists>cache tree. callback_testProc demo_clang 7 demo_ops [] = Some (cache, Some tree) \<and> ([''arg1'', ''run''], 4) \<in> set (tree_paths tree)"
proof -
  have v: "fv_argTypes (ps_realFunctionTypeView demo_ops) = [2, 3]" by (simp add: demo_ops_def)
  have f: "\<forall>t \<in> set (fv_argTypes (ps_realFunctionTypeView demo_ops)). \<not> isFunctionType demo_clang (cl_canonical demo_clang t) \<and>
      card (all_fields demo_clang (cl_canonical demo_clang t)) < 7"
    unfolding v using demo_clang_fields by (simp add: isFunctionType_def demo_clang_shape demo_clang_canonical)
  have "cache_ok demo_clang 7 []" by (simp add: cache_ok_def)
  from argument_callbacks_found [OF demo_clang_ok this refl f] demo_ops_status
  obtain cache tree where t: "callback_testProc demo_clang 7 demo_ops [] = Some (cache, Some tree)"
    "set (tree_paths tree) = fields_paths demo_clang (zip (arg_names (Suc (Suc 0))) [2, 3])" unfolding v by auto
  have "callback_path demo_clang 2 [''run''] (cl_canonical demo_clang (pointee demo_clang (cl_canonical demo_clang 3)))"
    by (rule callback_path.member [where fs = "[(''run'', 3), (''id'', 0)]"])
      (simp_all add: first_member_distinct record_fields_def pointee_def demo_clang_shape demo_clang_canonical isFunctionPointerType_def isFunctionType_def)
  then have "field_path demo_clang 2 [''run''] 4"
    by (simp add: field_path_def demo_clang_canonical isFunctionPointerType_def isFunctionType_def demo_clang_shape pointee_def)
  moreover have "zip (arg_names (Suc (Suc 0))) [2, 3 :: nat] = [(''arg1'', 2), (''arg2'', 3)]" by code_simp
  ultimately show ?thesis using t by (auto simp: fields_paths_def)
qed

subsection \<open>The emitted walks\<close>

text \<open>
  A walk over the tree as code: entering a child behind its test, leaving it, and handling one callback
  (value, context, path and name). The code before the call and the code after it are texts of one walk.
\<close>

datatype walk_op =
    Enter nat string string string string bool
  | Leave nat
  | Handle nat string string string string

fun walk_ops :: "'t callback_tree \<Rightarrow> string \<Rightarrow> string \<Rightarrow> string \<Rightarrow> nat \<Rightarrow> walk_op list"
  and walk_children :: "(string \<times> 't callback_tree) list \<Rightarrow> string \<Rightarrow> string \<Rightarrow> string \<Rightarrow> nat \<Rightarrow> walk_op list" where
  "walk_ops (Callback_tree s r callbacks children outs) valExpr ctxExpr idPath level =
     walk_children children valExpr ctxExpr idPath level @
     map (\<lambda>(name, _). Handle level valExpr ctxExpr idPath name) callbacks"
| "walk_children [] valExpr ctxExpr idPath level = []"
| "walk_children ((name, child) # cs) valExpr ctxExpr idPath level =
     (let childId = idPath @ ''____'' @ name; var = ''p_'' @ childId
      in Enter level var valExpr ctxExpr name (ct_reach child = ByValue) #
         walk_ops child (var @ ''->'') (var @ ''_ctx->'') childId (level + 1) @ [Leave level] @
         walk_children cs valExpr ctxExpr idPath level)"

fun init_text :: "bool \<Rightarrow> walk_op \<Rightarrow> string" where
  "init_text g (Enter level var valExpr ctxExpr name byValue) = enter_child (indent level) var valExpr ctxExpr name byValue"
| "init_text g (Leave level) = indent level @ ''}'' @ eol"
| "init_text g (Handle level valExpr ctxExpr idPath name) =
     init_line (indent level) valExpr ctxExpr name g (idPath @ ''____'' @ name @ ''_xx_ThunkAlloc'')"

fun fini_text :: "walk_op \<Rightarrow> string" where
  "fini_text (Enter level var valExpr ctxExpr name byValue) = enter_child (indent level) var valExpr ctxExpr name byValue"
| "fini_text (Leave level) = indent level @ ''}'' @ eol"
| "fini_text (Handle level valExpr ctxExpr idPath name) = indent level @ ctxExpr @ name @ ''.fini();'' @ eol"

fun handled :: "walk_op \<Rightarrow> string list" where
  "handled (Handle level valExpr ctxExpr idPath name) = [idPath @ ''____'' @ name]"
| "handled _ = []"

definition path_id :: "string \<Rightarrow> string list \<Rightarrow> string" where
  "path_id idPath path = idPath @ concat (map (\<lambda>name. ''____'' @ name) path)"

definition add_allocator :: "string \<Rightarrow> string list \<times> 't \<Rightarrow> (string \<times> 't) list \<Rightarrow> (string \<times> 't) list" where
  "add_allocator idPath entry = (case entry of (path, t) \<Rightarrow> omap_emplace (path_id idPath path @ ''_xx_ThunkAlloc'') t)"

lemma add_allocator_nested:
  "fold (add_allocator idPath) (map (\<lambda>(path, t). (name # path, t)) ps) = fold (add_allocator (idPath @ ''____'' @ name)) ps"
proof -
  have "add_allocator idPath \<circ> (\<lambda>(path, t). (name # path, t)) = (add_allocator (idPath @ ''____'' @ name) :: _ \<times> 'a \<Rightarrow> _)"
    by (simp add: fun_eq_iff add_allocator_def path_id_def)
  then show ?thesis by (simp only: fold_map)
qed

lemma emit_callbacks_walk:
  "emit_callbacks cs valExpr ctxExpr idPath g level allocators =
     (concat (map (init_text g) (map (\<lambda>(name, _). Handle level valExpr ctxExpr idPath name) cs)),
      fold (add_allocator idPath) (map (\<lambda>(name, t). ([name], t)) cs) allocators)"
  by (induction cs arbitrary: allocators) (auto simp: Let_def add_allocator_def path_id_def)

lemma emitInit_walk:
  fixes tree :: "'t callback_tree" and children :: "(string \<times> 't callback_tree) list"
  shows
  "emitInit tree valExpr ctxExpr idPath g level allocators =
     (concat (map (init_text g) (walk_ops tree valExpr ctxExpr idPath level)), fold (add_allocator idPath) (tree_paths tree) allocators)"
  "emitInit_children children valExpr ctxExpr idPath g level allocators =
     (concat (map (init_text g) (walk_children children valExpr ctxExpr idPath level)),
      fold (add_allocator idPath) (concat (map (\<lambda>(name, child). map (\<lambda>(path, t). (name # path, t)) (tree_paths child)) children)) allocators)"
  by (induction tree valExpr ctxExpr idPath g level allocators and children valExpr ctxExpr idPath g level allocators
      rule: emitInit_emitInit_children.induct)
    (simp_all only: emitInit.simps emitInit_children.simps walk_ops.simps walk_children.simps tree_paths.simps emit_callbacks_walk Let_def
       prod.case list.map concat.simps map_append concat_append fold_append comp_apply append_assoc append_Nil init_text.simps fold.simps
       id_apply add_allocator_nested append_Cons)

lemma emitFini_walk:
  fixes tree :: "'t callback_tree" and children :: "(string \<times> 't callback_tree) list"
  shows
  "emitFini tree valExpr ctxExpr idPath level = concat (map fini_text (walk_ops tree valExpr ctxExpr idPath level))"
  "emitFini_children children valExpr ctxExpr idPath level = concat (map fini_text (walk_children children valExpr ctxExpr idPath level))"
  by (induction tree valExpr ctxExpr idPath level and children valExpr ctxExpr idPath level rule: emitFini_emitFini_children.induct)
    (simp_all add: Let_def comp_def case_prod_unfold)

lemma walk_handles:
  fixes tree :: "'t callback_tree" and children :: "(string \<times> 't callback_tree) list"
  shows
  "concat (map handled (walk_ops tree valExpr ctxExpr idPath level)) = map (\<lambda>(path, t). path_id idPath path) (tree_paths tree)"
  "concat (map handled (walk_children children valExpr ctxExpr idPath level)) =
     map (\<lambda>(path, t). path_id idPath path) (concat (map (\<lambda>(name, child). map (\<lambda>(path, t). (name # path, t)) (tree_paths child)) children))"
  by (induction tree valExpr ctxExpr idPath level and children valExpr ctxExpr idPath level rule: walk_ops_walk_children.induct)
    (simp_all add: Let_def comp_def case_prod_unfold path_id_def)

subsection \<open>What the pass writes\<close>

definition alias_of :: "'t clang_types \<Rightarrow> (string \<times> 't \<times> string) list \<Rightarrow> 't \<Rightarrow> string" where
  "alias_of C types t = (case resolveAlias C types t of Inl _ \<Rightarrow> [] | Inr name \<Rightarrow> name)"

definition registered :: "'t clang_types \<Rightarrow> (string \<times> 't \<times> string) list \<Rightarrow> 't \<Rightarrow> bool" where
  "registered C types t \<longleftrightarrow> (\<exists>name. resolveAlias C types t = Inr name)"

lemma alias_lines_registered:
  "\<forall>t \<in> snd ` set es. registered C types t \<Longrightarrow>
     alias_lines C types line es = Inr (concat (map (\<lambda>(key, t). line key (alias_of C types t)) es))"
  by (induction es) (auto simp: registered_def alias_of_def)

lemma alias_lines_missing: "\<exists>t \<in> snd ` set es. \<not> registered C types t \<Longrightarrow> \<exists>err. alias_lines C types line es = Inl err"
proof (induction es)
  case (Cons e es)
  obtain key t where e: "e = (key, t)" by fastforce
  show ?case
  proof (cases "resolveAlias C types t")
    case (Inr name)
    then have "\<exists>t \<in> snd ` set es. \<not> registered C types t" using Cons.prems by (auto simp: e registered_def)
    then show ?thesis using Cons.IH by (auto simp: e Inr)
  qed (simp add: e)
qed simp

lemma omap_emplace_subset: "set (omap_emplace k v m) \<subseteq> insert (k, v) (set m)"
  unfolding omap_emplace_def by (induction m) (auto split: if_splits)

lemma omap_emplace_keys: "fst ` set (omap_emplace k v m) = insert k (fst ` set m)"
  by (simp add: omap_emplace_def omap_update_keys)

definition allocators_of :: "string \<Rightarrow> 't callback_tree \<Rightarrow> (string \<times> 't) list" where
  "allocators_of name tree = fold (add_allocator name) (tree_paths tree) []"

lemma fold_allocators:
  "fst ` set (fold (add_allocator name) ps a) = fst ` set a \<union> (\<lambda>(path, t). path_id name path @ ''_xx_ThunkAlloc'') ` set ps \<and>
   snd ` set (fold (add_allocator name) ps a) \<subseteq> snd ` set a \<union> snd ` set ps"
proof (induction ps arbitrary: a)
  case (Cons e ps)
  obtain path t where e: "e = (path, t)" by fastforce
  let ?a = "omap_emplace (path_id name path @ ''_xx_ThunkAlloc'') t a"
  have sub: "snd ` set ?a \<subseteq> insert t (snd ` set a)" using omap_emplace_subset by fastforce
  have f: "fold (add_allocator name) (e # ps) a = fold (add_allocator name) ps ?a" by (simp add: e add_allocator_def)
  note ih = Cons.IH [of ?a]
  have "fst ` set (fold (add_allocator name) ps ?a) = fst ` set a \<union> (\<lambda>(path, t). path_id name path @ ''_xx_ThunkAlloc'') ` set (e # ps)"
    unfolding conjunct1 [OF ih] omap_emplace_keys by (simp add: e)
  moreover have "snd ` set (fold (add_allocator name) ps ?a) \<subseteq> snd ` set ?a \<union> snd ` set ps" by (rule conjunct2 [OF ih])
  then have "snd ` set (fold (add_allocator name) ps ?a) \<subseteq> insert t (snd ` set a) \<union> snd ` set ps" using sub by (rule order_trans [OF _ Un_mono]) simp
  then have "snd ` set (fold (add_allocator name) ps ?a) \<subseteq> snd ` set a \<union> snd ` set (e # ps)" by (simp add: e)
  ultimately show ?case unfolding f by blast
qed simp

lemma allocators_cover:
  "fst ` set (allocators_of name tree) = (\<lambda>(path, t). path_id name path @ ''_xx_ThunkAlloc'') ` set (tree_paths tree)"
  "snd ` set (allocators_of name tree) \<subseteq> snd ` set (tree_paths tree)"
  using fold_allocators [of name "tree_paths tree" "[]"] by (simp_all add: allocators_of_def)

text \<open>The text before the call and the one after it, for a walk.\<close>

definition wrap_text :: "'t clang_types \<Rightarrow> (string \<times> 't \<times> string) list \<Rightarrow> 't ProcSnippet \<Rightarrow> 't callback_tree \<Rightarrow> walk_op list \<Rightarrow> string" where
  "wrap_text C types p tree ops =
     replace_guard @ concat (map (\<lambda>(a, t). using_line (in_direction (ps_direction p)) a (alias_of C types t)) (allocators_of (ps_name p) tree)) @ eol @
     blanks 4 @ ''struct '' @ ps_name p @ ''_xx_LocalContext ctx;'' @ eol @
     blanks 4 @ ''{'' @ eol @ concat (map (init_text (ps_direction p = GuestToHost)) ops) @ blanks 4 @ ''}'' @ eol @ endif"

definition restore_text :: "walk_op list \<Rightarrow> string" where
  "restore_text ops = replace_guard @ blanks 4 @ ''{'' @ eol @ concat (map fini_text ops) @ blanks 4 @ ''}'' @ eol @ endif"

lemma lines_text_push_front [simp]: "lines_text (line_push_front key txt lines) = txt @ lines_text lines"
  by (simp add: lines_text_def line_push_front_def)

text \<open>The text behind the call on the side that calls: what comes out is wrapped for it.\<close>

definition out_text :: "'t clang_types \<Rightarrow> (string \<times> 't \<times> string) list \<Rightarrow> 't ProcSnippet \<Rightarrow> 't callback_tree \<Rightarrow> string" where
  "out_text C types p tree =
     replace_guard @ blanks 4 @ ''{'' @ eol @
     concat (map (\<lambda>(name, t). out_lines (ps_name p) (if ps_direction p = GuestToHost then ''GuestToHost'' else ''HostToGuest'')
       (ps_direction p \<noteq> GuestToHost) name (alias_of C types t)) (ct_outCallbacks tree)) @
     blanks 4 @ ''}'' @ eol @ endif"

lemma substitute_in_cases:
  assumes "ops = walk_ops tree [] ''ctx.'' (ps_name p) 2"
  shows "if \<forall>t \<in> snd ` set (allocators_of (ps_name p) tree). registered C types t
    then \<exists>p'. substitute_in C types mode tree p = (p', None) \<and>
      (if is_receiver mode (ps_direction p)
       then forward_text p' = wrap_text C types p tree ops @ forward_text p \<and> backward_text p' = backward_text p @ restore_text ops \<and>
         ps_name p' = ps_name p \<and> ps_direction p' = ps_direction p
       else p' = p)
    else \<exists>err. substitute_in C types mode tree p = (p, Some err)"
proof -
  let ?a = "allocators_of (ps_name p) tree"
  have e: "emitInit tree [] ''ctx.'' (ps_name p) (ps_direction p = GuestToHost) 2 [] = (concat (map (init_text (ps_direction p = GuestToHost)) ops), ?a)"
    unfolding emitInit_walk(1) assms allocators_of_def ..
  have f: "emitFini tree [] ''ctx.'' (ps_name p) 2 = concat (map fini_text ops)" unfolding emitFini_walk(1) assms ..
  show ?thesis
  proof (cases "\<forall>t \<in> snd ` set ?a. registered C types t")
    case True
    note a = alias_lines_registered [OF True, of "using_line (in_direction (ps_direction p))"]
    show ?thesis
      unfolding if_P [OF True] substitute_in_def Let_def e prod.case a sum.case f
      by (cases "is_receiver mode (ps_direction p)")
        (simp_all add: on_adapt_if_def forward_text_def backward_text_def push_head_def push_backward_def
          push_forward_front_def wrap_text_def restore_text_def)
  next
    case False
    then obtain err where err: "alias_lines C types (using_line (in_direction (ps_direction p))) ?a = Inl err"
      using alias_lines_missing [of ?a C types] by blast
    show ?thesis
      unfolding if_not_P [OF False] substitute_in_def Let_def e prod.case err sum.case by blast
  qed
qed

lemma substitute_out_cases:
  "if \<forall>t \<in> snd ` set (ct_outCallbacks tree). registered C types t
   then \<exists>p'. substitute_out C types mode tree p = (p', None) \<and>
     (if is_receiver mode (ps_direction p) then p' = p
      else forward_text p' = forward_text p \<and> backward_text p' = backward_text p @ out_text C types p tree)
   else \<exists>err. substitute_out C types mode tree p = (p, Some err)"
proof (cases "\<forall>t \<in> snd ` set (ct_outCallbacks tree). registered C types t")
  case True
  let ?line = "out_lines (ps_name p) (if ps_direction p = GuestToHost then ''GuestToHost'' else ''HostToGuest'') (\<not> ps_direction p = GuestToHost)"
  note a = alias_lines_registered [OF True, of ?line]
  show ?thesis
    unfolding if_P [OF True] substitute_out_def Let_def a sum.case
    by (cases "is_receiver mode (ps_direction p)")
      (simp_all add: on_adapt_if_def forward_text_def backward_text_def push_backward_def out_text_def)
next
  case False
  let ?line = "out_lines (ps_name p) (if ps_direction p = GuestToHost then ''GuestToHost'' else ''HostToGuest'') (\<not> ps_direction p = GuestToHost)"
  obtain err where err: "alias_lines C types ?line (ct_outCallbacks tree) = Inl err"
    using False alias_lines_missing [of "ct_outCallbacks tree" C types] by blast
  show ?thesis unfolding if_not_P [OF False] substitute_out_def Let_def err sum.case by blast
qed

text \<open>
  C6. On the side that receives a call, the callbacks of its tree are wrapped before the call and restored
  behind it: the text in front of the rest of the adaptor and the text behind it are one walk over the tree, which
  handles every way to a callback once and in the same order, each with an allocator that is declared for the direction
  the callback comes in. On the side that calls nothing is wrapped or restored: only the callbacks that come out
  through an argument are handed on behind the call, and without any the proc is left as it was. A callback whose
  type has no alias in the manifest is reported: one that comes in before anything is written, one that comes out
  behind what was written for those that come in.
\<close>

theorem callbacks_wrapped_and_restored:
  assumes "ct_status tree = HasCallbacks"
  shows "let ops = walk_ops tree [] ''ctx.'' (ps_name p) 2; paths = tree_paths tree; allocators = allocators_of (ps_name p) tree;
      ins = (ct_callbacks tree \<noteq> [] \<or> ct_children tree \<noteq> []); outs = ct_outCallbacks tree;
      out_known = (\<forall>t \<in> snd ` set outs. registered C types t) in
    concat (map handled ops) = map (\<lambda>(path, t). path_id (ps_name p) path) paths \<and>
    fst ` set allocators = (\<lambda>(path, t). path_id (ps_name p) path @ ''_xx_ThunkAlloc'') ` set paths \<and>
    snd ` set allocators \<subseteq> snd ` set paths \<and>
    (if ins \<and> \<not> (\<forall>t \<in> snd ` set allocators. registered C types t)
     then \<exists>err. callback_beginHandleProc C types mode tree p = (p, Some err)
     else \<exists>p' err. callback_beginHandleProc C types mode tree p = (p', err) \<and> (err = None \<longleftrightarrow> out_known) \<and>
       (if is_receiver mode (ps_direction p)
        then forward_text p' = (if ins then wrap_text C types p tree ops else []) @ forward_text p \<and>
          backward_text p' = backward_text p @ (if ins then restore_text ops else [])
        else forward_text p' = forward_text p \<and>
          backward_text p' = backward_text p @ (if outs \<noteq> [] \<and> out_known then out_text C types p tree else []) \<and>
          (outs = [] \<longrightarrow> p' = p)))"
proof -
  let ?ops = "walk_ops tree [] ''ctx.'' (ps_name p) 2" and ?a = "allocators_of (ps_name p) tree"
  let ?ins = "ct_callbacks tree \<noteq> [] \<or> ct_children tree \<noteq> []" and ?outs = "ct_outCallbacks tree"
  let ?known = "\<forall>t \<in> snd ` set ?a. registered C types t" and ?out_known = "\<forall>t \<in> snd ` set ?outs. registered C types t"
  let ?R = "is_receiver mode (ps_direction p)"
  have b: "callback_beginHandleProc C types mode tree p =
      (let (q, err) = (if ?ins then substitute_in C types mode tree p else (p, None)) in
       case err of Some e \<Rightarrow> (q, Some e) | None \<Rightarrow> if ?outs \<noteq> [] then substitute_out C types mode tree q else (q, None))"
    using assms by (simp add: callback_beginHandleProc_def Let_def)
  have w: "if ?ins \<and> \<not> ?known
     then \<exists>err. callback_beginHandleProc C types mode tree p = (p, Some err)
     else \<exists>p' err. callback_beginHandleProc C types mode tree p = (p', err) \<and> (err = None \<longleftrightarrow> ?out_known) \<and>
       (if ?R
        then forward_text p' = (if ?ins then wrap_text C types p tree ?ops else []) @ forward_text p \<and>
          backward_text p' = backward_text p @ (if ?ins then restore_text ?ops else [])
        else forward_text p' = forward_text p \<and>
          backward_text p' = backward_text p @ (if ?outs \<noteq> [] \<and> ?out_known then out_text C types p tree else []) \<and>
          (?outs = [] \<longrightarrow> p' = p))"
  proof (cases "?ins \<and> \<not> ?known")
    case True
    then have unknown: "\<not> ?known" by (rule conjunct2)
    from substitute_in_cases [OF refl, where tree = tree and p = p and C = C and types = types and mode = mode,
        unfolded if_not_P [OF unknown]]
    obtain err where "substitute_in C types mode tree p = (p, Some err)" by blast
    then show ?thesis using True unfolding if_P [OF True] b by simp
  next
    case False
    obtain q where q: "(if ?ins then substitute_in C types mode tree p else (p, None)) = (q, None)"
      "if ?R then forward_text q = (if ?ins then wrap_text C types p tree ?ops else []) @ forward_text p \<and>
         backward_text q = backward_text p @ (if ?ins then restore_text ?ops else []) \<and> ps_direction q = ps_direction p
       else q = p"
    proof (cases ?ins)
      case True
      then have k: ?known using False by blast
      from substitute_in_cases [OF refl, where tree = tree and p = p and C = C and types = types and mode = mode, unfolded if_P [OF k]] obtain q where
        "substitute_in C types mode tree p = (q, None)"
        "if ?R then forward_text q = wrap_text C types p tree ?ops @ forward_text p \<and>
           backward_text q = backward_text p @ restore_text ?ops \<and> ps_name q = ps_name p \<and> ps_direction q = ps_direction p
         else q = p" by blast
      then show thesis using True by (intro that [of q]) auto
    qed (auto intro: that)
    have c: "callback_beginHandleProc C types mode tree p =
        (if ?outs \<noteq> [] then substitute_out C types mode tree q else (q, None))"
      unfolding b q(1) by simp
    note out = substitute_out_cases [where C = C and types = types and mode = mode and tree = tree and p = q]
    show ?thesis
    proof (cases "?outs = []")
      case True
      then show ?thesis using False c q(2) by auto
    next
      case nonempty: False
      show ?thesis
      proof (cases ?out_known)
        case True
        from out [unfolded if_P [OF True]] show ?thesis using False nonempty True c q(2) by (auto split: if_splits)
      next
        case unknown: False
        from out [unfolded if_not_P [OF unknown]] show ?thesis using False nonempty unknown c q(2) by (auto split: if_splits)
      qed
    qed
  qed
  show ?thesis
    unfolding Let_def by (intro conjI, rule walk_handles(1), rule allocators_cover(1), rule allocators_cover(2), rule w)
qed

lemma demo_ops_registered:
  "snd ` set (allocators_of ''reg'' (Callback_tree HasCallbacks ByValue [(''arg2'', 4 :: nat)] [] [(''arg1'', 4)])) = {4}"
  "resolveAlias demo_clang [(''void (*)(int)'', 3, ''PFN_cb'')] 4 = Inr ''PFN_cb''"
  by code_simp+

text \<open>A callback that comes in and one that comes out, on the receiving and on the calling side.\<close>

definition demo_both :: "nat callback_tree" where
  "demo_both = Callback_tree HasCallbacks ByValue [(''arg2'', 4)] [] [(''arg1'', 4)]"

theorem callbacks_wrapped_and_restored_witness:
  "(\<exists>p'. callback_beginHandleProc demo_clang [(''void (*)(int)'', 3, ''PFN_cb'')] Host demo_both demo_ops = (p', None) \<and>
     backward_text p' = restore_text [Handle 2 [] ''ctx.'' ''reg'' ''arg2'']) \<and>
   (\<exists>p'. callback_beginHandleProc demo_clang [(''void (*)(int)'', 3, ''PFN_cb'')] Guest demo_both demo_ops = (p', None) \<and>
     forward_text p' = [] \<and>
     backward_text p' = out_text demo_clang [(''void (*)(int)'', 3, ''PFN_cb'')] demo_ops demo_both)"
proof -
  let ?types = "[(''void (*)(int)'', 3 :: nat, ''PFN_cb'')]"
  have h: "ct_status demo_both = HasCallbacks" by (simp add: demo_both_def)
  have b: "backward_text demo_ops = []" "forward_text demo_ops = []" "ps_name demo_ops = ''reg''"
    "walk_ops demo_both [] ''ctx.'' ''reg'' 2 = [Handle 2 [] ''ctx.'' ''reg'' ''arg2'']" "ct_outCallbacks demo_both = [(''arg1'', 4)]"
    "is_receiver Host (ps_direction demo_ops)" "\<not> is_receiver Guest (ps_direction demo_ops)"
    "ct_callbacks demo_both \<noteq> [] \<or> ct_children demo_both \<noteq> []"
    by (simp_all add: demo_ops_def bare_proc_def backward_text_def forward_text_def empty_source_def empty_body_def
        demo_both_def is_receiver_def)
  have k: "registered demo_clang ?types 4" by (simp add: registered_def demo_ops_registered(2))
  have r: "\<forall>t \<in> snd ` set (allocators_of ''reg'' demo_both). registered demo_clang ?types t"
    using k demo_ops_registered(1) by (simp add: demo_both_def)
  note T = callbacks_wrapped_and_restored [OF h, of demo_ops demo_clang ?types, unfolded Let_def b(3-5)]
  show ?thesis
    using T [of Host] T [of Guest] r k b by auto
qed

subsection \<open>What is remembered does not show\<close>

text \<open>A tree from the cache is the one that would be built, or both have no callbacks.\<close>

lemma cached_tree_build:
  assumes "clang_ok C" "cache_ok C n cache"
    and "cl_canonical C c = c" "\<not> isFunctionPointerType C c" "\<not> isFunctionType C c" "build C n c [] = Some built"
    and "cached_tree C n c cache = Some (cache', tree)"
  shows "tree = built \<or> ct_status tree = NoCallbacks \<and> ct_status built = NoCallbacks"
proof (cases "map_of cache (getTypeString C c)")
  case None
  then show ?thesis using assms(6,7) by (simp add: cached_tree_def)
next
  case (Some u)
  then have u: "u = tree" using assms(7) by (simp add: cached_tree_def)
  obtain t where t: "cl_canonical C t = t" "\<not> isFunctionPointerType C t" "\<not> isFunctionType C t"
    "getTypeString C t = getTypeString C c" "build C n t [] = Some tree"
    using assms(2) Some u by (auto simp: cache_ok_def)
  have "t = c \<or> \<not> has_callback C t \<and> \<not> has_callback C c"
    using assms(1,3) t(1,4) unfolding clang_ok_def spelling_identifies_def by metis
  then show ?thesis
    using build_status [OF assms(1) t(5,1-3)] build_status [OF assms(1) assms(6,3-5)] t(5) assms(6) by auto
qed

lemma cached_tree_same:
  assumes "clang_ok C" "cache_ok C n cache1" "cache_ok C n cache2"
    and "cl_canonical C c = c" "\<not> isFunctionPointerType C c" "\<not> isFunctionType C c" "card (all_fields C c) < n"
  shows "\<exists>c1 c2 t1 t2. cached_tree C n c cache1 = Some (c1, t1) \<and> cached_tree C n c cache2 = Some (c2, t2) \<and>
    cache_ok C n c1 \<and> cache_ok C n c2 \<and> (t1 = t2 \<or> ct_status t1 = NoCallbacks \<and> ct_status t2 = NoCallbacks)"
proof -
  from build_found [OF assms(1,4-7)] obtain built where b: "build C n c [] = Some built" by auto
  from cached_tree_spec [OF assms(1,2,4-7)] obtain c1 t1 where 1: "cached_tree C n c cache1 = Some (c1, t1)" "cache_ok C n c1" by blast
  from cached_tree_spec [OF assms(1,3,4-7)] obtain c2 t2 where 2: "cached_tree C n c cache2 = Some (c2, t2)" "cache_ok C n c2" by blast
  from cached_tree_build [OF assms(1,2,4-6) b 1(1)] cached_tree_build [OF assms(1,3,4-6) b 2(1)] 1 2
  show ?thesis by blast
qed

lemma argument_tree_same:
  assumes "clang_ok C" "argument_types_ok C n args" "cache_ok C n cache1" "cache_ok C n cache2"
  shows "\<exists>c1 c2 tree. argument_tree C n (typed_args args) cache1 root = Some (c1, tree) \<and>
    argument_tree C n (typed_args args) cache2 root = Some (c2, tree) \<and> cache_ok C n c1"
  using assms(2-)
proof (induction args arbitrary: cache1 cache2 root)
  case Nil
  then show ?case by (simp add: typed_args_def)
next
  case (Cons e args)
  obtain name t where e: "e = (name, t)" by fastforce
  let ?c = "cl_canonical C t"
  have ok: "canonical_parts C" using assms(1) by (simp add: clang_ok_def)
  have a: "argument_types_ok C n args" "\<not> isFunctionType C ?c" "card (all_fields C ?c) < n"
    using Cons.prems(1) by (auto simp: argument_types_ok_def e)
  have c: "typed_args (e # args) = (Some t, name) # typed_args args" by (simp add: typed_args_def e)
  note IH = Cons.IH [OF a(1)]
  show ?case
  proof (cases "isFunctionPointerType C ?c \<or> isPointerType C ?c \<and> isFunctionPointerType C (pointee C ?c)")
    case True
    then show ?thesis
      using IH [OF Cons.prems(2,3), of "emplace_callback name (cl_canonical C (pointee C ?c)) root"]
        IH [OF Cons.prems(2,3), of "emplace_out name (cl_canonical C (pointee C (pointee C ?c))) root"]
      by (auto simp: c Let_def)
  next
    case False
    from cached_tree_same [OF assms(1) Cons.prems(2,3) canonical_idem [OF ok] _ a(2,3)] False obtain c1 c2 t1 t2 where
      t: "cached_tree C n ?c cache1 = Some (c1, t1)" "cached_tree C n ?c cache2 = Some (c2, t2)" "cache_ok C n c1" "cache_ok C n c2"
      "t1 = t2 \<or> ct_status t1 = NoCallbacks \<and> ct_status t2 = NoCallbacks" by blast
    have step: "argument_tree C n (typed_args (e # args)) cache root =
        (case ct_status u of Unsupported \<Rightarrow> Some (cache', status_tree Unsupported)
         | HasCallbacks \<Rightarrow> argument_tree C n (typed_args args) cache' (emplace_child name u root)
         | NoCallbacks \<Rightarrow> argument_tree C n (typed_args args) cache' root)"
      if "cached_tree C n ?c cache = Some (cache', u)" for cache cache' u
      using False that by (auto simp: c Let_def)
    show ?thesis
      unfolding step [OF t(1)] step [OF t(2)]
      using t(5) IH [OF t(3,4), of root] IH [OF t(3,4), of "emplace_child name t1 root"] t(3)
      by (cases "ct_status t1") auto
  qed
qed

text \<open>The tree a test finds, whatever the tests before it have left in the cache.\<close>

lemma callback_test_same:
  assumes "clang_ok C" "cache_ok C n cache"
    and "\<forall>t \<in> set (fv_argTypes (ps_realFunctionTypeView p)). \<not> isFunctionType C (cl_canonical C t) \<and> card (all_fields C (cl_canonical C t)) < n"
  shows "\<exists>cache' empty' found. callback_testProc C n p cache = Some (cache', found) \<and> callback_testProc C n p [] = Some (empty', found) \<and>
    cache_ok C n cache'"
proof -
  let ?ts = "fv_argTypes (ps_realFunctionTypeView p)"
  let ?args = "zip (arg_names (length ?ts)) ?ts"
  have l: "length (arg_names (length ?ts)) = length ?ts" by (simp add: arg_names_def)
  have t: "typed_args ?args = fi_args (info_of_view (ps_realFunctionTypeView p))"
    by (rule nth_equalityI) (simp_all add: typed_args_def l info_of_view_def arg_names_nth)
  have "distinct (map fst ?args)" using arg_names_ok [of "length ?ts"] by (simp add: l names_ok_def)
  moreover have "snd ` set ?args = set ?ts" using l by (metis map_snd_zip set_map)
  ultimately have ok: "argument_types_ok C n ?args" using assms(3) by (simp add: argument_types_ok_def)
  have e: "cache_ok C n []" by (simp add: cache_ok_def)
  from argument_tree_same [OF assms(1) ok assms(2) e, of "status_tree HasCallbacks"] obtain c1 c2 tree where
    r: "argument_tree C n (typed_args ?args) cache (status_tree HasCallbacks) = Some (c1, tree)"
    "argument_tree C n (typed_args ?args) [] (status_tree HasCallbacks) = Some (c2, tree)" "cache_ok C n c1" by blast
  show ?thesis
    by (rule exI [of _ c1], rule exI [of _ c2], rule exI [of _ "if ct_status tree = NoCallbacks then None else Some tree"])
      (use r in \<open>simp add: callback_testProc_def buildArgumentTree_def t\<close>)
qed

end
