(* ===== verification/Generate_Passes.thy ===== *)
theory Generate_Passes
  imports LibC_Format Callback_Substituter "HOL-Library.Multiset"
begin

text \<open>
  The passes of \<open>TLC generate\<close> as the pipeline sees them: each class of \<open>src/tools/TLC/Passes\<close> as one
  pass over documents, the registry of them, and which of them run on which proc. The interpretation of
  \<open>stable_tests\<close> shows that their tests are predicates of the proc.
\<close>

subsection \<open>The passes of the compiler\<close>

text \<open>The state the passes keep: a type per printf/scanf builder, the filters, the trees.\<close>

record 't pass_state =
  st_cvargEntryPtrType :: "int \<Rightarrow> 't option"
  st_filters :: type_filters
  st_treeCache :: "'t tree_cache"

type_synonym 't generate_document = "('t, 't pass_state) document"

datatype 't pass_message =
  Format_message format_message
| Tree_message "'t callback_tree"
| Filter_message filter_message
| Name_message int

type_synonym 't generate_pass = "('t generate_document, proc_ref, 't pass_message) Pass"

definition empty_pass_state :: "'t pass_state" where
  "empty_pass_state = \<lparr>st_cvargEntryPtrType = (\<lambda>_. None), st_filters = \<lparr>tf_procArgFilters = [], tf_procRetFilters = []\<rparr>, st_treeCache = []\<rparr>"

text \<open>
  A translation unit as Clang gives it to the run: its types, what the matchers find in it, the
  declarations of \<open>CVargEntry\<close>. The fuel is for the depth of its records.
\<close>

record 't translation_unit =
  tu_types :: "'t clang_types"
  tu_depth :: nat
  tu_template_params :: "nat \<Rightarrow> template_param list"
  tu_matches :: "'t match_result list"
  tu_filters :: "'t filter_match list"
  tu_vargEntries :: "'t option list"

text \<open>A test on the proc, whose message is left for the hooks.\<close>

definition test_with :: "('t ProcSnippet \<Rightarrow> 't generate_document \<Rightarrow> ('t generate_document \<times> 't pass_message option) option) \<Rightarrow>
    proc_ref \<Rightarrow> 't generate_document \<Rightarrow> ('t generate_document \<times> bool \<times> 't pass_message option) option" where
  "test_with f r doc =
     (case proc_at doc r of
        None \<Rightarrow> None
      | Some p \<Rightarrow> map_option (\<lambda>(doc, msg). (doc, msg \<noteq> None, msg)) (f p doc))"

definition LibCFormatPass :: "'t translation_unit \<Rightarrow> libc_format \<Rightarrow> 't generate_pass" where
  "LibCFormatPass tu lf = (base_pass Builder (lf_id lf) ''LibCFormat'')
     \<lparr>p_handleTranslationUnit := (\<lambda>doc.
        let st = dc_passState doc;
            (t, doc) = libc_handleTranslationUnit (tu_types tu) (tu_vargEntries tu) doc (st_cvargEntryPtrType st (lf_id lf))
        in Some (doc\<lparr>dc_passState := st\<lparr>st_cvargEntryPtrType := (st_cvargEntryPtrType st)(lf_id lf := t)\<rparr>\<rparr>)),
      p_testProc := test_with (\<lambda>p doc. map_option (\<lambda>m. (doc, map_option Format_message m)) (libc_testProc (tu_types tu) lf p)),
      p_beginHandleProc := (\<lambda>r msg doc.
        case msg of
          Some (Format_message m) \<Rightarrow>
            on_proc (libc_beginHandleProc (tu_types tu) lf (st_cvargEntryPtrType (dc_passState doc) (lf_id lf)) (dc_mode doc) m) r doc
        | _ \<Rightarrow> None)\<rparr>"

definition CallbackSubstituterPass :: "'t translation_unit \<Rightarrow> 't generate_pass" where
  "CallbackSubstituterPass tu = (base_pass Guard 5 ''CallbackSubstituter'')
     \<lparr>p_testProc := test_with (\<lambda>p doc.
        map_option (\<lambda>(cache, found). (doc\<lparr>dc_passState := (dc_passState doc)\<lparr>st_treeCache := cache\<rparr>\<rparr>, map_option Tree_message found))
          (callback_testProc (tu_types tu) (tu_depth tu) p (st_treeCache (dc_passState doc)))),
      p_beginHandleProc := (\<lambda>r msg doc.
        case (msg, proc_at doc r) of
          (Some (Tree_message tree), Some p) \<Rightarrow>
            (case callback_beginHandleProc (tu_types tu) (dc_callbackTypes doc) (dc_mode doc) tree p of
               (p, err) \<Rightarrow>
                 (let doc = put_proc r p doc in Some (case err of None \<Rightarrow> doc | Some e \<Rightarrow> reportError e doc)))
        | _ \<Rightarrow> None)\<rparr>"

definition TypeFilterPass :: "'t translation_unit \<Rightarrow> 't generate_pass" where
  "TypeFilterPass tu = (base_pass Guard 6 ''TypeFilter'')
     \<lparr>p_handleTranslationUnit := (\<lambda>doc.
        let st = dc_passState doc
        in Some (doc\<lparr>dc_passState := st\<lparr>st_filters := filter_handleTranslationUnit (tu_types tu) (tu_filters tu) (st_filters st)\<rparr>\<rparr>)),
      p_testProc := test_with (\<lambda>p doc. map_option (\<lambda>m. (doc, map_option Filter_message m))
        (filter_testProc (tu_types tu) (st_filters (dc_passState doc)) p)),
      p_beginHandleProc := (\<lambda>r msg doc.
        case msg of Some (Filter_message m) \<Rightarrow> on_proc (filter_beginHandleProc (tu_types tu) m) r doc | _ \<Rightarrow> None)\<rparr>"

definition GetProcAddressPass :: "'t translation_unit \<Rightarrow> 't generate_pass" where
  "GetProcAddressPass tu = (base_pass Misc ID_GetProcAddress ''GetProcAddress'')
     \<lparr>p_testProc := test_with (\<lambda>p doc. Some (doc, map_option Name_message (gpa_testProc (tu_types tu) p))),
      p_beginHandleProc := (\<lambda>r msg doc.
        case msg of Some (Name_message i) \<Rightarrow> on_proc (gpa_beginHandleProc (dc_mode doc) i) r doc | _ \<Rightarrow> None)\<rparr>"

text \<open>The registry; the linker decides on the order of its entries.\<close>

definition libc_formats :: "libc_format list" where
  "libc_formats = [PrintFPass, VPrintFPass, ScanFPass, VScanFPass]"

definition registered_passes :: "'t translation_unit \<Rightarrow> 't generate_pass list" where
  "registered_passes tu =
     DefaultBuilderPass (tu_types tu) # map (LibCFormatPass tu) libc_formats @
     [CallbackSubstituterPass tu, TypeFilterPass tu, GetProcAddressPass tu]"

definition pass_maps_of :: "'t translation_unit \<Rightarrow> ('t generate_document, proc_ref, 't pass_message) pass_maps" where
  "pass_maps_of tu = beginSourceFileAction (map Some (registered_passes tu))"

lemmas pass_defs = LibCFormatPass_def CallbackSubstituterPass_def TypeFilterPass_def GetProcAddressPass_def DefaultBuilderPass_def base_pass_def

lemma pass_slots [simp]:
  "p_phase (DefaultBuilderPass C) = Builder" "p_id (DefaultBuilderPass C) = 0"
  "p_phase (LibCFormatPass tu lf) = Builder" "p_id (LibCFormatPass tu lf) = lf_id lf"
  "p_phase (CallbackSubstituterPass tu) = Guard" "p_id (CallbackSubstituterPass tu) = 5"
  "p_phase (TypeFilterPass tu) = Guard" "p_id (TypeFilterPass tu) = 6"
  "p_phase (GetProcAddressPass tu) = Misc" "p_id (GetProcAddressPass tu) = 7"
  by (simp_all add: pass_defs ID_DefaultBuilder_def ID_GetProcAddress_def)

lemma pass_maps_of_eq:
  "pass_maps_of tu = (\<lambda>_. [])
     (Builder := (0, DefaultBuilderPass (tu_types tu)) # map (\<lambda>lf. (lf_id lf, LibCFormatPass tu lf)) libc_formats,
      Guard := [(5, CallbackSubstituterPass tu), (6, TypeFilterPass tu)],
      Misc := [(7, GetProcAddressPass tu)])"
  by (simp add: pass_maps_of_def beginSourceFileAction_def registered_passes_def libc_formats_def register_pass_def omap_set_def
      PrintFPass_def VPrintFPass_def ScanFPass_def VScanFPass_def fun_eq_iff)

text \<open>No two passes of one phase have one id, so the maps do not depend on the order of the registry.\<close>

lemma register_lookup:
  assumes "\<forall>phase. omap_ok (maps phase)"
  shows "(\<forall>phase. omap_ok (fold register_pass (map Some ps) maps phase)) \<and>
    (\<forall>phase. phase \<noteq> NumPhases \<longrightarrow> map_of (fold register_pass (map Some ps) maps phase) =
       map_of (maps phase) ++ map_of (rev (map (\<lambda>p. (p_id p, p)) (filter (\<lambda>p. p_phase p = phase) ps))))"
  using assms
proof (induction ps arbitrary: maps)
  case (Cons p ps)
  let ?m = "register_pass (Some p) maps"
  have ok: "\<forall>phase. omap_ok (?m phase)" using Cons.prems by (simp add: register_pass_def omap_set_ok)
  have "map_of (?m phase) = (if p_phase p = phase then (map_of (maps phase))(p_id p \<mapsto> p) else map_of (maps phase))"
    if "phase \<noteq> NumPhases" for phase
    using that Cons.prems by (auto simp: register_pass_def map_of_set)
  then show ?case using Cons.IH [OF ok] by (auto simp: map_add_def fun_eq_iff split: option.splits)
qed simp

lemma register_none: "fold register_pass (map Some ps) maps NumPhases = maps NumPhases"
  by (induction ps arbitrary: maps) (auto simp: register_pass_def)

lemma registry_phase:
  fixes ps :: "'t generate_pass list"
  assumes "mset ps = mset (registered_passes tu)" "phase \<noteq> NumPhases"
  shows "beginSourceFileAction (map Some ps) phase = pass_maps_of tu phase"
proof (rule omap_eqI)
  have e: "\<forall>phase :: PassPhase. omap_ok ((\<lambda>_. []) phase :: (int \<times> 't generate_pass) list)" by simp
  note r = register_lookup [where maps = "\<lambda>_. []", OF e]
  show "omap_ok (beginSourceFileAction (map Some ps) phase)" "omap_ok (pass_maps_of tu phase)"
    unfolding beginSourceFileAction_def pass_maps_of_def using r by blast+
  let ?e = "\<lambda>ps :: 't generate_pass list. map (\<lambda>p. (p_id p, p)) (filter (\<lambda>p. p_phase p = phase) ps)"
  have s: "set (?e ps) = set (?e (registered_passes tu))" by (simp only: set_map set_filter mset_eq_setD [OF assms(1)])
  have m: "mset (map fst (?e ps)) = mset (map fst (?e (registered_passes tu)))" using assms(1) by (simp only: mset_map mset_filter)
  have d: "distinct (map fst (?e (registered_passes tu)))"
    using assms(2) by (cases phase)
      (simp_all add: registered_passes_def libc_formats_def PrintFPass_def VPrintFPass_def ScanFPass_def VScanFPass_def)
  have d': "distinct (map fst (?e ps))" using d by (simp only: mset_eq_imp_distinct_iff [OF m])
  have l: "map_of (beginSourceFileAction (map Some qs) phase) = map_of (?e qs)" if "distinct (map fst (?e qs))" for qs :: "'t generate_pass list"
    using r [of qs, THEN conjunct2, rule_format, OF assms(2)] by (simp only: beginSourceFileAction_def map_of_rev_distinct [OF that]) simp
  have "map_of (?e ps) = map_of (?e (registered_passes tu))" using s by (simp only: map_of_inject_set [OF d' d])
  then show "map_of (beginSourceFileAction (map Some ps) phase) = map_of (pass_maps_of tu phase)"
    unfolding pass_maps_of_def l [OF d] l [OF d'] .
qed

lemma registry_order:
  assumes "mset ps = mset (registered_passes tu)"
  shows "beginSourceFileAction (map Some ps) = pass_maps_of tu"
proof
  fix phase
  show "beginSourceFileAction (map Some ps) phase = pass_maps_of tu phase"
    using registry_phase [OF assms, of phase]
    by (cases "phase = NumPhases") (simp_all add: beginSourceFileAction_def pass_maps_of_def register_none)
qed

subsection \<open>Which passes run on which proc\<close>

definition without_cache :: "'t generate_document \<Rightarrow> 't generate_document" where
  "without_cache doc = doc\<lparr>dc_passState := (dc_passState doc)\<lparr>st_treeCache := []\<rparr>\<rparr>"

definition unit_ok :: "'t translation_unit \<Rightarrow> bool" where
  "unit_ok tu \<longleftrightarrow> clang_ok (tu_types tu)"

text \<open>The selection changes the cache of the trees only.\<close>

definition in_selection :: "'t translation_unit \<Rightarrow> 't generate_document \<Rightarrow> 't generate_document \<Rightarrow> bool" where
  "in_selection tu doc0 doc \<longleftrightarrow>
     unit_ok tu \<and> dc_errors doc0 = [] \<and> without_cache doc = without_cache doc0 \<and>
     cache_ok (tu_types tu) (tu_depth tu) (st_treeCache (dc_passState doc))"

text \<open>A proc on which every test is defined: it has a result type, and its parameters are objects of bounded depth.\<close>

definition testable :: "'t translation_unit \<Rightarrow> 't ProcSnippet \<Rightarrow> bool" where
  "testable tu p \<longleftrightarrow>
     fv_returnType (ps_realFunctionTypeView p) \<noteq> None \<and>
     (\<forall>lf \<in> set libc_formats. libc_testProc (tu_types tu) lf p \<noteq> None) \<and>
     (\<forall>t \<in> set (fv_argTypes (ps_realFunctionTypeView p)).
        \<not> isFunctionType (tu_types tu) (cl_canonical (tu_types tu) t) \<and> card (all_fields (tu_types tu) (cl_canonical (tu_types tu) t)) < tu_depth tu)"

definition testable_ref :: "'t translation_unit \<Rightarrow> 't generate_document \<Rightarrow> proc_ref \<Rightarrow> bool" where
  "testable_ref tu doc r \<longleftrightarrow> (\<exists>p. proc_at doc r = Some p \<and> testable tu p)"

definition found_tree_of :: "'t translation_unit \<Rightarrow> 't ProcSnippet \<Rightarrow> 't callback_tree option" where
  "found_tree_of tu p = snd (the (callback_testProc (tu_types tu) (tu_depth tu) p []))"

text \<open>What a pass makes of a proc: no match, or a match with its message.\<close>

definition proc_match :: "'t translation_unit \<Rightarrow> type_filters \<Rightarrow> 't ProcSnippet \<Rightarrow> 't generate_pass \<Rightarrow> 't pass_message option option" where
  "proc_match tu fs p pass =
     (case List.find (\<lambda>lf. lf_id lf = p_id pass) libc_formats of
        Some lf \<Rightarrow> map_option (\<lambda>m. Some (Format_message m)) (the (libc_testProc (tu_types tu) lf p))
      | None \<Rightarrow>
          if p_id pass = 0 then Some None
          else if p_id pass = 5 then map_option (\<lambda>t. Some (Tree_message t)) (found_tree_of tu p)
          else if p_id pass = 6 then map_option (\<lambda>m. Some (Filter_message m)) (the (filter_testProc (tu_types tu) fs p))
          else map_option (\<lambda>i. Some (Name_message i)) (gpa_testProc (tu_types tu) p))"

definition accepts_proc :: "'t translation_unit \<Rightarrow> 't generate_document \<Rightarrow> 't generate_pass \<Rightarrow> proc_ref \<Rightarrow> 't pass_message option option" where
  "accepts_proc tu doc pass r = proc_match tu (st_filters (dc_passState doc)) (the (proc_at doc r)) pass"

lemma without_cache_eqD:
  assumes "without_cache doc = without_cache doc0"
  shows "proc_at doc r = proc_at doc0 r" "st_filters (dc_passState doc) = st_filters (dc_passState doc0)" "dc_errors doc = dc_errors doc0"
proof -
  have "dc_procs (without_cache doc) = dc_procs (without_cache doc0)" "dc_errors (without_cache doc) = dc_errors (without_cache doc0)"
    "st_filters (dc_passState (without_cache doc)) = st_filters (dc_passState (without_cache doc0))" using assms by simp_all
  then show "proc_at doc r = proc_at doc0 r" "st_filters (dc_passState doc) = st_filters (dc_passState doc0)" "dc_errors doc = dc_errors doc0"
    by (simp_all add: without_cache_def proc_at_def)
qed

lemma without_cache_idem [simp]:
  "without_cache (doc\<lparr>dc_passState := (dc_passState doc)\<lparr>st_treeCache := cache\<rparr>\<rparr>) = without_cache doc"
  by (simp add: without_cache_def)

lemma format_ids: "lf \<in> set libc_formats \<Longrightarrow> List.find (\<lambda>lf'. lf_id lf' = lf_id lf) libc_formats = Some lf"
  by (auto simp: libc_formats_def PrintFPass_def VPrintFPass_def ScanFPass_def VScanFPass_def)

lemma other_ids: "i \<in> {0, 5, 6, 7} \<Longrightarrow> List.find (\<lambda>lf. lf_id lf = i) libc_formats = None"
  by (auto simp: libc_formats_def PrintFPass_def VPrintFPass_def ScanFPass_def VScanFPass_def)

lemma all_passes_of: "set (all_passes (pass_maps_of tu)) = set (registered_passes tu)"
  by (auto simp: all_passes_def pass_maps_of_eq registered_passes_def)

lemma test_accepts:
  assumes "pass \<in> set (registered_passes tu)" "testable_ref tu doc0 r" "in_selection tu doc0 doc"
  shows "\<exists>doc'. p_testProc pass r doc = Some (doc', accepts_proc tu doc0 pass r \<noteq> None,
      case accepts_proc tu doc0 pass r of Some msg \<Rightarrow> msg | None \<Rightarrow> None) \<and> in_selection tu doc0 doc'"
proof -
  obtain p where p0: "proc_at doc0 r = Some p" "testable tu p" using assms(2) by (auto simp: testable_ref_def)
  note same = without_cache_eqD [of doc doc0]
  have s: "without_cache doc = without_cache doc0" using assms(3) by (simp add: in_selection_def)
  have p: "proc_at doc r = Some p" "st_filters (dc_passState doc) = st_filters (dc_passState doc0)" using same [OF s] p0(1) by simp_all
  consider "pass = DefaultBuilderPass (tu_types tu)" | lf where "lf \<in> set libc_formats" "pass = LibCFormatPass tu lf"
    | "pass = CallbackSubstituterPass tu" | "pass = TypeFilterPass tu" | "pass = GetProcAddressPass tu"
    using assms(1) by (auto simp: registered_passes_def)
  then show ?thesis
  proof cases
    case 1
    then show ?thesis using assms(3) by (simp add: accepts_proc_def proc_match_def other_ids) (simp add: pass_defs)
  next
    case 2
    then obtain m where "libc_testProc (tu_types tu) lf p = Some m" using p0(2) by (auto simp: testable_def)
    then show ?thesis using 2 p p0 assms(3)
      by (simp add: accepts_proc_def proc_match_def format_ids) (cases m; simp add: pass_defs test_with_def)
  next
    case 3
    from callback_test_same [of "tu_types tu" "tu_depth tu" "st_treeCache (dc_passState doc)" p] p0(2) assms(3) obtain cache empty found where
      "callback_testProc (tu_types tu) (tu_depth tu) p (st_treeCache (dc_passState doc)) = Some (cache, found)"
      "callback_testProc (tu_types tu) (tu_depth tu) p [] = Some (empty, found)" "cache_ok (tu_types tu) (tu_depth tu) cache"
      by (auto simp: testable_def in_selection_def unit_ok_def)
    then show ?thesis using 3 p p0 assms(3)
      by (simp add: accepts_proc_def proc_match_def other_ids found_tree_of_def)
        (cases found; simp add: pass_defs test_with_def in_selection_def)
  next
    case 4
    obtain m where "filter_testProc (tu_types tu) (st_filters (dc_passState doc0)) p = Some m"
      using p0(2) by (auto simp: filter_testProc_def testable_def Let_def)
    then show ?thesis using 4 p p0 assms(3)
      by (simp add: accepts_proc_def proc_match_def other_ids) (cases m; simp add: pass_defs test_with_def)
  next
    case 5
    then show ?thesis using p p0 assms(3)
      by (simp add: accepts_proc_def proc_match_def other_ids)
        (cases "gpa_testProc (tu_types tu) p"; simp add: pass_defs test_with_def)
  qed
qed

interpretation selection: stable_tests "in_selection tu doc0" hasErrorOccurred "pass_maps_of tu" "accepts_proc tu doc0" "testable_ref tu doc0"
  for tu :: "'t translation_unit" and doc0
proof unfold_locales
  fix pass r doc
  assume "pass \<in> set (all_passes (pass_maps_of tu))" "testable_ref tu doc0 r" "in_selection tu doc0 doc"
  then show "\<exists>s'. p_testProc pass r doc = Some (s', accepts_proc tu doc0 pass r \<noteq> None,
      case accepts_proc tu doc0 pass r of Some msg \<Rightarrow> msg | None \<Rightarrow> None) \<and> in_selection tu doc0 s'"
    by (intro test_accepts) (simp_all add: all_passes_of)
next
  fix doc
  assume "in_selection tu doc0 doc"
  then show "\<not> hasErrorOccurred doc"
    using without_cache_eqD(3) [of doc doc0] by (simp add: in_selection_def hasErrorOccurred_def)
qed

text \<open>
  The same in the terms of the tests: the first builder with a message, the default one else; the guards
  for callbacks and for filtered types; the conversion of addresses.
\<close>

definition builder_id :: "'t translation_unit \<Rightarrow> 't ProcSnippet \<Rightarrow> int" where
  "builder_id tu p =
     (case List.find (\<lambda>lf. libc_testProc (tu_types tu) lf p \<noteq> Some None) libc_formats of Some lf \<Rightarrow> lf_id lf | None \<Rightarrow> 0)"

definition filtered_proc :: "'t clang_types \<Rightarrow> type_filters \<Rightarrow> 't ProcSnippet \<Rightarrow> bool" where
  "filtered_proc C fs p \<longleftrightarrow>
     (\<exists>t \<in> set (fv_argTypes (ps_realFunctionTypeView p)). getTypeString C (cl_canonical C t) \<in> set (tf_procArgFilters fs)) \<or>
     (\<exists>t. fv_returnType (ps_realFunctionTypeView p) = Some t \<and> getTypeString C (cl_canonical C t) \<in> set (tf_procRetFilters fs))"

definition guard_ids :: "'t translation_unit \<Rightarrow> type_filters \<Rightarrow> 't ProcSnippet \<Rightarrow> int list" where
  "guard_ids tu fs p =
     (if \<exists>t \<in> set (fv_argTypes (ps_realFunctionTypeView p)). has_callback (tu_types tu) t then [5] else []) @
     (if filtered_proc (tu_types tu) fs p then [6] else [])"

definition misc_ids :: "'t translation_unit \<Rightarrow> 't ProcSnippet \<Rightarrow> int list" where
  "misc_ids tu p = (if gpa_testProc (tu_types tu) p = None then [] else [7])"

definition task_ids :: "('t generate_document, proc_ref, 't pass_message) RunPassTask list \<Rightarrow> (proc_ref \<times> int) list" where
  "task_ids tasks = map (\<lambda>(r, pass, msg). (r, p_id pass)) tasks"

lemma task_ids_simps [simp]:
  "task_ids [] = []" "task_ids (xs @ ys) = task_ids xs @ task_ids ys" "task_ids (concat xss) = concat (map task_ids xss)"
  by (simp add: task_ids_def, simp add: task_ids_def, induction xss) (simp_all add: task_ids_def)

lemma filter_match_iff:
  assumes "fv_returnType (ps_realFunctionTypeView p) \<noteq> None"
  shows "the (filter_testProc C fs p) \<noteq> None \<longleftrightarrow> filtered_proc C fs p"
proof -
  obtain r where r: "fv_returnType (ps_realFunctionTypeView p) = Some r" using assms by auto
  have "filter (\<lambda>i. Q (xs ! i)) [0..<length xs] = [] \<longleftrightarrow> \<not> (\<exists>t \<in> set xs. Q t)" for Q :: "'a \<Rightarrow> bool" and xs
    by (auto simp: filter_empty_conv in_set_conv_nth) (metis nth_mem)
  from this [of "\<lambda>t. getTypeString C (cl_canonical C t) \<in> set (tf_procArgFilters fs)" "fv_argTypes (ps_realFunctionTypeView p)"]
  show ?thesis by (auto simp: filter_testProc_def filtered_proc_def Let_def r)
qed

lemma found_tree_iff:
  assumes "unit_ok tu" "testable tu p"
  shows "found_tree_of tu p \<noteq> None \<longleftrightarrow> (\<exists>t \<in> set (fv_argTypes (ps_realFunctionTypeView p)). has_callback (tu_types tu) t)"
proof -
  have "cache_ok (tu_types tu) (tu_depth tu) []" by (simp add: cache_ok_def)
  from callback_test_found [OF _ this refl, of p] assms show ?thesis
    by (auto simp: found_tree_of_def unit_ok_def testable_def)
qed

lemma builder_of_id:
  assumes "testable_ref tu doc r"
  shows "task_ids [chosen_builder (accepts_proc tu doc) (pass_maps_of tu) r] = [(r, builder_id tu (the (proc_at doc r)))]"
proof -
  obtain p where p: "proc_at doc r = Some p" "testable tu p" using assms by (auto simp: testable_ref_def)
  have m: "accepts_proc tu doc (LibCFormatPass tu lf) r = None \<longleftrightarrow> libc_testProc (tu_types tu) lf p = Some None"
    if "lf \<in> set libc_formats" for lf
    using that p by (auto simp: accepts_proc_def proc_match_def format_ids testable_def)
  have f: "PrintFPass \<in> set libc_formats" "VPrintFPass \<in> set libc_formats" "ScanFPass \<in> set libc_formats" "VScanFPass \<in> set libc_formats"
    by (simp_all add: libc_formats_def)
  have i: "lf_id PrintFPass = 1" "lf_id VPrintFPass = 2" "lf_id ScanFPass = 3" "lf_id VScanFPass = 4"
    by (simp_all add: PrintFPass_def VPrintFPass_def ScanFPass_def VScanFPass_def)
  show ?thesis
    by (simp add: chosen_builder_def pass_maps_of_eq libc_formats_def ID_DefaultBuilder_def m [OF f(1)] m [OF f(2)] m [OF f(3)] m [OF f(4)] i
        builder_id_def p(1) task_ids_def del: not_None_eq not_Some_eq)
qed

lemma guards_of_ids:
  assumes "unit_ok tu" "testable_ref tu doc r"
  shows "task_ids (accepted_tasks (accepts_proc tu doc) (map snd (pass_maps_of tu Guard)) r) =
      map (Pair r) (guard_ids tu (st_filters (dc_passState doc)) (the (proc_at doc r)))"
    "task_ids (accepted_tasks (accepts_proc tu doc) (map snd (pass_maps_of tu Misc)) r) = map (Pair r) (misc_ids tu (the (proc_at doc r)))"
proof -
  obtain p where p: "proc_at doc r = Some p" "testable tu p" using assms(2) by (auto simp: testable_ref_def)
  have "accepts_proc tu doc (CallbackSubstituterPass tu) r \<noteq> None \<longleftrightarrow>
      (\<exists>t \<in> set (fv_argTypes (ps_realFunctionTypeView p)). has_callback (tu_types tu) t)"
    using found_tree_iff [OF assms(1) p(2)] by (simp add: accepts_proc_def proc_match_def other_ids p)
  moreover have "accepts_proc tu doc (TypeFilterPass tu) r \<noteq> None \<longleftrightarrow> filtered_proc (tu_types tu) (st_filters (dc_passState doc)) p"
    using filter_match_iff [of p] p(2) by (simp add: accepts_proc_def proc_match_def other_ids p(1) testable_def)
  ultimately show "task_ids (accepted_tasks (accepts_proc tu doc) (map snd (pass_maps_of tu Guard)) r) =
      map (Pair r) (guard_ids tu (st_filters (dc_passState doc)) (the (proc_at doc r)))"
    by (simp add: accepted_tasks_def pass_maps_of_eq task_ids_def guard_ids_def p(1))
  have "accepts_proc tu doc (GetProcAddressPass tu) r \<noteq> None \<longleftrightarrow> gpa_testProc (tu_types tu) p \<noteq> None"
    by (simp add: accepts_proc_def proc_match_def other_ids p)
  then show "task_ids (accepted_tasks (accepts_proc tu doc) (map snd (pass_maps_of tu Misc)) r) = map (Pair r) (misc_ids tu (the (proc_at doc r)))"
    by (simp add: accepted_tasks_def pass_maps_of_eq task_ids_def misc_ids_def p(1))
qed

lemma expected_tasks_accepted:
  assumes "(r, pass, msg) \<in> set (expected_tasks (accepts_proc tu doc) (pass_maps_of tu) refs)"
  shows "pass \<in> set (registered_passes tu) \<and> accepts_proc tu doc pass r = Some msg"
proof -
  let ?acc = "accepts_proc tu doc" and ?maps = "pass_maps_of tu"
  from assms consider "(r, pass, msg) = chosen_builder ?acc ?maps r"
    | "(r, pass, msg) \<in> set (accepted_tasks ?acc (map snd (?maps Guard)) r)"
    | "(r, pass, msg) \<in> set (accepted_tasks ?acc (map snd (?maps Misc)) r)"
    by (auto simp: expected_tasks_def accepted_tasks_def chosen_builder_def split: option.splits)
  then show ?thesis
  proof cases
    case 1
    show ?thesis
    proof (cases "List.find (\<lambda>(passID, pass). passID \<noteq> ID_DefaultBuilder \<and> ?acc pass r \<noteq> None) (?maps Builder)")
      case None
      then show ?thesis using 1
        by (simp add: chosen_builder_def pass_maps_of_eq ID_DefaultBuilder_def accepts_proc_def proc_match_def other_ids registered_passes_def)
    next
      case (Some e)
      then have "e \<in> set (?maps Builder)" "?acc (snd e) r \<noteq> None" by (auto simp: find_Some_iff) (metis nth_mem)
      moreover have "pass = snd e" "msg = the (?acc (snd e) r)" using 1 Some by (auto simp: chosen_builder_def split: prod.splits)
      ultimately show ?thesis by (auto simp: pass_maps_of_eq registered_passes_def)
    qed
  next
    case 2
    then have "pass \<in> set (map snd (?maps Guard))" "?acc pass r = Some msg" by (auto simp: accepted_tasks_def)
    then show ?thesis by (auto simp: pass_maps_of_eq registered_passes_def)
  next
    case 3
    then have "pass \<in> set (map snd (?maps Misc))" "?acc pass r = Some msg" by (auto simp: accepted_tasks_def)
    then show ?thesis by (auto simp: pass_maps_of_eq registered_passes_def)
  qed
qed

text \<open>
  C8. Whatever the order in which the passes are registered, and whatever the tests leave in the cache: in a document without
  errors the selection ends without one and changes nothing but the cache. Every proc gets one
  builder, the first of the printf and scanf builders that has a message for it or the default one; then come the
  callback substituter for the procs with a function pointer among what their arguments reach and the type filter
  for those with a filtered type, proc by proc, and at the end the conversion of looked-up addresses. Each
  task has the message of its pass's test.
\<close>

theorem generate_selects:
  assumes "unit_ok tu" "mset ps = mset (registered_passes tu)" "dc_errors doc = []" "st_treeCache (dc_passState doc) = []"
    and "\<forall>r \<in> set (proc_refs doc). testable_ref tu doc r"
  shows "\<exists>doc' tasks. select_tasks hasErrorOccurred reportError (beginSourceFileAction (map Some ps)) (proc_refs doc) doc = Some (Continue doc' tasks) \<and>
    without_cache doc' = without_cache doc \<and>
    (let refs = proc_refs doc; proc = \<lambda>r. the (proc_at doc r); fs = st_filters (dc_passState doc) in
     task_ids tasks = map (\<lambda>r. (r, builder_id tu (proc r))) refs @
       concat (map (\<lambda>r. map (Pair r) (guard_ids tu fs (proc r))) refs) @ concat (map (\<lambda>r. map (Pair r) (misc_ids tu (proc r))) refs) \<and>
     (\<forall>(r, pass, msg) \<in> set tasks. pass \<in> set (registered_passes tu) \<and> proc_match tu fs (proc r) pass = Some msg))"
proof -
  let ?maps = "pass_maps_of tu" and ?refs = "proc_refs doc"
  let ?tasks = "expected_tasks (accepts_proc tu doc) ?maps ?refs"
  have inv: "in_selection tu doc doc" using assms(1,3,4) by (simp add: in_selection_def cache_ok_def)
  have def0: "map_of (?maps Builder) ID_DefaultBuilder = Some (DefaultBuilderPass (tu_types tu))" by (simp add: pass_maps_of_eq ID_DefaultBuilder_def)
  from selection.selects_expected [OF inv assms(5), of reportError] def0 obtain doc' where
    s: "select_tasks hasErrorOccurred reportError ?maps ?refs doc = Some (Continue doc' ?tasks)" "in_selection tu doc doc'" by auto
  have ids: "task_ids ?tasks = map (\<lambda>r. (r, builder_id tu (the (proc_at doc r)))) ?refs @
      concat (map (\<lambda>r. map (Pair r) (guard_ids tu (st_filters (dc_passState doc)) (the (proc_at doc r)))) ?refs) @
      concat (map (\<lambda>r. map (Pair r) (misc_ids tu (the (proc_at doc r)))) ?refs)"
  proof -
    have "task_ids (map (chosen_builder (accepts_proc tu doc) ?maps) rs) = map (\<lambda>r. (r, builder_id tu (the (proc_at doc r)))) rs"
      if "\<forall>r \<in> set rs. testable_ref tu doc r" for rs
      using that builder_of_id by (induction rs) (auto simp: task_ids_def)
    then show ?thesis
      using guards_of_ids [OF assms(1)] assms(5) by (simp add: expected_tasks_def comp_def cong: map_cong)
  qed
  have "pass \<in> set (registered_passes tu) \<and> accepts_proc tu doc pass r = Some msg" if "(r, pass, msg) \<in> set ?tasks" for r pass msg
    using expected_tasks_accepted [OF that] .
  then show ?thesis using s ids unfolding registry_order [OF assms(2)]
    by (intro exI [of _ doc'] exI [of _ ?tasks]) (auto simp: in_selection_def Let_def accepts_proc_def)
qed

definition demo_unit :: "nat translation_unit" where
  "demo_unit = \<lparr>tu_types = demo_clang, tu_depth = 7, tu_template_params = (\<lambda>_. []), tu_matches = [], tu_filters = [], tu_vargEntries = []\<rparr>"

definition demo_document :: "nat generate_document" where
  "demo_document = put_procs Function GuestToHost [(''reg'', demo_ops)] (document_init Guest [] [] (\<lambda>_. []) [] empty_pass_state)"

lemma demo_document_procs:
  "proc_refs demo_document = [(Function, GuestToHost, ''reg'')]" "proc_at demo_document (Function, GuestToHost, ''reg'') = Some demo_ops"
  "st_filters (dc_passState demo_document) = \<lparr>tf_procArgFilters = [], tf_procRetFilters = []\<rparr>"
  by (simp_all add: demo_document_def proc_refs_def proc_at_def document_init_def empty_pass_state_def put_procs_def)

lemma demo_ops_tests:
  "libc_testProc demo_clang PrintFPass demo_ops = Some None" "libc_testProc demo_clang VPrintFPass demo_ops = Some None"
  "libc_testProc demo_clang ScanFPass demo_ops = Some None" "libc_testProc demo_clang VScanFPass demo_ops = Some None"
  "gpa_testProc demo_clang demo_ops = None"
  by code_simp+

theorem generate_selects_witness:
  "\<exists>doc' tasks. select_tasks hasErrorOccurred reportError (beginSourceFileAction (map Some (rev (registered_passes demo_unit)))) (proc_refs demo_document) demo_document =
     Some (Continue doc' tasks) \<and> task_ids tasks = [((Function, GuestToHost, ''reg''), 0), ((Function, GuestToHost, ''reg''), 5)]"
proof -
  have u: "unit_ok demo_unit" by (simp add: unit_ok_def demo_unit_def demo_clang_ok)
  have v: "fv_argTypes (ps_realFunctionTypeView demo_ops) = [2, 3]" "fv_returnType (ps_realFunctionTypeView demo_ops) = Some 0"
    by (simp_all add: demo_ops_def)
  have "testable demo_unit demo_ops"
    using demo_clang_fields
    by (simp add: testable_def demo_unit_def v libc_formats_def demo_ops_tests isFunctionType_def demo_clang_shape demo_clang_canonical)
  then have r: "\<forall>r \<in> set (proc_refs demo_document). testable_ref demo_unit demo_document r"
    by (simp add: demo_document_procs testable_ref_def)
  have "has_callback demo_clang 3"
    using demo_clang_ok by (intro function_pointer_callback) (simp_all add: clang_ok_def demo_clang_canonical isFunctionPointerType_def isFunctionType_def demo_clang_shape)
  then have g: "guard_ids demo_unit \<lparr>tf_procArgFilters = [], tf_procRetFilters = []\<rparr> demo_ops = [5]"
    by (simp add: guard_ids_def filtered_proc_def v) (simp add: demo_unit_def)
  have o: "builder_id demo_unit demo_ops = 0" "misc_ids demo_unit demo_ops = []"
    by (simp_all add: builder_id_def misc_ids_def libc_formats_def demo_unit_def demo_ops_tests)
  have d: "dc_errors demo_document = []" "st_treeCache (dc_passState demo_document) = []"
    by (simp_all add: demo_document_def document_init_def empty_pass_state_def put_procs_def)
  have "mset (rev (registered_passes demo_unit)) = mset (registered_passes demo_unit)" by simp
  from generate_selects [OF u this d r] show ?thesis
    unfolding Let_def demo_document_procs by (auto simp: demo_document_procs g o)
qed

end
