(* ===== verification/File_Paths.thy ===== *)
theory File_Paths
  imports Library_Names
begin

text \<open>
  The paths of the tools' command lines: what \<open>src/tools/TLC/Commands\<close> uses of \<open>std::filesystem::path\<close>
  on POSIX beyond the theory of library names, and \<open>normalizePath\<close> of \<open>Generate.cpp\<close> and
  \<open>Dump.cpp\<close>. A normal path stays as it is.
\<close>

subsection \<open>Paths\<close>

definition is_relative :: "string \<Rightarrow> bool" where
  "is_relative p \<longleftrightarrow> p = [] \<or> hd p \<noteq> CHR ''/''"

definition path_stem :: "string \<Rightarrow> string" where
  "path_stem filename =
     (if filename = ''.'' \<or> filename = ''..'' then filename
      else (case rfind_char (CHR ''.'') filename of
              None \<Rightarrow> filename | Some i \<Rightarrow> if i = 0 then filename else take i filename))"

text \<open>A path of the command line, from the directory in which the tool was started.\<close>

definition normalizePath :: "string \<Rightarrow> string \<Rightarrow> string" where
  "normalizePath initialCwd path =
     lexically_normal (if is_relative path then fs_append initialCwd path else path)"

subsection \<open>Normal paths\<close>

text \<open>The parts between the slashes, empty ones too, and the names they leave in reverse.\<close>

fun split_slash :: "string \<Rightarrow> string list" where
  "split_slash [] = [[]]"
| "split_slash (c # cs) =
     (if c = CHR ''/'' then [] # split_slash cs
      else (case split_slash cs of [] \<Rightarrow> [[c]] | s # ss \<Rightarrow> (c # s) # ss))"

fun join_slash :: "string list \<Rightarrow> string" where
  "join_slash [] = []"
| "join_slash [s] = s"
| "join_slash (s # t # ss) = s @ ''/'' @ join_slash (t # ss)"

definition keep_name :: "bool \<Rightarrow> string \<Rightarrow> string list \<Rightarrow> string list" where
  "keep_name rooted name names =
     (if name = [] \<or> name = ''.'' then names
      else if name = ''..'' then
        (case names of
           [] \<Rightarrow> if rooted then [] else [''..'']
         | n # ns \<Rightarrow> if n = ''..'' then if rooted then n # ns else ''..'' # n # ns else ns)
      else name # names)"

definition normal_names :: "bool \<Rightarrow> string list \<Rightarrow> string list" where
  "normal_names rooted raw = rev (fold (keep_name rooted) raw [])"

lemma split_slash_not_Nil [simp]: "split_slash p \<noteq> []"
  by (induction p) (auto split: list.splits)

lemma split_slash_parts: "s \<in> set (split_slash p) \<Longrightarrow> CHR ''/'' \<notin> set s"
proof (induction p arbitrary: s)
  case (Cons c p)
  then show ?case by (cases "split_slash p") (auto split: if_splits)
qed simp

lemma split_slash_plain: "CHR ''/'' \<notin> set s \<Longrightarrow> split_slash s = [s]"
  by (induction s) auto

lemma split_slash_append: "CHR ''/'' \<notin> set s \<Longrightarrow> split_slash (s @ CHR ''/'' # p) = s # split_slash p"
  by (induction s) auto

lemma split_join_slash:
  assumes "ss \<noteq> []" "\<forall>s \<in> set ss. CHR ''/'' \<notin> set s"
  shows "split_slash (join_slash ss) = ss" "split_slash (join_slash ss @ ''/'') = ss @ [[]]"
  using assms by (induction ss rule: join_slash.induct) (simp_all add: split_slash_plain split_slash_append)

text \<open>Normal names: plain ones, behind dot-dots only in a relative path.\<close>

fun names_normal :: "bool \<Rightarrow> string list \<Rightarrow> bool" where
  "names_normal rooted [] \<longleftrightarrow> True"
| "names_normal rooted (n # ns) \<longleftrightarrow>
     n \<noteq> [] \<and> n \<noteq> ''.'' \<and> CHR ''/'' \<notin> set n \<and>
     (n = ''..'' \<longrightarrow> \<not> rooted \<and> set ns \<subseteq> {''..''}) \<and> names_normal rooted ns"

lemma keep_name_normal: "CHR ''/'' \<notin> set name \<Longrightarrow> names_normal rooted names \<Longrightarrow> names_normal rooted (keep_name rooted name names)"
  by (cases names) (auto simp: keep_name_def)

lemma normal_names_normal: "\<forall>s \<in> set raw. CHR ''/'' \<notin> set s \<Longrightarrow> names_normal rooted (rev (normal_names rooted raw))"
proof -
  have "\<forall>s \<in> set raw. CHR ''/'' \<notin> set s \<Longrightarrow> names_normal rooted ns \<Longrightarrow> names_normal rooted (fold (keep_name rooted) raw ns)" for ns
    by (induction raw arbitrary: ns) (simp_all add: keep_name_normal)
  then show "\<forall>s \<in> set raw. CHR ''/'' \<notin> set s \<Longrightarrow> ?thesis" by (simp add: normal_names_def)
qed

lemma normal_fixed: "names_normal rooted ns \<Longrightarrow> fold (keep_name rooted) (rev ns) [] = ns"
proof (induction ns)
  case (Cons n ns)
  then have "keep_name rooted n ns = n # ns" by (cases ns) (auto simp: keep_name_def)
  then show ?case using Cons by simp
qed simp

lemma normal_names_fixed: "names_normal rooted (rev names) \<Longrightarrow> normal_names rooted names = names"
  using normal_fixed [of rooted "rev names"] by (simp add: normal_names_def)

lemma normal_names_dots [simp]:
  "normal_names rooted (names @ [[]]) = normal_names rooted names" "normal_names rooted ([] # names) = normal_names rooted names"
  by (simp_all add: normal_names_def keep_name_def)

text \<open>A normal path stays as it is.\<close>

definition rendered_path :: "bool \<Rightarrow> string list \<Rightarrow> bool \<Rightarrow> string" where
  "rendered_path rooted names open =
     (if names = [] then (if rooted then ''/'' else ''.'')
      else (if rooted then ''/'' else []) @ join_slash names @ (if last names \<noteq> ''..'' \<and> open then ''/'' else []))"

lemma join_slash_join: "join ns ''/'' = join_slash ns"
  unfolding join_eq_intersperse by (induction ns rule: join_slash.induct) simp_all

lemma components_split: "components cur p = filter (\<lambda>s. s \<noteq> []) ((cur @ hd (split_slash p)) # tl (split_slash p))"
proof (induction p arbitrary: cur)
  case (Cons c p)
  then show ?case by (cases "split_slash p") (auto split: if_splits)
qed simp

lemma foldl_keep_name:
  "foldl (normal_step rooted) acc (filter (\<lambda>s. s \<noteq> []) raw) = rev (fold (keep_name rooted) raw (rev acc))"
proof (induction raw arbitrary: acc)
  case (Cons s raw)
  have "s \<noteq> [] \<Longrightarrow> rev (normal_step rooted acc s) = keep_name rooted s (rev acc)"
    by (cases acc rule: rev_cases) (auto simp: normal_step_def keep_name_def)
  then show ?case using Cons.IH [of "normal_step rooted acc s"] Cons.IH [of acc] by (cases "s = []") (simp_all add: keep_name_def)
qed simp

lemma split_slash_snoc:
  "split_slash (p @ [c]) = (if c = CHR ''/'' then split_slash p @ [[]] else butlast (split_slash p) @ [last (split_slash p) @ [c]])"
proof (induction p)
  case (Cons x p)
  then show ?case by (cases "split_slash p") auto
qed simp

lemma last_split_slash: "p \<noteq> [] \<Longrightarrow> last (split_slash p) = [] \<longleftrightarrow> last p = CHR ''/''"
  by (cases p rule: rev_cases) (simp_all add: split_slash_snoc)

lemma join_slash_empty: "names_normal rooted (rev names) \<Longrightarrow> join_slash names = [] \<longleftrightarrow> names = []"
proof -
  have "names_normal rooted ns \<Longrightarrow> [] \<notin> set ns" for ns by (induction ns) auto
  moreover assume "names_normal rooted (rev names)"
  ultimately have "[] \<notin> set names" by fastforce
  then show ?thesis by (cases names rule: join_slash.cases) auto
qed

lemma lexically_normal_rendered:
  assumes "p \<noteq> []"
  shows "lexically_normal p = rendered_path (\<not> is_relative p) (normal_names (\<not> is_relative p) (split_slash p))
    (last (split_slash p) \<in> {[], ''.'', ''..''})"
proof -
  let ?raw = "split_slash p"
  have c: "components [] p = filter (\<lambda>s. s \<noteq> []) ?raw" by (simp add: components_split)
  have rooted: "hd p = CHR ''/'' \<longleftrightarrow> \<not> is_relative p" using assms by (simp add: is_relative_def)
  have l: "last (filter (\<lambda>s. s \<noteq> []) ?raw) = last ?raw \<and> filter (\<lambda>s. s \<noteq> []) ?raw \<noteq> []" if "last ?raw \<noteq> []"
    using that by (cases ?raw rule: rev_cases) simp_all
  have d: "last p = CHR ''/'' \<or> filter (\<lambda>s. s \<noteq> []) ?raw \<noteq> [] \<and> last (filter (\<lambda>s. s \<noteq> []) ?raw) \<in> {''.'', ''..''} \<longleftrightarrow>
      last ?raw \<in> {[], ''.'', ''..''}"
    using l last_split_slash [OF assms] by (cases "last ?raw = []") simp_all
  define names where "names = normal_names (\<not> is_relative p) ?raw"
  define slash where "slash \<longleftrightarrow> last ?raw \<in> {[], ''.'', ''..''}"
  have n: "foldl (normal_step (\<not> is_relative p)) [] (filter (\<lambda>s. s \<noteq> []) ?raw) = names"
    by (simp add: foldl_keep_name names_def normal_names_def)
  have "names_normal (\<not> is_relative p) (rev names)" unfolding names_def by (rule normal_names_normal) (simp add: split_slash_parts)
  note e = join_slash_empty [OF this]
  show ?thesis
    unfolding lexically_normal_def Let_def c rooted d n slash_def [symmetric] names_def [symmetric]
    using assms e by (simp add: rendered_path_def join_slash_join)
qed

lemma split_rendered:
  assumes "names_normal rooted (rev names)" "names \<noteq> []"
  shows "rendered_path rooted names open \<noteq> []" "is_relative (rendered_path rooted names open) \<longleftrightarrow> \<not> rooted"
    "normal_names rooted (split_slash (rendered_path rooted names open)) = names"
    "last (split_slash (rendered_path rooted names open)) = (if last names \<noteq> ''..'' \<and> open then [] else last names)"
proof -
  have parts: "\<forall>s \<in> set names. s \<noteq> [] \<and> CHR ''/'' \<notin> set s"
  proof -
    have "names_normal rooted ns \<Longrightarrow> \<forall>s \<in> set ns. s \<noteq> [] \<and> CHR ''/'' \<notin> set s" for ns by (induction ns) auto
    from this [OF assms(1)] show ?thesis by simp
  qed
  obtain n ns where n: "names = n # ns" using assms(2) by (cases names) auto
  have j: "join_slash names = n @ (case ns of [] \<Rightarrow> [] | _ \<Rightarrow> ''/'' @ join_slash ns)" by (cases ns) (simp_all add: n)
  obtain c cs where c: "n = c # cs" "c \<noteq> CHR ''/''" using parts n by (cases n) auto
  have s: "split_slash (join_slash names @ (if last names \<noteq> ''..'' \<and> open then ''/'' else [])) =
      names @ (if last names \<noteq> ''..'' \<and> open then [[]] else [])"
    using split_join_slash [OF assms(2)] parts by simp
  show "rendered_path rooted names open \<noteq> []" "is_relative (rendered_path rooted names open) \<longleftrightarrow> \<not> rooted"
    using c assms(2) by (simp_all add: rendered_path_def j is_relative_def)
  have r: "split_slash (rendered_path rooted names open) =
      (if rooted then [[]] else []) @ names @ (if last names \<noteq> ''..'' \<and> open then [[]] else [])"
    using s assms(2) by (cases rooted) (simp_all add: rendered_path_def)
  show "normal_names rooted (split_slash (rendered_path rooted names open)) = names"
    unfolding r using normal_names_fixed [OF assms(1)] by (cases rooted) simp_all
  show "last (split_slash (rendered_path rooted names open)) = (if last names \<noteq> ''..'' \<and> open then [] else last names)"
    unfolding r using assms(2) by simp
qed

lemma rendered_normal:
  assumes "names_normal rooted (rev names)"
  shows "lexically_normal (rendered_path rooted names open) = rendered_path rooted names open"
proof (cases "names = []")
  case True
  have "lexically_normal ''/'' = ''/''" "lexically_normal ''.'' = ''.''" by code_simp+
  then show ?thesis by (simp add: True rendered_path_def)
next
  case False
  note s = split_rendered [OF assms False, of "open"]
  have "last names \<noteq> []" "last names \<noteq> ''.''"
    using assms False by (cases "rev names"; simp add: last_rev flip: hd_rev)+
  then have "rendered_path rooted names (last (split_slash (rendered_path rooted names open)) \<in> {[], ''.'', ''..''}) = rendered_path rooted names open"
    unfolding s(4) by (simp add: rendered_path_def)
  then show ?thesis unfolding lexically_normal_rendered [OF s(1)] s(2) not_not s(3) .
qed

lemma lexically_normal_idem: "lexically_normal (lexically_normal p) = lexically_normal p"
proof (cases "p = []")
  case False
  have "names_normal rooted (rev (normal_names rooted (split_slash p)))" for rooted
    by (rule normal_names_normal) (simp add: split_slash_parts)
  then show ?thesis unfolding lexically_normal_rendered [OF False] by (rule rendered_normal)
qed (simp add: lexically_normal_def)

lemma lexically_normal_absolute: "p \<noteq> [] \<Longrightarrow> is_relative (lexically_normal p) \<longleftrightarrow> is_relative p"
proof -
  assume p: "p \<noteq> []"
  have n: "names_normal (\<not> is_relative p) (rev (normal_names (\<not> is_relative p) (split_slash p)))"
    by (rule normal_names_normal) (simp add: split_slash_parts)
  show ?thesis
  proof (cases "normal_names (\<not> is_relative p) (split_slash p) = []")
    case True
    then show ?thesis by (simp add: lexically_normal_rendered [OF p]) (simp add: rendered_path_def is_relative_def)
  next
    case False
    then show ?thesis using split_rendered(2) [OF n] by (simp add: lexically_normal_rendered [OF p])
  qed
qed

lemma normalizePath_idem:
  assumes "\<not> is_relative cwd"
  shows "normalizePath cwd (normalizePath cwd p) = normalizePath cwd p"
proof -
  let ?q = "if is_relative p then fs_append cwd p else p"
  have "?q \<noteq> []" "\<not> is_relative ?q" using assms by (auto simp: fs_append_def is_relative_def)
  then have "\<not> is_relative (normalizePath cwd p)" by (simp add: normalizePath_def lexically_normal_absolute split: if_splits)
  then show ?thesis by (simp add: normalizePath_def [of cwd "normalizePath cwd p"]) (simp add: normalizePath_def lexically_normal_idem)
qed

end
