(* ===== verification/Generate_Command.thy ===== *)
theory Generate_Command
  imports Generate_Passes Manifest_Summary File_Paths
begin

text \<open>
  The command \<open>TLC generate\<close> (\<open>src/tools/TLC/Commands/Generate.cpp\<close>): the bridge that is parsed in
  place of the manifest, the procs requested by the summary, the steps over a translation unit, and what
  is written. A step that is undefined makes the run undefined.
\<close>

subsection \<open>The bridge\<close>

definition escapeForCIncludePath :: "string \<Rightarrow> string" where
  "escapeForCIncludePath path =
     concat (map (\<lambda>ch. if ch = CHR 0x5C \<or> ch = CHR 0x22 then [CHR 0x5C, ch] else [ch]) path)"

text \<open>The declarations of the callbacks, which are counted from 1.\<close>

definition bridge_alias :: "nat \<Rightarrow> CallbackInfo \<Rightarrow> string" where
  "bridge_alias i info =
     ''using '' @ (if ci_alias info \<noteq> [] then ci_alias info else ''PFN_UnknownCallback_'' @ std_to_string i) @
     '' = '' @ ci_signature info @ '';'' @ eol"

fun bridge_aliases :: "nat \<Rightarrow> (string \<times> CallbackInfo) list \<Rightarrow> string" where
  "bridge_aliases i [] = []"
| "bridge_aliases i ((signature, info) # cs) = bridge_alias (i + 1) info @ bridge_aliases (i + 1) cs"

definition buildBridgeTranslationUnitText :: "string \<Rightarrow> manifest_summary \<Rightarrow> string" where
  "buildBridgeTranslationUnitText manifestPath stat =
     ''// Auto-generated virtual translation unit for TLC generate'' @ eol @
     ''#include '' @ [CHR 0x22] @ escapeForCIncludePath manifestPath @ [CHR 0x22] @ eol @ eol @
     ''namespace lore::thunk::__bridge__ {'' @ eol @
     bridge_aliases 0 (ms_callbacks stat) @ ''}'' @ eol"

definition bridge_path :: "string \<Rightarrow> string" where
  "bridge_path manifestPath =
     lexically_normal (fs_append (fs_parent_path manifestPath) (path_stem (path_filename manifestPath) @ ''_TLCBridge.cpp''))"

text \<open>The arguments adjuster: every argument that names the manifest becomes the bridge.\<close>

definition adjust_arguments :: "string \<Rightarrow> string \<Rightarrow> string \<Rightarrow> string list \<Rightarrow> string list" where
  "adjust_arguments manifestPath bridgePath initialCwd args =
     (let manifestNorm = normalizePath initialCwd manifestPath in
      map (\<lambda>arg. if arg = manifestPath \<or> normalizePath initialCwd arg = manifestNorm then bridgePath else arg) args)"

subsection \<open>The requested procs\<close>

definition requested_functions :: "manifest_summary \<Rightarrow> ProcDirection \<Rightarrow> string list" where
  "requested_functions stat d = fold (\<lambda>(name, _). oset_insert name) (ms_functions stat d) []"

definition requested_aliases :: "manifest_summary \<Rightarrow> (string \<times> string) list" where
  "requested_aliases stat = fold (\<lambda>(signature, info). omap_set signature (ci_alias info)) (ms_callbacks stat) []"

definition requested_document :: "Mode \<Rightarrow> manifest_summary \<Rightarrow> string \<Rightarrow> 't generate_document" where
  "requested_document mode stat manifestPath =
     document_init mode (ms_fileName stat) manifestPath (requested_functions stat) (requested_aliases stat) empty_pass_state"

subsection \<open>One translation unit\<close>

text \<open>
  What is outside: the order of the registry, the alias of an exported function, the banner for the path
  of the manifest (the build makes the resource and the version), and what the compiler finds with a mapped
  file (path and text) for the arguments of a command, with the errors of the parse.
\<close>

record 't generate_world =
  gw_registry :: "'t translation_unit \<Rightarrow> 't generate_pass list"
  gw_getInvokeAlias :: "string \<Rightarrow> string \<Rightarrow> 't FunctionDecl \<Rightarrow> 't option \<Rightarrow> string + string"
  gw_warning :: "string \<Rightarrow> string"
  gw_parse :: "string \<times> string \<Rightarrow> string list \<Rightarrow> 't translation_unit \<times> string list"

definition generated_text :: "'t generate_world \<Rightarrow> 't translation_unit \<Rightarrow> string \<Rightarrow> 't generate_document \<Rightarrow> (string \<times> 't generate_document) option" where
  "generated_text w tu manifestStatPath doc =
     generateOutput (tu_types tu) (gw_getInvokeAlias w) doc (gw_warning w manifestStatPath @ eol @ eol)"

text \<open>The steps of the consumer; the output buffer is extended if all of them are without an error.\<close>

definition HandleTranslationUnit ::
    "'t generate_world \<Rightarrow> 't translation_unit \<Rightarrow> string \<Rightarrow> 't generate_document \<Rightarrow> string \<Rightarrow> ('t generate_document \<times> string) option" where
  "HandleTranslationUnit w tu manifestStatPath doc outBuffer =
     (let maps = beginSourceFileAction (map Some (gw_registry w tu)) in do {
        doc \<leftarrow> beginProcessDocument (tu_types tu) (tu_template_params tu) maps (tu_matches tu) doc;
        if hasErrorOccurred doc then Some (doc, outBuffer)
        else do {
          doc \<leftarrow> handleTranslationUnit maps doc;
          if hasErrorOccurred doc then Some (doc, outBuffer)
          else do {
            doc \<leftarrow> end_document maps doc;
            if hasErrorOccurred doc then Some (doc, outBuffer)
            else do {
              (out, doc) \<leftarrow> generated_text w tu manifestStatPath doc;
              Some (doc, outBuffer @ out)
            }
          }
        }
      })"

text \<open>
  The tool runs the action on each command of the manifest, with diagnostics of its own (the passes are
  created anew, the document stays), and fails if one of them has errors.
\<close>

definition run_command ::
    "'t generate_world \<Rightarrow> string \<times> string \<Rightarrow> string \<Rightarrow> 't generate_document \<times> string \<Rightarrow> string list \<Rightarrow> (('t generate_document \<times> string) \<times> bool) option" where
  "run_command w bridge manifestStatPath state args =
     (case (gw_parse w bridge args, state) of
        ((tu, errors), (doc, outBuffer)) \<Rightarrow>
          map_option (\<lambda>(doc, outBuffer). ((doc, outBuffer), \<not> hasErrorOccurred doc))
            (HandleTranslationUnit w tu manifestStatPath (doc\<lparr>dc_errors := errors, dc_passState := empty_pass_state\<rparr>) outBuffer))"

fun tool_run ::
    "'t generate_world \<Rightarrow> string \<times> string \<Rightarrow> string \<Rightarrow> string list list \<Rightarrow> 't generate_document \<times> string \<Rightarrow> (('t generate_document \<times> string) \<times> bool) option" where
  "tool_run w bridge manifestStatPath [] state = Some (state, True)"
| "tool_run w bridge manifestStatPath (args # commands) state =
     (case run_command w bridge manifestStatPath state args of
        None \<Rightarrow> None
      | Some (state, good) \<Rightarrow> map_option (\<lambda>(state, rest). (state, good \<and> rest)) (tool_run w bridge manifestStatPath commands state))"

subsection \<open>The command\<close>

record generate_options =
  go_mode :: Mode
  go_outputPath :: string
  go_manifestPath :: string

text \<open>An exit code and, where a file was opened for it, the path and the text written.\<close>

type_synonym generate_exit = "nat \<times> (string \<times> string) option"

definition write_output :: "(string \<Rightarrow> bool) \<Rightarrow> string \<Rightarrow> string \<Rightarrow> generate_exit" where
  "write_output can_open outputPath outBuffer =
     (if outBuffer = [] then (0, None)
      else
        (let path = (if outputPath = [] then ''-'' else outputPath) in
         if can_open path then (0, Some (path, outBuffer)) else (1, None)))"

text \<open>\<open>commands\<close> are the compile commands of the manifest, without one the tool fails; the summary is that of \<open>loadFromJson\<close>.\<close>

definition generate_main ::
    "'t generate_world \<Rightarrow> (string \<Rightarrow> bool) \<Rightarrow> generate_options \<Rightarrow> string \<Rightarrow> string option \<times> manifest_summary \<Rightarrow> string list list \<Rightarrow> generate_exit option" where
  "generate_main w can_open opts initialCwd loaded commands =
     (case loaded of
        (Some err, _) \<Rightarrow> Some (1, None)
      | (None, stat) \<Rightarrow>
          (let manifestPath = go_manifestPath opts;
               doc = requested_document (go_mode opts) stat manifestPath;
               bridgePath = bridge_path manifestPath;
               bridgeText = buildBridgeTranslationUnitText (normalizePath initialCwd manifestPath) stat
           in if commands = [] then Some (2, None)
              else map_option
                (\<lambda>((doc, outBuffer), good). if good then write_output can_open (go_outputPath opts) outBuffer else (1, None))
                (tool_run w (bridgePath, bridgeText) manifestPath (map (adjust_arguments manifestPath bridgePath initialCwd) commands) (doc, []))))"

subsection \<open>All or nothing\<close>

lemma for_each_errors:
  fixes doc :: "('t, 'z) document"
  assumes "\<And>x d d'. f x d = Some d' \<Longrightarrow> dc_errors d' = dc_errors d" "for_each f xs doc = Some doc'"
  shows "dc_errors doc' = dc_errors doc"
  using assms(2)
proof (induction xs arbitrary: doc)
  case (Cons x xs)
  then obtain d where "f x doc = Some d" "for_each f xs d = Some doc'" by (auto split: option.splits)
  then show ?case using assms(1) Cons.IH by metis
qed simp

lemma make_procs_errors:
  fixes doc :: "('t, 'z) document"
  assumes "make_procs C m doc = Some doc'"
  shows "dc_errors doc' = dc_errors doc"
proof -
  let ?doc = "filter_callbacks (mt_namedCallbackBySignature m) (filter_functions (mt_functionByName m) doc)"
  have f: "dc_errors ?doc = dc_errors doc"
    using filter_functions_decls [of "mt_functionByName m" doc GuestToHost] filter_callbacks_types [of "mt_namedCallbackBySignature m" "filter_functions (mt_functionByName m) doc"]
    by auto
  obtain d where d: "for_each (add_functions C m) [GuestToHost, HostToGuest] ?doc = Some d" "add_callbacks C m d = Some doc'"
    using assms unfolding make_procs_def Option.bind_eq_Some_conv by blast
  have e: "dc_errors d' = dc_errors d" if "add_function C m dir x d = Some d'" for dir x and d d' :: "('t, 'z) document"
    using that by (cases x) (auto simp: add_function_emplaces emplace_proc_def put_procs_def)
  have c: "dc_errors d' = dc_errors d" if "add_callback C m x dir d = Some d'" for dir x and d d' :: "('t, 'z) document"
    using that by (auto simp: add_callback_emplaces emplace_proc_def put_procs_def)
  have "dc_errors d = dc_errors ?doc" by (rule for_each_errors [OF _ d(1)]) (auto simp: add_functions_def intro: for_each_errors e)
  moreover have "dc_errors doc' = dc_errors d"
    by (rule for_each_errors [OF _ d(2) [unfolded add_callbacks_def]]) (erule for_each_errors [rotated], rule c)
  ultimately show ?thesis using f by simp
qed

lemma collect_procs_errors:
  "collect_procs C template_params results doc = Some (doc', good) \<Longrightarrow> set (dc_errors doc) \<subseteq> set (dc_errors doc')"
  by (auto simp: collect_procs_def Let_def reportError_def make_procs_errors split: option.splits)

lemma begin_hooks_registered: "begin_hooks err (pass_maps_of (tu :: 't translation_unit)) doc = Some doc"
proof -
  have "\<forall>pass \<in> set ps. p_beginProcessDocument pass = Some \<Longrightarrow> \<exists>good. run_hooks err (map p_beginProcessDocument ps) doc = Some (doc, good)" for ps :: "'t generate_pass list" and doc
    by (induction ps) auto
  moreover have "\<forall>pass \<in> set (all_passes (pass_maps_of tu)). p_beginProcessDocument pass = Some"
    unfolding all_passes_of by (auto simp: registered_passes_def pass_defs)
  ultimately show ?thesis by (auto simp: begin_hooks_def)
qed

lemma begin_keeps_errors:
  assumes "beginProcessDocument C template_params (pass_maps_of tu) results doc = Some doc'" "hasErrorOccurred doc"
  shows "hasErrorOccurred doc'"
  using assms by (auto simp: beginProcessDocument_def begin_hooks_registered hasErrorOccurred_def dest!: collect_procs_errors split: option.splits bool.splits)

definition registry_complete :: "'t generate_world \<Rightarrow> bool" where
  "registry_complete w \<longleftrightarrow> (\<forall>tu. mset (gw_registry w tu) = mset (registered_passes tu))"

text \<open>What one error-free command adds to the buffer.\<close>

definition clean_output :: "'t generate_world \<Rightarrow> string \<times> string \<Rightarrow> string \<Rightarrow> string list \<Rightarrow> string \<Rightarrow> bool" where
  "clean_output w bridge manifestStatPath args out \<longleftrightarrow>
     snd (gw_parse w bridge args) = [] \<and>
     (\<exists>doc doc'. generated_text w (fst (gw_parse w bridge args)) manifestStatPath doc = Some (out, doc') \<and> dc_errors doc = [] \<and> dc_errors doc' = [])"

lemma run_command_clean:
  assumes "registry_complete w" "run_command w bridge path (doc, buf) args = Some ((doc', buf'), True)"
  shows "\<exists>out. buf' = buf @ out \<and> clean_output w bridge path args out"
proof -
  obtain tu errors where p: "gw_parse w bridge args = (tu, errors)" by fastforce
  have m: "beginSourceFileAction (map Some (gw_registry w tu)) = pass_maps_of tu"
    using assms(1) by (intro registry_order) (simp add: registry_complete_def)
  let ?doc = "doc\<lparr>dc_errors := errors, dc_passState := empty_pass_state\<rparr>"
  have h: "HandleTranslationUnit w tu path ?doc buf = Some (doc', buf')" "\<not> hasErrorOccurred doc'"
    using assms(2) by (auto simp: run_command_def p split: prod.splits)
  obtain d1 where d1: "beginProcessDocument (tu_types tu) (tu_template_params tu) (pass_maps_of tu) (tu_matches tu) ?doc = Some d1"
    using h(1) by (auto simp: HandleTranslationUnit_def Let_def m Option.bind_eq_Some_conv)
  have e1: "\<not> hasErrorOccurred d1" using h by (auto simp: HandleTranslationUnit_def Let_def m d1)
  then have "errors = []" using begin_keeps_errors [OF d1] by (auto simp: hasErrorOccurred_def)
  moreover obtain d2 where d2: "handleTranslationUnit (pass_maps_of tu) d1 = Some d2" "\<not> hasErrorOccurred d2"
    using h e1 by (auto simp: HandleTranslationUnit_def Let_def m d1 Option.bind_eq_Some_conv split: if_splits)
  moreover obtain d3 where d3: "end_document (pass_maps_of tu) d2 = Some d3" "\<not> hasErrorOccurred d3"
    using h e1 d2 by (auto simp: HandleTranslationUnit_def Let_def m d1 Option.bind_eq_Some_conv split: if_splits)
  moreover obtain out where "generated_text w tu path d3 = Some (out, doc')" "buf' = buf @ out"
    using h e1 d2 d3 by (auto simp: HandleTranslationUnit_def Let_def m d1 Option.bind_eq_Some_conv split: if_splits)
  ultimately show ?thesis using p h(2) by (auto simp: clean_output_def hasErrorOccurred_def)
qed

lemma tool_run_clean:
  assumes "registry_complete w" "tool_run w bridge path commands (doc, buf) = Some ((doc', buf'), True)"
  shows "\<exists>outs. buf' = buf @ concat outs \<and> list_all2 (clean_output w bridge path) commands outs"
  using assms(2)
proof (induction commands arbitrary: doc buf)
  case Nil
  then show ?case by auto
next
  case (Cons args commands)
  then obtain d b where r: "run_command w bridge path (doc, buf) args = Some ((d, b), True)"
    "tool_run w bridge path commands (d, b) = Some ((doc', buf'), True)" by (auto split: option.splits)
  from run_command_clean [OF assms(1) r(1)] obtain out where o: "b = buf @ out" "clean_output w bridge path args out" by auto
  from Cons.IH [OF r(2)] obtain outs where "buf' = b @ concat outs" "list_all2 (clean_output w bridge path) commands outs" by auto
  then show ?case using o by (intro exI [of _ "out # outs"]) simp
qed


definition empty_unit :: "plain_type translation_unit" where
  "empty_unit = \<lparr>tu_types = plain_c, tu_depth = 1, tu_template_params = demo_params, tu_matches = [ProcFn_template 1], tu_filters = [],
     tu_vargEntries = [Some CInt]\<rparr>"

definition demo_generate_world :: "plain_type generate_world" where
  "demo_generate_world = \<lparr>gw_registry = registered_passes, gw_getInvokeAlias = (\<lambda>_ _ _ _. Inl []), gw_warning = (\<lambda>path. path),
     gw_parse = (\<lambda>_ _. (empty_unit, []))\<rparr>"

definition clean_document :: "'t generate_document \<Rightarrow> bool" where
  "clean_document doc \<longleftrightarrow> dc_errors doc = [] \<and> dc_procs doc = (\<lambda>_ _. []) \<and> dc_functionDecls doc = (\<lambda>_. []) \<and> dc_callbackTypes doc = []"

lemma demo_collect:
  "clean_document doc \<Longrightarrow> beginProcessDocument plain_c demo_params (pass_maps_of tu) [ProcFn_template 1] doc = Some doc"
  by (simp add: beginProcessDocument_def collect_procs_def matchCallback_def matches_init_def alias_maker_initialize_def demo_params_def
      check_enum_param_def make_procs_def filter_functions_def filter_callbacks_def add_functions_def add_callbacks_def clean_document_def
      begin_hooks_registered)

lemma run_hooks_state:
  assumes "\<forall>h \<in> set hs. \<forall>st. \<exists>st'. h (doc\<lparr>dc_passState := st\<rparr>) = Some (doc\<lparr>dc_passState := st'\<rparr>)" "dc_errors doc = []"
  shows "\<exists>st'. run_hooks hasErrorOccurred hs (doc\<lparr>dc_passState := st\<rparr>) = Some (doc\<lparr>dc_passState := st'\<rparr>, True)"
  using assms(1)
proof (induction hs arbitrary: st)
  case Nil
  then show ?case by auto
next
  case (Cons h hs)
  then obtain st1 where "h (doc\<lparr>dc_passState := st\<rparr>) = Some (doc\<lparr>dc_passState := st1\<rparr>)" by fastforce
  then show ?case using Cons assms(2) by (simp add: hasErrorOccurred_def)
qed

lemma demo_handle:
  assumes "clean_document doc"
  shows "\<exists>st. handleTranslationUnit (pass_maps_of empty_unit) doc = Some (doc\<lparr>dc_passState := st\<rparr>)"
proof -
  have e: "dc_errors doc = []" using assms by (simp add: clean_document_def)
  have "\<exists>st'. p_handleTranslationUnit pass (doc\<lparr>dc_passState := st\<rparr>) = Some (doc\<lparr>dc_passState := st'\<rparr>)"
    if "pass \<in> set (registered_passes empty_unit)" for pass st
  proof -
    have "\<exists>st'. p_handleTranslationUnit (LibCFormatPass empty_unit lf) (doc\<lparr>dc_passState := st\<rparr>) = Some (doc\<lparr>dc_passState := st'\<rparr>)" for lf
      using e by (simp add: LibCFormatPass_def Let_def libc_handleTranslationUnit_def hasErrorOccurred_def empty_unit_def) blast
    then show ?thesis using that by (auto simp: registered_passes_def pass_defs Let_def)
  qed
  then have "\<forall>h \<in> set (map p_handleTranslationUnit (all_passes (pass_maps_of empty_unit))). \<forall>st. \<exists>st'. h (doc\<lparr>dc_passState := st\<rparr>) = Some (doc\<lparr>dc_passState := st'\<rparr>)"
    by (auto simp: all_passes_of)
  from run_hooks_state [OF this e, of "dc_passState doc"] show ?thesis
    by (auto simp: handleTranslationUnit_def handle_hooks_def)
qed

lemma demo_end: "clean_document doc \<Longrightarrow> end_document (pass_maps_of empty_unit) doc = Some doc"
proof -
  assume c: "clean_document doc"
  then have r: "proc_refs doc = []" "\<not> hasErrorOccurred doc" by (simp_all add: proc_refs_def clean_document_def hasErrorOccurred_def)
  have s: "select_tasks hasErrorOccurred reportError (pass_maps_of empty_unit) [] doc = Some (Continue doc [])"
    using r(2) by (simp add: select_tasks_def unless_error_def appendBuilderPassTasks_def) (simp add: pass_maps_of_eq ID_DefaultBuilder_def)
  have "\<forall>pass \<in> set ps. p_endProcessDocument pass = Some \<Longrightarrow> \<exists>good. run_hooks hasErrorOccurred (map p_endProcessDocument ps) doc = Some (doc, good)"
    for ps :: "plain_type generate_pass list" by (induction ps) auto
  moreover have "\<forall>pass \<in> set (all_passes (pass_maps_of empty_unit)). p_endProcessDocument pass = Some"
    unfolding all_passes_of by (auto simp: registered_passes_def pass_defs)
  ultimately show ?thesis
    unfolding end_document_def r(1) endProcessDocument_run [OF s] by (auto simp: hook_sequence_def)
qed

lemma demo_generate:
  "clean_document doc \<Longrightarrow> \<exists>out. generated_text demo_generate_world empty_unit path doc = Some (out, doc) \<and> out \<noteq> []"
  by (auto simp: clean_document_def generated_text_def generateOutput_def emitExportedAliases_def emitForeachMacros_def
      emitProcTexts_def all_procs_def hasErrorOccurred_def Let_def)


end
