(* ===== verification/Dump_Command.thy ===== *)
theory Dump_Command
  imports File_Paths Config_File Ordered_Map Source_Text
begin

text \<open>
  The command \<open>TLC dump\<close> (\<open>src/tools/TLC/Commands/Dump.cpp\<close>): the header that includes what declares the
  functions of a configuration, with fallback declarations for those that only a source file has. The AST
  is a parameter: declarations with their locations, and types with their sugar.
\<close>

subsection \<open>Paths of sources\<close>

text \<open>\<open>llvm::sys::path::extension\<close>, from the last dot of the file name on.\<close>

definition path_extension :: "string \<Rightarrow> string" where
  "path_extension path =
     (let fname = rev (takeWhile (\<lambda>c. c \<noteq> CHR ''/'') (rev path)) in
      if fname = ''.'' \<or> fname = ''..'' then []
      else (case rfind_char (CHR ''.'') fname of None \<Rightarrow> [] | Some pos \<Rightarrow> drop pos fname))"

definition lowerExtension :: "string \<Rightarrow> string" where
  "lowerExtension path = map c_tolower (path_extension path)"

definition isLikelyHeaderPath :: "string \<Rightarrow> bool" where
  "isLikelyHeaderPath path \<longleftrightarrow>
     lowerExtension path \<in> {''.h'', ''.hh'', ''.hpp'', ''.hxx'', ''.h++'', ''.inc'', ''.inl'', ''.tcc''}"

definition isSupportedSourcePath :: "string \<Rightarrow> bool" where
  "isSupportedSourcePath path \<longleftrightarrow>
     lowerExtension path \<in> {''.c'', ''.cc'', ''.cpp'', ''.cxx'', ''.c++'', ''.m'', ''.mm''}"

definition normalizeCompileCommandPath :: "string \<times> string \<Rightarrow> string" where
  "normalizeCompileCommandPath command =
     (case command of (directory, filename) \<Rightarrow>
        lexically_normal (if is_relative filename then fs_append directory filename else filename))"

subsection \<open>State\<close>

record resolved_function =
  rf_headerPaths :: "string list"
  rf_nonHeaderPaths :: "string list"

record captured_type =
  cap_originalText :: string
  cap_pointerLike :: bool
  cap_headerPaths :: "string list"
  cap_nonHeaderPaths :: "string list"
  cap_dependencyNames :: "string list"

record captured_function =
  cf_sourcePath :: string
  cf_sourceLocation :: string
  cf_returnType :: captured_type
  cf_params :: "(string \<times> captured_type) list"
  cf_variadic :: bool

text \<open>The requested functions with the sections that name them, and what the sources showed.\<close>

record dump_state =
  du_requested :: "(string \<times> string list) list"
  du_resolved :: "(string \<times> resolved_function) list"
  du_captured :: "(string \<times> captured_function) list"

definition collectRequestedFunctionsFromSection ::
    "config \<Rightarrow> string \<Rightarrow> (string \<times> string list) list \<Rightarrow> (string \<times> string list) list" where
  "collectRequestedFunctionsFromSection c sectionName requested =
     (case cfg_get c sectionName of
        None \<Rightarrow> requested
      | Some sec \<Rightarrow>
          fold (\<lambda>(name, _) requested.
            if name = [] then requested
            else omap_update name (\<lambda>secs. oset_insert sectionName (case secs of None \<Rightarrow> [] | Some secs \<Rightarrow> secs)) requested)
            (m_keyValues sec) requested)"

definition loadRequestedFunctions :: "config \<Rightarrow> (string \<times> string list) list" where
  "loadRequestedFunctions c =
     collectRequestedFunctionsFromSection c ''Guest Function'' (collectRequestedFunctionsFromSection c ''Function'' [])"

subsection \<open>The declarations a type depends on\<close>

text \<open>A declaration with its name and the file of its expansion, if there is a location.\<close>

record named_decl =
  nd_name :: string
  nd_file :: "string option"

text \<open>
  Types with their sugar, as the queries of Clang give it: the six wrappers that are looked through,
  the four kinds of types with a declaration, and the parts of the others.
\<close>

record 't sugared_types =
  su_types :: "'t clang_types"
  su_adjusted :: "'t \<Rightarrow> 't option"
  su_decayed :: "'t \<Rightarrow> 't option"
  su_paren :: "'t \<Rightarrow> 't option"
  su_attributed :: "'t \<Rightarrow> 't option"
  su_macro :: "'t \<Rightarrow> 't option"
  su_elaborated :: "'t \<Rightarrow> 't option"
  su_builtin :: "'t \<Rightarrow> bool"
  su_typedef :: "'t \<Rightarrow> named_decl option"
  su_using :: "'t \<Rightarrow> named_decl option"
  su_enum :: "'t \<Rightarrow> named_decl option"
  su_record :: "'t \<Rightarrow> named_decl option"
  su_pointee :: "'t \<Rightarrow> 't option"
  su_referent :: "'t \<Rightarrow> 't option"
  su_element :: "'t \<Rightarrow> 't option"
  su_proto :: "'t \<Rightarrow> ('t \<times> 't list) option"
  su_noproto :: "'t \<Rightarrow> 't option"

text \<open>The first of several queries that has an answer.\<close>

definition or_else :: "'a option \<Rightarrow> 'a option \<Rightarrow> 'a option" where
  "or_else a b = (case a of None \<Rightarrow> b | Some _ \<Rightarrow> a)"

definition sugar_inside :: "'t sugared_types \<Rightarrow> 't \<Rightarrow> 't option" where
  "sugar_inside S t =
     or_else (su_adjusted S t) (or_else (su_decayed S t) (or_else (su_paren S t)
       (or_else (su_attributed S t) (or_else (su_macro S t) (su_elaborated S t)))))"

text \<open>The loop may run as long as there are wrappers; \<open>None\<close> is a loop that does not end.\<close>

partial_function (option) peel_sugar :: "'t sugared_types \<Rightarrow> 't \<Rightarrow> 't option" where
  "peel_sugar S t = (case sugar_inside S t of None \<Rightarrow> Some t | Some u \<Rightarrow> peel_sugar S u)"

declare peel_sugar.simps [code]

definition addNamedDeclDependency :: "string \<Rightarrow> named_decl \<Rightarrow> captured_type \<Rightarrow> captured_type" where
  "addNamedDeclDependency cwd decl out =
     (let out = (if nd_name decl \<noteq> [] then out\<lparr>cap_dependencyNames := oset_insert (nd_name decl) (cap_dependencyNames out)\<rparr> else out)
      in case nd_file decl of
           None \<Rightarrow> out
         | Some fileName \<Rightarrow>
             if fileName = [] then out
             else
               (let normalizedPath = normalizePath cwd fileName in
                if isLikelyHeaderPath normalizedPath
                then out\<lparr>cap_headerPaths := oset_insert normalizedPath (cap_headerPaths out)\<rparr>
                else out\<lparr>cap_nonHeaderPaths := oset_insert normalizedPath (cap_nonHeaderPaths out)\<rparr>))"

definition type_decl :: "'t sugared_types \<Rightarrow> 't \<Rightarrow> named_decl option" where
  "type_decl S t = or_else (su_typedef S t) (or_else (su_using S t) (or_else (su_enum S t) (su_record S t)))"

text \<open>The parts of a type without a declaration, in the order they are visited.\<close>

definition type_parts :: "'t sugared_types \<Rightarrow> 't \<Rightarrow> 't list" where
  "type_parts S t =
     (case su_pointee S t of Some u \<Rightarrow> [u] | None \<Rightarrow>
     (case su_referent S t of Some u \<Rightarrow> [u] | None \<Rightarrow>
     (case su_element S t of Some u \<Rightarrow> [u] | None \<Rightarrow>
     (case su_proto S t of Some (ret, params) \<Rightarrow> ret # params | None \<Rightarrow>
     (case su_noproto S t of Some ret \<Rightarrow> [ret] | None \<Rightarrow> [])))))"

text \<open>The fuel bounds how deep types are nested.\<close>

fun collectTypeDependencies :: "'t sugared_types \<Rightarrow> string \<Rightarrow> nat \<Rightarrow> 't \<Rightarrow> captured_type \<Rightarrow> captured_type option" where
  "collectTypeDependencies S cwd 0 t out = None"
| "collectTypeDependencies S cwd (Suc n) t out =
     (case peel_sugar S t of
        None \<Rightarrow> None
      | Some t \<Rightarrow>
          if su_builtin S t then Some out
          else (case type_decl S t of
                  Some decl \<Rightarrow> Some (addNamedDeclDependency cwd decl out)
                | None \<Rightarrow> for_each (collectTypeDependencies S cwd n) (type_parts S t) out))"

definition captureType :: "'t sugared_types \<Rightarrow> string \<Rightarrow> nat \<Rightarrow> 't \<Rightarrow> captured_type option" where
  "captureType S cwd n t =
     collectTypeDependencies S cwd n t
       \<lparr>cap_originalText = getTypeStringDecompound (su_types S) t, cap_pointerLike = isPointerType (su_types S) t,
        cap_headerPaths = [], cap_nonHeaderPaths = [], cap_dependencyNames = []\<rparr>"

subsection \<open>The functions of a translation unit\<close>

text \<open>A declaration of a function; the location is that of its expansion, with the text Clang prints for it.\<close>

record 't dump_decl =
  dd_name :: string
  dd_cLinkage :: bool
  dd_location :: "(string \<times> string) option"
  dd_returnType :: 't
  dd_params :: "(string \<times> 't) list"
  dd_variadic :: bool

fun captureParams :: "'t sugared_types \<Rightarrow> string \<Rightarrow> nat \<Rightarrow> nat \<Rightarrow> (string \<times> 't) list \<Rightarrow> (string \<times> captured_type) list option" where
  "captureParams S cwd n index [] = Some []"
| "captureParams S cwd n index ((name, t) # params) = do {
     cap \<leftarrow> captureType S cwd n t;
     rest \<leftarrow> captureParams S cwd n (index + 1) params;
     Some ((if name = [] then ''arg'' @ std_to_string (index + 1) else name, cap) # rest)
   }"

definition captureFunction :: "'t sugared_types \<Rightarrow> string \<Rightarrow> nat \<Rightarrow> 't dump_decl \<Rightarrow> captured_function option" where
  "captureFunction S cwd n decl = do {
     ret \<leftarrow> captureType S cwd n (dd_returnType decl);
     params \<leftarrow> captureParams S cwd n 0 (dd_params decl);
     Some \<lparr>cf_sourcePath = (case dd_location decl of
              Some (fileName, _) \<Rightarrow> if fileName \<noteq> [] then normalizePath cwd fileName else [] | None \<Rightarrow> []),
       cf_sourceLocation = (case dd_location decl of Some (_, loc) \<Rightarrow> loc | None \<Rightarrow> []),
       cf_returnType = ret, cf_params = params, cf_variadic = dd_variadic decl\<rparr>
   }"

definition resolve_path :: "string \<Rightarrow> resolved_function option \<Rightarrow> resolved_function" where
  "resolve_path path r =
     (let r = (case r of None \<Rightarrow> \<lparr>rf_headerPaths = [], rf_nonHeaderPaths = []\<rparr> | Some r \<Rightarrow> r) in
      if isLikelyHeaderPath path then r\<lparr>rf_headerPaths := oset_insert path (rf_headerPaths r)\<rparr>
      else r\<lparr>rf_nonHeaderPaths := oset_insert path (rf_nonHeaderPaths r)\<rparr>)"

definition dump_match :: "'t sugared_types \<Rightarrow> string \<Rightarrow> nat \<Rightarrow> 't dump_decl \<Rightarrow> dump_state \<Rightarrow> dump_state option" where
  "dump_match S cwd n decl st =
     (if \<not> dd_cLinkage decl then Some st
      else if map_of (du_requested st) (dd_name decl) = None then Some st
      else
        (case dd_location decl of
           None \<Rightarrow> Some st
         | Some (fileName, _) \<Rightarrow>
             if fileName = [] then Some st
             else
               (let normalizedPath = normalizePath cwd fileName;
                    st = st\<lparr>du_resolved := omap_update (dd_name decl) (resolve_path normalizedPath) (du_resolved st)\<rparr>
                in if isLikelyHeaderPath normalizedPath \<or> map_of (du_captured st) (dd_name decl) \<noteq> None then Some st
                   else map_option (\<lambda>fn. st\<lparr>du_captured := omap_set (dd_name decl) fn (du_captured st)\<rparr>)
                     (captureFunction S cwd n decl))))"

subsection \<open>Fallback declarations\<close>

fun joinSet :: "string list \<Rightarrow> string" where
  "joinSet [] = []"
| "joinSet [s] = s"
| "joinSet (s # t # ss) = s @ '', '' @ joinSet (t # ss)"

definition appendReason :: "string \<Rightarrow> string \<Rightarrow> string" where
  "appendReason txt reason = (if txt \<noteq> [] then txt @ ''; '' @ reason else reason)"

definition formatTypeTextWithName :: "string \<Rightarrow> string \<Rightarrow> string" where
  "formatTypeTextWithName typeText name =
     (if typeText \<noteq> [] \<and> \<not> ends_with typeText ''*'' then typeText @ '' '' @ name else typeText @ name)"

definition isSafeBuiltinPointerBaseToken :: "string \<Rightarrow> bool" where
  "isSafeBuiltinPointerBaseToken token \<longleftrightarrow> token \<in> set
     [''void'', ''char'', ''short'', ''int'', ''long'', ''float'', ''double'', ''_Bool'', ''bool'', ''size_t'', ''ssize_t'', ''ptrdiff_t'',
      ''intptr_t'', ''uintptr_t'', ''int8_t'', ''uint8_t'', ''int16_t'', ''uint16_t'', ''int32_t'', ''uint32_t'', ''int64_t'', ''uint64_t'',
      ''intmax_t'', ''uintmax_t'', ''wchar_t'']"

definition is_word_char :: "char \<Rightarrow> bool" where
  "is_word_char c \<longleftrightarrow>
     is_digit c \<or> 65 \<le> (of_char c :: nat) \<and> (of_char c :: nat) \<le> 90 \<or> 97 \<le> (of_char c :: nat) \<and> (of_char c :: nat) \<le> 122 \<or> c = CHR ''_''"

text \<open>The words of a text between other characters.\<close>

fun words_of :: "string \<Rightarrow> string \<Rightarrow> string list" where
  "words_of cur [] = (if cur = [] then [] else [cur])"
| "words_of cur (c # cs) =
     (if is_word_char c then words_of (cur @ [c]) cs
      else (if cur = [] then [] else [cur]) @ words_of [] cs)"

definition skipped_token :: "string \<Rightarrow> bool" where
  "skipped_token token \<longleftrightarrow> token \<in> set
     [''const'', ''volatile'', ''restrict'', ''__restrict'', ''__restrict__'', ''signed'', ''unsigned'', ''struct'', ''union'', ''enum'', ''__typeof__'']"

definition looksLikeUnresolvedNamedPointerType :: "string \<Rightarrow> bool" where
  "looksLikeUnresolvedNamedPointerType typeText =
     (case List.find (\<lambda>token. \<not> skipped_token token) (words_of [] typeText) of
        None \<Rightarrow> False | Some token \<Rightarrow> \<not> isSafeBuiltinPointerBaseToken token)"

record type_decision =
  td_allowed :: bool
  td_rewrittenToVoidPtr :: bool
  td_emittedTypeText :: string
  td_reason :: string

definition decideFallbackType :: "captured_type \<Rightarrow> string list \<Rightarrow> bool \<Rightarrow> type_decision" where
  "decideFallbackType type knownHeaders isReturnType =
     (let hasUnknownHeaderDeps = list_ex (\<lambda>h. h \<notin> set knownHeaders) (cap_headerPaths type);
          hasNonHeaderDeps = (cap_nonHeaderPaths type \<noteq> []);
          hasUnresolvedNamedPointer = (cap_pointerLike type \<and> cap_headerPaths type = [] \<and> cap_nonHeaderPaths type = [] \<and>
            looksLikeUnresolvedNamedPointerType (cap_originalText type));
          fullyKnown = (\<not> hasUnknownHeaderDeps \<and> \<not> hasNonHeaderDeps)
      in if fullyKnown \<and> \<not> hasUnresolvedNamedPointer then
           \<lparr>td_allowed = True, td_rewrittenToVoidPtr = False, td_emittedTypeText = cap_originalText type, td_reason = []\<rparr>
         else
           (let reason = [];
                reason = (if hasUnknownHeaderDeps
                  then appendReason reason (''requires types from headers not already included: '' @ joinSet (cap_headerPaths type)) else reason);
                reason = (if hasNonHeaderDeps
                  then appendReason reason (''references types only seen in non-header files: '' @ joinSet (cap_nonHeaderPaths type)) else reason);
                reason = (if hasUnresolvedNamedPointer
                  then appendReason reason ''pointee type could not be resolved to an included header'' else reason)
            in if cap_pointerLike type then
                 \<lparr>td_allowed = True, td_rewrittenToVoidPtr = True, td_emittedTypeText = ''void *'', td_reason = reason\<rparr>
               else
                 \<lparr>td_allowed = False, td_rewrittenToVoidPtr = False, td_emittedTypeText = [],
                  td_reason = (if reason = [] then (if isReturnType then ''unsupported return type'' else ''unsupported parameter type'') else reason)\<rparr>))"

record decl_decision =
  de_allowed :: bool
  de_declText :: string
  de_notes :: "string list"
  de_errors :: "string list"

definition quoted :: "string \<Rightarrow> string" where
  "quoted txt = [CHR 0x60] @ txt @ [CHR 0x60]"

text \<open>The parameters one after the other: the text so far, whether it is still empty, and the notes; or the error with the notes before it.\<close>

fun decide_params :: "string list \<Rightarrow> (string \<times> captured_type) list \<Rightarrow> string \<Rightarrow> bool \<Rightarrow> string list \<Rightarrow> string \<times> string list + string \<times> bool \<times> string list" where
  "decide_params knownHeaders [] decl first notes = Inr (decl, first, notes)"
| "decide_params knownHeaders ((pname, type) # params) decl first notes =
     (let d = decideFallbackType type knownHeaders False in
      if \<not> td_allowed d then
        Inl (''parameter '' @ quoted pname @ '' of type '' @ quoted (cap_originalText type) @ '' cannot be emitted: '' @ td_reason d, notes)
      else
        decide_params knownHeaders params
          (decl @ (if first then [] else '', '') @ formatTypeTextWithName (td_emittedTypeText d) pname) False
          (if td_rewrittenToVoidPtr d
           then notes @ [''parameter '' @ quoted pname @ '' rewritten: '' @ quoted (cap_originalText type) @ '' -> '' @ quoted ''void *'' @
             '' because '' @ td_reason d]
           else notes))"

definition buildFallbackDeclDecision :: "string \<Rightarrow> captured_function \<Rightarrow> string list \<Rightarrow> decl_decision" where
  "buildFallbackDeclDecision name fn knownHeaders =
     (let r = decideFallbackType (cf_returnType fn) knownHeaders True;
          ret = quoted (cap_originalText (cf_returnType fn))
      in if \<not> td_allowed r then
           \<lparr>de_allowed = False, de_declText = [], de_notes = [], de_errors = [''return type '' @ ret @ '' cannot be emitted: '' @ td_reason r]\<rparr>
         else
           (let notes = (if td_rewrittenToVoidPtr r
                  then [''return type rewritten: '' @ ret @ '' -> '' @ quoted ''void *'' @ '' because '' @ td_reason r] else [])
            in case decide_params knownHeaders (cf_params fn) (td_emittedTypeText r @ '' '' @ name @ ''('') True notes of
                 Inl (err, notes) \<Rightarrow> \<lparr>de_allowed = False, de_declText = [], de_notes = notes, de_errors = [err]\<rparr>
               | Inr (decl, first, notes) \<Rightarrow>
                   (let (decl, first) = (if cf_variadic fn then (decl @ (if first then [] else '', '') @ ''...'', False) else (decl, first))
                    in \<lparr>de_allowed = True, de_declText = decl @ (if first then ''void'' else []) @ '');'', de_notes = notes, de_errors = []\<rparr>)))"

subsection \<open>The header file\<close>

text \<open>The lists of functions: missing ones, those in non-header files only, and for each header those it declares.\<close>

record dump_lists =
  dl_missing :: "string list"
  dl_nonHeaderOnly :: "string list"
  dl_headers :: "(string \<times> string list) list"

definition describeFunction :: "string \<times> string list \<Rightarrow> string" where
  "describeFunction requested = (case requested of (name, sections) \<Rightarrow> name @ '' ['' @ joinSet sections @ '']'')"

definition append_description :: "string \<Rightarrow> string list option \<Rightarrow> string list" where
  "append_description description ds = (case ds of None \<Rightarrow> [] | Some ds \<Rightarrow> ds) @ [description]"

definition list_function :: "(string \<times> resolved_function) list \<Rightarrow> string \<times> string list \<Rightarrow> dump_lists \<Rightarrow> dump_lists" where
  "list_function resolved requested out =
     (let r = map_of resolved (fst requested) in
      if r = None \<or> rf_headerPaths (the r) = [] then
        (if r \<noteq> None \<and> rf_nonHeaderPaths (the r) \<noteq> []
         then out\<lparr>dl_nonHeaderOnly := dl_nonHeaderOnly out @
           [describeFunction requested @ '' found only in non-header files: '' @ joinSet (rf_nonHeaderPaths (the r))]\<rparr>
         else out\<lparr>dl_missing := dl_missing out @ [describeFunction requested @ '' missing'']\<rparr>)
      else
        (let description = describeFunction requested @
           (if rf_nonHeaderPaths (the r) \<noteq> [] then '' (also seen in non-header files)'' else [])
         in out\<lparr>dl_headers := fold (\<lambda>h. omap_update h (append_description description)) (rf_headerPaths (the r)) (dl_headers out)\<rparr>))"

definition function_lists :: "dump_state \<Rightarrow> dump_lists" where
  "function_lists st =
     fold (list_function (du_resolved st)) (du_requested st) \<lparr>dl_missing = [], dl_nonHeaderOnly = [], dl_headers = []\<rparr>"

record fallback_output =
  fb_functionName :: string
  fb_sourcePath :: string
  fb_sourceLocation :: string
  fb_declText :: string
  fb_notes :: "string list"
  fb_errors :: "string list"

definition fallback_for :: "dump_state \<Rightarrow> string list \<Rightarrow> string \<Rightarrow> fallback_output option" where
  "fallback_for st knownHeaders name =
     (case map_of (du_resolved st) name of
        None \<Rightarrow> None
      | Some r \<Rightarrow>
          if rf_headerPaths r \<noteq> [] then None
          else map_option (\<lambda>fn.
            let decision = buildFallbackDeclDecision name fn knownHeaders in
            \<lparr>fb_functionName = name, fb_sourcePath = cf_sourcePath fn, fb_sourceLocation = cf_sourceLocation fn,
             fb_declText = (if de_allowed decision then de_declText decision else []), fb_notes = de_notes decision,
             fb_errors = de_errors decision\<rparr>) (map_of (du_captured st) name))"

definition known_headers :: "dump_state \<Rightarrow> string list" where
  "known_headers st = map fst (dl_headers (function_lists st))"

definition fallback_outputs :: "dump_state \<Rightarrow> fallback_output list" where
  "fallback_outputs st =
     List.map_filter (\<lambda>(name, _). fallback_for st (known_headers st) name) (du_requested st)"

definition starred :: "string \<Rightarrow> string" where
  "starred txt = '' * '' @ txt @ eol"

definition comment_open :: string where "comment_open = ''/*'' @ eol"
definition comment_close :: string where "comment_close = '' */'' @ eol"

definition appendFunctionListComment :: "string \<Rightarrow> string list \<Rightarrow> string" where
  "appendFunctionListComment title ls =
     comment_open @ starred title @ concat (map (\<lambda>l. starred (''- '' @ l)) ls) @ comment_close"

definition escapeForInclude :: "string \<Rightarrow> string" where
  "escapeForInclude path = concat (map (\<lambda>ch. if ch = CHR 0x5C \<or> ch = CHR 0x22 then [CHR 0x5C, ch] else [ch]) path)"

definition header_text :: "string \<times> string list \<Rightarrow> string" where
  "header_text entry = (case entry of (headerPath, functions) \<Rightarrow>
     appendFunctionListComment ''Functions declared in this header:'' (sort functions) @
     ''#include '' @ [CHR 0x22] @ escapeForInclude headerPath @ [CHR 0x22] @ eol @ eol)"

definition fallback_text :: "fallback_output \<Rightarrow> string" where
  "fallback_text fb =
     comment_open @ starred (''Fallback for '' @ fb_functionName fb) @
     (if fb_sourcePath fb \<noteq> [] then starred (''Source: '' @ fb_sourcePath fb) else []) @
     (if fb_sourceLocation fb \<noteq> [] then starred (''Source location: '' @ fb_sourceLocation fb) else []) @
     (if fb_notes fb = [] then starred ''Rewrites: none''
      else starred ''Rewrites:'' @ concat (map (\<lambda>note. starred (''- '' @ note)) (fb_notes fb))) @
     (if fb_errors fb \<noteq> []
      then starred ''Status: cannot synthesize declaration'' @ concat (map (\<lambda>err. starred (''- '' @ err)) (fb_errors fb))
      else starred ''Status: declaration synthesized below'') @
     comment_close @
     (if fb_errors fb = [] then fb_declText fb @ eol @ eol else eol)"

definition buildOutput :: "string \<Rightarrow> dump_state \<Rightarrow> string" where
  "buildOutput configPath st =
     (let ls = function_lists st; fallbackDecls = fallback_outputs st in
      ''#pragma once'' @ eol @ eol @
      comment_open @ starred ''Auto-generated by LoreTLC dump.'' @ starred (''Config: '' @ configPath) @ comment_close @ eol @
      (if dl_missing ls \<noteq> []
       then appendFunctionListComment ''Missing configured functions:'' (sort (dl_missing ls)) @ eol else []) @
      (if dl_nonHeaderOnly ls \<noteq> []
       then appendFunctionListComment ''Configured functions found only in non-header files:'' (sort (dl_nonHeaderOnly ls)) @ eol else []) @
      concat (map header_text (dl_headers ls)) @
      (if fallbackDecls \<noteq> []
       then comment_open @ starred ''Fallback declarations synthesized from non-header source files.'' @
         starred ''These are emitted after all includes so they may reuse already included types.'' @ comment_close @ eol @
         concat (map fallback_text (sort_key fb_functionName fallbackDecls))
       else []))"

subsection \<open>The command\<close>

definition unique_sources :: "(string \<times> string) list \<Rightarrow> (string \<times> string) list" where
  "unique_sources commands =
     fold (\<lambda>command sources.
       let normalized = normalizeCompileCommandPath command in
       if \<not> isSupportedSourcePath normalized then sources else omap_emplace normalized (snd command) sources) commands []"

text \<open>The sources named on the command line, or all of the database; its commands are directories with file names.\<close>

definition source_path_list :: "string list \<Rightarrow> (string \<times> string) list \<Rightarrow> string list" where
  "source_path_list sourcePaths commands =
     filter isSupportedSourcePath (if sourcePaths \<noteq> [] then sourcePaths else map snd (unique_sources commands))"

text \<open>
  The tool on the selected sources: the declarations matched in each, with the result of the tool. The
  configuration is what \<open>load\<close> left, if it succeeded; \<open>database\<close> is \<open>None\<close> where none is found.
\<close>

definition dump_sources :: "'t sugared_types \<Rightarrow> string \<Rightarrow> nat \<Rightarrow> 't dump_decl list list \<Rightarrow> dump_state \<Rightarrow> dump_state option" where
  "dump_sources S cwd n units st = for_each (\<lambda>decls. for_each (dump_match S cwd n) decls) units st"

record dump_options =
  do_configPath :: string
  do_outputPath :: string
  do_sourcePaths :: "string list"

definition dump_main ::
    "'t sugared_types \<Rightarrow> nat \<Rightarrow> (string list \<Rightarrow> 't dump_decl list list \<times> nat) \<Rightarrow> (string \<Rightarrow> bool) \<Rightarrow> dump_options \<Rightarrow> string \<Rightarrow>
       parse_result \<times> config \<Rightarrow> (string \<times> string) list option \<Rightarrow> (nat \<times> (string \<times> string) option) option" where
  "dump_main S n run_tool can_open opts cwd loaded database =
     (case loaded of (res, config) \<Rightarrow>
        if \<not> success res then Some (1, None)
        else
          (case database of
             None \<Rightarrow> Some (1, None)
           | Some commands \<Rightarrow>
               (let sources = source_path_list (do_sourcePaths opts) commands in
                if sources = [] then Some (1, None)
                else
                  (case run_tool sources of
                     (units, ret) \<Rightarrow>
                       map_option (\<lambda>st.
                         if ret \<noteq> 0 then (ret, None)
                         else
                           (let path = (if do_outputPath opts = [] then ''-'' else do_outputPath opts) in
                            if can_open path then (0, Some (path, buildOutput (do_configPath opts) st)) else (1, None)))
                       (dump_sources S cwd n units
                          \<lparr>du_requested = loadRequestedFunctions config, du_resolved = [], du_captured = []\<rparr>)))))"

subsection \<open>Dependencies\<close>

text \<open>The declarations reached from a type, and their files.\<close>

inductive depends :: "'t sugared_types \<Rightarrow> 't \<Rightarrow> named_decl \<Rightarrow> bool" for S where
  direct: "peel_sugar S t = Some u \<Longrightarrow> \<not> su_builtin S u \<Longrightarrow> type_decl S u = Some d \<Longrightarrow> depends S t d"
| part: "peel_sugar S t = Some u \<Longrightarrow> \<not> su_builtin S u \<Longrightarrow> type_decl S u = None \<Longrightarrow> v \<in> set (type_parts S u) \<Longrightarrow> depends S v d \<Longrightarrow> depends S t d"

inductive_cases dependsE: "depends S t d"

definition decl_files :: "'t sugared_types \<Rightarrow> string \<Rightarrow> 't \<Rightarrow> string set" where
  "decl_files S cwd t = {normalizePath cwd f | d f. depends S t d \<and> nd_file d = Some f \<and> f \<noteq> []}"

text \<open>Types are finite: looking through sugar and into parts makes them smaller.\<close>

definition types_nest :: "'t sugared_types \<Rightarrow> ('t \<Rightarrow> nat) \<Rightarrow> bool" where
  "types_nest S m \<longleftrightarrow>
     (\<forall>t u. sugar_inside S t = Some u \<longrightarrow> m u < m t) \<and> (\<forall>t. \<forall>u \<in> set (type_parts S t). m u < m t)"

lemma peel_sugar_ends: "types_nest S m \<Longrightarrow> \<exists>u. peel_sugar S t = Some u \<and> m u \<le> m t"
proof (induction "m t" arbitrary: t rule: less_induct)
  case less
  show ?case
  proof (cases "sugar_inside S t")
    case None
    then show ?thesis by (subst peel_sugar.simps) simp
  next
    case (Some u)
    then have "m u < m t" using less.prems by (simp add: types_nest_def)
    then obtain v where "peel_sugar S u = Some v" "m v \<le> m u" using less by blast
    then show ?thesis using Some \<open>m u < m t\<close> by (subst peel_sugar.simps) auto
  qed
qed

lemma for_each_total: "(\<And>x s. x \<in> set xs \<Longrightarrow> f x s \<noteq> None) \<Longrightarrow> for_each f xs s \<noteq> None"
proof (induction xs arbitrary: s)
  case (Cons x xs)
  from Cons.prems [of x s] obtain s' where "f x s = Some s'" by auto
  moreover have "for_each f xs s' \<noteq> None" using Cons.prems by (intro Cons.IH) simp
  ultimately show ?case by simp
qed simp

lemma dependencies_end: "types_nest S m \<Longrightarrow> m t < n \<Longrightarrow> collectTypeDependencies S cwd n t out \<noteq> None"
proof (induction n arbitrary: t out)
  case (Suc n)
  obtain u where u: "peel_sugar S t = Some u" "m u \<le> m t" using peel_sugar_ends [OF Suc.prems(1)] by blast
  have "for_each (collectTypeDependencies S cwd n) (type_parts S u) out \<noteq> None"
  proof (rule for_each_total)
    fix v s
    assume "v \<in> set (type_parts S u)"
    then have "m v < m u" using Suc.prems(1) by (simp add: types_nest_def)
    then show "collectTypeDependencies S cwd n v s \<noteq> None" using Suc.IH [OF Suc.prems(1), of v s] Suc.prems(2) u(2) by linarith
  qed
  then show ?case by (auto simp: u(1) split: option.split)
qed simp

definition gains :: "string set \<Rightarrow> captured_type \<Rightarrow> captured_type \<Rightarrow> bool" where
  "gains files a b \<longleftrightarrow>
     set (cap_headerPaths b) = set (cap_headerPaths a) \<union> {f \<in> files. isLikelyHeaderPath f} \<and>
     set (cap_nonHeaderPaths b) = set (cap_nonHeaderPaths a) \<union> {f \<in> files. \<not> isLikelyHeaderPath f} \<and>
     cap_originalText b = cap_originalText a \<and> cap_pointerLike b = cap_pointerLike a"

lemma gains_refl: "gains {} a a" by (simp add: gains_def)

lemma gains_trans: "gains F a b \<Longrightarrow> gains G b c \<Longrightarrow> gains (F \<union> G) a c"
  by (auto simp: gains_def)

lemma add_decl_gains:
  "gains (case nd_file d of Some f \<Rightarrow> if f = [] then {} else {normalizePath cwd f} | None \<Rightarrow> {}) out (addNamedDeclDependency cwd d out)"
  by (auto simp: gains_def addNamedDeclDependency_def Let_def split: option.split)

lemma for_each_gains:
  assumes "\<And>x a b. x \<in> set xs \<Longrightarrow> f x a = Some b \<Longrightarrow> gains (F x) a b" "for_each f xs a = Some b"
  shows "gains (\<Union> (F ` set xs)) a b"
  using assms
proof (induction xs arbitrary: a)
  case (Cons x xs)
  then obtain c where c: "f x a = Some c" "for_each f xs c = Some b" by (auto split: option.splits)
  have "gains (F x) a c" "gains (\<Union> (F ` set xs)) c b" using Cons.prems(1) Cons.IH [OF _ c(2)] c(1) by auto
  from gains_trans [OF this] show ?case by simp
qed (simp add: gains_refl)

lemma depends_iff:
  assumes "peel_sugar S t = Some u"
  shows "depends S t e \<longleftrightarrow> \<not> su_builtin S u \<and>
    (case type_decl S u of Some d \<Rightarrow> e = d | None \<Rightarrow> \<exists>v \<in> set (type_parts S u). depends S v e)"
  using assms by (subst depends.simps) (auto split: option.split)

lemma decl_files_iff:
  assumes "peel_sugar S t = Some u"
  shows "decl_files S cwd t = (if su_builtin S u then {} else
    (case type_decl S u of
       Some d \<Rightarrow> (case nd_file d of Some f \<Rightarrow> if f = [] then {} else {normalizePath cwd f} | None \<Rightarrow> {})
     | None \<Rightarrow> \<Union> (decl_files S cwd ` set (type_parts S u))))"
  unfolding decl_files_def depends_iff [OF assms] by (cases "type_decl S u") (auto split: option.split)

lemma dependencies_gain:
  "collectTypeDependencies S cwd n t out = Some out' \<Longrightarrow> gains (decl_files S cwd t) out out'"
proof (induction n arbitrary: t out out')
  case (Suc n)
  obtain u where u: "peel_sugar S t = Some u" using Suc.prems by (auto split: option.splits)
  show ?case
  proof (cases "su_builtin S u")
    case True
    then show ?thesis using Suc.prems by (simp add: u decl_files_iff [OF u] gains_refl)
  next
    case False
    show ?thesis
    proof (cases "type_decl S u")
      case None
      have "for_each (collectTypeDependencies S cwd n) (type_parts S u) out = Some out'" using Suc.prems u None False by simp
      from for_each_gains [where F = "decl_files S cwd", OF Suc.IH this] show ?thesis by (simp add: decl_files_iff [OF u] None False)
    next
      case (Some d)
      then have "out' = addNamedDeclDependency cwd d out" using Suc.prems u False by simp
      then show ?thesis using add_decl_gains [where d = d and cwd = cwd and out = out] by (simp only: decl_files_iff [OF u] False if_False Some option.case)
    qed
  qed
qed simp

text \<open>A type with a spelling, and whether the headers have all it depends on.\<close>

lemma captureType_spec:
  assumes "types_nest S m" "m t < n"
  shows "\<exists>cap. captureType S cwd n t = Some cap \<and> cap_originalText cap = getTypeStringDecompound (su_types S) t \<and>
    cap_pointerLike cap = isPointerType (su_types S) t \<and>
    set (cap_headerPaths cap) = {f \<in> decl_files S cwd t. isLikelyHeaderPath f} \<and>
    set (cap_nonHeaderPaths cap) = {f \<in> decl_files S cwd t. \<not> isLikelyHeaderPath f}"
proof -
  obtain cap where "captureType S cwd n t = Some cap" using dependencies_end [OF assms] by (auto simp: captureType_def)
  then show ?thesis using dependencies_gain by (fastforce simp: captureType_def gains_def)
qed

subsection \<open>What a fallback declaration says\<close>

definition available :: "'t sugared_types \<Rightarrow> string \<Rightarrow> string list \<Rightarrow> 't \<Rightarrow> bool" where
  "available S cwd knownHeaders t \<longleftrightarrow> (\<forall>f \<in> decl_files S cwd t. isLikelyHeaderPath f \<and> f \<in> set knownHeaders)"

definition emitted_type :: "'t sugared_types \<Rightarrow> string \<Rightarrow> string list \<Rightarrow> 't \<Rightarrow> string" where
  "emitted_type S cwd knownHeaders t =
     (let txt = getTypeStringDecompound (su_types S) t in
      if available S cwd knownHeaders t \<and>
         \<not> (isPointerType (su_types S) t \<and> decl_files S cwd t = {} \<and> looksLikeUnresolvedNamedPointerType txt)
      then txt else ''void *'')"

definition captured_as :: "'t sugared_types \<Rightarrow> string \<Rightarrow> 't \<Rightarrow> captured_type \<Rightarrow> bool" where
  "captured_as S cwd t cap \<longleftrightarrow> cap_originalText cap = getTypeStringDecompound (su_types S) t \<and>
    cap_pointerLike cap = isPointerType (su_types S) t \<and>
    set (cap_headerPaths cap) = {f \<in> decl_files S cwd t. isLikelyHeaderPath f} \<and>
    set (cap_nonHeaderPaths cap) = {f \<in> decl_files S cwd t. \<not> isLikelyHeaderPath f}"

lemma decide_spec:
  assumes "captured_as S cwd t cap"
  shows "td_allowed (decideFallbackType cap knownHeaders r) \<longleftrightarrow> available S cwd knownHeaders t \<or> isPointerType (su_types S) t"
    "td_allowed (decideFallbackType cap knownHeaders r) \<Longrightarrow> td_emittedTypeText (decideFallbackType cap knownHeaders r) = emitted_type S cwd knownHeaders t"
proof -
  note c = assms [unfolded captured_as_def]
  have a: "available S cwd knownHeaders t \<longleftrightarrow> \<not> list_ex (\<lambda>h. h \<notin> set knownHeaders) (cap_headerPaths cap) \<and> cap_nonHeaderPaths cap = []"
  proof -
    have "cap_nonHeaderPaths cap = [] \<longleftrightarrow> (\<forall>f \<in> decl_files S cwd t. isLikelyHeaderPath f)"
      using c by (auto simp flip: set_empty)
    then show ?thesis using c by (auto simp: available_def list_ex_iff)
  qed
  have e: "cap_headerPaths cap = [] \<and> cap_nonHeaderPaths cap = [] \<longleftrightarrow> decl_files S cwd t = {}"
    using c by (auto simp flip: set_empty)
  show "td_allowed (decideFallbackType cap knownHeaders r) \<longleftrightarrow> available S cwd knownHeaders t \<or> isPointerType (su_types S) t"
    using c by (auto simp: decideFallbackType_def Let_def a)
  show "td_emittedTypeText (decideFallbackType cap knownHeaders r) = emitted_type S cwd knownHeaders t"
    if "td_allowed (decideFallbackType cap knownHeaders r)"
    using that c e by (auto simp: decideFallbackType_def emitted_type_def Let_def a split: if_splits)
qed

definition param_text :: "'t sugared_types \<Rightarrow> string \<Rightarrow> string list \<Rightarrow> string \<times> 't \<Rightarrow> string" where
  "param_text S cwd knownHeaders p = formatTypeTextWithName (emitted_type S cwd knownHeaders (snd p)) (fst p)"

lemma joinSet_Cons: "joinSet (s # ss) = s @ (if ss = [] then [] else '', '' @ joinSet ss)"
  by (cases ss) simp_all

lemma joinSet_snoc: "joinSet (ss @ [s]) = joinSet ss @ (if ss = [] then [] else '', '') @ s"
  by (induction ss) (simp_all add: joinSet_Cons)

lemma decide_params_spec:
  assumes "list_all2 (\<lambda>(pname, t) (pname', cap). pname' = pname \<and> captured_as S cwd t cap) ps caps"
  shows "if \<forall>t \<in> snd ` set ps. available S cwd knownHeaders t \<or> isPointerType (su_types S) t
    then \<exists>ns'. decide_params knownHeaders caps decl first ns =
      Inr (decl @ (if ps = [] \<or> first then [] else '', '') @ joinSet (map (param_text S cwd knownHeaders) ps), first \<and> ps = [], ns')
    else \<exists>err. decide_params knownHeaders caps decl first ns = Inl err"
  using assms
proof (induction ps caps arbitrary: decl first ns rule: list_all2_induct)
  case Nil
  then show ?case by simp
next
  case (Cons p ps c caps)
  obtain pname t cap where pt: "p = (pname, t)" "c = (pname, cap)" "captured_as S cwd t cap" using Cons(1) by (cases p; cases c) auto
  note d = decide_spec [OF pt(3), of knownHeaders False]
  show ?case
  proof (cases "available S cwd knownHeaders t \<or> isPointerType (su_types S) t")
    case True
    then have a: "td_allowed (decideFallbackType cap knownHeaders False)" using d(1) by simp
    obtain ns1 where step: "decide_params knownHeaders ((pname, cap) # caps) decl first ns =
      decide_params knownHeaders caps (decl @ (if first then [] else '', '') @ param_text S cwd knownHeaders (pname, t)) False ns1"
      using a d(2) [OF a] by (simp add: param_text_def Let_def)
    show ?thesis
      using Cons.IH [of "decl @ (if first then [] else '', '') @ param_text S cwd knownHeaders (pname, t)" False ns1] True
      unfolding pt step by (auto simp: joinSet_Cons split: if_splits)
  next
    case False
    then show ?thesis using d(1) by (simp add: pt Let_def)
  qed
qed

text \<open>Parameters with the names they get.\<close>

definition named_params :: "(string \<times> 't) list \<Rightarrow> (string \<times> 't) list" where
  "named_params ps = map (\<lambda>(i, (name, t)). (if name = [] then ''arg'' @ std_to_string (i + 1) else name, t)) (enumerate 0 ps)"

lemma named_params_types: "snd ` set (named_params ps) = snd ` set ps"
proof -
  have "map snd (named_params ps) = map snd (map snd (enumerate 0 ps))" unfolding named_params_def map_map by (rule map_cong) auto
  also have "map snd (enumerate 0 ps) = ps" by (rule map_snd_enumerate)
  finally show ?thesis by (metis set_map)
qed

lemma captureParams_spec:
  assumes "types_nest S m" "\<forall>t \<in> snd ` set ps. m t < n"
  shows "\<exists>caps. captureParams S cwd n k ps = Some caps \<and>
    list_all2 (\<lambda>(pname, t) (pname', cap). pname' = pname \<and> captured_as S cwd t cap)
      (map (\<lambda>(i, (name, t)). (if name = [] then ''arg'' @ std_to_string (i + 1) else name, t)) (enumerate k ps)) caps"
  using assms(2)
proof (induction ps arbitrary: k)
  case (Cons p ps)
  obtain name t where p: "p = (name, t)" by fastforce
  from captureType_spec [OF assms(1), of t n cwd] Cons.prems obtain cap where "captureType S cwd n t = Some cap" "captured_as S cwd t cap"
    by (auto simp: captured_as_def p)
  moreover from Cons.IH [of "Suc k"] Cons.prems obtain caps where "captureParams S cwd n (Suc k) ps = Some caps"
    "list_all2 (\<lambda>(pname, t) (pname', cap). pname' = pname \<and> captured_as S cwd t cap)
      (map (\<lambda>(i, (name, t)). (if name = [] then ''arg'' @ std_to_string (i + 1) else name, t)) (enumerate (Suc k) ps)) caps" by auto
  ultimately show ?case by (simp add: p)
qed simp

lemma build_allowed:
  assumes "td_allowed (decideFallbackType (cf_returnType fn) knownHeaders True)"
    and "\<And>acc ns. decide_params knownHeaders (cf_params fn) acc True ns = Inr (acc @ txt, none, out acc ns)"
  shows "de_allowed (buildFallbackDeclDecision name fn knownHeaders)" "de_errors (buildFallbackDeclDecision name fn knownHeaders) = []"
    "de_declText (buildFallbackDeclDecision name fn knownHeaders) = td_emittedTypeText (decideFallbackType (cf_returnType fn) knownHeaders True) @ '' '' @
       name @ ''('' @ txt @ (if cf_variadic fn then (if none then [] else '', '') @ ''...'' else if none then ''void'' else []) @ '');''"
  unfolding buildFallbackDeclDecision_def Let_def assms(2) using assms(1) by simp_all

lemma build_refused:
  assumes "td_allowed (decideFallbackType (cf_returnType fn) knownHeaders True) \<Longrightarrow>
      (\<And>acc first ns. \<exists>err. decide_params knownHeaders (cf_params fn) acc first ns = Inl err)"
  shows "\<not> de_allowed (buildFallbackDeclDecision name fn knownHeaders) \<and> de_errors (buildFallbackDeclDecision name fn knownHeaders) \<noteq> []"
proof (cases "td_allowed (decideFallbackType (cf_returnType fn) knownHeaders True)")
  case True
  then obtain err where "\<And>acc first ns. decide_params knownHeaders (cf_params fn) acc first ns = Inl (err acc first ns)"
    using assms by metis
  then show ?thesis by (simp add: buildFallbackDeclDecision_def Let_def True split: prod.split)
qed (simp add: buildFallbackDeclDecision_def Let_def)


subsection \<open>Every requested function is accounted for\<close>

text \<open>The files in which the declarations of a function are.\<close>

definition declared_in :: "string \<Rightarrow> 't dump_decl list \<Rightarrow> string \<Rightarrow> string set" where
  "declared_in cwd decls name =
     {normalizePath cwd f | d f loc. d \<in> set decls \<and> dd_cLinkage d \<and> dd_name d = name \<and> dd_location d = Some (f, loc) \<and> f \<noteq> []}"

text \<open>What is resolved of a function that is declared in \<open>F\<close>.\<close>

definition resolved_as :: "string set \<Rightarrow> resolved_function option \<Rightarrow> bool" where
  "resolved_as F r \<longleftrightarrow>
     (case r of None \<Rightarrow> F = {}
      | Some r \<Rightarrow> F \<noteq> {} \<and> set (rf_headerPaths r) = {p \<in> F. isLikelyHeaderPath p} \<and>
          set (rf_nonHeaderPaths r) = {p \<in> F. \<not> isLikelyHeaderPath p})"

definition scanned_fun :: "string set \<Rightarrow> dump_state \<Rightarrow> string \<Rightarrow> bool" where
  "scanned_fun F st name \<longleftrightarrow> resolved_as F (map_of (du_resolved st) name) \<and>
     (map_of (du_captured st) name \<noteq> None \<longleftrightarrow> (\<exists>p \<in> F. \<not> isLikelyHeaderPath p))"

definition scanned :: "string \<Rightarrow> (string \<times> string list) list \<Rightarrow> 't dump_decl list \<Rightarrow> dump_state \<Rightarrow> bool" where
  "scanned cwd requested decls st \<longleftrightarrow>
     du_requested st = requested \<and> omap_ok (du_resolved st) \<and> omap_ok (du_captured st) \<and>
     (\<forall>name \<in> fst ` set requested. scanned_fun (declared_in cwd decls name) st name)"

lemma declared_in_snoc:
  "declared_in cwd (decls @ [d]) name = declared_in cwd decls name \<union>
     (if dd_cLinkage d \<and> dd_name d = name
      then (case dd_location d of Some (f, _) \<Rightarrow> if f = [] then {} else {normalizePath cwd f} | None \<Rightarrow> {}) else {})"
  by (auto simp: declared_in_def split: option.splits)

lemma scanned_skip:
  assumes "scanned cwd requested decls st"
    and "\<And>name. name \<in> fst ` set requested \<Longrightarrow> declared_in cwd (decls @ [d]) name = declared_in cwd decls name"
  shows "scanned cwd requested (decls @ [d]) st"
  using assms(1) unfolding scanned_def by (simp add: assms(2))

lemma resolve_path_sets:
  "set (rf_headerPaths (resolve_path p r)) = (case r of None \<Rightarrow> {} | Some r \<Rightarrow> set (rf_headerPaths r)) \<union> (if isLikelyHeaderPath p then {p} else {})"
  "set (rf_nonHeaderPaths (resolve_path p r)) = (case r of None \<Rightarrow> {} | Some r \<Rightarrow> set (rf_nonHeaderPaths r)) \<union> (if isLikelyHeaderPath p then {} else {p})"
  by (simp_all add: resolve_path_def Let_def split: option.split)

lemma resolve_path_as: "resolved_as F r \<Longrightarrow> resolved_as (insert p F) (Some (resolve_path p r))"
  by (cases r) (auto simp: resolved_as_def resolve_path_sets)

definition small_decl :: "('t \<Rightarrow> nat) \<Rightarrow> nat \<Rightarrow> 't dump_decl \<Rightarrow> bool" where
  "small_decl m n decl \<longleftrightarrow> (\<forall>t \<in> insert (dd_returnType decl) (snd ` set (dd_params decl)). m t < n)"

lemma captureFunction_ends:
  assumes "types_nest S m" "small_decl m n decl"
  shows "\<exists>fn. captureFunction S cwd n decl = Some fn"
proof -
  from captureType_spec [OF assms(1), of "dd_returnType decl" n cwd] assms(2) obtain ret where
    "captureType S cwd n (dd_returnType decl) = Some ret" by (auto simp: small_decl_def)
  moreover from captureParams_spec [OF assms(1), of "dd_params decl" n cwd 0] assms(2) obtain caps where
    "captureParams S cwd n 0 (dd_params decl) = Some caps" by (auto simp: small_decl_def)
  ultimately show ?thesis by (simp add: captureFunction_def)
qed

lemma dump_match_skips:
  assumes "scanned cwd requested decls st"
    and "\<not> (dd_cLinkage d \<and> dd_name d \<in> fst ` set requested \<and> (\<exists>f loc. dd_location d = Some (f, loc) \<and> f \<noteq> []))"
  shows "dump_match S cwd n d st = Some st" "scanned cwd requested (decls @ [d]) st"
proof -
  have "map_of (du_requested st) (dd_name d) = None \<longleftrightarrow> dd_name d \<notin> fst ` set requested"
    using assms(1) by (simp add: scanned_def map_of_eq_None_iff)
  then show "dump_match S cwd n d st = Some st" using assms(2) by (simp add: dump_match_def split: option.split) blast
  show "scanned cwd requested (decls @ [d]) st"
    by (rule scanned_skip [OF assms(1)]) (use assms(2) in \<open>auto simp: declared_in_snoc split: option.split\<close>)
qed

text \<open>A declaration in a file \<open>p\<close> adds \<open>p\<close> to the files of its function, and to those of no other.\<close>

lemma scanned_step:
  assumes "scanned cwd requested decls st"
    and "\<And>name. declared_in cwd (decls @ [d]) name = (if name = dd_name d then insert p (declared_in cwd decls name) else declared_in cwd decls name)"
    and "du_requested st' = requested" "omap_ok (du_captured st')"
    and "du_resolved st' = omap_update (dd_name d) (resolve_path p) (du_resolved st)"
    and "\<And>name. map_of (du_captured st') name \<noteq> None \<longleftrightarrow>
      map_of (du_captured st) name \<noteq> None \<or> name = dd_name d \<and> \<not> isLikelyHeaderPath p"
  shows "scanned cwd requested (decls @ [d]) st'"
proof -
  have ok: "omap_ok (du_resolved st)" using assms(1) by (simp add: scanned_def)
  have "scanned_fun (declared_in cwd (decls @ [d]) name) st' name" if "name \<in> fst ` set requested" for name
  proof -
    have s: "scanned_fun (declared_in cwd decls name) st name" using assms(1) that unfolding scanned_def by blast
    show ?thesis
    proof (cases "name = dd_name d")
      case True
      then show ?thesis
        using s resolve_path_as [of "declared_in cwd decls name" "map_of (du_resolved st) name" p]
        unfolding scanned_fun_def assms(6) assms(2) assms(5) by (simp add: map_of_update [OF ok]) blast
    next
      case False
      then show ?thesis using s unfolding scanned_fun_def assms(6) assms(2) assms(5) by (simp add: map_of_update [OF ok])
    qed
  qed
  then show ?thesis using assms(3,4) ok by (simp add: scanned_def assms(5) omap_update_ok)
qed

lemma dump_match_scans:
  assumes "types_nest S m" "small_decl m n d" "scanned cwd requested decls st"
  shows "\<exists>st'. dump_match S cwd n d st = Some st' \<and> scanned cwd requested (decls @ [d]) st'"
proof (cases "dd_cLinkage d \<and> dd_name d \<in> fst ` set requested \<and> (\<exists>f loc. dd_location d = Some (f, loc) \<and> f \<noteq> [])")
  case False
  then show ?thesis using dump_match_skips [OF assms(3)] by blast
next
  case True
  then obtain f loc where l: "dd_location d = Some (f, loc)" "f \<noteq> []" by blast
  define p where "p = normalizePath cwd f"
  define st1 where "st1 = st\<lparr>du_resolved := omap_update (dd_name d) (resolve_path p) (du_resolved st)\<rparr>"
  have st: "du_requested st = requested" "omap_ok (du_captured st)" using assms(3) by (simp_all add: scanned_def)
  have dec: "declared_in cwd (decls @ [d]) name = (if name = dd_name d then insert p (declared_in cwd decls name) else declared_in cwd decls name)" for name
    using True l by (simp add: declared_in_snoc p_def)
  obtain secs where req: "map_of requested (dd_name d) = Some secs" using True by (cases "map_of requested (dd_name d)") (auto simp: map_of_eq_None_iff)
  have m: "dump_match S cwd n d st = (if isLikelyHeaderPath p \<or> map_of (du_captured st) (dd_name d) \<noteq> None then Some st1
      else map_option (\<lambda>fn. st1\<lparr>du_captured := omap_set (dd_name d) fn (du_captured st)\<rparr>) (captureFunction S cwd n d))"
    using True l req by (simp add: dump_match_def Let_def st1_def p_def st(1))
  note step = scanned_step [OF assms(3) dec]
  show ?thesis
  proof (cases "isLikelyHeaderPath p \<or> map_of (du_captured st) (dd_name d) \<noteq> None")
    case kept: True
    have "scanned cwd requested (decls @ [d]) st1" by (rule step) (use kept st in \<open>auto simp: st1_def\<close>)
    then show ?thesis using kept by (simp add: m)
  next
    case new: False
    obtain fn where fn: "captureFunction S cwd n d = Some fn" using captureFunction_ends [OF assms(1,2)] by blast
    have "scanned cwd requested (decls @ [d]) (st1\<lparr>du_captured := omap_set (dd_name d) fn (du_captured st)\<rparr>)"
      by (rule step) (use new st in \<open>simp_all add: st1_def map_of_set omap_set_ok\<close>)
    then show ?thesis using new fn by (simp add: m)
  qed
qed

lemma dump_matches_scan:
  assumes "types_nest S m" "\<forall>d \<in> set ds. small_decl m n d" "scanned cwd requested decls st"
  shows "\<exists>st'. for_each (dump_match S cwd n) ds st = Some st' \<and> scanned cwd requested (decls @ ds) st'"
  using assms(2,3)
proof (induction ds arbitrary: decls st)
  case (Cons d ds)
  from dump_match_scans [OF assms(1) _ Cons.prems(2), of n d] Cons.prems(1) obtain st1 where
    1: "dump_match S cwd n d st = Some st1" "scanned cwd requested (decls @ [d]) st1" by auto
  from Cons.IH [OF _ 1(2)] Cons.prems(1) 1(1) show ?case by auto
qed simp

lemma dump_sources_scan:
  assumes "types_nest S m" "\<forall>d \<in> set (concat units). small_decl m n d" "scanned cwd requested decls st"
  shows "\<exists>st'. dump_sources S cwd n units st = Some st' \<and> scanned cwd requested (decls @ concat units) st'"
  using assms(2,3)
proof (induction units arbitrary: decls st)
  case Nil
  then show ?case by (simp add: dump_sources_def)
next
  case (Cons ds units)
  from dump_matches_scan [OF assms(1) _ Cons.prems(2), of ds n] Cons.prems(1) obtain st1 where
    1: "for_each (dump_match S cwd n) ds st = Some st1" "scanned cwd requested (decls @ ds) st1" by auto
  from Cons.IH [OF _ 1(2)] Cons.prems(1) 1(1) show ?case by (auto simp: dump_sources_def)
qed

subsection \<open>The lists of the output\<close>

definition headers_of :: "(string \<times> resolved_function) list \<Rightarrow> string \<Rightarrow> string set" where
  "headers_of resolved name = (case map_of resolved name of None \<Rightarrow> {} | Some r \<Rightarrow> set (rf_headerPaths r))"

definition sources_of :: "(string \<times> resolved_function) list \<Rightarrow> string \<Rightarrow> string set" where
  "sources_of resolved name = (case map_of resolved name of None \<Rightarrow> {} | Some r \<Rightarrow> set (rf_nonHeaderPaths r))"

text \<open>The functions listed under a header.\<close>

definition listed :: "(string \<times> string list) list \<Rightarrow> string \<Rightarrow> string set" where
  "listed m h = (case map_of m h of None \<Rightarrow> {} | Some ds \<Rightarrow> set ds)"

definition header_description :: "(string \<times> resolved_function) list \<Rightarrow> string \<times> string list \<Rightarrow> string" where
  "header_description resolved requested = describeFunction requested @
     (if sources_of resolved (fst requested) \<noteq> {} then '' (also seen in non-header files)'' else [])"

lemma append_headers:
  assumes "omap_ok m"
  shows "omap_ok (fold (\<lambda>h. omap_update h (append_description x)) hs m) \<and>
    fst ` set (fold (\<lambda>h. omap_update h (append_description x)) hs m) = fst ` set m \<union> set hs \<and>
    listed (fold (\<lambda>h. omap_update h (append_description x)) hs m) h = listed m h \<union> (if h \<in> set hs then {x} else {})"
  using assms
proof (induction hs arbitrary: m)
  case (Cons k hs)
  have "listed (omap_update k (append_description x) m) h = listed m h \<union> (if h = k then {x} else {})"
    by (simp add: listed_def map_of_update [OF Cons.prems] append_description_def split: option.split)
  then show ?case using Cons.IH [OF omap_update_ok [OF Cons.prems], of k "append_description x"] by (auto simp: omap_update_keys)
qed simp

lemma list_function_splits:
  "list_function R r out =
     (if headers_of R (fst r) = {} then
        (if sources_of R (fst r) = {} then out\<lparr>dl_missing := dl_missing out @ [describeFunction r @ '' missing'']\<rparr>
         else out\<lparr>dl_nonHeaderOnly := dl_nonHeaderOnly out @
           [describeFunction r @ '' found only in non-header files: '' @ joinSet (rf_nonHeaderPaths (the (map_of R (fst r))))]\<rparr>)
      else out\<lparr>dl_headers := fold (\<lambda>h. omap_update h (append_description (header_description R r)))
        (rf_headerPaths (the (map_of R (fst r)))) (dl_headers out)\<rparr>)"
  by (cases "map_of R (fst r)") (simp_all add: list_function_def Let_def headers_of_def sources_of_def header_description_def)

lemma list_function_step:
  assumes "omap_ok (dl_headers out)"
  shows "omap_ok (dl_headers (list_function R r out)) \<and>
    set (dl_missing (list_function R r out)) = set (dl_missing out) \<union>
      (if headers_of R (fst r) = {} \<and> sources_of R (fst r) = {} then {describeFunction r @ '' missing''} else {}) \<and>
    set (dl_nonHeaderOnly (list_function R r out)) = set (dl_nonHeaderOnly out) \<union>
      (if headers_of R (fst r) = {} \<and> sources_of R (fst r) \<noteq> {}
       then {describeFunction r @ '' found only in non-header files: '' @ joinSet (rf_nonHeaderPaths (the (map_of R (fst r))))} else {}) \<and>
    fst ` set (dl_headers (list_function R r out)) = fst ` set (dl_headers out) \<union> headers_of R (fst r) \<and>
    listed (dl_headers (list_function R r out)) h = listed (dl_headers out) h \<union>
      (if h \<in> headers_of R (fst r) then {header_description R r} else {})"
proof (cases "headers_of R (fst r) = {}")
  case True
  then show ?thesis using assms by (simp add: list_function_splits)
next
  case False
  then have h: "set (rf_headerPaths (the (map_of R (fst r)))) = headers_of R (fst r)" by (simp add: headers_of_def split: option.splits)
  show ?thesis
    using append_headers [OF assms, of "header_description R r" "rf_headerPaths (the (map_of R (fst r)))" h, unfolded h] False
    by (simp add: list_function_splits)
qed

lemma image_filter_insert: "f ` {x \<in> insert a A. P x} = (if P a then {f a} else {}) \<union> f ` {x \<in> A. P x}"
  by auto

lemma lists_account:
  assumes "omap_ok (dl_headers out)"
  shows "set (dl_missing (fold (list_function R) rs out)) = set (dl_missing out) \<union>
      (\<lambda>r. describeFunction r @ '' missing'') ` {r \<in> set rs. headers_of R (fst r) = {} \<and> sources_of R (fst r) = {}} \<and>
    set (dl_nonHeaderOnly (fold (list_function R) rs out)) = set (dl_nonHeaderOnly out) \<union>
      (\<lambda>r. describeFunction r @ '' found only in non-header files: '' @ joinSet (rf_nonHeaderPaths (the (map_of R (fst r))))) `
        {r \<in> set rs. headers_of R (fst r) = {} \<and> sources_of R (fst r) \<noteq> {}} \<and>
    fst ` set (dl_headers (fold (list_function R) rs out)) = fst ` set (dl_headers out) \<union> (\<Union>r \<in> set rs. headers_of R (fst r)) \<and>
    listed (dl_headers (fold (list_function R) rs out)) h = listed (dl_headers out) h \<union>
      header_description R ` {r \<in> set rs. h \<in> headers_of R (fst r)}"
  using assms
proof (induction rs arbitrary: out)
  case (Cons r rs)
  note s = list_function_step [OF Cons.prems, of R r h]
  note i = Cons.IH [OF conjunct1 [OF s]]
  show ?case
    unfolding list.set image_filter_insert fold_Cons o_apply
    by (simp only: i s Un_assoc UN_insert simp_thms)
qed simp

subsection \<open>The whole scan\<close>

definition no_scan :: "(string \<times> string list) list \<Rightarrow> dump_state" where
  "no_scan requested = \<lparr>du_requested = requested, du_resolved = [], du_captured = []\<rparr>"

lemma scanned_start: "scanned cwd requested [] (no_scan requested)"
  by (simp add: scanned_def scanned_fun_def resolved_as_def declared_in_def no_scan_def)

lemma resolved_files:
  "resolved_as F (map_of R name) \<Longrightarrow>
     headers_of R name = {p \<in> F. isLikelyHeaderPath p} \<and> sources_of R name = {p \<in> F. \<not> isLikelyHeaderPath p}"
  by (auto simp: resolved_as_def headers_of_def sources_of_def split: option.splits)

lemma fallback_for_names:
  assumes "scanned_fun F st name"
  shows "case fallback_for st hs name of
      Some fb \<Rightarrow> fb_functionName fb = name \<and> F \<noteq> {} \<and> {p \<in> F. isLikelyHeaderPath p} = {}
    | None \<Rightarrow> \<not> (F \<noteq> {} \<and> {p \<in> F. isLikelyHeaderPath p} = {})"
proof (cases "map_of (du_resolved st) name")
  case None
  then show ?thesis using assms by (simp add: fallback_for_def scanned_fun_def resolved_as_def)
next
  case (Some r)
  then have r: "F \<noteq> {}" "set (rf_headerPaths r) = {p \<in> F. isLikelyHeaderPath p}" using assms by (simp_all add: scanned_fun_def resolved_as_def)
  then have h: "rf_headerPaths r = [] \<longleftrightarrow> {p \<in> F. isLikelyHeaderPath p} = {}" by (simp flip: set_empty)
  show ?thesis
  proof (cases "rf_headerPaths r = []")
    case True
    then have "\<exists>p \<in> F. \<not> isLikelyHeaderPath p" using h r(1) by blast
    then obtain fn where "map_of (du_captured st) name = Some fn" using assms by (auto simp: scanned_fun_def)
    then show ?thesis using True h r(1) Some by (simp add: fallback_for_def Let_def)
  next
    case False
    then show ?thesis using h Some by (simp add: fallback_for_def)
  qed
qed

lemma fallback_names:
  assumes "\<forall>name \<in> fst ` set rs. scanned_fun (F name) st name"
  shows "fb_functionName ` set (List.map_filter (\<lambda>(name, _). fallback_for st hs name) rs) =
    {name \<in> fst ` set rs. F name \<noteq> {} \<and> {p \<in> F name. isLikelyHeaderPath p} = {}}"
  using assms
proof (induction rs)
  case (Cons r rs)
  obtain name secs where r: "r = (name, secs)" by fastforce
  have i: "fb_functionName ` set (List.map_filter (\<lambda>(name, _). fallback_for st hs name) rs) =
    {name \<in> fst ` set rs. F name \<noteq> {} \<and> {p \<in> F name. isLikelyHeaderPath p} = {}}" using Cons by simp
  have n: "scanned_fun (F name) st name" using Cons.prems r by simp
  show ?case
    using fallback_for_names [OF n, of hs] i by (cases "fallback_for st hs name") (auto simp: r)
qed simp

text \<open>
  C11. The scan of the sources ends, for all types that are finite, and accounts for every function of the configuration:
  it is listed as missing exactly if no scanned source declares it, it is listed under exactly those headers that declare it,
  which are the included ones, and it has a fallback exactly if it is declared but by no header.
\<close>

theorem dump_accounts:
  assumes "types_nest S m" "\<forall>d \<in> set (concat units). small_decl m n d"
  shows "\<exists>st. dump_sources S cwd n units (no_scan requested) = Some st \<and>
    (let F = declared_in cwd (concat units); H = (\<lambda>name. {p \<in> F name. isLikelyHeaderPath p}) in
     set (dl_missing (function_lists st)) = (\<lambda>r. describeFunction r @ '' missing'') ` {r \<in> set requested. F (fst r) = {}} \<and>
     set (known_headers st) = (\<Union>r \<in> set requested. H (fst r)) \<and>
     (\<forall>h. listed (dl_headers (function_lists st)) h =
       (\<lambda>r. describeFunction r @ (if H (fst r) \<noteq> F (fst r) then '' (also seen in non-header files)'' else [])) ` {r \<in> set requested. h \<in> H (fst r)}) \<and>
     fb_functionName ` set (fallback_outputs st) = {name \<in> fst ` set requested. F name \<noteq> {} \<and> H name = {}})"
proof -
  define F where "F = declared_in cwd (concat units)"
  define H where "H = (\<lambda>name. {p \<in> F name. isLikelyHeaderPath p})"
  from dump_sources_scan [OF assms scanned_start] obtain st where
    st: "dump_sources S cwd n units (no_scan requested) = Some st" "scanned cwd requested (concat units) st" by auto
  then have s: "du_requested st = requested" "\<forall>name \<in> fst ` set requested. scanned_fun (F name) st name" by (simp_all add: scanned_def F_def)
  have f: "headers_of (du_resolved st) (fst r) = H (fst r) \<and> sources_of (du_resolved st) (fst r) = F (fst r) - H (fst r)" if "r \<in> set requested" for r
    using resolved_files [of "F (fst r)" "du_resolved st" "fst r"] s(2) that by (auto simp: scanned_fun_def H_def)
  have sub: "H name \<subseteq> F name" for name by (auto simp: H_def)
  note l = lists_account [of "\<lparr>dl_missing = [], dl_nonHeaderOnly = [], dl_headers = []\<rparr>" "du_resolved st" requested, simplified, folded s(1), folded function_lists_def, unfolded s(1)]
  have "set (dl_missing (function_lists st)) = (\<lambda>r. describeFunction r @ '' missing'') ` {r \<in> set requested. F (fst r) = {}}"
  proof -
    have "{r \<in> set requested. headers_of (du_resolved st) (fst r) = {} \<and> sources_of (du_resolved st) (fst r) = {}} = {r \<in> set requested. F (fst r) = {}}"
      using f sub by (intro Collect_cong conj_cong refl) (use f sub in fastforce)
    then show ?thesis using l by simp
  qed
  moreover have "set (known_headers st) = (\<Union>r \<in> set requested. H (fst r))" using l f by (simp add: known_headers_def)
  moreover have "listed (dl_headers (function_lists st)) h =
      (\<lambda>r. describeFunction r @ (if H (fst r) \<noteq> F (fst r) then '' (also seen in non-header files)'' else [])) ` {r \<in> set requested. h \<in> H (fst r)}" for h
  proof -
    have "listed (dl_headers (function_lists st)) h = header_description (du_resolved st) ` {r \<in> set requested. h \<in> headers_of (du_resolved st) (fst r)}"
      using l [of h] by (simp add: listed_def)
    also have "\<dots> = header_description (du_resolved st) ` {r \<in> set requested. h \<in> H (fst r)}" using f by (metis (mono_tags, lifting))
    also have "\<dots> = (\<lambda>r. describeFunction r @ (if H (fst r) \<noteq> F (fst r) then '' (also seen in non-header files)'' else [])) ` {r \<in> set requested. h \<in> H (fst r)}"
      by (rule image_cong) (use f in \<open>auto simp: header_description_def dest: sub [THEN subsetD]\<close>)
    finally show ?thesis .
  qed
  moreover have "fb_functionName ` set (fallback_outputs st) = {name \<in> fst ` set requested. F name \<noteq> {} \<and> H name = {}}"
    using fallback_names [OF s(2)] by (simp add: fallback_outputs_def s(1) H_def)
  ultimately show ?thesis using st(1) by (auto simp: Let_def F_def H_def)
qed

subsection \<open>Examples\<close>

text \<open>\<open>int\<close>, a structure of a source file, and a pointer to it.\<close>

definition demo_sugar :: "nat sugared_types" where
  "demo_sugar = \<lparr>su_types = \<lparr>cl_canonical = id,
       cl_asString = (\<lambda>t. if t = 0 then ''int'' else if t = 1 then ''struct foo'' else ''struct foo *''),
       cl_shape = (\<lambda>t. if t = 0 then Other_ty else if t = 1 then Record_ty [] else Pointer_ty 1),
       cl_pointer = (\<lambda>_. 2), cl_void = 0, cl_depth = (\<lambda>t. if t < 2 then 0 else 1),
       cl_original = (\<lambda>_. None), cl_typedef = (\<lambda>_. None), cl_record = (\<lambda>_. None)\<rparr>,
     su_adjusted = (\<lambda>_. None), su_decayed = (\<lambda>_. None), su_paren = (\<lambda>_. None), su_attributed = (\<lambda>_. None),
     su_macro = (\<lambda>_. None), su_elaborated = (\<lambda>_. None), su_builtin = (\<lambda>t. t = 0),
     su_typedef = (\<lambda>_. None), su_using = (\<lambda>_. None), su_enum = (\<lambda>_. None),
     su_record = (\<lambda>t. if t = 1 then Some \<lparr>nd_name = ''foo'', nd_file = Some ''foo.c''\<rparr> else None),
     su_pointee = (\<lambda>t. if 2 \<le> t then Some 1 else None), su_referent = (\<lambda>_. None), su_element = (\<lambda>_. None),
     su_proto = (\<lambda>_. None), su_noproto = (\<lambda>_. None)\<rparr>"

definition demo_decl :: "string \<Rightarrow> string \<Rightarrow> nat dump_decl" where
  "demo_decl name file = \<lparr>dd_name = name, dd_cLinkage = True, dd_location = Some (file, file @ '':1:5''), dd_returnType = 0,
     dd_params = [(''p'', 2)], dd_variadic = False\<rparr>"

lemma demo_nests: "types_nest demo_sugar id"
  by (simp add: types_nest_def demo_sugar_def sugar_inside_def or_else_def type_parts_def)


text \<open>Three functions of a configuration: one in a header, one in a source only, one nowhere.\<close>

definition demo_units :: "nat dump_decl list list" where
  "demo_units = [[demo_decl ''g'' ''g.h'', demo_decl ''f'' ''f.c''], [demo_decl ''g'' ''g.h'', demo_decl ''other'' ''g.h'']]"

definition demo_requests :: "(string \<times> string list) list" where
  "demo_requests = [(''f'', [''Function'']), (''g'', [''Function'']), (''h'', [''Guest Function''])]"

definition dump_summary :: "dump_state \<Rightarrow> string list \<times> string list \<times> string list" where
  "dump_summary st = (dl_missing (function_lists st), known_headers st, map fb_functionName (fallback_outputs st))"

lemma demo_scan: "map_option dump_summary (dump_sources demo_sugar ''/x'' 3 demo_units (no_scan demo_requests)) =
    Some ([''h [Guest Function] missing''], [''/x/g.h''], [''f''])" by code_simp

lemma demo_units_small: "\<forall>d \<in> set (concat demo_units). small_decl id 3 d"
  by (simp add: demo_units_def demo_decl_def small_decl_def)

lemma dump_summary_fallbacks:
  assumes "dump_summary st = (a, b, c)" "fb_functionName ` set (fallback_outputs st) = A"
  shows "A = set c"
  using assms by (auto simp: dump_summary_def)

lemma dump_accounts_witness:
  "types_nest demo_sugar id \<and> list_all (small_decl id 3) (concat demo_units) \<and>
   (\<exists>st. dump_sources demo_sugar ''/x'' 3 demo_units (no_scan demo_requests) = Some st \<and>
     dump_summary st = ([''h [Guest Function] missing''], [''/x/g.h''], [''f'']) \<and>
     {name \<in> fst ` set demo_requests. declared_in ''/x'' (concat demo_units) name \<noteq> {} \<and>
       {p \<in> declared_in ''/x'' (concat demo_units) name. isLikelyHeaderPath p} = {}} = {''f''})"
proof -
  from dump_accounts [OF demo_nests demo_units_small, of "''/x''" demo_requests] obtain st where
    st: "dump_sources demo_sugar ''/x'' 3 demo_units (no_scan demo_requests) = Some st"
    "fb_functionName ` set (fallback_outputs st) = {name \<in> fst ` set demo_requests. declared_in ''/x'' (concat demo_units) name \<noteq> {} \<and>
       {p \<in> declared_in ''/x'' (concat demo_units) name. isLikelyHeaderPath p} = {}}"
    unfolding Let_def by (elim exE conjE)
  have e: "dump_summary st = ([''h [Guest Function] missing''], [''/x/g.h''], [''f''])"
    using demo_scan unfolding st(1) option.map by (rule option.inject [THEN iffD1])
  show ?thesis
    by (intro conjI exI [of _ st] demo_nests demo_units_small [folded list_all_iff] st(1) e) (use dump_summary_fallbacks [OF e st(2)] in \<open>simp only: list.set\<close>)
qed

end
