(* ===== verification/Spec2Isabelle.thy ===== *)
theory Spec2Isabelle
  imports String_Extras Var_Size_Array Config_File Logging Thunk_Database Variadic Trampoline Invocation
    Library_Names Host_Server Thunk_Context Thread_Hook Manifest_Summary Callback_Stat Document_Context Stat_Command Generate_Command Dump_Command
begin

text \<open>
  Lorelei runs guest programs on a user-mode emulator and lets them call libraries of the host. It has three
  parts. The runtime (\<open>src/modules\<close>, \<open>src/utils\<close>, \<open>src/libs/DLCall\<close>) carries calls across the boundary; the
  thunk library compiler TLC (\<open>src/tools/TLC\<close>, \<open>src/libs/TLCApi\<close>, \<open>src/libs/ClangExtras\<close>) writes the code of
  both sides of a thunk library from a manifest; both rest on small libraries (\<open>src/libs/Support\<close>).
  A library call of the guest goes into the guest half of a thunk library, which packs the arguments and asks the
  host's server for the invocation of the host half; the host half unpacks and calls. Calls back into the
  guest suspend the host function, and callbacks handed over in arguments are replaced by trampolines.

  What is modelled, by theory, and what its lemmas show.

  Support.
  \<^item> \<open>Lore_Prelude\<close>, \<open>Indexed_Store\<close>, \<open>Ordered_Map\<close>, \<open>Byte_Memory\<close> are shared: the members of \<open>std::string\<close> the code
    calls, the vector with an index by key (locale \<open>indexed_store\<close>), \<open>std::map\<close> and \<open>std::set\<close> as lists in key order,
    little-endian words and a memory with unmapped addresses.
  \<^item> \<open>String_Extras\<close> (\<open>StringExtras.cpp\<close>, \<open>.h\<close>): \<open>join\<close>, \<open>split\<close>, \<open>replace\<close>, trimming, \<open>format\<close>, \<open>varexp\<close>, \<open>vasprintf\<close>. The index loops
    are the reference grammars of placeholders and variables; a loop that does not end is \<open>None\<close>.
  \<^item> \<open>Var_Size_Array\<close> (\<open>VarSizeArray.h\<close>): every mutating member over a store of raw, live and moved-from slots. Every sequence of
    operations refines the list operations and meets no raw slot; the destructor frees what was allocated.
  \<^item> \<open>Config_File\<close> (\<open>ConfigFile.cpp\<close>, \<open>.h\<close>): quoting, comments, sections, getters, \<open>load\<close> with includes. The fuel of \<open>load\<close> bounds the
    depth of includes; a ranking of the files gives a depth that is enough, a cycle has none.
  \<^item> \<open>Logging\<close> (\<open>Logging.cpp\<close>, \<open>.h\<close>): the rule grammar, matching, the registry of categories, whose levels always are
    those of the current filter.

  Runtime.
  \<^item> \<open>Thunk_Database\<close> (\<open>ThunkDatabase.cpp\<close>, \<open>.h\<close>): entries with arena pointers, loading, packs, lookups. A pack never displaces an
    entry, the last of a file wins, a lookup is the first match of the abstract list.
  \<^item> \<open>Variadic\<close> (\<open>VariadicArgDefs.h\<close>, \<open>VariadicAdaptor.cpp\<close>, the ffcall back end): boxes as 64-bit words, the dispatch by format
    letters, the Box64 calls. The callee behind ffcall gets the values by position and width.
  \<^item> \<open>Trampoline\<close> (\<open>FunctionTrampoline.cpp\<close>, \<open>Callback.h\<close>, the code generators and shims of the three architectures): the stubs
    are decoded and run instruction by instruction; the interning allocator gives one stub per function
    (locale \<open>stub_allocator\<close>), and a callback that crosses back is the original.
  \<^item> \<open>Invocation\<close> (\<open>Protocol.h\<close>, \<open>TinyCoroutine/Invocation.cpp\<close>, \<open>HostServer.cpp\<close>, \<open>GuestClient.cpp\<close>): guest and host functions as resumptions, the
    stack of suspended invocations, the service loop. The loop refines plain nested calls and ends with room
    on the stack for the depth of the calls.
  \<^item> \<open>Library_Names\<close>, \<open>Host_Server\<close>, \<open>Proc_Defs\<close>, \<open>Thunk_Context\<close> (\<open>NextLibrary.cpp\<close>, \<open>HostServer.cpp\<close>, \<open>HostThunkContext.cpp\<close>, \<open>GuestThunkContext.cpp\<close>,
    \<open>GuestClient.cpp\<close>, \<open>ProcInit.cpp.inc\<close>): names of thunk libraries, discovery of packs, the answers of the server, bringing
    up both halves and exchanging their tables of procs.
  \<^item> \<open>Thread_Hook\<close> (\<open>QEMUThreadHook/main.cpp\<close>, \<open>GuestClient.cpp\<close>): the interposed thread functions, and the handshake with a new
    guest thread as a step relation with its invariant.

  The thunk library compiler.
  \<^item> \<open>Manifest_Summary\<close>, \<open>Callback_Stat\<close>, \<open>Stat_Command\<close> (\<open>ManifestSummary.cpp\<close>, \<open>Commands/Stat.cpp\<close>): the summary and its JSON round trip, the
    functions of a configuration and the callbacks reachable through the types of a seed, and the command, whose file
    \<open>generate\<close> loads as the summary that was meant.
  \<^item> \<open>Source_Text\<close>, \<open>Proc_Snippet\<close> (\<open>SourceLineList.h\<close>, \<open>TypeUtils.cpp\<close>, \<open>FunctionInfo.cpp\<close>, \<open>PassCodeTemplates.h\<close>, \<open>ProcSnippet.cpp\<close>): texts, types as
    Clang gives them (record \<open>clang_types\<close>), signatures, templates and the text of one proc.
  \<^item> \<open>Document_Collect\<close>, \<open>Document_Context\<close> (\<open>DocumentContext.cpp\<close>, \<open>ProcAliasMaker.cpp\<close>): the matches, the procs made of them and the
    translation unit that is written. \<open>Pass_Pipeline\<close> (\<open>Pass.h\<close>, \<open>DocumentContext.cpp\<close>): selection and order of the passes over
    any passes; its locale \<open>stable_tests\<close> is what the selection needs of their tests.
  \<^item> \<open>Thunk_Code\<close> is the specification of the builders: the statements they write, their text, and what running a thunk
    means. \<open>Default_Builder\<close>, \<open>LibC_Format\<close> (\<open>Passes/Builder\<close>): the code of every phase. The texts are those of
    statements that hand the arguments to the function and its result back, with the variadic tail packed by the format.
  \<^item> \<open>Adapt_Filters\<close> (\<open>TypeFilter.cpp\<close>, \<open>GetProcAddress.cpp\<close>), \<open>Callback_Tree\<close>, \<open>Callback_Substituter\<close> (\<open>CallbackSubstituter.cpp\<close>): the statements put into the
    adaptors. The tree of an argument has the ways to its callbacks and no others, and the two emitted walks handle
    each of them once. The fuel of \<open>build\<close> bounds the depth of records; more than the number of field types is enough.
  \<^item> \<open>Generate_Passes\<close>, \<open>File_Paths\<close>, \<open>Generate_Command\<close> (\<open>Commands/Generate.cpp\<close>): the passes of the repository interpret \<open>stable_tests\<close>, so
    which of them run on a proc is known; the command writes a file only if no step had an error.
  \<^item> \<open>Dump_Command\<close> (\<open>Commands/Dump.cpp\<close>): the header for the functions of a configuration. Each function is listed as missing, under
    the headers that declare it, or with a fallback, which spells only types that the included headers have. The fuel of
    \<open>collectTypeDependencies\<close> bounds how deep types are nested.

  Conventions. State is a record passed through the operations; an operation that the source leaves undefined is \<open>None\<close> (or
  an outcome of its own), an error is a value. Machine integers are words, or naturals where the code cannot
  leave their range. Loops that need not end are \<open>partial_function\<close>s or have fuel, and a theorem says when they end. Sets
  and maps with an observable order are lists in key order.

  Not modelled, with the reason.
  \<^item> The patched printf and scanf and json11 under \<open>src/3rdparty\<close> are third-party code: parameters of \<open>Variadic\<close> and \<open>Thunk_Database\<close>.
  \<^item> The register save and switch of the coroutines in assembly (\<open>TinyCoroutine/Arch\<close>) and the raw system calls
    (\<open>GuestRT/Arch\<close>): they are modelled by what they hand over. The libffi back end is compiled out.
  \<^item> Clang, LLVM and the emulator's plugin are libraries: types, matches and mangled names are parameters. What a property needs of
    them is a hypothesis with a witness.
  \<^item> The templates of \<open>ThunkInterface\<close> (manifest macros, proc tables) are instantiated by the build with generated declarations;
    their functions enter the models as the callees they dispatch to.
  \<^item> The HLR tools rewrite sources by calls of Clang's rewriter and preprocessor.
\<close>

end
